(* ===== verification/Prelude.thy ===== *)
theory Prelude
  imports Main "HOL-Library.Word"
begin

text \<open>
  What every component of the model shares.

  \<^item> Python exceptions as values: \<open>exn\<close> and the result type \<open>'a res\<close>, with \<open>rbind\<close> for
    sequencing and \<open>rassert\<close> for an \<open>assert\<close> statement. Messages are dropped.
  \<^item> Stateful code: \<open>('s, 'a) io\<close> is a function from the state to a result \<^emph>\<open>and\<close> the state
    left behind, so the effects done before an exception stay, as in Python.
  \<^item> Python slices and slice assignment with their clamping of indices.
  \<^item> The pseudo-exception \<open>Diverges\<close> is the value of a loop that makes no progress; that a
    loop returns is always proved as the absence of this value.
\<close>

section \<open>Exceptions and results\<close>

datatype exn =
    ValueError
  | AssertionError
  | IndexError
  | KeyError
  | TypeError
  | OverflowError
  | StructError
  | EOFError
  | IOError
  | TimeoutError
  | ZeroDivisionError
  | SyntaxError
  | AttributeError
  | UnicodeError
  | NotInvertibleError
  | GenericException
  | RuntimeError
  | SystemExit
  | Diverges

type_synonym 'a res = "exn + 'a"

definition rbind :: "'a res \<Rightarrow> ('a \<Rightarrow> 'b res) \<Rightarrow> 'b res" where
  "rbind m f = (case m of Inl e \<Rightarrow> Inl e | Inr x \<Rightarrow> f x)"

definition rassert :: "bool \<Rightarrow> unit res" where
  "rassert b = (if b then Inr () else Inl AssertionError)"

fun rmapM :: "('a \<Rightarrow> 'b res) \<Rightarrow> 'a list \<Rightarrow> 'b list res" where
  "rmapM f [] = Inr []"
| "rmapM f (x # xs) = rbind (f x) (\<lambda>y. rbind (rmapM f xs) (\<lambda>ys. Inr (y # ys)))"

lemma rbind_simps [simp]:
  "rbind (Inl e) f = Inl e"
  "rbind (Inr x) f = f x"
  by (simp_all add: rbind_def)

lemma rbind_Inr_iff: "rbind m f = Inr y \<longleftrightarrow> (\<exists>x. m = Inr x \<and> f x = Inr y)"
  by (cases m) auto

lemma rbind_Inl_iff: "rbind m f = Inl e \<longleftrightarrow> m = Inl e \<or> (\<exists>x. m = Inr x \<and> f x = Inl e)"
  by (cases m) auto

lemma rbind_assoc: "rbind (rbind m f) g = rbind m (\<lambda>x. rbind (f x) g)"
  by (cases m) auto

lemma rassert_simps [simp]:
  "rassert True = Inr ()"
  "rassert False = Inl AssertionError"
  "rassert b = Inr u \<longleftrightarrow> b"
  "rassert b = Inl e \<longleftrightarrow> \<not> b \<and> e = AssertionError"
  by (auto simp: rassert_def)

lemma rmapM_Inr_all: "(\<And>x. x \<in> set xs \<Longrightarrow> f x = Inr (g x)) \<Longrightarrow> rmapM f xs = Inr (map g xs)"
  by (induction xs) auto

lemma rmapM_Inr_length: "rmapM f xs = Inr ys \<Longrightarrow> length ys = length xs"
  by (induction xs arbitrary: ys) (auto simp: rbind_Inr_iff)

lemma rmapM_Inr_nth: "rmapM f xs = Inr ys \<Longrightarrow> i < length xs \<Longrightarrow> f (xs ! i) = Inr (ys ! i)"
  by (induction xs arbitrary: ys i) (auto simp: rbind_Inr_iff nth_Cons split: nat.splits)

section \<open>Stateful operations that may raise\<close>

type_synonym ('s, 'a) io = "'s \<Rightarrow> 'a res \<times> 's"

definition io_return :: "'a \<Rightarrow> ('s, 'a) io" where
  "io_return x = (\<lambda>s. (Inr x, s))"

definition io_raise :: "exn \<Rightarrow> ('s, 'a) io" where
  "io_raise e = (\<lambda>s. (Inl e, s))"

definition io_lift :: "'a res \<Rightarrow> ('s, 'a) io" where
  "io_lift r = (\<lambda>s. (r, s))"

definition io_bind :: "('s, 'a) io \<Rightarrow> ('a \<Rightarrow> ('s, 'b) io) \<Rightarrow> ('s, 'b) io" where
  "io_bind m f = (\<lambda>s. case m s of (Inl e, s') \<Rightarrow> (Inl e, s') | (Inr x, s') \<Rightarrow> f x s')"

definition io_get :: "('s \<Rightarrow> 'a) \<Rightarrow> ('s, 'a) io" where
  "io_get f = (\<lambda>s. (Inr (f s), s))"

definition io_modify :: "('s \<Rightarrow> 's) \<Rightarrow> ('s, unit) io" where
  "io_modify f = (\<lambda>s. (Inr (), f s))"

definition io_assert :: "bool \<Rightarrow> ('s, unit) io" where
  "io_assert b = io_lift (rassert b)"

fun io_mapM :: "('a \<Rightarrow> ('s, 'b) io) \<Rightarrow> 'a list \<Rightarrow> ('s, 'b list) io" where
  "io_mapM f [] = io_return []"
| "io_mapM f (x # xs) =
     io_bind (f x) (\<lambda>y. io_bind (io_mapM f xs) (\<lambda>ys. io_return (y # ys)))"

fun io_forM :: "('a \<Rightarrow> ('s, unit) io) \<Rightarrow> 'a list \<Rightarrow> ('s, unit) io" where
  "io_forM f [] = io_return ()"
| "io_forM f (x # xs) = io_bind (f x) (\<lambda>_. io_forM f xs)"

text \<open>The simplifier's form of an immediate result is \<open>Pair\<close> of it.\<close>

lemma io_immediate_simps [simp]:
  "io_return x = Pair (Inr x)"
  "io_raise e = Pair (Inl e)"
  "io_lift r = Pair r"
  by (simp_all add: io_return_def io_raise_def io_lift_def)

lemma io_run_simps [simp]:
  "io_get f s = (Inr (f s), s)"
  "io_modify g s = (Inr (), g s)"
  "io_assert b s = (rassert b, s)"
  by (simp_all add: io_get_def io_modify_def io_assert_def)

lemma io_bind_run:
  "io_bind m f s = (case m s of (Inl e, s') \<Rightarrow> (Inl e, s') | (Inr x, s') \<Rightarrow> f x s')"
  by (simp add: io_bind_def)

lemma io_bind_run_Inr [simp]: "m s = (Inr x, s') \<Longrightarrow> io_bind m f s = f x s'"
  by (simp add: io_bind_run)

lemma io_bind_run_Inl [simp]: "m s = (Inl e, s') \<Longrightarrow> io_bind m f s = (Inl e, s')"
  by (simp add: io_bind_run)

lemma io_bind_simps [simp]:
  "io_bind (Pair (Inr x)) f = f x"
  "io_bind (Pair (Inl e)) f = Pair (Inl e)"
  "io_bind (io_get h) f s = f (h s) s"
  "io_bind (io_modify g) k s = k () (g s)"
  "io_bind (io_assert b) k = (if b then k () else Pair (Inl AssertionError))"
  by (auto simp: io_bind_def fun_eq_iff)

lemma io_bind_return [simp]: "io_bind m (\<lambda>x. Pair (Inr x)) = m"
  by (auto simp: io_bind_def fun_eq_iff split: prod.splits sum.splits)

lemma io_bind_return_unit [simp]: "io_bind m (\<lambda>_. Pair (Inr ())) = m"
  using io_bind_return [of m] by simp

lemma io_bind_lift_run: "io_bind (Pair r) f s = (case r of Inl e \<Rightarrow> (Inl e, s) | Inr x \<Rightarrow> f x s)"
  by (cases r) simp_all

lemma io_bind_assoc: "io_bind (io_bind m f) g = io_bind m (\<lambda>x. io_bind (f x) g)"
  by (auto simp: io_bind_def fun_eq_iff split: prod.splits sum.splits)

lemma io_bind_Inr_iff:
  "io_bind m f s = (Inr y, s'') \<longleftrightarrow> (\<exists>x s'. m s = (Inr x, s') \<and> f x s' = (Inr y, s''))"
  by (auto simp: io_bind_run split: prod.splits sum.splits)

lemma io_bind_Inl_iff:
  "io_bind m f s = (Inl e, s'') \<longleftrightarrow>
     m s = (Inl e, s'') \<or> (\<exists>x s'. m s = (Inr x, s') \<and> f x s' = (Inl e, s''))"
  by (auto simp: io_bind_run split: prod.splits sum.splits)

section \<open>Python slices\<close>

text \<open>
  \<open>xs[i:j]\<close> clamps both indices into \<open>0 .. len(xs)\<close>, negative ones counting from the end.
  \<open>xs[i:j] = ys\<close> on a \<open>bytearray\<close> or a list replaces that part: it grows or shrinks the
  list when \<open>ys\<close> has another length, and appends when \<open>i\<close> is past the end.
\<close>

definition py_clamp :: "nat \<Rightarrow> int \<Rightarrow> nat" where
  "py_clamp n i = (if i < 0 then nat (int n + i) else min (nat i) n)"

definition py_slice :: "'a list \<Rightarrow> int \<Rightarrow> int \<Rightarrow> 'a list" where
  "py_slice xs i j =
     (let a = py_clamp (length xs) i; b = py_clamp (length xs) j in take (b - a) (drop a xs))"

definition py_slice_assign :: "'a list \<Rightarrow> int \<Rightarrow> int \<Rightarrow> 'a list \<Rightarrow> 'a list" where
  "py_slice_assign xs i j ys =
     (let a = py_clamp (length xs) i; b = py_clamp (length xs) j
      in take a xs @ ys @ drop (max a b) xs)"

text \<open>\<open>xs[i]\<close>: a negative index counts from the end.\<close>

definition py_index :: "'a list \<Rightarrow> int \<Rightarrow> 'a res" where
  "py_index xs i =
     (if i < - int (length xs) \<or> int (length xs) \<le> i then Inl IndexError
      else Inr (xs ! nat (if i < 0 then i + int (length xs) else i)))"

lemma py_slice_inside:
  "0 \<le> i \<Longrightarrow> i \<le> j \<Longrightarrow> j \<le> int (length xs) \<Longrightarrow>
     py_slice xs i j = take (nat (j - i)) (drop (nat i) xs)"
  by (simp add: py_slice_def py_clamp_def Let_def nat_diff_distrib)

lemma py_slice_inside_length:
  "0 \<le> i \<Longrightarrow> i \<le> j \<Longrightarrow> j \<le> int (length xs) \<Longrightarrow> length (py_slice xs i j) = nat (j - i)"
  by (simp add: py_slice_inside)

lemma py_slice_inside_nth:
  "0 \<le> i \<Longrightarrow> j \<le> int (length xs) \<Longrightarrow> int k < j - i \<Longrightarrow> py_slice xs i j ! k = xs ! (nat i + k)"
  by (subst py_slice_inside) auto

lemma py_slice_assign_inside:
  "0 \<le> i \<Longrightarrow> i + int (length ys) \<le> int (length xs) \<Longrightarrow>
     py_slice_assign xs i (i + int (length ys)) ys
       = take (nat i) xs @ ys @ drop (nat i + length ys) xs"
  by (simp add: py_slice_assign_def py_clamp_def Let_def nat_add_distrib)

lemma py_slice_assign_inside_length:
  "0 \<le> i \<Longrightarrow> i + int (length ys) \<le> int (length xs) \<Longrightarrow>
     length (py_slice_assign xs i (i + int (length ys)) ys) = length xs"
  by (simp add: py_slice_assign_inside)

lemma py_slice_assign_inside_nth:
  assumes "0 \<le> i" and "i + int (length ys) \<le> int (length xs)" and "k < length xs"
  shows "py_slice_assign xs i (i + int (length ys)) ys ! k =
    (if nat i \<le> k \<and> k < nat i + length ys then ys ! (k - nat i) else xs ! k)"
  using assms by (auto simp: py_slice_assign_inside nth_append)

lemma py_slice_of_assign_same:
  assumes "0 \<le> i" and "i + int (length ys) \<le> int (length xs)"
  shows "py_slice (py_slice_assign xs i (i + int (length ys)) ys) i (i + int (length ys)) = ys"
proof -
  have "nat i \<le> length xs" using assms by simp
  then show ?thesis
    using assms by (simp add: py_slice_inside py_slice_assign_inside)
qed

lemma py_slice_of_assign_other:
  assumes "0 \<le> i" and "i + int (length ys) \<le> int (length xs)"
    and "0 \<le> a" and "a \<le> b" and "b \<le> int (length xs)"
    and "b \<le> i \<or> i + int (length ys) \<le> a"
  shows "py_slice (py_slice_assign xs i (i + int (length ys)) ys) a b = py_slice xs a b"
proof (rule nth_equalityI)
  have len: "length (py_slice_assign xs i (i + int (length ys)) ys) = length xs"
    using assms by (simp add: py_slice_assign_inside_length)
  show "length (py_slice (py_slice_assign xs i (i + int (length ys)) ys) a b)
      = length (py_slice xs a b)"
    using assms by (simp add: py_slice_inside_length len)
  fix k assume "k < length (py_slice (py_slice_assign xs i (i + int (length ys)) ys) a b)"
  then have k: "int k < b - a" using assms by (simp add: py_slice_inside_length len)
  have "nat a + k < length xs" using assms k by linarith
  then show "py_slice (py_slice_assign xs i (i + int (length ys)) ys) a b ! k = py_slice xs a b ! k"
    using assms k by (auto simp: py_slice_inside_nth len py_slice_assign_inside_nth)
qed

lemma py_index_inside: "0 \<le> i \<Longrightarrow> i < int (length xs) \<Longrightarrow> py_index xs i = Inr (xs ! nat i)"
  by (simp add: py_index_def)

lemma py_index_nat: "py_index xs (int m) = (if m < length xs then Inr (xs ! m) else Inl IndexError)"
  by (simp add: py_index_def)

end
