(* ===== verification/Basic.thy ===== *)
theory Basic
  imports Prelude
begin

unbundle bit_operations_syntax

text \<open>
  \<^verbatim>\<open>pip/skmap/src/skmap/basic.py\<close> and the two integer/bytes conversions of Python that the
  whole program rests on, \<^verbatim>\<open>int.from_bytes\<close> and \<^verbatim>\<open>int.to_bytes\<close>. Bytes are 8-bit words;
  Python's unbounded integers are \<open>int\<close>. The lemmas show the round trips of the conversions,
  what \<open>ceil_log2\<close>, \<open>ceil_multiple\<close> and \<open>promote_to_sw_w\<close> compute, and how the bit setters
  act on each bit.
\<close>

type_synonym byte = "8 word"

section \<open>Integers and bytes\<close>

fun le_to_int :: "byte list \<Rightarrow> int" where
  "le_to_int [] = 0"
| "le_to_int (b # bs) = uint b + 256 * le_to_int bs"

fun int_to_le :: "nat \<Rightarrow> int \<Rightarrow> byte list" where
  "int_to_le 0 v = []"
| "int_to_le (Suc n) v = word_of_int v # int_to_le n (v div 256)"

datatype endian = Little | Big

definition from_bytes :: "byte list \<Rightarrow> endian \<Rightarrow> bool \<Rightarrow> int" where
  "from_bytes bs e sgnd =
     (let u = le_to_int (if e = Little then bs else rev bs); m = 256 ^ length bs
      in if sgnd \<and> m \<le> 2 * u then u - m else u)"

definition to_bytes :: "int \<Rightarrow> int \<Rightarrow> endian \<Rightarrow> bool \<Rightarrow> byte list res" where
  "to_bytes v n e sgnd =
     (if n < 0 then Inl ValueError
      else let m = 256 ^ nat n in
        if (if sgnd then - m \<le> 2 * v \<and> 2 * v < m else 0 \<le> v \<and> v < m)
        then Inr (let bs = int_to_le (nat n) v in if e = Little then bs else rev bs)
        else Inl OverflowError)"

lemma length_int_to_le [simp]: "length (int_to_le n v) = n"
  by (induction n arbitrary: v) auto

lemma int_to_le_Nil_iff [simp]: "int_to_le n v = [] \<longleftrightarrow> n = 0"
  by (cases n) simp_all

lemma uint_byte_bounds: "0 \<le> uint (b :: byte) \<and> uint b < 256"
  using uint_lt2p [of b] by simp

lemma le_to_int_bounds: "0 \<le> le_to_int bs \<and> le_to_int bs < 256 ^ length bs"
proof (induction bs)
  case (Cons b bs)
  then show ?case using uint_byte_bounds [of b] by auto
qed simp

lemmas le_to_int_nonneg [simp] = conjunct1 [OF le_to_int_bounds]
lemmas le_to_int_less = conjunct2 [OF le_to_int_bounds]

lemma le_to_int_int_to_le: "le_to_int (int_to_le n v) = v mod 256 ^ n"
proof (induction n arbitrary: v)
  case (Suc n)
  have "uint (word_of_int v :: byte) = v mod 256"
    by (simp add: uint_word_of_int)
  then show ?case
    using Suc by (simp add: zmod_zmult2_eq)
qed simp

lemma int_to_le_le_to_int: "int_to_le (length bs) (le_to_int bs) = bs"
proof (induction bs)
  case (Cons b bs)
  have "(uint b + 256 * le_to_int bs) div 256 = le_to_int bs"
    using uint_byte_bounds [of b] by simp
  moreover have "(word_of_int (uint b + 256 * le_to_int bs) :: byte) = b"
  proof -
    have z: "(256 :: byte) = 0" by simp
    have "256 * x = 0" for x :: byte by (subst z) simp
    then show ?thesis by simp
  qed
  ultimately show ?case using Cons by simp
qed simp

lemma le_to_int_append:
  "le_to_int (xs @ ys) = le_to_int xs + 256 ^ length xs * le_to_int ys"
  by (induction xs) (auto simp: algebra_simps)

lemma le_to_int_inj: "length xs = length ys \<Longrightarrow> le_to_int xs = le_to_int ys \<Longrightarrow> xs = ys"
  by (metis int_to_le_le_to_int)

lemma from_bytes_unsigned [simp]: "from_bytes bs Little False = le_to_int bs"
  by (simp add: from_bytes_def Let_def)

lemma to_bytes_unsigned_little:
  "0 \<le> n \<Longrightarrow> 0 \<le> v \<Longrightarrow> v < 256 ^ nat n \<Longrightarrow> to_bytes v n Little False = Inr (int_to_le (nat n) v)"
  by (simp add: to_bytes_def)

lemma to_bytes_length: "to_bytes v n e sg = Inr bs \<Longrightarrow> 0 \<le> n \<and> length bs = nat n"
  by (auto simp: to_bytes_def Let_def split: if_splits)

lemma mod_pow_neg: "- m \<le> 2 * v \<Longrightarrow> v < 0 \<Longrightarrow> v mod m = v + (m :: int)"
proof -
  assume "- m \<le> 2 * v" "v < 0"
  then have "(v + m) mod m = v + m" by (intro mod_pos_pos_trivial) auto
  then show ?thesis by simp
qed

lemma from_to_bytes:
  assumes "to_bytes v n e sg = Inr bs"
  shows "from_bytes bs e sg = v"
proof -
  let ?m = "(256::int) ^ nat n"
  have bs: "bs = (if e = Little then int_to_le (nat n) v else rev (int_to_le (nat n) v))"
    and rng: "if sg then - ?m \<le> 2 * v \<and> 2 * v < ?m else 0 \<le> v \<and> v < ?m"
    using assms by (auto simp: to_bytes_def Let_def split: if_splits)
  have le: "le_to_int (if e = Little then bs else rev bs) = v mod ?m" and len: "length bs = nat n"
    by (auto simp: bs le_to_int_int_to_le)
  show ?thesis
  proof (cases "v < 0")
    case True
    then have "sg" using rng by (auto split: if_splits)
    then have "v mod ?m = v + ?m" using rng True by (simp add: mod_pow_neg)
    then show ?thesis using rng True \<open>sg\<close> by (simp add: from_bytes_def le len Let_def)
  next
    case False
    then have "v mod ?m = v" using rng by (auto split: if_splits)
    then show ?thesis using rng False by (auto simp: from_bytes_def le len Let_def)
  qed
qed

text \<open>
  One little-endian unsigned field of \<^verbatim>\<open>struct.pack\<close> (\<open>B\<close>, \<open>H\<close> and \<open>I\<close> have 1, 2 and 4
  bytes), which raises \<^verbatim>\<open>struct.error\<close> outside the range of the field.
\<close>

definition pack_u :: "nat \<Rightarrow> int \<Rightarrow> byte list res" where
  "pack_u n v = (if 0 \<le> v \<and> v < 256 ^ n then Inr (int_to_le n v) else Inl StructError)"

lemma pack_u_Inr: "pack_u n v = Inr bs \<Longrightarrow> length bs = n \<and> le_to_int bs = v \<and> 0 \<le> v \<and> v < 256 ^ n"
  by (auto simp: pack_u_def le_to_int_int_to_le split: if_splits)

section \<open>Bit lengths, ceilings and powers of two\<close>

fun nat_bits :: "nat \<Rightarrow> nat" where
  "nat_bits n = (if n = 0 then 0 else Suc (nat_bits (n div 2)))"

declare nat_bits.simps [simp del]

definition bit_length :: "int \<Rightarrow> int" where
  "bit_length x = int (nat_bits (nat \<bar>x\<bar>))"

definition ceil_log2 :: "int \<Rightarrow> int" where
  "ceil_log2 x = (if 0 < x then bit_length (x - 1) else 0)"

definition ceil_div :: "int \<Rightarrow> int \<Rightarrow> int res" where
  "ceil_div n d = (if d = 0 then Inl ZeroDivisionError else Inr ((n + d - 1) div d))"

definition ceil_multiple :: "int \<Rightarrow> int \<Rightarrow> int res" where
  "ceil_multiple num multiple = rbind (ceil_div num multiple) (\<lambda>q. Inr (q * multiple))"

definition round_multiple :: "int \<Rightarrow> int \<Rightarrow> int res" where
  "round_multiple n d = (if d = 0 then Inl ZeroDivisionError else Inr ((n + d div 2) div d * d))"

text \<open>The divisor is the constant 8, so \<open>ceil_multiple\<close> never raises here.\<close>

definition promote_to_sw_w :: "int \<Rightarrow> int" where
  "promote_to_sw_w w = 2 ^ nat (ceil_log2 (projr (ceil_multiple w 8)))"

lemma nat_bits_le_iff: "nat_bits n \<le> k \<longleftrightarrow> n < 2 ^ k"
proof (induction n arbitrary: k rule: nat_bits.induct)
  case (1 n)
  show ?case
  proof (cases "n = 0")
    case True
    then show ?thesis by (simp add: nat_bits.simps)
  next
    case False
    show ?thesis
    proof (cases k)
      case 0
      then show ?thesis using False by (simp add: nat_bits.simps [of n])
    next
      case (Suc j)
      have "nat_bits n \<le> k \<longleftrightarrow> nat_bits (n div 2) \<le> j"
        using False Suc by (simp add: nat_bits.simps [of n])
      also have "\<dots> \<longleftrightarrow> n div 2 < 2 ^ j" using False 1 by blast
      also have "\<dots> \<longleftrightarrow> n < 2 ^ k" using Suc by auto
      finally show ?thesis .
    qed
  qed
qed

lemma ceil_log2_nonneg [simp]: "0 \<le> ceil_log2 x"
  by (simp add: ceil_log2_def bit_length_def)

lemma ceil_log2_le_iff: "1 \<le> x \<Longrightarrow> ceil_log2 x \<le> int k \<longleftrightarrow> x \<le> 2 ^ k"
proof -
  assume x: "1 \<le> x"
  have "ceil_log2 x \<le> int k \<longleftrightarrow> nat (x - 1) < 2 ^ k"
    using x by (simp add: ceil_log2_def bit_length_def nat_bits_le_iff)
  also have "\<dots> \<longleftrightarrow> x - 1 < 2 ^ k"
    using x by (metis (no_types, lifting) nat_less_iff of_nat_numeral of_nat_power diff_ge_0_iff_ge)
  finally show ?thesis by auto
qed

lemma ceil_div_8: "ceil_div w 8 = Inr ((w + 7) div 8)"
  by (simp add: ceil_div_def)

lemma ceil_multiple_8: "ceil_multiple w 8 = Inr ((w + 7) div 8 * 8)"
  by (simp add: ceil_multiple_def ceil_div_8)

lemma ceil_multiple_pos:
  assumes "0 < m"
  shows "\<exists>r. ceil_multiple n m = Inr r \<and> n \<le> r \<and> r < n + m \<and> m dvd r"
proof -
  let ?r = "(n + m - 1) div m * m"
  have eq: "?r = n + m - 1 - (n + m - 1) mod m"
    by (simp add: minus_mod_eq_div_mult)
  have "0 \<le> (n + m - 1) mod m" "(n + m - 1) mod m < m"
    using assms by simp_all
  then have "n \<le> ?r \<and> ?r < n + m" unfolding eq by linarith
  then show ?thesis
    using assms by (simp add: ceil_multiple_def ceil_div_def)
qed

lemma ceil_multiple_dvd: "0 < m \<Longrightarrow> m dvd n \<Longrightarrow> ceil_multiple n m = Inr n"
proof -
  assume m: "0 < m" and dvd: "m dvd n"
  obtain q where q: "n = m * q" using dvd by blast
  have "(n + m - 1) div m = (q * m + (m - 1)) div m" by (simp add: q algebra_simps)
  also have "\<dots> = q" using m by simp
  finally show ?thesis using m by (simp add: ceil_multiple_def ceil_div_def q mult.commute)
qed

text \<open>\<open>promote_to_sw_w\<close> is the least power of two that is at least the width and at least 8.\<close>

lemma promote_to_sw_w_pow: "\<exists>k. promote_to_sw_w w = 2 ^ k"
  by (auto simp: promote_to_sw_w_def)

lemma promote_to_sw_w_pos [simp]: "0 < promote_to_sw_w w"
  by (simp add: promote_to_sw_w_def)

lemma promote_to_sw_w_le_iff:
  assumes "1 \<le> w"
  shows "promote_to_sw_w w \<le> 2 ^ k \<longleftrightarrow> w \<le> 2 ^ k \<and> 3 \<le> k"
proof -
  let ?m = "(w + 7) div 8 * 8"
  have m: "1 \<le> ?m" "w \<le> ?m" "8 \<le> ?m" "?m < w + 8" using assms by auto
  have "promote_to_sw_w w \<le> 2 ^ k \<longleftrightarrow> ceil_log2 ?m \<le> int k"
    by (simp add: promote_to_sw_w_def ceil_multiple_8 nat_le_iff)
  also have "\<dots> \<longleftrightarrow> ?m \<le> 2 ^ k" using m by (simp add: ceil_log2_le_iff)
  also have "\<dots> \<longleftrightarrow> w \<le> 2 ^ k \<and> 3 \<le> k"
  proof
    assume le: "?m \<le> 2 ^ k"
    then have "(2::int) ^ 3 \<le> 2 ^ k" using m by simp
    then have "3 \<le> k" by (simp only: power_increasing_iff one_less_numeral_iff semiring_norm)
    then show "w \<le> 2 ^ k \<and> 3 \<le> k" using le m by linarith
  next
    assume r: "w \<le> 2 ^ k \<and> 3 \<le> k"
    then obtain j where k: "k = j + 3" by (metis le_add_diff_inverse2)
    have "w \<le> 2 ^ j * 8" using r by (simp add: k power_add)
    then have "(w + 7) div 8 \<le> 2 ^ j" by simp
    then show "?m \<le> 2 ^ k" by (simp add: k power_add)
  qed
  finally show ?thesis .
qed

lemma promote_to_sw_w_ge: "1 \<le> w \<Longrightarrow> w \<le> promote_to_sw_w w"
  using promote_to_sw_w_le_iff promote_to_sw_w_pow by (metis order_refl)

lemma promote_to_sw_w_8dvd:
  assumes "1 \<le> w" shows "8 dvd promote_to_sw_w w"
proof -
  obtain k where k: "promote_to_sw_w w = 2 ^ k" using promote_to_sw_w_pow by blast
  then have "3 \<le> k" using promote_to_sw_w_le_iff [OF assms, of k] by simp
  then have "(2::int) ^ 3 dvd 2 ^ k" by (rule le_imp_power_dvd)
  then show ?thesis by (simp add: k)
qed

lemma promote_to_sw_w_0 [simp]: "promote_to_sw_w 0 = 1"
  by (simp add: promote_to_sw_w_def ceil_multiple_8 ceil_log2_def)

section \<open>Setting bits\<close>

definition set_bits :: "int \<Rightarrow> int \<Rightarrow> int \<Rightarrow> int" where
  "set_bits value bit_mask bit_vals = (value AND NOT bit_mask) OR (bit_mask AND bit_vals)"

definition set_bit_at :: "int \<Rightarrow> int \<Rightarrow> bool \<Rightarrow> int res" where
  "set_bit_at value bit_pos bit_val =
     (if bit_pos < 0 then Inl ValueError
      else Inr (set_bits value (push_bit (nat bit_pos) 1) (push_bit (nat bit_pos) (of_bool bit_val))))"

lemma bit_set_bits: "bit (set_bits v m x) i = (if bit m i then bit x i else bit v i)"
  by (simp add: set_bits_def bit_simps)

lemma bit_set_bit_at:
  "0 \<le> p \<Longrightarrow> set_bit_at v p b = Inr r \<Longrightarrow> bit r i = (if i = nat p then b else bit v i)"
  by (auto simp: set_bit_at_def bit_set_bits bit_simps)

lemma set_bits_nonneg: "0 \<le> v \<Longrightarrow> 0 \<le> m \<Longrightarrow> 0 \<le> set_bits v m x"
  by (simp add: set_bits_def)

section \<open>Lists of integers\<close>

definition bytes_to_list_int :: "byte list \<Rightarrow> int \<Rightarrow> endian \<Rightarrow> bool \<Rightarrow> int list res" where
  "bytes_to_list_int b int_bytes e sgnd =
     (if int_bytes = 0 then Inl ZeroDivisionError
      else if int (length b) mod int_bytes \<noteq> 0 then Inl ValueError
      else Inr (map (\<lambda>k. from_bytes
                        (py_slice b (int k * int_bytes) (int k * int_bytes + int_bytes)) e sgnd)
                 [0..<nat (int (length b) div int_bytes)]))"

fun lib_fill :: "int \<Rightarrow> endian \<Rightarrow> bool \<Rightarrow> nat \<Rightarrow> int list \<Rightarrow> byte list \<Rightarrow> byte list res" where
  "lib_fill n e sgnd ii [] b = Inr b"
| "lib_fill n e sgnd ii (v # vs) b =
     rbind (to_bytes v n e sgnd) (\<lambda>c.
       lib_fill n e sgnd (Suc ii) vs (py_slice_assign b (int ii * n) ((int ii + 1) * n) c))"

definition list_int_to_bytes :: "int list \<Rightarrow> int \<Rightarrow> endian \<Rightarrow> bool \<Rightarrow> byte list res" where
  "list_int_to_bytes vs int_bytes e sgnd =
     (if int_bytes < 0 \<and> vs \<noteq> [] then Inl ValueError
      else lib_fill int_bytes e sgnd 0 vs (replicate (length vs * nat int_bytes) 0))"

lemma lib_fill_concat:
  assumes "0 \<le> n"
  shows "length pre = ii * nat n \<Longrightarrow>
    lib_fill n e sg ii vs (pre @ replicate (length vs * nat n) 0)
      = rbind (rmapM (\<lambda>v. to_bytes v n e sg) vs) (\<lambda>cs. Inr (pre @ concat cs))"
proof (induction vs arbitrary: ii pre)
  case (Cons v vs)
  show ?case
  proof (cases "to_bytes v n e sg")
    case (Inr c)
    have len: "length c = nat n" using to_bytes_length [OF Inr] by simp
    let ?z = "replicate (length vs * nat n) (0::byte)"
    let ?b = "pre @ replicate (length (v # vs) * nat n) (0::byte)"
    have idx: "(int ii + 1) * n = int ii * n + int (length c)"
      using assms len by (simp add: algebra_simps)
    have "py_slice_assign ?b (int ii * n) (int ii * n + int (length c)) c
        = take (nat (int ii * n)) ?b @ c @ drop (nat (int ii * n) + length c) ?b"
      by (rule py_slice_assign_inside) (use assms len Cons.prems in auto)
    also have "nat (int ii * n) = length pre"
      using Cons.prems assms by (simp add: nat_mult_distrib)
    finally have "py_slice_assign ?b (int ii * n) ((int ii + 1) * n) c = (pre @ c) @ ?z"
      using len idx by (simp add: replicate_add)
    moreover have "length (pre @ c) = Suc ii * nat n" using Cons.prems len by simp
    ultimately show ?thesis using Cons.IH [of "pre @ c" "Suc ii"] Inr
      by (simp add: rbind_assoc)
  qed simp
qed simp

lemma list_int_to_bytes_concat:
  "0 \<le> n \<Longrightarrow> list_int_to_bytes vs n e sg
     = rbind (rmapM (\<lambda>v. to_bytes v n e sg) vs) (\<lambda>cs. Inr (concat cs))"
  using lib_fill_concat [of n "[]" 0 e sg vs] by (simp add: list_int_to_bytes_def)

lemma concat_const_length_nth:
  "(\<And>c. c \<in> set cs \<Longrightarrow> length c = w) \<Longrightarrow> k < length cs \<Longrightarrow>
     take w (drop (k * w) (concat cs)) = cs ! k"
proof (induction cs arbitrary: k)
  case (Cons c cs)
  have len: "length c = w" using Cons.prems(1) by simp
  show ?case
  proof (cases k)
    case 0
    then show ?thesis using len by simp
  next
    case (Suc j)
    have "take w (drop (j * w) (concat cs)) = cs ! j"
      using Cons.prems Suc by (intro Cons.IH) auto
    then show ?thesis using Suc len by simp
  qed
qed simp

lemma concat_const_length: "(\<And>c. c \<in> set cs \<Longrightarrow> length c = w) \<Longrightarrow> length (concat cs) = length cs * w"
  by (induction cs) auto

lemma list_int_bytes_roundtrip:
  assumes n: "0 < n" and ok: "list_int_to_bytes vs n e sg = Inr b"
  shows "bytes_to_list_int b n e sg = Inr vs"
proof -
  obtain cs where cs: "rmapM (\<lambda>v. to_bytes v n e sg) vs = Inr cs" and b: "b = concat cs"
    using ok n by (auto simp: list_int_to_bytes_concat rbind_Inr_iff)
  have lcs: "length cs = length vs" using cs by (rule rmapM_Inr_length)
  have tb: "to_bytes (vs ! i) n e sg = Inr (cs ! i)" if "i < length vs" for i
    using rmapM_Inr_nth [OF cs that] .
  have each: "length c = nat n" if "c \<in> set cs" for c
    using that tb to_bytes_length lcs by (metis in_set_conv_nth)
  have lb: "length b = length vs * nat n"
    using concat_const_length [of cs "nat n", OF each] by (simp add: b lcs)
  have "int (length b) = int (length vs) * n" using n by (simp add: lb)
  then have dm: "int (length b) mod n = 0" "int (length b) div n = int (length vs)"
    using n by simp_all
  have sl: "py_slice b (int k * n) (int k * n + n) = cs ! k" if "k < length vs" for k
  proof -
    have "Suc k * nat n \<le> length vs * nat n" using that by (intro mult_le_mono1) simp
    then have "int k * n + n \<le> int (length b)"
      using n by (simp add: lb algebra_simps zle_int [symmetric])
    then have "py_slice b (int k * n) (int k * n + n) = take (nat n) (drop (nat (int k * n)) b)"
      using n by (subst py_slice_inside) auto
    then show ?thesis
      using concat_const_length_nth [of cs "nat n" k, OF each] that n
      by (simp add: b lcs nat_mult_distrib)
  qed
  have "map (\<lambda>k. from_bytes (py_slice b (int k * n) (int k * n + n)) e sg) [0..<length vs] = vs"
    by (rule nth_equalityI) (auto simp: sl from_to_bytes [OF tb])
  then show ?thesis using n dm by (simp add: bytes_to_list_int_def)
qed

section \<open>Two's complement\<close>

definition cast_uint_to_sint :: "int \<Rightarrow> int \<Rightarrow> int res" where
  "cast_uint_to_sint value bit_width =
     (if bit_width < 1 then Inl ValueError
      else let sgn_bit = 2 ^ nat (bit_width - 1)
           in Inr (if sgn_bit \<le> value then value - sgn_bit * 2 else value))"

lemma cast_uint_to_sint_mod:
  assumes "1 \<le> w" and "- (2 ^ nat (w - 1)) \<le> v" and "v < 2 ^ nat (w - 1)"
  shows "cast_uint_to_sint (v mod 2 ^ nat w) w = Inr v"
proof -
  let ?h = "(2::int) ^ nat (w - 1)"
  have "nat w = Suc (nat (w - 1))" using assms by simp
  then have full: "(2::int) ^ nat w = ?h * 2" by simp
  show ?thesis
  proof (cases "v < 0")
    case True
    have "v mod (?h * 2) = v + ?h * 2" using assms True by (intro mod_pow_neg) auto
    then show ?thesis using assms True by (simp add: cast_uint_to_sint_def Let_def full)
  next
    case False
    then show ?thesis using assms by (simp add: cast_uint_to_sint_def Let_def full)
  qed
qed

lemma cast_uint_to_sint_range:
  assumes "cast_uint_to_sint u w = Inr v" and "0 \<le> u" and "u < 2 ^ nat w"
  shows "- (2 ^ nat (w - 1)) \<le> v \<and> v < 2 ^ nat (w - 1) \<and> v mod 2 ^ nat w = u"
proof -
  let ?h = "(2::int) ^ nat (w - 1)"
  have w: "1 \<le> w" using assms by (auto simp: cast_uint_to_sint_def split: if_splits)
  then have "nat w = Suc (nat (w - 1))" by simp
  then have full: "(2::int) ^ nat w = ?h * 2" by simp
  have v: "v = (if ?h \<le> u then u - ?h * 2 else u)"
    using assms w by (simp add: cast_uint_to_sint_def Let_def)
  show ?thesis
  proof (cases "?h \<le> u")
    case True
    have "(u - ?h * 2) mod (?h * 2) = u"
      using mod_pow_neg [of "?h * 2" "u - ?h * 2"] True assms by (simp add: full)
    then show ?thesis using True assms by (auto simp: v full)
  next
    case False
    have "- ?h \<le> 0" by simp
    then have "- ?h \<le> u" using assms by linarith
    then show ?thesis using False assms by (auto simp: v full)
  qed
qed

definition to_rich_str :: "string \<Rightarrow> string option \<Rightarrow> string" where
  "to_rich_str s color =
     (case color of None \<Rightarrow> s
      | Some c \<Rightarrow> ''['' @ c @ '']'' @ s @ ''[/'' @ c @ '']'')"

section \<open>Properties\<close>

text \<open>
  A list of integers written as bytes reads back as the same list, for either byte order,
  signed or unsigned, whenever the writing succeeds.
\<close>
theorem list_int_roundtrip:
  assumes "0 < n" and "list_int_to_bytes vs n e sg = Inr b"
  shows "bytes_to_list_int b n e sg = Inr vs \<and> int (length b) = int (length vs) * n"
proof -
  obtain cs where cs: "rmapM (\<lambda>v. to_bytes v n e sg) vs = Inr cs" and b: "b = concat cs"
    using assms by (auto simp: list_int_to_bytes_concat rbind_Inr_iff)
  have "length cs = length vs" using cs by (rule rmapM_Inr_length)
  moreover have "length c = nat n" if "c \<in> set cs" for c
    using that rmapM_Inr_nth [OF cs] to_bytes_length calculation by (metis in_set_conv_nth)
  ultimately have "length b = length vs * nat n" using concat_const_length [of cs "nat n"] b by simp
  then show ?thesis using list_int_bytes_roundtrip [OF assms] assms(1) by simp
qed

theorem list_int_roundtrip_witness:
  "bytes_to_list_int [0xFE, 0xFF, 3, 0] 2 Little True = Inr [- 2, 3] \<and>
    int (length [0xFE, 0xFF, 3, 0 :: byte]) = int (length [- 2, 3 :: int]) * 2"
proof -
  have "list_int_to_bytes [- 2, 3] 2 Little True = Inr [0xFE, 0xFF, 3, 0]"
    by code_simp
  from list_int_roundtrip [OF _ this] show ?thesis by simp
qed

text \<open>
  \<open>promote_to_sw_w\<close> gives the least power of two that is at least the width and at least a
  byte: it is a power of two, and a power of two is as large exactly when it is at least 8 and at
  least the width.
\<close>
theorem promote_to_sw_w_least:
  assumes "1 \<le> w"
  shows "(\<exists>k. promote_to_sw_w w = 2 ^ k) \<and> w \<le> promote_to_sw_w w \<and>
    (\<forall>k. promote_to_sw_w w \<le> 2 ^ k \<longleftrightarrow> w \<le> 2 ^ k \<and> 8 \<le> (2 :: int) ^ k)"
proof -
  have "8 \<le> (2 :: int) ^ k \<longleftrightarrow> 3 \<le> k" for k
    using power_increasing_iff [of "2 :: int" 3 k] by simp
  then show ?thesis
    using promote_to_sw_w_le_iff [OF assms] promote_to_sw_w_pow promote_to_sw_w_ge [OF assms] by simp
qed

theorem promote_to_sw_w_least_witness:
  "(\<exists>k. promote_to_sw_w 12 = 2 ^ k) \<and> 12 \<le> promote_to_sw_w 12 \<and>
    (\<forall>k. promote_to_sw_w 12 \<le> 2 ^ k \<longleftrightarrow> 12 \<le> (2 :: int) ^ k \<and> 8 \<le> (2 :: int) ^ k)"
  by (rule promote_to_sw_w_least) simp

text \<open>
  Reading an unsigned field as signed is two's complement: it inverts the wrap-around of every
  value of the signed range, and gives for every unsigned value the signed one it stands for.
\<close>
theorem cast_uint_to_sint_correct:
  assumes "1 \<le> w"
  shows "(\<forall>v. - (2 ^ nat (w - 1)) \<le> v \<and> v < 2 ^ nat (w - 1) \<longrightarrow> cast_uint_to_sint (v mod 2 ^ nat w) w = Inr v) \<and>
    (\<forall>u v. 0 \<le> u \<and> u < 2 ^ nat w \<and> cast_uint_to_sint u w = Inr v \<longrightarrow>
       - (2 ^ nat (w - 1)) \<le> v \<and> v < 2 ^ nat (w - 1) \<and> v mod 2 ^ nat w = u)"
  using cast_uint_to_sint_mod [OF assms] cast_uint_to_sint_range by blast

theorem cast_uint_to_sint_correct_witness:
  "cast_uint_to_sint ((- 3) mod 2 ^ nat 4) 4 = Inr (- 3)"
proof -
  have "- (2 ^ nat (4 - 1)) \<le> (- 3 :: int) \<and> (- 3 :: int) < 2 ^ nat (4 - 1)" by simp
  moreover have "(1 :: int) \<le> 4" by simp
  note conjunct1 [OF cast_uint_to_sint_correct [OF this]]
  ultimately show ?thesis by blast
qed

end
