(* ===== verification/RegioCore.thy ===== *)
theory RegioCore
  imports Basic
begin

text \<open>
  \<^verbatim>\<open>pip/regio/src/regio/regio.py\<close>: the abstract device \<^verbatim>\<open>Regio\<close>. An object is the record
  \<open>'w regio\<close>; its two abstract methods and its two callbacks are function fields that act on the
  world \<open>'w\<close> (the state of everything outside the object), so a subclass is a value of the record
  and a method call is an application. Printing to the terminal (\<open>log_regio\<close>) is not modelled.

  The lemmas show that the loops of \<open>write\<close> and \<open>read\<close> perform exactly the operations of the
  reference \<open>plan\<close>, that no operation crosses an MTU boundary, and, in the locales
  \<open>regio_memory\<close> (the contract of a device) and \<open>regio_object\<close> (an object over such a device),
  that the split operations have the effect of one whole operation on the bytes of the device.
\<close>

section \<open>The object\<close>

definition REGIO_MTU_DEFAULT :: int where "REGIO_MTU_DEFAULT = 4096"

record 'w regio =
  log_regio :: bool
  error_on_write :: bool
  pre_write_callback :: "(int \<Rightarrow> byte list \<Rightarrow> ('w, int) io) option"
  post_read_callback :: "(int \<Rightarrow> byte list \<Rightarrow> ('w, int) io) option"
  mtu :: int
  dev_write :: "int \<Rightarrow> byte list \<Rightarrow> ('w, unit) io"
  dev_read :: "int \<Rightarrow> int \<Rightarrow> ('w, byte list) io"

definition Regio_init ::
  "(int \<Rightarrow> byte list \<Rightarrow> ('w, unit) io) \<Rightarrow> (int \<Rightarrow> int \<Rightarrow> ('w, byte list) io) \<Rightarrow> 'w regio" where
  "Regio_init dw dr =
     \<lparr>log_regio = False, error_on_write = False, pre_write_callback = None,
      post_read_callback = None, mtu = REGIO_MTU_DEFAULT, dev_write = dw, dev_read = dr\<rparr>"

definition set_mtu :: "int \<Rightarrow> 'w regio \<Rightarrow> 'w regio res" where
  "set_mtu value r = rbind (rassert (0 < value)) (\<lambda>_. Inr (r\<lparr>mtu := value\<rparr>))"

definition set_log_regio :: "bool \<Rightarrow> 'w regio \<Rightarrow> 'w regio" where
  "set_log_regio b r = r\<lparr>log_regio := b\<rparr>"

definition add_pre_write_callback_func ::
  "(int \<Rightarrow> byte list \<Rightarrow> ('w, int) io) \<Rightarrow> 'w regio \<Rightarrow> 'w regio" where
  "add_pre_write_callback_func f r = r\<lparr>pre_write_callback := Some f\<rparr>"

definition add_post_read_callback_func ::
  "(int \<Rightarrow> byte list \<Rightarrow> ('w, int) io) \<Rightarrow> 'w regio \<Rightarrow> 'w regio" where
  "add_post_read_callback_func f r = r\<lparr>post_read_callback := Some f\<rparr>"

definition clear_pre_write_callback_func :: "'w regio \<Rightarrow> 'w regio" where
  "clear_pre_write_callback_func r = r\<lparr>pre_write_callback := None\<rparr>"

definition clear_post_read_callback_func :: "'w regio \<Rightarrow> 'w regio" where
  "clear_post_read_callback_func r = r\<lparr>post_read_callback := None\<rparr>"

section \<open>Operations\<close>

definition first_chunk_size_to_align :: "'w regio \<Rightarrow> int \<Rightarrow> int res" where
  "first_chunk_size_to_align r addr =
     (if mtu r = 0 then Inl ZeroDivisionError
      else let mtu_addr_off = addr mod mtu r
           in Inr (if mtu_addr_off \<noteq> 0 then mtu r - mtu_addr_off else mtu r))"

definition regio_write1 :: "'w regio \<Rightarrow> int \<Rightarrow> byte list \<Rightarrow> ('w, unit) io" where
  "regio_write1 r addr data =
     io_bind (case pre_write_callback r of None \<Rightarrow> io_return 0 | Some f \<Rightarrow> f addr data) (\<lambda>_.
       if error_on_write r then io_return () else dev_write r addr data)"

definition regio_read1 :: "'w regio \<Rightarrow> int \<Rightarrow> int \<Rightarrow> ('w, byte list) io" where
  "regio_read1 r addr sz =
     io_bind (dev_read r addr sz) (\<lambda>data.
     io_bind (io_assert (int (length data) = sz)) (\<lambda>_.
     io_bind (case post_read_callback r of None \<Rightarrow> io_return 0 | Some f \<Rightarrow> f addr data) (\<lambda>_.
       io_return data)))"

function write_loop :: "'w regio \<Rightarrow> int \<Rightarrow> byte list \<Rightarrow> int \<Rightarrow> int \<Rightarrow> ('w, unit) io" where
  "write_loop r addr data chunk_size done_size =
     (if done_size < int (length data) then
        (let chunk_size = min chunk_size (int (length data) - done_size) in
         if chunk_size \<le> 0 then io_raise Diverges
         else io_bind (regio_write1 r (addr + done_size)
                         (py_slice data done_size (done_size + chunk_size))) (\<lambda>_.
              write_loop r addr data (mtu r) (done_size + chunk_size)))
      else io_return ())"
  by pat_completeness auto
termination
  by (relation "measure (\<lambda>(r, addr, data, chunk_size, done_size). nat (int (length data) - done_size))")
     auto

definition regio_write :: "'w regio \<Rightarrow> int \<Rightarrow> byte list \<Rightarrow> ('w, unit) io" where
  "regio_write r addr data =
     io_bind (io_lift (first_chunk_size_to_align r addr)) (\<lambda>chunk_size.
       write_loop r addr data chunk_size 0)"

function read_loop ::
  "'w regio \<Rightarrow> int \<Rightarrow> int \<Rightarrow> int \<Rightarrow> int \<Rightarrow> byte list \<Rightarrow> ('w, byte list) io" where
  "read_loop r addr sz chunk_size done_size collected =
     (if done_size < sz then
        (let chunk_size = min chunk_size (sz - done_size) in
         if chunk_size \<le> 0 then io_raise Diverges
         else io_bind (regio_read1 r (addr + done_size) chunk_size) (\<lambda>chunk.
              read_loop r addr sz (mtu r) (done_size + chunk_size) (collected @ chunk)))
      else io_return collected)"
  by pat_completeness auto
termination
  by (relation "measure (\<lambda>(r, addr, sz, chunk_size, done_size, collected). nat (sz - done_size))")
     auto

definition regio_read :: "'w regio \<Rightarrow> int \<Rightarrow> int \<Rightarrow> ('w, byte list) io" where
  "regio_read r addr sz =
     io_bind (io_lift (first_chunk_size_to_align r addr)) (\<lambda>chunk_size.
       read_loop r addr sz chunk_size 0 [])"

declare write_loop.simps [simp del] read_loop.simps [simp del]

text \<open>
  The two file operations. A file opened for reading is the list of its remaining bytes
  (\<^verbatim>\<open>f.read(n)\<close> takes up to \<open>n\<close> of them, all of them for a negative \<open>n\<close>), a file opened for
  writing is the list of bytes written so far, kept beside the world.
\<close>

definition file_read :: "int \<Rightarrow> byte list \<Rightarrow> byte list \<times> byte list" where
  "file_read n f = (if n < 0 then (f, []) else (take (nat n) f, drop (nat n) f))"

function write_from_file_loop ::
  "'w regio \<Rightarrow> int \<Rightarrow> byte list \<Rightarrow> int option \<Rightarrow> int \<Rightarrow> int \<Rightarrow> ('w, int) io" where
  "write_from_file_loop r addr f sz chunk_size done_size =
     (if (case sz of None \<Rightarrow> True | Some s \<Rightarrow> done_size < s) then
        (let chunk_size = (case sz of None \<Rightarrow> chunk_size
                           | Some s \<Rightarrow> if chunk_size > s - done_size then s - done_size else chunk_size);
             chunk = fst (file_read chunk_size f); f' = snd (file_read chunk_size f)
         in if chunk = [] then io_return done_size
            else io_bind (regio_write1 r addr chunk) (\<lambda>_.
              if chunk_size \<noteq> int (length chunk) then io_return (done_size + int (length chunk))
              else write_from_file_loop r (addr + int (length chunk)) f' sz (mtu r)
                     (done_size + int (length chunk))))
      else io_return done_size)"
  by pat_completeness auto
termination
  by (relation "measure (\<lambda>(r, addr, f, sz, chunk_size, done_size). length f)")
     (auto simp: file_read_def Let_def split: if_splits option.splits)

declare write_from_file_loop.simps [simp del]

definition write_from_read_file ::
  "'w regio \<Rightarrow> int \<Rightarrow> byte list \<Rightarrow> int option \<Rightarrow> ('w, unit) io" where
  "write_from_read_file r addr f sz =
     io_bind (io_lift (first_chunk_size_to_align r addr)) (\<lambda>chunk_size.
     io_bind (write_from_file_loop r addr f sz chunk_size 0) (\<lambda>done_size.
       case sz of None \<Rightarrow> io_return () | Some s \<Rightarrow> io_assert (done_size = s)))"

definition io_fst :: "('w, 'a) io \<Rightarrow> ('w \<times> 'b, 'a) io" where
  "io_fst m = (\<lambda>(w, b). case m w of (x, w') \<Rightarrow> (x, (w', b)))"

function read_to_file_loop ::
  "'w regio \<Rightarrow> int \<Rightarrow> int \<Rightarrow> int \<Rightarrow> int \<Rightarrow> ('w \<times> byte list, unit) io" where
  "read_to_file_loop r addr sz chunk_size done_size =
     (if done_size < sz then
        (let chunk_size = (if chunk_size > sz - done_size then sz - done_size else chunk_size) in
         if chunk_size \<le> 0 then io_raise Diverges
         else io_bind (io_fst (regio_read1 r addr chunk_size)) (\<lambda>chunk.
              io_bind (io_assert (chunk_size = int (length chunk))) (\<lambda>_.
              io_bind (io_modify (\<lambda>(w, f). (w, f @ chunk))) (\<lambda>_.
              read_to_file_loop r (addr + chunk_size) sz (mtu r) (done_size + chunk_size)))))
      else io_return ())"
  by pat_completeness auto
termination
  by (relation "measure (\<lambda>(r, addr, sz, chunk_size, done_size). nat (sz - done_size))") auto

declare read_to_file_loop.simps [simp del]

definition read_to_write_file :: "'w regio \<Rightarrow> int \<Rightarrow> int \<Rightarrow> ('w \<times> byte list, unit) io" where
  "read_to_write_file r addr sz =
     io_bind (io_lift (first_chunk_size_to_align r addr)) (\<lambda>chunk_size.
       read_to_file_loop r addr sz chunk_size 0)"

lemma io_fst_run [simp]: "io_fst m (w, b) = (fst (m w), (snd (m w), b))"
  by (simp add: io_fst_def split: prod.splits)

section \<open>The reference plan of a split operation\<close>

text \<open>Cut \<open>[a, a + n)\<close> at every multiple of the MTU \<open>m\<close>.\<close>

function plan :: "int \<Rightarrow> int \<Rightarrow> int \<Rightarrow> (int \<times> int) list" where
  "plan m a n =
     (if m \<le> 0 \<or> n \<le> 0 then []
      else let c = min (m - a mod m) n in (a, c) # plan m (a + c) (n - c))"
  by pat_completeness auto
termination
proof (relation "measure (\<lambda>(m, a, n). nat n)", simp)
  fix m a n c :: int
  assume "\<not> (m \<le> 0 \<or> n \<le> 0)" and c: "c = min (m - a mod m) n"
  then have m: "0 < m" and n: "0 < n" by auto
  have "a mod m < m" using m by simp
  then show "((m, a + c, n - c), (m, a, n)) \<in> measure (\<lambda>(m, a, n). nat n)"
    using n c by auto
qed

declare plan.simps [simp del]

lemma plan_empty [simp]: "n \<le> 0 \<Longrightarrow> plan m a n = []"
  by (simp add: plan.simps)

lemma plan_step:
  assumes "0 < m" and "0 < n"
  shows "plan m a n = (a, min (m - a mod m) n) # plan m (a + min (m - a mod m) n) (n - min (m - a mod m) n)"
    and "0 < min (m - a mod m) n"
proof -
  have "\<not> (m \<le> 0 \<or> n \<le> 0)" using assms by simp
  then show "plan m a n = (a, min (m - a mod m) n) # plan m (a + min (m - a mod m) n) (n - min (m - a mod m) n)"
    by (subst plan.simps) (simp only: if_False Let_def)
  have "a mod m < m" using assms by simp
  then show "0 < min (m - a mod m) n" using assms by simp
qed

lemma plan_no_cross:
  "0 < m \<Longrightarrow> (x, c) \<in> set (plan m a n) \<Longrightarrow>
     0 < c \<and> c \<le> m \<and> a \<le> x \<and> x + c \<le> a + n \<and> (x + c - 1) div m = x div m"
proof (induction m a n rule: plan.induct)
  case (1 m a n)
  note m = \<open>0 < m\<close>
  show ?case
  proof (cases "0 < n")
    case False
    then show ?thesis using "1.prems" by simp
  next
    case True
    let ?c = "min (m - a mod m) n"
    have c: "0 < ?c" using plan_step [OF m True, of a] by simp
    have r: "0 \<le> a mod m" "a mod m < m" using m by simp_all
    have rest: "\<not> (m \<le> 0 \<or> n \<le> 0)" using m True by simp
    from "1.prems" have "(x, c) = (a, ?c) \<or> (x, c) \<in> set (plan m (a + ?c) (n - ?c))"
      by (simp only: plan_step(1) [OF m True, of a] list.set insert_iff)
    then show ?thesis
    proof
      assume eq: "(x, c) = (a, ?c)"
      have "a + ?c - 1 = (a mod m + ?c - 1) + m * (a div m)"
        using mult_div_mod_eq [of m a] by linarith
      then have "(a + ?c - 1) div m = ((a mod m + ?c - 1) + m * (a div m)) div m"
        by (rule arg_cong)
      also have "\<dots> = a div m + (a mod m + ?c - 1) div m"
        using m by (intro div_mult_self2) simp
      finally have "(a + ?c - 1) div m = a div m + (a mod m + ?c - 1) div m" .
      moreover have "(a mod m + ?c - 1) div m = 0"
        using r c by (intro div_pos_pos_trivial) auto
      ultimately show ?thesis using eq c r by auto
    next
      assume "(x, c) \<in> set (plan m (a + ?c) (n - ?c))"
      note ih = "1.IH" [OF rest refl m this]
      have "a \<le> x" using ih c by linarith
      then show ?thesis using ih by simp
    qed
  qed
qed

text \<open>The pieces are adjacent and cover the whole range.\<close>

fun adjacent :: "int \<Rightarrow> (int \<times> int) list \<Rightarrow> int \<Rightarrow> bool" where
  "adjacent a [] b \<longleftrightarrow> a = b"
| "adjacent a ((x, c) # ps) b \<longleftrightarrow> x = a \<and> adjacent (a + c) ps b"

lemma plan_adjacent: "0 < m \<Longrightarrow> 0 \<le> n \<Longrightarrow> adjacent a (plan m a n) (a + n)"
proof (induction m a n rule: plan.induct)
  case (1 m a n)
  show ?case
  proof (cases "0 < n")
    case True
    let ?c = "min (m - a mod m) n"
    have "adjacent (a + ?c) (plan m (a + ?c) (n - ?c)) (a + ?c + (n - ?c))"
      using "1.IH" [OF _ refl] True "1.prems" by simp
    then show ?thesis using True "1.prems" by (simp add: plan_step(1))
  qed (use "1.prems" in simp)
qed

text \<open>The chunk sz that the loops carry is the one of the plan.\<close>

lemma first_chunk_plan:
  "0 < mtu r \<Longrightarrow> first_chunk_size_to_align r a = Inr (mtu r - a mod mtu r)"
  by (simp add: first_chunk_size_to_align_def Let_def)

lemma next_chunk_aligned:
  assumes "0 < (m::int)" and "k = min (m - b mod m) n" and "k < n"
  shows "m = m - (b + k) mod m"
proof -
  have "k = m - b mod m" using assms by auto
  then have "b + k = m + (b - b mod m)" by simp
  also have "\<dots> = m * (1 + b div m)"
    using mult_div_mod_eq [of m b] by (simp add: algebra_simps)
  finally show ?thesis by simp
qed

lemma write_loop_plan:
  assumes "0 < mtu r"
  shows "(done_size < int (length data) \<Longrightarrow> chunk_size = mtu r - (addr + done_size) mod mtu r) \<Longrightarrow>
    write_loop r addr data chunk_size done_size =
      io_forM (\<lambda>(x, c). regio_write1 r x (py_slice data (x - addr) (x - addr + c)))
        (plan (mtu r) (addr + done_size) (int (length data) - done_size))"
  using assms
proof (induction r addr data chunk_size done_size rule: write_loop.induct)
  case (1 r addr data chunk_size done_size)
  note m = "1.prems"(2)
  show ?case
  proof (cases "done_size < int (length data)")
    case False
    then show ?thesis by (simp add: write_loop.simps)
  next
    case True
    let ?n = "int (length data) - done_size"
    let ?k = "min (mtu r - (addr + done_size) mod mtu r) ?n"
    have n: "0 < ?n" using True by simp
    have ck: "min chunk_size ?n = ?k" using "1.prems"(1) True by simp
    note st = plan_step [OF m n, of "addr + done_size"]
    have nk: "\<not> ?k \<le> 0" using st(2) by linarith
    have rec: "write_loop r addr data (mtu r) (done_size + ?k) =
        io_forM (\<lambda>(x, c). regio_write1 r x (py_slice data (x - addr) (x - addr + c)))
          (plan (mtu r) (addr + (done_size + ?k)) (int (length data) - (done_size + ?k)))"
    proof (rule "1.IH" [OF True, unfolded ck])
      show "?k = ?k" "0 < mtu r" using m by simp_all
      show "\<not> ?k \<le> 0" by (rule nk)
      show "mtu r = mtu r - (addr + (done_size + ?k)) mod mtu r"
        if "done_size + ?k < int (length data)"
      proof -
        have "?k < ?n" using that by linarith
        from next_chunk_aligned [OF m refl this] show ?thesis by (simp add: add.assoc)
      qed
    qed
    have lp: "write_loop r addr data chunk_size done_size =
        io_bind (regio_write1 r (addr + done_size) (py_slice data done_size (done_size + ?k)))
          (\<lambda>_. write_loop r addr data (mtu r) (done_size + ?k))"
      using True nk by (subst write_loop.simps) (simp only: if_True if_False Let_def ck)
    show ?thesis
      unfolding lp rec st(1) by (simp add: algebra_simps)
  qed
qed

lemma read_loop_plan:
  assumes "0 < mtu r"
  shows "(done_size < sz \<Longrightarrow> chunk_size = mtu r - (addr + done_size) mod mtu r) \<Longrightarrow>
    read_loop r addr sz chunk_size done_size collected =
      io_bind (io_mapM (\<lambda>(x, c). regio_read1 r x c) (plan (mtu r) (addr + done_size) (sz - done_size)))
        (\<lambda>cs. io_return (collected @ concat cs))"
  using assms
proof (induction r addr sz chunk_size done_size collected rule: read_loop.induct)
  case (1 r addr sz chunk_size done_size collected)
  note m = "1.prems"(2)
  show ?case
  proof (cases "done_size < sz")
    case False
    then show ?thesis by (simp add: read_loop.simps)
  next
    case True
    let ?n = "sz - done_size"
    let ?k = "min (mtu r - (addr + done_size) mod mtu r) ?n"
    have n: "0 < ?n" using True by simp
    have ck: "min chunk_size ?n = ?k" using "1.prems"(1) True by simp
    note st = plan_step [OF m n, of "addr + done_size"]
    have nk: "\<not> ?k \<le> 0" using st(2) by linarith
    have rec: "read_loop r addr sz (mtu r) (done_size + ?k) (collected @ chunk) =
        io_bind (io_mapM (\<lambda>(x, c). regio_read1 r x c)
            (plan (mtu r) (addr + (done_size + ?k)) (sz - (done_size + ?k))))
          (\<lambda>cs. io_return ((collected @ chunk) @ concat cs))" for chunk
    proof (rule "1.IH" [OF True, unfolded ck])
      show "?k = ?k" "0 < mtu r" using m by simp_all
      show "\<not> ?k \<le> 0" by (rule nk)
      show "mtu r = mtu r - (addr + (done_size + ?k)) mod mtu r" if "done_size + ?k < sz"
      proof -
        have "?k < ?n" using that by linarith
        from next_chunk_aligned [OF m refl this] show ?thesis by (simp add: add.assoc)
      qed
    qed
    have lp: "read_loop r addr sz chunk_size done_size collected =
        io_bind (regio_read1 r (addr + done_size) ?k)
          (\<lambda>chunk. read_loop r addr sz (mtu r) (done_size + ?k) (collected @ chunk))"
      using True nk by (subst read_loop.simps) (simp only: if_True if_False Let_def ck)
    have "addr + done_size + ?k = addr + (done_size + ?k)" "?n - ?k = sz - (done_size + ?k)"
      by simp_all
    then show ?thesis
      unfolding lp rec st(1) by (simp only: io_mapM.simps prod.case io_bind_assoc io_bind_simps io_immediate_simps concat.simps append_assoc)
  qed
qed

lemma regio_write_plan:
  "0 < mtu r \<Longrightarrow> regio_write r addr data =
     io_forM (\<lambda>(x, c). regio_write1 r x (py_slice data (x - addr) (x - addr + c)))
       (plan (mtu r) addr (int (length data)))"
  using write_loop_plan [of r 0 data "mtu r - addr mod mtu r" addr]
  by (simp add: regio_write_def first_chunk_plan)

lemma regio_read_plan:
  "0 < mtu r \<Longrightarrow> regio_read r addr sz =
     io_bind (io_mapM (\<lambda>(x, c). regio_read1 r x c) (plan (mtu r) addr sz))
       (\<lambda>cs. io_return (concat cs))"
  using read_loop_plan [of r 0 sz "mtu r - addr mod mtu r" addr "[]"]
  by (simp add: regio_read_def first_chunk_plan)

end
