(* ===== verification/RegioContract.thy ===== *)
theory RegioContract
  imports RegioCore
begin

text \<open>
  The contract between a \<open>regio\<close> object and its users. \<open>mem_overlay\<close>, \<open>mem_has\<close> and \<open>mem_bytes\<close>
  speak of the bytes a device holds as a partial map from addresses. \<open>regio_memory\<close> is the
  contract of the two device methods, \<open>regio_object\<close> adds that the object's configuration does not
  get in the way; inside it the chunked operations are shown to behave as one operation. Every
  device of the program interprets these locales in its own theory.
\<close>

section \<open>The bytes of a device\<close>

definition mem_overlay :: "(int \<rightharpoonup> byte) \<Rightarrow> int \<Rightarrow> byte list \<Rightarrow> (int \<rightharpoonup> byte)" where
  "mem_overlay m a d =
     (\<lambda>i. if a \<le> i \<and> i < a + int (length d) then Some (d ! nat (i - a)) else m i)"

definition mem_has :: "(int \<rightharpoonup> byte) \<Rightarrow> int \<Rightarrow> int \<Rightarrow> bool" where
  "mem_has m a n \<longleftrightarrow> (\<forall>k < nat n. m (a + int k) \<noteq> None)"

definition mem_bytes :: "(int \<rightharpoonup> byte) \<Rightarrow> int \<Rightarrow> int \<Rightarrow> byte list" where
  "mem_bytes m a n = map (\<lambda>k. the (m (a + int k))) [0..<nat n]"

lemma mem_overlay_nil [simp]: "mem_overlay m a [] = m"
  by (auto simp: mem_overlay_def fun_eq_iff)

lemma mem_overlay_append:
  "mem_overlay m a (xs @ ys) = mem_overlay (mem_overlay m a xs) (a + int (length xs)) ys"
proof
  fix i
  have "nat (i - a) - length xs = nat (i - (a + int (length xs)))"
    if "a + int (length xs) \<le> i" using that by auto
  then show "mem_overlay m a (xs @ ys) i
      = mem_overlay (mem_overlay m a xs) (a + int (length xs)) ys i"
    by (auto simp: mem_overlay_def nth_append)
qed

lemma length_mem_bytes [simp]: "length (mem_bytes m a n) = nat n"
  by (simp add: mem_bytes_def)

lemma mem_bytes_nonpos [simp]: "n \<le> 0 \<Longrightarrow> mem_bytes m a n = []"
  by (simp add: mem_bytes_def)

lemma mem_has_sub: "mem_has m a n \<Longrightarrow> a \<le> b \<Longrightarrow> b + k \<le> a + n \<Longrightarrow> mem_has m b k"
proof -
  assume h: "mem_has m a n" "a \<le> b" "b + k \<le> a + n"
  show ?thesis unfolding mem_has_def
  proof (intro allI impI)
    fix j assume "j < nat k"
    then have "nat (b - a) + j < nat n" using h by linarith
    then have "m (a + int (nat (b - a) + j)) \<noteq> None" using h(1) unfolding mem_has_def by blast
    moreover have "a + int (nat (b - a) + j) = b + int j" using h by simp
    ultimately show "m (b + int j) \<noteq> None" by simp
  qed
qed

lemma mem_has_nonpos [simp]: "n \<le> 0 \<Longrightarrow> mem_has m a n"
  by (simp add: mem_has_def)

lemma mem_has_split:
  assumes "0 \<le> k" and "k \<le> n"
  shows "mem_has m a n \<longleftrightarrow> mem_has m a k \<and> mem_has m (a + k) (n - k)"
proof
  assume "mem_has m a n"
  then show "mem_has m a k \<and> mem_has m (a + k) (n - k)"
    using mem_has_sub [of m a n a k] mem_has_sub [of m a n "a + k" "n - k"] assms by simp
next
  assume h: "mem_has m a k \<and> mem_has m (a + k) (n - k)"
  show "mem_has m a n" unfolding mem_has_def
  proof (intro allI impI)
    fix i assume i: "i < nat n"
    show "m (a + int i) \<noteq> None"
    proof (cases "i < nat k")
      case False
      then have "i - nat k < nat (n - k)" "a + k + int (i - nat k) = a + int i" using i assms by auto
      then show ?thesis using h unfolding mem_has_def by metis
    qed (use h in \<open>simp add: mem_has_def\<close>)
  qed
qed

lemma mem_bytes_split:
  assumes "0 \<le> k" and "k \<le> n"
  shows "mem_bytes m a n = mem_bytes m a k @ mem_bytes m (a + k) (n - k)"
proof (rule nth_equalityI)
  show "length (mem_bytes m a n) = length (mem_bytes m a k @ mem_bytes m (a + k) (n - k))"
    using assms by simp
  fix i assume "i < length (mem_bytes m a n)"
  then have i: "i < nat n" by simp
  show "mem_bytes m a n ! i = (mem_bytes m a k @ mem_bytes m (a + k) (n - k)) ! i"
  proof (cases "i < nat k")
    case True
    then show ?thesis using i by (simp add: nth_append mem_bytes_def)
  next
    case False
    then have "i - nat k < nat (n - k)" "a + k + int (i - nat k) = a + int i"
      using assms i by auto
    then show ?thesis using i False by (simp add: nth_append mem_bytes_def)
  qed
qed

lemma mem_overlay_has: "mem_has (mem_overlay m a d) a (int (length d))"
  by (auto simp: mem_has_def mem_overlay_def)

lemma mem_overlay_bytes: "mem_bytes (mem_overlay m a d) a (int (length d)) = d"
  by (rule nth_equalityI) (auto simp: mem_bytes_def mem_overlay_def)

lemma mem_bytes_cong: "(\<And>k. k < nat n \<Longrightarrow> m (a + int k) = m' (a + int k)) \<Longrightarrow> mem_bytes m a n = mem_bytes m' a n"
  by (simp add: mem_bytes_def)

lemma mem_overlay_bytes_other:
  "b + n \<le> a \<or> a + int (length d) \<le> b \<Longrightarrow> mem_bytes (mem_overlay m a d) b n = mem_bytes m b n"
  by (rule mem_bytes_cong) (auto simp: mem_overlay_def)

section \<open>The plan of a write, with the data\<close>

definition data_plan :: "int \<Rightarrow> int \<Rightarrow> byte list \<Rightarrow> (int \<times> byte list) list" where
  "data_plan m a d = map (\<lambda>(x, c). (x, py_slice d (x - a) (x - a + c))) (plan m a (int (length d)))"

lemma io_forM_map: "io_forM f (map g xs) = io_forM (f \<circ> g) xs"
  by (induction xs) auto

lemma regio_write_data_plan:
  "0 < mtu r \<Longrightarrow> regio_write r a d = io_forM (\<lambda>(x, c). regio_write1 r x c) (data_plan (mtu r) a d)"
  by (simp add: regio_write_plan data_plan_def io_forM_map case_prod_unfold comp_def)

lemma py_slice_drop:
  assumes "k \<le> length d" and "0 \<le> i" and "i \<le> j" and "int k + j \<le> int (length d)"
  shows "py_slice (drop k d) i j = py_slice d (int k + i) (int k + j)"
proof -
  have "nat (int k + i) = nat i + k" using assms by simp
  then show ?thesis using assms by (simp add: py_slice_inside algebra_simps)
qed

lemma data_plan_nil [simp]: "data_plan m a [] = []"
  by (simp add: data_plan_def)

lemma data_plan_step:
  assumes m: "0 < m" and d: "d \<noteq> []" and k: "k = nat (min (m - a mod m) (int (length d)))"
  shows "data_plan m a d = (a, take k d) # data_plan m (a + int k) (drop k d)"
    and "0 < k" and "k \<le> length d"
proof -
  let ?n = "int (length d)"
  have n: "0 < ?n" using d by simp
  note st = plan_step [OF m n, of a]
  have ik: "min (m - a mod m) ?n = int k" using st(2) k by linarith
  show k0: "0 < k" using st(2) ik by linarith
  have "int k \<le> int (length d)" unfolding ik [symmetric] by simp
  then show kl: "k \<le> length d" by simp
  have tl: "py_slice d (x - a) (x - a + c) = py_slice (drop k d) (x - (a + int k)) (x - (a + int k) + c)"
    if "(x, c) \<in> set (plan m (a + int k) (int (length d - k)))" for x c
  proof -
    have pc: "0 < c \<and> a + int k \<le> x \<and> x + c \<le> a + int k + int (length d - k)"
      using plan_no_cross [OF m that] by blast
    then have "py_slice (drop k d) (x - (a + int k)) (x - (a + int k) + c) =
        py_slice d (int k + (x - (a + int k))) (int k + (x - (a + int k) + c))"
      using kl by (intro py_slice_drop) auto
    then show ?thesis by (simp add: algebra_simps)
  qed
  have hd: "py_slice d 0 (int k) = take k d" using kl by (simp add: py_slice_inside)
  have "plan m a ?n = (a, int k) # plan m (a + int k) (int (length d - k))"
    using st(1) kl by (simp only: ik of_nat_diff)
  then show "data_plan m a d = (a, take k d) # data_plan m (a + int k) (drop k d)"
    using tl hd by (auto simp: data_plan_def)
qed

lemma data_plan_induct [consumes 1, case_names Nil Step]:
  fixes P :: "int \<Rightarrow> byte list \<Rightarrow> bool"
  assumes m: "0 < m" and nil: "\<And>a. P a []"
    and step: "\<And>a d k. d \<noteq> [] \<Longrightarrow> k = nat (min (m - a mod m) (int (length d))) \<Longrightarrow> 0 < k \<Longrightarrow>
      k \<le> length d \<Longrightarrow> P (a + int k) (drop k d) \<Longrightarrow> P a d"
  shows "P a d"
proof (induction "length d" arbitrary: a d rule: less_induct)
  case less
  show ?case
  proof (cases "d = []")
    case False
    let ?k = "nat (min (m - a mod m) (int (length d)))"
    note s = data_plan_step(2,3) [OF m False refl, of a]
    have "length (drop ?k d) < length d" using s False by simp
    then show ?thesis using step [OF False refl s] less by blast
  qed (simp add: nil)
qed

section \<open>The contract of a device\<close>

locale regio_memory =
  fixes dw :: "int \<Rightarrow> byte list \<Rightarrow> ('w, unit) io"
    and dr :: "int \<Rightarrow> int \<Rightarrow> ('w, byte list) io"
    and mem :: "'w \<Rightarrow> int \<rightharpoonup> byte"
    and inv :: "'w \<Rightarrow> bool"
    and ok :: "int \<Rightarrow> int \<Rightarrow> bool"
    and limit :: int
  assumes dev_write_law:
      "inv w \<Longrightarrow> ok a (int (length d)) \<Longrightarrow> d \<noteq> [] \<Longrightarrow> int (length d) \<le> limit \<Longrightarrow>
         \<exists>w'. dw a d w = (Inr (), w') \<and> inv w' \<and> mem w' = mem_overlay (mem w) a d"
    and dev_read_law:
      "inv w \<Longrightarrow> ok a n \<Longrightarrow> 0 < n \<Longrightarrow> n \<le> limit \<Longrightarrow> mem_has (mem w) a n \<Longrightarrow>
         \<exists>w'. dr a n w = (Inr (mem_bytes (mem w) a n), w') \<and> inv w' \<and> mem w' = mem w"
    and ok_sub: "ok a n \<Longrightarrow> a \<le> b \<Longrightarrow> 0 \<le> k \<Longrightarrow> b + k \<le> a + n \<Longrightarrow> ok b k"

locale regio_object = regio_memory "dev_write r" "dev_read r" mem inv ok limit
  for r :: "'w regio" and mem :: "'w \<Rightarrow> int \<rightharpoonup> byte" and inv :: "'w \<Rightarrow> bool"
    and ok :: "int \<Rightarrow> int \<Rightarrow> bool" and limit :: int +
  assumes mtu_pos: "0 < mtu r"
    and mtu_limit: "mtu r \<le> limit"
    and writes_enabled: "\<not> error_on_write r"
    and pre_callback_law: "pre_write_callback r = Some f \<Longrightarrow> inv w \<Longrightarrow>
      \<exists>x w'. f a d w = (Inr x, w') \<and> inv w' \<and> mem w' = mem w"
    and post_callback_law: "post_read_callback r = Some f \<Longrightarrow> inv w \<Longrightarrow>
      \<exists>x w'. f a d w = (Inr x, w') \<and> inv w' \<and> mem w' = mem w"
begin

lemma write1_law:
  assumes "inv w" and "ok a (int (length d))" and "d \<noteq> []" and "int (length d) \<le> limit"
  shows "\<exists>w'. regio_write1 r a d w = (Inr (), w') \<and> inv w' \<and> mem w' = mem_overlay (mem w) a d"
proof -
  obtain x w1 where w1: "(case pre_write_callback r of None \<Rightarrow> io_return 0 | Some f \<Rightarrow> f a d) w = (Inr x, w1)"
    "inv w1" "mem w1 = mem w"
    using pre_callback_law assms(1) by (cases "pre_write_callback r") fastforce+
  from dev_write_law [OF w1(2) assms(2-4)] w1 writes_enabled show ?thesis
    by (auto simp: regio_write1_def)
qed

lemma read1_law:
  assumes "inv w" and "ok a n" and "0 < n" and "n \<le> limit" and "mem_has (mem w) a n"
  shows "\<exists>w'. regio_read1 r a n w = (Inr (mem_bytes (mem w) a n), w') \<and> inv w' \<and> mem w' = mem w"
proof -
  obtain w1 where w1: "dev_read r a n w = (Inr (mem_bytes (mem w) a n), w1)" "inv w1" "mem w1 = mem w"
    using dev_read_law [OF assms] by blast
  obtain x w2 where w2: "(case post_read_callback r of None \<Rightarrow> io_return 0
        | Some f \<Rightarrow> f a (mem_bytes (mem w) a n)) w1 = (Inr x, w2)" "inv w2" "mem w2 = mem w"
    using post_callback_law w1 by (cases "post_read_callback r") fastforce+
  from w1 w2 assms(3) show ?thesis by (auto simp: regio_read1_def)
qed

lemma chunk_within_limit: "k = nat (min (mtu r - a mod mtu r) n) \<Longrightarrow> int k \<le> limit"
proof -
  assume k: "k = nat (min (mtu r - a mod mtu r) n)"
  have "0 \<le> a mod mtu r" using mtu_pos by simp
  then have "mtu r - a mod mtu r \<le> limit" "0 \<le> limit" using mtu_limit mtu_pos by linarith+
  then show ?thesis unfolding k by (simp add: min.coboundedI1)
qed

text \<open>A split write has the effect of one write of all the data.\<close>

lemma regio_write_law:
  assumes "inv w" and "ok a (int (length d))"
  shows "\<exists>w'. regio_write r a d w = (Inr (), w') \<and> inv w' \<and> mem w' = mem_overlay (mem w) a d"
  unfolding regio_write_data_plan [OF mtu_pos]
  using mtu_pos assms
proof (induction a d arbitrary: w rule: data_plan_induct)
  case (Step a d k)
  have len: "length (take k d) = k" using Step by simp
  have "ok a (int (length (take k d)))"
    using Step ok_sub [of a "int (length d)" a "int k"] len by simp
  moreover have "int (length (take k d)) \<le> limit" using chunk_within_limit [OF Step(2)] len by simp
  moreover have "take k d \<noteq> []" using Step(1,3) by simp
  ultimately obtain w1 where w1: "regio_write1 r a (take k d) w = (Inr (), w1)" "inv w1"
      "mem w1 = mem_overlay (mem w) a (take k d)"
    using write1_law Step.prems(1) by blast
  have "ok (a + int k) (int (length (drop k d)))"
    using Step ok_sub [of a "int (length d)" "a + int k" "int (length d - k)"] by simp
  from Step.IH [OF w1(2) this] obtain w2 where
    w2: "io_forM (\<lambda>(x, c). regio_write1 r x c) (data_plan (mtu r) (a + int k) (drop k d)) w1 = (Inr (), w2)"
      "inv w2" "mem w2 = mem_overlay (mem w1) (a + int k) (drop k d)" by blast
  have "mem_overlay (mem w) a d = mem_overlay (mem w1) (a + int k) (drop k d)"
    using mem_overlay_append [of "mem w" a "take k d" "drop k d"] w1(3) len by simp
  then show ?case
    using w1 w2 data_plan_step(1) [OF mtu_pos Step(1,2)] by auto
qed simp

text \<open>A split read gives the bytes of one whole read.\<close>

lemma read_plan_law:
  assumes "inv w" and "ok a n" and "mem_has (mem w) a n"
  shows "\<exists>cs w'. io_mapM (\<lambda>(x, c). regio_read1 r x c) (plan (mtu r) a n) w = (Inr cs, w') \<and>
           concat cs = mem_bytes (mem w) a n \<and> inv w' \<and> mem w' = mem w"
  using assms
proof (induction "nat n" arbitrary: a n w rule: less_induct)
  case less
  show ?case
  proof (cases "0 < n")
    case False
    then show ?thesis using less.prems by simp
  next
    case True
    define k where "k = min (mtu r - a mod mtu r) n"
    note st = plan_step [OF mtu_pos True, of a, folded k_def]
    have kn: "k \<le> n" "k \<le> limit"
      using chunk_within_limit [of "nat k" a n] st(2) by (simp_all add: k_def)
    have "ok a k" "mem_has (mem w) a k"
      using ok_sub [OF less.prems(2), of a k] mem_has_sub [OF less.prems(3), of a k] st(2) kn by auto
    from read1_law [OF less.prems(1) this(1) st(2) kn(2) this(2)] obtain w1 where
      w1: "regio_read1 r a k w = (Inr (mem_bytes (mem w) a k), w1)" "inv w1" "mem w1 = mem w" by blast
    have "ok (a + k) (n - k)" "mem_has (mem w1) (a + k) (n - k)" "nat (n - k) < nat n"
      using ok_sub [OF less.prems(2), of "a + k" "n - k"]
        mem_has_sub [OF less.prems(3), of "a + k" "n - k"] st(2) kn w1(3) True by auto
    from less.hyps [OF this(3) w1(2) this(1,2)] obtain cs w2 where
      w2: "io_mapM (\<lambda>(x, c). regio_read1 r x c) (plan (mtu r) (a + k) (n - k)) w1 = (Inr cs, w2)"
        "concat cs = mem_bytes (mem w1) (a + k) (n - k)" "inv w2" "mem w2 = mem w1" by blast
    have "mem_bytes (mem w) a n = mem_bytes (mem w) a k @ concat cs"
      using mem_bytes_split [of k n "mem w" a] st(2) kn w1(3) w2(2) by simp
    then show ?thesis using w1 w2 st(1) by auto
  qed
qed

lemma regio_read_law:
  assumes "inv w" and "ok a n" and "mem_has (mem w) a n"
  shows "\<exists>w'. regio_read r a n w = (Inr (mem_bytes (mem w) a n), w') \<and> inv w' \<and> mem w' = mem w"
  using read_plan_law [OF assms] by (auto simp: regio_read_plan [OF mtu_pos])

lemma regio_write_read:
  assumes "inv w" and "ok a (int (length d))"
  shows "\<exists>w' w''. regio_write r a d w = (Inr (), w') \<and>
           regio_read r a (int (length d)) w' = (Inr d, w'')"
proof -
  obtain w' where w': "regio_write r a d w = (Inr (), w')" "inv w'" "mem w' = mem_overlay (mem w) a d"
    using regio_write_law [OF assms] by blast
  have "mem_has (mem w') a (int (length d))" by (simp add: w'(3) mem_overlay_has)
  from regio_read_law [OF w'(2) assms(2) this] show ?thesis
    using w' by (auto simp: mem_overlay_bytes)
qed

end

section \<open>The size check of every object\<close>

text \<open>
  Whatever the device does, a read that returns gives exactly the number of bytes asked for:
  \<open>regio_read1\<close> asserts it for every piece.
\<close>

lemma regio_read1_length: "regio_read1 r a n w = (Inr d, w') \<Longrightarrow> int (length d) = n"
  by (auto simp: regio_read1_def io_bind_Inr_iff split: if_splits)

lemma mapM_read1_length:
  "adjacent a ps b \<Longrightarrow> io_mapM (\<lambda>(x, c). regio_read1 r x c) ps w = (Inr cs, w') \<Longrightarrow>
     int (length (concat cs)) = b - a"
proof (induction ps arbitrary: a w cs w')
  case (Cons p ps)
  obtain x c where p: "p = (x, c)" by (cases p)
  obtain d ds w1 w2 where d: "regio_read1 r x c w = (Inr d, w1)"
    and ds: "io_mapM (\<lambda>(x, c). regio_read1 r x c) ps w1 = (Inr ds, w2)" and cs: "cs = d # ds"
    using Cons.prems(2) by (auto simp: p io_bind_Inr_iff)
  have "int (length (concat ds)) = b - (a + c)" using Cons.IH [OF _ ds] Cons.prems(1) p by simp
  then show ?case using regio_read1_length [OF d] cs by simp
qed auto

lemma regio_read_length:
  assumes "0 < mtu r" and "0 \<le> n" and "regio_read r a n w = (Inr d, w')"
  shows "int (length d) = n"
proof -
  obtain cs w1 where "io_mapM (\<lambda>(x, c). regio_read1 r x c) (plan (mtu r) a n) w = (Inr cs, w1)" "d = concat cs"
    using assms by (auto simp: regio_read_plan io_bind_Inr_iff)
  then show ?thesis using mapM_read1_length [OF plan_adjacent [OF assms(1,2)]] by simp
qed

section \<open>The file operations\<close>

lemma write_from_file_loop_None:
  assumes m: "0 < mtu r"
  shows "write_from_file_loop r a f None (mtu r - a mod mtu r) n =
    io_bind (io_forM (\<lambda>(x, c). regio_write1 r x c) (data_plan (mtu r) a f))
      (\<lambda>_. io_return (n + int (length f)))"
  using m
proof (induction a f arbitrary: n rule: data_plan_induct)
  case (Nil a)
  show ?case by (subst write_from_file_loop.simps) (simp add: file_read_def Let_def)
next
  case (Step a d k)
  note st = data_plan_step(1) [OF m Step(1,2)]
  let ?c = "mtu r - a mod mtu r"
  have c: "0 < ?c" using m by simp
  have fr: "file_read ?c d = (take k d, drop k d)"
    using c Step(2) by (auto simp: file_read_def min_def)
  have ne: "take k d \<noteq> []" and len: "length (take k d) = k" using Step(1,3,4) by simp_all
  show ?case
  proof (cases "?c = int k")
    case True
    have al: "mtu r - (a + int k) mod mtu r = mtu r"
    proof -
      have "a + int k = mtu r + (a - a mod mtu r)" using True by simp
      also have "\<dots> = mtu r * (1 + a div mtu r)"
        using mult_div_mod_eq [of "mtu r" a] by (simp add: algebra_simps)
      finally show ?thesis by simp
    qed
    have "write_from_file_loop r a d None ?c n = io_bind (regio_write1 r a (take k d))
        (\<lambda>_. write_from_file_loop r (a + int k) (drop k d) None (mtu r) (n + int k))"
      by (subst write_from_file_loop.simps)
         (simp only: option.case if_True Let_def fr fr [unfolded True] fst_conv snd_conv ne if_False len True refl simp_thms)
    moreover have "int k + int (length d - k) = int (length d)" using Step(4) by simp
    ultimately show ?thesis using Step.IH [of "n + int k"] st al
      by (simp add: io_bind_assoc add.assoc)
  next
    case False
    then have kd: "k = length d" using Step(2) c by (auto simp: min_def split: if_splits)
    have "write_from_file_loop r a d None ?c n = io_bind (regio_write1 r a (take k d)) (\<lambda>_. io_return (n + int k))"
      using False
      by (subst write_from_file_loop.simps)
         (simp only: option.case if_True Let_def fr fst_conv snd_conv ne if_False len False not_False_eq_True)
    then show ?thesis using st kd by (simp add: io_bind_assoc)
  qed
qed

text \<open>Writing a whole file is writing its bytes.\<close>

lemma write_from_read_file_None:
  assumes "0 < mtu r"
  shows "write_from_read_file r a f None = regio_write r a f"
proof -
  show ?thesis
    using assms by (simp add: write_from_read_file_def first_chunk_plan write_from_file_loop_None
        regio_write_data_plan io_bind_assoc)
qed

section \<open>Properties\<close>

text \<open>
  C11: a write or read of any address and size is issued to the device as pieces that lie one
  after the other, cover exactly the range asked for, hold at least one byte and never cross a
  boundary of the transfer unit; a write gives every piece its own bytes of the data, a read puts
  the pieces together in order.
\<close>
theorem regio_split:
  assumes "0 < mtu r" and "0 \<le> n"
  shows "regio_write r a d = io_forM (\<lambda>(x, c). regio_write1 r x (py_slice d (x - a) (x - a + c)))
      (plan (mtu r) a (int (length d))) \<and>
    regio_read r a n = io_bind (io_mapM (\<lambda>(x, c). regio_read1 r x c) (plan (mtu r) a n)) (\<lambda>cs. io_return (concat cs)) \<and>
    adjacent a (plan (mtu r) a n) (a + n) \<and>
    (\<forall>(x, c) \<in> set (plan (mtu r) a n). 0 < c \<and> c \<le> mtu r \<and> (x + c - 1) div mtu r = x div mtu r)"
  using plan_no_cross [OF assms(1), of _ _ a n] plan_adjacent [OF assms]
    regio_write_plan [OF assms(1)] regio_read_plan [OF assms(1)] by auto

theorem regio_split_witness:
  "adjacent 4094 (plan (mtu (Regio_init (\<lambda>a d. io_return ()) (\<lambda>a n. io_return (replicate (nat n) 0)) :: unit regio)) 4094 3) (4094 + 3)"
  by (rule regio_split [THEN conjunct2, THEN conjunct2, THEN conjunct1]) (simp_all add: Regio_init_def REGIO_MTU_DEFAULT_def)

text \<open>
  A read that returns gives exactly the number of bytes asked for, and writing a whole file to
  a device is writing its bytes.
\<close>
theorem regio_read_exact_and_file:
  assumes "0 < mtu r" and "0 \<le> n"
  shows "(\<forall>w d w'. regio_read r a n w = (Inr d, w') \<longrightarrow> int (length d) = n) \<and>
    write_from_read_file r a f None = regio_write r a f"
  using regio_read_length [OF assms] write_from_read_file_None [OF assms(1)] by blast

theorem regio_read_exact_and_file_witness:
  "write_from_read_file (Regio_init (\<lambda>a d. io_return ()) (\<lambda>a n. io_return (replicate (nat n) 0)) :: unit regio) 7 [1, 2] None =
    regio_write (Regio_init (\<lambda>a d. io_return ()) (\<lambda>a n. io_return (replicate (nat n) 0)) :: unit regio) 7 [1, 2]"
  by (rule regio_read_exact_and_file [of _ 5, THEN conjunct2]) (simp_all add: Regio_init_def REGIO_MTU_DEFAULT_def)

end
