(* ===== verification/Tcp.thy ===== *)
theory Tcp
  imports RegioContract
begin

text \<open>
  \<^verbatim>\<open>pip/regio/src/regio/tcp.py\<close>: the heads of the wire protocol. A head is packed as
  \<^verbatim>\<open><BBHI\<close>: two bytes, a 16-bit size and a 32-bit address, little endian. The flags of an unpacked
  head are the integers of their byte, as \<^verbatim>\<open>struct.unpack\<close> gives them.
\<close>

definition RQST_SYNC :: int where "RQST_SYNC = 0x9A"
definition RPLY_SYNC :: int where "RPLY_SYNC = 0x9B"
definition RQST_HEAD_SIZE :: nat where "RQST_HEAD_SIZE = 8"
definition SIZE_MAX :: int where "SIZE_MAX = 0xFFFF"
definition ADDR_MAX :: int where "ADDR_MAX = 0xFFFFFFFF"

record rqst_head =
  rq_flag_we :: int
  rq_size :: int
  rq_addr :: int

record rply_head =
  rp_flag_error :: int
  rp_size :: int
  rp_addr :: int

definition rqst_payload_size :: "rqst_head \<Rightarrow> int" where
  "rqst_payload_size h = rq_flag_we h * rq_size h"

definition rply_payload_size :: "rply_head \<Rightarrow> int" where
  "rply_payload_size h = (if rp_flag_error h = 0 then 1 else 0) * rp_size h"

text \<open>\<^verbatim>\<open>struct.pack\<close> and \<^verbatim>\<open>struct.unpack\<close> with the format \<^verbatim>\<open><BBHI\<close>.\<close>

definition pack_BBHI :: "int \<Rightarrow> int \<Rightarrow> int \<Rightarrow> int \<Rightarrow> byte list res" where
  "pack_BBHI a b h i =
     rbind (pack_u 1 a) (\<lambda>a. rbind (pack_u 1 b) (\<lambda>b. rbind (pack_u 2 h) (\<lambda>h.
     rbind (pack_u 4 i) (\<lambda>i. Inr (a @ b @ h @ i)))))"

definition unpack_BBHI :: "byte list \<Rightarrow> (int \<times> int \<times> int \<times> int) res" where
  "unpack_BBHI data =
     (if length data \<noteq> 8 then Inl StructError
      else Inr (le_to_int (take 1 data), le_to_int (take 1 (drop 1 data)),
                le_to_int (take 2 (drop 2 data)), le_to_int (drop 4 data)))"

definition unpack_rqst_head :: "byte list \<Rightarrow> rqst_head res" where
  "unpack_rqst_head data =
     rbind (unpack_BBHI data) (\<lambda>(sync, flag_we, sz, addr).
       if sync \<noteq> RQST_SYNC then Inl ValueError
       else Inr \<lparr>rq_flag_we = flag_we, rq_size = sz, rq_addr = addr\<rparr>)"

definition unpack_rply_head :: "byte list \<Rightarrow> rply_head res" where
  "unpack_rply_head data =
     rbind (unpack_BBHI data) (\<lambda>(sync, flag_error, sz, addr).
       if sync \<noteq> RPLY_SYNC then Inl ValueError
       else Inr \<lparr>rp_flag_error = flag_error, rp_size = sz, rp_addr = addr\<rparr>)"

definition pack_rqst_head :: "rqst_head \<Rightarrow> byte list res" where
  "pack_rqst_head h = pack_BBHI RQST_SYNC (rq_flag_we h) (rq_size h) (rq_addr h)"

definition pack_rply_head :: "rply_head \<Rightarrow> byte list res" where
  "pack_rply_head h = pack_BBHI RPLY_SYNC (rp_flag_error h) (rp_size h) (rp_addr h)"

section \<open>Packing and unpacking\<close>

lemma unpack_pack_BBHI:
  assumes "pack_BBHI a b h i = Inr bs"
  shows "length bs = 8 \<and> unpack_BBHI bs = Inr (a, b, h, i)"
proof -
  from assms obtain x y z u where
    p: "pack_u 1 a = Inr x" "pack_u 1 b = Inr y" "pack_u 2 h = Inr z" "pack_u 4 i = Inr u"
    and bs: "bs = x @ y @ z @ u"
    by (auto simp: pack_BBHI_def rbind_Inr_iff)
  note q = pack_u_Inr [OF p(1)] pack_u_Inr [OF p(2)] pack_u_Inr [OF p(3)] pack_u_Inr [OF p(4)]
  have "take 1 bs = x" "take 1 (drop 1 bs) = y" "take 2 (drop 2 bs) = z" "drop 4 bs = u"
    using q by (simp_all add: bs)
  moreover have "length bs = 8" using q by (simp add: bs)
  ultimately show ?thesis using q by (simp add: unpack_BBHI_def)
qed

lemma pack_BBHI_Inr_iff:
  "(\<exists>bs. pack_BBHI a b h i = Inr bs) \<longleftrightarrow>
     0 \<le> a \<and> a < 256 \<and> 0 \<le> b \<and> b < 256 \<and> 0 \<le> h \<and> h \<le> SIZE_MAX \<and> 0 \<le> i \<and> i \<le> ADDR_MAX"
  by (auto simp: pack_BBHI_def rbind_Inr_iff pack_u_def SIZE_MAX_def ADDR_MAX_def)

lemma unpack_BBHI_Inr:
  assumes "unpack_BBHI bs = Inr (a, b, h, i)"
  shows "pack_BBHI a b h i = Inr bs"
proof -
  have len: "length bs = 8" using assms by (auto simp: unpack_BBHI_def split: if_splits)
  have e: "a = le_to_int (take 1 bs)" "b = le_to_int (take 1 (drop 1 bs))"
      "h = le_to_int (take 2 (drop 2 bs))" "i = le_to_int (drop 4 bs)"
    using assms len by (auto simp: unpack_BBHI_def)
  have pk: "pack_u (length xs) (le_to_int xs) = Inr xs" for xs
    using le_to_int_less [of xs] by (simp add: pack_u_def int_to_le_le_to_int)
  have "bs = take 1 bs @ take 1 (drop 1 bs) @ take 2 (drop 2 bs) @ drop 4 bs"
    by (metis append_take_drop_id drop_drop numeral_Bit0 one_add_one)
  then show ?thesis
    using pk [of "take 1 bs"] pk [of "take 1 (drop 1 bs)"] pk [of "take 2 (drop 2 bs)"] pk [of "drop 4 bs"] len
    by (simp add: pack_BBHI_def e)
qed

lemma unpack_BBHI_ranges:
  "unpack_BBHI bs = Inr (a, b, h, i) \<Longrightarrow>
     0 \<le> b \<and> b < 256 \<and> 0 \<le> h \<and> h \<le> SIZE_MAX \<and> 0 \<le> i \<and> i \<le> ADDR_MAX"
  using unpack_BBHI_Inr [of bs a b h i] pack_BBHI_Inr_iff [of a b h i] by blast

lemma unpack_pack_rqst: "pack_rqst_head h = Inr bs \<Longrightarrow> length bs = 8 \<and> unpack_rqst_head bs = Inr h"
  using unpack_pack_BBHI by (fastforce simp: pack_rqst_head_def unpack_rqst_head_def)

lemma unpack_pack_rply: "pack_rply_head h = Inr bs \<Longrightarrow> length bs = 8 \<and> unpack_rply_head bs = Inr h"
  using unpack_pack_BBHI by (fastforce simp: pack_rply_head_def unpack_rply_head_def)

lemma unpack_rqst_Inr:
  "unpack_rqst_head bs = Inr h \<Longrightarrow> pack_rqst_head h = Inr bs \<and> length bs = 8 \<and>
     0 \<le> rq_flag_we h \<and> rq_flag_we h < 256 \<and> 0 \<le> rq_size h \<and> rq_size h \<le> SIZE_MAX \<and>
     0 \<le> rq_addr h \<and> rq_addr h \<le> ADDR_MAX"
proof -
  assume "unpack_rqst_head bs = Inr h"
  then obtain a b s i where u: "unpack_BBHI bs = Inr (a, b, s, i)" and a: "a = RQST_SYNC"
    and h: "h = \<lparr>rq_flag_we = b, rq_size = s, rq_addr = i\<rparr>"
    by (auto simp: unpack_rqst_head_def rbind_Inr_iff split: if_splits)
  have "length bs = 8" using u by (auto simp: unpack_BBHI_def split: if_splits)
  then show ?thesis
    using unpack_BBHI_Inr [OF u] unpack_BBHI_ranges [OF u] by (simp add: pack_rqst_head_def h a)
qed

lemma rqst_payload_nonneg: "unpack_rqst_head bs = Inr h \<Longrightarrow> 0 \<le> rqst_payload_size h"
  using unpack_rqst_Inr [of bs h] by (simp add: rqst_payload_size_def)

section \<open>Properties\<close>

text \<open>
  The heads of the protocol survive the wire: what one side packs the other side unpacks as
  the same head, packing succeeds exactly for one-byte flags, 16-bit sizes and 32-bit addresses,
  and a request head that unpacks is the packing of exactly one head.
\<close>
theorem tcp_head_roundtrip:
  "(\<forall>bs. pack_rqst_head q = Inr bs \<longrightarrow> length bs = RQST_HEAD_SIZE \<and> unpack_rqst_head bs = Inr q) \<and>
   (\<forall>bs. pack_rply_head p = Inr bs \<longrightarrow> length bs = RQST_HEAD_SIZE \<and> unpack_rply_head bs = Inr p) \<and>
   ((\<exists>bs. pack_rqst_head q = Inr bs) \<longleftrightarrow> 0 \<le> rq_flag_we q \<and> rq_flag_we q < 256 \<and>
      0 \<le> rq_size q \<and> rq_size q \<le> SIZE_MAX \<and> 0 \<le> rq_addr q \<and> rq_addr q \<le> ADDR_MAX) \<and>
   (\<forall>bs. unpack_rqst_head bs = Inr q \<longrightarrow> pack_rqst_head q = Inr bs)"
proof (intro conjI allI impI)
  show "(\<exists>bs. pack_rqst_head q = Inr bs) \<longleftrightarrow> 0 \<le> rq_flag_we q \<and> rq_flag_we q < 256 \<and>
      0 \<le> rq_size q \<and> rq_size q \<le> SIZE_MAX \<and> 0 \<le> rq_addr q \<and> rq_addr q \<le> ADDR_MAX"
    unfolding pack_rqst_head_def pack_BBHI_Inr_iff by (simp add: RQST_SYNC_def)
qed (auto dest!: unpack_pack_rqst unpack_pack_rply unpack_rqst_Inr simp: RQST_HEAD_SIZE_def)

theorem tcp_head_roundtrip_witness:
  "unpack_rqst_head [0x9A, 1, 2, 0, 4, 0, 0, 0] = Inr \<lparr>rq_flag_we = 1, rq_size = 2, rq_addr = 4\<rparr> \<and>
   pack_rqst_head \<lparr>rq_flag_we = 1, rq_size = 2, rq_addr = 4\<rparr> = Inr [0x9A, 1, 2, 0, 4, 0, 0, 0]"
proof -
  have u: "unpack_rqst_head [0x9A, 1, 2, 0, 4, 0, 0, 0] = Inr \<lparr>rq_flag_we = 1, rq_size = 2, rq_addr = 4\<rparr>"
    by (simp add: unpack_rqst_head_def unpack_BBHI_def RQST_SYNC_def)
  then show ?thesis
    using tcp_head_roundtrip [of "\<lparr>rq_flag_we = 1, rq_size = 2, rq_addr = 4\<rparr>" undefined] by blast
qed

text \<open>
  A request head whose write flag byte is neither 0 nor 1 announces \<open>flag_we\<close> times its size
  as payload: a flag of 2 makes the server wait for twice the bytes the head gives as size.
\<close>
theorem tcp_flag_we_scales_payload:
  "unpack_rqst_head [0x9A, 2, 3, 0, 0, 0, 0, 0] = Inr \<lparr>rq_flag_we = 2, rq_size = 3, rq_addr = 0\<rparr> \<and>
   rqst_payload_size \<lparr>rq_flag_we = 2, rq_size = 3, rq_addr = 0\<rparr> = 6"
  by (simp add: unpack_rqst_head_def unpack_BBHI_def RQST_SYNC_def rqst_payload_size_def)

end
