(* ===== verification/RegioCache.thy ===== *)
theory RegioCache
  imports RegioContract
begin

text \<open>
  \<^verbatim>\<open>pip/regio/src/regio/cache.py\<close>: the sparse memory cache \<^verbatim>\<open>RegioCache\<close>. Its state is the list of
  regions \<open>(address, bytes)\<close>. \<open>regions_ok\<close> is the invariant the class promises (sorted, no two
  regions overlapping or touching, inside the 32-bit space); \<open>mem_of\<close> is the memory a list of
  regions stands for. The lemmas show that a write keeps the invariant and overlays the memory,
  that a read gives exactly the bytes of the memory or raises, and that a saved cache loads back.
\<close>

type_synonym regions = "(int \<times> byte list) list"

definition UINT32_MAX :: int where "UINT32_MAX = 0xFFFFFFFF"

definition FILE_HEADER :: "byte list" where
  "FILE_HEADER = [0x73, 0x6B, 0x65, 0x6C, 0x72, 0x65, 0x67, 0x69]"

section \<open>Operations\<close>

definition validate_addr_size :: "int \<Rightarrow> int \<Rightarrow> unit res" where
  "validate_addr_size addr n =
     (if addr < 0 \<or> n < 0 then Inl ValueError
      else if addr > UINT32_MAX \<or> addr + n > UINT32_MAX + 1 then Inl ValueError
      else Inr ())"

fun mw_scan ::
  "int \<Rightarrow> int \<Rightarrow> regions \<Rightarrow> regions \<Rightarrow> regions \<Rightarrow> int \<Rightarrow> int \<Rightarrow> regions \<times> regions \<times> int \<times> int" where
  "mw_scan new_start new_end [] overlapping remaining merged_start merged_end =
     (overlapping, remaining, merged_start, merged_end)"
| "mw_scan new_start new_end ((rstart, rdata) # rs) overlapping remaining merged_start merged_end =
     (let rend = rstart + int (length rdata) in
      if rend < new_start \<or> rstart > new_end
      then mw_scan new_start new_end rs overlapping (remaining @ [(rstart, rdata)]) merged_start merged_end
      else mw_scan new_start new_end rs (overlapping @ [(rstart, rdata)]) remaining
             (min merged_start rstart) (max merged_end rend))"

fun mw_lay :: "int \<Rightarrow> regions \<Rightarrow> byte list \<Rightarrow> byte list" where
  "mw_lay merged_start [] buf = buf"
| "mw_lay merged_start ((rstart, rdata) # rs) buf =
     (let off = rstart - merged_start in
      mw_lay merged_start rs (py_slice_assign buf off (off + int (length rdata)) rdata))"

definition merge_write :: "int \<Rightarrow> byte list \<Rightarrow> regions \<Rightarrow> regions" where
  "merge_write addr data regions =
     (let new_start = addr; new_end = addr + int (length data) in
      case mw_scan new_start new_end regions [] [] new_start new_end of
        (overlapping, remaining, merged_start, merged_end) \<Rightarrow>
          let merged_buf = mw_lay merged_start overlapping (replicate (nat (merged_end - merged_start)) 0);
              off = new_start - merged_start;
              merged_buf = py_slice_assign merged_buf off (off + int (length data)) data
          in sort_key fst (remaining @ [(merged_start, merged_buf)]))"

definition cache_write :: "int \<Rightarrow> byte list \<Rightarrow> (regions, unit) io" where
  "cache_write addr data =
     io_bind (io_lift (validate_addr_size addr (int (length data)))) (\<lambda>_.
       if length data = 0 then io_return () else io_modify (merge_write addr data))"

text \<open>\<^verbatim>\<open>bisect_left\<close> of the standard library, as the binary search it is.\<close>

function bisect_left_aux :: "int list \<Rightarrow> int \<Rightarrow> nat \<Rightarrow> nat \<Rightarrow> nat" where
  "bisect_left_aux xs x lo hi =
     (if lo < hi then
        let mid = (lo + hi) div 2 in
        if xs ! mid < x then bisect_left_aux xs x (mid + 1) hi else bisect_left_aux xs x lo mid
      else lo)"
  by pat_completeness auto
termination
  by (relation "measure (\<lambda>(xs, x, lo, hi). hi - lo)") auto

declare bisect_left_aux.simps [simp del]

definition bisect_left :: "int list \<Rightarrow> int \<Rightarrow> nat" where
  "bisect_left xs x = bisect_left_aux xs x 0 (length xs)"

definition cache_read :: "int \<Rightarrow> int \<Rightarrow> regions \<Rightarrow> byte list res" where
  "cache_read addr n regions =
     rbind (validate_addr_size addr n) (\<lambda>_.
       if n = 0 then Inr []
       else
         let read_start = addr; read_end = addr + n;
             starts = map fst regions;
             idx0 = bisect_left starts read_start;
             idx = (if idx0 = length starts \<or> starts ! idx0 \<noteq> read_start then int idx0 - 1 else int idx0)
         in if idx < 0 then Inl ValueError
            else let rstart = fst (regions ! nat idx); rdata = snd (regions ! nat idx);
                     rend = rstart + int (length rdata)
                 in if read_end > rend \<or> read_start < rstart then Inl ValueError
                    else Inr (py_slice rdata (read_start - rstart) (read_end - rstart)))"

definition cache_dev_write :: "int \<Rightarrow> byte list \<Rightarrow> (regions, unit) io" where
  "cache_dev_write addr data = cache_write addr data"

definition cache_dev_read :: "int \<Rightarrow> int \<Rightarrow> (regions, byte list) io" where
  "cache_dev_read addr n = io_bind (io_get (cache_read addr n)) io_lift"

definition RegioCache_init :: "regions regio" where
  "RegioCache_init = Regio_init cache_dev_write cache_dev_read"

definition regions_snapshot :: "regions \<Rightarrow> regions" where
  "regions_snapshot regions = map (\<lambda>(addr, data). (addr, data)) regions"

definition cache_clear :: "regions \<Rightarrow> regions" where
  "cache_clear rs = []"

text \<open>
  A file is the list of its bytes. Saving truncates it first; what was written before an
  exception stays in it.
\<close>

definition save_region :: "int \<times> byte list \<Rightarrow> (byte list, unit) io" where
  "save_region = (\<lambda>(addr, data).
     if int (length data) > UINT32_MAX then io_raise ValueError
     else io_bind (io_lift (rbind (pack_u 4 addr) (\<lambda>a.
            rbind (pack_u 4 (int (length data))) (\<lambda>l. Inr (a @ l))))) (\<lambda>hdr.
          io_bind (io_modify (\<lambda>f. f @ hdr)) (\<lambda>_. io_modify (\<lambda>f. f @ data))))"

definition save_to_file :: "regions \<Rightarrow> (byte list, unit) io" where
  "save_to_file regions =
     io_bind (io_modify (\<lambda>f. [])) (\<lambda>_.
     io_bind (io_modify (\<lambda>f. f @ FILE_HEADER)) (\<lambda>_. io_forM save_region regions))"

function load_loop :: "byte list \<Rightarrow> regions \<Rightarrow> regions res" where
  "load_loop f loaded =
     (let (hdr, f1) = file_read 8 f in
      if length hdr = 0 then Inr loaded
      else if length hdr \<noteq> 8 then Inl ValueError
      else
        let addr = le_to_int (take 4 hdr); sz = le_to_int (drop 4 hdr);
            (data, f2) = file_read sz f1
        in if int (length data) \<noteq> sz then Inl ValueError
           else load_loop f2 (loaded @ [(addr, data)]))"
  by pat_completeness auto
termination
  by (relation "measure (\<lambda>(f, l). length f)") (auto simp: file_read_def split: if_splits)

declare load_loop.simps [simp del]

definition load_from_file :: "byte list \<Rightarrow> bool \<Rightarrow> (regions, unit) io" where
  "load_from_file f replace =
     (let (header, f1) = file_read (int (length FILE_HEADER)) f in
      if header \<noteq> FILE_HEADER then io_raise ValueError
      else io_bind (io_lift (load_loop f1 [])) (\<lambda>loaded.
        if replace then io_modify (\<lambda>_. loaded)
        else io_modify (\<lambda>rs. foldl (\<lambda>rs (addr, data). merge_write addr data rs) rs loaded)))"

section \<open>The invariant and the memory\<close>

definition sep :: "int \<times> byte list \<Rightarrow> int \<times> byte list \<Rightarrow> bool" where
  "sep r s \<longleftrightarrow> fst r + int (length (snd r)) < fst s"

definition region_ok :: "int \<times> byte list \<Rightarrow> bool" where
  "region_ok r \<longleftrightarrow> snd r \<noteq> [] \<and> 0 \<le> fst r \<and> fst r + int (length (snd r)) \<le> UINT32_MAX + 1"

definition regions_ok :: "regions \<Rightarrow> bool" where
  "regions_ok rs \<longleftrightarrow> sorted_wrt sep rs \<and> list_all region_ok rs"

fun mem_of :: "regions \<Rightarrow> int \<Rightarrow> byte option" where
  "mem_of [] i = None"
| "mem_of ((a, d) # rs) i =
     (if a \<le> i \<and> i < a + int (length d) then Some (d ! nat (i - a)) else mem_of rs i)"

definition covers :: "int \<times> byte list \<Rightarrow> int \<Rightarrow> bool" where
  "covers r i \<longleftrightarrow> fst r \<le> i \<and> i < fst r + int (length (snd r))"

lemma mem_of_None: "mem_of rs i = None \<longleftrightarrow> (\<forall>r \<in> set rs. \<not> covers r i)"
  by (induction rs i rule: mem_of.induct) (auto simp: covers_def)

text \<open>Where the regions do not overlap, their order does not matter.\<close>

lemma mem_of_unique:
  assumes "r \<in> set rs" and "covers r i" and "\<And>s. s \<in> set rs \<Longrightarrow> covers s i \<Longrightarrow> s = r"
  shows "mem_of rs i = Some (snd r ! nat (i - fst r))"
  using assms
proof (induction rs)
  case (Cons x xs)
  obtain a d where x: "x = (a, d)" by (cases x)
  show ?case
  proof (cases "covers x i")
    case True
    then have r: "r = (a, d)" using Cons.prems(3) [of x] x by simp
    show ?thesis using True by (simp add: x r covers_def)
  next
    case False
    then have "r \<in> set xs" using Cons.prems(1,2) by auto
    then have "mem_of xs i = Some (snd r ! nat (i - fst r))"
      using Cons.prems(2,3) by (intro Cons.IH) auto
    then show ?thesis using False by (auto simp: x covers_def)
  qed
qed simp

lemma sep_irrefl: "\<not> sep r r"
  by (simp add: sep_def)

lemma sep_not_both: "sep r s \<Longrightarrow> covers r i \<Longrightarrow> \<not> covers s i"
  by (auto simp: sep_def covers_def)

lemma sorted_sep_pair:
  "sorted_wrt sep rs \<Longrightarrow> r \<in> set rs \<Longrightarrow> s \<in> set rs \<Longrightarrow> r = s \<or> sep r s \<or> sep s r"
  by (induction rs) auto

lemma sorted_sep_distinct: "sorted_wrt sep rs \<Longrightarrow> distinct rs"
  by (induction rs) (auto simp: sep_irrefl)

lemma mem_of_sorted:
  assumes "sorted_wrt sep rs" and "r \<in> set rs" and "covers r i"
  shows "mem_of rs i = Some (snd r ! nat (i - fst r))"
  using assms(2,3)
proof (rule mem_of_unique)
  fix s assume s: "s \<in> set rs" "covers s i"
  show "s = r"
    using sorted_sep_pair [OF assms(1) s(1) assms(2)] sep_not_both s(2) assms(3) by blast
qed

text \<open>Sorting by the start of pairwise separated regions gives a separated list.\<close>

lemma sort_key_sep:
  assumes "distinct xs" and "\<And>x y. x \<in> set xs \<Longrightarrow> y \<in> set xs \<Longrightarrow> x \<noteq> y \<Longrightarrow> sep x y \<or> sep y x"
  shows "sorted_wrt sep (sort_key fst xs)"
proof -
  let ?ys = "sort_key fst xs"
  have d: "distinct ?ys" and s: "sorted (map fst ?ys)" and st: "set ?ys = set xs"
    using assms(1) by simp_all
  have lt: "fst x < fst y" if "sep x y" for x y using that by (simp add: sep_def)
  show ?thesis unfolding sorted_wrt_iff_nth_less
  proof (intro allI impI)
    fix i j assume ij: "i < j" "j < length ?ys"
    have le: "fst (?ys ! i) \<le> fst (?ys ! j)"
      using s ij by (simp add: sorted_iff_nth_mono)
    have "?ys ! i \<noteq> ?ys ! j" using d ij by (simp add: nth_eq_iff_index_eq)
    moreover have "?ys ! i \<in> set xs" "?ys ! j \<in> set xs"
      using ij st nth_mem [of i ?ys] nth_mem [of j ?ys] by auto
    ultimately have "sep (?ys ! i) (?ys ! j) \<or> sep (?ys ! j) (?ys ! i)" using assms(2) by blast
    moreover have "\<not> sep (?ys ! j) (?ys ! i)" using le lt [of "?ys ! j" "?ys ! i"] by auto
    ultimately show "sep (?ys ! i) (?ys ! j)" by blast
  qed
qed

section \<open>What the scan collects\<close>

definition touches :: "int \<Rightarrow> int \<Rightarrow> int \<times> byte list \<Rightarrow> bool" where
  "touches ns ne r \<longleftrightarrow> ns \<le> fst r + int (length (snd r)) \<and> fst r \<le> ne"

lemma mw_scan_collects:
  "mw_scan ns ne rs ov rm ms me =
     (ov @ filter (touches ns ne) rs, rm @ filter (\<lambda>r. \<not> touches ns ne r) rs,
      foldl min ms (map fst (filter (touches ns ne) rs)),
      foldl max me (map (\<lambda>r. fst r + int (length (snd r))) (filter (touches ns ne) rs)))"
  by (induction ns ne rs ov rm ms me rule: mw_scan.induct) (auto simp: touches_def Let_def)

lemma foldl_min_props:
  "foldl min m xs \<le> m \<and> (\<forall>x \<in> set xs. foldl min m xs \<le> x) \<and> foldl min m xs \<in> insert m (set xs)"
  for m :: int
proof (induction xs arbitrary: m)
  case (Cons x xs)
  from Cons [of "min m x"] show ?case by (auto simp: min_def)
qed simp

lemma foldl_max_props:
  "m \<le> foldl max m xs \<and> (\<forall>x \<in> set xs. x \<le> foldl max m xs) \<and> foldl max m xs \<in> insert m (set xs)"
  for m :: int
proof (induction xs arbitrary: m)
  case (Cons x xs)
  from Cons [of "max m x"] show ?case by (auto simp: max_def)
qed simp

section \<open>What the buffer holds\<close>

definition buf_mem :: "int \<Rightarrow> byte list \<Rightarrow> int \<Rightarrow> byte option" where
  "buf_mem s buf = mem_overlay Map.empty s buf"

lemma buf_mem_assign:
  assumes "s \<le> a" and "a + int (length d) \<le> s + int (length buf)"
  shows "buf_mem s (py_slice_assign buf (a - s) (a - s + int (length d)) d) = mem_overlay (buf_mem s buf) a d"
    and "length (py_slice_assign buf (a - s) (a - s + int (length d)) d) = length buf"
proof -
  show len: "length (py_slice_assign buf (a - s) (a - s + int (length d)) d) = length buf"
    using assms by (intro py_slice_assign_inside_length) auto
  show "buf_mem s (py_slice_assign buf (a - s) (a - s + int (length d)) d) = mem_overlay (buf_mem s buf) a d"
  proof
    fix i
    show "buf_mem s (py_slice_assign buf (a - s) (a - s + int (length d)) d) i = mem_overlay (buf_mem s buf) a d i"
    proof (cases "s \<le> i \<and> i < s + int (length buf)")
      case True
      then have k: "nat (i - s) < length buf" by auto
      have "py_slice_assign buf (a - s) (a - s + int (length d)) d ! nat (i - s) =
          (if nat (a - s) \<le> nat (i - s) \<and> nat (i - s) < nat (a - s) + length d
           then d ! (nat (i - s) - nat (a - s)) else buf ! nat (i - s))"
        using assms k by (intro py_slice_assign_inside_nth) auto
      also have "\<dots> = (if a \<le> i \<and> i < a + int (length d) then d ! nat (i - a) else buf ! nat (i - s))"
        using assms True by (auto intro: arg_cong [of _ _ "(!) d"])
      finally show ?thesis using True len by (simp add: buf_mem_def mem_overlay_def)
    next
      case False
      then show ?thesis using assms len by (auto simp: buf_mem_def mem_overlay_def)
    qed
  qed
qed

lemma mw_lay_mem:
  assumes "\<And>r. r \<in> set ov \<Longrightarrow> s \<le> fst r \<and> fst r + int (length (snd r)) \<le> s + int (length buf)"
    and "\<And>r. r \<in> set ov \<Longrightarrow> covers r i \<Longrightarrow> snd r ! nat (i - fst r) = b"
  shows "buf_mem s (mw_lay s ov buf) i = (if \<exists>r \<in> set ov. covers r i then Some b else buf_mem s buf i)
    \<and> length (mw_lay s ov buf) = length buf"
  using assms
proof (induction s ov buf rule: mw_lay.induct)
  case (2 s a d rs buf)
  let ?buf = "py_slice_assign buf (a - s) (a - s + int (length d)) d"
  have ad: "s \<le> a" "a + int (length d) \<le> s + int (length buf)" using 2(2) [of "(a, d)"] by auto
  note bm = buf_mem_assign [OF ad]
  have "buf_mem s (mw_lay s rs ?buf) i = (if \<exists>r \<in> set rs. covers r i then Some b else buf_mem s ?buf i)
      \<and> length (mw_lay s rs ?buf) = length ?buf"
    using 2 bm(2) by (intro "2.IH" [OF refl]) auto
  moreover have "covers (a, d) i \<Longrightarrow> d ! nat (i - a) = b" using 2(3) [of "(a, d)"] by simp
  ultimately show ?case using bm by (auto simp: Let_def mem_overlay_def covers_def)
qed auto

section \<open>Writing\<close>

text \<open>
  The pieces of one merge: \<open>ms\<close> and \<open>me\<close> bound the data and every touching region, and each
  bound is reached by one of them.
\<close>

lemma merge_write_pieces:
  fixes addr :: int and data :: "byte list" and rs :: regions
  defines "ne \<equiv> addr + int (length data)"
  defines "ov \<equiv> filter (touches addr ne) rs"
  obtains ms me where
    "ms \<le> addr" "ne \<le> me" "ms \<le> me"
    "\<And>r. r \<in> set ov \<Longrightarrow> ms \<le> fst r \<and> fst r + int (length (snd r)) \<le> me"
    "ms = addr \<or> (\<exists>r \<in> set ov. ms = fst r)"
    "me = ne \<or> (\<exists>r \<in> set ov. me = fst r + int (length (snd r)))"
    "merge_write addr data rs = sort_key fst (filter (\<lambda>r. \<not> touches addr ne r) rs @
       [(ms, py_slice_assign (mw_lay ms ov (replicate (nat (me - ms)) 0)) (addr - ms)
               (addr - ms + int (length data)) data)])"
proof -
  let ?ms = "foldl min addr (map fst ov)"
  let ?me = "foldl max ne (map (\<lambda>r. fst r + int (length (snd r))) ov)"
  note p = foldl_min_props [of addr "map fst ov"]
    and q = foldl_max_props [of ne "map (\<lambda>r. fst r + int (length (snd r))) ov"]
  have "?ms \<le> addr" "ne \<le> ?me" using p q by blast+
  moreover have "?ms \<le> ?me"
    using \<open>?ms \<le> addr\<close> \<open>ne \<le> ?me\<close> by (simp add: ne_def)
  moreover have "\<And>r. r \<in> set ov \<Longrightarrow> ?ms \<le> fst r \<and> fst r + int (length (snd r)) \<le> ?me"
    using p q by auto
  moreover have "?ms = addr \<or> (\<exists>r \<in> set ov. ?ms = fst r)"
    using conjunct2 [OF conjunct2 [OF p]] by auto
  moreover have "?me = ne \<or> (\<exists>r \<in> set ov. ?me = fst r + int (length (snd r)))"
    using conjunct2 [OF conjunct2 [OF q]] by auto
  moreover have "merge_write addr data rs = sort_key fst (filter (\<lambda>r. \<not> touches addr ne r) rs @
       [(?ms, py_slice_assign (mw_lay ?ms ov (replicate (nat (?me - ?ms)) 0)) (addr - ?ms)
               (addr - ?ms + int (length data)) data)])"
    by (simp add: merge_write_def mw_scan_collects Let_def ne_def ov_def)
  ultimately show ?thesis by (rule that)
qed

lemma touching_block_covered:
  assumes "ms = addr \<or> (\<exists>r \<in> set (filter (touches addr ne) rs). ms = fst r)"
    and "me = ne \<or> (\<exists>r \<in> set (filter (touches addr ne) rs). me = fst r + int (length (snd r)))"
    and "ms \<le> i" and "i < me" and "\<not> (addr \<le> i \<and> i < ne)"
  shows "\<exists>r \<in> set (filter (touches addr ne) rs). covers r i"
proof (cases "i < addr")
  case True
  then obtain r where "r \<in> set (filter (touches addr ne) rs)" "ms = fst r" using assms by auto
  moreover from this have "covers r i" using True assms(3) by (auto simp: covers_def touches_def)
  ultimately show ?thesis by blast
next
  case False
  then obtain r where r: "r \<in> set (filter (touches addr ne) rs)" "me = fst r + int (length (snd r))"
    using assms by auto
  then have "covers r i" using False assms(4,5) by (auto simp: covers_def touches_def)
  then show ?thesis using r by blast
qed

lemma remaining_sep_block:
  assumes srt: "sorted_wrt sep rs" and r: "r \<in> set rs" "\<not> touches addr ne r" and ne: "addr \<le> ne"
    and ms: "ms = addr \<or> (\<exists>s \<in> set (filter (touches addr ne) rs). ms = fst s)"
    and me: "me = ne \<or> (\<exists>s \<in> set (filter (touches addr ne) rs). me = fst s + int (length (snd s)))"
  shows "fst r + int (length (snd r)) < ms \<or> me < fst r"
proof -
  have tri: "s = r \<or> sep s r \<or> sep r s" if "s \<in> set (filter (touches addr ne) rs)" for s
    using sorted_sep_pair [OF srt] r that by auto
  consider "fst r + int (length (snd r)) < addr" | "ne < fst r" using r by (auto simp: touches_def)
  then show ?thesis
  proof cases
    case 1
    have "fst r + int (length (snd r)) < ms"
      using ms
    proof
      assume "\<exists>s \<in> set (filter (touches addr ne) rs). ms = fst s"
      then obtain s where s: "s \<in> set (filter (touches addr ne) rs)" "ms = fst s" by blast
      then show ?thesis using tri [OF s(1)] r 1 by (auto simp: touches_def sep_def)
    qed (use 1 in simp)
    then show ?thesis by simp
  next
    case 2
    have "me < fst r"
      using me
    proof
      assume "\<exists>s \<in> set (filter (touches addr ne) rs). me = fst s + int (length (snd s))"
      then obtain s where s: "s \<in> set (filter (touches addr ne) rs)" "me = fst s + int (length (snd s))" by blast
      then show ?thesis using tri [OF s(1)] r 2 by (auto simp: touches_def sep_def)
    qed (use 2 in simp)
    then show ?thesis by simp
  qed
qed

text \<open>
  The merged block: it is the overlay of the data over the old memory, covers the data and every
  touching region, and lies apart from the remaining regions.
\<close>

lemma merge_write_block:
  fixes addr :: int and data :: "byte list" and rs :: regions
  defines "ne \<equiv> addr + int (length data)"
  assumes srt: "sorted_wrt sep rs"
  obtains ms buf where
    "merge_write addr data rs = sort_key fst (filter (\<lambda>r. \<not> touches addr ne r) rs @ [(ms, buf)])"
    "ms \<le> addr" "ne \<le> ms + int (length buf)"
    "\<And>r. r \<in> set (filter (touches addr ne) rs) \<Longrightarrow>
       ms \<le> fst r \<and> fst r + int (length (snd r)) \<le> ms + int (length buf)"
    "ms = addr \<or> (\<exists>r \<in> set (filter (touches addr ne) rs). ms = fst r)"
    "ms + int (length buf) = ne \<or>
       (\<exists>r \<in> set (filter (touches addr ne) rs). ms + int (length buf) = fst r + int (length (snd r)))"
    "\<And>i. ms \<le> i \<Longrightarrow> i < ms + int (length buf) \<Longrightarrow> buf_mem ms buf i = mem_overlay (mem_of rs) addr data i"
proof -
  let ?ov = "filter (touches addr ne) rs"
  obtain ms me where b: "ms \<le> addr" "ne \<le> me" "ms \<le> me"
    and ovb: "\<And>r. r \<in> set ?ov \<Longrightarrow> ms \<le> fst r \<and> fst r + int (length (snd r)) \<le> me"
    and msr: "ms = addr \<or> (\<exists>r \<in> set ?ov. ms = fst r)"
    and mer: "me = ne \<or> (\<exists>r \<in> set ?ov. me = fst r + int (length (snd r)))"
    and mw: "merge_write addr data rs = sort_key fst (filter (\<lambda>r. \<not> touches addr ne r) rs @
       [(ms, py_slice_assign (mw_lay ms ?ov (replicate (nat (me - ms)) 0)) (addr - ms)
               (addr - ms + int (length data)) data)])"
    using merge_write_pieces [where addr = addr and data = data and rs = rs] unfolding ne_def by blast
  define lay where "lay = mw_lay ms ?ov (replicate (nat (me - ms)) 0)"
  define buf where "buf = py_slice_assign lay (addr - ms) (addr - ms + int (length data)) data"
  have same: "snd r ! nat (i - fst r) = the (mem_of rs i)" if "r \<in> set ?ov" "covers r i" for r i
    using mem_of_sorted [OF srt, of r i] that by simp
  have lay: "buf_mem ms lay i = (if \<exists>r \<in> set ?ov. covers r i then Some (the (mem_of rs i))
      else buf_mem ms (replicate (nat (me - ms)) 0) i) \<and> length lay = length (replicate (nat (me - ms)) (0::byte))" for i
    unfolding lay_def using ovb b by (intro mw_lay_mem) (auto intro: same)
  then have len: "int (length lay) = me - ms" using b by simp
  have bufm: "buf_mem ms buf = mem_overlay (buf_mem ms lay) addr data" and "length buf = length lay"
    unfolding buf_def using buf_mem_assign [of ms addr data lay] b len by (auto simp: ne_def)
  then have lenb: "ms + int (length buf) = me" using len by simp
  have mem: "buf_mem ms buf i = mem_overlay (mem_of rs) addr data i" if "ms \<le> i" "i < me" for i
  proof (cases "addr \<le> i \<and> i < ne")
    case False
    then have c: "\<exists>r \<in> set ?ov. covers r i" using touching_block_covered [OF msr mer] that by blast
    then obtain b where "mem_of rs i = Some b" using mem_of_None [of rs i] by fastforce
    then have "buf_mem ms lay i = mem_of rs i" using lay [of i] c by (simp only: if_True) simp
    then show ?thesis unfolding bufm using False by (auto simp: mem_overlay_def ne_def)
  qed (simp add: bufm mem_overlay_def ne_def)
  show ?thesis
    by (rule that [of ms buf]) (use mw b ovb msr mer mem lenb in \<open>simp_all add: buf_def lay_def\<close>)
qed

lemma merge_write_regions:
  assumes ok: "regions_ok rs" and data: "data \<noteq> []"
    and rng: "0 \<le> addr" "addr + int (length data) \<le> UINT32_MAX + 1"
  obtains ms buf where
    "regions_ok (merge_write addr data rs)"
    "set (merge_write addr data rs) =
       set (filter (\<lambda>r. \<not> touches addr (addr + int (length data)) r) rs @ [(ms, buf)])"
    "ms \<le> addr" "addr + int (length data) \<le> ms + int (length buf)"
    "\<And>r. r \<in> set rs \<Longrightarrow> (ms \<le> fst r \<and> fst r + int (length (snd r)) \<le> ms + int (length buf)) \<or>
       (\<not> touches addr (addr + int (length data)) r \<and>
         (fst r + int (length (snd r)) < ms \<or> ms + int (length buf) < fst r))"
    "\<And>i. ms \<le> i \<Longrightarrow> i < ms + int (length buf) \<Longrightarrow> buf_mem ms buf i = mem_overlay (mem_of rs) addr data i"
proof -
  let ?ne = "addr + int (length data)"
  let ?rm = "filter (\<lambda>r. \<not> touches addr ?ne r) rs"
  have srt: "sorted_wrt sep rs" and rok: "\<And>r. r \<in> set rs \<Longrightarrow> region_ok r"
    using ok by (auto simp: regions_ok_def list_all_iff)
  obtain ms buf where mw: "merge_write addr data rs = sort_key fst (?rm @ [(ms, buf)])"
    and b: "ms \<le> addr" "?ne \<le> ms + int (length buf)"
    and ovb: "\<And>r. r \<in> set (filter (touches addr ?ne) rs) \<Longrightarrow>
       ms \<le> fst r \<and> fst r + int (length (snd r)) \<le> ms + int (length buf)"
    and msr: "ms = addr \<or> (\<exists>r \<in> set (filter (touches addr ?ne) rs). ms = fst r)"
    and mer: "ms + int (length buf) = ?ne \<or>
       (\<exists>r \<in> set (filter (touches addr ?ne) rs). ms + int (length buf) = fst r + int (length (snd r)))"
    and mem: "\<And>i. ms \<le> i \<Longrightarrow> i < ms + int (length buf) \<Longrightarrow> buf_mem ms buf i = mem_overlay (mem_of rs) addr data i"
    using merge_write_block [OF srt, of addr data] by blast
  have out: "fst r + int (length (snd r)) < ms \<or> ms + int (length buf) < fst r" if "r \<in> set ?rm" for r
    using remaining_sep_block [OF srt _ _ _ msr mer] that by auto
  have sepb: "sep r (ms, buf) \<or> sep (ms, buf) r" if "r \<in> set ?rm" for r
    using out [OF that] by (auto simp: sep_def)
  have "(ms, buf) \<notin> set ?rm" using sepb sep_irrefl by blast
  then have "distinct (?rm @ [(ms, buf)])" using sorted_sep_distinct [OF srt] by simp
  moreover have "sep x y \<or> sep y x"
    if "x \<in> set (?rm @ [(ms, buf)])" "y \<in> set (?rm @ [(ms, buf)])" "x \<noteq> y" for x y
  proof -
    from that consider "x \<in> set ?rm" "y \<in> set ?rm" | "x \<in> set ?rm" "y = (ms, buf)" | "x = (ms, buf)" "y \<in> set ?rm"
      by auto
    then show ?thesis
      using sepb [of x] sepb [of y] sorted_sep_pair [OF srt, of x y] that(3) by cases auto
  qed
  ultimately have ss: "sorted_wrt sep (merge_write addr data rs)" unfolding mw by (rule sort_key_sep)
  have sets: "set (merge_write addr data rs) = set (?rm @ [(ms, buf)])" by (simp add: mw)
  have "0 \<le> ms" "ms + int (length buf) \<le> UINT32_MAX + 1"
    using msr mer rok rng by (auto simp: region_ok_def)
  moreover have "0 < length data" using data by simp
  then have "0 < int (length buf)" using b by linarith
  then have "buf \<noteq> []" by auto
  ultimately have "region_ok (ms, buf)" by (simp add: region_ok_def)
  then have rk: "regions_ok (merge_write addr data rs)"
    using ss sets rok by (auto simp: regions_ok_def list_all_iff)
  have part: "(ms \<le> fst r \<and> fst r + int (length (snd r)) \<le> ms + int (length buf)) \<or>
       (\<not> touches addr ?ne r \<and> (fst r + int (length (snd r)) < ms \<or> ms + int (length buf) < fst r))"
    if "r \<in> set rs" for r
    using ovb [of r] out [of r] that by (cases "touches addr ?ne r") simp_all
  show ?thesis
    by (rule that [of ms buf]) (fact rk sets b part mem)+
qed

lemma merge_write_ok:
  assumes "regions_ok rs" and "data \<noteq> []"
    and "0 \<le> addr" and "addr + int (length data) \<le> UINT32_MAX + 1"
  shows "regions_ok (merge_write addr data rs)"
  by (rule merge_write_regions [OF assms]) assumption

lemma merge_write_mem:
  assumes ok: "regions_ok rs" and data: "data \<noteq> []"
    and rng: "0 \<le> addr" "addr + int (length data) \<le> UINT32_MAX + 1"
  shows "mem_of (merge_write addr data rs) = mem_overlay (mem_of rs) addr data"
proof
  fix i
  let ?ne = "addr + int (length data)" and ?new = "merge_write addr data rs"
  have srt: "sorted_wrt sep rs" using ok by (simp add: regions_ok_def)
  obtain ms buf where new: "regions_ok ?new"
      "set ?new = set (filter (\<lambda>r. \<not> touches addr ?ne r) rs @ [(ms, buf)])"
    and b: "ms \<le> addr" "?ne \<le> ms + int (length buf)"
    and part: "\<And>r. r \<in> set rs \<Longrightarrow> (ms \<le> fst r \<and> fst r + int (length (snd r)) \<le> ms + int (length buf)) \<or>
       (\<not> touches addr ?ne r \<and> (fst r + int (length (snd r)) < ms \<or> ms + int (length buf) < fst r))"
    and mem: "\<And>i. ms \<le> i \<Longrightarrow> i < ms + int (length buf) \<Longrightarrow> buf_mem ms buf i = mem_overlay (mem_of rs) addr data i"
    by (rule merge_write_regions [OF assms]) (rule that)
  have srt': "sorted_wrt sep ?new" using new by (simp add: regions_ok_def)
  show "mem_of ?new i = mem_overlay (mem_of rs) addr data i"
  proof (cases "covers (ms, buf) i")
    case True
    then have "mem_of ?new i = buf_mem ms buf i"
      using mem_of_sorted [OF srt', of "(ms, buf)" i] new(2)
      by (auto simp: buf_mem_def mem_overlay_def covers_def)
    then show ?thesis using mem True by (simp add: covers_def)
  next
    case False
    then have "mem_overlay (mem_of rs) addr data i = mem_of rs i"
      using b by (auto simp: mem_overlay_def covers_def)
    moreover have "mem_of ?new i = mem_of rs i"
    proof (cases "\<exists>r \<in> set rs. covers r i")
      case True
      then obtain r where r: "r \<in> set rs" "covers r i" by blast
      then have "\<not> touches addr ?ne r" using part [OF r(1)] False by (auto simp: covers_def)
      then have "r \<in> set ?new" using new(2) r by simp
      then show ?thesis using mem_of_sorted [OF srt' _ r(2)] mem_of_sorted [OF srt r] by simp
    next
      case none: False
      then have "mem_of rs i = None" by (simp add: mem_of_None)
      moreover have "mem_of ?new i = None" using none False new(2) by (auto simp: mem_of_None)
      ultimately show ?thesis by simp
    qed
    ultimately show ?thesis by simp
  qed
qed


section \<open>Reading\<close>

lemma bisect_left_aux_props:
  assumes "sorted xs" and "lo \<le> hi" and "hi \<le> length xs"
    and "\<And>i. i < lo \<Longrightarrow> xs ! i < x" and "\<And>i. hi \<le> i \<Longrightarrow> i < length xs \<Longrightarrow> x \<le> xs ! i"
  shows "bisect_left_aux xs x lo hi \<le> length xs \<and> (\<forall>i < bisect_left_aux xs x lo hi. xs ! i < x) \<and>
    (\<forall>i. bisect_left_aux xs x lo hi \<le> i \<and> i < length xs \<longrightarrow> x \<le> xs ! i)"
  using assms
proof (induction xs x lo hi rule: bisect_left_aux.induct)
  case (1 xs x lo hi)
  let ?mid = "(lo + hi) div 2"
  show ?case
  proof (cases "lo < hi")
    case False
    then show ?thesis using "1.prems" by (subst (1 2 3) bisect_left_aux.simps) simp
  next
    case True
    then have mid: "lo \<le> ?mid" "?mid < hi" by auto
    have mono: "xs ! i \<le> xs ! j" if "i \<le> j" "j < length xs" for i j
      using "1.prems"(1) that by (simp add: sorted_iff_nth_mono)
    show ?thesis
    proof (cases "xs ! ?mid < x")
      case lt: True
      have "xs ! i < x" if "i < ?mid + 1" for i
        using mono [of i ?mid] that lt mid "1.prems"(3) by simp
      from "1.IH"(1) [OF True refl lt "1.prems"(1) _ "1.prems"(3) this "1.prems"(5)] mid
      show ?thesis using True lt by (subst (1 2 3) bisect_left_aux.simps) (simp add: Let_def)
    next
      case ge: False
      have "x \<le> xs ! i" if "?mid \<le> i" "i < length xs" for i
        using mono [of ?mid i] that ge by simp
      from "1.IH"(2) [OF True refl ge "1.prems"(1) mid(1) _ "1.prems"(4) this] mid "1.prems"(3)
      show ?thesis using True ge by (subst (1 2 3) bisect_left_aux.simps) (simp add: Let_def)
    qed
  qed
qed

lemma bisect_left_props:
  assumes "sorted xs"
  shows "bisect_left xs x \<le> length xs" and "\<And>i. i < bisect_left xs x \<Longrightarrow> xs ! i < x"
    and "\<And>i. bisect_left xs x \<le> i \<Longrightarrow> i < length xs \<Longrightarrow> x \<le> xs ! i"
  using bisect_left_aux_props [OF assms, of 0 "length xs" x] by (auto simp: bisect_left_def)

lemma sep_starts_sorted: "sorted_wrt sep rs \<Longrightarrow> sorted_wrt (<) (map fst rs)"
  by (induction rs) (auto simp: sep_def)

lemma cache_read_region:
  assumes ok: "regions_ok rs" and n: "0 < n" and rng: "0 \<le> a" "a + n \<le> UINT32_MAX + 1"
  shows "cache_read a n rs =
    (case List.find (\<lambda>r. fst r \<le> a \<and> a + n \<le> fst r + int (length (snd r))) rs of
       None \<Rightarrow> Inl ValueError
     | Some r \<Rightarrow> Inr (py_slice (snd r) (a - fst r) (a + n - fst r)))"
proof -
  let ?P = "\<lambda>r. fst r \<le> a \<and> a + n \<le> fst r + int (length (snd r))"
  let ?st = "map fst rs" and ?b = "bisect_left (map fst rs) a"
  have srt: "sorted_wrt sep rs" using ok by (simp add: regions_ok_def)
  have lt: "sorted_wrt (<) ?st" using sep_starts_sorted [OF srt] .
  then have "sorted ?st" by (simp add: strict_sorted_iff)
  note b = bisect_left_props [OF this]
  define idx where "idx = (if ?b = length ?st \<or> ?st ! ?b \<noteq> a then int ?b - 1 else int ?b)"
  have val: "validate_addr_size a n = Inr ()"
    using n rng by (simp add: validate_addr_size_def)
  have run: "cache_read a n rs = (if idx < 0 then Inl ValueError
      else if a + n > fst (rs ! nat idx) + int (length (snd (rs ! nat idx))) \<or> a < fst (rs ! nat idx)
      then Inl ValueError
      else Inr (py_slice (snd (rs ! nat idx)) (a - fst (rs ! nat idx)) (a + n - fst (rs ! nat idx))))"
    using n by (simp add: cache_read_def val Let_def idx_def)
  have below: "fst (rs ! j) \<le> a \<longleftrightarrow> int j \<le> idx" if j: "j < length rs" for j
  proof (cases "j < ?b")
    case True
    then show ?thesis using b(2) [of j a] j by (auto simp: idx_def)
  next
    case False
    then have "a \<le> ?st ! j" using b(3) [of a j] j by simp
    moreover have "?st ! ?b < ?st ! j" if "?b < j"
      using lt j that by (simp add: sorted_wrt_iff_nth_less del: nth_map)
    moreover have "a \<le> ?st ! ?b" using b(3) [of a ?b] False j by simp
    ultimately show ?thesis using False j by (cases "j = ?b") (auto simp: idx_def)
  qed
  have idx_len: "idx < int (length rs)" using b(1) [of a] by (auto simp: idx_def)
  show ?thesis
  proof (cases "List.find ?P rs")
    case None
    then have "\<not> ?P (rs ! nat idx)" if "0 \<le> idx" using idx_len that by (auto simp: find_None_iff)
    then show ?thesis unfolding run using None by (cases "0 \<le> idx") auto
  next
    case (Some r)
    then have r: "r \<in> set rs" "?P r" by (auto simp: find_Some_iff)
    then obtain j where j: "j < length rs" "r = rs ! j" by (auto simp: in_set_conv_nth)
    have ji: "int j \<le> idx" using below [OF j(1)] r(2) j(2) by simp
    have "\<not> j < nat idx"
    proof
      assume "j < nat idx"
      then have "sep r (rs ! nat idx)" and "fst (rs ! nat idx) \<le> a"
        using srt below [of "nat idx"] idx_len j by (auto simp: sorted_wrt_iff_nth_less)
      then show False using r(2) n by (simp add: sep_def)
    qed
    then have "nat idx = j" using ji by simp
    then show ?thesis unfolding run using Some j r(2) ji by auto
  qed
qed

text \<open>A read returns the bytes the memory holds, or raises when one of them was never written.\<close>

lemma mem_has_region:
  assumes srt: "sorted_wrt sep rs" and n: "0 < n" and has: "mem_has (mem_of rs) a n"
  obtains r where "r \<in> set rs" "fst r \<le> a" "a + n \<le> fst r + int (length (snd r))"
proof -
  have cov: "\<exists>r \<in> set rs. covers r i" if "a \<le> i" "i < a + n" for i
  proof -
    have "nat (i - a) < nat n" using that by simp
    then have "mem_of rs (a + int (nat (i - a))) \<noteq> None" using has unfolding mem_has_def by blast
    moreover have "a + int (nat (i - a)) = i" using that by simp
    ultimately show ?thesis using mem_of_None [of rs i] by simp
  qed
  obtain r where r: "r \<in> set rs" "covers r a" using cov [of a] n by auto
  have "a + n \<le> fst r + int (length (snd r))"
  proof (rule ccontr)
    assume c: "\<not> a + n \<le> fst r + int (length (snd r))"
    let ?e = "fst r + int (length (snd r))"
    obtain s where s: "s \<in> set rs" "covers s ?e" using cov [of ?e] r(2) c by (auto simp: covers_def)
    then show False
      using sorted_sep_pair [OF srt r(1) s(1)] r(2) by (auto simp: covers_def sep_def)
  qed
  then show ?thesis using that [of r] r by (simp add: covers_def)
qed

lemma region_mem_bytes:
  assumes srt: "sorted_wrt sep rs" and r: "r \<in> set rs" "fst r \<le> a" "a + n \<le> fst r + int (length (snd r))"
    and n: "0 < n"
  shows "py_slice (snd r) (a - fst r) (a + n - fst r) = mem_bytes (mem_of rs) a n" (is "?l = ?r")
    and "mem_has (mem_of rs) a n"
proof -
  have m: "mem_of rs (a + int k) = Some (snd r ! (nat (a - fst r) + k))" if "k < nat n" for k
  proof -
    have "nat (a + int k - fst r) = nat (a - fst r) + k" using r by auto
    then show ?thesis using mem_of_sorted [OF srt r(1), of "a + int k"] that r by (auto simp: covers_def)
  qed
  show "mem_has (mem_of rs) a n" by (simp add: mem_has_def m)
  show "?l = ?r"
  proof (rule nth_equalityI)
    show "length ?l = length ?r" using r n by (simp add: py_slice_inside_length)
    fix k assume "k < length ?l"
    then have k: "int k < n" "k < nat n" using r n by (simp_all add: py_slice_inside_length)
    then show "?l ! k = ?r ! k" using r m [of k] by (simp add: py_slice_inside_nth mem_bytes_def)
  qed
qed

lemma cache_read_spec:
  assumes ok: "regions_ok rs" and n: "0 < n" and rng: "0 \<le> a" "a + n \<le> UINT32_MAX + 1"
  shows "cache_read a n rs = (if mem_has (mem_of rs) a n then Inr (mem_bytes (mem_of rs) a n) else Inl ValueError)"
proof -
  let ?P = "\<lambda>r. fst r \<le> a \<and> a + n \<le> fst r + int (length (snd r))"
  have srt: "sorted_wrt sep rs" using ok by (simp add: regions_ok_def)
  show ?thesis
  proof (cases "List.find ?P rs")
    case None
    then have "\<not> mem_has (mem_of rs) a n"
      using mem_has_region [OF srt n, of a] by (fastforce simp: find_None_iff)
    then show ?thesis using cache_read_region [OF assms] None by simp
  next
    case (Some r)
    then have "r \<in> set rs" "?P r" by (auto simp: find_Some_iff)
    then show ?thesis using cache_read_region [OF assms] Some region_mem_bytes [OF srt _ _ _ n, of r a] by simp
  qed
qed

section \<open>Files\<close>

definition region_bytes :: "int \<times> byte list \<Rightarrow> byte list" where
  "region_bytes r = int_to_le 4 (fst r) @ int_to_le 4 (int (length (snd r))) @ snd r"

definition saveable :: "regions \<Rightarrow> bool" where
  "saveable rs \<longleftrightarrow> (\<forall>r \<in> set rs. 0 \<le> fst r \<and> fst r \<le> UINT32_MAX \<and> int (length (snd r)) \<le> UINT32_MAX)"

lemma save_regions_run: "saveable rs \<Longrightarrow> io_forM save_region rs f = (Inr (), f @ concat (map region_bytes rs))"
proof (induction rs arbitrary: f)
  case (Cons r rs)
  obtain a d where r: "r = (a, d)" by (cases r)
  have "pack_u 4 a = Inr (int_to_le 4 a)" "pack_u 4 (int (length d)) = Inr (int_to_le 4 (int (length d)))"
    using Cons.prems by (auto simp: pack_u_def saveable_def UINT32_MAX_def r)
  moreover have "\<not> int (length d) > UINT32_MAX" using Cons.prems by (auto simp: saveable_def r)
  moreover have "saveable rs" using Cons.prems by (simp add: saveable_def)
  ultimately show ?case using Cons.IH by (simp add: save_region_def r region_bytes_def)
qed simp

lemma save_to_file_run: "saveable rs \<Longrightarrow> save_to_file rs f = (Inr (), FILE_HEADER @ concat (map region_bytes rs))"
  by (simp add: save_to_file_def save_regions_run)

lemma load_loop_region:
  assumes "0 \<le> fst r" "fst r \<le> UINT32_MAX" "int (length (snd r)) \<le> UINT32_MAX"
  shows "load_loop (region_bytes r @ f) l = load_loop f (l @ [r])"
proof -
  obtain a d where r: "r = (a, d)" by (cases r)
  let ?n = "int (length d)"
  have "file_read 8 (region_bytes r @ f) = (int_to_le 4 a @ int_to_le 4 ?n, d @ f)"
    by (simp add: file_read_def region_bytes_def r)
  moreover have "le_to_int (int_to_le 4 a) = a" "le_to_int (int_to_le 4 ?n) = ?n"
    using assms by (simp_all add: le_to_int_int_to_le r UINT32_MAX_def)
  moreover have "file_read ?n (d @ f) = (d, f)" by (simp add: file_read_def)
  ultimately show ?thesis by (subst load_loop.simps) (simp add: Let_def r)
qed

lemma load_loop_regions: "saveable rs \<Longrightarrow> load_loop (concat (map region_bytes rs)) l = Inr (l @ rs)"
proof (induction rs arbitrary: l)
  case Nil
  show ?case by (subst load_loop.simps) (simp add: file_read_def)
next
  case (Cons r rs)
  then have "saveable rs" by (simp add: saveable_def)
  then show ?case using Cons load_loop_region [of r "concat (map region_bytes rs)" l]
    by (simp add: saveable_def)
qed

lemma load_from_file_saved:
  assumes "saveable rs"
  shows "load_from_file (FILE_HEADER @ concat (map region_bytes rs)) replace rs0 =
    (Inr (), if replace then rs else foldl (\<lambda>rs (addr, data). merge_write addr data rs) rs0 rs)"
  using load_loop_regions [OF assms, of "[]"] by (simp add: load_from_file_def file_read_def)

lemma regions_ok_saveable:
  "regions_ok rs \<Longrightarrow> list_all (\<lambda>r. int (length (snd r)) \<le> UINT32_MAX) rs \<Longrightarrow> saveable rs"
proof -
  assume h: "regions_ok rs" "list_all (\<lambda>r. int (length (snd r)) \<le> UINT32_MAX) rs"
  have "fst r \<le> UINT32_MAX" if "region_ok r" for r
    using that by (cases "snd r") (auto simp: region_ok_def)
  then show ?thesis using h by (auto simp: regions_ok_def saveable_def region_ok_def list_all_iff)
qed

text \<open>Merging a well-formed list of regions into a cache overlays its memory.\<close>

lemma foldl_merge_write_mem:
  assumes "regions_ok rs0" and "\<And>r. r \<in> set rs \<Longrightarrow> region_ok r" and "sorted_wrt sep rs"
  shows "regions_ok (foldl (\<lambda>rs (addr, data). merge_write addr data rs) rs0 rs) \<and>
    mem_of (foldl (\<lambda>rs (addr, data). merge_write addr data rs) rs0 rs) = mem_of rs0 ++ mem_of rs"
  using assms
proof (induction rs arbitrary: rs0)
  case (Cons r rs)
  obtain a d where r: "r = (a, d)" by (cases r)
  have ad: "d \<noteq> []" "0 \<le> a" "a + int (length d) \<le> UINT32_MAX + 1"
    using Cons.prems(2) [of r] by (simp_all add: r region_ok_def)
  note mw = merge_write_ok [OF Cons.prems(1) ad] merge_write_mem [OF Cons.prems(1) ad]
  have "mem_overlay (mem_of rs0) a d ++ mem_of rs = mem_of rs0 ++ mem_of (r # rs)"
  proof
    fix i
    have "mem_of rs i = None" if "a \<le> i" "i < a + int (length d)"
      using Cons.prems(3) that by (fastforce simp: mem_of_None r sep_def covers_def)
    then show "(mem_overlay (mem_of rs0) a d ++ mem_of rs) i = (mem_of rs0 ++ mem_of (r # rs)) i"
      by (auto simp: r map_add_def mem_overlay_def split: option.splits)
  qed
  moreover have "sorted_wrt sep rs" "\<And>s. s \<in> set rs \<Longrightarrow> region_ok s" using Cons.prems by auto
  ultimately show ?case using Cons.IH [OF mw(1)] mw(2)
    by (simp del: mem_of.simps) (simp add: r del: mem_of.simps)
qed (auto simp: map_add_def fun_eq_iff)

section \<open>The cache as a device\<close>

definition addr_space :: "int \<Rightarrow> int \<Rightarrow> bool" where
  "addr_space a n \<longleftrightarrow> 0 \<le> a \<and> a + n \<le> UINT32_MAX + 1"

lemma cache_write_run:
  "cache_write a d rs =
     (if a < 0 \<or> a > UINT32_MAX \<or> a + int (length d) > UINT32_MAX + 1 then (Inl ValueError, rs)
      else (Inr (), if d = [] then rs else merge_write a d rs))"
  by (simp add: cache_write_def validate_addr_size_def)

interpretation rc: regio_object RegioCache_init mem_of regions_ok addr_space "UINT32_MAX + 1"
proof unfold_locales
  fix w :: regions and a :: int and d :: "byte list"
  assume h: "regions_ok w" "addr_space a (int (length d))" "d \<noteq> []"
  then have rng: "0 \<le> a" "a + int (length d) \<le> UINT32_MAX + 1" by (simp_all add: addr_space_def)
  have "0 < length d" using h by simp
  then have "\<not> a > UINT32_MAX" using rng by linarith
  then have "dev_write RegioCache_init a d w = (Inr (), merge_write a d w)"
    using rng h by (simp add: RegioCache_init_def Regio_init_def cache_dev_write_def cache_write_run)
  then show "\<exists>w'. dev_write RegioCache_init a d w = (Inr (), w') \<and> regions_ok w'
      \<and> mem_of w' = mem_overlay (mem_of w) a d"
    using merge_write_ok [OF h(1,3) rng] merge_write_mem [OF h(1,3) rng] by blast
next
  fix w :: regions and a n :: int
  assume h: "regions_ok w" "addr_space a n" "0 < n" "mem_has (mem_of w) a n"
  then show "\<exists>w'. dev_read RegioCache_init a n w = (Inr (mem_bytes (mem_of w) a n), w')
      \<and> regions_ok w' \<and> mem_of w' = mem_of w"
    using cache_read_spec [OF h(1,3)]
    by (simp add: RegioCache_init_def Regio_init_def cache_dev_read_def addr_space_def)
qed (auto simp: RegioCache_init_def Regio_init_def addr_space_def UINT32_MAX_def REGIO_MTU_DEFAULT_def)

text \<open>A read through the object, over all its pieces, leaves the cache as it is.\<close>

lemma cache_read1_run:
  assumes "regions_ok rs" and "0 < n" and "0 \<le> a" and "a + n \<le> UINT32_MAX + 1"
  shows "regio_read1 RegioCache_init a n rs =
    (if mem_has (mem_of rs) a n then Inr (mem_bytes (mem_of rs) a n) else Inl ValueError, rs)"
  using cache_read_spec [OF assms] assms(2)
  by (simp add: regio_read1_def RegioCache_init_def Regio_init_def cache_dev_read_def io_bind_run)

lemma cache_read_plan_run:
  assumes m: "0 < m" and ok: "regions_ok rs"
  shows "0 \<le> a \<Longrightarrow> a + n \<le> UINT32_MAX + 1 \<Longrightarrow>
    \<exists>cs. io_mapM (\<lambda>(x, c). regio_read1 RegioCache_init x c) (plan m a n) rs =
      (if mem_has (mem_of rs) a n then Inr cs else Inl ValueError, rs) \<and>
      (mem_has (mem_of rs) a n \<longrightarrow> concat cs = mem_bytes (mem_of rs) a n)"
proof (induction "nat n" arbitrary: a n rule: less_induct)
  case less
  show ?case
  proof (cases "0 < n")
    case True
    define k where "k = min (m - a mod m) n"
    note st = plan_step [OF m True, of a, folded k_def]
    have kn: "k \<le> n" by (simp add: k_def)
    have r1: "regio_read1 RegioCache_init a k rs =
        (if mem_has (mem_of rs) a k then Inr (mem_bytes (mem_of rs) a k) else Inl ValueError, rs)"
      using less.prems kn st(2) by (intro cache_read1_run [OF ok]) auto
    have "nat (n - k) < nat n" using st(2) True by simp
    from less.hyps [OF this, of "a + k"] obtain cs where cs:
      "io_mapM (\<lambda>(x, c). regio_read1 RegioCache_init x c) (plan m (a + k) (n - k)) rs =
        (if mem_has (mem_of rs) (a + k) (n - k) then Inr cs else Inl ValueError, rs)"
      "mem_has (mem_of rs) (a + k) (n - k) \<longrightarrow> concat cs = mem_bytes (mem_of rs) (a + k) (n - k)"
      using less.prems st(2) kn by auto
    then show ?thesis
      using r1 st(1,2) kn mem_has_split [of k n "mem_of rs" a] mem_bytes_split [of k n "mem_of rs" a]
      by (intro exI [of _ "mem_bytes (mem_of rs) a k # cs"]) (auto simp: io_bind_run)
  qed simp
qed

lemma cache_regio_read_spec:
  assumes "regions_ok rs" and "0 \<le> a" and "a + n \<le> UINT32_MAX + 1"
  shows "regio_read RegioCache_init a n rs =
    (if mem_has (mem_of rs) a n then Inr (mem_bytes (mem_of rs) a n) else Inl ValueError, rs)"
proof -
  have "0 < mtu RegioCache_init" by (simp add: RegioCache_init_def Regio_init_def REGIO_MTU_DEFAULT_def)
  then show ?thesis
    using cache_read_plan_run [OF _ assms, of "mtu RegioCache_init"]
    by (auto simp: regio_read_plan io_bind_run split: if_splits)
qed

section \<open>Properties\<close>

text \<open>
  C2: a write through the cache object of any length and alignment inside the 32-bit space
  succeeds, keeps the regions sorted, apart and inside the space, and changes exactly the
  written bytes of the memory the regions stand for.
\<close>
theorem cache_regio_write:
  assumes "regions_ok rs" and "0 \<le> a" and "a + int (length d) \<le> UINT32_MAX + 1"
  shows "\<exists>rs'. regio_write RegioCache_init a d rs = (Inr (), rs') \<and> regions_ok rs' \<and>
    mem_of rs' = mem_overlay (mem_of rs) a d"
  using rc.regio_write_law [OF assms(1), of a d] assms by (simp add: addr_space_def)

theorem cache_regio_write_witness:
  "\<exists>rs'. regio_write RegioCache_init 4095 [7, 8] [(4094, [1])] = (Inr (), rs') \<and> regions_ok rs' \<and>
    mem_of rs' = mem_overlay (mem_of [(4094, [1])]) 4095 [7, 8]"
  by (rule cache_regio_write) (simp_all add: regions_ok_def region_ok_def UINT32_MAX_def)

text \<open>
  C9: a read of any length through the cache object returns the bytes of the memory when every
  one of them was written, and raises \<open>ValueError\<close> when one was not: a gap between two regions
  is never read as data. The cache stays as it is.
\<close>
theorem cache_read_exact:
  assumes "regions_ok rs" and "0 \<le> a" and "a + n \<le> UINT32_MAX + 1"
  shows "regio_read RegioCache_init a n rs =
    (if mem_has (mem_of rs) a n then Inr (mem_bytes (mem_of rs) a n) else Inl ValueError, rs)"
  by (rule cache_regio_read_spec [OF assms])

theorem cache_read_exact_witness:
  "regio_read RegioCache_init 1 2 [(0, [5, 6, 7]), (8, [9])] =
    (if mem_has (mem_of [(0, [5, 6, 7]), (8, [9])]) 1 2
     then Inr (mem_bytes (mem_of [(0, [5, 6, 7]), (8, [9])]) 1 2) else Inl ValueError, [(0, [5, 6, 7]), (8, [9])])"
  by (rule cache_read_exact) (simp_all add: regions_ok_def region_ok_def UINT32_MAX_def sep_def)

text \<open>
  C15: whatever the address and the data, a cache write leaves a well-formed cache behind, also
  when it raises; it raises exactly when the access leaves the 32-bit space, and then the cache
  is unchanged.
\<close>
theorem cache_write_invariant:
  assumes "regions_ok rs"
  shows "regions_ok (snd (cache_write a d rs)) \<and>
    (fst (cache_write a d rs) = Inl ValueError \<longleftrightarrow>
       a < 0 \<or> a > UINT32_MAX \<or> a + int (length d) > UINT32_MAX + 1) \<and>
    (\<forall>e. fst (cache_write a d rs) = Inl e \<longrightarrow> snd (cache_write a d rs) = rs)"
  using assms merge_write_ok [OF assms, of d a] by (auto simp: cache_write_run)

theorem cache_write_invariant_witness:
  "regions_ok (snd (cache_write 4 [1] [(3, [9])]))"
  using cache_write_invariant [of "[(3, [9])]" 4 "[1]"]
  by (simp add: regions_ok_def region_ok_def UINT32_MAX_def)

text \<open>
  C13: a saved cache loads back as the same regions, whatever the file and the loading cache
  held; loaded with merging, the saved bytes win over those of the cache and every other byte
  stays.
\<close>
theorem cache_save_load:
  assumes "regions_ok rs" and "list_all (\<lambda>r. int (length (snd r)) \<le> UINT32_MAX) rs"
    and "save_to_file rs f0 = (res, f)"
  shows "res = Inr () \<and> load_from_file f True rs0 = (Inr (), rs) \<and>
    (regions_ok rs0 \<longrightarrow> (\<exists>rs'. load_from_file f False rs0 = (Inr (), rs') \<and> regions_ok rs' \<and>
       mem_of rs' = mem_of rs0 ++ mem_of rs))"
proof -
  note sv = regions_ok_saveable [OF assms(1,2)]
  have "\<And>r. r \<in> set rs \<Longrightarrow> region_ok r" "sorted_wrt sep rs"
    using assms(1) by (auto simp: regions_ok_def list_all_iff)
  then show ?thesis
    using assms(3) save_to_file_run [OF sv] load_from_file_saved [OF sv] foldl_merge_write_mem
    by auto
qed

theorem cache_save_load_witness:
  "\<exists>f rs'. save_to_file [(3, [9])] [1, 2] = (Inr (), f) \<and> load_from_file f True [] = (Inr (), [(3, [9])]) \<and>
     load_from_file f False [] = (Inr (), rs') \<and> mem_of rs' = mem_of [] ++ mem_of [(3, [9])]"
proof -
  obtain res f where f: "save_to_file [(3, [9])] [1, 2] = (res, f)" by (cases "save_to_file [(3, [9])] [1, 2]")
  show ?thesis
    using cache_save_load [OF _ _ f, of "[]"] f
    by (auto simp: regions_ok_def region_ok_def UINT32_MAX_def simp del: mem_of.simps)
qed

text \<open>
  Loading a file that lists its regions out of order puts them into the cache as they stand:
  the bytes at address 8 were loaded, yet reading them raises, while the same file merged into an
  empty cache can be read.
\<close>
theorem cache_load_unsorted_file:
  "let f = FILE_HEADER @ region_bytes (8, [1]) @ region_bytes (0, [2]) in
     load_from_file f True [] = (Inr (), [(8, [1]), (0, [2])]) \<and>
     \<not> regions_ok [(8, [1]), (0, [2])] \<and>
     cache_read 8 1 [(8, [1]), (0, [2])] = Inl ValueError \<and>
     load_from_file f False [] = (Inr (), [(0, [2]), (8, [1])]) \<and>
     cache_read 8 1 [(0, [2]), (8, [1])] = Inr [1]"
proof -
  have s: "saveable [(8, [1]), (0, [2])]" by (simp add: saveable_def UINT32_MAX_def)
  have "merge_write 0 [2] (merge_write 8 [1] []) = [(0, [2]), (8, [1])]"
    by (simp add: merge_write_def Let_def py_slice_assign_def py_clamp_def)
  moreover have "cache_read 8 1 [(8, [1]), (0, [2])] = Inl ValueError"
    by (simp add: cache_read_def validate_addr_size_def UINT32_MAX_def bisect_left_def bisect_left_aux.simps)
  moreover have "cache_read 8 1 [(0, [2]), (8, [1])] = Inr [1]"
    by (simp add: cache_read_def validate_addr_size_def UINT32_MAX_def bisect_left_def bisect_left_aux.simps
        py_slice_def py_clamp_def)
  ultimately show ?thesis
    using load_from_file_saved [OF s, of True "[]"] load_from_file_saved [OF s, of False "[]"]
    by (simp add: Let_def regions_ok_def sep_def)
qed

end
