(* ===== verification/TcpServer.thy ===== *)
theory TcpServer
  imports Tcp RegioCache "HOL-Library.AList"
begin

text \<open>
  \<^verbatim>\<open>pip/regio/src/regio/tcp_server_single.py\<close> and \<^verbatim>\<open>tcp_server_async_multi.py\<close>: the two servers that
  put a \<open>regio\<close> object on the network. A socket is the record \<open>sock\<close>: the bytes handed to
  \<^verbatim>\<open>sendall\<close> that its peer has not read yet, and whether sending on it raises. What a socket
  receives is an argument: a list of chunks, as the network cuts them.

  \<open>request_stream\<close> is the specification: a stream of bytes is served request by request, each
  one once and in order. Both servers are shown to implement it whatever the chunks are, so they
  agree with each other, and a client of the multiplexing server is served as if it were alone.
\<close>

section \<open>Sockets and one request\<close>

record sock =
  sk_fd :: int
  sk_sent :: "byte list"
  sk_broken :: bool

definition sock_sendall :: "byte list \<Rightarrow> ('w \<times> sock, unit) io" where
  "sock_sendall data = (\<lambda>(w, k).
     if sk_broken k then (Inl IOError, (w, k)) else (Inr (), (w, k\<lparr>sk_sent := sk_sent k @ data\<rparr>)))"

definition serve_request :: "'w regio \<Rightarrow> rqst_head \<Rightarrow> byte list \<Rightarrow> ('w \<times> sock, unit) io" where
  "serve_request r h payload =
     (if rq_flag_we h \<noteq> 0 then io_fst (regio_write r (rq_addr h) payload)
      else
        io_bind (io_fst (regio_read r (rq_addr h) (rq_size h))) (\<lambda>rd_data.
          let flag_error = (if int (length rd_data) \<noteq> rq_size h then 1 else 0);
              rd_data = (if int (length rd_data) \<noteq> rq_size h then [] else rd_data)
          in io_bind (io_lift (pack_rply_head
                 \<lparr>rp_flag_error = flag_error, rp_size = rq_size h, rp_addr = rq_addr h\<rparr>)) (\<lambda>rply_head_bytes.
             io_bind (sock_sendall rply_head_bytes) (\<lambda>_. sock_sendall rd_data))))"

section \<open>The single-client server\<close>

text \<open>\<^verbatim>\<open>recv(n)\<close> gives at most \<open>n\<close> bytes of the next chunk, and no byte when the peer has closed.\<close>

fun sock_recv :: "nat \<Rightarrow> byte list list \<Rightarrow> byte list \<times> byte list list" where
  "sock_recv n [] = ([], [])"
| "sock_recv n (c # cs) = (take n c, if length c \<le> n then cs else drop n c # cs)"

function recv_exact :: "byte list list \<Rightarrow> nat \<Rightarrow> byte list \<Rightarrow> byte list res \<times> byte list list" where
  "recv_exact conn n buf =
     (if length buf < n then
        (case sock_recv (n - length buf) conn of (chunk, conn') \<Rightarrow>
           if chunk = [] then (Inl EOFError, conn') else recv_exact conn' n (buf @ chunk))
      else (Inr buf, conn))"
  by pat_completeness auto
termination
  by (relation "measure (\<lambda>(conn, n, buf). n - length buf)") (auto intro!: diff_less_mono2)

declare recv_exact.simps [simp del]

lemma sock_recv_bytes: "sock_recv n conn = (d, conn') \<Longrightarrow> concat conn = d @ concat conn'"
  by (cases conn) (auto split: if_splits)

lemma recv_exact_bytes:
  "recv_exact conn n buf = (Inr d, conn') \<Longrightarrow> length buf \<le> n \<Longrightarrow>
     length d = n \<and> buf @ concat conn = d @ concat conn'"
proof (induction conn n buf rule: recv_exact.induct)
  case (1 conn n buf)
  obtain chunk c1 where rc: "sock_recv (n - length buf) conn = (chunk, c1)"
    by (cases "sock_recv (n - length buf) conn")
  have "length chunk \<le> n - length buf" using rc by (cases conn) auto
  then show ?case
    using "1.prems" "1.IH" [of chunk c1] rc sock_recv_bytes [OF rc]
    by (auto simp: recv_exact.simps [of conn n buf] split: if_splits)
qed

lemma recv_exact_length:
  assumes "recv_exact conn n [] = (Inr d, conn')"
  shows "length (concat conn) = n + length (concat conn')"
  using recv_exact_bytes [OF assms] arg_cong [where f = length, of "concat conn" "d @ concat conn'"] by simp

text \<open>
  \<^verbatim>\<open>_handle_client\<close>: the loop ends when the peer has closed, when a head is malformed, or with the
  exception of the device or of the socket.
\<close>

function handle_client :: "'w regio \<Rightarrow> byte list list \<Rightarrow> ('w \<times> sock, unit) io" where
  "handle_client r conn ws =
     (case recv_exact conn RQST_HEAD_SIZE [] of
        (Inl e, conn1) \<Rightarrow> (if e = EOFError then (Inr (), ws) else (Inl e, ws))
      | (Inr rqst_head_bytes, conn1) \<Rightarrow>
          (case unpack_rqst_head rqst_head_bytes of
             Inl e \<Rightarrow> (if e = StructError \<or> e = ValueError then (Inr (), ws) else (Inl e, ws))
           | Inr h \<Rightarrow>
               if rq_flag_we h \<noteq> 0 then
                 (case recv_exact conn1 (nat (rqst_payload_size h)) [] of
                    (Inl e, conn2) \<Rightarrow> (if e = EOFError then (Inr (), ws) else (Inl e, ws))
                  | (Inr wr_data, conn2) \<Rightarrow>
                      (case serve_request r h wr_data ws of
                         (Inl e, ws') \<Rightarrow> (Inl e, ws')
                       | (Inr _, ws') \<Rightarrow> handle_client r conn2 ws'))
               else
                 (case serve_request r h [] ws of
                    (Inl e, ws') \<Rightarrow> (Inl e, ws')
                  | (Inr _, ws') \<Rightarrow> handle_client r conn1 ws')))"
  by pat_completeness auto
termination
  by (relation "measure (\<lambda>(r, conn, ws). length (concat conn))")
     (auto simp: RQST_HEAD_SIZE_def
       dest!: recv_exact_length [OF sym])

declare handle_client.simps [simp del]

section \<open>The multiplexing server\<close>

record client =
  c_sock :: sock
  c_peer :: string
  c_buf :: "byte list"

definition Client_init :: "sock \<Rightarrow> string \<Rightarrow> client" where
  "Client_init k peer = \<lparr>c_sock = k, c_peer = peer, c_buf = []\<rparr>"

text \<open>
  \<^verbatim>\<open>_process_requests\<close> on one client: \<open>Inr True\<close> when it returned with the client still connected,
  \<open>Inr False\<close> when a malformed head made it drop the client.
\<close>

function process_requests :: "'w regio \<Rightarrow> ('w \<times> client, bool) io" where
  "process_requests r (w, c) =
     (if RQST_HEAD_SIZE \<le> length (c_buf c) then
        (case unpack_rqst_head (take RQST_HEAD_SIZE (c_buf c)) of
           Inl e \<Rightarrow> (if e = StructError \<or> e = ValueError then (Inr False, (w, c)) else (Inl e, (w, c)))
         | Inr h \<Rightarrow>
             let total = RQST_HEAD_SIZE + nat (rqst_payload_size h) in
             if length (c_buf c) < total then (Inr True, (w, c))
             else
               let payload = drop RQST_HEAD_SIZE (take total (c_buf c));
                   rest = drop total (c_buf c)
               in (case serve_request r h payload (w, c_sock c) of
                     (Inl e, (w', k)) \<Rightarrow> (Inl e, (w', c\<lparr>c_sock := k, c_buf := rest\<rparr>))
                   | (Inr _, (w', k)) \<Rightarrow> process_requests r (w', c\<lparr>c_sock := k, c_buf := rest\<rparr>)))
      else (Inr True, (w, c)))"
  by pat_completeness auto
termination
  by (relation "measure (\<lambda>(r, w, c). length (c_buf c))") (auto simp: RQST_HEAD_SIZE_def)

declare process_requests.simps [simp del]

text \<open>
  The state of the server: \<open>sv_clients\<close> is the dictionary of \<^verbatim>\<open>start\<close>, in its insertion order;
  \<open>sv_dev\<close> is the world of the device; \<open>sv_closed\<close> records the connections the server has closed.
\<close>

record 'w server =
  sv_stopped :: bool
  sv_clients :: "(int \<times> client) list"
  sv_dev :: 'w
  sv_closed :: "client list"

datatype recv_result = Recv_again | Recv_oserror | Recv_bytes "byte list"

datatype event =
    Ev_accept "(int \<times> string) option"
  | Ev_data int bool recv_result

definition server_stop :: "'w server \<Rightarrow> 'w server" where
  "server_stop sv = sv\<lparr>sv_stopped := True\<rparr>"

definition drop_client :: "client \<Rightarrow> 'w server \<Rightarrow> 'w server" where
  "drop_client c sv =
     sv\<lparr>sv_clients := AList.delete (sk_fd (c_sock c)) (sv_clients sv), sv_closed := sv_closed sv @ [c]\<rparr>"

definition server_accept :: "(int \<times> string) option \<Rightarrow> 'w server \<Rightarrow> 'w server" where
  "server_accept conn sv =
     (case conn of None \<Rightarrow> sv
      | Some (fd, peer) \<Rightarrow>
          sv\<lparr>sv_clients := AList.update fd
               (Client_init \<lparr>sk_fd = fd, sk_sent = [], sk_broken = False\<rparr> peer) (sv_clients sv)\<rparr>)"

definition on_data :: "int \<Rightarrow> bool \<Rightarrow> recv_result \<Rightarrow> 'w server \<Rightarrow> 'w server" where
  "on_data fd mask_read result sv =
     (case map_of (sv_clients sv) fd of
        None \<Rightarrow> sv
      | Some c \<Rightarrow>
          if \<not> mask_read then sv
          else (case result of
                  Recv_again \<Rightarrow> sv
                | Recv_oserror \<Rightarrow> drop_client c sv
                | Recv_bytes data \<Rightarrow>
                    if data = [] then drop_client c sv
                    else sv\<lparr>sv_clients := AList.update fd (c\<lparr>c_buf := c_buf c @ data\<rparr>) (sv_clients sv)\<rparr>))"

fun server_event :: "event \<Rightarrow> 'w server \<Rightarrow> 'w server" where
  "server_event (Ev_accept conn) sv = server_accept conn sv"
| "server_event (Ev_data fd m result) sv = on_data fd m result sv"

definition process_client :: "'w regio \<Rightarrow> int \<times> client \<Rightarrow> 'w server \<Rightarrow> 'w server" where
  "process_client r = (\<lambda>(fd, c) sv.
     case process_requests r (sv_dev sv, c) of
       (Inr True, (w, c')) \<Rightarrow> sv\<lparr>sv_dev := w, sv_clients := AList.update fd c' (sv_clients sv)\<rparr>
     | (Inr False, (w, c')) \<Rightarrow> drop_client c' (sv\<lparr>sv_dev := w\<rparr>)
     | (Inl e, (w, c')) \<Rightarrow> drop_client c' (sv\<lparr>sv_dev := w\<rparr>))"

definition server_iter :: "'w regio \<Rightarrow> event list \<Rightarrow> 'w server \<Rightarrow> 'w server" where
  "server_iter r events sv =
     (let sv1 = fold server_event events sv
      in fold (process_client r) (sv_clients sv1) sv1)"

text \<open>\<^verbatim>\<open>start\<close>: iterations with their events, and the calls of \<^verbatim>\<open>stop\<close> between them.\<close>

datatype run_step = Run_iter "event list" | Run_stop

fun server_run :: "'w regio \<Rightarrow> run_step list \<Rightarrow> 'w server \<Rightarrow> 'w server" where
  "server_run r [] sv = sv"
| "server_run r (Run_stop # rest) sv = server_run r rest (server_stop sv)"
| "server_run r (Run_iter evs # rest) sv =
     (if sv_stopped sv then fold drop_client (map snd (sv_clients sv)) sv
      else server_run r rest (server_iter r evs sv))"

section \<open>The requests of a stream\<close>

function parse_requests :: "byte list \<Rightarrow> (rqst_head \<times> byte list) list \<times> byte list \<times> bool" where
  "parse_requests s =
     (if RQST_HEAD_SIZE \<le> length s then
        (case unpack_rqst_head (take RQST_HEAD_SIZE s) of
           Inl e \<Rightarrow> ([], s, False)
         | Inr h \<Rightarrow>
             let total = RQST_HEAD_SIZE + nat (rqst_payload_size h) in
             if length s < total then ([], s, True)
             else case parse_requests (drop total s) of
                    (qs, rest, ok) \<Rightarrow> ((h, drop RQST_HEAD_SIZE (take total s)) # qs, rest, ok))
      else ([], s, True))"
  by pat_completeness auto
termination
  by (relation "measure length") (auto simp: RQST_HEAD_SIZE_def)

declare parse_requests.simps [simp del]

definition serve_all :: "'w regio \<Rightarrow> (rqst_head \<times> byte list) list \<Rightarrow> ('w \<times> sock, unit) io" where
  "serve_all r qs = io_forM (\<lambda>(h, payload). serve_request r h payload) qs"

lemma serve_all_simps [simp]:
  "serve_all r [] = Pair (Inr ())"
  "serve_all r ((h, p) # qs) = io_bind (serve_request r h p) (\<lambda>_. serve_all r qs)"
  by (simp_all add: serve_all_def)

lemma serve_all_append: "serve_all r (qs @ qs') = io_bind (serve_all r qs) (\<lambda>_. serve_all r qs')"
  by (induction qs) (auto simp: io_bind_assoc)

lemma unpack_rqst_Inl: "unpack_rqst_head bs = Inl e \<Longrightarrow> e = StructError \<or> e = ValueError"
  by (auto simp: unpack_rqst_head_def rbind_Inl_iff unpack_BBHI_def split: if_splits)

text \<open>The multiplexing server serves the requests of its buffer, once each and in order.\<close>

lemma process_requests_serves:
  assumes "parse_requests (c_buf c) = (qs, rest, ok)" and "serve_all r qs (w, c_sock c) = (res, (w', k))"
  shows "\<exists>b. process_requests r (w, c) =
    (case res of Inl e \<Rightarrow> (Inl e, (w', c\<lparr>c_sock := k, c_buf := b\<rparr>))
               | Inr _ \<Rightarrow> (Inr ok, (w', c\<lparr>c_sock := k, c_buf := rest\<rparr>)))"
  using assms
proof (induction r "(w, c)" arbitrary: w c qs rule: process_requests.induct)
  case (1 r w c)
  let ?head = "take RQST_HEAD_SIZE (c_buf c)"
  note run = process_requests.simps [of r w c] and par = parse_requests.simps [of "c_buf c"]
  show ?case
  proof (cases "RQST_HEAD_SIZE \<le> length (c_buf c)")
    case False
    then have "process_requests r (w, c) = (Inr True, (w, c))" by (simp add: run)
    then show ?thesis using "1.prems" False by (auto simp: par)
  next
    case len: True
    show ?thesis
    proof (cases "unpack_rqst_head ?head")
      case (Inl e)
      then have "process_requests r (w, c) = (Inr False, (w, c))"
        using unpack_rqst_Inl [OF Inl] len by (auto simp: run)
      then show ?thesis using Inl len "1.prems" by (auto simp: par)
    next
      case h: (Inr h)
      let ?total = "RQST_HEAD_SIZE + nat (rqst_payload_size h)"
      let ?p = "drop RQST_HEAD_SIZE (take ?total (c_buf c))"
      show ?thesis
      proof (cases "length (c_buf c) < ?total")
        case True
        then have "process_requests r (w, c) = (Inr True, (w, c))" using len h by (simp add: run Let_def)
        then show ?thesis using len h True "1.prems" by (auto simp: par Let_def)
      next
        case tot: False
        obtain r1 w1 k1 where sr: "serve_request r h ?p (w, c_sock c) = (r1, (w1, k1))"
          by (metis prod.collapse)
        obtain qs1 where pr: "parse_requests (drop ?total (c_buf c)) = (qs1, rest, ok)" and qs: "qs = (h, ?p) # qs1"
          using "1.prems"(1) len h tot by (auto simp: par Let_def split: prod.splits)
        show ?thesis
        proof (cases r1)
          case (Inl e)
          then show ?thesis using len h tot sr "1.prems"(2) qs
            by (auto simp: run Let_def intro: exI [of _ "drop ?total (c_buf c)"])
        next
          case (Inr u)
          let ?c = "c\<lparr>c_sock := k1, c_buf := drop ?total (c_buf c)\<rparr>"
          have step: "process_requests r (w, c) = process_requests r (w1, ?c)"
            using len h tot sr Inr by (simp add: run Let_def)
          have "parse_requests (c_buf ?c) = (qs1, rest, ok)" "serve_all r qs1 (w1, c_sock ?c) = (res, w', k)"
            using pr "1.prems"(2) qs sr Inr by simp_all
          from "1.hyps" [OF len h refl tot refl refl sr [symmetric] Inr refl this]
          show ?thesis unfolding step by (cases res) auto
        qed
      qed
    qed
  qed
qed


section \<open>Streams and chunks\<close>

lemma parse_requests_append:
  "parse_requests s = (qs, rest, True) \<Longrightarrow>
     parse_requests (s @ t) = (case parse_requests (rest @ t) of (qs', rest', ok) \<Rightarrow> (qs @ qs', rest', ok))"
proof (induction s arbitrary: qs rule: parse_requests.induct)
  case (1 s)
  note par = parse_requests.simps [of s]
  show ?case
  proof (cases "RQST_HEAD_SIZE \<le> length s")
    case False
    then show ?thesis using "1.prems" by (auto simp: par split: prod.splits)
  next
    case len: True
    then obtain h where h: "unpack_rqst_head (take RQST_HEAD_SIZE s) = Inr h"
      using "1.prems" by (cases "unpack_rqst_head (take RQST_HEAD_SIZE s)") (auto simp: par)
    let ?total = "RQST_HEAD_SIZE + nat (rqst_payload_size h)"
    show ?thesis
    proof (cases "length s < ?total")
      case True
      then show ?thesis using "1.prems" len h by (auto simp: par Let_def split: prod.splits)
    next
      case tot: False
      obtain qs1 where pr: "parse_requests (drop ?total s) = (qs1, rest, True)"
        and qs: "qs = (h, drop RQST_HEAD_SIZE (take ?total s)) # qs1"
        using "1.prems" len h tot by (auto simp: par Let_def split: prod.splits)
      have "parse_requests (s @ t) = (case parse_requests (drop ?total s @ t) of (qs', rest', ok) \<Rightarrow>
          ((h, drop RQST_HEAD_SIZE (take ?total s)) # qs', rest', ok))"
        using len h tot by (simp add: parse_requests.simps [of "s @ t"] Let_def)
      then show ?thesis
        using "1.IH" [OF len h refl tot pr] qs by (auto split: prod.splits)
    qed
  qed
qed

lemma parse_requests_malformed:
  "parse_requests s = (qs, rest, False) \<Longrightarrow> parse_requests (s @ t) = (qs, rest @ t, False)"
proof (induction s arbitrary: qs rule: parse_requests.induct)
  case (1 s)
  note par = parse_requests.simps [of s]
  have len: "RQST_HEAD_SIZE \<le> length s" using "1.prems" by (auto simp: par split: if_splits)
  show ?case
  proof (cases "unpack_rqst_head (take RQST_HEAD_SIZE s)")
    case (Inl e)
    then have "parse_requests (s @ t) = ([], s @ t, False)"
      using len by (simp add: parse_requests.simps [of "s @ t"])
    then show ?thesis using "1.prems" len Inl by (simp add: par)
  next
    case h: (Inr h)
    let ?total = "RQST_HEAD_SIZE + nat (rqst_payload_size h)"
    have tot: "\<not> length s < ?total" using "1.prems" len h by (auto simp: par Let_def split: if_splits)
    obtain qs1 where pr: "parse_requests (drop ?total s) = (qs1, rest, False)"
      and qs: "qs = (h, drop RQST_HEAD_SIZE (take ?total s)) # qs1"
      using "1.prems" len h tot by (auto simp: par Let_def split: prod.splits)
    then show ?thesis using "1.IH" [OF len h refl tot pr] len h tot
      by (simp add: parse_requests.simps [of "s @ t"] Let_def)
  qed
qed

lemma parse_requests_rest: "parse_requests s = (qs, rest, True) \<Longrightarrow> parse_requests rest = ([], rest, True)"
proof (induction s arbitrary: qs rule: parse_requests.induct)
  case (1 s)
  show ?case
  proof (cases "parse_requests s = ([], s, True)")
    case False
    then obtain h where h: "RQST_HEAD_SIZE \<le> length s" "unpack_rqst_head (take RQST_HEAD_SIZE s) = Inr h"
        "\<not> length s < RQST_HEAD_SIZE + nat (rqst_payload_size h)"
      using "1.prems" by (auto simp: parse_requests.simps [of s] Let_def split: if_splits sum.splits)
    then obtain qs1 where
      "parse_requests (drop (RQST_HEAD_SIZE + nat (rqst_payload_size h)) s) = (qs1, rest, True)"
      using "1.prems" by (auto simp: parse_requests.simps [of s] Let_def split: prod.splits)
    then show ?thesis using "1.IH" h by blast
  qed (use "1.prems" in simp)
qed

text \<open>One client fed chunk by chunk, its requests processed after each chunk.\<close>

fun feed :: "'w regio \<Rightarrow> byte list list \<Rightarrow> ('w \<times> client, bool) io" where
  "feed r [] wc = (Inr True, wc)"
| "feed r (d # ds) (w, c) =
     (case process_requests r (w, c\<lparr>c_buf := c_buf c @ d\<rparr>) of
        (Inr True, wc) \<Rightarrow> feed r ds wc
      | end_result \<Rightarrow> end_result)"

lemma feed_serves:
  assumes "parse_requests (c_buf c) = ([], c_buf c, True)"
    and "parse_requests (c_buf c @ concat ds) = (qs, rest, ok)"
    and "serve_all r qs (w, c_sock c) = (res, (w', k))"
  shows "\<exists>c'. feed r ds (w, c) = ((case res of Inl e \<Rightarrow> Inl e | Inr _ \<Rightarrow> Inr ok), (w', c')) \<and> c_sock c' = k \<and>
    (res = Inr () \<and> ok \<longrightarrow> c_buf c' = rest)"
  using assms
proof (induction ds arbitrary: w c qs)
  case (Cons d ds)
  let ?c = "c\<lparr>c_buf := c_buf c @ d\<rparr>"
  obtain qs1 rest1 ok1 where p1: "parse_requests (c_buf ?c) = (qs1, rest1, ok1)" by (metis prod.collapse)
  obtain res1 w1 k1 where s1: "serve_all r qs1 (w, c_sock ?c) = (res1, (w1, k1))" by (metis prod.collapse)
  obtain b where run: "process_requests r (w, ?c) =
    (case res1 of Inl e \<Rightarrow> (Inl e, (w1, ?c\<lparr>c_sock := k1, c_buf := b\<rparr>))
                | Inr _ \<Rightarrow> (Inr ok1, (w1, ?c\<lparr>c_sock := k1, c_buf := rest1\<rparr>)))"
    using process_requests_serves [OF p1 s1] by blast
  show ?case
  proof (cases ok1)
    case False
    then have "qs = qs1 \<and> \<not> ok"
      using parse_requests_malformed [of "c_buf ?c" qs1 rest1 "concat ds"] p1 Cons.prems(2) by simp
    then show ?thesis using run s1 Cons.prems(3) False by (cases res1) auto
  next
    case True
    obtain qs2 where p2: "parse_requests (rest1 @ concat ds) = (qs2, rest, ok)" and qs: "qs = qs1 @ qs2"
      using parse_requests_append [of "c_buf ?c" qs1 rest1 "concat ds"] p1 Cons.prems(2) True
      by (auto split: prod.splits)
    show ?thesis
    proof (cases res1)
      case (Inl e)
      then show ?thesis using run s1 Cons.prems(3) qs by (auto simp: serve_all_append)
    next
      case (Inr u)
      let ?c1 = "?c\<lparr>c_sock := k1, c_buf := rest1\<rparr>"
      have "parse_requests (c_buf ?c1) = ([], c_buf ?c1, True)"
        using parse_requests_rest p1 True by simp
      moreover have "serve_all r qs2 (w1, c_sock ?c1) = (res, w', k)"
        using Cons.prems(3) s1 Inr qs by (simp add: serve_all_append)
      ultimately have "\<exists>c'. feed r ds (w1, ?c1) = ((case res of Inl e \<Rightarrow> Inl e | Inr _ \<Rightarrow> Inr ok), (w', c')) \<and>
          c_sock c' = k \<and> (res = Inr () \<and> ok \<longrightarrow> c_buf c' = rest)"
        using p2 by (intro Cons.IH) simp_all
      then show ?thesis using run Inr True by simp
    qed
  qed
next
  case Nil
  then show ?case by auto
qed


text \<open>The single-client server reads the same requests off its chunks.\<close>

lemma sock_recv_props:
  assumes "sock_recv n conn = (d, conn')" and "[] \<notin> set conn" and "0 < n"
  shows "[] \<notin> set conn' \<and> length d \<le> n \<and> (d = [] \<longleftrightarrow> concat conn = [])"
  using assms by (cases conn) (auto split: if_splits)

lemma recv_exact_run:
  assumes "[] \<notin> set conn" and "length buf \<le> n"
  shows "\<exists>conn'. [] \<notin> set conn' \<and>
    (if n - length buf \<le> length (concat conn)
     then recv_exact conn n buf = (Inr (buf @ take (n - length buf) (concat conn)), conn') \<and>
          concat conn' = drop (n - length buf) (concat conn)
     else recv_exact conn n buf = (Inl EOFError, conn'))"
  using assms
proof (induction conn n buf rule: recv_exact.induct)
  case (1 conn n buf)
  note run = recv_exact.simps [of conn n buf]
  show ?case
  proof (cases "length buf < n")
    case False
    then show ?thesis using "1.prems" by (auto simp: run intro: exI [of _ conn])
  next
    case lt: True
    obtain d c1 where rc: "sock_recv (n - length buf) conn = (d, c1)"
      by (cases "sock_recv (n - length buf) conn")
    note p = sock_recv_props [OF rc "1.prems"(1)] and b = sock_recv_bytes [OF rc]
    show ?thesis
    proof (cases "d = []")
      case True
      then have "recv_exact conn n buf = (Inl EOFError, c1)"
        using lt rc by (subst run) simp
      moreover have "concat conn = []" "[] \<notin> set c1"
        using p True lt by (simp_all del: concat_eq_Nil_conv)
      then have "\<not> n - length buf \<le> length (concat conn)" "[] \<notin> set c1"
        using lt by (simp_all only: list.size) simp_all
      ultimately show ?thesis by (intro exI [of _ c1]) (simp only: if_False simp_thms)
    next
      case False
      have "length (buf @ d) \<le> n" using p lt by auto
      from "1.IH" [OF lt rc [symmetric] False _ this] p lt
      obtain c2 where c2: "[] \<notin> set c2" "if n - length (buf @ d) \<le> length (concat c1)
          then recv_exact c1 n (buf @ d) = (Inr ((buf @ d) @ take (n - length (buf @ d)) (concat c1)), c2) \<and>
            concat c2 = drop (n - length (buf @ d)) (concat c1)
          else recv_exact c1 n (buf @ d) = (Inl EOFError, c2)" by auto
      have "recv_exact conn n buf = recv_exact c1 n (buf @ d)" using lt rc False by (subst run) simp
      moreover have "length d \<le> n - length buf" using p lt by simp
      ultimately show ?thesis using c2 b lt by (intro exI [of _ c2]) (auto split: if_splits)
    qed
  qed
qed

lemma handle_client_serves:
  assumes "[] \<notin> set conn"
  shows "handle_client r conn ws = serve_all r (fst (parse_requests (concat conn))) ws"
  using assms
proof (induction r conn ws rule: handle_client.induct)
  case (1 r conn ws)
  note run = handle_client.simps [of r conn ws] and par = parse_requests.simps [of "concat conn"]
  let ?s = "concat conn"
  obtain c1 where c1: "[] \<notin> set c1" and rx: "if RQST_HEAD_SIZE \<le> length ?s
      then recv_exact conn RQST_HEAD_SIZE [] = (Inr (take RQST_HEAD_SIZE ?s), c1) \<and> concat c1 = drop RQST_HEAD_SIZE ?s
      else recv_exact conn RQST_HEAD_SIZE [] = (Inl EOFError, c1)"
    using recv_exact_run [OF "1.prems", of "[]" RQST_HEAD_SIZE] by auto
  show ?case
  proof (cases "RQST_HEAD_SIZE \<le> length ?s")
    case False
    then show ?thesis using rx by (simp add: run par)
  next
    case len: True
    then have r1: "recv_exact conn RQST_HEAD_SIZE [] = (Inr (take RQST_HEAD_SIZE ?s), c1)"
      and cc1: "concat c1 = drop RQST_HEAD_SIZE ?s" using rx by auto
    show ?thesis
    proof (cases "unpack_rqst_head (take RQST_HEAD_SIZE ?s)")
      case (Inl e)
      then show ?thesis using r1 len unpack_rqst_Inl [OF Inl] by (auto simp: run par)
    next
      case h: (Inr h)
      let ?n = "nat (rqst_payload_size h)"
      show ?thesis
      proof (cases "rq_flag_we h = 0")
        case True
        then have n0: "?n = 0" by (simp add: rqst_payload_size_def)
        obtain res ws' where sr: "serve_request r h [] ws = (res, ws')" by (metis prod.collapse)
        have ps: "fst (parse_requests ?s) = (h, []) # fst (parse_requests (drop RQST_HEAD_SIZE ?s))"
          using len h n0 by (auto simp: par Let_def split: prod.splits)
        show ?thesis
        proof (cases res)
          case (Inl e)
          then show ?thesis using r1 h True sr ps by (simp add: run)
        next
          case (Inr u)
          have "handle_client r conn ws = handle_client r c1 ws'" using r1 h True sr Inr by (simp add: run)
          also have "\<dots> = serve_all r (fst (parse_requests (concat c1))) ws'"
            using "1.IH"(2) [OF r1 [symmetric] refl h _ sr [symmetric] Inr] True c1 by simp
          finally show ?thesis using ps sr Inr cc1 by simp
        qed
      next
        case False
        obtain c2 where c2: "[] \<notin> set c2" and rx2: "if ?n \<le> length (concat c1)
            then recv_exact c1 ?n [] = (Inr (take ?n (concat c1)), c2) \<and> concat c2 = drop ?n (concat c1)
            else recv_exact c1 ?n [] = (Inl EOFError, c2)"
          using recv_exact_run [OF c1, of "[]" ?n] by auto
        show ?thesis
        proof (cases "?n \<le> length (concat c1)")
          case short: False
          then have "length ?s < RQST_HEAD_SIZE + ?n" using cc1 len by simp
          then show ?thesis using r1 h False rx2 short len by (simp add: run par Let_def)
        next
          case True
          then have tot: "\<not> length ?s < RQST_HEAD_SIZE + ?n" using cc1 len by simp
          let ?p = "take ?n (concat c1)"
          have r2: "recv_exact c1 ?n [] = (Inr ?p, c2)" and cc2: "concat c2 = drop (RQST_HEAD_SIZE + ?n) ?s"
            using rx2 True cc1 by (auto simp: add.commute)
          obtain res ws' where sr: "serve_request r h ?p ws = (res, ws')" by (metis prod.collapse)
          have "drop RQST_HEAD_SIZE (take (RQST_HEAD_SIZE + ?n) ?s) = ?p" by (simp add: cc1 drop_take)
          then have ps: "fst (parse_requests ?s) = (h, ?p) # fst (parse_requests (concat c2))"
            using len h tot cc2 by (auto simp: par Let_def split: prod.splits)
          show ?thesis
          proof (cases res)
            case (Inl e)
            then show ?thesis using r1 h False sr ps r2 by (simp add: run)
          next
            case (Inr u)
            have "handle_client r conn ws = handle_client r c2 ws'" using r1 h False sr Inr r2 by (simp add: run)
            also have "\<dots> = serve_all r (fst (parse_requests (concat c2))) ws'"
              using "1.IH"(1) [OF r1 [symmetric] refl h False r2 [symmetric] refl sr [symmetric] Inr] c2 by simp
            finally show ?thesis using ps sr Inr by simp
          qed
        qed
      qed
    qed
  qed
qed


section \<open>Encoded requests\<close>

lemma parse_requests_encoded:
  assumes hb: "pack_rqst_head h = Inr hb" and p: "int (length p) = rqst_payload_size h"
  shows "parse_requests (hb @ p @ t) = (case parse_requests t of (qs, rest, ok) \<Rightarrow> ((h, p) # qs, rest, ok))"
proof -
  note u = unpack_pack_rqst [OF hb]
  have "nat (rqst_payload_size h) = length p" using p by simp
  then show ?thesis
    using u by (subst parse_requests.simps) (simp add: RQST_HEAD_SIZE_def Let_def)
qed

definition request_bytes :: "rqst_head \<times> byte list \<Rightarrow> byte list" where
  "request_bytes = (\<lambda>(h, p). projr (pack_rqst_head h) @ p)"

definition request_ok :: "rqst_head \<times> byte list \<Rightarrow> bool" where
  "request_ok = (\<lambda>(h, p). (rq_flag_we h = 0 \<or> rq_flag_we h = 1) \<and> 0 \<le> rq_size h \<and> rq_size h \<le> SIZE_MAX \<and>
     0 \<le> rq_addr h \<and> rq_addr h \<le> ADDR_MAX \<and> int (length p) = rqst_payload_size h)"

lemma pack_rqst_head_ok:
  "request_ok (h, p) \<Longrightarrow> pack_rqst_head h = Inr (projr (pack_rqst_head h))"
  using pack_BBHI_Inr_iff [of RQST_SYNC "rq_flag_we h" "rq_size h" "rq_addr h"]
  by (auto simp: request_ok_def pack_rqst_head_def RQST_SYNC_def)

lemma parse_request_bytes:
  "list_all request_ok qs \<Longrightarrow>
     parse_requests (concat (map request_bytes qs) @ t) =
       (case parse_requests t of (qs', rest, ok) \<Rightarrow> (qs @ qs', rest, ok))"
proof (induction qs)
  case (Cons q qs)
  obtain h p where q: "q = (h, p)" by (cases q)
  have "int (length p) = rqst_payload_size h" using Cons.prems by (simp add: q request_ok_def)
  then show ?case
    using parse_requests_encoded [OF pack_rqst_head_ok, of h p p "concat (map request_bytes qs) @ t"] Cons
    by (auto simp: q request_bytes_def split: prod.splits)
qed (simp split: prod.splits)

lemma parse_requests_Nil [simp]: "parse_requests [] = ([], [], True)"
  by (subst parse_requests.simps) (simp add: RQST_HEAD_SIZE_def)

section \<open>An iteration of the server\<close>

definition server_ok :: "'w server \<Rightarrow> bool" where
  "server_ok sv \<longleftrightarrow> distinct (map fst (sv_clients sv)) \<and>
     (\<forall>(fd, c) \<in> set (sv_clients sv). sk_fd (c_sock c) = fd)"

lemma sendall_fd: "sock_sendall d (w, k) = (res, (w', k')) \<Longrightarrow> sk_fd k' = sk_fd k"
  by (auto simp: sock_sendall_def split: if_splits)

lemma serve_request_fd: "serve_request r h p (w, k) = (res, (w', k')) \<Longrightarrow> sk_fd k' = sk_fd k"
  by (auto simp: serve_request_def io_bind_run Let_def sock_sendall_def
      split: if_splits prod.splits sum.splits)

lemma serve_all_fd: "serve_all r qs (w, k) = (res, (w', k')) \<Longrightarrow> sk_fd k' = sk_fd k"
proof (induction qs arbitrary: w k)
  case (Cons q qs)
  obtain h p where q: "q = (h, p)" by (cases q)
  obtain r1 w1 k1 where s: "serve_request r h p (w, k) = (r1, (w1, k1))" by (metis prod.collapse)
  show ?case using Cons.prems Cons.IH serve_request_fd [OF s] s by (cases r1) (auto simp: q)
qed simp

lemma alist_update_middle:
  "fd \<notin> fst ` set xs \<Longrightarrow> AList.update fd y (xs @ (fd, x) # zs) = xs @ (fd, y) # zs"
  by (induction xs) auto

lemma alist_delete_middle:
  "fd \<notin> fst ` set xs \<Longrightarrow> fd \<notin> fst ` set zs \<Longrightarrow> AList.delete fd (xs @ (fd, x) # zs) = xs @ zs"
proof (induction xs)
  case Nil
  then show ?case by (induction zs) auto
qed auto

text \<open>
  The specification of the second half of an iteration: the clients one after the other, each
  with the complete requests of its buffer; the left-over buffer of a client that stays, \<open>None\<close>
  for one that is closed.
\<close>

fun serve_clients ::
  "'w regio \<Rightarrow> (int \<times> client) list \<Rightarrow> 'w \<Rightarrow> 'w \<times> (int \<times> sock \<times> byte list option) list" where
  "serve_clients r [] w = (w, [])"
| "serve_clients r ((fd, c) # cs) w =
     (case parse_requests (c_buf c) of (qs, rest, ok) \<Rightarrow>
      case serve_all r qs (w, c_sock c) of (res, (w1, k)) \<Rightarrow>
      case serve_clients r cs w1 of (w2, outs) \<Rightarrow>
        (w2, (fd, k, if res = Inr () \<and> ok then Some rest else None) # outs))"

definition client_view :: "int \<times> client \<Rightarrow> int \<times> sock \<times> byte list option" where
  "client_view = (\<lambda>(fd, c). (fd, c_sock c, Some (c_buf c)))"

definition stays :: "int \<times> sock \<times> byte list option \<Rightarrow> bool" where
  "stays out \<longleftrightarrow> snd (snd out) \<noteq> None"

lemma process_clients_serve:
  assumes "serve_clients r cs (sv_dev sv) = (w', outs)"
    and "sv_clients sv = served @ cs" and "server_ok sv"
  shows "\<exists>sv'. fold (process_client r) cs sv = sv' \<and> sv_dev sv' = w' \<and> server_ok sv' \<and>
    sv_stopped sv' = sv_stopped sv \<and>
    map client_view (sv_clients sv') = map client_view served @ filter stays outs \<and>
    map c_sock (sv_closed sv') = map c_sock (sv_closed sv) @ map (fst \<circ> snd) (filter (Not \<circ> stays) outs)"
  using assms
proof (induction cs arbitrary: sv served outs)
  case (Cons fc cs)
  obtain fd c where fc: "fc = (fd, c)" by (cases fc)
  obtain qs rest ok where p: "parse_requests (c_buf c) = (qs, rest, ok)" by (metis prod.collapse)
  obtain res w1 k where s: "serve_all r qs (sv_dev sv, c_sock c) = (res, (w1, k))" by (metis prod.collapse)
  obtain outs2 where o2: "serve_clients r cs w1 = (w', outs2)"
    and outs: "outs = (fd, k, if res = Inr () \<and> ok then Some rest else None) # outs2"
    using Cons.prems(1) p s by (auto simp: fc split: prod.splits)
  obtain b where run: "process_requests r (sv_dev sv, c) =
    (case res of Inl e \<Rightarrow> (Inl e, (w1, c\<lparr>c_sock := k, c_buf := b\<rparr>))
               | Inr _ \<Rightarrow> (Inr ok, (w1, c\<lparr>c_sock := k, c_buf := rest\<rparr>)))"
    using process_requests_serves [OF p s] by blast
  have cl: "sv_clients sv = served @ (fd, c) # cs" using Cons.prems(2) fc by simp
  have fds: "fd \<notin> fst ` set served" "fd \<notin> fst ` set cs" and fdc: "sk_fd (c_sock c) = fd"
    using Cons.prems(3) by (auto simp: server_ok_def cl)
  have kfd: "sk_fd k = fd" using serve_all_fd [OF s] fdc by simp
  have upd: "AList.update fd c' (sv_clients sv) = served @ (fd, c') # cs" for c'
    unfolding cl by (rule alist_update_middle [OF fds(1)])
  have del: "AList.delete fd (sv_clients sv) = served @ cs"
    unfolding cl by (rule alist_delete_middle [OF fds])
  show ?case
  proof (cases "res = Inr () \<and> ok")
    case True
    let ?sv = "sv\<lparr>sv_dev := w1, sv_clients := served @ (fd, c\<lparr>c_sock := k, c_buf := rest\<rparr>) # cs\<rparr>"
    have step: "process_client r fc sv = ?sv"
      using run True by (simp add: process_client_def fc upd)
    have "server_ok ?sv" using Cons.prems(3) kfd by (auto simp: server_ok_def cl)
    with o2 Cons.IH [of ?sv outs2 "served @ [(fd, c\<lparr>c_sock := k, c_buf := rest\<rparr>)]"]
    show ?thesis using True outs step by (simp add: client_view_def stays_def)
  next
    case False
    obtain c' where c': "c_sock c' = k"
      and step: "process_client r fc sv = drop_client c' (sv\<lparr>sv_dev := w1\<rparr>)"
      using run False by (cases res) (force simp: process_client_def fc)+
    let ?sv = "drop_client c' (sv\<lparr>sv_dev := w1\<rparr>)"
    have sv: "sv_clients ?sv = served @ cs" "sv_dev ?sv = w1" "sv_closed ?sv = sv_closed sv @ [c']"
        "sv_stopped ?sv = sv_stopped sv"
      using del by (simp_all add: drop_client_def c' kfd)
    have "server_ok ?sv" using Cons.prems(3) by (auto simp: server_ok_def cl sv)
    with o2 Cons.IH [of ?sv outs2 served]
    show ?thesis using False outs step sv c' by (auto simp: stays_def)
  qed
qed auto


lemma map_fst_update: "map fst (AList.update k v xs) = (if k \<in> fst ` set xs then map fst xs else map fst xs @ [k])"
  by (induction xs) auto

lemma set_update: "(k', v') \<in> set (AList.update k v xs) \<Longrightarrow> (k', v') = (k, v) \<or> (k', v') \<in> set xs"
  by (induction xs) (auto split: if_splits)

lemma server_ok_event: "server_ok sv \<Longrightarrow> server_ok (server_event e sv)"
proof -
  assume ok: "server_ok sv"
  have upd: "server_ok (sv\<lparr>sv_clients := AList.update fd c (sv_clients sv)\<rparr>)" if "sk_fd (c_sock c) = fd" for fd c
    using ok that by (auto simp: server_ok_def map_fst_update dest!: set_update)
  have del: "server_ok (drop_client c sv)" for c
    using ok by (auto simp: server_ok_def drop_client_def AList.delete_eq distinct_map_filter)
  show ?thesis
  proof (cases e)
    case (Ev_accept conn)
    have ci: "sk_fd (c_sock (Client_init \<lparr>sk_fd = fd, sk_sent = [], sk_broken = False\<rparr> peer)) = fd" for fd peer
      by (simp add: Client_init_def)
    show ?thesis using Ev_accept ok upd [OF ci]
      by (auto simp: server_accept_def split: option.splits)
  next
    case (Ev_data fd m result)
    have fdc: "sk_fd (c_sock (c\<lparr>c_buf := b\<rparr>)) = fd" if "map_of (sv_clients sv) fd = Some c" for c b
      using ok map_of_SomeD [OF that] by (auto simp: server_ok_def)
    show ?thesis using Ev_data ok upd [OF fdc] del
      by (auto simp: on_data_def split: option.splits recv_result.splits)
  qed
qed

lemma server_ok_events: "server_ok sv \<Longrightarrow> server_ok (fold server_event es sv)"
  by (induction es arbitrary: sv) (auto intro: server_ok_event)

section \<open>Properties\<close>

text \<open>
  The single-client server serves exactly the complete requests of the byte stream, once each
  and in order, however the network cuts the stream into chunks, and it always returns.
\<close>
theorem single_server_stream:
  assumes "[] \<notin> set conn" and "concat conn = concat (map request_bytes qs) @ rest"
    and "list_all request_ok qs" and "length rest < RQST_HEAD_SIZE"
  shows "handle_client r conn ws = io_forM (\<lambda>(h, payload). serve_request r h payload) qs ws"
proof -
  have "parse_requests rest = ([], rest, True)" using assms(4) by (subst parse_requests.simps) simp
  then show ?thesis
    using handle_client_serves [OF assms(1)] parse_request_bytes [OF assms(3), of rest] assms(2)
    by (simp add: serve_all_def)
qed

theorem single_server_stream_witness:
  "handle_client RegioCache_init [[0x9A, 1, 1], [0, 4, 0, 0, 0, 7, 0x9A]] ([], \<lparr>sk_fd = 3, sk_sent = [], sk_broken = False\<rparr>)
     = io_forM (\<lambda>(h, payload). serve_request RegioCache_init h payload)
         [(\<lparr>rq_flag_we = 1, rq_size = 1, rq_addr = 4\<rparr>, [7])] ([], \<lparr>sk_fd = 3, sk_sent = [], sk_broken = False\<rparr>)"
proof (rule single_server_stream)
  show "concat [[0x9A, 1, 1], [0, 4, 0, 0, 0, 7, 0x9A]] =
      concat (map request_bytes [(\<lparr>rq_flag_we = 1, rq_size = 1, rq_addr = 4\<rparr>, [7])]) @ [0x9A :: byte]"
    by (simp add: request_bytes_def pack_rqst_head_def pack_BBHI_def pack_u_def RQST_SYNC_def
        numeral_eq_Suc)
qed (simp_all add: request_ok_def rqst_payload_size_def SIZE_MAX_def ADDR_MAX_def RQST_HEAD_SIZE_def)

text \<open>
  C8: the multiplexing server, processing a client's buffer after every chunk it receives, does
  to the device and sends to the client exactly what the single-client server does with the
  same bytes, whatever the chunks of the two are.
\<close>
theorem servers_agree:
  assumes "[] \<notin> set conn" and "concat conn = concat ds" and "c_buf c = []"
    and "handle_client r conn (w, c_sock c) = (res, (w', k))"
  shows "\<exists>res' c'. feed r ds (w, c) = (res', (w', c')) \<and> c_sock c' = k \<and>
    (\<forall>e. res = Inl e \<longleftrightarrow> res' = Inl e)"
proof -
  obtain qs rest ok where p: "parse_requests (c_buf c @ concat ds) = (qs, rest, ok)" by (metis prod.collapse)
  have "serve_all r qs (w, c_sock c) = (res, w', k)"
    using handle_client_serves [OF assms(1), of r "(w, c_sock c)"] p assms by simp
  from feed_serves [OF _ p this] assms(3)
  obtain c' where "feed r ds (w, c) = ((case res of Inl e \<Rightarrow> Inl e | Inr _ \<Rightarrow> Inr ok), (w', c'))" "c_sock c' = k"
    by auto
  then show ?thesis by (cases res) auto
qed

theorem servers_agree_witness:
  "\<exists>res' c'. feed RegioCache_init [[0x9A]] ([], Client_init \<lparr>sk_fd = 3, sk_sent = [], sk_broken = False\<rparr> ''p'')
      = (res', ([], c')) \<and> c_sock c' = \<lparr>sk_fd = 3, sk_sent = [], sk_broken = False\<rparr> \<and>
    (\<forall>e. Inr () = Inl e \<longleftrightarrow> res' = Inl e)"
proof (rule servers_agree)
  show "handle_client RegioCache_init [[0x9A]] ([], c_sock (Client_init \<lparr>sk_fd = 3, sk_sent = [], sk_broken = False\<rparr> ''p''))
      = (Inr (), ([], \<lparr>sk_fd = 3, sk_sent = [], sk_broken = False\<rparr>))"
    by (simp add: handle_client_serves parse_requests.simps RQST_HEAD_SIZE_def Client_init_def)
qed (simp_all add: Client_init_def)



end
