(* ===== verification/TcpClient.thy ===== *)
theory TcpClient
  imports TcpServer
begin

text \<open>
  \<^verbatim>\<open>pip/regio/src/regio/tcp_client.py\<close>: the device that forwards every operation over a
  connection, and \<^verbatim>\<open>options.py\<close>. The world of the client is a \<open>link\<close>: the client's end of the
  connection, the bytes under way, and the multiplexing server with its device at the other
  end. \<open>lk_cut\<close> is the network: how it cuts the bytes under way into the chunks the server
  receives; that TCP neither loses, adds nor reorders bytes is the hypothesis
  \<open>concat (lk_cut s) = s\<close> inside \<open>link_ok\<close>.

  A client operation only waits when it reads a reply, so bytes of writes may pile up on the way;
  \<open>pump\<close> is the server running until it has seen them all. Closing is seen by the client when
  it reads: \<open>EOFError\<close> (\<^verbatim>\<open>asyncio.IncompleteReadError\<close>) when the server has dropped the connection,
  \<open>TimeoutError\<close> when it has not but sends too little.

  The memory of a link is the memory its device has once the writes under way are served. With it
  the client object meets the contract of a \<open>regio\<close> object whenever the device behind the server
  does.
\<close>

record 'w link =
  lk_writer :: bool
  lk_listening :: bool
  lk_wire :: "byte list"
  lk_cut :: "byte list \<Rightarrow> byte list list"
  lk_alive :: bool
  lk_client :: client
  lk_dev :: 'w

section \<open>The connection\<close>

definition pump :: "'w regio \<Rightarrow> 'w link \<Rightarrow> 'w link" where
  "pump srv lk =
     (if lk_alive lk then
        (case feed srv (lk_cut lk (lk_wire lk)) (lk_dev lk, lk_client lk) of
           (res, (w, c)) \<Rightarrow> lk\<lparr>lk_wire := [], lk_alive := (res = Inr True), lk_client := c, lk_dev := w\<rparr>)
      else lk\<lparr>lk_wire := []\<rparr>)"

definition tcp_connect :: "('w link, unit) io" where
  "tcp_connect lk =
     (if lk_writer lk then (Inr (), lk)
      else if \<not> lk_listening lk then (Inl IOError, lk)
      else (Inr (), lk\<lparr>lk_writer := True, lk_wire := [], lk_alive := True,
              lk_client := Client_init \<lparr>sk_fd = sk_fd (c_sock (lk_client lk)) + 1, sk_sent = [], sk_broken = False\<rparr> ''''\<rparr>))"

definition tcp_close :: "'w regio \<Rightarrow> ('w link, unit) io" where
  "tcp_close srv lk = (if lk_writer lk then (Inr (), (pump srv lk)\<lparr>lk_writer := False, lk_alive := False\<rparr>) else (Inr (), lk))"

definition writer_write :: "byte list \<Rightarrow> ('w link, unit) io" where
  "writer_write data = io_modify (\<lambda>lk. lk\<lparr>lk_wire := lk_wire lk @ data\<rparr>)"

definition readexactly :: "'w regio \<Rightarrow> nat \<Rightarrow> ('w link, byte list) io" where
  "readexactly srv n lk =
     (let lk = pump srv lk; k = c_sock (lk_client lk) in
      if n \<le> length (sk_sent k)
      then (Inr (take n (sk_sent k)),
            lk\<lparr>lk_client := (lk_client lk)\<lparr>c_sock := k\<lparr>sk_sent := drop n (sk_sent k)\<rparr>\<rparr>\<rparr>)
      else if lk_alive lk then (Inl TimeoutError, lk) else (Inl EOFError, lk))"

section \<open>The client\<close>

definition check_size :: "int \<Rightarrow> unit res" where
  "check_size sz = (if sz > SIZE_MAX \<or> sz \<le> 0 then Inl ValueError else Inr ())"

definition check_addr :: "int \<Rightarrow> unit res" where
  "check_addr addr = (if addr > ADDR_MAX \<or> addr < 0 then Inl ValueError else Inr ())"

definition tcp_dev_write :: "int \<Rightarrow> byte list \<Rightarrow> ('w link, unit) io" where
  "tcp_dev_write addr data =
     (let sz = int (length data) in
      io_bind (io_lift (check_addr addr)) (\<lambda>_.
      io_bind (io_lift (check_size sz)) (\<lambda>_.
      io_bind (io_lift (pack_rqst_head \<lparr>rq_flag_we = 1, rq_size = sz, rq_addr = addr\<rparr>)) (\<lambda>rqst_head_bytes.
      io_bind tcp_connect (\<lambda>_.
        writer_write (rqst_head_bytes @ data))))))"

definition tcp_dev_read :: "'w regio \<Rightarrow> int \<Rightarrow> int \<Rightarrow> ('w link, byte list) io" where
  "tcp_dev_read srv addr sz =
      io_bind (io_lift (check_addr addr)) (\<lambda>_.
      io_bind (io_lift (check_size sz)) (\<lambda>_.
      io_bind (io_lift (pack_rqst_head \<lparr>rq_flag_we = 0, rq_size = sz, rq_addr = addr\<rparr>)) (\<lambda>rqst_head_bytes.
      io_bind tcp_connect (\<lambda>_.
      io_bind (writer_write rqst_head_bytes) (\<lambda>_.
      io_bind (readexactly srv RQST_HEAD_SIZE) (\<lambda>rply_head_bytes.
      io_bind (io_lift (unpack_rply_head rply_head_bytes)) (\<lambda>rply_head.
        if rp_flag_error rply_head \<noteq> 0 then io_raise IOError
        else if rp_size rply_head \<noteq> sz then io_raise IOError
        else if 0 < rply_payload_size rply_head then readexactly srv (nat (rply_payload_size rply_head))
        else io_return [])))))))"

definition RegioTcpClient_init :: "'w regio \<Rightarrow> 'w link regio" where
  "RegioTcpClient_init srv = Regio_init tcp_dev_write (tcp_dev_read srv)"

section \<open>The state of a working link\<close>

definition link_pending :: "'w link \<Rightarrow> (rqst_head \<times> byte list) list" where
  "link_pending lk = fst (parse_requests (c_buf (lk_client lk) @ lk_wire lk))"

definition link_served :: "'w regio \<Rightarrow> 'w link \<Rightarrow> unit res \<times> 'w \<times> sock" where
  "link_served srv lk = serve_all srv (link_pending lk) (lk_dev lk, c_sock (lk_client lk))"

definition link_dev :: "'w regio \<Rightarrow> 'w link \<Rightarrow> 'w" where
  "link_dev srv lk = fst (snd (link_served srv lk))"

text \<open>
  The connection is up, every byte under way belongs to a complete write the device accepts, and
  no reply is unread.
\<close>

definition link_ok :: "'w regio \<Rightarrow> ('w \<Rightarrow> bool) \<Rightarrow> 'w link \<Rightarrow> bool" where
  "link_ok srv dinv lk \<longleftrightarrow> lk_writer lk \<and> lk_alive lk \<and> (\<forall>s. concat (lk_cut lk s) = s) \<and>
     sk_sent (c_sock (lk_client lk)) = [] \<and> \<not> sk_broken (c_sock (lk_client lk)) \<and>
     parse_requests (c_buf (lk_client lk)) = ([], c_buf (lk_client lk), True) \<and>
     parse_requests (c_buf (lk_client lk) @ lk_wire lk) = (link_pending lk, [], True) \<and>
     link_served srv lk = (Inr (), (link_dev srv lk, c_sock (lk_client lk))) \<and>
     dinv (link_dev srv lk)"

definition link_addrs :: "(int \<Rightarrow> int \<Rightarrow> bool) \<Rightarrow> int \<Rightarrow> int \<Rightarrow> bool" where
  "link_addrs ok a n \<longleftrightarrow> ok a n \<and> 0 \<le> a \<and> a + n \<le> ADDR_MAX + 1"

text \<open>One more request on the wire.\<close>

lemma link_append:
  assumes ok: "link_ok srv dinv lk" and q: "request_ok (h, p)"
    and s: "serve_request srv h p (link_dev srv lk, c_sock (lk_client lk)) = (res, (w', k))"
  defines "lk' \<equiv> lk\<lparr>lk_wire := lk_wire lk @ projr (pack_rqst_head h) @ p\<rparr>"
  shows "link_pending lk' = link_pending lk @ [(h, p)]"
    and "parse_requests (c_buf (lk_client lk') @ lk_wire lk') = (link_pending lk', [], True)"
    and "link_served srv lk' = (res, (w', k))"
proof -
  have "parse_requests (projr (pack_rqst_head h) @ p) = ([(h, p)], [], True)"
    using parse_request_bytes [of "[(h, p)]" "[]"] q by (simp add: request_bytes_def)
  moreover have "parse_requests (c_buf (lk_client lk) @ lk_wire lk) = (link_pending lk, [], True)"
    using ok by (simp add: link_ok_def)
  ultimately have p: "parse_requests (c_buf (lk_client lk') @ lk_wire lk') = (link_pending lk @ [(h, p)], [], True)"
    using parse_requests_append [of "c_buf (lk_client lk) @ lk_wire lk" "link_pending lk" "[]"
        "projr (pack_rqst_head h) @ p"] by (simp add: lk'_def)
  then show pe: "link_pending lk' = link_pending lk @ [(h, p)]" by (simp add: link_pending_def)
  then show "parse_requests (c_buf (lk_client lk') @ lk_wire lk') = (link_pending lk', [], True)" using p by simp
  have "link_served srv lk = (Inr (), (link_dev srv lk, c_sock (lk_client lk)))"
    using ok by (simp add: link_ok_def)
  then show "link_served srv lk' = (res, (w', k))"
    using s unfolding link_served_def pe serve_all_append by (cases res) (simp_all add: lk'_def)
qed

text \<open>The server runs until it has seen everything.\<close>

lemma pump_run:
  assumes "lk_alive lk" and "concat (lk_cut lk (lk_wire lk)) = lk_wire lk"
    and "parse_requests (c_buf (lk_client lk)) = ([], c_buf (lk_client lk), True)"
    and "parse_requests (c_buf (lk_client lk) @ lk_wire lk) = (link_pending lk, [], True)"
    and "link_served srv lk = (res, (w', k))"
  shows "\<exists>c'. pump srv lk = lk\<lparr>lk_wire := [], lk_alive := (res = Inr ()), lk_client := c', lk_dev := w'\<rparr> \<and>
    c_sock c' = k \<and> (res = Inr () \<longrightarrow> c_buf c' = [])"
proof -
  obtain c' where "feed srv (lk_cut lk (lk_wire lk)) (lk_dev lk, lk_client lk) =
      ((case res of Inl e \<Rightarrow> Inl e | Inr _ \<Rightarrow> Inr True), (w', c'))"
    "c_sock c' = k" "res = Inr () \<longrightarrow> c_buf c' = []"
    using feed_serves [OF assms(3), of "lk_cut lk (lk_wire lk)" "link_pending lk" "[]" True srv "lk_dev lk" res w' k]
      assms by (auto simp: link_served_def)
  then show ?thesis using assms(1) by (cases res) (auto simp: pump_def)
qed

lemma request_ok_write:
  "0 \<le> a \<Longrightarrow> a + int (length d) \<le> ADDR_MAX + 1 \<Longrightarrow> d \<noteq> [] \<Longrightarrow> int (length d) \<le> SIZE_MAX \<Longrightarrow>
     request_ok (\<lparr>rq_flag_we = 1, rq_size = int (length d), rq_addr = a\<rparr>, d)"
  by (cases d) (auto simp: request_ok_def rqst_payload_size_def)

lemma request_ok_read:
  "0 \<le> a \<Longrightarrow> a + n \<le> ADDR_MAX + 1 \<Longrightarrow> 0 < n \<Longrightarrow> n \<le> SIZE_MAX \<Longrightarrow>
     request_ok (\<lparr>rq_flag_we = 0, rq_size = n, rq_addr = a\<rparr>, [])"
  by (auto simp: request_ok_def rqst_payload_size_def)

lemma pump_idle:
  assumes "lk_alive lk" "concat (lk_cut lk []) = []" "c_buf (lk_client lk) = []" "lk_wire lk = []"
  shows "\<exists>c'. pump srv lk = lk\<lparr>lk_client := c'\<rparr> \<and> c_sock c' = c_sock (lk_client lk) \<and> c_buf c' = []"
proof -
  have p: "link_pending lk = []" by (simp add: link_pending_def assms)
  then have "link_served srv lk = (Inr (), (lk_dev lk, c_sock (lk_client lk)))"
    by (simp add: link_served_def)
  from pump_run [OF assms(1) _ _ _ this] obtain c' where
    "pump srv lk = lk\<lparr>lk_wire := [], lk_alive := True, lk_client := c', lk_dev := lk_dev lk\<rparr>"
    "c_sock c' = c_sock (lk_client lk)" "c_buf c' = []"
    using assms p by auto
  moreover have "lk\<lparr>lk_wire := [], lk_alive := True, lk_client := c', lk_dev := lk_dev lk\<rparr> = lk\<lparr>lk_client := c'\<rparr>"
    using assms by (cases lk) simp
  ultimately show ?thesis by auto
qed

section \<open>The client as a device\<close>

text \<open>The contract of the client, from the contract of the object behind the server.\<close>

locale tcp_remote = regio_object srv mem dinv ok limit
  for srv :: "'w regio" and mem dinv ok limit
begin

lemma link_write_law:
  assumes lok: "link_ok srv dinv lk" and ad: "link_addrs ok a (int (length d))"
    and d: "d \<noteq> []" "int (length d) \<le> SIZE_MAX"
  shows "\<exists>lk'. tcp_dev_write a d lk = (Inr (), lk') \<and> link_ok srv dinv lk' \<and>
    mem (link_dev srv lk') = mem_overlay (mem (link_dev srv lk)) a d"
proof -
  let ?h = "\<lparr>rq_flag_we = 1, rq_size = int (length d), rq_addr = a\<rparr>"
  let ?lk = "lk\<lparr>lk_wire := lk_wire lk @ projr (pack_rqst_head ?h) @ d\<rparr>"
  have a: "ok a (int (length d))" "0 \<le> a" "a + int (length d) \<le> ADDR_MAX + 1"
    using ad by (simp_all add: link_addrs_def)
  note q = request_ok_write [OF a(2,3) d]
  have "0 < int (length d)" using d by simp
  then have "a \<le> ADDR_MAX" using a by linarith
  then have chk: "check_addr a = Inr ()" "check_size (int (length d)) = Inr ()"
    using a d unfolding check_addr_def check_size_def by auto
  obtain hq where hq: "pack_rqst_head ?h = Inr hq" using pack_rqst_head_ok [OF q] by blast
  have "lk_writer lk" and di: "dinv (link_dev srv lk)" using lok by (simp_all add: link_ok_def)
  then have run: "tcp_dev_write a d lk = (Inr (), ?lk)"
    using chk hq by (simp add: tcp_dev_write_def tcp_connect_def io_bind_run writer_write_def)
  obtain w' where w': "regio_write srv a d (link_dev srv lk) = (Inr (), w')" "dinv w'"
      "mem w' = mem_overlay (mem (link_dev srv lk)) a d"
    using regio_write_law [OF di a(1)] by blast
  then have "serve_request srv ?h d (link_dev srv lk, c_sock (lk_client lk)) = (Inr (), (w', c_sock (lk_client lk)))"
    by (simp add: serve_request_def)
  note app = link_append [OF lok q this]
  have "link_dev srv ?lk = w'" by (simp add: link_dev_def app(3))
  then have "link_ok srv dinv ?lk" using lok app w' by (simp add: link_ok_def)
  then show ?thesis using run \<open>link_dev srv ?lk = w'\<close> w' by auto
qed

lemma link_read_law:
  assumes lok: "link_ok srv dinv lk" and ad: "link_addrs ok a n"
    and n: "0 < n" "n \<le> SIZE_MAX" and has: "mem_has (mem (link_dev srv lk)) a n"
  shows "\<exists>lk'. tcp_dev_read srv a n lk = (Inr (mem_bytes (mem (link_dev srv lk)) a n), lk') \<and>
    link_ok srv dinv lk' \<and> mem (link_dev srv lk') = mem (link_dev srv lk)"
proof -
  let ?h = "\<lparr>rq_flag_we = 0, rq_size = n, rq_addr = a\<rparr>"
  let ?lk = "lk\<lparr>lk_wire := lk_wire lk @ projr (pack_rqst_head ?h) @ []\<rparr>"
  let ?d = "mem_bytes (mem (link_dev srv lk)) a n"
  have a: "ok a n" "0 \<le> a" "a + n \<le> ADDR_MAX + 1" using ad by (simp_all add: link_addrs_def)
  note q = request_ok_read [OF a(2,3) n]
  have chk: "check_addr a = Inr ()" "check_size n = Inr ()"
    using a n unfolding check_addr_def check_size_def by auto
  have lk: "lk_writer lk" "dinv (link_dev srv lk)" "lk_alive lk" "\<And>s. concat (lk_cut lk s) = s"
      "sk_sent (c_sock (lk_client lk)) = []" "\<not> sk_broken (c_sock (lk_client lk))"
      "parse_requests (c_buf (lk_client lk)) = ([], c_buf (lk_client lk), True)"
    using lok by (simp_all add: link_ok_def)
  obtain hq where hq: "pack_rqst_head ?h = Inr hq" using pack_rqst_head_ok [OF q] by blast
  obtain w' where w': "regio_read srv a n (link_dev srv lk) = (Inr ?d, w')" "dinv w'" "mem w' = mem (link_dev srv lk)"
    using regio_read_law [OF lk(2) a(1) has] by blast
  have len: "int (length ?d) = n" using n by simp
  let ?r = "\<lparr>rp_flag_error = 0, rp_size = n, rp_addr = a\<rparr>"
  obtain hb where hb: "pack_rply_head ?r = Inr hb"
    using pack_BBHI_Inr_iff [of RPLY_SYNC 0 n a] a n by (auto simp: pack_rply_head_def RPLY_SYNC_def)
  note ub = unpack_pack_rply [OF hb]
  let ?k = "(c_sock (lk_client lk))\<lparr>sk_sent := hb @ ?d\<rparr>"
  have "serve_request srv ?h [] (link_dev srv lk, c_sock (lk_client lk)) = (Inr (), (w', ?k))"
    using w' len hb lk by (simp add: serve_request_def io_bind_run sock_sendall_def)
  note app = link_append [OF lok q this]
  from pump_run [OF _ _ _ app(2,3)] obtain c1 where
    p1: "pump srv ?lk = ?lk\<lparr>lk_wire := [], lk_alive := True, lk_client := c1, lk_dev := w'\<rparr>"
    and c1: "c_sock c1 = ?k" "c_buf c1 = []" using lk by auto
  let ?lk1 = "lk\<lparr>lk_wire := [], lk_alive := True, lk_client := c1\<lparr>c_sock := ?k\<lparr>sk_sent := ?d\<rparr>\<rparr>, lk_dev := w'\<rparr>"
  have r1: "readexactly srv RQST_HEAD_SIZE ?lk = (Inr hb, ?lk1)"
    using p1 c1 ub by (simp add: readexactly_def Let_def RQST_HEAD_SIZE_def)
  obtain c2 where p2: "pump srv ?lk1 = ?lk1\<lparr>lk_client := c2\<rparr>" and c2: "c_sock c2 = ?k\<lparr>sk_sent := ?d\<rparr>" "c_buf c2 = []"
    using pump_idle [of ?lk1 srv] lk(4) c1 by auto
  let ?lk2 = "?lk1\<lparr>lk_client := c2\<lparr>c_sock := ?k\<lparr>sk_sent := []\<rparr>\<rparr>\<rparr>"
  have r2: "readexactly srv (nat n) ?lk1 = (Inr ?d, ?lk2)"
    using p2 c2 by (simp add: readexactly_def Let_def)
  have run: "tcp_dev_read srv a n lk = (Inr ?d, ?lk2)"
    using chk hq lk(1) r1 r2 ub n
    by (simp add: tcp_dev_read_def tcp_connect_def io_bind_run writer_write_def rply_payload_size_def)
  have pend: "link_pending ?lk2 = []" by (simp add: link_pending_def c2)
  then have srvd: "link_served srv ?lk2 = (Inr (), (w', ?k\<lparr>sk_sent := []\<rparr>))" by (simp add: link_served_def)
  then have "link_dev srv ?lk2 = w'" by (simp add: link_dev_def)
  moreover from this have "link_ok srv dinv ?lk2"
    using lk w' c2 pend srvd by (simp add: link_ok_def)
  ultimately show ?thesis using run w' by auto
qed

lemma tcp_client_object:
  "regio_object (RegioTcpClient_init srv) (\<lambda>lk. mem (link_dev srv lk)) (link_ok srv dinv) (link_addrs ok) SIZE_MAX"
proof unfold_locales
  fix lk :: "'w link" and a :: int and d :: "byte list"
  assume "link_ok srv dinv lk" "link_addrs ok a (int (length d))" "d \<noteq> []" "int (length d) \<le> SIZE_MAX"
  from link_write_law [OF this]
  show "\<exists>lk'. dev_write (RegioTcpClient_init srv) a d lk = (Inr (), lk') \<and> link_ok srv dinv lk' \<and>
      mem (link_dev srv lk') = mem_overlay (mem (link_dev srv lk)) a d"
    by (simp add: RegioTcpClient_init_def Regio_init_def)
next
  fix lk :: "'w link" and a n :: int
  assume "link_ok srv dinv lk" "link_addrs ok a n" "0 < n" "n \<le> SIZE_MAX" "mem_has (mem (link_dev srv lk)) a n"
  from link_read_law [OF this]
  show "\<exists>lk'. dev_read (RegioTcpClient_init srv) a n lk = (Inr (mem_bytes (mem (link_dev srv lk)) a n), lk') \<and>
      link_ok srv dinv lk' \<and> mem (link_dev srv lk') = mem (link_dev srv lk)"
    by (simp add: RegioTcpClient_init_def Regio_init_def)
next
  fix a n b k assume "link_addrs ok a n" "a \<le> b" "0 \<le> k" "b + k \<le> a + n"
  then show "link_addrs ok b k" using ok_sub [of a n b k] by (auto simp: link_addrs_def)
qed (auto simp: RegioTcpClient_init_def Regio_init_def REGIO_MTU_DEFAULT_def SIZE_MAX_def)

end

interpretation cache_remote: tcp_remote RegioCache_init mem_of regions_ok addr_space "UINT32_MAX + 1" ..

interpretation tcp_cache: regio_object "RegioTcpClient_init RegioCache_init"
  "\<lambda>lk. mem_of (link_dev RegioCache_init lk)" "link_ok RegioCache_init regions_ok" "link_addrs addr_space" SIZE_MAX
  by (rule cache_remote.tcp_client_object)


section \<open>Options\<close>

text \<open>
  \<^verbatim>\<open>RegioOptions\<close>: which device a command line tool works on. \<^verbatim>\<open>make_regio\<close> is modelled by the
  object it makes over the world of that kind of device, with the file already read.
\<close>

record options =
  tcp_host :: "string option"
  load_cache_file :: "string option"
  opt_mtu :: int

definition options_check :: "options \<Rightarrow> unit res" where
  "options_check opt =
     rbind (rassert (tcp_host opt = None \<or> load_cache_file opt = None)) (\<lambda>_.
       rassert (tcp_host opt \<noteq> None \<or> load_cache_file opt \<noteq> None))"

definition make_regio_tcp :: "options \<Rightarrow> 'w regio \<Rightarrow> ('w link, 'w link regio) io" where
  "make_regio_tcp opt srv =
     io_bind tcp_connect (\<lambda>_. io_lift (set_mtu (opt_mtu opt) (RegioTcpClient_init srv)))"

definition make_regio_file :: "options \<Rightarrow> byte list \<Rightarrow> (regions, regions regio) io" where
  "make_regio_file opt file =
     io_bind (io_modify (\<lambda>_. [])) (\<lambda>_.
     io_bind (load_from_file file True) (\<lambda>_.
       io_lift (set_mtu (opt_mtu opt) (RegioCache_init\<lparr>error_on_write := False\<rparr>))))"

text \<open>A read the cache behind the server cannot serve.\<close>

lemma link_read_fails:
  assumes lok: "link_ok RegioCache_init regions_ok lk" and a: "0 \<le> a" "a + n \<le> ADDR_MAX + 1"
    and n: "0 < n" "n \<le> SIZE_MAX" and has: "\<not> mem_has (mem_of (link_dev RegioCache_init lk)) a n"
  shows "\<exists>lk'. tcp_dev_read RegioCache_init a n lk = (Inl EOFError, lk') \<and> \<not> lk_alive lk' \<and>
    lk_dev lk' = link_dev RegioCache_init lk"
proof -
  let ?h = "\<lparr>rq_flag_we = 0, rq_size = n, rq_addr = a\<rparr>" and ?srv = RegioCache_init
  let ?lk = "lk\<lparr>lk_wire := lk_wire lk @ projr (pack_rqst_head ?h) @ []\<rparr>" and ?w = "link_dev RegioCache_init lk"
  note q = request_ok_read [OF a n]
  obtain hq where hq: "pack_rqst_head ?h = Inr hq" using pack_rqst_head_ok [OF q] by blast
  have chk: "check_addr a = Inr ()" "check_size n = Inr ()"
    using a n unfolding check_addr_def check_size_def by auto
  have lk: "lk_writer lk" "regions_ok ?w" "lk_alive lk" "\<And>s. concat (lk_cut lk s) = s"
      "sk_sent (c_sock (lk_client lk)) = []"
      "parse_requests (c_buf (lk_client lk)) = ([], c_buf (lk_client lk), True)"
    using lok by (simp_all add: link_ok_def)
  have "regio_read ?srv a n ?w = (Inl ValueError, ?w)"
    using cache_regio_read_spec [OF lk(2) a(1), of n] a has by (simp add: ADDR_MAX_def UINT32_MAX_def)
  then have "serve_request ?srv ?h [] (?w, c_sock (lk_client lk)) = (Inl ValueError, (?w, c_sock (lk_client lk)))"
    by (simp add: serve_request_def)
  note app = link_append [OF lok q this]
  from pump_run [OF _ _ _ app(2,3)] obtain c1 where
    p1: "pump ?srv ?lk = ?lk\<lparr>lk_wire := [], lk_alive := False, lk_client := c1, lk_dev := ?w\<rparr>"
    and c1: "c_sock c1 = c_sock (lk_client lk)" using lk by auto
  then have "readexactly ?srv RQST_HEAD_SIZE ?lk = (Inl EOFError, lk\<lparr>lk_wire := [], lk_alive := False, lk_client := c1, lk_dev := ?w\<rparr>)"
    using lk(5) by (simp add: readexactly_def Let_def RQST_HEAD_SIZE_def)
  then show ?thesis
    using chk hq lk(1) by (simp add: tcp_dev_read_def tcp_connect_def io_bind_run writer_write_def)
qed

text \<open>What the server answers to a read request.\<close>

lemma serve_read_reply:
  assumes m: "0 < mtu r" and n: "0 \<le> rq_size h" and we: "rq_flag_we h = 0"
    and run: "serve_request r h p (w, k) = (Inr (), (w', k'))"
  shows "\<exists>hb d. pack_rply_head \<lparr>rp_flag_error = 0, rp_size = rq_size h, rp_addr = rq_addr h\<rparr> = Inr hb \<and>
    int (length d) = rq_size h \<and> regio_read r (rq_addr h) (rq_size h) w = (Inr d, w') \<and>
    sk_sent k' = sk_sent k @ hb @ d"
proof -
  obtain d w1 where d: "regio_read r (rq_addr h) (rq_size h) w = (Inr d, w1)"
    using run we by (cases "regio_read r (rq_addr h) (rq_size h) w") (auto simp: serve_request_def io_bind_Inr_iff)
  then have "int (length d) = rq_size h" using regio_read_length [OF m n] by blast
  then show ?thesis using run we d
    by (auto simp: serve_request_def io_bind_Inr_iff io_bind_run Let_def sock_sendall_def
        split: if_splits sum.splits)
qed

section \<open>Properties\<close>

text \<open>
  C1: a client connected to a server that serves a cache works as the cache itself: a write of
  any length and alignment returns, the same range read back gives the written bytes, and the
  cache behind the server, once the bytes under way are served, holds the old bytes overlaid with
  the new ones. This holds however the network cuts the bytes and for writes still under way.
\<close>
theorem tcp_client_write_read:
  assumes "link_ok RegioCache_init regions_ok lk" and "0 \<le> a" and "a + int (length d) \<le> ADDR_MAX + 1"
  shows "\<exists>lk1 lk2. regio_write (RegioTcpClient_init RegioCache_init) a d lk = (Inr (), lk1) \<and>
    mem_of (link_dev RegioCache_init lk1) = mem_overlay (mem_of (link_dev RegioCache_init lk)) a d \<and>
    regio_read (RegioTcpClient_init RegioCache_init) a (int (length d)) lk1 = (Inr d, lk2) \<and>
    link_ok RegioCache_init regions_ok lk2 \<and>
    mem_of (link_dev RegioCache_init lk2) = mem_of (link_dev RegioCache_init lk1)"
proof -
  have ok: "link_addrs addr_space a (int (length d))"
    using assms by (simp add: link_addrs_def addr_space_def UINT32_MAX_def ADDR_MAX_def)
  obtain lk1 where w: "regio_write (RegioTcpClient_init RegioCache_init) a d lk = (Inr (), lk1)"
      "link_ok RegioCache_init regions_ok lk1"
      "mem_of (link_dev RegioCache_init lk1) = mem_overlay (mem_of (link_dev RegioCache_init lk)) a d"
    using tcp_cache.regio_write_law [OF assms(1) ok] by blast
  have "mem_has (mem_of (link_dev RegioCache_init lk1)) a (int (length d))"
    by (simp add: w(3) mem_overlay_has)
  from tcp_cache.regio_read_law [OF w(2) ok this] w(1,3) show ?thesis
    by (auto simp: mem_overlay_bytes)
qed

definition example_link :: "regions link" where
  "example_link = \<lparr>lk_writer = True, lk_listening = True, lk_wire = [], lk_cut = map (\<lambda>b. [b]), lk_alive = True,
     lk_client = Client_init \<lparr>sk_fd = 4, sk_sent = [], sk_broken = False\<rparr> [], lk_dev = []\<rparr>"

lemma example_link_ok: "link_ok RegioCache_init regions_ok example_link"
proof -
  have "concat (map (\<lambda>b. [b]) s) = s" for s :: "byte list" by (induction s) auto
  then show ?thesis
    by (simp add: link_ok_def link_pending_def link_served_def link_dev_def Client_init_def regions_ok_def example_link_def)
qed

theorem tcp_client_write_read_witness:
  "\<exists>lk1 lk2. regio_write (RegioTcpClient_init RegioCache_init) 4094 [1, 2, 3] example_link = (Inr (), lk1) \<and>
    mem_of (link_dev RegioCache_init lk1) = mem_overlay (mem_of (link_dev RegioCache_init example_link)) 4094 [1, 2, 3] \<and>
    regio_read (RegioTcpClient_init RegioCache_init) 4094 (int (length [1 :: byte, 2, 3])) lk1 = (Inr [1, 2, 3], lk2) \<and>
    link_ok RegioCache_init regions_ok lk2 \<and>
    mem_of (link_dev RegioCache_init lk2) = mem_of (link_dev RegioCache_init lk1)"
  by (rule tcp_client_write_read) (simp_all add: ADDR_MAX_def example_link_ok)

text \<open>
  A read the cache behind the server cannot serve is not answered by a reply with the error
  flag: the exception ends the connection and the client raises \<open>EOFError\<close> instead of the
  \<open>IOError\<close> of an error reply; the writes before it have reached the cache.
\<close>
theorem tcp_client_read_error:
  assumes "link_ok RegioCache_init regions_ok lk" and "0 \<le> a" and "a + n \<le> ADDR_MAX + 1"
    and "0 < n" and "n \<le> SIZE_MAX" and "\<not> mem_has (mem_of (link_dev RegioCache_init lk)) a n"
  shows "\<exists>lk'. tcp_dev_read RegioCache_init a n lk = (Inl EOFError, lk') \<and> \<not> lk_alive lk' \<and>
    lk_dev lk' = link_dev RegioCache_init lk"
  by (rule link_read_fails [OF assms])

theorem tcp_client_read_error_witness:
  "\<exists>lk'. tcp_dev_read RegioCache_init 8 4 example_link = (Inl EOFError, lk') \<and> \<not> lk_alive lk' \<and>
    lk_dev lk' = link_dev RegioCache_init example_link"
proof (rule tcp_client_read_error)
  have "link_dev RegioCache_init example_link = []"
    by (simp add: link_dev_def link_served_def link_pending_def example_link_def Client_init_def)
  then show "\<not> mem_has (mem_of (link_dev RegioCache_init example_link)) 8 4"
    by (simp add: mem_has_def) (rule exI [of _ 0], simp)
qed (simp_all add: example_link_ok ADDR_MAX_def SIZE_MAX_def)

text \<open>
  Whatever object a server serves, a read request it answers at all is answered with a clear
  error flag, the size of the request and that many bytes of data: a reply with the error flag is
  never sent, because \<open>Regio._read\<close> raises on a short read first.
\<close>
theorem server_never_flags_error:
  assumes "0 < mtu r" and "0 \<le> rq_size h" and "rq_flag_we h = 0"
    and "serve_request r h p (w, k) = (Inr (), (w', k'))"
  shows "\<exists>hb d. pack_rply_head \<lparr>rp_flag_error = 0, rp_size = rq_size h, rp_addr = rq_addr h\<rparr> = Inr hb \<and>
    int (length d) = rq_size h \<and> regio_read r (rq_addr h) (rq_size h) w = (Inr d, w') \<and>
    sk_sent k' = sk_sent k @ hb @ d"
  by (rule serve_read_reply [OF assms])

theorem server_never_flags_error_witness:
  "\<exists>w' (k' :: sock) hb d. pack_rply_head \<lparr>rp_flag_error = 0, rp_size = 1, rp_addr = 4\<rparr> = Inr hb \<and>
    int (length d) = 1 \<and> regio_read RegioCache_init 4 1 [(4, [9])] = (Inr d, w') \<and>
    sk_sent k' = [] @ hb @ d"
proof -
  let ?h = "\<lparr>rq_flag_we = 0, rq_size = 1, rq_addr = 4\<rparr>" and ?k = "\<lparr>sk_fd = 4, sk_sent = [], sk_broken = False\<rparr>"
  have "regions_ok [(4, [9])]" by (simp add: regions_ok_def region_ok_def UINT32_MAX_def)
  then have "regio_read RegioCache_init 4 1 [(4, [9])] = (Inr [9], [(4, [9])])"
    by (subst cache_regio_read_spec) (simp_all add: UINT32_MAX_def mem_has_def mem_bytes_def)
  then obtain k' where sr: "serve_request RegioCache_init ?h [] ([(4, [9])], ?k) = (Inr (), ([(4, [9])], k'))"
    by (simp add: serve_request_def io_bind_run pack_rply_head_def pack_BBHI_def pack_u_def RPLY_SYNC_def
        sock_sendall_def)
  have "0 < mtu RegioCache_init"
    by (simp add: RegioCache_init_def Regio_init_def REGIO_MTU_DEFAULT_def)
  from server_never_flags_error [OF this _ _ sr]
  have "\<exists>hb d. pack_rply_head \<lparr>rp_flag_error = 0, rp_size = 1, rp_addr = 4\<rparr> = Inr hb \<and>
    int (length d) = 1 \<and> regio_read RegioCache_init 4 1 [(4, [9])] = (Inr d, [(4, [9])]) \<and>
    sk_sent k' = [] @ hb @ d" by simp
  then show ?thesis by blast
qed

end
