(* ===== verification/PyText.thy ===== *)
theory PyText
  imports Prelude
begin

text \<open>
  The integer formatting of Python the program prints with: \<^verbatim>\<open>str(n)\<close>, \<^verbatim>\<open>hex(n)\<close>, and the format
  specifications \<^verbatim>\<open>0<w>b\<close>, \<^verbatim>\<open>0<w>X\<close>. \<open>read_digits\<close> is \<^verbatim>\<open>int(s, base)\<close> on a string of digits; the
  lemmas show that reading back a printed number gives the number.
\<close>

definition digit_char :: "bool \<Rightarrow> nat \<Rightarrow> char" where
  "digit_char upper d = (if d < 10 then char_of (48 + d) else char_of ((if upper then 55 else 87) + d))"

fun nat_digits :: "nat \<Rightarrow> nat \<Rightarrow> nat list" where
  "nat_digits base n =
     (if base < 2 \<or> n < base then [n] else nat_digits base (n div base) @ [n mod base])"

declare nat_digits.simps [simp del]

definition digits_str :: "nat \<Rightarrow> bool \<Rightarrow> int \<Rightarrow> string" where
  "digits_str base upper v = map (digit_char upper) (nat_digits base (nat \<bar>v\<bar>))"

definition py_str_int :: "int \<Rightarrow> string" where
  "py_str_int v = (if v < 0 then ''-'' else '''') @ digits_str 10 False v"

definition py_hex :: "int \<Rightarrow> string" where
  "py_hex v = (if v < 0 then ''-0x'' else ''0x'') @ digits_str 16 False v"

text \<open>\<open>f'{v:0{w}X}'\<close>: the sign is part of the width, zeros fill between sign and digits.\<close>

definition py_fmt0 :: "nat \<Rightarrow> bool \<Rightarrow> int \<Rightarrow> int \<Rightarrow> string" where
  "py_fmt0 base upper w v =
     (let sgn = (if v < 0 then ''-'' else ''''); ds = digits_str base upper v
      in sgn @ replicate (nat w - length sgn - length ds) CHR ''0'' @ ds)"

definition char_digit :: "char \<Rightarrow> nat option" where
  "char_digit c =
     (let n = of_char c :: nat in
      if 48 \<le> n \<and> n < 58 then Some (n - 48)
      else if 65 \<le> n \<and> n < 91 then Some (n - 55)
      else if 97 \<le> n \<and> n < 123 then Some (n - 87)
      else None)"

fun read_digits :: "nat \<Rightarrow> nat \<Rightarrow> string \<Rightarrow> nat option" where
  "read_digits base acc [] = Some acc"
| "read_digits base acc (c # cs) =
     (case char_digit c of
        Some d \<Rightarrow> if d < base then read_digits base (base * acc + d) cs else None
      | None \<Rightarrow> None)"

lemma nat_digits_nonempty [simp]: "nat_digits b n \<noteq> []"
  by (subst nat_digits.simps) simp

lemma nat_digits_less: "2 \<le> b \<Longrightarrow> \<forall>d \<in> set (nat_digits b n). d < b"
proof (induction b n rule: nat_digits.induct)
  case (1 b n)
  show ?case
  proof (cases "n < b")
    case True
    then show ?thesis by (subst nat_digits.simps) simp
  next
    case False
    then have "\<forall>d \<in> set (nat_digits b (n div b)). d < b" using 1 by simp
    then show ?thesis using False 1 by (subst nat_digits.simps) auto
  qed
qed

lemma char_digit_digit_char: "d < 36 \<Longrightarrow> char_digit (digit_char u d) = Some d"
  by (auto simp: char_digit_def digit_char_def Let_def)

lemma read_digits_append:
  "read_digits b acc (xs @ ys) =
     (case read_digits b acc xs of None \<Rightarrow> None | Some a \<Rightarrow> read_digits b a ys)"
  by (induction xs arbitrary: acc) (auto split: option.splits)

lemma read_nat_digits:
  "2 \<le> b \<Longrightarrow> b \<le> 36 \<Longrightarrow> read_digits b 0 (map (digit_char u) (nat_digits b n)) = Some n"
proof (induction b n rule: nat_digits.induct)
  case (1 b n)
  show ?case
  proof (cases "n < b")
    case True
    then show ?thesis using 1 by (subst nat_digits.simps) (simp add: char_digit_digit_char)
  next
    case False
    have m: "n mod b < b" using 1 by simp
    then have "n mod b < 36" using 1 by linarith
    from char_digit_digit_char [OF this, of u] show ?thesis using False 1 m
      by (subst nat_digits.simps) (simp add: read_digits_append)
  qed
qed

lemma read_digits_zeros: "2 \<le> b \<Longrightarrow> read_digits b 0 (replicate k CHR ''0'' @ s) = read_digits b 0 s"
  by (induction k) (auto simp: char_digit_def)

lemma read_py_fmt0:
  "2 \<le> b \<Longrightarrow> b \<le> 36 \<Longrightarrow> 0 \<le> v \<Longrightarrow> read_digits b 0 (py_fmt0 b u w v) = Some (nat v)"
  by (simp add: py_fmt0_def digits_str_def read_digits_zeros read_nat_digits)

lemma length_py_fmt0: "nat w \<le> length (py_fmt0 b u w v)"
  by (simp add: py_fmt0_def Let_def)

text \<open>\<^verbatim>\<open>str.strip()\<close>, for the white space of 8-bit characters.\<close>

definition is_py_space :: "char \<Rightarrow> bool" where
  "is_py_space c = (let n = of_char c :: nat in
     (9 \<le> n \<and> n \<le> 13) \<or> (28 \<le> n \<and> n \<le> 32) \<or> n = 0x85 \<or> n = 0xA0)"

definition py_strip :: "string \<Rightarrow> string" where
  "py_strip s = rev (dropWhile is_py_space (rev (dropWhile is_py_space s)))"

text \<open>\<^verbatim>\<open>str(b)\<close> of a bool\<close>

definition py_str_bool :: "bool \<Rightarrow> string" where
  "py_str_bool b = (if b then ''True'' else ''False'')"

section \<open>Reading an integer\<close>

text \<open>The digits of \<^verbatim>\<open>int(s, 0)\<close>: an underscore stands between two digits or behind the prefix.\<close>

fun drop_underscores :: "bool \<Rightarrow> string \<Rightarrow> string option" where
  "drop_underscores ok [] = (if ok then Some [] else None)"
| "drop_underscores ok (c # cs) =
     (if c = CHR ''_'' then (if ok then drop_underscores False cs else None)
      else map_option ((#) c) (drop_underscores True cs))"

definition read_base :: "nat \<Rightarrow> bool \<Rightarrow> string \<Rightarrow> nat option" where
  "read_base base prefixed s =
     (case drop_underscores prefixed s of
        None \<Rightarrow> None
      | Some ds \<Rightarrow> if ds = [] then None else read_digits base 0 ds)"

definition read_unsigned :: "string \<Rightarrow> nat option" where
  "read_unsigned s =
     (if take 2 s \<in> {''0x'', ''0X''} then read_base 16 True (drop 2 s)
      else if take 2 s \<in> {''0o'', ''0O''} then read_base 8 True (drop 2 s)
      else if take 2 s \<in> {''0b'', ''0B''} then read_base 2 True (drop 2 s)
      else (case read_base 10 False s of
              None \<Rightarrow> None
            | Some n \<Rightarrow> if take 1 s = ''0'' \<and> n \<noteq> 0 then None else Some n))"

definition int_text :: "string \<Rightarrow> int option" where
  "int_text token =
     (let s = py_strip token in
      if take 1 s = ''-'' then map_option (\<lambda>n. - int n) (read_unsigned (drop 1 s))
      else map_option int (read_unsigned (if take 1 s = ''+'' then drop 1 s else s)))"

text \<open>The text of a number reads as the number.\<close>

lemma char_of_num_no_space: "of_char c \<in> {43::nat, 45} \<union> {48..122} \<Longrightarrow> \<not> is_py_space c"
  by (auto simp: is_py_space_def Let_def)

lemma py_strip_id: "\<forall>c \<in> set s. \<not> is_py_space c \<Longrightarrow> py_strip s = s"
proof -
  assume a: "\<forall>c \<in> set s. \<not> is_py_space c"
  have d: "dropWhile is_py_space t = t" if "\<forall>c \<in> set t. \<not> is_py_space c" for t using that by (cases t) auto
  show ?thesis unfolding py_strip_def using a d [of s] d [of "rev s"] by simp
qed

lemma of_digit_char: "d < 16 \<Longrightarrow> of_char (digit_char u d) \<in> {48..122 :: nat} - {88, 95, 120}"
  by (auto simp: digit_char_def)

lemma drop_underscores_id: "CHR ''_'' \<notin> set s \<Longrightarrow> drop_underscores ok s = (if s = [] \<and> \<not> ok then None else Some s)"
  by (induction s arbitrary: ok) auto

lemma digits_plain:
  assumes "2 \<le> b" and "b \<le> 16"
  shows "\<forall>c \<in> set (map (digit_char u) (nat_digits b n)). of_char c \<in> {48..122 :: nat} - {88, 95, 120}"
  using nat_digits_less [OF assms(1), of n] assms(2) of_digit_char by fastforce

lemma read_base_digits:
  assumes "2 \<le> b" and "b \<le> 16"
  shows "read_base b p (replicate k CHR ''0'' @ map (digit_char u) (nat_digits b n)) = Some n"
proof -
  let ?s = "map (digit_char u) (nat_digits b n)"
  have "CHR ''_'' \<notin> set ?s"
  proof
    assume "CHR ''_'' \<in> set ?s"
    then have "of_char (CHR ''_'') \<in> {48..122 :: nat} - {88, 95, 120}" by (rule bspec [OF digits_plain [OF assms]])
    then show False by simp
  qed
  then have "drop_underscores p (replicate k CHR ''0'' @ ?s) = Some (replicate k CHR ''0'' @ ?s)"
    by (subst drop_underscores_id) auto
  moreover have "read_digits b 0 (replicate k CHR ''0'') = Some 0"
    using assms(1) by (induction k) (simp_all add: char_digit_def)
  ultimately show ?thesis using assms by (simp add: read_base_def read_digits_append read_nat_digits)
qed

lemma int_text_py_hex: "0 \<le> v \<Longrightarrow> int_text (''0x'' @ py_fmt0 16 u w v) = Some v"
proof -
  assume v: "0 \<le> v"
  let ?ds = "map (digit_char u) (nat_digits 16 (nat v))"
  obtain k where f: "py_fmt0 16 u w v = replicate k CHR ''0'' @ ?ds" using v by (auto simp: py_fmt0_def digits_str_def Let_def)
  have "\<forall>c \<in> set ?ds. of_char c \<in> {48..122 :: nat} - {88, 95, 120}" by (rule digits_plain) simp_all
  then have "\<forall>c \<in> set (''0x'' @ replicate k CHR ''0'' @ ?ds). \<not> is_py_space c"
    by (auto intro!: char_of_num_no_space simp del: set_map)
  then have s: "py_strip (''0x'' @ py_fmt0 16 u w v) = ''0x'' @ py_fmt0 16 u w v" unfolding f by (rule py_strip_id)
  show ?thesis unfolding int_text_def s Let_def
    using v by (simp add: read_unsigned_def f read_base_digits)
qed

lemma dec_digits: "\<forall>c \<in> set (map (digit_char u) (nat_digits 10 n)). of_char c \<in> {48..57 :: nat}"
  using nat_digits_less [of 10 n] by (auto simp: digit_char_def)

lemma nat_digits_zero_first: "take 1 (map (digit_char u) (nat_digits 10 n)) = ''0'' \<Longrightarrow> n = 0"
proof (induction "10::nat" n rule: nat_digits.induct)
  case (1 n)
  show ?case
  proof (cases "n < 10")
    case True
    then show ?thesis using 1(2) by (subst (asm) nat_digits.simps) (auto simp: digit_char_def dest!: arg_cong [of _ _ "of_char :: char \<Rightarrow> nat"])
  next
    case False
    have d: "nat_digits 10 n = nat_digits 10 (n div 10) @ [n mod 10]" using False by (subst nat_digits.simps) simp
    have "take 1 (map (digit_char u) (nat_digits 10 (n div 10))) = ''0''"
      using 1(2) nat_digits_nonempty [of 10 "n div 10"] by (cases "nat_digits 10 (n div 10)") (simp_all add: d)
    then have "n div 10 = 0" using 1(1) False by simp
    then show ?thesis using False by simp
  qed
qed

lemma read_unsigned_digits: "read_unsigned (map (digit_char u) (nat_digits 10 n)) = Some n"
proof -
  let ?s = "map (digit_char u) (nat_digits 10 n)"
  have "take 2 ?s \<noteq> [a, c]" if "of_char c \<notin> {48..57 :: nat}" for a c
  proof
    assume "take 2 ?s = [a, c]"
    then have "c \<in> set (take 2 ?s)" by simp
    then have "c \<in> set ?s" by (rule in_set_takeD)
    then show False using dec_digits [of u n] that by blast
  qed
  then have p: "take 2 ?s \<notin> {''0x'', ''0X''}" "take 2 ?s \<notin> {''0o'', ''0O''}" "take 2 ?s \<notin> {''0b'', ''0B''}"
    by (auto simp del: set_map)
  have "read_base 10 False ?s = Some n" using read_base_digits [of 10 False 0 u n] by simp
  then show ?thesis using p nat_digits_zero_first [of u n] by (simp add: read_unsigned_def)
qed

lemma int_text_py_str_int: "int_text (py_str_int v) = Some v"
proof -
  let ?ds = "map (digit_char False) (nat_digits 10 (nat \<bar>v\<bar>))"
  have d: "\<forall>c \<in> set ?ds. of_char c \<in> {48..57 :: nat}" by (rule dec_digits)
  then have "\<forall>c \<in> set (py_str_int v). \<not> is_py_space c"
    by (auto simp: py_str_int_def digits_str_def intro!: char_of_num_no_space)
  then have s: "py_strip (py_str_int v) = py_str_int v" by (rule py_strip_id)
  have "take 1 ?ds \<noteq> [c]" if "of_char c \<notin> {48..57 :: nat}" for c
  proof
    assume "take 1 ?ds = [c]"
    then have "c \<in> set ?ds" by (metis in_set_takeD list.set_intros(1))
    then show False using d that by blast
  qed
  then have f: "take 1 ?ds \<noteq> ''-''" "take 1 ?ds \<noteq> ''+''" by simp_all
  show ?thesis unfolding int_text_def s Let_def
    using f by (auto simp: py_str_int_def digits_str_def read_unsigned_digits)
qed

end
