(* ===== verification/RegioProxy.thy ===== *)
theory RegioProxy
  imports TcpClient PyText
begin

text \<open>
  \<^verbatim>\<open>pip/regio_ui/src/regio_ui/proxy.py\<close>: the object that relays the operations of its clients to a
  device and reports them to the user interface.

  The world of a proxy is \<open>('b, 'u) proxy\<close>: the world \<open>'b\<close> of its backend, the state \<open>'u\<close> of the
  user interface behind the callbacks, and the proxy's own flags. The callbacks are functions on
  \<open>'u\<close>; \<open>pc_err\<close> is \<^verbatim>\<open>str(err)\<close> of an exception, whose message the model does not carry.
  \<open>_RelayingRegio\<close> is a \<open>regio\<close> object over that world; the theory shows that it meets the contract
  of a device whenever the backend does, so a client of the proxy works as if on the backend.
\<close>

record regio_op =
  op_addr :: int
  op_write :: bool
  op_size :: int
  op_data :: "byte list option"

definition op_str :: "regio_op \<Rightarrow> string" where
  "op_str op = (if op_write op then ''wr'' else ''rd'')"

datatype backend_kind = Kind_file | Kind_tcp

record ('b, 'u) proxy =
  px_backend :: 'b
  px_ui :: 'u
  px_closed :: bool
  px_listening :: bool
  px_up :: bool
  px_server :: "bool option"

record ('b, 'u) proxy_config =
  pc_backend :: "'b regio"
  pc_desc :: string
  pc_kind :: backend_kind
  pc_connect :: "('b, unit) io option"
  pc_close :: "('b, unit) io option"
  pc_host :: string
  pc_port :: int
  pc_on_op :: "(regio_op \<Rightarrow> ('u, string) io) option"
  pc_on_done :: "(string \<Rightarrow> byte list option \<Rightarrow> string option \<Rightarrow> ('u, unit) io) option"
  pc_on_status :: "(string \<Rightarrow> ('u, unit) io) option"
  pc_err :: "exn \<Rightarrow> string"

text \<open>An operation of the backend or of the user interface, in the world of the proxy.\<close>

definition on_backend :: "('b, 'a) io \<Rightarrow> (('b, 'u) proxy, 'a) io" where
  "on_backend m = (\<lambda>p. case m (px_backend p) of (x, b) \<Rightarrow> (x, p\<lparr>px_backend := b\<rparr>))"

definition on_ui :: "('u, 'a) io \<Rightarrow> (('b, 'u) proxy, 'a) io" where
  "on_ui m = (\<lambda>p. case m (px_ui p) of (x, u) \<Rightarrow> (x, p\<lparr>px_ui := u\<rparr>))"

text \<open>\<^verbatim>\<open>try: ... except Exception as err\<close>; \<^verbatim>\<open>TimeoutError\<close> is an \<^verbatim>\<open>OSError\<close>.\<close>

definition is_oserror :: "exn \<Rightarrow> bool" where
  "is_oserror e \<longleftrightarrow> e = IOError \<or> e = TimeoutError"

definition io_try :: "('s, 'a) io \<Rightarrow> ('s, exn + 'a) io" where
  "io_try m = (\<lambda>s. case m s of (x, s') \<Rightarrow> (Inr x, s'))"

section \<open>The proxy\<close>

definition backend_str :: "('b, 'u) proxy_config \<Rightarrow> string" where
  "backend_str pc = (if pc_kind pc = Kind_file then ''file '' else ''upstream '') @ pc_desc pc"

definition listen_str :: "('b, 'u) proxy_config \<Rightarrow> string" where
  "listen_str pc = pc_host pc @ '':'' @ py_str_int (pc_port pc)"

definition status_text :: "('b, 'u) proxy_config \<Rightarrow> ('b, 'u) proxy \<Rightarrow> string" where
  "status_text pc p =
     (let listen = (if px_listening p then ''listening on '' @ listen_str pc
                    else ''starting listener on '' @ listen_str pc @ '' ...'');
          state = (if px_up p then ''connected'' else ''not connected (retrying ...)'')
      in if pc_kind pc = Kind_tcp
         then listen @ ''  '' @ [char_of (183 :: nat)] @ ''  '' @ backend_str pc @ '' ('' @ state @ '')''
         else listen @ ''  '' @ [char_of (183 :: nat)] @ ''  '' @ backend_str pc)"

definition emit_status :: "('b, 'u) proxy_config \<Rightarrow> (('b, 'u) proxy, unit) io" where
  "emit_status pc =
     io_bind (io_get (status_text pc)) (\<lambda>text.
       case pc_on_status pc of None \<Rightarrow> io_return () | Some f \<Rightarrow> on_ui (f text))"

definition proxy_check_addr :: "int \<Rightarrow> string option" where
  "proxy_check_addr addr =
     (if \<not> (0 \<le> addr \<and> addr \<le> ADDR_MAX)
      then Some (''address 0x'' @ py_fmt0 16 False 0 addr @ '' out of range (0 .. 0x'' @ py_fmt0 16 False 0 ADDR_MAX @ '')'')
      else None)"

definition proxy_check_size :: "int \<Rightarrow> string option" where
  "proxy_check_size sz =
     (if \<not> (1 \<le> sz \<and> sz \<le> SIZE_MAX)
      then Some (''size '' @ py_str_int sz @ '' out of range (1 .. '' @ py_str_int SIZE_MAX @ '')'')
      else None)"

definition mark_backend :: "('b, 'u) proxy_config \<Rightarrow> bool \<Rightarrow> (('b, 'u) proxy, unit) io" where
  "mark_backend pc up =
     (if pc_kind pc = Kind_file then io_return ()
      else io_bind (io_get px_up) (\<lambda>b.
        if b \<noteq> up then io_bind (io_modify (\<lambda>p. p\<lparr>px_up := up\<rparr>)) (\<lambda>_. emit_status pc) else io_return ()))"

definition op_started :: "('b, 'u) proxy_config \<Rightarrow> regio_op \<Rightarrow> (('b, 'u) proxy, string) io" where
  "op_started pc op = (case pc_on_op pc of None \<Rightarrow> io_return [] | Some f \<Rightarrow> on_ui (f op))"

definition op_done ::
  "('b, 'u) proxy_config \<Rightarrow> string \<Rightarrow> byte list option \<Rightarrow> string option \<Rightarrow> (('b, 'u) proxy, unit) io" where
  "op_done pc key data error =
     (case pc_on_done pc of None \<Rightarrow> io_return ()
      | Some f \<Rightarrow> if key \<noteq> [] then on_ui (f key data error) else io_return ())"

text \<open>\<^verbatim>\<open>f"0x{addr:x} wr {size} B: {err}"\<close>\<close>

definition op_error :: "('b, 'u) proxy_config \<Rightarrow> int \<Rightarrow> string \<Rightarrow> int \<Rightarrow> exn \<Rightarrow> string" where
  "op_error pc addr op sz e =
     ''0x'' @ py_fmt0 16 False 0 addr @ '' '' @ op @ '' '' @ py_str_int sz @ '' B: '' @ pc_err pc e"

definition proxy_relay_write ::
  "('b, 'u) proxy_config \<Rightarrow> int \<Rightarrow> byte list \<Rightarrow> (('b, 'u) proxy, string \<times> string option) io" where
  "proxy_relay_write pc addr data =
     (let sz = int (length data) in
      io_bind (op_started pc \<lparr>op_addr = addr, op_write = True, op_size = sz, op_data = Some data\<rparr>) (\<lambda>key.
        case (case proxy_check_addr addr of Some err \<Rightarrow> Some err | None \<Rightarrow> proxy_check_size sz) of
          Some err \<Rightarrow> io_bind (op_done pc key None (Some err)) (\<lambda>_. io_return (key, Some err))
        | None \<Rightarrow>
            io_bind (io_try (on_backend (regio_write (pc_backend pc) addr data))) (\<lambda>r.
              case r of
                Inl e \<Rightarrow>
                  (let msg = op_error pc addr ''wr'' sz e in
                   io_bind (mark_backend pc False) (\<lambda>_.
                   io_bind (op_done pc key None (Some msg)) (\<lambda>_. io_return (key, Some msg))))
              | Inr _ \<Rightarrow>
                  io_bind (mark_backend pc True) (\<lambda>_.
                  io_bind (op_done pc key (Some data) None) (\<lambda>_. io_return (key, None))))))"

definition proxy_relay_read ::
  "('b, 'u) proxy_config \<Rightarrow> int \<Rightarrow> int \<Rightarrow> (('b, 'u) proxy, string \<times> byte list \<times> string option) io" where
  "proxy_relay_read pc addr sz =
      io_bind (op_started pc \<lparr>op_addr = addr, op_write = False, op_size = sz, op_data = None\<rparr>) (\<lambda>key.
        case (case proxy_check_addr addr of Some err \<Rightarrow> Some err | None \<Rightarrow> proxy_check_size sz) of
          Some err \<Rightarrow> io_bind (op_done pc key None (Some err)) (\<lambda>_. io_return (key, [], Some err))
        | None \<Rightarrow>
            io_bind (io_try (on_backend (regio_read (pc_backend pc) addr sz))) (\<lambda>r.
              case r of
                Inl e \<Rightarrow>
                  (let msg = op_error pc addr ''rd'' sz e in
                   io_bind (mark_backend pc False) (\<lambda>_.
                   io_bind (op_done pc key None (Some msg)) (\<lambda>_. io_return (key, [], Some msg))))
              | Inr payload \<Rightarrow>
                  io_bind (mark_backend pc True) (\<lambda>_.
                  io_bind (op_done pc key (Some payload) None) (\<lambda>_. io_return (key, payload, None)))))"

text \<open>The device the local server drives.\<close>

definition relaying_dev_write :: "('b, 'u) proxy_config \<Rightarrow> int \<Rightarrow> byte list \<Rightarrow> (('b, 'u) proxy, unit) io" where
  "relaying_dev_write pc addr data = io_bind (proxy_relay_write pc addr data) (\<lambda>_. io_return ())"

definition relaying_dev_read :: "('b, 'u) proxy_config \<Rightarrow> int \<Rightarrow> int \<Rightarrow> (('b, 'u) proxy, byte list) io" where
  "relaying_dev_read pc addr sz =
     io_bind (proxy_relay_read pc addr sz) (\<lambda>(key, payload, err).
       io_return (if err \<noteq> None then [] else payload))"

definition RelayingRegio_init :: "('b, 'u) proxy_config \<Rightarrow> ('b, 'u) proxy regio" where
  "RelayingRegio_init pc = Regio_init (relaying_dev_write pc) (relaying_dev_read pc)"

text \<open>One turn of \<^verbatim>\<open>watch_upstream\<close>.\<close>

definition watch_turn :: "('b, 'u) proxy_config \<Rightarrow> (('b, 'u) proxy, unit) io" where
  "watch_turn pc =
     (case pc_connect pc of None \<Rightarrow> io_return ()
      | Some connect \<Rightarrow>
          io_bind (io_try (on_backend connect)) (\<lambda>r.
          io_bind (io_get px_up) (\<lambda>up.
            case r of
              Inr _ \<Rightarrow>
                if \<not> up then io_bind (io_modify (\<lambda>p. p\<lparr>px_up := True\<rparr>)) (\<lambda>_. emit_status pc) else io_return ()
            | Inl e \<Rightarrow>
                if is_oserror e then
                  (if up then io_bind (io_modify (\<lambda>p. p\<lparr>px_up := False\<rparr>)) (\<lambda>_. emit_status pc) else io_return ())
                else io_raise e)))"

definition proxy_start_local_server ::
  "('b, 'u) proxy_config \<Rightarrow> (('b, 'u) proxy, unit) io \<Rightarrow> (('b, 'u) proxy, unit) io" where
  "proxy_start_local_server pc server_start =
     io_bind (io_modify (\<lambda>p. p\<lparr>px_server := Some False, px_listening := True\<rparr>)) (\<lambda>_.
     io_bind (emit_status pc) (\<lambda>_.
     io_bind (io_try (io_bind (io_try server_start) (\<lambda>r.
       case r of
         Inr _ \<Rightarrow> io_return ()
       | Inl e \<Rightarrow>
           if is_oserror e then
             io_bind (io_modify (\<lambda>p. p\<lparr>px_listening := False, px_server := None\<rparr>)) (\<lambda>_.
             io_bind (emit_status pc) (\<lambda>_. io_raise e))
           else io_raise e))) (\<lambda>r.
     io_bind (io_modify (\<lambda>p. p\<lparr>px_server := None, px_listening := False\<rparr>)) (\<lambda>_. io_lift r))))"

definition proxy_close :: "('b, 'u) proxy_config \<Rightarrow> (('b, 'u) proxy, unit) io" where
  "proxy_close pc =
     io_bind (io_modify (\<lambda>p. p\<lparr>px_closed := True, px_server := map_option (\<lambda>_. True) (px_server p)\<rparr>)) (\<lambda>_.
       case pc_close pc of None \<Rightarrow> io_return ()
       | Some close \<Rightarrow>
           io_bind (io_try (on_backend close)) (\<lambda>r.
             case r of Inr _ \<Rightarrow> io_return ()
             | Inl e \<Rightarrow> if is_oserror e then io_return () else io_raise e))"

definition RegioProxy_init ::
  "'b regio \<Rightarrow> string \<Rightarrow> backend_kind \<Rightarrow> ('b, unit) io option \<Rightarrow> ('b, unit) io option \<Rightarrow> (exn \<Rightarrow> string) \<Rightarrow>
     ('b, 'u) proxy_config" where
  "RegioProxy_init backend desc kind connect close err =
     \<lparr>pc_backend = backend, pc_desc = desc, pc_kind = kind, pc_connect = connect, pc_close = close,
      pc_host = ''0.0.0.0'', pc_port = 0x9AB0, pc_on_op = None, pc_on_done = None, pc_on_status = None,
      pc_err = err\<rparr>"

section \<open>The callbacks\<close>

text \<open>A user interface whose callbacks do not raise.\<close>

definition ui_quiet :: "('b, 'u) proxy_config \<Rightarrow> bool" where
  "ui_quiet pc \<longleftrightarrow>
     (\<forall>f op u. pc_on_op pc = Some f \<longrightarrow> (\<exists>k u'. f op u = (Inr k, u'))) \<and>
     (\<forall>f k d e u. pc_on_done pc = Some f \<longrightarrow> (\<exists>u'. f k d e u = (Inr (), u'))) \<and>
     (\<forall>f t u. pc_on_status pc = Some f \<longrightarrow> (\<exists>u'. f t u = (Inr (), u')))"

lemma on_backend_run: "m (px_backend p) = (x, b) \<Longrightarrow> on_backend m p = (x, p\<lparr>px_backend := b\<rparr>)"
  by (simp add: on_backend_def)

lemma on_ui_run: "m (px_ui p) = (x, u) \<Longrightarrow> on_ui m p = (x, p\<lparr>px_ui := u\<rparr>)"
  by (simp add: on_ui_def)

lemma io_try_run [simp]: "io_try m s = (Inr (fst (m s)), snd (m s))"
  by (simp add: io_try_def split: prod.splits)

lemma op_started_quiet:
  "ui_quiet pc \<Longrightarrow> \<exists>k u. op_started pc op p = (Inr k, p\<lparr>px_ui := u\<rparr>)"
proof (cases "pc_on_op pc")
  case None
  then show ?thesis by (auto simp: op_started_def intro: exI [of _ "px_ui p"])
next
  case (Some f)
  assume "ui_quiet pc"
  then obtain k u' where "f op (px_ui p) = (Inr k, u')" using Some unfolding ui_quiet_def by blast
  then show ?thesis using Some by (auto simp: op_started_def on_ui_run)
qed

lemma op_done_quiet: "ui_quiet pc \<Longrightarrow> \<exists>u. op_done pc k d e p = (Inr (), p\<lparr>px_ui := u\<rparr>)"
proof (cases "pc_on_done pc")
  case None
  then show ?thesis by (auto simp: op_done_def intro: exI [of _ "px_ui p"])
next
  case (Some f)
  assume "ui_quiet pc"
  then obtain u' where "f k d e (px_ui p) = (Inr (), u')" using Some unfolding ui_quiet_def by blast
  then show ?thesis using Some
    by (cases "k = []") (auto simp: op_done_def on_ui_run intro: exI [of _ "px_ui p"])
qed

lemma emit_status_quiet: "ui_quiet pc \<Longrightarrow> \<exists>u. emit_status pc p = (Inr (), p\<lparr>px_ui := u\<rparr>)"
proof (cases "pc_on_status pc")
  case None
  then show ?thesis by (auto simp: emit_status_def intro: exI [of _ "px_ui p"])
next
  case (Some f)
  assume "ui_quiet pc"
  then obtain u' where "f (status_text pc p) (px_ui p) = (Inr (), u')" using Some unfolding ui_quiet_def by blast
  then show ?thesis using Some by (auto simp: emit_status_def on_ui_run)
qed

lemma mark_backend_quiet:
  "ui_quiet pc \<Longrightarrow> \<exists>u b. mark_backend pc up p = (Inr (), p\<lparr>px_ui := u, px_up := b\<rparr>)"
proof -
  assume q: "ui_quiet pc"
  obtain u where "emit_status pc (p\<lparr>px_up := up\<rparr>) = (Inr (), (p\<lparr>px_up := up\<rparr>)\<lparr>px_ui := u\<rparr>)"
    using emit_status_quiet [OF q] by blast
  then have "mark_backend pc up p = (Inr (), p) \<or> mark_backend pc up p = (Inr (), p\<lparr>px_ui := u, px_up := up\<rparr>)"
    by (auto simp: mark_backend_def)
  moreover have "p = p\<lparr>px_ui := px_ui p, px_up := px_up p\<rparr>" by simp
  ultimately show ?thesis by metis
qed

text \<open>The backend after a relayed operation, and what the operation reports.\<close>

lemma relay_write_run:
  assumes q: "ui_quiet pc" and b: "regio_write (pc_backend pc) a d (px_backend p) = (res, b)"
    and ok: "0 \<le> a" "a \<le> ADDR_MAX" "d \<noteq> []" "int (length d) \<le> SIZE_MAX"
  shows "\<exists>k err p'. proxy_relay_write pc a d p = (Inr (k, err), p') \<and> px_backend p' = b \<and> (err = None \<longleftrightarrow> res = Inr ())"
proof -
  obtain k u where s: "op_started pc \<lparr>op_addr = a, op_write = True, op_size = int (length d), op_data = Some d\<rparr> p = (Inr k, p\<lparr>px_ui := u\<rparr>)"
    using op_started_quiet [OF q] by blast
  have "0 < length d" using ok(3) by simp
  then have chk: "proxy_check_addr a = None" "proxy_check_size (int (length d)) = None"
    using ok by (auto simp: proxy_check_addr_def proxy_check_size_def Suc_le_eq)
  let ?p = "p\<lparr>px_ui := u, px_backend := b\<rparr>"
  have w: "on_backend (regio_write (pc_backend pc) a d) (p\<lparr>px_ui := u\<rparr>) = (res, ?p)"
    using b by (simp add: on_backend_def)
  let ?up = "res = Inr ()"
  obtain u1 b1 where m: "mark_backend pc ?up ?p = (Inr (), ?p\<lparr>px_ui := u1, px_up := b1\<rparr>)"
    using mark_backend_quiet [OF q] by blast
  show ?thesis
  proof (cases res)
    case (Inl e)
    obtain u2 where "op_done pc k None (Some (op_error pc a ''wr'' (int (length d)) e)) (?p\<lparr>px_ui := u1, px_up := b1\<rparr>)
        = (Inr (), ?p\<lparr>px_ui := u1, px_up := b1\<rparr>\<lparr>px_ui := u2\<rparr>)"
      using op_done_quiet [OF q] by blast
    then show ?thesis using s chk w m Inl by (simp add: proxy_relay_write_def Let_def io_bind_run)
  next
    case (Inr x)
    obtain u2 where "op_done pc k (Some d) None (?p\<lparr>px_ui := u1, px_up := b1\<rparr>)
        = (Inr (), ?p\<lparr>px_ui := u1, px_up := b1\<rparr>\<lparr>px_ui := u2\<rparr>)"
      using op_done_quiet [OF q] by blast
    then show ?thesis using s chk w m Inr by (simp add: proxy_relay_write_def Let_def io_bind_run)
  qed
qed

lemma relay_read_run:
  assumes q: "ui_quiet pc" and b: "regio_read (pc_backend pc) a n (px_backend p) = (res, b)"
    and ok: "0 \<le> a" "a \<le> ADDR_MAX" "0 < n" "n \<le> SIZE_MAX"
  shows "\<exists>k err d p'. proxy_relay_read pc a n p = (Inr (k, d, err), p') \<and> px_backend p' = b \<and>
    (case res of Inl e \<Rightarrow> err \<noteq> None \<and> d = [] | Inr x \<Rightarrow> err = None \<and> d = x)"
proof -
  obtain k u where s: "op_started pc \<lparr>op_addr = a, op_write = False, op_size = n, op_data = None\<rparr> p = (Inr k, p\<lparr>px_ui := u\<rparr>)"
    using op_started_quiet [OF q] by blast
  have chk: "proxy_check_addr a = None" "proxy_check_size n = None"
    using ok by (auto simp: proxy_check_addr_def proxy_check_size_def)
  let ?p = "p\<lparr>px_ui := u, px_backend := b\<rparr>"
  have w: "on_backend (regio_read (pc_backend pc) a n) (p\<lparr>px_ui := u\<rparr>) = (res, ?p)"
    using b by (simp add: on_backend_def)
  let ?up = "\<not> isl res"
  obtain u1 b1 where m: "mark_backend pc ?up ?p = (Inr (), ?p\<lparr>px_ui := u1, px_up := b1\<rparr>)"
    using mark_backend_quiet [OF q] by blast
  show ?thesis
  proof (cases res)
    case (Inl e)
    obtain u2 where "op_done pc k None (Some (op_error pc a ''rd'' n e)) (?p\<lparr>px_ui := u1, px_up := b1\<rparr>)
        = (Inr (), ?p\<lparr>px_ui := u1, px_up := b1\<rparr>\<lparr>px_ui := u2\<rparr>)"
      using op_done_quiet [OF q] by blast
    then show ?thesis using s chk w m Inl by (simp add: proxy_relay_read_def Let_def io_bind_run)
  next
    case (Inr x)
    obtain u2 where "op_done pc k (Some x) None (?p\<lparr>px_ui := u1, px_up := b1\<rparr>)
        = (Inr (), ?p\<lparr>px_ui := u1, px_up := b1\<rparr>\<lparr>px_ui := u2\<rparr>)"
      using op_done_quiet [OF q] by blast
    then show ?thesis using s chk w m Inr by (simp add: proxy_relay_read_def Let_def io_bind_run)
  qed
qed

section \<open>The proxy as a device\<close>

locale proxy_backend = regio_object "pc_backend pc" mem dinv ok limit
  for pc :: "('b, 'u) proxy_config" and mem dinv ok limit +
  assumes quiet: "ui_quiet pc"
begin

lemma relaying_object:
  "regio_object (RelayingRegio_init pc) (\<lambda>p. mem (px_backend p)) (\<lambda>p. dinv (px_backend p)) (link_addrs ok) SIZE_MAX"
proof unfold_locales
  fix p :: "('b, 'u) proxy" and a :: int and d :: "byte list"
  assume h: "dinv (px_backend p)" "link_addrs ok a (int (length d))" "d \<noteq> []" "int (length d) \<le> SIZE_MAX"
  then have a: "ok a (int (length d))" "0 \<le> a" "a + int (length d) \<le> ADDR_MAX + 1" by (simp_all add: link_addrs_def)
  have "0 < length d" using h by simp
  then have am: "a \<le> ADDR_MAX" using a by linarith
  obtain b where b: "regio_write (pc_backend pc) a d (px_backend p) = (Inr (), b)" "dinv b"
      "mem b = mem_overlay (mem (px_backend p)) a d"
    using regio_write_law [OF h(1) a(1)] by blast
  from relay_write_run [OF quiet b(1) a(2) am h(3,4)] b(2,3)
  show "\<exists>p'. dev_write (RelayingRegio_init pc) a d p = (Inr (), p') \<and> dinv (px_backend p') \<and>
      mem (px_backend p') = mem_overlay (mem (px_backend p)) a d"
    by (auto simp: RelayingRegio_init_def Regio_init_def relaying_dev_write_def io_bind_run)
next
  fix p :: "('b, 'u) proxy" and a n :: int
  assume h: "dinv (px_backend p)" "link_addrs ok a n" "0 < n" "n \<le> SIZE_MAX" "mem_has (mem (px_backend p)) a n"
  then have a: "ok a n" "0 \<le> a" "a \<le> ADDR_MAX" by (simp_all add: link_addrs_def)
  obtain b where b: "regio_read (pc_backend pc) a n (px_backend p) = (Inr (mem_bytes (mem (px_backend p)) a n), b)"
      "dinv b" "mem b = mem (px_backend p)"
    using regio_read_law [OF h(1) a(1) h(5)] by blast
  from relay_read_run [OF quiet b(1) a(2,3) h(3,4)] b(2,3)
  show "\<exists>p'. dev_read (RelayingRegio_init pc) a n p = (Inr (mem_bytes (mem (px_backend p)) a n), p') \<and>
      dinv (px_backend p') \<and> mem (px_backend p') = mem (px_backend p)"
    by (auto simp: RelayingRegio_init_def Regio_init_def relaying_dev_read_def io_bind_run)
next
  fix a n b k assume "link_addrs ok a n" "a \<le> b" "0 \<le> k" "b + k \<le> a + n"
  then show "link_addrs ok b k" using ok_sub [of a n b k] by (auto simp: link_addrs_def)
qed (auto simp: RelayingRegio_init_def Regio_init_def REGIO_MTU_DEFAULT_def SIZE_MAX_def)

lemma proxied_remote:
  "tcp_remote (RelayingRegio_init pc) (\<lambda>p. mem (px_backend p)) (\<lambda>p. dinv (px_backend p)) (link_addrs ok) SIZE_MAX"
  by (rule tcp_remote.intro [OF relaying_object])

end

text \<open>A proxy without callbacks in front of a file, and in front of another server.\<close>

interpretation file_proxy:
  proxy_backend "RegioProxy_init RegioCache_init desc Kind_file None None err" mem_of regions_ok addr_space "UINT32_MAX + 1"
  for desc err
proof -
  have "proxy_backend_axioms (RegioProxy_init RegioCache_init desc Kind_file None None err)"
    by unfold_locales (simp add: ui_quiet_def RegioProxy_init_def)
  then show "proxy_backend (RegioProxy_init RegioCache_init desc Kind_file None None err)
      mem_of regions_ok addr_space (UINT32_MAX + 1)"
    using rc.regio_object_axioms by (simp add: proxy_backend_def RegioProxy_init_def)
qed

interpretation tcp_proxy:
  proxy_backend "RegioProxy_init (RegioTcpClient_init RegioCache_init) desc Kind_tcp (Some tcp_connect)
      (Some (tcp_close RegioCache_init)) err"
    "\<lambda>lk. mem_of (link_dev RegioCache_init lk)" "link_ok RegioCache_init regions_ok" "link_addrs addr_space" SIZE_MAX
  for desc err
proof -
  let ?pc = "RegioProxy_init (RegioTcpClient_init RegioCache_init) desc Kind_tcp (Some tcp_connect)
      (Some (tcp_close RegioCache_init)) err"
  have "proxy_backend_axioms ?pc"
    by unfold_locales (simp add: ui_quiet_def RegioProxy_init_def)
  then show "proxy_backend ?pc (\<lambda>lk. mem_of (link_dev RegioCache_init lk)) (link_ok RegioCache_init regions_ok)
      (link_addrs addr_space) SIZE_MAX"
    using tcp_cache.regio_object_axioms by (simp add: proxy_backend_def RegioProxy_init_def)
qed

section \<open>What the user interface is told\<close>

datatype ui_event =
    Ui_op regio_op
  | Ui_done string "byte list option" "string option"
  | Ui_status string

definition logging_proxy ::
  "string \<Rightarrow> ('b, ui_event list) proxy_config \<Rightarrow> ('b, ui_event list) proxy_config" where
  "logging_proxy key pc =
     pc\<lparr>pc_on_op := Some (\<lambda>op u. (Inr key, u @ [Ui_op op])),
        pc_on_done := Some (\<lambda>k d e u. (Inr (), u @ [Ui_done k d e])),
        pc_on_status := Some (\<lambda>t u. (Inr (), u @ [Ui_status t]))\<rparr>"

lemma logging_simps [simp]:
  "op_started (logging_proxy key pc) op p = (Inr key, p\<lparr>px_ui := px_ui p @ [Ui_op op]\<rparr>)"
  "key \<noteq> [] \<Longrightarrow> op_done (logging_proxy key pc) key d e p = (Inr (), p\<lparr>px_ui := px_ui p @ [Ui_done key d e]\<rparr>)"
  "pc_backend (logging_proxy key pc) = pc_backend pc"
  by (simp_all add: op_started_def op_done_def logging_proxy_def on_ui_def)

lemma logging_mark:
  "\<exists>sts b. mark_backend (logging_proxy key pc) up p = (Inr (), p\<lparr>px_ui := px_ui p @ map Ui_status sts, px_up := b\<rparr>)"
proof -
  have e: "emit_status (logging_proxy key pc) p =
      (Inr (), p\<lparr>px_ui := px_ui p @ map Ui_status [status_text (logging_proxy key pc) p]\<rparr>)" for p
    by (simp add: emit_status_def logging_proxy_def on_ui_def)
  have "p = p\<lparr>px_ui := px_ui p @ map Ui_status [], px_up := px_up p\<rparr>" by simp
  then have "\<exists>sts b. p = p\<lparr>px_ui := px_ui p @ map Ui_status sts, px_up := b\<rparr>" by blast
  moreover have "\<exists>sts b. p\<lparr>px_up := up, px_ui := px_ui p @ map Ui_status [status_text (logging_proxy key pc) (p\<lparr>px_up := up\<rparr>)]\<rparr>
      = p\<lparr>px_ui := px_ui p @ map Ui_status sts, px_up := b\<rparr>"
    by (intro exI [of _ "[status_text (logging_proxy key pc) (p\<lparr>px_up := up\<rparr>)]"] exI [of _ up]) simp
  ultimately show ?thesis by (auto simp: mark_backend_def e)
qed

lemma logging_relay_write:
  assumes key: "key \<noteq> []" and b: "regio_write (pc_backend pc) a d (px_backend p) = (res, b)"
  shows "\<exists>err sts p'. proxy_relay_write (logging_proxy key pc) a d p = (Inr (key, err), p') \<and>
    px_ui p' = px_ui p @ [Ui_op \<lparr>op_addr = a, op_write = True, op_size = int (length d), op_data = Some d\<rparr>]
      @ map Ui_status sts @ [Ui_done key (if err = None then Some d else None) err] \<and>
    (err = None \<longleftrightarrow> 0 \<le> a \<and> a \<le> ADDR_MAX \<and> d \<noteq> [] \<and> int (length d) \<le> SIZE_MAX \<and> res = Inr ())"
proof (cases "proxy_check_addr a = None \<and> proxy_check_size (int (length d)) = None")
  case True
  let ?op = "\<lparr>op_addr = a, op_write = True, op_size = int (length d), op_data = Some d\<rparr>"
  let ?p = "p\<lparr>px_ui := px_ui p @ [Ui_op ?op], px_backend := b\<rparr>"
  have ok: "0 \<le> a" "a \<le> ADDR_MAX" "d \<noteq> []" "int (length d) \<le> SIZE_MAX"
    using True by (auto simp: proxy_check_addr_def proxy_check_size_def split: if_splits)
  have w: "on_backend (regio_write (pc_backend pc) a d) (p\<lparr>px_ui := px_ui p @ [Ui_op ?op]\<rparr>) = (res, ?p)"
    using b by (simp add: on_backend_def)
  obtain sts b1 where "mark_backend (logging_proxy key pc) (res = Inr ()) ?p
      = (Inr (), ?p\<lparr>px_ui := px_ui ?p @ map Ui_status sts, px_up := b1\<rparr>)"
    using logging_mark by blast
  then show ?thesis using True key w ok
    by (cases res) (simp_all add: proxy_relay_write_def Let_def io_bind_run, blast+)
next
  case False
  then have bad: "\<not> (0 \<le> a \<and> a \<le> ADDR_MAX \<and> d \<noteq> [] \<and> int (length d) \<le> SIZE_MAX)"
    by (auto simp: proxy_check_addr_def proxy_check_size_def Suc_le_eq)
  obtain err where "(case proxy_check_addr a of Some err \<Rightarrow> Some err | None \<Rightarrow> proxy_check_size (int (length d))) = Some err"
    using False by (cases "proxy_check_addr a") auto
  then show ?thesis using key bad
    by (auto simp: proxy_relay_write_def Let_def io_bind_run intro!: exI [of _ "[]"])
qed

text \<open>A read the backend fails.\<close>

lemma relaying_read_fails:
  assumes q: "ui_quiet pc" and ok: "0 \<le> a" "a \<le> ADDR_MAX" "0 < n" "n \<le> SIZE_MAX"
    and b: "regio_read (pc_backend pc) a n (px_backend p) = (Inl e, b)"
  shows "\<exists>p'. dev_read (RelayingRegio_init pc) a n p = (Inr [], p') \<and>
    regio_read1 (RelayingRegio_init pc) a n p = (Inl AssertionError, p')"
  using relay_read_run [OF q b ok] ok(3)
  by (auto simp: RelayingRegio_init_def Regio_init_def relaying_dev_read_def regio_read1_def io_bind_run)

section \<open>Properties\<close>

text \<open>
  C14: a client of a proxy works as on the backend of the proxy: with a quiet user interface and a
  cache behind it, a write through a TCP connection to the proxy of any length and alignment
  returns, reading the range back gives the data, and the cache holds the data over its old bytes.
\<close>
theorem proxy_transparent:
  assumes "ui_quiet pc" and "pc_backend pc = RegioCache_init"
    and "link_ok (RelayingRegio_init pc) (\<lambda>p. regions_ok (px_backend p)) lk"
    and "0 \<le> a" and "a + int (length d) \<le> ADDR_MAX + 1"
  shows "\<exists>lk1 lk2. regio_write (RegioTcpClient_init (RelayingRegio_init pc)) a d lk = (Inr (), lk1) \<and>
    mem_of (px_backend (link_dev (RelayingRegio_init pc) lk1)) =
      mem_overlay (mem_of (px_backend (link_dev (RelayingRegio_init pc) lk))) a d \<and>
    regio_read (RegioTcpClient_init (RelayingRegio_init pc)) a (int (length d)) lk1 = (Inr d, lk2)"
proof -
  have pb: "proxy_backend pc mem_of regions_ok addr_space (UINT32_MAX + 1)"
    using rc.regio_object_axioms assms(1,2) by (simp add: proxy_backend_def proxy_backend_axioms_def)
  note obj = tcp_remote.tcp_client_object [OF proxy_backend.proxied_remote [OF pb]]
  have ok: "link_addrs (link_addrs addr_space) a (int (length d))"
    using assms by (simp add: link_addrs_def addr_space_def UINT32_MAX_def ADDR_MAX_def)
  from regio_object.regio_write_law [OF obj assms(3) ok] regio_object.regio_write_read [OF obj assms(3) ok]
  show ?thesis by auto
qed

definition example_proxy_link :: "(regions, unit) proxy link" where
  "example_proxy_link = \<lparr>lk_writer = True, lk_listening = True, lk_wire = [], lk_cut = map (\<lambda>b. [b]), lk_alive = True,
     lk_client = Client_init \<lparr>sk_fd = 4, sk_sent = [], sk_broken = False\<rparr> [],
     lk_dev = \<lparr>px_backend = [], px_ui = (), px_closed = False, px_listening = True, px_up = False, px_server = Some False\<rparr>\<rparr>"

theorem proxy_transparent_witness:
  "let pc = RegioProxy_init RegioCache_init ''cache'' Kind_file None None (\<lambda>e. ''error'') in
    \<exists>lk1 lk2. regio_write (RegioTcpClient_init (RelayingRegio_init pc)) 8 [1, 2] example_proxy_link = (Inr (), lk1) \<and>
    mem_of (px_backend (link_dev (RelayingRegio_init pc) lk1)) =
      mem_overlay (mem_of (px_backend (link_dev (RelayingRegio_init pc) example_proxy_link))) 8 [1, 2] \<and>
    regio_read (RegioTcpClient_init (RelayingRegio_init pc)) 8 (int (length [1 :: byte, 2])) lk1 = (Inr [1, 2], lk2)"
proof -
  let ?pc = "RegioProxy_init RegioCache_init ''cache'' Kind_file None None (\<lambda>e. ''error'')"
  have "concat (map (\<lambda>b. [b]) s) = s" for s :: "byte list" by (induction s) auto
  then have "link_ok (RelayingRegio_init ?pc) (\<lambda>p. regions_ok (px_backend p)) example_proxy_link"
    by (simp add: link_ok_def link_pending_def link_served_def link_dev_def Client_init_def regions_ok_def
        example_proxy_link_def)
  then show ?thesis unfolding Let_def
    by (intro proxy_transparent) (simp_all add: ui_quiet_def RegioProxy_init_def ADDR_MAX_def)
qed

text \<open>
  A write relayed through a proxy never raises, whatever the backend does; the user interface
  is told of it exactly once before and once after, the first with the operation, the last with
  the data when it was done and with the error otherwise. It is done exactly when address and
  size are in range and the backend did it.
\<close>
theorem proxy_write_reported:
  assumes "key \<noteq> []" and "regio_write (pc_backend pc) a d (px_backend p) = (res, b)"
  shows "\<exists>err sts p'. proxy_relay_write (logging_proxy key pc) a d p = (Inr (key, err), p') \<and>
    px_ui p' = px_ui p @ [Ui_op \<lparr>op_addr = a, op_write = True, op_size = int (length d), op_data = Some d\<rparr>]
      @ map Ui_status sts @ [Ui_done key (if err = None then Some d else None) err] \<and>
    (err = None \<longleftrightarrow> 0 \<le> a \<and> a \<le> ADDR_MAX \<and> d \<noteq> [] \<and> int (length d) \<le> SIZE_MAX \<and> res = Inr ())"
  by (rule logging_relay_write [OF assms])

theorem proxy_write_reported_witness:
  "\<exists>res b err sts p'. proxy_relay_write (logging_proxy ''row1'' (RegioProxy_init RegioCache_init ''cache'' Kind_file None None (\<lambda>e. ''error'')))
      4 [7] \<lparr>px_backend = [], px_ui = [], px_closed = False, px_listening = True, px_up = False, px_server = None\<rparr>
      = (Inr (''row1'', err), p') \<and>
    px_ui p' = [] @ [Ui_op \<lparr>op_addr = 4, op_write = True, op_size = int (length [7 :: byte]), op_data = Some [7]\<rparr>]
      @ map Ui_status sts @ [Ui_done ''row1'' (if err = None then Some [7] else None) err] \<and>
    (err = None \<longleftrightarrow> 0 \<le> (4 :: int) \<and> 4 \<le> ADDR_MAX \<and> [7 :: byte] \<noteq> [] \<and> int (length [7 :: byte]) \<le> SIZE_MAX \<and> res = Inr ()) \<and>
    regio_write RegioCache_init 4 [7] [] = (res, b)"
proof -
  obtain res b where b: "regio_write RegioCache_init 4 [7] [] = (res, b)" by (metis prod.collapse)
  from proxy_write_reported [of "''row1''" "RegioProxy_init RegioCache_init ''cache'' Kind_file None None (\<lambda>e. ''error'')"
      4 "[7]" "\<lparr>px_backend = [], px_ui = [], px_closed = False, px_listening = True, px_up = False, px_server = None\<rparr>" res b] b
  show ?thesis by (auto simp: RegioProxy_init_def)
qed

text \<open>
  A read that the backend of a proxy fails yields an empty payload, and the object the server
  drives turns it into an \<open>AssertionError\<close>, so the server has no reply with the error flag to send.
\<close>
theorem proxy_failed_read:
  assumes "ui_quiet pc" and "0 \<le> a" and "a \<le> ADDR_MAX" and "0 < n" and "n \<le> SIZE_MAX"
    and "regio_read (pc_backend pc) a n (px_backend p) = (Inl e, b)"
  shows "\<exists>p'. dev_read (RelayingRegio_init pc) a n p = (Inr [], p') \<and>
    regio_read1 (RelayingRegio_init pc) a n p = (Inl AssertionError, p')"
  by (rule relaying_read_fails [OF assms])

theorem proxy_failed_read_witness:
  "\<exists>p'. dev_read (RelayingRegio_init (RegioProxy_init RegioCache_init ''cache'' Kind_file None None (\<lambda>e. ''error''))) 4 1
      \<lparr>px_backend = [], px_ui = (), px_closed = False, px_listening = True, px_up = False, px_server = None\<rparr> = (Inr [], p') \<and>
    regio_read1 (RelayingRegio_init (RegioProxy_init RegioCache_init ''cache'' Kind_file None None (\<lambda>e. ''error''))) 4 1
      \<lparr>px_backend = [], px_ui = (), px_closed = False, px_listening = True, px_up = False, px_server = None\<rparr>
      = (Inl AssertionError, p')"
proof (rule proxy_failed_read)
  have "regio_read RegioCache_init 4 1 [] = (Inl ValueError, [])"
    by (subst cache_regio_read_spec) (simp_all add: regions_ok_def UINT32_MAX_def mem_has_def)
  then show "regio_read (pc_backend (RegioProxy_init RegioCache_init ''cache'' Kind_file None None (\<lambda>e. ''error''))) 4 1
     (px_backend \<lparr>px_backend = [], px_ui = (), px_closed = False, px_listening = True, px_up = False, px_server = None\<rparr>)
     = (Inl ValueError, [])"
    by (simp add: RegioProxy_init_def)
qed (simp_all add: ui_quiet_def RegioProxy_init_def ADDR_MAX_def SIZE_MAX_def)

end
