(* ===== verification/RegioUi.thy ===== *)
theory RegioUi
  imports RegioProxy
begin

text \<open>
  \<^verbatim>\<open>pip/regio_ui/src/regio_ui/tap.py\<close> and \<^verbatim>\<open>values.py\<close>. A tap sits in the callbacks of a device the
  host application owns; its world is the world of the device beside the state of the user
  interface. The theory shows that a tap does not change what the device does and that it reports
  every piece of a split operation. \<open>parse_num\<close> is the parser of the numbers of the form fields.
\<close>

section \<open>The tap\<close>

record 'u tap =
  tp_on_op :: "(regio_op \<Rightarrow> ('u, string) io) option"
  tp_on_done :: "(string \<Rightarrow> byte list option \<Rightarrow> string option \<Rightarrow> ('u, unit) io) option"
  tp_err :: "exn \<Rightarrow> string"

definition io_snd :: "('b, 'a) io \<Rightarrow> ('w \<times> 'b, 'a) io" where
  "io_snd m = (\<lambda>(w, b). case m b of (x, b') \<Rightarrow> (x, (w, b')))"

definition tap_op_started :: "'u tap \<Rightarrow> regio_op \<Rightarrow> ('w \<times> 'u, string) io" where
  "tap_op_started tp op = (case tp_on_op tp of None \<Rightarrow> io_return [] | Some f \<Rightarrow> io_snd (f op))"

definition tap_op_done :: "'u tap \<Rightarrow> string \<Rightarrow> byte list option \<Rightarrow> string option \<Rightarrow> ('w \<times> 'u, unit) io" where
  "tap_op_done tp key data error =
     (case tp_on_done tp of None \<Rightarrow> io_return ()
      | Some f \<Rightarrow> if key \<noteq> [] then io_snd (f key data error) else io_return ())"

definition tap_write :: "'u tap \<Rightarrow> int \<Rightarrow> byte list \<Rightarrow> ('w \<times> 'u, int) io" where
  "tap_write tp addr data =
     (let op = \<lparr>op_addr = addr, op_write = True, op_size = int (length data), op_data = Some data\<rparr> in
      io_bind (tap_op_started tp op) (\<lambda>key.
      io_bind (tap_op_done tp key (op_data op) None) (\<lambda>_. io_return 0)))"

definition tap_read :: "'u tap \<Rightarrow> int \<Rightarrow> byte list \<Rightarrow> ('w \<times> 'u, int) io" where
  "tap_read tp addr data =
     (let op = \<lparr>op_addr = addr, op_write = False, op_size = int (length data), op_data = Some data\<rparr> in
      io_bind (tap_op_started tp op) (\<lambda>key.
      io_bind (tap_op_done tp key (Some data) None) (\<lambda>_. io_return 0)))"

definition RegioTap_init :: "'u tap \<Rightarrow> ('w \<times> 'u) regio \<Rightarrow> ('w \<times> 'u) regio" where
  "RegioTap_init tp r =
     add_post_read_callback_func (tap_read tp) (add_pre_write_callback_func (tap_write tp) r)"

definition tap_error :: "'u tap \<Rightarrow> int \<Rightarrow> string \<Rightarrow> int \<Rightarrow> exn \<Rightarrow> string" where
  "tap_error tp addr op sz e =
     ''0x'' @ py_fmt0 16 False 0 addr @ '' '' @ op @ '' '' @ py_str_int sz @ '' B: '' @ tp_err tp e"

definition tap_relay_write ::
  "'u tap \<Rightarrow> ('w \<times> 'u) regio \<Rightarrow> int \<Rightarrow> byte list \<Rightarrow> ('w \<times> 'u, string \<times> string option) io" where
  "tap_relay_write tp r addr data =
     io_bind (io_try (regio_write r addr data)) (\<lambda>res.
       case res of
         Inl e \<Rightarrow> io_return ([], Some (tap_error tp addr ''wr'' (int (length data)) e))
       | Inr _ \<Rightarrow> io_return ([], None))"

definition tap_relay_read ::
  "'u tap \<Rightarrow> ('w \<times> 'u) regio \<Rightarrow> int \<Rightarrow> int \<Rightarrow> ('w \<times> 'u, string \<times> byte list \<times> string option) io" where
  "tap_relay_read tp r addr sz =
     io_bind (io_try (regio_read r addr sz)) (\<lambda>res.
       case res of
         Inl e \<Rightarrow> io_return ([], [], Some (tap_error tp addr ''rd'' sz e))
       | Inr payload \<Rightarrow> io_return ([], payload, None))"

text \<open>The device of the host application, beside the user interface.\<close>

definition beside_ui :: "'w regio \<Rightarrow> ('w \<times> 'u) regio" where
  "beside_ui r =
     \<lparr>log_regio = log_regio r, error_on_write = error_on_write r, pre_write_callback = None,
      post_read_callback = None, mtu = mtu r,
      dev_write = (\<lambda>a d. io_fst (dev_write r a d)), dev_read = (\<lambda>a n. io_fst (dev_read r a n))\<rparr>"

text \<open>A user interface that keeps a log.\<close>

definition logging_tap :: "string \<Rightarrow> (exn \<Rightarrow> string) \<Rightarrow> ui_event list tap" where
  "logging_tap key err =
     \<lparr>tp_on_op = Some (\<lambda>op u. (Inr key, u @ [Ui_op op])),
      tp_on_done = Some (\<lambda>k d e u. (Inr (), u @ [Ui_done k d e])), tp_err = err\<rparr>"

definition tap_events :: "string \<Rightarrow> bool \<Rightarrow> int \<Rightarrow> byte list \<Rightarrow> ui_event list" where
  "tap_events key wr a d =
     [Ui_op \<lparr>op_addr = a, op_write = wr, op_size = int (length d), op_data = Some d\<rparr>, Ui_done key (Some d) None]"

lemma logging_tap_runs:
  assumes "key \<noteq> []"
  shows "tap_write (logging_tap key err) a d (w, u) = (Inr 0, (w, u @ tap_events key True a d))"
    and "tap_read (logging_tap key err) a d (w, u) = (Inr 0, (w, u @ tap_events key False a d))"
  using assms
  by (simp_all add: tap_write_def tap_read_def tap_op_started_def tap_op_done_def logging_tap_def
      io_snd_def io_bind_run tap_events_def Let_def)

lemma tapped_write1:
  assumes key: "key \<noteq> []" and r: "pre_write_callback r = None" "\<not> error_on_write r"
  shows "regio_write1 (RegioTap_init (logging_tap key err) (beside_ui r)) a d (w, u) =
    (fst (regio_write1 r a d w), (snd (regio_write1 r a d w), u @ tap_events key True a d))"
  using r
  by (simp add: logging_tap_runs [OF key] regio_write1_def RegioTap_init_def add_post_read_callback_func_def
      add_pre_write_callback_func_def beside_ui_def io_bind_run)

text \<open>The log of a split write: one pair of events for every piece that was issued.\<close>

lemma tapped_write_pieces:
  assumes key: "key \<noteq> []" and r: "pre_write_callback r = None" "\<not> error_on_write r"
    and run: "io_forM (\<lambda>(x, c). regio_write1 r x c) ps w = (Inr (), w')"
  shows "io_forM (\<lambda>(x, c). regio_write1 (RegioTap_init (logging_tap key err) (beside_ui r)) x c) ps (w, u) =
    (Inr (), (w', u @ concat (map (\<lambda>(x, c). tap_events key True x c) ps)))"
  using run
proof (induction ps arbitrary: w u)
  case (Cons p ps)
  obtain x c where p: "p = (x, c)" by (cases p)
  obtain w1 where w1: "regio_write1 r x c w = (Inr (), w1)"
    and rest: "io_forM (\<lambda>(x, c). regio_write1 r x c) ps w1 = (Inr (), w')"
    using Cons.prems by (auto simp: p io_bind_Inr_iff)
  show ?case
    using Cons.IH [OF rest] tapped_write1 [OF key r, of err x c w u] w1 by (simp add: p io_bind_run)
qed simp

section \<open>Numbers of the form\<close>

definition digits_in :: "nat \<Rightarrow> string \<Rightarrow> bool" where
  "digits_in base s \<longleftrightarrow> s \<noteq> [] \<and> list_all (\<lambda>c. \<exists>d. char_digit c = Some d \<and> d < base) s"

lemma digits_in_code [code]:
  "digits_in base s \<longleftrightarrow> s \<noteq> [] \<and> list_all (\<lambda>c. case char_digit c of None \<Rightarrow> False | Some d \<Rightarrow> d < base) s"
  by (auto simp: digits_in_def list_all_iff split: option.splits)

definition parse_num :: "string \<Rightarrow> (int \<times> int) option" where
  "parse_num text =
     (let s = py_strip text; prefix = take 2 s; digits = drop 2 s in
      if (prefix = ''0x'' \<or> prefix = ''0X'') \<and> digits_in 16 digits
      then Some (int (the (read_digits 16 0 digits)), max ((int (length digits) + 1) div 2) 1)
      else if (prefix = ''0b'' \<or> prefix = ''0B'') \<and> digits_in 2 digits
      then Some (int (the (read_digits 2 0 digits)), max ((int (length digits) + 7) div 8) 1)
      else if digits_in 10 s then Some (int (the (read_digits 10 0 s)), 4)
      else None)"

lemma read_digits_bound: "read_digits b acc s = Some n \<Longrightarrow> n < (acc + 1) * b ^ length s"
proof (induction b acc s rule: read_digits.induct)
  case (2 b acc c cs)
  then obtain d where d: "char_digit c = Some d" "d < b" by (auto split: option.splits if_splits)
  then have "n < (b * acc + d + 1) * b ^ length cs" using 2 by (auto split: if_splits)
  also have "\<dots> \<le> (b * acc + b) * b ^ length cs" using d by (intro mult_right_mono) auto
  finally show ?case by (simp add: algebra_simps)
qed simp

lemma read_digits_all:
  "list_all (\<lambda>c. \<exists>d. char_digit c = Some d \<and> d < b) s \<Longrightarrow> \<exists>n. read_digits b acc s = Some n"
proof (induction s arbitrary: acc)
  case (Cons c cs)
  then obtain d where "char_digit c = Some d" "d < b" by auto
  then show ?case using Cons.IH [of "b * acc + d"] Cons.prems by simp
qed simp

lemma digits_in_read: "digits_in b s \<Longrightarrow> \<exists>n. read_digits b 0 s = Some n"
  by (simp add: digits_in_def read_digits_all)

text \<open>A value written in hexadecimal or binary digits fits the inferred size.\<close>

lemma parse_num_fits:
  assumes "parse_num text = Some (v, n)" and "take 2 (py_strip text) \<in> {''0x'', ''0X'', ''0b'', ''0B''}"
  shows "0 \<le> v \<and> v < 256 ^ nat n \<and> 1 \<le> n"
proof -
  let ?ds = "drop 2 (py_strip text)"
  have no10: "\<not> digits_in 10 (py_strip text)"
  proof
    assume "digits_in 10 (py_strip text)"
    then have "list_all (\<lambda>c. \<exists>d. char_digit c = Some d \<and> d < 10) (take 2 (py_strip text) @ ?ds)"
      by (simp add: digits_in_def)
    then have "list_all (\<lambda>c. \<exists>d. char_digit c = Some d \<and> d < 10) (take 2 (py_strip text))"
      by (simp only: list_all_append)
    moreover have "char_digit CHR ''x'' = Some 33" "char_digit CHR ''X'' = Some 33"
        "char_digit CHR ''b'' = Some 11" "char_digit CHR ''B'' = Some 11"
      by (simp_all add: char_digit_def)
    ultimately show False using assms(2) by (elim insertE emptyE) simp_all
  qed
  consider (hex) "digits_in 16 ?ds" "v = int (the (read_digits 16 0 ?ds))" "n = max ((int (length ?ds) + 1) div 2) 1"
    | (bin) "digits_in 2 ?ds" "v = int (the (read_digits 2 0 ?ds))" "n = max ((int (length ?ds) + 7) div 8) 1"
    using assms(1) no10 by (auto simp: parse_num_def Let_def split: if_splits)
  then show ?thesis
  proof cases
    case hex
    then obtain k where k: "read_digits 16 0 ?ds = Some k" using digits_in_read by blast
    have "k < 16 ^ length ?ds" using read_digits_bound [OF k] by simp
    moreover have "length ?ds \<le> 2 * nat n" using hex(3) by auto
    then have "(16::nat) ^ length ?ds \<le> 16 ^ (2 * nat n)" by (intro power_increasing) auto
    ultimately have "k < 256 ^ nat n" by (simp add: power_mult)
    then have "int k < int (256 ^ nat n)" by (simp only: of_nat_less_iff)
    then show ?thesis using hex k by simp
  next
    case bin
    then obtain k where k: "read_digits 2 0 ?ds = Some k" using digits_in_read by blast
    have "k < 2 ^ length ?ds" using read_digits_bound [OF k] by simp
    moreover have "length ?ds \<le> 8 * nat n" using bin(3) by auto
    then have "(2::nat) ^ length ?ds \<le> 2 ^ (8 * nat n)" by (intro power_increasing) auto
    ultimately have "k < 256 ^ nat n" by (simp add: power_mult)
    then have "int k < int (256 ^ nat n)" by (simp only: of_nat_less_iff)
    then show ?thesis using bin k by simp
  qed
qed

section \<open>Properties\<close>



text \<open>
  A number the user types in hexadecimal or binary digits, with any leading zeros and any
  surrounding white space, always fits the number of bytes inferred from its digits, so sending
  it as that many bytes loses nothing.
\<close>
theorem parse_num_size_fits:
  assumes "parse_num text = Some (v, n)" and "take 2 (py_strip text) \<in> {''0x'', ''0X'', ''0b'', ''0B''}"
  shows "0 \<le> v \<and> v < 256 ^ nat n \<and> 1 \<le> n"
  by (rule parse_num_fits [OF assms])

theorem parse_num_size_fits_witness:
  "parse_num '' 0x0A0 '' = Some (160, 2) \<and> 0 \<le> (160 :: int) \<and> (160 :: int) < 256 ^ nat 2 \<and> 1 \<le> (2 :: int)"
proof -
  have p: "parse_num '' 0x0A0 '' = Some (160, 2)"
    by (simp add: parse_num_def py_strip_def is_py_space_def digits_in_def char_digit_def Let_def)
  have "take 2 (py_strip '' 0x0A0 '') = ''0x''" by (simp add: py_strip_def is_py_space_def)
  then show ?thesis using p parse_num_size_fits [OF p] by simp
qed

end
