(* ===== verification/Head.thy ===== *)
theory Head
  imports Basic PyText
begin

text \<open>
  \<^verbatim>\<open>pip/skmap/src/skmap/head.py\<close>: the 16 byte head at the start of every module of a register map.
  A Python \<^verbatim>\<open>str\<close> made by \<^verbatim>\<open>bytes.decode()\<close> is kept as its UTF-8 bytes, so decoding is the
  validity check of UTF-8. \<open>head_bytes\<close> is the layout the comment of the file draws; the theory
  shows that parsing inverts it and rejects everything else that is reserved.
\<close>

definition SIZE_WORD :: int where "SIZE_WORD = 4"
definition SIZE_HEAD_WORDS :: int where "SIZE_HEAD_WORDS = 4"
definition SIZE_HEAD :: int where "SIZE_HEAD = SIZE_HEAD_WORDS * SIZE_WORD"
definition SIZE_ID :: int where "SIZE_ID = 8"
definition SIZE_CHECKSUM :: int where "SIZE_CHECKSUM = 2"
definition SYNC :: int where "SYNC = 0xD8"
definition VERSION_BITS :: nat where "VERSION_BITS = 4"

lemmas head_sizes = SIZE_WORD_def SIZE_HEAD_WORDS_def SIZE_HEAD_def SIZE_ID_def SIZE_CHECKSUM_def

section \<open>UTF-8\<close>

definition is_cont :: "byte \<Rightarrow> bool" where
  "is_cont b \<longleftrightarrow> 0x80 \<le> b \<and> b < 0xC0"

text \<open>Well-formed sequences: no overlong forms, no surrogates, nothing above \<open>0x10FFFF\<close>.\<close>

fun utf8_valid :: "byte list \<Rightarrow> bool" where
  "utf8_valid [] = True"
| "utf8_valid (b # bs) =
     (if b < 0x80 then utf8_valid bs
      else if 0xC2 \<le> b \<and> b < 0xE0 then (case bs of c # r \<Rightarrow> is_cont c \<and> utf8_valid r | _ \<Rightarrow> False)
      else if 0xE0 \<le> b \<and> b < 0xF0 then
        (case bs of c # d # r \<Rightarrow> is_cont c \<and> is_cont d \<and> (b = 0xE0 \<longrightarrow> 0xA0 \<le> c) \<and> (b = 0xED \<longrightarrow> c < 0xA0)
             \<and> utf8_valid r
         | _ \<Rightarrow> False)
      else if 0xF0 \<le> b \<and> b < 0xF5 then
        (case bs of c # d # e # r \<Rightarrow> is_cont c \<and> is_cont d \<and> is_cont e \<and> (b = 0xF0 \<longrightarrow> 0x90 \<le> c)
             \<and> (b = 0xF4 \<longrightarrow> c < 0x90) \<and> utf8_valid r
         | _ \<Rightarrow> False)
      else False)"

definition byte_char :: "byte \<Rightarrow> char" where
  "byte_char b = char_of (unat b)"

definition bytes_decode :: "byte list \<Rightarrow> string res" where
  "bytes_decode bs = (if utf8_valid bs then Inr (map byte_char bs) else Inl UnicodeError)"

lemma utf8_valid_ascii: "\<forall>b \<in> set bs. b < 0x80 \<Longrightarrow> utf8_valid bs"
  by (induction bs rule: utf8_valid.induct) auto

section \<open>The head\<close>

text \<open>The loop of \<^verbatim>\<open>get_id_str\<close>: \<open>l\<close> counts down while the byte before it is zero.\<close>

fun id_len :: "byte list \<Rightarrow> nat \<Rightarrow> nat res" where
  "id_len i 0 = rbind (py_index i (- 1)) (\<lambda>b. if b = 0 then Inl AssertionError else Inr 0)"
| "id_len i (Suc l) =
     rbind (py_index i (int l)) (\<lambda>b.
       if b = 0 then rbind (rassert (l \<noteq> 0)) (\<lambda>_. id_len i l) else Inr (Suc l))"

definition get_id_str :: "byte list \<Rightarrow> string res" where
  "get_id_str i = rbind (id_len i (length i)) (\<lambda>l. bytes_decode (take l i))"

record head =
  hd_id :: string
  hd_sync :: int
  hd_version :: int
  hd_flags :: int
  hd_checksum :: int
  hd_len_kids :: int
  hd_len_sub :: int
  hd_len_k :: int
  hd_len_var :: int

definition byte_at :: "byte list \<Rightarrow> int \<Rightarrow> int res" where
  "byte_at data i = rbind (py_index data i) (\<lambda>b. Inr (uint b))"

definition Head_init :: "byte list \<Rightarrow> head res" where
  "Head_init data =
     rbind (get_id_str (py_slice data 0 SIZE_ID)) (\<lambda>i.
     rbind (byte_at data SIZE_ID) (\<lambda>sync.
     rbind (byte_at data (SIZE_ID + 1)) (\<lambda>version_flags.
       let version = version_flags AND (push_bit VERSION_BITS 1 - 1);
           flags = drop_bit VERSION_BITS version_flags in
     rbind (rassert (flags = 0)) (\<lambda>_.
       let checksum = le_to_int (py_slice data (SIZE_ID + 2) (SIZE_ID + 2 + SIZE_CHECKSUM));
           ii = SIZE_ID + 2 + SIZE_CHECKSUM in
     rbind (byte_at data ii) (\<lambda>len_kids.
     rbind (byte_at data (ii + 1)) (\<lambda>len_sub.
     rbind (byte_at data (ii + 2)) (\<lambda>len_k.
     rbind (byte_at data (ii + 3)) (\<lambda>len_var.
       Inr \<lparr>hd_id = i, hd_sync = sync, hd_version = version, hd_flags = flags, hd_checksum = checksum,
            hd_len_kids = len_kids, hd_len_sub = len_sub, hd_len_k = len_k, hd_len_var = len_var\<rparr>))))))))"

definition valid_sync :: "head \<Rightarrow> bool" where
  "valid_sync h \<longleftrightarrow> hd_sync h = SYNC"

definition head_valid :: "head \<Rightarrow> bool" where
  "head_valid h \<longleftrightarrow> valid_sync h"

definition checksum_str :: "head \<Rightarrow> string" where
  "checksum_str h = py_fmt0 16 True SIZE_CHECKSUM (hd_checksum h)"

definition module_size_words :: "head \<Rightarrow> int" where
  "module_size_words h = SIZE_HEAD_WORDS + hd_len_sub h + hd_len_kids h + hd_len_k h + hd_len_var h"

definition module_size :: "head \<Rightarrow> int" where
  "module_size h = module_size_words h * SIZE_WORD"

text \<open>\<^verbatim>\<open>__repr__\<close> of a head with a valid sync byte.\<close>

definition head_repr :: "head \<Rightarrow> string" where
  "head_repr h =
     ''{'' @ hd_id h @ '', v'' @ py_str_int (hd_version h) @ '', c='' @ checksum_str h @ '' l=''
       @ py_str_int (hd_len_sub h) @ ''s+'' @ py_str_int (hd_len_kids h) @ ''c+''
       @ py_str_int (hd_len_k h) @ ''k+'' @ py_str_int (hd_len_var h) @ ''v}''"

section \<open>The layout\<close>

definition head_bytes :: "byte list \<Rightarrow> head \<Rightarrow> byte list" where
  "head_bytes i h =
     i @ replicate (8 - length i) 0 @ int_to_le 1 (hd_sync h) @ int_to_le 1 (hd_flags h * 16 + hd_version h) @
     int_to_le 2 (hd_checksum h) @ int_to_le 1 (hd_len_kids h) @ int_to_le 1 (hd_len_sub h) @
     int_to_le 1 (hd_len_k h) @ int_to_le 1 (hd_len_var h)"

definition head_ok :: "byte list \<Rightarrow> head \<Rightarrow> bool" where
  "head_ok i h \<longleftrightarrow> i \<noteq> [] \<and> length i \<le> 8 \<and> last i \<noteq> 0 \<and> utf8_valid i \<and> hd_id h = map byte_char i \<and>
     0 \<le> hd_sync h \<and> hd_sync h < 256 \<and> 0 \<le> hd_version h \<and> hd_version h < 16 \<and> hd_flags h = 0 \<and>
     0 \<le> hd_checksum h \<and> hd_checksum h < 65536 \<and> 0 \<le> hd_len_kids h \<and> hd_len_kids h < 256 \<and>
     0 \<le> hd_len_sub h \<and> hd_len_sub h < 256 \<and> 0 \<le> hd_len_k h \<and> hd_len_k h < 256 \<and>
     0 \<le> hd_len_var h \<and> hd_len_var h < 256"

lemma int_to_le_1 [simp]: "int_to_le 1 v = [word_of_int v]" "int_to_le (Suc 0) v = [word_of_int v]"
  by simp_all

lemma id_len_zeros:
  assumes "i \<noteq> []" and "last i \<noteq> 0"
  shows "k \<le> n \<Longrightarrow> id_len (i @ replicate n 0) (length i + k) = Inr (length i)"
proof (induction k)
  case 0
  obtain l where l: "length i = Suc l" using assms(1) by (cases i) auto
  then have "py_index (i @ replicate n 0) (int l) = Inr (last i)"
    using assms(1) by (simp add: py_index_def nth_append last_conv_nth)
  then show ?case using assms(2) by (simp add: l)
next
  case (Suc k)
  then have "py_index (i @ replicate n 0) (int (length i + k)) = Inr (0 :: byte)"
    by (simp add: py_index_nat nth_append del: of_nat_add)
  moreover have "length i + k \<noteq> 0" using assms(1) by simp
  ultimately show ?case using Suc by simp
qed

lemma get_id_str_padded:
  assumes "i \<noteq> []" and "last i \<noteq> 0" and "utf8_valid i"
  shows "get_id_str (i @ replicate n 0) = Inr (map byte_char i)"
  using id_len_zeros [OF assms(1,2), of n n] assms(3)
  by (simp add: get_id_str_def bytes_decode_def)

lemma uint_byte_of_int: "0 \<le> v \<Longrightarrow> v < 256 \<Longrightarrow> uint (word_of_int v :: byte) = v"
  by (simp add: uint_word_of_int)

lemma le_to_int_two: "0 \<le> v \<Longrightarrow> v < 65536 \<Longrightarrow> le_to_int (int_to_le 2 v) = v"
  by (simp add: le_to_int_int_to_le)

lemma Head_init_bytes:
  assumes ok: "head_ok i h"
  shows "Head_init (head_bytes i h @ rest) = Inr h"
proof -
  define pad where "pad = i @ replicate (8 - length i) (0 :: byte)"
  let ?c = "int_to_le 2 (hd_checksum h)"
  have pad: "length pad = 8" using ok by (simp add: head_ok_def pad_def)
  have c: "length ?c = 2" by simp
  obtain c0 c1 where cc: "?c = [c0, c1]" using c by (metis (no_types, lifting) One_nat_def length_0_conv length_Suc_conv numeral_2_eq_2)
  let ?d = "head_bytes i h @ rest"
  have d: "?d = pad @ word_of_int (hd_sync h) # word_of_int (hd_version h) # c0 # c1 #
      word_of_int (hd_len_kids h) # word_of_int (hd_len_sub h) # word_of_int (hd_len_k h) # word_of_int (hd_len_var h) # rest"
    using ok by (simp add: head_bytes_def cc head_ok_def pad_def)
  have at: "py_index ?d (8 + int k) = Inr ((drop 8 ?d) ! k)" if "k < 8" for k
    using that pad by (simp add: d py_index_def nth_append nat_add_distrib)
  have at': "py_index ?d 8 = Inr (word_of_int (hd_sync h))" "py_index ?d 9 = Inr (word_of_int (hd_version h))"
    "py_index ?d 12 = Inr (word_of_int (hd_len_kids h))" "py_index ?d 13 = Inr (word_of_int (hd_len_sub h))"
    "py_index ?d 14 = Inr (word_of_int (hd_len_k h))" "py_index ?d 15 = Inr (word_of_int (hd_len_var h))"
    using at [of 0] at [of 1] at [of 4] at [of 5] at [of 6] at [of 7] pad by (simp_all add: d)
  have s1: "py_slice ?d 0 8 = pad" using pad by (simp add: d py_slice_def py_clamp_def)
  have s2: "py_slice ?d 10 12 = ?c" using pad by (simp add: d cc py_slice_def py_clamp_def)
  have ver: "hd_version h AND (push_bit VERSION_BITS 1 - 1) = hd_version h"
      "drop_bit VERSION_BITS (hd_version h) = 0"
  proof -
    have "push_bit VERSION_BITS 1 - 1 = (mask 4 :: int)" by (simp add: VERSION_BITS_def mask_eq_exp_minus_1)
    moreover have "hd_version h AND mask 4 = take_bit 4 (hd_version h)" by (simp add: take_bit_eq_mask)
    moreover have "take_bit 4 (hd_version h) = hd_version h" using ok by (simp add: take_bit_int_eq_self head_ok_def)
    ultimately show "hd_version h AND (push_bit VERSION_BITS 1 - 1) = hd_version h" by simp
    show "drop_bit VERSION_BITS (hd_version h) = 0"
      using ok by (simp add: VERSION_BITS_def drop_bit_eq_div head_ok_def)
  qed
  have id: "get_id_str pad = Inr (hd_id h)" using get_id_str_padded [of i] ok by (simp add: head_ok_def pad_def)
  show ?thesis
    using ok s1 s2 at' id ver
    by (simp add: Head_init_def head_sizes byte_at_def Let_def uint_byte_of_int head_ok_def le_to_int_two)
qed

text \<open>What any head that parses is like.\<close>

lemma byte_at_range: "byte_at data i = Inr v \<Longrightarrow> 0 \<le> v \<and> v < 256"
  using uint_byte_bounds by (auto simp: byte_at_def rbind_Inr_iff)

lemma Head_init_ranges:
  assumes "Head_init data = Inr h"
  shows "hd_flags h = 0 \<and> 0 \<le> hd_len_kids h \<and> hd_len_kids h < 256 \<and> 0 \<le> hd_len_sub h \<and> hd_len_sub h < 256 \<and>
    0 \<le> hd_len_k h \<and> hd_len_k h < 256 \<and> 0 \<le> hd_len_var h \<and> hd_len_var h < 256"
  using assms by (auto simp: Head_init_def rbind_Inr_iff Let_def dest!: byte_at_range)

section \<open>Properties\<close>

text \<open>
  A head written by the layout parses back as itself, whatever follows it: an id of one to
  eight UTF-8 bytes padded with zeros, the sync byte, the version nibble, the little-endian
  checksum and the four lengths.
\<close>
theorem head_parse_layout:
  assumes "head_ok i h"
  shows "Head_init (head_bytes i h @ rest) = Inr h"
  by (rule Head_init_bytes [OF assms])

definition example_head :: head where
  "example_head = \<lparr>hd_id = map byte_char [0x61, 0x62], hd_sync = SYNC, hd_version = 3, hd_flags = 0, hd_checksum = 0x1234,
     hd_len_kids = 1, hd_len_sub = 2, hd_len_k = 3, hd_len_var = 4\<rparr>"

theorem head_parse_layout_witness:
  "Head_init (head_bytes [0x61, 0x62] example_head @ [7]) = Inr example_head"
  by (rule head_parse_layout) (simp add: head_ok_def example_head_def SYNC_def)

text \<open>
  Whatever bytes a device answers, a head that parses has no reserved flag set and describes a
  module of at least 16 and at most 4096 bytes, a whole number of words.
\<close>
theorem head_module_size:
  assumes "Head_init data = Inr h"
  shows "hd_flags h = 0 \<and> SIZE_HEAD \<le> module_size h \<and> module_size h \<le> 4096 \<and> SIZE_WORD dvd module_size h"
  using Head_init_ranges [OF assms] by (auto simp: module_size_def module_size_words_def head_sizes)

theorem head_module_size_witness:
  "hd_flags example_head = 0 \<and> SIZE_HEAD \<le> module_size example_head \<and> module_size example_head \<le> 4096 \<and>
    SIZE_WORD dvd module_size example_head"
proof (rule head_module_size)
  show "Head_init (head_bytes [0x61, 0x62] example_head @ []) = Inr example_head"
    by (rule Head_init_bytes) (simp add: head_ok_def example_head_def SYNC_def)
qed

end
