(* ===== verification/BasicTypes.thy ===== *)
theory BasicTypes
  imports Basic PyText
begin

text \<open>
  \<^verbatim>\<open>pip/skmap/src/skmap/basic_types.py\<close>: the access kinds, assert levels, value kinds and value
  types of a register. The assert level is an \<^verbatim>\<open>IntEnum\<close> compared with \<open><\<close> throughout the
  program, so the datatype \<open>ass\<close> is an instance of \<open>linorder\<close> with the order of its numbers.
\<close>

definition SKMAP_VER_MAJOR :: int where "SKMAP_VER_MAJOR = 1"
definition SKMAP_VER_MINOR :: int where "SKMAP_VER_MINOR = 1"
definition SKMAP_VER_PATCH :: int where "SKMAP_VER_PATCH = 2"
definition SKMAP_WORD_BYTES :: int where "SKMAP_WORD_BYTES = 4"
definition SKMAP_WORD_BITS :: int where "SKMAP_WORD_BITS = SKMAP_WORD_BYTES * 8"
definition SKMAP_ID_LEN :: int where "SKMAP_ID_LEN = 8"

section \<open>Access kinds\<close>

datatype acc = Acc_na | Acc_k | Acc_ro | Acc_rc | Acc_rw | Acc_wt

fun acc_value :: "acc \<Rightarrow> int" where
  "acc_value Acc_na = 0"
| "acc_value Acc_k = 1"
| "acc_value Acc_ro = 2"
| "acc_value Acc_rc = 3"
| "acc_value Acc_rw = 4"
| "acc_value Acc_wt = 5"

text \<open>\<open>Acc(n)\<close>: the enum looked up by value.\<close>

definition acc_of_value :: "int \<Rightarrow> acc res" where
  "acc_of_value n =
     (if n = 0 then Inr Acc_na else if n = 1 then Inr Acc_k else if n = 2 then Inr Acc_ro
      else if n = 3 then Inr Acc_rc else if n = 4 then Inr Acc_rw
      else if n = 5 then Inr Acc_wt else Inl ValueError)"

fun acc_name :: "acc \<Rightarrow> string" where
  "acc_name Acc_na = ''na''"
| "acc_name Acc_k = ''k''"
| "acc_name Acc_ro = ''ro''"
| "acc_name Acc_rc = ''rc''"
| "acc_name Acc_rw = ''rw''"
| "acc_name Acc_wt = ''wt''"

fun sw_writable :: "acc \<Rightarrow> bool option" where
  "sw_writable Acc_na = None"
| "sw_writable Acc_k = Some False"
| "sw_writable Acc_ro = Some False"
| "sw_writable Acc_rc = Some False"
| "sw_writable Acc_rw = Some True"
| "sw_writable Acc_wt = Some True"

lemma acc_of_value_value [simp]: "acc_of_value (acc_value a) = Inr a"
  by (cases a) (simp_all add: acc_of_value_def)

lemma acc_of_value_Inr: "acc_of_value n = Inr a \<longleftrightarrow> acc_value a = n"
  by (cases a) (auto simp: acc_of_value_def)

section \<open>Assert levels\<close>

datatype ass = Ass_none | Ass_passed | Ass_debug | Ass_info | Ass_warn | Ass_error | Ass_fatal

fun ass_value :: "ass \<Rightarrow> int" where
  "ass_value Ass_none = - 1"
| "ass_value Ass_passed = 0"
| "ass_value Ass_debug = 1"
| "ass_value Ass_info = 2"
| "ass_value Ass_warn = 3"
| "ass_value Ass_error = 4"
| "ass_value Ass_fatal = 5"

lemma ass_value_inj [simp]: "ass_value a = ass_value b \<longleftrightarrow> a = b"
  by (cases a; cases b) simp_all

instantiation ass :: linorder
begin

definition less_eq_ass :: "ass \<Rightarrow> ass \<Rightarrow> bool" where
  "less_eq_ass a b \<longleftrightarrow> ass_value a \<le> ass_value b"

definition less_ass :: "ass \<Rightarrow> ass \<Rightarrow> bool" where
  "less_ass a b \<longleftrightarrow> ass_value a < ass_value b"

instance
  by standard (auto simp: less_eq_ass_def less_ass_def intro: ass_value_inj [THEN iffD1])

end

lemmas ass_order_defs = less_eq_ass_def less_ass_def

lemma ass_none_least [simp]: "Ass_none \<le> a"
  by (cases a) (simp_all add: less_eq_ass_def)

lemma ass_le_none [simp]: "a \<le> Ass_none \<longleftrightarrow> a = Ass_none"
  by (auto intro: antisym)

fun ass_name :: "ass \<Rightarrow> string" where
  "ass_name Ass_none = ''none''"
| "ass_name Ass_passed = ''passed''"
| "ass_name Ass_debug = ''debug''"
| "ass_name Ass_info = ''info''"
| "ass_name Ass_warn = ''warn''"
| "ass_name Ass_error = ''error''"
| "ass_name Ass_fatal = ''fatal''"

definition ass_str :: "ass \<Rightarrow> string" where
  "ass_str a = (if ass_name a = ''none'' then ''-'' else ass_name a)"

fun ass_color :: "ass \<Rightarrow> string" where
  "ass_color Ass_none = ''default''"
| "ass_color Ass_passed = ''green''"
| "ass_color Ass_debug = ''turquoise4''"
| "ass_color Ass_info = ''cornflower_blue''"
| "ass_color Ass_warn = ''orange1''"
| "ass_color Ass_error = ''orange_red1''"
| "ass_color Ass_fatal = ''red3''"

section \<open>Value kinds and the type of the user value\<close>

datatype v_type = VType_u | VType_s | VType_f

definition v_type_from_str :: "string \<Rightarrow> v_type res" where
  "v_type_from_str s =
     (if s = ''u'' then Inr VType_u else if s = ''s'' then Inr VType_s
      else if s = ''f'' then Inr VType_f else Inl ValueError)"

fun v_type_str :: "v_type \<Rightarrow> string" where
  "v_type_str VType_u = ''u''"
| "v_type_str VType_s = ''s''"
| "v_type_str VType_f = ''f''"

definition v_type_is_float :: "v_type \<Rightarrow> bool" where
  "v_type_is_float t \<longleftrightarrow> t = VType_f"

definition v_type_is_unsigned :: "v_type \<Rightarrow> bool" where
  "v_type_is_unsigned t \<longleftrightarrow> t = VType_u"

datatype value_kind = VK_uint | VK_sint | VK_char | VK_bits | VK_flag

definition value_kind_to_v_type :: "value_kind \<Rightarrow> v_type" where
  "value_kind_to_v_type k = (if k = VK_sint then VType_s else VType_u)"

fun char_str :: "value_kind \<Rightarrow> string" where
  "char_str VK_bits = ''x''"
| "char_str VK_uint = ''u''"
| "char_str VK_sint = ''s''"
| "char_str VK_char = ''c''"
| "char_str VK_flag = ''b''"

fun value_kind_str :: "value_kind \<Rightarrow> string" where
  "value_kind_str VK_bits = ''bits''"
| "value_kind_str VK_uint = ''uint''"
| "value_kind_str VK_sint = ''sint''"
| "value_kind_str VK_char = ''char''"
| "value_kind_str VK_flag = ''flag''"

definition is_int_kind :: "value_kind \<Rightarrow> bool" where
  "is_int_kind k \<longleftrightarrow> k = VK_uint \<or> k = VK_sint"

lemma v_type_from_str_str [simp]: "v_type_from_str (v_type_str t) = Inr t"
  by (cases t) (simp_all add: v_type_from_str_def)

lemma char_str_inj: "char_str k = char_str l \<longleftrightarrow> k = l"
  by (cases k; cases l) simp_all

section \<open>Value types\<close>

record value_type =
  vt_kind :: value_kind
  vt_width :: int
  vt_vec_len :: "int option"

definition ValueType_init :: "value_kind \<Rightarrow> int \<Rightarrow> int option \<Rightarrow> value_type res" where
  "ValueType_init kind width vec_len =
     rbind (rassert (0 \<le> width)) (\<lambda>_.
       Inr \<lparr>vt_kind = kind, vt_width = width, vt_vec_len = vec_len\<rparr>)"

definition elem_w :: "value_type \<Rightarrow> int" where
  "elem_w t = vt_width t"

definition is_vec :: "value_type \<Rightarrow> bool" where
  "is_vec t \<longleftrightarrow> vt_vec_len t \<noteq> None"

definition is_bool :: "value_type \<Rightarrow> bool" where
  "is_bool t \<longleftrightarrow> vt_kind t = VK_flag \<and> vt_width t = 1"

definition elem_size :: "value_type \<Rightarrow> int" where
  "elem_size t = drop_bit 3 (promote_to_sw_w (vt_width t))"

definition total_size :: "value_type \<Rightarrow> int" where
  "total_size t =
     (case vt_vec_len t of None \<Rightarrow> elem_size t | Some n \<Rightarrow> elem_size t * n)"

definition value_type_repr :: "value_type \<Rightarrow> string" where
  "value_type_repr t =
     (case vt_vec_len t of None \<Rightarrow> '''' | Some n \<Rightarrow> ''['' @ py_str_int n @ '']'')
       @ char_str (vt_kind t) @ py_str_int (vt_width t)"

definition value_type_u8 :: value_type where
  "value_type_u8 = \<lparr>vt_kind = VK_uint, vt_width = 8, vt_vec_len = None\<rparr>"

definition value_type_x32 :: value_type where
  "value_type_x32 = \<lparr>vt_kind = VK_bits, vt_width = 32, vt_vec_len = None\<rparr>"

lemma elem_size_div: "elem_size t = promote_to_sw_w (vt_width t) div 8"
  by (simp add: elem_size_def drop_bit_eq_div)

lemma elem_size_bits: "1 \<le> vt_width t \<Longrightarrow> 8 * elem_size t = promote_to_sw_w (vt_width t)"
  using promote_to_sw_w_8dvd [of "vt_width t"] by (simp add: elem_size_div)

text \<open>A value of the width always fits its software element.\<close>

lemma elem_size_fits:
  assumes "1 \<le> vt_width t"
  shows "0 < elem_size t \<and> (2::int) ^ nat (vt_width t) \<le> 256 ^ nat (elem_size t)"
proof -
  have "vt_width t \<le> 8 * elem_size t"
    using promote_to_sw_w_ge [OF assms] elem_size_bits [OF assms] by simp
  then have n: "nat (vt_width t) \<le> 8 * nat (elem_size t)" and pos: "0 < elem_size t"
    using assms by auto
  have "(256::int) ^ nat (elem_size t) = 2 ^ (8 * nat (elem_size t))"
    by (simp add: power_mult)
  then show ?thesis using n pos by (simp add: power_increasing)
qed

lemma elem_size_x32: "elem_size value_type_x32 = 4"
proof -
  have "ceil_log2 32 = 5"
    by (simp add: ceil_log2_def bit_length_def nat_bits.simps)
  then show ?thesis
    by (simp add: elem_size_div promote_to_sw_w_def ceil_multiple_8 value_type_x32_def)
qed

end
