(* ===== verification/ModuleMem.thy ===== *)
theory ModuleMem
  imports RegioCache Head BasicTypes
begin

text \<open>
  The memory of a module (\<^verbatim>\<open>pip/skmap/src/skmap/module.py\<close>, the methods registers use): the device
  behind it, its base address, the cached image of the module and the alignment of its accesses.
  A stateful operation acts on the world of the device beside the module, a cached operation on
  the module alone.
\<close>

record 'w modmem =
  mm_regio :: "'w regio"
  mm_base_addr :: int
  mm_cache :: "byte list"
  mm_use_cache :: bool
  mm_byte_align :: int

section \<open>Operations\<close>

definition cache_addr :: "'w modmem \<Rightarrow> int \<Rightarrow> int" where
  "cache_addr m addr = addr - mm_base_addr m"

definition read_cached :: "int \<Rightarrow> int \<Rightarrow> 'w modmem \<Rightarrow> byte list" where
  "read_cached addr sz m = py_slice (mm_cache m) (cache_addr m addr) (cache_addr m addr + sz)"

definition write_bytes_cached :: "int \<Rightarrow> byte list \<Rightarrow> 'w modmem \<Rightarrow> 'w modmem" where
  "write_bytes_cached addr b m =
     m\<lparr>mm_cache := py_slice_assign (mm_cache m) (cache_addr m addr) (cache_addr m addr + int (length b)) b\<rparr>"

definition byte_align_size :: "int \<Rightarrow> int \<Rightarrow> 'w modmem \<Rightarrow> int res" where
  "byte_align_size sz addr m =
     (if mm_byte_align m = 0 then Inl ZeroDivisionError
      else rbind (rassert (addr mod mm_byte_align m = 0)) (\<lambda>_. ceil_multiple sz (mm_byte_align m)))"

definition mm_get :: "('w modmem \<Rightarrow> 'a res) \<Rightarrow> ('w \<times> 'w modmem, 'a) io" where
  "mm_get f = (\<lambda>(w, m). (f m, (w, m)))"

definition mm_set :: "('w modmem \<Rightarrow> 'w modmem res) \<Rightarrow> ('w \<times> 'w modmem, unit) io" where
  "mm_set f = (\<lambda>(w, m). case f m of Inl e \<Rightarrow> (Inl e, (w, m)) | Inr m' \<Rightarrow> (Inr (), (w, m')))"

definition mm_dev :: "('w regio \<Rightarrow> ('w, 'a) io) \<Rightarrow> ('w \<times> 'w modmem, 'a) io" where
  "mm_dev f = (\<lambda>(w, m). io_fst (f (mm_regio m)) (w, m))"

definition mod_read_bytes :: "int \<Rightarrow> int \<Rightarrow> ('w \<times> 'w modmem, byte list) io" where
  "mod_read_bytes addr sz =
     io_bind (mm_get (\<lambda>m. Inr (mm_use_cache m))) (\<lambda>use_cache.
       if use_cache then mm_get (\<lambda>m. Inr (read_cached addr sz m))
       else
         io_bind (mm_get (byte_align_size sz addr)) (\<lambda>op_size.
         io_bind (mm_dev (\<lambda>r. regio_read r addr op_size)) (\<lambda>b.
         io_bind (mm_set (\<lambda>m. Inr (write_bytes_cached addr b m))) (\<lambda>_.
           io_return (py_slice b 0 sz)))))"

definition mod_write_bytes :: "int \<Rightarrow> byte list \<Rightarrow> ('w \<times> 'w modmem, unit) io" where
  "mod_write_bytes addr b =
     io_bind (mm_set (\<lambda>m. Inr (write_bytes_cached addr b m))) (\<lambda>_.
     io_bind (mm_get (\<lambda>m. Inr (mm_use_cache m))) (\<lambda>use_cache.
       if use_cache then io_return ()
       else
         io_bind (mm_get (byte_align_size (int (length b)) addr)) (\<lambda>op_size.
         io_bind (mm_get (\<lambda>m. Inr (read_cached addr op_size m))) (\<lambda>d.
           mm_dev (\<lambda>r. regio_write r addr d)))))"

lemma mm_runs [simp]:
  "mm_get f (w, m) = (f m, (w, m))"
  "mm_set g (w, m) = (case g m of Inl e \<Rightarrow> (Inl e, (w, m)) | Inr m' \<Rightarrow> (Inr (), (w, m')))"
  "mm_dev h (w, m) = (fst (h (mm_regio m) w), (snd (h (mm_regio m) w), m))"
  by (simp_all add: mm_get_def mm_set_def mm_dev_def)

section \<open>Reading and writing the cached image\<close>

text \<open>The bytes \<open>[addr, addr + sz)\<close> lie in the image of the module.\<close>

definition in_module :: "'w modmem \<Rightarrow> int \<Rightarrow> int \<Rightarrow> bool" where
  "in_module m addr sz \<longleftrightarrow> mm_base_addr m \<le> addr \<and> 0 \<le> sz \<and> addr + sz \<le> mm_base_addr m + int (length (mm_cache m))"

lemma in_module_sub: "in_module m a n \<Longrightarrow> a \<le> b \<Longrightarrow> 0 \<le> k \<Longrightarrow> b + k \<le> a + n \<Longrightarrow> in_module m b k"
  by (auto simp: in_module_def)

lemma length_read_cached: "in_module m addr sz \<Longrightarrow> int (length (read_cached addr sz m)) = sz"
  by (auto simp: in_module_def read_cached_def cache_addr_def py_slice_inside_length)

lemma write_bytes_cached_simps [simp]:
  "mm_regio (write_bytes_cached a b m) = mm_regio m"
  "mm_base_addr (write_bytes_cached a b m) = mm_base_addr m"
  "mm_use_cache (write_bytes_cached a b m) = mm_use_cache m"
  "mm_byte_align (write_bytes_cached a b m) = mm_byte_align m"
  "cache_addr (write_bytes_cached a b m) x = cache_addr m x"
  "byte_align_size n x (write_bytes_cached a b m) = byte_align_size n x m"
  by (simp_all add: write_bytes_cached_def cache_addr_def byte_align_size_def)

lemma length_write_bytes_cached:
  "in_module m a (int (length b)) \<Longrightarrow> length (mm_cache (write_bytes_cached a b m)) = length (mm_cache m)"
  by (simp add: in_module_def write_bytes_cached_def cache_addr_def py_slice_assign_inside_length)

lemma in_module_write [simp]:
  "in_module m a (int (length b)) \<Longrightarrow> in_module (write_bytes_cached a b m) x n = in_module m x n"
  by (simp add: in_module_def [of "write_bytes_cached a b m"] in_module_def [of m x] length_write_bytes_cached)

lemma read_write_cached_same:
  "in_module m a (int (length b)) \<Longrightarrow> read_cached a (int (length b)) (write_bytes_cached a b m) = b"
  by (simp add: in_module_def read_cached_def write_bytes_cached_def cache_addr_def py_slice_of_assign_same)

lemma read_write_cached_other:
  assumes "in_module m a (int (length b))" and "in_module m x n" and "x + n \<le> a \<or> a + int (length b) \<le> x"
  shows "read_cached x n (write_bytes_cached a b m) = read_cached x n m"
proof -
  have "py_slice (py_slice_assign (mm_cache m) (cache_addr m a) (cache_addr m a + int (length b)) b)
      (cache_addr m x) (cache_addr m x + n) = py_slice (mm_cache m) (cache_addr m x) (cache_addr m x + n)"
    using assms by (intro py_slice_of_assign_other) (auto simp: in_module_def cache_addr_def)
  then show ?thesis by (simp add: read_cached_def write_bytes_cached_def cache_addr_def)
qed

lemma read_cached_append:
  assumes "in_module m a n" and "0 \<le> k" and "k \<le> n"
  shows "read_cached a n m = read_cached a k m @ read_cached (a + k) (n - k) m"
proof -
  let ?i = "a - mm_base_addr m"
  have i: "0 \<le> ?i" "?i + n \<le> int (length (mm_cache m))" using assms by (auto simp: in_module_def)
  then have e: "nat ?i + nat k = nat (?i + k)" using assms by simp
  have "take (nat n) (drop (nat ?i) (mm_cache m)) = take (nat k) (drop (nat ?i) (mm_cache m)) @
      take (nat n - nat k) (drop (nat k) (drop (nat ?i) (mm_cache m)))"
    using assms take_add [of "nat k" "nat n - nat k" "drop (nat ?i) (mm_cache m)"] by simp
  moreover have "drop (nat k) (drop (nat ?i) (mm_cache m)) = drop (nat (?i + k)) (mm_cache m)"
    using e by (simp add: add.commute)
  moreover have "nat n - nat k = nat (n - k)" using assms by (simp add: nat_diff_distrib)
  ultimately show ?thesis
    using assms i by (simp add: read_cached_def cache_addr_def py_slice_inside algebra_simps)
qed

lemma read_cached_sub:
  assumes "in_module m a n" and "0 \<le> k" and "0 \<le> j" and "k + j \<le> n"
  shows "read_cached (a + k) j m = take (nat j) (drop (nat k) (read_cached a n m))"
proof -
  have im: "in_module m a k" "in_module m (a + k) (n - k)" "in_module m (a + k) j"
    using in_module_sub [OF assms(1), of a k] in_module_sub [OF assms(1), of "a + k" "n - k"]
      in_module_sub [OF assms(1), of "a + k" j] assms(2-4) by auto
  have "read_cached a n m = read_cached a k m @ read_cached (a + k) j m @ read_cached (a + k + j) (n - k - j) m"
    using read_cached_append [OF assms(1), of k] read_cached_append [OF im(2), of j] assms by simp
  moreover have "int (length (read_cached a k m)) = k" "int (length (read_cached (a + k) j m)) = j"
    using im by (auto intro: length_read_cached)
  ultimately show ?thesis using assms by auto
qed

section \<open>The module over a device\<close>

text \<open>
  A module lies on a device that meets the \<open>regio_object\<close> contract. A read gives the bytes of the
  device and leaves them in the image; a write changes exactly the aligned block of the device, to
  the bytes of the image.
\<close>

locale module_device = regio_object r mem dinv ok limit
  for r :: "'w regio" and mem dinv ok limit
begin

lemma read_bytes_law:
  assumes "mm_regio m = r" and "\<not> mm_use_cache m" and "0 < mm_byte_align m" and "mm_byte_align m dvd a"
    and "ceil_multiple n (mm_byte_align m) = Inr k" and "0 \<le> n"
    and "dinv w" and "ok a k" and "mem_has (mem w) a k"
  shows "\<exists>w'. mod_read_bytes a n (w, m) =
      (Inr (mem_bytes (mem w) a n), (w', write_bytes_cached a (mem_bytes (mem w) a k) m)) \<and>
      dinv w' \<and> mem w' = mem w"
proof -
  obtain w' where w': "regio_read r a k w = (Inr (mem_bytes (mem w) a k), w')" "dinv w'" "mem w' = mem w"
    using regio_read_law [OF assms(7-9)] by blast
  have nk: "n \<le> k" using ceil_multiple_pos [OF assms(3), of n] assms(5) by auto
  have "py_slice (mem_bytes (mem w) a k) 0 n = mem_bytes (mem w) a n"
    using assms(6) nk mem_bytes_split [of n k "mem w" a] by (simp add: py_slice_inside)
  moreover have "a mod mm_byte_align m = 0" "mm_byte_align m \<noteq> 0" using assms(3,4) by auto
  ultimately show ?thesis
    using w' assms(1,2,5) by (simp add: mod_read_bytes_def io_bind_run byte_align_size_def)
qed

lemma write_bytes_law:
  assumes "mm_regio m = r" and "\<not> mm_use_cache m" and "0 < mm_byte_align m" and "mm_byte_align m dvd a"
    and "ceil_multiple (int (length b)) (mm_byte_align m) = Inr k" and "in_module m a k"
    and "dinv w" and "ok a k"
  shows "\<exists>w'. mod_write_bytes a b (w, m) = (Inr (), (w', write_bytes_cached a b m)) \<and> dinv w' \<and>
      mem w' = mem_overlay (mem w) a (read_cached a k (write_bytes_cached a b m))"
proof -
  have bk: "int (length b) \<le> k" using ceil_multiple_pos [OF assms(3), of "int (length b)"] assms(5) by auto
  let ?m = "write_bytes_cached a b m"
  have im: "in_module m a (int (length b))" using assms(6) bk by (auto simp: in_module_def)
  have len: "int (length (read_cached a k ?m)) = k" using im assms(6) by (intro length_read_cached) simp
  then obtain w' where w': "regio_write r a (read_cached a k ?m) w = (Inr (), w')" "dinv w'"
      "mem w' = mem_overlay (mem w) a (read_cached a k ?m)"
    using regio_write_law [OF assms(7), of a "read_cached a k ?m"] assms(8) by auto
  have "a mod mm_byte_align m = 0" "mm_byte_align m \<noteq> 0" using assms(3,4) by auto
  then show ?thesis
    using w' assms(1,2,5) by (simp add: mod_write_bytes_def io_bind_run byte_align_size_def)
qed

end

text \<open>A module on the memory backed device, the case of the tests and of the cache backend.\<close>

interpretation mc: module_device RegioCache_init mem_of regions_ok addr_space "UINT32_MAX + 1"
  by intro_locales

end
