(* ===== verification/Reg.thy ===== *)
theory Reg
  imports ModuleMem Complex_Main
begin

text \<open>
  \<^verbatim>\<open>pip/skmap/src/skmap/reg.py\<close>, the value checks, the value conversions and the scalar register
  \<^verbatim>\<open>Reg\<close>; the vector and flag registers are in RegVec. A register is an immutable record once
  the module has given it an address; its operations act on the memory of its module.

  The functions of a check and of a conversion come from the recipe of the module. They may read
  the constant registers of the module, so they are arguments that take the cached image of the
  module and the value. A Python float is a rational; \<open>pf_round\<close> is the rounding of one float
  operation, \<open>pf_str\<close> the text of a float, and \<open>pf_ass_str\<close> how \<^verbatim>\<open>f'{ass}'\<close> formats an \<^verbatim>\<open>IntEnum\<close>
  that overrides \<^verbatim>\<open>__str__\<close> (its name up to Python 3.11, its number since). \<open>pf_pow\<close> is the power of two
  floats, which may raise: the recipe expressions use it. All four belong to the interpreter and are
  arguments. Infinities and NaN are not modelled.
\<close>

section \<open>Values\<close>

datatype pynum = PInt int | PFlt rat

datatype pyval = PNum pynum | PStr string

record py_impl =
  pf_round :: "rat \<Rightarrow> rat"
  pf_str :: "rat \<Rightarrow> string"
  pf_ass_str :: "ass \<Rightarrow> string"
  pf_pow :: "rat \<Rightarrow> rat \<Rightarrow> rat res"

definition py_num_int :: "pynum \<Rightarrow> int" where
  "py_num_int v = (case v of PInt i \<Rightarrow> i | PFlt x \<Rightarrow> if 0 \<le> x then \<lfloor>x\<rfloor> else - \<lfloor>- x\<rfloor>)"

definition py_num_str :: "py_impl \<Rightarrow> pynum \<Rightarrow> string" where
  "py_num_str pf v = (case v of PInt i \<Rightarrow> py_str_int i | PFlt x \<Rightarrow> pf_str pf x)"

definition py_val_str :: "py_impl \<Rightarrow> pyval \<Rightarrow> string" where
  "py_val_str pf v = (case v of PNum n \<Rightarrow> py_num_str pf n | PStr s \<Rightarrow> s)"

definition round_half_away :: "py_impl \<Rightarrow> pynum \<Rightarrow> int" where
  "round_half_away pf v =
     (case v of PInt i \<Rightarrow> i
      | PFlt x \<Rightarrow> if 0 \<le> x then \<lfloor>pf_round pf (x + 1 / 2)\<rfloor> else - \<lfloor>pf_round pf (- x + 1 / 2)\<rfloor>)"

section \<open>Checks, conversions, registers\<close>

record value_check =
  vc_fn :: "byte list \<Rightarrow> pynum \<Rightarrow> bool res"
  vc_str :: string
  vc_v_type :: v_type

record value_convert =
  cv_fn :: "byte list \<Rightarrow> pynum \<Rightarrow> pynum res"
  cv_fn_inv :: "byte list \<Rightarrow> pynum \<Rightarrow> pynum res"
  cv_str :: string
  cv_str_inv :: string
  cv_v_type :: v_type

definition convert_to_raw :: "py_impl \<Rightarrow> value_convert \<Rightarrow> byte list \<Rightarrow> pynum \<Rightarrow> int res" where
  "convert_to_raw pf cv img v = rbind (cv_fn cv img v) (\<lambda>x. Inr (round_half_away pf x))"

definition convert_from_raw :: "value_convert \<Rightarrow> byte list \<Rightarrow> pynum \<Rightarrow> pynum res" where
  "convert_from_raw cv img raw = cv_fn_inv cv img raw"

record rflag =
  rf_name :: string
  rf_bit :: int
  rf_ass :: ass
  rf_desc :: string
  rf_vec_len :: "int option"

datatype reg_class = RC_reg | RC_vec int | RC_flags "rflag list"

record reg =
  rg_name :: string
  rg_type :: value_type
  rg_acc :: acc
  rg_desc :: string
  rg_size :: int
  rg_elem_size :: int
  rg_addr :: "int option"
  rg_ass :: ass
  rg_v_check :: "value_check option"
  rg_v_convert :: "value_convert option"
  rg_v_type :: v_type
  rg_class :: reg_class

definition int_kind :: "value_kind \<Rightarrow> bool" where
  "int_kind k \<longleftrightarrow> k = VK_uint \<or> k = VK_sint \<or> k = VK_bits"

definition Reg_init ::
  "string \<Rightarrow> value_type \<Rightarrow> acc \<Rightarrow> string \<Rightarrow> ass \<Rightarrow> value_check option \<Rightarrow> value_convert option \<Rightarrow> v_type option \<Rightarrow>
     reg res" where
  "Reg_init name t a desc s check convert vt =
     (let sz = drop_bit 3 (promote_to_sw_w (vt_width t)) in
      rbind (rassert (check = None \<or> int_kind (vt_kind t))) (\<lambda>_.
      rbind (rassert (convert = None \<or> int_kind (vt_kind t))) (\<lambda>_.
        Inr \<lparr>rg_name = name, rg_type = t, rg_acc = a, rg_desc = desc, rg_size = sz, rg_elem_size = sz,
             rg_addr = None, rg_ass = s, rg_v_check = check, rg_v_convert = convert,
             rg_v_type = (case vt of Some v \<Rightarrow> v | None \<Rightarrow> value_kind_to_v_type (vt_kind t)),
             rg_class = RC_reg\<rparr>)))"

definition has_limit :: "reg \<Rightarrow> bool" where
  "has_limit r \<longleftrightarrow> int_kind (vt_kind (rg_type r)) \<and> rg_v_check r \<noteq> None"

definition reg_has_ass :: "reg \<Rightarrow> bool" where
  "reg_has_ass r \<longleftrightarrow> rg_ass r \<noteq> Ass_none \<or> has_limit r"

definition has_v_convert :: "reg \<Rightarrow> bool" where
  "has_v_convert r \<longleftrightarrow> rg_v_convert r \<noteq> None"

definition value_type_str :: "reg \<Rightarrow> string" where
  "value_type_str r = value_type_repr (rg_type r)"

definition reg_addr :: "reg \<Rightarrow> int res" where
  "reg_addr r = (case rg_addr r of None \<Rightarrow> Inl AssertionError | Some a \<Rightarrow> Inr a)"

section \<open>Reading\<close>

definition read_bytes_cached :: "reg \<Rightarrow> 'w modmem \<Rightarrow> byte list res" where
  "read_bytes_cached r m = rbind (reg_addr r) (\<lambda>a. Inr (read_cached a (rg_size r) m))"

definition read_bytes :: "reg \<Rightarrow> ('w \<times> 'w modmem, byte list) io" where
  "read_bytes r =
     (if rg_acc r \<noteq> Acc_k then io_bind (io_lift (reg_addr r)) (\<lambda>a. mod_read_bytes a (rg_size r))
      else mm_get (read_bytes_cached r))"

definition read_cache :: "reg \<Rightarrow> ('w \<times> 'w modmem, unit) io" where
  "read_cache r = io_bind (read_bytes r) (\<lambda>_. io_return ())"

definition read_uint_cached :: "reg \<Rightarrow> 'w modmem \<Rightarrow> int res" where
  "read_uint_cached r m =
     rbind (read_bytes_cached r m) (\<lambda>b.
       let value_int = le_to_int b in
       Inr (if vt_width (rg_type r) \<noteq> rg_size r * 8
            then value_int AND (push_bit (nat (vt_width (rg_type r))) 1 - 1) else value_int))"

definition read_sint_cached :: "reg \<Rightarrow> 'w modmem \<Rightarrow> int res" where
  "read_sint_cached r m =
     rbind (read_uint_cached r m) (\<lambda>v. cast_uint_to_sint v (vt_width (rg_type r)))"

definition read_bool_cached :: "reg \<Rightarrow> 'w modmem \<Rightarrow> bool res" where
  "read_bool_cached r m = rbind (read_uint_cached r m) (\<lambda>v. Inr (v \<noteq> 0))"

text \<open>\<^verbatim>\<open>chr\<close> of a value of eight bits\<close>

definition py_chr :: "int \<Rightarrow> string" where
  "py_chr v = [char_of (nat v)]"

definition read_char_cached :: "reg \<Rightarrow> 'w modmem \<Rightarrow> string res" where
  "read_char_cached r m =
     rbind (rassert (vt_width (rg_type r) = 8)) (\<lambda>_.
     rbind (read_uint_cached r m) (\<lambda>v. Inr (py_chr v)))"

definition read_value_cached :: "reg \<Rightarrow> 'w modmem \<Rightarrow> pyval res" where
  "read_value_cached r m =
     (case vt_kind (rg_type r) of
        VK_uint \<Rightarrow> rbind (read_uint_cached r m) (\<lambda>v. Inr (PNum (PInt v)))
      | VK_sint \<Rightarrow> rbind (read_sint_cached r m) (\<lambda>v. Inr (PNum (PInt v)))
      | VK_bits \<Rightarrow> rbind (read_uint_cached r m) (\<lambda>v. Inr (PNum (PInt v)))
      | VK_flag \<Rightarrow> rbind (read_uint_cached r m) (\<lambda>v. Inr (PNum (PInt v)))
      | VK_char \<Rightarrow> rbind (read_char_cached r m) (\<lambda>s. Inr (PStr s)))"

text \<open>An access of the device followed by a cached read.\<close>

definition after_read :: "reg \<Rightarrow> (reg \<Rightarrow> 'w modmem \<Rightarrow> 'a res) \<Rightarrow> ('w \<times> 'w modmem, 'a) io" where
  "after_read r f = io_bind (read_bytes r) (\<lambda>_. mm_get (f r))"

definition read_uint :: "reg \<Rightarrow> ('w \<times> 'w modmem, int) io" where
  "read_uint r = after_read r read_uint_cached"

definition read_sint :: "reg \<Rightarrow> ('w \<times> 'w modmem, int) io" where
  "read_sint r = after_read r read_sint_cached"

definition read_bool :: "reg \<Rightarrow> ('w \<times> 'w modmem, bool) io" where
  "read_bool r = after_read r read_bool_cached"

definition read_char :: "reg \<Rightarrow> ('w \<times> 'w modmem, string) io" where
  "read_char r = after_read r read_char_cached"

section \<open>Conversion and checks\<close>

definition to_raw :: "py_impl \<Rightarrow> reg \<Rightarrow> 'w modmem \<Rightarrow> pynum \<Rightarrow> pynum res" where
  "to_raw pf r m v =
     (case rg_v_convert r of None \<Rightarrow> Inr v
      | Some cv \<Rightarrow> rbind (convert_to_raw pf cv (mm_cache m) v) (\<lambda>i. Inr (PInt i)))"

definition from_raw :: "reg \<Rightarrow> 'w modmem \<Rightarrow> pynum \<Rightarrow> pynum res" where
  "from_raw r m raw =
     (case rg_v_convert r of None \<Rightarrow> Inr raw | Some cv \<Rightarrow> convert_from_raw cv (mm_cache m) raw)"

text \<open>
  The value of a char register is a string; such a register has no conversion (\<open>Reg_init\<close>).
\<close>

definition from_raw_value :: "reg \<Rightarrow> 'w modmem \<Rightarrow> pyval \<Rightarrow> pyval res" where
  "from_raw_value r m v =
     (case v of
        PNum n \<Rightarrow> rbind (from_raw r m n) (\<lambda>x. Inr (PNum x))
      | PStr s \<Rightarrow> (if has_v_convert r then Inl TypeError else Inr (PStr s)))"

definition read_converted_cached :: "reg \<Rightarrow> 'w modmem \<Rightarrow> pyval res" where
  "read_converted_cached r m = rbind (read_value_cached r m) (from_raw_value r m)"

definition ass_check_value_limit :: "reg \<Rightarrow> 'w modmem \<Rightarrow> pynum \<Rightarrow> ass res" where
  "ass_check_value_limit r m v =
     (case rg_v_check r of None \<Rightarrow> Inr Ass_none
      | Some vc \<Rightarrow>
          rbind (vc_fn vc (mm_cache m) v) (\<lambda>passes.
            Inr (if passes then Ass_none else if rg_ass r \<noteq> Ass_none then rg_ass r else Ass_error)))"

definition check_value_limit :: "reg \<Rightarrow> 'w modmem \<Rightarrow> pynum \<Rightarrow> unit res" where
  "check_value_limit r m v =
     rbind (ass_check_value_limit r m v) (\<lambda>a. if a \<ge> Ass_error then Inl ValueError else Inr ())"

definition value_range :: "reg \<Rightarrow> (int \<times> int) res" where
  "value_range r =
     (let w = vt_width (rg_type r) in
      if vt_kind (rg_type r) = VK_sint
      then (if w < 1 then Inl ValueError else Inr (- (2 ^ nat (w - 1)), 2 ^ nat (w - 1) - 1))
      else Inr (0, 2 ^ nat w - 1))"

definition check_value_fits_reg :: "reg \<Rightarrow> pynum \<Rightarrow> unit res" where
  "check_value_fits_reg r v =
     rbind (value_range r) (\<lambda>(lo, hi).
       if \<not> (lo \<le> py_num_int v \<and> py_num_int v \<le> hi) then Inl ValueError else Inr ())"

section \<open>Writing\<close>

text \<open>The \<^verbatim>\<open>assert\<close> on the access kind: software writes only \<open>rw\<close> and \<open>wt\<close>, and clears \<open>rc\<close>.\<close>

definition write_allowed :: "reg \<Rightarrow> byte list \<Rightarrow> bool" where
  "write_allowed r b \<longleftrightarrow> rg_acc r = Acc_rw \<or> rg_acc r = Acc_wt \<or> (rg_acc r = Acc_rc \<and> list_all (\<lambda>x. x = 0) b)"

definition write_cache :: "reg \<Rightarrow> ('w \<times> 'w modmem, unit) io" where
  "write_cache r =
     io_bind (io_lift (reg_addr r)) (\<lambda>a.
     io_bind (mm_get (read_bytes_cached r)) (\<lambda>b.
     io_bind (io_assert (write_allowed r b)) (\<lambda>_. mod_write_bytes a b)))"

definition reg_write_bytes_cached :: "reg \<Rightarrow> byte list \<Rightarrow> 'w modmem \<Rightarrow> 'w modmem res" where
  "reg_write_bytes_cached r b m =
     rbind (reg_addr r) (\<lambda>a.
     rbind (rassert (write_allowed r b)) (\<lambda>_.
     rbind (rassert (int (length b) = rg_size r)) (\<lambda>_. Inr (write_bytes_cached a b m))))"

text \<open>A cached write followed by the access of the device.\<close>

definition then_write :: "reg \<Rightarrow> ('w modmem \<Rightarrow> 'w modmem res) \<Rightarrow> ('w \<times> 'w modmem, unit) io" where
  "then_write r f = io_bind (mm_set f) (\<lambda>_. write_cache r)"

definition reg_write_bytes :: "reg \<Rightarrow> byte list \<Rightarrow> ('w \<times> 'w modmem, unit) io" where
  "reg_write_bytes r b = then_write r (reg_write_bytes_cached r b)"

text \<open>\<^verbatim>\<open>v.to_bytes\<close>: a float has no such method.\<close>

definition num_to_bytes :: "pynum \<Rightarrow> int \<Rightarrow> bool \<Rightarrow> byte list res" where
  "num_to_bytes v sz sgnd =
     (case v of PInt i \<Rightarrow> to_bytes i sz Little sgnd | PFlt x \<Rightarrow> Inl AttributeError)"

text \<open>\<open>write_uint_cached\<close> and \<open>write_sint_cached\<close> differ in the sign of the bytes only.\<close>

definition write_int_cached :: "bool \<Rightarrow> reg \<Rightarrow> pynum \<Rightarrow> 'w modmem \<Rightarrow> 'w modmem res" where
  "write_int_cached sgnd r v m =
     rbind (check_value_fits_reg r v) (\<lambda>_.
     rbind (from_raw r m v) (\<lambda>u.
     rbind (check_value_limit r m u) (\<lambda>_.
     rbind (num_to_bytes v (rg_size r) sgnd) (\<lambda>b. reg_write_bytes_cached r b m))))"

definition write_uint_cached :: "reg \<Rightarrow> pynum \<Rightarrow> 'w modmem \<Rightarrow> 'w modmem res" where
  "write_uint_cached = write_int_cached False"

definition write_sint_cached :: "reg \<Rightarrow> pynum \<Rightarrow> 'w modmem \<Rightarrow> 'w modmem res" where
  "write_sint_cached = write_int_cached True"

definition write_uint :: "reg \<Rightarrow> pynum \<Rightarrow> ('w \<times> 'w modmem, unit) io" where
  "write_uint r v = then_write r (write_uint_cached r v)"

definition write_sint :: "reg \<Rightarrow> pynum \<Rightarrow> ('w \<times> 'w modmem, unit) io" where
  "write_sint r v = then_write r (write_sint_cached r v)"

definition write_converted_cached :: "py_impl \<Rightarrow> reg \<Rightarrow> pynum \<Rightarrow> 'w modmem \<Rightarrow> 'w modmem res" where
  "write_converted_cached pf r v m =
     rbind (check_value_limit r m v) (\<lambda>_.
     rbind (to_raw pf r m v) (\<lambda>raw.
     rbind (check_value_fits_reg r raw) (\<lambda>_.
       case vt_kind (rg_type r) of
         VK_sint \<Rightarrow> write_sint_cached r raw m
       | VK_uint \<Rightarrow> write_uint_cached r raw m
       | VK_bits \<Rightarrow> write_uint_cached r raw m
       | VK_flag \<Rightarrow> write_uint_cached r raw m
       | VK_char \<Rightarrow> Inl AssertionError)))"

definition write_converted :: "py_impl \<Rightarrow> reg \<Rightarrow> pynum \<Rightarrow> ('w \<times> 'w modmem, unit) io" where
  "write_converted pf r v = then_write r (write_converted_cached pf r v)"

definition read_converted :: "reg \<Rightarrow> ('w \<times> 'w modmem, pyval) io" where
  "read_converted r = after_read r read_converted_cached"

definition write_bool_cached :: "reg \<Rightarrow> bool \<Rightarrow> 'w modmem \<Rightarrow> 'w modmem res" where
  "write_bool_cached r v = write_uint_cached r (PInt (of_bool v))"

definition write_bool :: "reg \<Rightarrow> bool \<Rightarrow> ('w \<times> 'w modmem, unit) io" where
  "write_bool r v = then_write r (write_bool_cached r v)"

definition write_zero_cached :: "reg \<Rightarrow> 'w modmem \<Rightarrow> 'w modmem res" where
  "write_zero_cached r = write_uint_cached r (PInt 0)"

definition write_zero :: "reg \<Rightarrow> ('w \<times> 'w modmem, unit) io" where
  "write_zero r = then_write r (write_zero_cached r)"

section \<open>Asserts of a scalar register\<close>

text \<open>What an assert scan logs: a register or one flag of a flag register.\<close>

datatype log_item = Log_reg reg | Log_flag reg rflag

definition log_if :: "ass \<Rightarrow> ass \<Rightarrow> log_item \<Rightarrow> log_item list \<Rightarrow> log_item list" where
  "log_if log_ass a item log_f = (if log_ass \<noteq> Ass_none \<and> a \<ge> log_ass then log_f @ [item] else log_f)"

text \<open>A check is only attached to an int register (\<open>Reg_init\<close>), so it never meets a string.\<close>

definition ass_check_user_value :: "reg \<Rightarrow> 'w modmem \<Rightarrow> pyval \<Rightarrow> ass res" where
  "ass_check_user_value r m v =
     (case v of
        PNum n \<Rightarrow> ass_check_value_limit r m n
      | PStr s \<Rightarrow> (if rg_v_check r = None then Inr Ass_none else Inl TypeError))"

definition reg_ass_check_limit_cached :: "reg \<Rightarrow> 'w modmem \<Rightarrow> ass res" where
  "reg_ass_check_limit_cached r m =
     rbind (read_converted_cached r m) (ass_check_user_value r m)"

definition reg_ass_check_cached ::
  "reg \<Rightarrow> ass \<Rightarrow> log_item list \<Rightarrow> 'w modmem \<Rightarrow> (ass \<times> log_item list) res" where
  "reg_ass_check_cached r log_ass log_f m =
     (if \<not> has_limit r \<and> rg_ass r = Ass_none then Inr (Ass_none, log_f)
      else
        rbind (if has_limit r then reg_ass_check_limit_cached r m
               else rbind (read_bool_cached r m) (\<lambda>v. Inr (if v then rg_ass r else Ass_passed))) (\<lambda>a.
          Inr (a, log_if log_ass a (Log_reg r) log_f)))"

definition reg_ass_check ::
  "reg \<Rightarrow> ass \<Rightarrow> log_item list \<Rightarrow> ('w \<times> 'w modmem, ass \<times> log_item list) io" where
  "reg_ass_check r log_ass log_f =
     (if rg_ass r = Ass_none then io_return (Ass_none, log_f)
      else io_bind (read_bytes r) (\<lambda>_. mm_get (reg_ass_check_cached r log_ass log_f)))"

section \<open>Lemmas: what a write leaves in the image\<close>

definition reg_placed :: "reg \<Rightarrow> 'w modmem \<Rightarrow> int \<Rightarrow> bool" where
  "reg_placed r m a \<longleftrightarrow> rg_addr r = Some a \<and> in_module m a (rg_size r)"

definition reg_wf :: "reg \<Rightarrow> bool" where
  "reg_wf r \<longleftrightarrow> 1 \<le> vt_width (rg_type r) \<and> vt_width (rg_type r) \<le> 8 * rg_size r"

lemma reg_addr_placed [simp]: "reg_placed r m a \<Longrightarrow> reg_addr r = Inr a"
  by (simp add: reg_placed_def reg_addr_def)

lemma reg_placed_write [simp]:
  "in_module m x (int (length b)) \<Longrightarrow> reg_placed r (write_bytes_cached x b m) a = reg_placed r m a"
  by (simp add: reg_placed_def)

lemma read_bytes_cached_placed: "reg_placed r m a \<Longrightarrow> read_bytes_cached r m = Inr (read_cached a (rg_size r) m)"
  by (simp add: read_bytes_cached_def)

lemma to_bytes_le: "to_bytes i n Little sg = Inr b \<Longrightarrow> int (length b) = n \<and> le_to_int b = i mod 256 ^ nat n"
  by (auto simp: to_bytes_def Let_def le_to_int_int_to_le split: if_splits)

lemma pow2_dvd_pow256:
  assumes "0 \<le> w" and "w \<le> 8 * n"
  shows "(2 :: int) ^ nat w dvd 256 ^ nat n"
proof -
  have "(256 :: int) ^ nat n = 2 ^ (8 * nat n)" by (simp add: power_mult)
  moreover have "nat w \<le> 8 * nat n" using assms by linarith
  ultimately show ?thesis by (simp add: le_imp_power_dvd)
qed

lemma read_uint_cached_mod:
  assumes "reg_placed r m a" and "reg_wf r"
  shows "read_uint_cached r m = Inr (le_to_int (read_cached a (rg_size r) m) mod 2 ^ nat (vt_width (rg_type r)))"
proof (cases "vt_width (rg_type r) = rg_size r * 8")
  case True
  have "int (length (read_cached a (rg_size r) m)) = rg_size r"
    using assms(1) by (auto simp: reg_placed_def intro: length_read_cached)
  then have l: "length (read_cached a (rg_size r) m) = nat (rg_size r)" by simp
  have "nat (rg_size r * 8) = 8 * nat (rg_size r)"
    using assms(1) by (simp add: reg_placed_def in_module_def nat_mult_distrib)
  then have "(2 :: int) ^ nat (rg_size r * 8) = 256 ^ nat (rg_size r)" by (simp add: power_mult)
  then have "le_to_int (read_cached a (rg_size r) m) < 2 ^ nat (rg_size r * 8)"
    using le_to_int_less [of "read_cached a (rg_size r) m"] by (simp add: l)
  then show ?thesis
    using True assms(1) by (simp add: read_uint_cached_def read_bytes_cached_placed)
next
  case False
  then show ?thesis
    using assms(1) by (simp add: read_uint_cached_def read_bytes_cached_placed Let_def push_bit_eq_mult
        take_bit_eq_mask mask_eq_exp_minus_1 flip: take_bit_eq_mod)
qed

lemma write_int_cached_Inr:
  assumes "write_int_cached sg r v m = Inr m'"
  shows "\<exists>i a b u lo hi. v = PInt i \<and> rg_addr r = Some a \<and> to_bytes i (rg_size r) Little sg = Inr b \<and>
    write_allowed r b \<and> m' = write_bytes_cached a b m \<and> value_range r = Inr (lo, hi) \<and> lo \<le> i \<and> i \<le> hi \<and>
    from_raw r m v = Inr u \<and> check_value_limit r m u = Inr ()"
  using assms
  by (auto simp: write_int_cached_def check_value_fits_reg_def rbind_Inr_iff num_to_bytes_def
      reg_write_bytes_cached_def reg_addr_def py_num_int_def split: pynum.splits option.splits if_splits)

lemma read_after_write_int:
  assumes w: "write_int_cached sg r v m = Inr m'" and p: "reg_placed r m a" and wf: "reg_wf r"
  shows "\<exists>i. v = PInt i \<and> reg_placed r m' a \<and> read_uint_cached r m' = Inr (i mod 2 ^ nat (vt_width (rg_type r))) \<and>
    (\<forall>x n. in_module m x n \<and> (x + n \<le> a \<or> a + rg_size r \<le> x) \<longrightarrow> read_cached x n m' = read_cached x n m)"
proof -
  obtain i b where i: "v = PInt i" "to_bytes i (rg_size r) Little sg = Inr b" "m' = write_bytes_cached a b m"
    using write_int_cached_Inr [OF w] p by (auto simp: reg_placed_def)
  have b: "int (length b) = rg_size r" "le_to_int b = i mod 256 ^ nat (rg_size r)"
    using to_bytes_le [OF i(2)] by auto
  have im: "in_module m a (int (length b))" using p b by (simp add: reg_placed_def)
  have p': "reg_placed r m' a" using p im i(3) by simp
  have "read_cached a (rg_size r) m' = b" using read_write_cached_same [OF im] b i(3) by simp
  moreover have "(i mod 256 ^ nat (rg_size r)) mod 2 ^ nat (vt_width (rg_type r)) = i mod 2 ^ nat (vt_width (rg_type r))"
    using wf by (intro mod_mod_cancel pow2_dvd_pow256) (auto simp: reg_wf_def)
  ultimately have "read_uint_cached r m' = Inr (i mod 2 ^ nat (vt_width (rg_type r)))"
    using read_uint_cached_mod [OF p' wf] b by simp
  moreover have "read_cached x n m' = read_cached x n m"
    if "in_module m x n" "x + n \<le> a \<or> a + rg_size r \<le> x" for x n
    using read_write_cached_other [OF im that(1)] that(2) b i(3) by simp
  ultimately show ?thesis using i p' by blast
qed

lemma read_after_write_uint:
  assumes "write_uint_cached r v m = Inr m'" and "reg_placed r m a" and "reg_wf r"
    and "vt_kind (rg_type r) \<noteq> VK_sint"
  shows "\<exists>i. v = PInt i \<and> read_uint_cached r m' = Inr i"
proof -
  have "\<exists>i. v = PInt i \<and> 0 \<le> i \<and> i < 2 ^ nat (vt_width (rg_type r))"
    using write_int_cached_Inr [OF assms(1) [unfolded write_uint_cached_def]] assms(4)
    by (auto simp: value_range_def Let_def)
  then show ?thesis using read_after_write_int [OF assms(1) [unfolded write_uint_cached_def] assms(2,3)] by auto
qed

lemma read_after_write_sint:
  assumes "write_sint_cached r v m = Inr m'" and "reg_placed r m a" and "reg_wf r"
    and "vt_kind (rg_type r) = VK_sint"
  shows "\<exists>i. v = PInt i \<and> read_sint_cached r m' = Inr i"
proof -
  let ?w = "vt_width (rg_type r)"
  have "\<exists>i. v = PInt i \<and> - (2 ^ nat (?w - 1)) \<le> i \<and> i < 2 ^ nat (?w - 1)"
    using write_int_cached_Inr [OF assms(1) [unfolded write_sint_cached_def]] assms(4)
    by (auto simp: value_range_def Let_def split: if_splits)
  moreover obtain i where i: "v = PInt i" "read_uint_cached r m' = Inr (i mod 2 ^ nat ?w)"
    using read_after_write_int [OF assms(1) [unfolded write_sint_cached_def] assms(2,3)] by auto
  ultimately have "read_sint_cached r m' = Inr i"
    using cast_uint_to_sint_mod [of ?w i] assms(3) by (simp add: read_sint_cached_def reg_wf_def)
  then show ?thesis using i by simp
qed

lemma write_converted_cached_Inr:
  assumes "write_converted_cached pf r v m = Inr m'"
  shows "check_value_limit r m v = Inr () \<and> (\<exists>raw. to_raw pf r m v = Inr raw \<and>
    (vt_kind (rg_type r) = VK_sint \<and> write_sint_cached r raw m = Inr m' \<or>
     vt_kind (rg_type r) \<noteq> VK_sint \<and> vt_kind (rg_type r) \<noteq> VK_char \<and> write_uint_cached r raw m = Inr m'))"
  using assms by (cases "vt_kind (rg_type r)") (auto simp: write_converted_cached_def rbind_Inr_iff)

lemma no_write_without_access:
  assumes "rg_acc r \<in> {Acc_na, Acc_k, Acc_ro}"
  shows "\<exists>e. reg_write_bytes_cached r b m = Inl e" and "\<exists>e. write_int_cached sg r v m = Inl e"
    and "\<exists>e. write_converted_cached pf r v m = Inl e"
proof -
  have na: "\<not> write_allowed r b" for b using assms by (auto simp: write_allowed_def)
  show "\<exists>e. reg_write_bytes_cached r b m = Inl e"
    using na by (cases "rg_addr r") (auto simp: reg_write_bytes_cached_def reg_addr_def)
  have w: "\<exists>e. write_int_cached sg r v m = Inl e" for sg v
  proof (cases "write_int_cached sg r v m")
    case (Inr m')
    from write_int_cached_Inr [OF this] na show ?thesis by blast
  qed simp
  then show "\<exists>e. write_int_cached sg r v m = Inl e" .
  show "\<exists>e. write_converted_cached pf r v m = Inl e"
  proof (cases "write_converted_cached pf r v m")
    case (Inr m')
    from write_converted_cached_Inr [OF this] obtain raw where
      "write_int_cached True r raw m = Inr m' \<or> write_int_cached False r raw m = Inr m'"
      by (auto simp: write_uint_cached_def write_sint_cached_def)
    then show ?thesis using w [of True raw] w [of False raw] by auto
  qed simp
qed

lemma then_write_raises: "\<exists>e. f m = Inl e \<Longrightarrow> \<exists>e. then_write r f (w, m) = (Inl e, (w, m))"
  by (auto simp: then_write_def io_bind_run)

section \<open>A register over a device\<close>

lemma write_cached_same: "in_module m a n \<Longrightarrow> write_bytes_cached a (read_cached a n m) m = m"
proof -
  assume im: "in_module m a n"
  let ?i = "a - mm_base_addr m"
  have l: "int (length (read_cached a n m)) = n" by (rule length_read_cached [OF im])
  have i: "0 \<le> ?i" "?i + n \<le> int (length (mm_cache m))" "0 \<le> n" using im by (auto simp: in_module_def)
  let ?d = "read_cached a n m"
  have "py_slice_assign (mm_cache m) ?i (?i + int (length ?d)) ?d = mm_cache m"
  proof (rule nth_equalityI)
    show "length (py_slice_assign (mm_cache m) ?i (?i + int (length ?d)) ?d) = length (mm_cache m)"
      using py_slice_assign_inside_length [of ?i ?d "mm_cache m"] i l by simp
    fix k assume "k < length (py_slice_assign (mm_cache m) ?i (?i + int (length ?d)) ?d)"
    then have k: "k < length (mm_cache m)"
      using py_slice_assign_inside_length [of ?i ?d "mm_cache m"] i l by simp
    have "?d ! (k - nat ?i) = mm_cache m ! k" if "nat ?i \<le> k" "k < nat ?i + length ?d"
      using that i l py_slice_inside_nth [of ?i "?i + n" "mm_cache m" "k - nat ?i"]
      by (simp add: read_cached_def cache_addr_def)
    then show "py_slice_assign (mm_cache m) ?i (?i + int (length ?d)) ?d ! k = mm_cache m ! k"
      using py_slice_assign_inside_nth [of ?i ?d "mm_cache m" k] i l k by auto
  qed
  then show ?thesis by (simp add: write_bytes_cached_def cache_addr_def)
qed

text \<open>The module is used with the device, and the aligned block of the register lies in it.\<close>

definition on_device :: "'w regio \<Rightarrow> 'w modmem \<Rightarrow> reg \<Rightarrow> int \<Rightarrow> int \<Rightarrow> bool" where
  "on_device d m r a k \<longleftrightarrow> mm_regio m = d \<and> \<not> mm_use_cache m \<and> 0 < mm_byte_align m \<and> mm_byte_align m dvd a \<and>
     ceil_multiple (rg_size r) (mm_byte_align m) = Inr k \<and> reg_placed r m a \<and> in_module m a k"

lemma on_device_size: "on_device d m r a k \<Longrightarrow> 0 \<le> rg_size r \<and> rg_size r \<le> k"
  using ceil_multiple_pos [of "mm_byte_align m" "rg_size r"]
  by (auto simp: on_device_def reg_placed_def in_module_def)

lemma on_device_write [simp]:
  "in_module m x (int (length b)) \<Longrightarrow> on_device d (write_bytes_cached x b m) r a k = on_device d m r a k"
  by (simp add: on_device_def)

context module_device
begin

lemma write_cache_law:
  assumes "on_device r m g a k" and "write_allowed g (read_cached a (rg_size g) m)" and "dinv w" and "ok a k"
  shows "\<exists>w'. write_cache g (w, m) = (Inr (), (w', m)) \<and> dinv w' \<and> mem w' = mem_overlay (mem w) a (read_cached a k m)"
proof -
  let ?b = "read_cached a (rg_size g) m"
  have p: "reg_placed g m a" and im: "in_module m a (rg_size g)" using assms(1) by (auto simp: on_device_def reg_placed_def)
  have l: "int (length ?b) = rg_size g" by (rule length_read_cached [OF im])
  have same: "write_bytes_cached a ?b m = m" by (rule write_cached_same [OF im])
  obtain w' where "mod_write_bytes a ?b (w, m) = (Inr (), (w', write_bytes_cached a ?b m))" "dinv w'"
      "mem w' = mem_overlay (mem w) a (read_cached a k (write_bytes_cached a ?b m))"
    using write_bytes_law [of m a ?b k w] assms l by (auto simp: on_device_def)
  then show ?thesis
    using same p assms(2) by (simp add: write_cache_def io_bind_run read_bytes_cached_placed)
qed

lemma read_law:
  assumes "on_device r m g a k" and "rg_acc g \<noteq> Acc_k" and "dinv w" and "ok a k" and "mem_has (mem w) a k"
  shows "\<exists>w' m'. (\<forall>f. after_read g f (w, m) = (f g m', (w', m'))) \<and> dinv w' \<and> mem w' = mem w \<and>
    m' = write_bytes_cached a (mem_bytes (mem w) a k) m \<and> on_device r m' g a k \<and> read_cached a k m' = mem_bytes (mem w) a k"
proof -
  have p: "reg_placed g m a" using assms(1) by (simp add: on_device_def)
  have k: "0 \<le> rg_size g" "rg_size g \<le> k" using on_device_size [OF assms(1)] by auto
  have im: "in_module m a (int (length (mem_bytes (mem w) a k)))" using assms(1) k by (simp add: on_device_def)
  obtain w' where "mod_read_bytes a (rg_size g) (w, m) = (Inr (mem_bytes (mem w) a (rg_size g)), (w', write_bytes_cached a (mem_bytes (mem w) a k) m))"
      "dinv w'" "mem w' = mem w"
    using read_bytes_law [of m a "rg_size g" k w] assms k by (auto simp: on_device_def)
  moreover have "read_cached a k (write_bytes_cached a (mem_bytes (mem w) a k) m) = mem_bytes (mem w) a k"
    using read_write_cached_same [OF im] k by simp
  ultimately show ?thesis
    using assms(1,2) p im by (simp add: after_read_def read_bytes_def io_bind_run)
qed

lemma write_read_uint_law:
  assumes od: "on_device r m g a k" and od2: "on_device r m2 g a k" and wf: "reg_wf g"
    and kind: "vt_kind (rg_type g) \<noteq> VK_sint" and acc: "rg_acc g \<in> {Acc_rw, Acc_wt}"
    and w: "write_uint_cached g v m = Inr m1" and inv: "dinv w" "ok a k"
  shows "\<exists>i w'. v = PInt i \<and> write_uint g v (w, m) = (Inr (), (w', m1)) \<and>
    mem w' = mem_overlay (mem w) a (read_cached a k m1) \<and> fst (read_uint g (w', m2)) = Inr i"
proof -
  have p: "reg_placed g m a" using od by (simp add: on_device_def)
  obtain i where i: "v = PInt i" "read_uint_cached g m1 = Inr i"
    using read_after_write_uint [OF w p wf kind] by blast
  obtain b where b: "m1 = write_bytes_cached a b m" "int (length b) = rg_size g"
    using write_int_cached_Inr [OF w [unfolded write_uint_cached_def]] p to_bytes_le by (auto simp: reg_placed_def)
  have od1: "on_device r m1 g a k" using od p b by (simp add: reg_placed_def)
  then have p1: "reg_placed g m1 a" and im1: "in_module m1 a k" by (simp_all add: on_device_def)
  have k: "0 \<le> rg_size g" "rg_size g \<le> k" using on_device_size [OF od] by auto
  have "write_allowed g (read_cached a (rg_size g) m1)" using acc by (auto simp: write_allowed_def)
  from write_cache_law [OF od1 this inv] obtain w' where
    w': "write_cache g (w, m1) = (Inr (), (w', m1))" "dinv w'" "mem w' = mem_overlay (mem w) a (read_cached a k m1)"
    by blast
  have l: "int (length (read_cached a k m1)) = k" by (rule length_read_cached [OF im1])
  have "mem_has (mem w') a k" "mem_bytes (mem w') a k = read_cached a k m1"
    using mem_overlay_has [of "mem w" a "read_cached a k m1"] mem_overlay_bytes [of "mem w" a "read_cached a k m1"] w' l
    by simp_all
  moreover have "rg_acc g \<noteq> Acc_k" using acc by auto
  ultimately obtain w2 m2' where m2': "\<And>f :: reg \<Rightarrow> 'w modmem \<Rightarrow> int res. after_read g f (w', m2) = (f g m2', (w2, m2'))"
      "on_device r m2' g a k" "read_cached a k m2' = read_cached a k m1"
    using read_law [OF od2, of w'] w'(2) inv(2) by metis
  then have p2: "reg_placed g m2' a" and im2: "in_module m2' a k" by (simp_all add: on_device_def)
  have "take (nat (rg_size g)) (read_cached a k m2') = take (nat (rg_size g)) (read_cached a k m1)" using m2'(3) by simp
  moreover have "take (nat (rg_size g)) (read_cached a k x) = read_cached a (rg_size g) x" if "in_module x a k" for x :: "'w modmem"
  proof -
    have "int (length (read_cached a (rg_size g) x)) = rg_size g"
      using in_module_sub [OF that, of a "rg_size g"] k by (intro length_read_cached) simp
    then show ?thesis using read_cached_append [OF that k] by simp
  qed
  ultimately have "read_cached a (rg_size g) m2' = read_cached a (rg_size g) m1" using im1 im2 by metis
  then have "read_uint_cached g m2' = Inr i"
    using read_uint_cached_mod [OF p2 wf] read_uint_cached_mod [OF p1 wf] i(2) by simp
  then show ?thesis
    using i(1) w' m2'(1) w by (simp add: write_uint_def then_write_def io_bind_run read_uint_def)
qed

end

section \<open>Properties\<close>

text \<open>An example module of 16 bytes at 0x100 on the memory backed device, and three of its registers.\<close>

definition example_mem :: "regions modmem" where
  "example_mem = \<lparr>mm_regio = RegioCache_init, mm_base_addr = 0x100, mm_cache = replicate 16 0,
     mm_use_cache = False, mm_byte_align = 4\<rparr>"

definition example_reg :: "acc \<Rightarrow> value_kind \<Rightarrow> int \<Rightarrow> value_convert option \<Rightarrow> reg" where
  "example_reg a kind w cv = \<lparr>rg_name = ''R'', rg_type = \<lparr>vt_kind = kind, vt_width = w, vt_vec_len = None\<rparr>, rg_acc = a,
     rg_desc = '''', rg_size = 2, rg_elem_size = 2, rg_addr = Some 0x104, rg_ass = Ass_none, rg_v_check = None,
     rg_v_convert = cv, rg_v_type = VType_s, rg_class = RC_reg\<rparr>"



text \<open>
  Writing a user value. When the write is accepted, the value passed the check of the register,
  the conversion gave an integer, that integer is what the register now holds (masked or sign
  extended to its width, in every spare byte of the register), reading gives its inverse conversion,
  and no other byte of the module image changed.
\<close>
theorem reg_write_converted_reads_back:
  assumes "write_converted_cached pf r v m = Inr m'" and "reg_placed r m a" and "reg_wf r"
  shows "check_value_limit r m v = Inr () \<and>
    (\<exists>i. to_raw pf r m v = Inr (PInt i) \<and> read_value_cached r m' = Inr (PNum (PInt i)) \<and>
       read_converted_cached r m' = rbind (from_raw r m' (PInt i)) (\<lambda>x. Inr (PNum x))) \<and>
    (\<forall>x n. in_module m x n \<and> (x + n \<le> a \<or> a + rg_size r \<le> x) \<longrightarrow> read_cached x n m' = read_cached x n m)"
proof -
  obtain raw where raw: "check_value_limit r m v = Inr ()" "to_raw pf r m v = Inr raw"
    and ws: "vt_kind (rg_type r) = VK_sint \<and> write_sint_cached r raw m = Inr m' \<or>
      vt_kind (rg_type r) \<noteq> VK_sint \<and> vt_kind (rg_type r) \<noteq> VK_char \<and> write_uint_cached r raw m = Inr m'"
    using write_converted_cached_Inr [OF assms(1)] by blast
  have wi: "write_int_cached (vt_kind (rg_type r) = VK_sint) r raw m = Inr m'"
    using ws by (auto simp: write_uint_cached_def write_sint_cached_def)
  have val: "\<exists>i. raw = PInt i \<and> read_value_cached r m' = Inr (PNum (PInt i))"
  proof (cases "vt_kind (rg_type r) = VK_sint")
    case True
    then show ?thesis using ws read_after_write_sint [of r raw m m', OF _ assms(2,3)] by (auto simp: read_value_cached_def)
  next
    case False
    then obtain i where "raw = PInt i" "read_uint_cached r m' = Inr i"
      using ws read_after_write_uint [of r raw m m', OF _ assms(2,3)] by blast
    then show ?thesis using ws False by (cases "vt_kind (rg_type r)") (simp_all add: read_value_cached_def)
  qed
  then obtain i where i: "raw = PInt i" "read_value_cached r m' = Inr (PNum (PInt i))" by blast
  then have "read_converted_cached r m' = rbind (from_raw r m' (PInt i)) (\<lambda>x. Inr (PNum x))"
    by (simp add: read_converted_cached_def from_raw_value_def)
  then show ?thesis using raw i read_after_write_int [OF wi assms(2,3)] by blast
qed


text \<open>Q12.4 fixed point: writing 1.5 stores 24.\<close>

definition example_convert :: value_convert where
  "example_convert = \<lparr>cv_fn = (\<lambda>_ v. case v of PInt i \<Rightarrow> Inr (PInt (i * 16)) | PFlt x \<Rightarrow> Inr (PFlt (x * 16))),
     cv_fn_inv = (\<lambda>_ v. case v of PInt i \<Rightarrow> Inr (PFlt (of_int i / 16)) | PFlt x \<Rightarrow> Inr (PFlt (x / 16))),
     cv_str = ''(v * 16)'', cv_str_inv = ''(v / 16)'', cv_v_type = VType_f\<rparr>"

lemma example_placed: "reg_placed (example_reg a kind w cv) example_mem 0x104"
  by (simp add: reg_placed_def example_reg_def in_module_def example_mem_def)

theorem reg_write_converted_reads_back_witness:
  "\<exists>m' :: regions modmem. read_value_cached (example_reg Acc_rw VK_sint 12 (Some example_convert)) m' = Inr (PNum (PInt 24)) \<and>
     read_converted_cached (example_reg Acc_rw VK_sint 12 (Some example_convert)) m' = Inr (PNum (PFlt (3 / 2)))"
proof -
  let ?r = "example_reg Acc_rw VK_sint 12 (Some example_convert)"
  let ?pf = "\<lparr>pf_round = id, pf_str = (\<lambda>_. ''''), pf_ass_str = ass_str, pf_pow = (\<lambda>_ _. Inl ValueError)\<rparr>"
  let ?m = "write_bytes_cached 0x104 [24, 0] example_mem"
  have raw: "to_raw ?pf ?r example_mem (PFlt (3 / 2)) = Inr (PInt 24)"
    by (simp add: to_raw_def convert_to_raw_def example_reg_def example_convert_def round_half_away_def floor_eq_iff)
  have tb: "to_bytes 24 2 Little True = Inr [24, 0]" by code_simp
  have w: "write_converted_cached ?pf ?r (PFlt (3 / 2)) example_mem = Inr ?m"
    using raw tb
    by (simp add: write_converted_cached_def check_value_limit_def ass_check_value_limit_def less_eq_ass_def
        check_value_fits_reg_def value_range_def py_num_int_def write_sint_cached_def write_int_cached_def
        from_raw_def convert_from_raw_def num_to_bytes_def reg_write_bytes_cached_def reg_addr_def write_allowed_def
        example_reg_def example_convert_def)
  have "reg_wf ?r" by (simp add: reg_wf_def example_reg_def)
  from reg_write_converted_reads_back [OF w example_placed this] raw show ?thesis
    by (intro exI [of _ ?m]) (auto simp: from_raw_def convert_from_raw_def example_reg_def example_convert_def)
qed


end
