(* ===== verification/RegVec.thy ===== *)
theory RegVec
  imports Reg
begin

text \<open>
  \<^verbatim>\<open>pip/skmap/src/skmap/reg.py\<close>, the vector registers \<^verbatim>\<open>RegVec\<close>, the flags \<^verbatim>\<open>RFlag\<close> and the flag
  registers \<^verbatim>\<open>RegFlags\<close>. Each element of a vector lives in an aligned slot of \<open>elem_offset\<close>
  bytes; the value itself takes the first \<open>rg_elem_size\<close> of them. The methods a subclass overrides
  are dispatched on \<open>rg_class\<close> at the end.
\<close>

section \<open>Vector registers\<close>

definition byte_alignment_from_val_width :: "int \<Rightarrow> int \<Rightarrow> int" where
  "byte_alignment_from_val_width byte_align width = max byte_align (promote_to_sw_w width div 8)"

definition RegVec_init ::
  "int \<Rightarrow> string \<Rightarrow> value_type \<Rightarrow> acc \<Rightarrow> string \<Rightarrow> ass \<Rightarrow> value_check option \<Rightarrow> value_convert option \<Rightarrow>
     v_type option \<Rightarrow> reg res" where
  "RegVec_init byte_align name t a desc s check convert vt =
     rbind (Reg_init name t a desc s check convert vt) (\<lambda>r.
       case vt_vec_len t of None \<Rightarrow> Inl AssertionError
       | Some n \<Rightarrow>
           let eo = byte_alignment_from_val_width byte_align (rg_size r * 8) in
           Inr (r\<lparr>rg_size := eo * n, rg_class := RC_vec eo\<rparr>))"

definition elem_offset :: "reg \<Rightarrow> int" where
  "elem_offset r = (case rg_class r of RC_vec eo \<Rightarrow> eo | _ \<Rightarrow> 0)"

definition reg_vec_len :: "reg \<Rightarrow> int res" where
  "reg_vec_len r = (case vt_vec_len (rg_type r) of None \<Rightarrow> Inl AssertionError | Some n \<Rightarrow> Inr n)"

definition width_mask :: "reg \<Rightarrow> int" where
  "width_mask r = push_bit (nat (vt_width (rg_type r))) 1 - 1"

definition bytes_to_list_uint :: "reg \<Rightarrow> byte list \<Rightarrow> int list res" where
  "bytes_to_list_uint r b =
     rbind (bytes_to_list_int b (elem_offset r) Little False) (\<lambda>vs.
       Inr (if rg_elem_size r * 8 \<noteq> vt_width (rg_type r) then map (\<lambda>v. v AND width_mask r) vs else vs))"

definition bytes_to_list_sint :: "reg \<Rightarrow> byte list \<Rightarrow> int list res" where
  "bytes_to_list_sint r b =
     rbind (bytes_to_list_uint r b) (rmapM (\<lambda>v. cast_uint_to_sint v (vt_width (rg_type r))))"

definition bytes_to_list_bool :: "reg \<Rightarrow> byte list \<Rightarrow> bool list res" where
  "bytes_to_list_bool r b = rbind (bytes_to_list_uint r b) (\<lambda>vs. Inr (map (\<lambda>a. a \<noteq> 0) vs))"

definition read_list_uint_cached :: "reg \<Rightarrow> 'w modmem \<Rightarrow> int list res" where
  "read_list_uint_cached r m = rbind (read_bytes_cached r m) (bytes_to_list_uint r)"

definition read_list_sint_cached :: "reg \<Rightarrow> 'w modmem \<Rightarrow> int list res" where
  "read_list_sint_cached r m = rbind (read_bytes_cached r m) (bytes_to_list_sint r)"

definition read_list_bool_cached :: "reg \<Rightarrow> 'w modmem \<Rightarrow> bool list res" where
  "read_list_bool_cached r m = rbind (read_bytes_cached r m) (bytes_to_list_bool r)"

definition read_list_uint :: "reg \<Rightarrow> ('w \<times> 'w modmem, int list) io" where
  "read_list_uint r = after_read r read_list_uint_cached"

definition read_list_sint :: "reg \<Rightarrow> ('w \<times> 'w modmem, int list) io" where
  "read_list_sint r = after_read r read_list_sint_cached"

definition read_list_bool :: "reg \<Rightarrow> ('w \<times> 'w modmem, bool list) io" where
  "read_list_bool r = io_bind (read_bytes r) (\<lambda>b. io_lift (bytes_to_list_bool r b))"

subsection \<open>One element\<close>

definition idx_elem_offset :: "reg \<Rightarrow> int \<Rightarrow> int res" where
  "idx_elem_offset r i = rbind (reg_addr r) (\<lambda>a. Inr (a + i * elem_offset r))"

definition read_idx_bytes_cached :: "reg \<Rightarrow> int \<Rightarrow> 'w modmem \<Rightarrow> byte list res" where
  "read_idx_bytes_cached r i m = rbind (idx_elem_offset r i) (\<lambda>a. Inr (read_cached a (rg_elem_size r) m))"

definition read_idx_bytes :: "reg \<Rightarrow> int \<Rightarrow> ('w \<times> 'w modmem, byte list) io" where
  "read_idx_bytes r i =
     io_bind (if rg_acc r \<noteq> Acc_k
              then io_bind (io_lift (idx_elem_offset r i)) (\<lambda>a.
                   io_bind (mod_read_bytes a (rg_elem_size r)) (\<lambda>_. io_return ()))
              else io_return ()) (\<lambda>_.
       mm_get (read_idx_bytes_cached r i))"

definition write_idx_cache :: "reg \<Rightarrow> int \<Rightarrow> ('w \<times> 'w modmem, unit) io" where
  "write_idx_cache r i =
     io_bind (mm_get (read_idx_bytes_cached r i)) (\<lambda>b.
     io_bind (io_lift (idx_elem_offset r i)) (\<lambda>a. mod_write_bytes a b))"

definition write_idx_bytes_cached :: "reg \<Rightarrow> int \<Rightarrow> byte list \<Rightarrow> 'w modmem \<Rightarrow> 'w modmem res" where
  "write_idx_bytes_cached r i b m =
     rbind (rassert (write_allowed r b)) (\<lambda>_.
     rbind (rassert (int (length b) = rg_elem_size r)) (\<lambda>_.
     rbind (idx_elem_offset r i) (\<lambda>a. Inr (write_bytes_cached a b m))))"

definition then_write_idx :: "reg \<Rightarrow> int \<Rightarrow> ('w modmem \<Rightarrow> 'w modmem res) \<Rightarrow> ('w \<times> 'w modmem, unit) io" where
  "then_write_idx r i f = io_bind (mm_set f) (\<lambda>_. write_idx_cache r i)"

definition write_idx_bytes :: "reg \<Rightarrow> int \<Rightarrow> byte list \<Rightarrow> ('w \<times> 'w modmem, unit) io" where
  "write_idx_bytes r i b = then_write_idx r i (write_idx_bytes_cached r i b)"

definition read_idx_uint_cached :: "reg \<Rightarrow> int \<Rightarrow> 'w modmem \<Rightarrow> int res" where
  "read_idx_uint_cached r i m =
     rbind (read_idx_bytes_cached r i m) (\<lambda>b. Inr (le_to_int b AND width_mask r))"

definition after_read_idx :: "reg \<Rightarrow> int \<Rightarrow> ('w modmem \<Rightarrow> 'a res) \<Rightarrow> ('w \<times> 'w modmem, 'a) io" where
  "after_read_idx r i f = io_bind (read_idx_bytes r i) (\<lambda>_. mm_get f)"

definition read_idx_uint :: "reg \<Rightarrow> int \<Rightarrow> ('w \<times> 'w modmem, int) io" where
  "read_idx_uint r i = after_read_idx r i (read_idx_uint_cached r i)"

definition read_idx_sint_cached :: "reg \<Rightarrow> int \<Rightarrow> 'w modmem \<Rightarrow> int res" where
  "read_idx_sint_cached r i m =
     rbind (read_idx_uint_cached r i m) (\<lambda>v. cast_uint_to_sint v (vt_width (rg_type r)))"

definition read_idx_sint :: "reg \<Rightarrow> int \<Rightarrow> ('w \<times> 'w modmem, int) io" where
  "read_idx_sint r i = after_read_idx r i (read_idx_sint_cached r i)"

definition read_idx_bool_cached :: "reg \<Rightarrow> int \<Rightarrow> 'w modmem \<Rightarrow> bool res" where
  "read_idx_bool_cached r i m = rbind (read_idx_uint_cached r i m) (\<lambda>v. Inr (v \<noteq> 0))"

definition read_idx_bool :: "reg \<Rightarrow> int \<Rightarrow> ('w \<times> 'w modmem, bool) io" where
  "read_idx_bool r i = io_bind (read_idx_uint r i) (\<lambda>v. io_return (v \<noteq> 0))"

definition read_idx_char_cached :: "reg \<Rightarrow> int \<Rightarrow> 'w modmem \<Rightarrow> string res" where
  "read_idx_char_cached r i m =
     rbind (rassert (vt_width (rg_type r) = 8)) (\<lambda>_.
     rbind (read_idx_uint_cached r i m) (\<lambda>v. Inr (py_chr v)))"

text \<open>A Python bool is the number 0 or 1.\<close>

definition read_idx_value_cached :: "reg \<Rightarrow> int \<Rightarrow> 'w modmem \<Rightarrow> pyval res" where
  "read_idx_value_cached r i m =
     (case vt_kind (rg_type r) of
        VK_uint \<Rightarrow> rbind (read_idx_uint_cached r i m) (\<lambda>v. Inr (PNum (PInt v)))
      | VK_sint \<Rightarrow> rbind (read_idx_sint_cached r i m) (\<lambda>v. Inr (PNum (PInt v)))
      | VK_bits \<Rightarrow> rbind (read_idx_uint_cached r i m) (\<lambda>v. Inr (PNum (PInt v)))
      | VK_flag \<Rightarrow> rbind (rassert (is_bool (rg_type r))) (\<lambda>_.
                   rbind (read_idx_bool_cached r i m) (\<lambda>v. Inr (PNum (PInt (of_bool v)))))
      | VK_char \<Rightarrow> rbind (read_idx_char_cached r i m) (\<lambda>s. Inr (PStr s)))"

definition write_idx_int_cached :: "bool \<Rightarrow> reg \<Rightarrow> int \<Rightarrow> pynum \<Rightarrow> 'w modmem \<Rightarrow> 'w modmem res" where
  "write_idx_int_cached sgnd r i v m =
     rbind (check_value_fits_reg r v) (\<lambda>_.
     rbind (from_raw r m v) (\<lambda>u.
     rbind (check_value_limit r m u) (\<lambda>_.
     rbind (num_to_bytes v (rg_elem_size r) sgnd) (\<lambda>b. write_idx_bytes_cached r i b m))))"

definition write_idx_uint_cached :: "reg \<Rightarrow> int \<Rightarrow> pynum \<Rightarrow> 'w modmem \<Rightarrow> 'w modmem res" where
  "write_idx_uint_cached = write_idx_int_cached False"

definition write_idx_uint :: "reg \<Rightarrow> int \<Rightarrow> pynum \<Rightarrow> ('w \<times> 'w modmem, unit) io" where
  "write_idx_uint r i v = then_write_idx r i (write_idx_uint_cached r i v)"

definition write_idx_sint_cached :: "reg \<Rightarrow> int \<Rightarrow> pynum \<Rightarrow> 'w modmem \<Rightarrow> 'w modmem res" where
  "write_idx_sint_cached = write_idx_int_cached True"

definition write_idx_sint :: "reg \<Rightarrow> int \<Rightarrow> pynum \<Rightarrow> ('w \<times> 'w modmem, unit) io" where
  "write_idx_sint r i v = then_write_idx r i (write_idx_sint_cached r i v)"

definition read_converted_idx_cached :: "reg \<Rightarrow> int \<Rightarrow> 'w modmem \<Rightarrow> pyval res" where
  "read_converted_idx_cached r i m = rbind (read_idx_value_cached r i m) (from_raw_value r m)"

definition read_converted_idx :: "reg \<Rightarrow> int \<Rightarrow> ('w \<times> 'w modmem, pyval) io" where
  "read_converted_idx r i = after_read_idx r i (read_converted_idx_cached r i)"

definition write_converted_idx_cached :: "py_impl \<Rightarrow> reg \<Rightarrow> int \<Rightarrow> pynum \<Rightarrow> 'w modmem \<Rightarrow> 'w modmem res" where
  "write_converted_idx_cached pf r i v m =
     rbind (check_value_limit r m v) (\<lambda>_.
     rbind (to_raw pf r m v) (\<lambda>raw.
     rbind (check_value_fits_reg r raw) (\<lambda>_.
       case vt_kind (rg_type r) of
         VK_sint \<Rightarrow> write_idx_sint_cached r i raw m
       | VK_uint \<Rightarrow> write_idx_uint_cached r i raw m
       | VK_bits \<Rightarrow> write_idx_uint_cached r i raw m
       | VK_flag \<Rightarrow> write_idx_uint_cached r i raw m
       | VK_char \<Rightarrow> Inl AssertionError)))"

definition write_converted_idx :: "py_impl \<Rightarrow> reg \<Rightarrow> int \<Rightarrow> pynum \<Rightarrow> ('w \<times> 'w modmem, unit) io" where
  "write_converted_idx pf r i v = then_write_idx r i (write_converted_idx_cached pf r i v)"

subsection \<open>All elements\<close>

definition read_str_cached :: "reg \<Rightarrow> 'w modmem \<Rightarrow> string res" where
  "read_str_cached r m =
     rbind (read_bytes_cached r m) (\<lambda>b.
     rbind (reg_vec_len r) (\<lambda>n.
       rmapM (\<lambda>ii. rbind (py_index b (int ii * elem_offset r)) (\<lambda>x. Inr (char_of (unat x)))) [0..<nat n]))"

definition read_str :: "reg \<Rightarrow> ('w \<times> 'w modmem, string) io" where
  "read_str r = after_read r read_str_cached"

text \<open>The loop of \<^verbatim>\<open>_list_int_to_bytes\<close> over the values from index \<open>ii\<close> on.\<close>

fun vec_fill :: "reg \<Rightarrow> bool \<Rightarrow> nat \<Rightarrow> pynum list \<Rightarrow> byte list \<Rightarrow> byte list res" where
  "vec_fill r sgnd ii [] b = Inr b"
| "vec_fill r sgnd ii (v # vs) b =
     rbind (num_to_bytes v (rg_elem_size r) sgnd) (\<lambda>c.
       let off = int ii * elem_offset r in
       vec_fill r sgnd (Suc ii) vs (py_slice_assign b off (off + rg_elem_size r) c))"

definition vec_list_int_to_bytes :: "reg \<Rightarrow> bool \<Rightarrow> pynum list \<Rightarrow> byte list res" where
  "vec_list_int_to_bytes r sgnd vs =
     (if rg_size r < 0 then Inl ValueError else vec_fill r sgnd 0 vs (replicate (nat (rg_size r)) 0))"

definition check_value_list :: "reg \<Rightarrow> 'w modmem \<Rightarrow> pynum list \<Rightarrow> unit res" where
  "check_value_list r m vs = rbind (rmapM (check_value_limit r m) vs) (\<lambda>_. Inr ())"

definition read_list_raw_cached :: "reg \<Rightarrow> 'w modmem \<Rightarrow> int list res" where
  "read_list_raw_cached r m =
     (case vt_kind (rg_type r) of
        VK_sint \<Rightarrow> read_list_sint_cached r m
      | VK_uint \<Rightarrow> read_list_uint_cached r m
      | VK_bits \<Rightarrow> read_list_uint_cached r m
      | VK_flag \<Rightarrow> rbind (read_list_bool_cached r m) (\<lambda>vs. Inr (map of_bool vs))
      | VK_char \<Rightarrow> Inl AssertionError)"

definition vec_read_converted_cached :: "reg \<Rightarrow> 'w modmem \<Rightarrow> pynum list res" where
  "vec_read_converted_cached r m =
     rbind (read_list_raw_cached r m) (rmapM (\<lambda>v. from_raw r m (PInt v)))"

definition vec_read_converted :: "reg \<Rightarrow> ('w \<times> 'w modmem, pynum list) io" where
  "vec_read_converted r = after_read r vec_read_converted_cached"

definition write_list_int_cached :: "bool \<Rightarrow> reg \<Rightarrow> pynum list \<Rightarrow> 'w modmem \<Rightarrow> 'w modmem res" where
  "write_list_int_cached sgnd r vs m =
     rbind (rmapM (from_raw r m) vs) (\<lambda>us.
     rbind (check_value_list r m us) (\<lambda>_.
     rbind (rmapM (check_value_fits_reg r) vs) (\<lambda>_.
     rbind (vec_list_int_to_bytes r sgnd vs) (\<lambda>b. reg_write_bytes_cached r b m))))"

definition write_list_uint_cached :: "reg \<Rightarrow> pynum list \<Rightarrow> 'w modmem \<Rightarrow> 'w modmem res" where
  "write_list_uint_cached = write_list_int_cached False"

definition write_list_uint :: "reg \<Rightarrow> pynum list \<Rightarrow> ('w \<times> 'w modmem, unit) io" where
  "write_list_uint r vs = then_write r (write_list_uint_cached r vs)"

definition write_list_sint_cached :: "reg \<Rightarrow> pynum list \<Rightarrow> 'w modmem \<Rightarrow> 'w modmem res" where
  "write_list_sint_cached = write_list_int_cached True"

definition write_list_sint :: "reg \<Rightarrow> pynum list \<Rightarrow> ('w \<times> 'w modmem, unit) io" where
  "write_list_sint r vs = then_write r (write_list_sint_cached r vs)"

definition vec_write_converted_cached :: "py_impl \<Rightarrow> reg \<Rightarrow> pynum list \<Rightarrow> 'w modmem \<Rightarrow> 'w modmem res" where
  "vec_write_converted_cached pf r vs m =
     rbind (reg_vec_len r) (\<lambda>n.
     rbind (rassert (int (length vs) = n)) (\<lambda>_.
     rbind (rmapM (\<lambda>v. rbind (check_value_limit r m v) (\<lambda>_.
                       rbind (to_raw pf r m v) (\<lambda>raw.
                       rbind (check_value_fits_reg r raw) (\<lambda>_. Inr raw)))) vs) (\<lambda>raws.
       case vt_kind (rg_type r) of
         VK_sint \<Rightarrow> write_list_sint_cached r raws m
       | VK_uint \<Rightarrow> write_list_uint_cached r raws m
       | VK_bits \<Rightarrow> write_list_uint_cached r raws m
       | _ \<Rightarrow> Inl AssertionError)))"

definition vec_write_converted :: "py_impl \<Rightarrow> reg \<Rightarrow> pynum list \<Rightarrow> ('w \<times> 'w modmem, unit) io" where
  "vec_write_converted pf r vs = then_write r (vec_write_converted_cached pf r vs)"

subsection \<open>Asserts of a vector\<close>

definition vec_ass_check_limit_cached :: "reg \<Rightarrow> 'w modmem \<Rightarrow> ass res" where
  "vec_ass_check_limit_cached r m =
     rbind (reg_vec_len r) (\<lambda>n.
     rbind (rmapM (\<lambda>i. rbind (read_converted_idx_cached r (int i) m) (ass_check_user_value r m)) [0..<nat n])
       (\<lambda>vs. Inr (foldl max Ass_none vs)))"

definition vec_ass_check_cached ::
  "reg \<Rightarrow> ass \<Rightarrow> log_item list \<Rightarrow> 'w modmem \<Rightarrow> (ass \<times> log_item list) res" where
  "vec_ass_check_cached r log_ass log_f m =
     (if \<not> has_limit r \<and> rg_ass r = Ass_none then Inr (Ass_none, log_f)
      else
        rbind (if has_limit r then vec_ass_check_limit_cached r m
               else rbind (read_list_bool_cached r m) (\<lambda>vs.
                 if vs = [] then Inl ValueError else Inr (if True \<in> set vs then rg_ass r else Ass_passed))) (\<lambda>a.
          Inr (a, log_if log_ass a (Log_reg r) log_f)))"

definition vec_ass_check ::
  "reg \<Rightarrow> ass \<Rightarrow> log_item list \<Rightarrow> ('w \<times> 'w modmem, ass \<times> log_item list) io" where
  "vec_ass_check r log_ass log_f = after_read r (\<lambda>r. vec_ass_check_cached r log_ass log_f)"

definition vec_ass_check_cached_idx ::
  "reg \<Rightarrow> int \<Rightarrow> ass \<Rightarrow> log_item list \<Rightarrow> 'w modmem \<Rightarrow> (ass \<times> log_item list) res" where
  "vec_ass_check_cached_idx r i log_ass log_f m =
     (if \<not> has_limit r \<and> rg_ass r = Ass_none then Inr (Ass_none, log_f)
      else
        rbind (if has_limit r then rbind (read_converted_idx_cached r i m) (ass_check_user_value r m)
               else rbind (read_idx_bool_cached r i m) (\<lambda>v. Inr (if v then rg_ass r else Ass_passed))) (\<lambda>a.
          Inr (a, log_if log_ass a (Log_reg r) log_f)))"

definition vec_ass_check_idx ::
  "reg \<Rightarrow> int \<Rightarrow> ass \<Rightarrow> log_item list \<Rightarrow> ('w \<times> 'w modmem, ass \<times> log_item list) io" where
  "vec_ass_check_idx r i log_ass log_f = after_read_idx r i (vec_ass_check_cached_idx r i log_ass log_f)"

section \<open>Constants\<close>

definition RegK_init ::
  "string \<Rightarrow> value_type \<Rightarrow> string \<Rightarrow> ass \<Rightarrow> value_check option \<Rightarrow> value_convert option \<Rightarrow> v_type option \<Rightarrow> reg res" where
  "RegK_init name t desc s check convert vt = Reg_init name t Acc_k desc s check convert vt"

definition RegVecK_init ::
  "int \<Rightarrow> string \<Rightarrow> value_type \<Rightarrow> string \<Rightarrow> ass \<Rightarrow> value_check option \<Rightarrow> value_convert option \<Rightarrow> v_type option \<Rightarrow>
     reg res" where
  "RegVecK_init byte_align name t desc s check convert vt =
     RegVec_init byte_align name t Acc_k desc s check convert vt"

definition k_read_int :: "reg \<Rightarrow> ('w \<times> 'w modmem, int) io" where
  "k_read_int r = mm_get (read_uint_cached r)"

section \<open>Flags\<close>

text \<open>\<^verbatim>\<open>1 << n\<close>\<close>

definition py_shl :: "int \<Rightarrow> int \<Rightarrow> int res" where
  "py_shl v n = (if n < 0 then Inl ValueError else Inr (push_bit (nat n) v))"

definition flag_ass :: "rflag \<Rightarrow> bool \<Rightarrow> ass" where
  "flag_ass f v = (if rf_ass f = Ass_none then Ass_none else if \<not> v then Ass_passed else rf_ass f)"

definition flag_ass_list :: "rflag \<Rightarrow> bool list \<Rightarrow> ass" where
  "flag_ass_list f vs = flag_ass f (True \<in> set vs)"

definition flag_read_bool_cached :: "reg \<Rightarrow> rflag \<Rightarrow> 'w modmem \<Rightarrow> bool res" where
  "flag_read_bool_cached r f m =
     rbind (rassert (rf_vec_len f = None \<or> rf_vec_len f = Some 1)) (\<lambda>_.
     rbind (read_uint_cached r m) (\<lambda>v.
     rbind (py_shl 1 (rf_bit f)) (\<lambda>mask. Inr (v AND mask \<noteq> 0))))"

definition flag_read_bool :: "reg \<Rightarrow> rflag \<Rightarrow> ('w \<times> 'w modmem, bool) io" where
  "flag_read_bool r f = after_read r (\<lambda>r. flag_read_bool_cached r f)"

text \<open>\<^verbatim>\<open>b[i] = v\<close> on a \<^verbatim>\<open>bytearray\<close>\<close>

definition byte_assign :: "byte list \<Rightarrow> int \<Rightarrow> int \<Rightarrow> byte list res" where
  "byte_assign b i v =
     (if i < - int (length b) \<or> int (length b) \<le> i then Inl IndexError
      else if v < 0 \<or> 255 < v then Inl ValueError
      else Inr (b[nat (if i < 0 then i + int (length b) else i) := word_of_int v]))"

definition flag_write_bool_cached :: "reg \<Rightarrow> rflag \<Rightarrow> bool \<Rightarrow> 'w modmem \<Rightarrow> 'w modmem res" where
  "flag_write_bool_cached r f v m =
     rbind (read_bytes_cached r m) (\<lambda>b.
       let ii_byte = rf_bit f div 8; ii_bit = rf_bit f mod 8 in
       rbind (py_index b ii_byte) (\<lambda>x.
       rbind (set_bit_at (uint x) ii_bit v) (\<lambda>y.
       rbind (byte_assign b ii_byte y) (\<lambda>b'. reg_write_bytes_cached r b' m))))"

definition flag_write_bool :: "reg \<Rightarrow> rflag \<Rightarrow> bool \<Rightarrow> ('w \<times> 'w modmem, unit) io" where
  "flag_write_bool r f v = then_write r (flag_write_bool_cached r f v)"

definition flag_vec_len :: "rflag \<Rightarrow> int res" where
  "flag_vec_len f = (case rf_vec_len f of None \<Rightarrow> Inl AssertionError | Some n \<Rightarrow> Inr n)"

definition flag_read_list_bool_cached :: "reg \<Rightarrow> rflag \<Rightarrow> 'w modmem \<Rightarrow> bool list res" where
  "flag_read_list_bool_cached r f m =
     rbind (flag_vec_len f) (\<lambda>n.
     rbind (read_uint_cached r m) (\<lambda>v.
       rmapM (\<lambda>ii. rbind (py_shl 1 (rf_bit f + int ii)) (\<lambda>mask. Inr (v AND mask \<noteq> 0))) [0..<nat n]))"

definition flag_read_list_bool :: "reg \<Rightarrow> rflag \<Rightarrow> ('w \<times> 'w modmem, bool list) io" where
  "flag_read_list_bool r f = io_bind (read_cache r) (\<lambda>_. mm_get (flag_read_list_bool_cached r f))"

fun flag_bits :: "int \<Rightarrow> bool list \<Rightarrow> int \<Rightarrow> int res" where
  "flag_bits pos [] acc = Inr acc"
| "flag_bits pos (b # bs) acc = rbind (py_shl (of_bool b) pos) (\<lambda>x. flag_bits (pos + 1) bs (acc OR x))"

definition flag_write_list_bool_cached :: "reg \<Rightarrow> rflag \<Rightarrow> bool list \<Rightarrow> 'w modmem \<Rightarrow> 'w modmem res" where
  "flag_write_list_bool_cached r f vs m =
     rbind (flag_vec_len f) (\<lambda>n.
     rbind (rassert (int (length vs) = n)) (\<lambda>_.
     rbind (flag_bits (rf_bit f) vs 0) (\<lambda>wr_uint.
     rbind (py_shl 1 n) (\<lambda>top.
     rbind (py_shl (top - 1) (rf_bit f)) (\<lambda>wr_mask.
     rbind (read_uint_cached r m) (\<lambda>rd_uint.
       write_uint_cached r (PInt (set_bits rd_uint wr_mask wr_uint)) m))))))"

definition flag_write_list_bool :: "reg \<Rightarrow> rflag \<Rightarrow> bool list \<Rightarrow> ('w \<times> 'w modmem, unit) io" where
  "flag_write_list_bool r f vs = then_write r (flag_write_list_bool_cached r f vs)"

definition flag_ass_check :: "reg \<Rightarrow> rflag \<Rightarrow> ('w \<times> 'w modmem, ass) io" where
  "flag_ass_check r f = io_bind (flag_read_bool r f) (\<lambda>v. io_return (flag_ass f v))"

definition flag_ass_check_cached :: "reg \<Rightarrow> rflag \<Rightarrow> 'w modmem \<Rightarrow> ass res" where
  "flag_ass_check_cached r f m = rbind (flag_read_bool_cached r f m) (\<lambda>v. Inr (flag_ass f v))"

section \<open>Flag registers\<close>

definition RegFlags_init ::
  "string \<Rightarrow> int \<Rightarrow> rflag list \<Rightarrow> acc \<Rightarrow> string \<Rightarrow> ass \<Rightarrow> value_check option \<Rightarrow> value_convert option \<Rightarrow>
     v_type option \<Rightarrow> reg res" where
  "RegFlags_init name width flags a desc s check convert vt =
     rbind (ValueType_init VK_flag width None) (\<lambda>t.
     rbind (Reg_init name t a desc s check convert vt) (\<lambda>r. Inr (r\<lparr>rg_class := RC_flags flags\<rparr>)))"

definition RegFlagsK_init ::
  "string \<Rightarrow> int \<Rightarrow> rflag list \<Rightarrow> string \<Rightarrow> ass \<Rightarrow> value_check option \<Rightarrow> value_convert option \<Rightarrow>
     v_type option \<Rightarrow> reg res" where
  "RegFlagsK_init name width flags desc s check convert vt = RegFlags_init name width flags Acc_k desc s check convert vt"

definition reg_flags :: "reg \<Rightarrow> rflag list" where
  "reg_flags r = (case rg_class r of RC_flags fs \<Rightarrow> fs | _ \<Rightarrow> [])"

text \<open>The scan of the flags, with the worst assert so far.\<close>

fun flags_scan :: "reg \<Rightarrow> ass \<Rightarrow> int \<Rightarrow> rflag list \<Rightarrow> ass \<Rightarrow> log_item list \<Rightarrow> (ass \<times> log_item list) res" where
  "flags_scan r log_ass value_int [] result log_f = Inr (result, log_f)"
| "flags_scan r log_ass value_int (f # fs) result log_f =
     (if rf_bit f < 0 then Inl ValueError
      else
        let v = odd (drop_bit (nat (rf_bit f)) value_int);
            a = flag_ass f v
        in flags_scan r log_ass value_int fs (if a > result then a else result)
             (log_if log_ass a (Log_flag r f) log_f))"

definition flags_ass_check_cached ::
  "reg \<Rightarrow> ass \<Rightarrow> log_item list \<Rightarrow> 'w modmem \<Rightarrow> (ass \<times> log_item list) res" where
  "flags_ass_check_cached r log_ass log_f m =
     rbind (read_uint_cached r m) (\<lambda>value_int. flags_scan r log_ass value_int (reg_flags r) Ass_none log_f)"

definition flags_has_ass :: "reg \<Rightarrow> bool" where
  "flags_has_ass r \<longleftrightarrow> list_ex (\<lambda>f. rf_ass f \<noteq> Ass_none) (reg_flags r)"

definition flags_ass_check ::
  "reg \<Rightarrow> ass \<Rightarrow> log_item list \<Rightarrow> ('w \<times> 'w modmem, ass \<times> log_item list) io" where
  "flags_ass_check r log_ass log_f = io_bind (read_cache r) (\<lambda>_. mm_get (flags_ass_check_cached r log_ass log_f))"

section \<open>Overridden methods\<close>

definition m_has_ass :: "reg \<Rightarrow> bool" where
  "m_has_ass r = (case rg_class r of RC_flags fs \<Rightarrow> flags_has_ass r | _ \<Rightarrow> reg_has_ass r)"

definition m_ass_check_cached ::
  "reg \<Rightarrow> ass \<Rightarrow> log_item list \<Rightarrow> 'w modmem \<Rightarrow> (ass \<times> log_item list) res" where
  "m_ass_check_cached r =
     (case rg_class r of
        RC_reg \<Rightarrow> reg_ass_check_cached r
      | RC_vec eo \<Rightarrow> vec_ass_check_cached r
      | RC_flags fs \<Rightarrow> flags_ass_check_cached r)"

definition m_ass_check ::
  "reg \<Rightarrow> ass \<Rightarrow> log_item list \<Rightarrow> ('w \<times> 'w modmem, ass \<times> log_item list) io" where
  "m_ass_check r =
     (case rg_class r of
        RC_reg \<Rightarrow> reg_ass_check r
      | RC_vec eo \<Rightarrow> vec_ass_check r
      | RC_flags fs \<Rightarrow> flags_ass_check r)"

section \<open>Lemmas: the slots of a vector\<close>

definition vec_wf :: "reg \<Rightarrow> nat \<Rightarrow> bool" where
  "vec_wf r n \<longleftrightarrow> (\<exists>eo. rg_class r = RC_vec eo \<and> 0 < rg_elem_size r \<and> rg_elem_size r \<le> eo \<and> rg_size r = eo * int n) \<and>
     vt_vec_len (rg_type r) = Some (int n) \<and> 1 \<le> vt_width (rg_type r) \<and> vt_width (rg_type r) \<le> 8 * rg_elem_size r"

lemma vec_wfD:
  assumes "vec_wf r n"
  shows "0 < rg_elem_size r" and "rg_elem_size r \<le> elem_offset r" and "rg_size r = elem_offset r * int n"
    and "reg_vec_len r = Inr (int n)" and "0 \<le> vt_width (rg_type r)" and "1 \<le> vt_width (rg_type r)"
    and "vt_width (rg_type r) \<le> 8 * rg_elem_size r"
  using assms by (auto simp: vec_wf_def elem_offset_def reg_vec_len_def)

lemma RegVec_init_wf:
  assumes "RegVec_init byte_align name t a desc s c cv vt = Inr r" and "1 \<le> vt_width t" and "vt_vec_len t = Some (int n)"
  shows "vec_wf r n"
proof -
  have e: "0 < elem_size t" "8 * elem_size t = promote_to_sw_w (vt_width t)" "vt_width t \<le> 8 * elem_size t"
    using elem_size_fits [OF assms(2)] elem_size_bits [OF assms(2)] promote_to_sw_w_ge [OF assms(2)] by auto
  have "8 * elem_size t \<le> promote_to_sw_w (8 * elem_size t)" using e by (intro promote_to_sw_w_ge) simp
  then have "elem_size t \<le> byte_alignment_from_val_width byte_align (elem_size t * 8)"
    by (simp add: byte_alignment_from_val_width_def mult.commute)
  then show ?thesis
    using assms e by (auto simp: RegVec_init_def Reg_init_def vec_wf_def rbind_Inr_iff Let_def elem_size_def)
qed

text \<open>The slot of element \<open>k\<close>, and the value that starts it.\<close>

lemma idx_elem_offset_placed: "reg_placed r m a \<Longrightarrow> idx_elem_offset r i = Inr (a + i * elem_offset r)"
  by (simp add: idx_elem_offset_def)

lemma slot_inside:
  assumes "vec_wf r n" and "k < n"
  shows "0 \<le> int k * elem_offset r \<and> int k * elem_offset r + elem_offset r \<le> rg_size r"
proof -
  have "(int k + 1) * elem_offset r \<le> int n * elem_offset r"
    using assms vec_wfD(1,2) [OF assms(1)] by (intro mult_right_mono) auto
  then show ?thesis using vec_wfD(1,2,3) [OF assms(1)] by (simp add: algebra_simps)
qed

lemma slots_disjoint:
  assumes "vec_wf r n" and "j \<noteq> k"
  shows "int j * elem_offset r + elem_offset r \<le> int k * elem_offset r \<or>
    int k * elem_offset r + elem_offset r \<le> int j * elem_offset r"
proof -
  have e: "0 \<le> elem_offset r" using vec_wfD(1,2) [OF assms(1)] by simp
  have "(int x + 1) * elem_offset r \<le> int y * elem_offset r" if "x < y" for x y
    using that e by (intro mult_right_mono) auto
  then show ?thesis using assms(2) by (cases "j < k") (force simp: algebra_simps)+
qed

lemma read_idx_bytes_placed:
  "reg_placed r m a \<Longrightarrow> read_idx_bytes_cached r i m = Inr (read_cached (a + i * elem_offset r) (rg_elem_size r) m)"
  by (simp add: read_idx_bytes_cached_def idx_elem_offset_placed)

lemma and_width_mask: "0 \<le> vt_width (rg_type r) \<Longrightarrow> v AND width_mask r = v mod 2 ^ nat (vt_width (rg_type r))"
  by (simp add: width_mask_def push_bit_eq_mult take_bit_eq_mask mask_eq_exp_minus_1 flip: take_bit_eq_mod)

lemma read_idx_uint_placed:
  "reg_placed r m a \<Longrightarrow> vec_wf r n \<Longrightarrow> read_idx_uint_cached r i m =
     Inr (le_to_int (read_cached (a + i * elem_offset r) (rg_elem_size r) m) mod 2 ^ nat (vt_width (rg_type r)))"
  by (simp add: read_idx_uint_cached_def read_idx_bytes_placed and_width_mask vec_wfD)

lemma bytes_to_list_slots:
  assumes "0 < e" and "length b = n * e"
  shows "bytes_to_list_int b (int e) Little False = Inr (map (\<lambda>k. le_to_int (take e (drop (k * e) b))) [0..<n])"
proof -
  have "int (length b) mod int e = 0" "int (length b) div int e = int n" using assms by simp_all
  moreover have "py_slice b (int k * int e) (int k * int e + int e) = take e (drop (k * e) b)" if "k < n" for k
  proof -
    have "Suc k * e \<le> n * e" using that by (intro mult_le_mono1) simp
    then have "int k * int e + int e \<le> int (length b)" using assms(2) by (simp flip: of_nat_mult of_nat_add)
    then show ?thesis by (simp add: py_slice_inside nat_mult_distrib)
  qed
  ultimately show ?thesis using assms(1) by (simp add: bytes_to_list_int_def)
qed

lemma read_list_uint_placed:
  assumes p: "reg_placed r m a" and wf: "vec_wf r n"
  shows "read_list_uint_cached r m = Inr (map (\<lambda>k.
    let x = le_to_int (read_cached (a + int k * elem_offset r) (elem_offset r) m) in
    if rg_elem_size r * 8 \<noteq> vt_width (rg_type r) then x mod 2 ^ nat (vt_width (rg_type r)) else x) [0..<n])"
proof -
  let ?e = "nat (elem_offset r)"
  let ?b = "read_cached a (rg_size r) m"
  have e: "0 < elem_offset r" "int ?e = elem_offset r" using vec_wfD(1,2) [OF wf] by auto
  have im: "in_module m a (rg_size r)" using p by (simp add: reg_placed_def)
  have "int (length ?b) = int n * int ?e" using length_read_cached [OF im] vec_wfD(3) [OF wf] e by (simp add: mult.commute)
  then have lb: "length ?b = n * ?e" by (metis of_nat_mult of_nat_eq_iff)
  have "take ?e (drop (k * ?e) ?b) = read_cached (a + int k * elem_offset r) (elem_offset r) m" if "k < n" for k
    using read_cached_sub [OF im, of "int k * elem_offset r" "elem_offset r"] slot_inside [OF wf that] e(1)
    by (simp add: nat_mult_distrib)
  then have "map (\<lambda>k. le_to_int (take ?e (drop (k * ?e) ?b))) [0..<n] =
      map (\<lambda>k. le_to_int (read_cached (a + int k * elem_offset r) (elem_offset r) m)) [0..<n]" by simp
  then have "bytes_to_list_int ?b (elem_offset r) Little False =
      Inr (map (\<lambda>k. le_to_int (read_cached (a + int k * elem_offset r) (elem_offset r) m)) [0..<n])"
    using bytes_to_list_slots [OF _ lb] e by simp
  then show ?thesis
    using p vec_wfD(5) [OF wf] by (simp add: read_list_uint_cached_def read_bytes_cached_placed bytes_to_list_uint_def
        and_width_mask Let_def)
qed

text \<open>What \<open>vec_fill\<close> writes: every value at the start of its slot, zeros in the rest of the slot.\<close>

definition slot_bytes :: "reg \<Rightarrow> byte list \<Rightarrow> byte list" where
  "slot_bytes r c = c @ replicate (nat (elem_offset r) - length c) 0"

lemma le_to_int_zeros [simp]: "le_to_int (replicate k 0) = 0"
  by (induction k) simp_all

lemma le_to_int_slot [simp]: "le_to_int (slot_bytes r c) = le_to_int c"
  by (simp add: slot_bytes_def le_to_int_append)

lemma num_to_bytes_Inr:
  "num_to_bytes v n sg = Inr c \<Longrightarrow> \<exists>i. v = PInt i \<and> int (length c) = n \<and> le_to_int c = i mod 256 ^ nat n"
  using to_bytes_le by (auto simp: num_to_bytes_def split: pynum.splits)

lemma vec_fill_concat:
  assumes e: "0 < rg_elem_size r" "rg_elem_size r \<le> elem_offset r"
  shows "length pre = ii * nat (elem_offset r) \<Longrightarrow>
    vec_fill r sg ii vs (pre @ replicate (length vs * nat (elem_offset r)) 0)
      = rbind (rmapM (\<lambda>v. num_to_bytes v (rg_elem_size r) sg) vs) (\<lambda>cs. Inr (pre @ concat (map (slot_bytes r) cs)))"
proof (induction vs arbitrary: ii pre)
  case (Cons v vs)
  show ?case
  proof (cases "num_to_bytes v (rg_elem_size r) sg")
    case (Inr c)
    let ?e = "nat (elem_offset r)"
    have len: "int (length c) = rg_elem_size r" using num_to_bytes_Inr [OF Inr] by auto
    let ?b = "pre @ replicate (length (v # vs) * ?e) (0::byte)"
    have le: "length c \<le> ?e" using len e by linarith
    have idx: "int ii * elem_offset r = int (length pre)" using Cons.prems e by simp
    have "length pre + length c \<le> length ?b" using le by simp
    then have fit: "int (length pre) + int (length c) \<le> int (length ?b)" by linarith
    have "py_slice_assign ?b (int (length pre)) (int (length pre) + int (length c)) c
        = take (nat (int (length pre))) ?b @ c @ drop (nat (int (length pre)) + length c) ?b"
      by (rule py_slice_assign_inside) (use fit in auto)
    also have "drop (nat (int (length pre)) + length c) ?b = replicate (?e - length c) 0 @ replicate (length vs * ?e) 0"
      using le by (simp add: replicate_add [symmetric])
    finally have "py_slice_assign ?b (int ii * elem_offset r) (int ii * elem_offset r + rg_elem_size r) c
        = (pre @ slot_bytes r c) @ replicate (length vs * ?e) 0"
      using idx len by (simp add: slot_bytes_def)
    moreover have "length (pre @ slot_bytes r c) = Suc ii * ?e" using Cons.prems le by (simp add: slot_bytes_def)
    ultimately show ?thesis using Cons.IH [of "pre @ slot_bytes r c" "Suc ii"] Inr
      by (simp add: rbind_assoc Let_def)
  qed simp
qed simp

lemma vec_list_bytes:
  assumes wf: "vec_wf r n" and len: "length vs = n" and ok: "vec_list_int_to_bytes r sg vs = Inr b"
  shows "\<exists>cs. rmapM (\<lambda>v. num_to_bytes v (rg_elem_size r) sg) vs = Inr cs \<and> b = concat (map (slot_bytes r) cs) \<and>
    length cs = n \<and> (\<forall>c \<in> set (map (slot_bytes r) cs). length c = nat (elem_offset r))"
proof -
  note w = vec_wfD [OF wf]
  have "nat (rg_size r) = length vs * nat (elem_offset r)" using w(1-3) len by (simp add: nat_mult_distrib)
  then obtain cs where cs: "rmapM (\<lambda>v. num_to_bytes v (rg_elem_size r) sg) vs = Inr cs" "b = concat (map (slot_bytes r) cs)"
    using vec_fill_concat [OF w(1,2), of "[]" 0 sg vs] ok by (auto simp: vec_list_int_to_bytes_def rbind_Inr_iff split: if_splits)
  have lcs: "length cs = length vs" using cs(1) by (rule rmapM_Inr_length)
  have "length (slot_bytes r (cs ! k)) = nat (elem_offset r)" if "k < length vs" for k
    using num_to_bytes_Inr [OF rmapM_Inr_nth [OF cs(1) that]] w(2) by (auto simp: slot_bytes_def)
  then have "\<forall>c \<in> set (map (slot_bytes r) cs). length c = nat (elem_offset r)"
    using lcs by (auto simp: in_set_conv_nth)
  then show ?thesis using cs lcs len by blast
qed

lemma write_list_int_Inr:
  assumes "write_list_int_cached sg r vs m = Inr m'" and p: "reg_placed r m a"
  shows "\<exists>b. vec_list_int_to_bytes r sg vs = Inr b \<and> int (length b) = rg_size r \<and> m' = write_bytes_cached a b m \<and>
    (\<forall>v \<in> set vs. check_value_fits_reg r v = Inr ())"
proof -
  have "\<forall>v \<in> set vs. check_value_fits_reg r v = Inr ()" if "rmapM (check_value_fits_reg r) vs = Inr us" for us
    using rmapM_Inr_nth [OF that] by (auto simp: in_set_conv_nth)
  then show ?thesis
    using assms by (auto simp: write_list_int_cached_def reg_write_bytes_cached_def rbind_Inr_iff)
qed

lemma slots_after_write_list:
  assumes w: "write_list_int_cached sg r vs m = Inr m'" and p: "reg_placed r m a" and wf: "vec_wf r n" and len: "length vs = n"
  shows "reg_placed r m' a \<and> (\<forall>k < n. \<exists>i. vs ! k = PInt i \<and> check_value_fits_reg r (PInt i) = Inr () \<and>
    (\<exists>c. read_cached (a + int k * elem_offset r) (elem_offset r) m' = slot_bytes r c \<and>
      read_cached (a + int k * elem_offset r) (rg_elem_size r) m' = c \<and> le_to_int c = i mod 256 ^ nat (rg_elem_size r)))"
proof -
  note w5 = vec_wfD [OF wf]
  let ?e = "nat (elem_offset r)"
  obtain b where b: "vec_list_int_to_bytes r sg vs = Inr b" "int (length b) = rg_size r" "m' = write_bytes_cached a b m"
      "\<forall>v \<in> set vs. check_value_fits_reg r v = Inr ()"
    using write_list_int_Inr [OF w p] by blast
  obtain cs where cs: "rmapM (\<lambda>v. num_to_bytes v (rg_elem_size r) sg) vs = Inr cs" "b = concat (map (slot_bytes r) cs)"
      "length cs = n" "\<forall>c \<in> set (map (slot_bytes r) cs). length c = ?e"
    using vec_list_bytes [OF wf len b(1)] by blast
  have im: "in_module m a (int (length b))" using p b by (simp add: reg_placed_def)
  have p': "reg_placed r m' a" using p im b(3) by simp
  have im': "in_module m' a (rg_size r)" using p' by (simp add: reg_placed_def)
  have rb: "read_cached a (rg_size r) m' = b" using read_write_cached_same [OF im] b by simp
  have "\<exists>i. vs ! k = PInt i \<and> check_value_fits_reg r (PInt i) = Inr () \<and>
      read_cached (a + int k * elem_offset r) (elem_offset r) m' = slot_bytes r (cs ! k) \<and>
      read_cached (a + int k * elem_offset r) (rg_elem_size r) m' = cs ! k \<and>
      le_to_int (cs ! k) = i mod 256 ^ nat (rg_elem_size r)" if k: "k < n" for k
  proof -
    have nt: "num_to_bytes (vs ! k) (rg_elem_size r) sg = Inr (cs ! k)" using rmapM_Inr_nth [OF cs(1)] k len by simp
    obtain i where i: "vs ! k = PInt i" "int (length (cs ! k)) = rg_elem_size r" "le_to_int (cs ! k) = i mod 256 ^ nat (rg_elem_size r)"
      using num_to_bytes_Inr [OF nt] by blast
    have "take ?e (drop (k * ?e) b) = slot_bytes r (cs ! k)"
      using concat_const_length_nth [of "map (slot_bytes r) cs" ?e k] cs(2-4) k by auto
    then have sl: "read_cached (a + int k * elem_offset r) (elem_offset r) m' = slot_bytes r (cs ! k)"
      using read_cached_sub [OF im', of "int k * elem_offset r" "elem_offset r"] slot_inside [OF wf k] w5(1,2) rb
      by (simp add: nat_mult_distrib)
    have "in_module m' (a + int k * elem_offset r) (elem_offset r)"
      using in_module_sub [OF im'] slot_inside [OF wf k] w5(1,2) by simp
    from read_cached_sub [OF this, of 0 "rg_elem_size r"]
    have "read_cached (a + int k * elem_offset r) (rg_elem_size r) m' = take (nat (rg_elem_size r)) (slot_bytes r (cs ! k))"
      using sl w5(1,2) by simp
    also have "\<dots> = cs ! k" using i(2) by (simp add: slot_bytes_def flip: i(2))
    finally have "read_cached (a + int k * elem_offset r) (rg_elem_size r) m' = cs ! k" .
    moreover have "check_value_fits_reg r (PInt i) = Inr ()" using b(4) i(1) k len nth_mem by metis
    ultimately show ?thesis using i sl by blast
  qed
  then show ?thesis using p' by blast
qed

lemma fits_reads_back:
  assumes "check_value_fits_reg r (PInt i) = Inr ()" and "1 \<le> vt_width (rg_type r)"
  shows "vt_kind (rg_type r) \<noteq> VK_sint \<Longrightarrow> i mod 2 ^ nat (vt_width (rg_type r)) = i"
    and "vt_kind (rg_type r) = VK_sint \<Longrightarrow>
      cast_uint_to_sint (i mod 2 ^ nat (vt_width (rg_type r))) (vt_width (rg_type r)) = Inr i"
  using assms cast_uint_to_sint_mod [OF assms(2), of i]
  by (auto simp: check_value_fits_reg_def value_range_def py_num_int_def Let_def split: if_splits)

lemma elem_mod:
  fixes i :: int
  assumes "vec_wf r n"
  shows "i mod 256 ^ nat (rg_elem_size r) mod 2 ^ nat (vt_width (rg_type r)) = i mod 2 ^ nat (vt_width (rg_type r))"
    and "rg_elem_size r * 8 = vt_width (rg_type r) \<Longrightarrow>
      i mod 256 ^ nat (rg_elem_size r) = i mod 2 ^ nat (vt_width (rg_type r))"
proof -
  note w = vec_wfD [OF assms]
  show "i mod 256 ^ nat (rg_elem_size r) mod 2 ^ nat (vt_width (rg_type r)) = i mod 2 ^ nat (vt_width (rg_type r))"
    using w(5,7) by (intro mod_mod_cancel pow2_dvd_pow256) auto
  assume "rg_elem_size r * 8 = vt_width (rg_type r)"
  then have "nat (vt_width (rg_type r)) = 8 * nat (rg_elem_size r)" using w(1) by linarith
  then show "i mod 256 ^ nat (rg_elem_size r) = i mod 2 ^ nat (vt_width (rg_type r))" by (simp add: power_mult)
qed

lemma reads_after_write_list:
  assumes "write_list_int_cached sg r vs m = Inr m'" and "reg_placed r m a" and wf: "vec_wf r n" and len: "length vs = n"
  shows "\<exists>is. vs = map PInt is \<and> (\<forall>i \<in> set is. check_value_fits_reg r (PInt i) = Inr ()) \<and>
    read_list_uint_cached r m' = Inr (map (\<lambda>i. i mod 2 ^ nat (vt_width (rg_type r))) is) \<and>
    (\<forall>k < n. read_idx_uint_cached r (int k) m' = Inr (is ! k mod 2 ^ nat (vt_width (rg_type r))))"
proof -
  have p': "reg_placed r m' a" and each: "\<And>k. k < n \<Longrightarrow> \<exists>i. vs ! k = PInt i \<and> check_value_fits_reg r (PInt i) = Inr () \<and>
      (\<exists>c. read_cached (a + int k * elem_offset r) (elem_offset r) m' = slot_bytes r c \<and>
      read_cached (a + int k * elem_offset r) (rg_elem_size r) m' = c \<and> le_to_int c = i mod 256 ^ nat (rg_elem_size r))"
    using slots_after_write_list [OF assms] by blast+
  let ?is = "map py_num_int vs"
  have vs: "vs = map PInt ?is"
    by (rule nth_equalityI) (use each len in \<open>force simp: py_num_int_def\<close>)+
  have one: "le_to_int (read_cached (a + int k * elem_offset r) (elem_offset r) m') = ?is ! k mod 256 ^ nat (rg_elem_size r) \<and>
      le_to_int (read_cached (a + int k * elem_offset r) (rg_elem_size r) m') = ?is ! k mod 256 ^ nat (rg_elem_size r) \<and>
      check_value_fits_reg r (PInt (?is ! k)) = Inr ()" if k: "k < n" for k
    using each [OF k] len k by (auto simp: py_num_int_def)
  have fits: "\<forall>i \<in> set ?is. check_value_fits_reg r (PInt i) = Inr ()"
    using one len by (auto simp: in_set_conv_nth)
  have "read_list_uint_cached r m' = Inr (map (\<lambda>i. i mod 2 ^ nat (vt_width (rg_type r))) ?is)"
    unfolding read_list_uint_placed [OF p' wf]
    by (rule arg_cong [where f = Inr], rule nth_equalityI)
      (use len one elem_mod [OF wf] in \<open>auto simp: Let_def\<close>)
  moreover have "\<forall>k < n. read_idx_uint_cached r (int k) m' = Inr (?is ! k mod 2 ^ nat (vt_width (rg_type r)))"
    using one elem_mod(1) [OF wf] by (simp add: read_idx_uint_placed [OF p' wf])
  ultimately show ?thesis using vs fits by blast
qed

lemma read_idx_uint_frame:
  assumes p: "reg_placed r m a" and wf: "vec_wf r n" and j: "j < n" and im: "in_module m x (int (length b))"
    and d: "a + int j * elem_offset r + rg_elem_size r \<le> x \<or> x + int (length b) \<le> a + int j * elem_offset r"
  shows "read_idx_uint_cached r (int j) (write_bytes_cached x b m) = read_idx_uint_cached r (int j) m"
proof -
  have p': "reg_placed r (write_bytes_cached x b m) a" using p im by simp
  have "in_module m (a + int j * elem_offset r) (rg_elem_size r)"
    using in_module_sub [of m a "rg_size r"] p slot_inside [OF wf j] vec_wfD(1,2) [OF wf] by (simp add: reg_placed_def)
  from read_write_cached_other [OF im this d] show ?thesis
    by (simp add: read_idx_uint_placed [OF p wf] read_idx_uint_placed [OF p' wf])
qed

lemma reads_after_write_idx:
  assumes w: "write_idx_int_cached sg r (int k) v m = Inr m'" and p: "reg_placed r m a" and wf: "vec_wf r n" and k: "k < n"
  shows "\<exists>i. v = PInt i \<and> check_value_fits_reg r v = Inr () \<and>
    read_idx_uint_cached r (int k) m' = Inr (i mod 2 ^ nat (vt_width (rg_type r))) \<and>
    (\<forall>j < n. j \<noteq> k \<longrightarrow> read_idx_uint_cached r (int j) m' = read_idx_uint_cached r (int j) m)"
proof -
  note w5 = vec_wfD [OF wf]
  let ?x = "a + int k * elem_offset r"
  obtain c where c: "check_value_fits_reg r v = Inr ()" "num_to_bytes v (rg_elem_size r) sg = Inr c" "m' = write_bytes_cached ?x c m"
    using w p by (auto simp: write_idx_int_cached_def write_idx_bytes_cached_def rbind_Inr_iff idx_elem_offset_placed)
  obtain i where i: "v = PInt i" "int (length c) = rg_elem_size r" "le_to_int c = i mod 256 ^ nat (rg_elem_size r)"
    using num_to_bytes_Inr [OF c(2)] by blast
  have im: "in_module m ?x (int (length c))"
    using in_module_sub [of m a "rg_size r"] p slot_inside [OF wf k] w5(1,2) i(2) by (simp add: reg_placed_def)
  have p': "reg_placed r m' a" using p im c(3) by simp
  have "read_cached ?x (rg_elem_size r) m' = c" using read_write_cached_same [OF im] i(2) c(3) by simp
  then have "read_idx_uint_cached r (int k) m' = Inr (i mod 2 ^ nat (vt_width (rg_type r)))"
    using elem_mod(1) [OF wf] i(3) by (simp add: read_idx_uint_placed [OF p' wf])
  moreover have "read_idx_uint_cached r (int j) m' = read_idx_uint_cached r (int j) m" if "j < n" "j \<noteq> k" for j
    using read_idx_uint_frame [OF p wf that(1) im] slots_disjoint [OF wf that(2)] w5(1,2) i(2) c(3) by auto
  ultimately show ?thesis using i c(1) by blast
qed

text \<open>The value of an element, from its unsigned reading.\<close>

definition elem_value :: "reg \<Rightarrow> int \<Rightarrow> int res" where
  "elem_value r u = (if vt_kind (rg_type r) = VK_sint then cast_uint_to_sint u (vt_width (rg_type r)) else Inr u)"

lemma read_idx_value_int:
  "vt_kind (rg_type r) \<in> {VK_uint, VK_sint, VK_bits} \<Longrightarrow> read_idx_value_cached r i m =
     rbind (read_idx_uint_cached r i m) (\<lambda>u. rbind (elem_value r u) (\<lambda>x. Inr (PNum (PInt x))))"
  by (auto simp: read_idx_value_cached_def elem_value_def read_idx_sint_cached_def rbind_assoc)

lemma elem_value_fits:
  "check_value_fits_reg r (PInt i) = Inr () \<Longrightarrow> 1 \<le> vt_width (rg_type r) \<Longrightarrow>
     elem_value r (i mod 2 ^ nat (vt_width (rg_type r))) = Inr i"
  using fits_reads_back [of r i] by (simp add: elem_value_def)

lemma rmapM_elem_value:
  "rmapM (elem_value r) = (if vt_kind (rg_type r) = VK_sint then rmapM (\<lambda>v. cast_uint_to_sint v (vt_width (rg_type r))) else Inr)"
proof -
  have "rmapM (\<lambda>x. Inr x) xs = Inr xs" for xs :: "int list" by (induction xs) simp_all
  then show ?thesis by (simp add: elem_value_def [abs_def] fun_eq_iff)
qed

lemma read_list_raw_int:
  "vt_kind (rg_type r) \<in> {VK_uint, VK_sint, VK_bits} \<Longrightarrow> read_list_raw_cached r m = rbind (read_list_uint_cached r m) (rmapM (elem_value r))"
  by (auto simp: read_list_raw_cached_def rmapM_elem_value read_list_sint_cached_def bytes_to_list_sint_def
      read_list_uint_cached_def rbind_def split: sum.splits)

section \<open>Properties of the vector registers\<close>

text \<open>
  A list of values written to a vector register, signed or unsigned, is the list it reads, and
  each element read by its index is the value of the list, whatever the alignment of the slots.
\<close>
theorem vec_list_roundtrip:
  assumes "write_list_int_cached (vt_kind (rg_type r) = VK_sint) r vs m = Inr m'" and "reg_placed r m a" and "vec_wf r n"
    and "length vs = n" and kind: "vt_kind (rg_type r) \<in> {VK_uint, VK_sint, VK_bits}"
  shows "\<exists>is. vs = map PInt is \<and> read_list_raw_cached r m' = Inr is \<and>
    (\<forall>k < n. read_idx_value_cached r (int k) m' = Inr (PNum (PInt (is ! k))))"
proof -
  let ?w = "2 ^ nat (vt_width (rg_type r))"
  obtain "is" where i: "vs = map PInt is" "\<forall>i \<in> set is. check_value_fits_reg r (PInt i) = Inr ()"
      "read_list_uint_cached r m' = Inr (map (\<lambda>i. i mod ?w) is)"
      "\<forall>k < n. read_idx_uint_cached r (int k) m' = Inr (is ! k mod ?w)"
    using reads_after_write_list [OF assms(1-4)] by blast
  have ev: "elem_value r (i mod ?w) = Inr i" if "i \<in> set is" for i
    using elem_value_fits i(2) vec_wfD(6) [OF assms(3)] that by blast
  have "rmapM (elem_value r) (map (\<lambda>i. i mod ?w) is) = Inr is"
    using ev by (induction "is") simp_all
  then have "read_list_raw_cached r m' = Inr is" using i(3) by (simp add: read_list_raw_int [OF kind])
  moreover have "read_idx_value_cached r (int k) m' = Inr (PNum (PInt (is ! k)))" if "k < n" for k
    using ev [of "is ! k"] i(1,4) assms(4) that by (simp add: read_idx_value_int [OF kind])
  ultimately show ?thesis using i(1) by blast
qed

text \<open>
  Writing one element of a vector register changes the value of that element to the value
  written and of no other element.
\<close>
theorem vec_idx_write_read:
  assumes "write_idx_int_cached (vt_kind (rg_type r) = VK_sint) r (int k) v m = Inr m'" and "reg_placed r m a"
    and "vec_wf r n" and "k < n" and kind: "vt_kind (rg_type r) \<in> {VK_uint, VK_sint, VK_bits}"
  shows "read_idx_value_cached r (int k) m' = Inr (PNum v) \<and>
    (\<forall>j < n. j \<noteq> k \<longrightarrow> read_idx_value_cached r (int j) m' = read_idx_value_cached r (int j) m)"
  using reads_after_write_idx [OF assms(1-4)] elem_value_fits [of r] vec_wfD(6) [OF assms(3)]
  by (auto simp: read_idx_value_int [OF kind])

text \<open>An example vector of three 12 bit signed values in slots of four bytes.\<close>

definition example_vec :: reg where
  "example_vec = \<lparr>rg_name = ''V'', rg_type = \<lparr>vt_kind = VK_sint, vt_width = 12, vt_vec_len = Some 3\<rparr>, rg_acc = Acc_rw,
     rg_desc = '''', rg_size = 12, rg_elem_size = 2, rg_addr = Some 0x104, rg_ass = Ass_none, rg_v_check = None,
     rg_v_convert = None, rg_v_type = VType_s, rg_class = RC_vec 4\<rparr>"

lemma example_vec_ok: "vec_wf example_vec 3" "reg_placed example_vec example_mem 0x104"
  "vt_kind (rg_type example_vec) = VK_sint"
  by (simp_all add: vec_wf_def example_vec_def reg_placed_def in_module_def example_mem_def)

lemma example_vec_fits:
  "- 2048 \<le> i \<Longrightarrow> i \<le> 2047 \<Longrightarrow> check_value_fits_reg example_vec (PInt i) = Inr ()"
  "from_raw example_vec m u = Inr u" "check_value_limit example_vec m u = Inr ()"
  by (simp_all add: check_value_fits_reg_def value_range_def py_num_int_def from_raw_def check_value_limit_def
      ass_check_value_limit_def less_eq_ass_def example_vec_def)

theorem vec_list_roundtrip_witness:
  "\<exists>m' :: regions modmem. read_list_raw_cached example_vec m' = Inr [- 3, 5, 2047] \<and>
     read_idx_value_cached example_vec (int 0) m' = Inr (PNum (PInt (- 3)))"
proof -
  let ?vs = "[PInt (- 3), PInt 5, PInt 2047]"
  let ?b = "[0xFD, 0xFF, 0, 0, 5, 0, 0, 0, 0xFF, 0x07, 0, 0]"
  have "vec_list_int_to_bytes example_vec True ?vs = Inr ?b" by code_simp
  then have w: "write_list_int_cached (vt_kind (rg_type example_vec) = VK_sint) example_vec ?vs example_mem
      = Inr (write_bytes_cached 0x104 ?b example_mem)"
    by (simp add: write_list_int_cached_def example_vec_ok example_vec_fits check_value_list_def)
      (simp add: reg_write_bytes_cached_def write_allowed_def reg_addr_def example_vec_def)
  have prem: "length ?vs = 3" "vt_kind (rg_type example_vec) \<in> {VK_uint, VK_sint, VK_bits}" by (simp_all add: example_vec_ok)
  from vec_list_roundtrip [OF w example_vec_ok(2,1) prem] obtain "is" where
    i: "?vs = map PInt is" "read_list_raw_cached example_vec (write_bytes_cached 0x104 ?b example_mem) = Inr is"
      "\<forall>k < 3. read_idx_value_cached example_vec (int k) (write_bytes_cached 0x104 ?b example_mem) = Inr (PNum (PInt (is ! k)))"
    by (elim exE conjE)
  then have "is = [- 3, 5, 2047]" by auto
  then show ?thesis using i by (metis nth_Cons_0 zero_less_numeral)
qed

theorem vec_idx_write_read_witness:
  "\<exists>m' :: regions modmem. read_idx_value_cached example_vec (int 1) m' = Inr (PNum (PInt (- 3))) \<and>
     read_idx_value_cached example_vec (int 2) m' = read_idx_value_cached example_vec (int 2) example_mem"
proof -
  let ?m = "write_bytes_cached 0x108 [0xFD, 0xFF] example_mem"
  have tb: "to_bytes (- 3) 2 Little True = Inr [0xFD, 0xFF]" by code_simp
  have w: "write_idx_int_cached (vt_kind (rg_type example_vec) = VK_sint) example_vec (int 1) (PInt (- 3)) example_mem = Inr ?m"
    using tb by (simp add: write_idx_int_cached_def example_vec_ok example_vec_fits num_to_bytes_def)
      (simp add: write_idx_bytes_cached_def write_allowed_def idx_elem_offset_def elem_offset_def reg_addr_def example_vec_def)
  have prem: "(1 :: nat) < 3" "vt_kind (rg_type example_vec) \<in> {VK_uint, VK_sint, VK_bits}" by (simp_all add: example_vec_ok)
  have "(2 :: nat) < 3 \<and> (2 :: nat) \<noteq> 1" by simp
  then show ?thesis using vec_idx_write_read [OF w example_vec_ok(2,1) prem] by blast
qed

section \<open>Properties of the flags\<close>

lemma bit_le_to_int: "i < 8 * length b \<Longrightarrow> bit (le_to_int b) i \<longleftrightarrow> bit (uint (b ! (i div 8))) (i mod 8)"
proof (induction b arbitrary: i)
  case (Cons x b)
  let ?n = "uint x + 256 * le_to_int b"
  have x: "0 \<le> uint x" "uint x < 256" using uint_byte_bounds [of x] by auto
  show ?case
  proof (cases "i < 8")
    case True
    have "take_bit 8 ?n = uint x" using x by (simp add: take_bit_eq_mod)
    then have "bit ?n i = bit (uint x) i" using True by (metis bit_take_bit_iff)
    then show ?thesis using True by simp
  next
    case False
    have "drop_bit 8 ?n = le_to_int b" using x by (simp add: drop_bit_eq_div)
    moreover have "bit ?n i = bit (drop_bit 8 ?n) (i - 8)" using False by (simp add: bit_drop_bit_eq)
    ultimately have "bit ?n i = bit (le_to_int b) (i - 8)" by simp
    moreover have "bit (le_to_int b) (i - 8) = bit (uint (b ! ((i - 8) div 8))) ((i - 8) mod 8)"
      using Cons.prems False by (intro Cons.IH) auto
    moreover have "i div 8 = Suc ((i - 8) div 8)" "i mod 8 = (i - 8) mod 8" using False by (auto simp: div_if mod_if)
    ultimately show ?thesis by simp
  qed
qed simp

lemma and_shl_one: "(v :: int) AND 2 ^ n = 0 \<longleftrightarrow> \<not> bit v n"
  using bit_iff_and_push_bit_not_eq_0 [of v n] by simp

lemma flag_read_bool_bit:
  assumes "reg_placed r m a" and "reg_wf r" and "0 \<le> rf_bit f" and "rf_bit f < vt_width (rg_type r)"
    and "rf_vec_len f \<in> {None, Some 1}"
  shows "flag_read_bool_cached r f m =
    Inr (bit (uint (read_cached a (rg_size r) m ! (nat (rf_bit f) div 8))) (nat (rf_bit f) mod 8))"
proof -
  have im: "in_module m a (rg_size r)" using assms(1) by (simp add: reg_placed_def)
  have "int (length (read_cached a (rg_size r) m)) = rg_size r" by (rule length_read_cached [OF im])
  moreover have "vt_width (rg_type r) \<le> 8 * rg_size r" using assms(2) by (simp add: reg_wf_def)
  ultimately have "nat (rf_bit f) < 8 * length (read_cached a (rg_size r) m)" using assms(3,4) by linarith
  moreover have "bit (x mod 2 ^ nat (vt_width (rg_type r))) (nat (rf_bit f)) = bit x (nat (rf_bit f))" for x :: int
    using assms(3,4) by (simp add: bit_take_bit_iff flip: take_bit_eq_mod)
  ultimately show ?thesis
    using assms by (auto simp: flag_read_bool_cached_def read_uint_cached_mod py_shl_def and_shl_one bit_le_to_int)
qed

text \<open>
  Writing one flag of a flag register changes that flag to the value written and no other flag.
\<close>
theorem flag_write_read:
  assumes "flag_write_bool_cached r f v m = Inr m'" and p: "reg_placed r m a" and wf: "reg_wf r"
    and f: "0 \<le> rf_bit f" and g: "0 \<le> rf_bit g" "rf_bit g < vt_width (rg_type r)" "rf_vec_len g \<in> {None, Some 1}"
  shows "flag_read_bool_cached r g m' = (if rf_bit g = rf_bit f then Inr v else flag_read_bool_cached r g m)"
proof -
  let ?b = "read_cached a (rg_size r) m"
  let ?i = "nat (rf_bit f) div 8" and ?j = "nat (rf_bit f) mod 8"
  have ij: "rf_bit f div 8 = int ?i" "rf_bit f mod 8 = int ?j" using f by (auto simp: zdiv_int zmod_int)
  have rb: "read_bytes_cached r m = Inr ?b" using p by (rule read_bytes_cached_placed)
  obtain x y b' where st: "py_index ?b (int ?i) = Inr x" "set_bit_at (uint x) (int ?j) v = Inr y"
      "byte_assign ?b (int ?i) y = Inr b'" "reg_write_bytes_cached r b' m = Inr m'"
    using assms(1) by (auto simp: flag_write_bool_cached_def rb rbind_Inr_iff ij Let_def)
  have i: "?i < length ?b" "x = ?b ! ?i" using st(1) by (auto simp: py_index_nat split: if_splits)
  have y: "0 \<le> y" "y \<le> 255" "b' = ?b[?i := word_of_int y]" using st(3) by (auto simp: byte_assign_def split: if_splits)
  have m': "m' = write_bytes_cached a b' m" "int (length b') = rg_size r"
    using st(4) p by (auto simp: reg_write_bytes_cached_def rbind_Inr_iff)
  have im: "in_module m a (int (length b'))" using p m'(2) by (simp add: reg_placed_def)
  have p': "reg_placed r m' a" using p im m'(1) by simp
  have rb': "read_cached a (rg_size r) m' = b'" using read_write_cached_same [OF im] m' by simp
  have uy: "uint (word_of_int y :: byte) = y" using y by (simp add: uint_word_of_int)
  have bit_y: "bit y k = (if k = ?j then v else bit (uint x) k)" for k
    using bit_set_bit_at [OF _ st(2), of k] by simp
  have same: "rf_bit g = rf_bit f \<longleftrightarrow> nat (rf_bit g) div 8 = ?i \<and> nat (rf_bit g) mod 8 = ?j"
    using f g(1) by (metis div_mult_mod_eq nat_eq_iff)
  have "bit (uint (b' ! (nat (rf_bit g) div 8))) (nat (rf_bit g) mod 8) =
      (if rf_bit g = rf_bit f then v else bit (uint (?b ! (nat (rf_bit g) div 8))) (nat (rf_bit g) mod 8))"
    using i y(3) uy bit_y by (auto simp: same nth_list_update)
  then show ?thesis
    by (simp add: flag_read_bool_bit [OF p wf g] flag_read_bool_bit [OF p' wf g] rb')
qed

definition example_flags :: reg where
  "example_flags = \<lparr>rg_name = ''F'', rg_type = \<lparr>vt_kind = VK_flag, vt_width = 12, vt_vec_len = None\<rparr>, rg_acc = Acc_rw,
     rg_desc = '''', rg_size = 2, rg_elem_size = 2, rg_addr = Some 0x104, rg_ass = Ass_none, rg_v_check = None,
     rg_v_convert = None, rg_v_type = VType_u, rg_class = RC_flags []\<rparr>"

definition example_flag :: "int \<Rightarrow> int option \<Rightarrow> rflag" where
  "example_flag b n = \<lparr>rf_name = ''f'', rf_bit = b, rf_ass = Ass_error, rf_desc = '''', rf_vec_len = n\<rparr>"

theorem flag_write_read_witness:
  "\<exists>m' :: regions modmem. flag_read_bool_cached example_flags (example_flag 9 None) m' = Inr True \<and>
     flag_read_bool_cached example_flags (example_flag 8 None) m' =
     flag_read_bool_cached example_flags (example_flag 8 None) example_mem"
proof -
  let ?m = "write_bytes_cached 0x104 [0, 2] example_mem"
  have p: "reg_placed example_flags example_mem 0x104" "reg_wf example_flags"
    by (simp_all add: reg_placed_def in_module_def example_mem_def reg_wf_def example_flags_def)
  have rb: "read_bytes_cached example_flags example_mem = Inr [0, 0]"
    by (simp add: read_bytes_cached_def reg_addr_def read_cached_def cache_addr_def example_flags_def example_mem_def
        py_slice_inside numeral_eq_Suc)
  have sb: "set_bit_at 0 1 True = Inr 2" "byte_assign [0, 0] 1 2 = Inr [0, 2]" by code_simp+
  have w: "flag_write_bool_cached example_flags (example_flag 9 None) True example_mem = Inr ?m"
    using sb by (simp add: flag_write_bool_cached_def rb example_flag_def py_index_def reg_write_bytes_cached_def
        write_allowed_def reg_addr_def Let_def) (simp add: example_flags_def)
  have "0 \<le> rf_bit (example_flag 9 None)" "0 \<le> rf_bit (example_flag 8 None)" by (simp_all add: example_flag_def)
  moreover have "rf_bit (example_flag 9 None) < vt_width (rg_type example_flags)"
      "rf_bit (example_flag 8 None) < vt_width (rg_type example_flags)" "rf_vec_len (example_flag n None) \<in> {None, Some 1}" for n
    by (simp_all add: example_flag_def example_flags_def)
  ultimately show ?thesis
    using flag_write_read [OF w p, of "example_flag 9 None"] flag_write_read [OF w p, of "example_flag 8 None"]
    by (intro exI [of _ ?m]) (simp add: example_flag_def)
qed

text \<open>
  An assert flag of several bits is only watched on its first bit. With four bits at bit 0 of
  which bit 1 is set, the flag itself is in its error state, but the scan of its register reports
  that it passed, and nothing is logged.
\<close>
theorem flags_scan_first_bit_only:
  "flag_ass_list (example_flag 0 (Some 4)) [False, True, False, False] = Ass_error \<and>
   flags_scan example_flags Ass_error 0b0010 [example_flag 0 (Some 4)] Ass_none [] = Inr (Ass_passed, [])"
  by (simp add: flag_ass_list_def flag_ass_def example_flag_def log_if_def less_eq_ass_def less_ass_def)

end
