(* ===== verification/ExternalMem.thy ===== *)
theory ExternalMem
  imports RegVec
begin

text \<open>
  \<^verbatim>\<open>pip/skmap/src/skmap/external_mem.py\<close>: a memory of the firmware that a module maps to a window
  of the device. The object is itself a device (\<open>xmem_regio\<close>, over the world of the device and the
  object), with its own address 0 at the base of the window; the cached classes keep an image of
  the bytes that went through them. The properties of the base class \<^verbatim>\<open>Regio\<close> stay at their defaults.
\<close>

section \<open>The object\<close>

datatype xmem_class = XM_plain | XM_cached | XM_vec

record 'w xmem =
  xm_class :: xmem_class
  xm_regio :: "'w regio"
  xm_base_addr :: int
  xm_size :: int
  xm_acc :: acc
  xm_name :: "string option"
  xm_value_type :: "value_type option"
  xm_desc :: "string option"
  xm_cache :: "byte list"
  xm_cache_loaded :: bool

definition ExternalMem_init :: "'w regio \<Rightarrow> int \<Rightarrow> int \<Rightarrow> acc \<Rightarrow> 'w xmem" where
  "ExternalMem_init r base sz a =
     \<lparr>xm_class = XM_plain, xm_regio = r, xm_base_addr = base, xm_size = sz, xm_acc = a, xm_name = None,
      xm_value_type = None, xm_desc = None, xm_cache = [], xm_cache_loaded = False\<rparr>"

definition ExternalMemCached_init :: "'w regio \<Rightarrow> int \<Rightarrow> int \<Rightarrow> acc \<Rightarrow> 'w xmem res" where
  "ExternalMemCached_init r base sz a =
     (if sz < 0 then Inl ValueError
      else Inr ((ExternalMem_init r base sz a)\<lparr>xm_class := XM_cached, xm_cache := replicate (nat sz) 0,
                xm_cache_loaded := True\<rparr>))"

definition xm_is_cached :: "'w xmem \<Rightarrow> bool" where
  "xm_is_cached x \<longleftrightarrow> xm_class x \<noteq> XM_plain"

definition xm_details :: "string \<Rightarrow> value_type \<Rightarrow> acc \<Rightarrow> string \<Rightarrow> 'w xmem \<Rightarrow> 'w xmem res" where
  "xm_details name t a desc x =
     rbind (rassert (xm_size x = total_size t)) (\<lambda>_.
     rbind (rassert (xm_acc x = Acc_na \<or> xm_acc x = a)) (\<lambda>_.
       Inr (x\<lparr>xm_name := Some name, xm_value_type := Some t,
              xm_acc := (if xm_acc x = Acc_na then a else xm_acc x), xm_desc := Some desc\<rparr>)))"

text \<open>The properties that assert their field was set.\<close>

definition xm_set_field :: "'a option \<Rightarrow> 'a res" where
  "xm_set_field v = (case v of None \<Rightarrow> Inl AssertionError | Some y \<Rightarrow> Inr y)"

definition xm_value_type_str :: "'w xmem \<Rightarrow> string" where
  "xm_value_type_str x = (case xm_value_type x of None \<Rightarrow> ''None'' | Some t \<Rightarrow> value_type_repr t)"

section \<open>The window\<close>

definition regio_addr :: "'w xmem \<Rightarrow> int \<Rightarrow> int" where
  "regio_addr x addr = addr + xm_base_addr x"

definition xm_check_size :: "'w xmem \<Rightarrow> int \<Rightarrow> int \<Rightarrow> unit res" where
  "xm_check_size x addr sz = rassert (addr + sz \<le> xm_size x)"

definition xm_get :: "('w xmem \<Rightarrow> 'a res) \<Rightarrow> ('w \<times> 'w xmem, 'a) io" where
  "xm_get f = (\<lambda>(w, x). (f x, (w, x)))"

definition xm_set :: "('w xmem \<Rightarrow> 'w xmem res) \<Rightarrow> ('w \<times> 'w xmem, unit) io" where
  "xm_set f = (\<lambda>(w, x). case f x of Inl e \<Rightarrow> (Inl e, (w, x)) | Inr x' \<Rightarrow> (Inr (), (w, x')))"

definition xm_dev :: "('w regio \<Rightarrow> ('w, 'a) io) \<Rightarrow> ('w \<times> 'w xmem, 'a) io" where
  "xm_dev f = (\<lambda>(w, x). io_fst (f (xm_regio x)) (w, x))"

definition plain_dev_write :: "int \<Rightarrow> byte list \<Rightarrow> ('w \<times> 'w xmem, unit) io" where
  "plain_dev_write addr d =
     io_bind (xm_get (\<lambda>x. xm_check_size x addr (int (length d)))) (\<lambda>_.
     io_bind (xm_get (\<lambda>x. Inr (regio_addr x addr))) (\<lambda>a. xm_dev (\<lambda>r. dev_write r a d)))"

definition plain_dev_read :: "int \<Rightarrow> int \<Rightarrow> ('w \<times> 'w xmem, byte list) io" where
  "plain_dev_read addr sz =
     io_bind (xm_get (\<lambda>x. xm_check_size x addr sz)) (\<lambda>_.
     io_bind (xm_get (\<lambda>x. Inr (regio_addr x addr))) (\<lambda>a. xm_dev (\<lambda>r. dev_read r a sz)))"

definition xm_write_cached :: "int \<Rightarrow> byte list \<Rightarrow> 'w xmem \<Rightarrow> 'w xmem res" where
  "xm_write_cached addr d x =
     rbind (xm_check_size x addr (int (length d))) (\<lambda>_.
       Inr (x\<lparr>xm_cache := py_slice_assign (xm_cache x) addr (addr + int (length d)) d,
              xm_cache_loaded := (xm_cache_loaded x \<or> (addr = 0 \<and> int (length d) = xm_size x))\<rparr>))"

definition xm_read_cached :: "int \<Rightarrow> int \<Rightarrow> 'w xmem \<Rightarrow> byte list res" where
  "xm_read_cached addr sz x =
     rbind (xm_check_size x addr sz) (\<lambda>_. Inr (py_slice (xm_cache x) addr (addr + sz)))"

definition cached_dev_write :: "int \<Rightarrow> byte list \<Rightarrow> ('w \<times> 'w xmem, unit) io" where
  "cached_dev_write addr d = io_bind (plain_dev_write addr d) (\<lambda>_. xm_set (xm_write_cached addr d))"

definition cached_dev_read :: "int \<Rightarrow> int \<Rightarrow> ('w \<times> 'w xmem, byte list) io" where
  "cached_dev_read addr sz =
     io_bind (plain_dev_read addr sz) (\<lambda>d. io_bind (xm_set (xm_write_cached addr d)) (\<lambda>_. io_return d))"

text \<open>The object as a device: its methods are those of its class.\<close>

definition xmem_regio :: "('w \<times> 'w xmem) regio" where
  "xmem_regio = Regio_init
     (\<lambda>a d. io_bind (xm_get (\<lambda>x. Inr (xm_is_cached x))) (\<lambda>c. if c then cached_dev_write a d else plain_dev_write a d))
     (\<lambda>a n. io_bind (xm_get (\<lambda>x. Inr (xm_is_cached x))) (\<lambda>c. if c then cached_dev_read a n else plain_dev_read a n))"

section \<open>A memory of elements\<close>

definition xm_type :: "'w xmem \<Rightarrow> value_type res" where
  "xm_type x = xm_set_field (xm_value_type x)"

definition xm_elem_size :: "'w xmem \<Rightarrow> int res" where
  "xm_elem_size x = rbind (xm_type x) (\<lambda>t. Inr (elem_size t))"

definition xm_vec_len :: "'w xmem \<Rightarrow> int res" where
  "xm_vec_len x = rbind (xm_type x) (\<lambda>t. xm_set_field (vt_vec_len t))"

definition xm_read_idx_bytes_cached :: "int \<Rightarrow> 'w xmem \<Rightarrow> byte list res" where
  "xm_read_idx_bytes_cached i x = rbind (xm_elem_size x) (\<lambda>es. xm_read_cached (es * i) es x)"

definition xm_read_idx_bytes :: "int \<Rightarrow> ('w \<times> 'w xmem, byte list) io" where
  "xm_read_idx_bytes i = io_bind (xm_get xm_elem_size) (\<lambda>es. regio_read xmem_regio (es * i) es)"

definition xm_read_idx_uint_cached :: "int \<Rightarrow> 'w xmem \<Rightarrow> int res" where
  "xm_read_idx_uint_cached i x = rbind (xm_read_idx_bytes_cached i x) (\<lambda>b. Inr (le_to_int b))"

definition xm_read_idx_uint :: "int \<Rightarrow> ('w \<times> 'w xmem, int) io" where
  "xm_read_idx_uint i = io_bind (xm_read_idx_bytes i) (\<lambda>_. xm_get (xm_read_idx_uint_cached i))"

definition xm_read_idx_sint_cached :: "int \<Rightarrow> 'w xmem \<Rightarrow> int res" where
  "xm_read_idx_sint_cached i x =
     rbind (xm_type x) (\<lambda>t. rbind (xm_read_idx_uint_cached i x) (\<lambda>v. cast_uint_to_sint v (vt_width t)))"

definition xm_read_idx_sint :: "int \<Rightarrow> ('w \<times> 'w xmem, int) io" where
  "xm_read_idx_sint i = io_bind (xm_read_idx_bytes i) (\<lambda>_. xm_get (xm_read_idx_sint_cached i))"

definition xm_read_idx_value_cached :: "int \<Rightarrow> 'w xmem \<Rightarrow> int res" where
  "xm_read_idx_value_cached i x =
     rbind (xm_type x) (\<lambda>t.
       case vt_kind t of
         VK_uint \<Rightarrow> xm_read_idx_uint_cached i x
       | VK_sint \<Rightarrow> xm_read_idx_sint_cached i x
       | VK_bits \<Rightarrow> xm_read_idx_uint_cached i x
       | VK_flag \<Rightarrow> Inl AssertionError
       | VK_char \<Rightarrow> Inl AssertionError)"

definition xm_read_idx_rich_str_cached :: "int \<Rightarrow> 'w xmem \<Rightarrow> string res" where
  "xm_read_idx_rich_str_cached i x =
     rbind (xm_type x) (\<lambda>t.
     rbind (xm_read_idx_value_cached i x) (\<lambda>v.
       if vt_kind t = VK_bits
       then rbind (ceil_div (vt_width t) 8) (\<lambda>w. Inr (''0x'' @ py_fmt0 16 True w v))
       else Inr (py_str_int v)))"

definition xm_write_idx_cache :: "int \<Rightarrow> ('w \<times> 'w xmem, unit) io" where
  "xm_write_idx_cache i =
     io_bind (xm_get (xm_read_idx_bytes_cached i)) (\<lambda>b.
     io_bind (xm_get xm_elem_size) (\<lambda>es. regio_write xmem_regio (es * i) b))"

definition xm_write_idx_bytes_cached :: "int \<Rightarrow> byte list \<Rightarrow> 'w xmem \<Rightarrow> 'w xmem res" where
  "xm_write_idx_bytes_cached i b x =
     rbind (xm_elem_size x) (\<lambda>es.
     rbind (rassert (int (length b) = es)) (\<lambda>_. xm_write_cached (es * i) b x))"

definition xm_then_write :: "int \<Rightarrow> ('w xmem \<Rightarrow> 'w xmem res) \<Rightarrow> ('w \<times> 'w xmem, unit) io" where
  "xm_then_write i f = io_bind (xm_set f) (\<lambda>_. xm_write_idx_cache i)"

definition xm_write_idx_bytes :: "int \<Rightarrow> byte list \<Rightarrow> ('w \<times> 'w xmem, unit) io" where
  "xm_write_idx_bytes i b = xm_then_write i (xm_write_idx_bytes_cached i b)"

definition xm_write_idx_uint_cached :: "int \<Rightarrow> int \<Rightarrow> 'w xmem \<Rightarrow> 'w xmem res" where
  "xm_write_idx_uint_cached i v x =
     rbind (xm_elem_size x) (\<lambda>es. rbind (to_bytes v es Little False) (\<lambda>b. xm_write_idx_bytes_cached i b x))"

definition xm_write_idx_uint :: "int \<Rightarrow> int \<Rightarrow> ('w \<times> 'w xmem, unit) io" where
  "xm_write_idx_uint i v = xm_then_write i (xm_write_idx_uint_cached i v)"

definition xm_write_idx_sint_cached :: "int \<Rightarrow> int \<Rightarrow> 'w xmem \<Rightarrow> 'w xmem res" where
  "xm_write_idx_sint_cached i v x =
     rbind (xm_elem_size x) (\<lambda>es. rbind (to_bytes v es Little True) (\<lambda>b. xm_write_idx_bytes_cached i b x))"

definition xm_write_idx_sint :: "int \<Rightarrow> int \<Rightarrow> ('w \<times> 'w xmem, unit) io" where
  "xm_write_idx_sint i v = xm_then_write i (xm_write_idx_sint_cached i v)"

definition external_mem_cast_to_derived_if_possible :: "'w xmem \<Rightarrow> 'w xmem res" where
  "external_mem_cast_to_derived_if_possible x =
     (if \<not> xm_is_cached x then Inr x
      else rbind (xm_type x) (\<lambda>t.
        if \<not> is_vec t then Inr x
        else rbind (rassert (xm_size x = total_size t)) (\<lambda>_. Inr (x\<lparr>xm_class := XM_vec\<rparr>))))"

lemma xm_runs [simp]:
  "xm_get f (w, x) = (f x, (w, x))"
  "xm_set g (w, x) = (case g x of Inl e \<Rightarrow> (Inl e, (w, x)) | Inr x' \<Rightarrow> (Inr (), (w, x')))"
  "xm_dev h (w, x) = (fst (h (xm_regio x) w), (snd (h (xm_regio x) w), x))"
  by (simp_all add: xm_get_def xm_set_def xm_dev_def)

lemma xmem_regio_simps [simp]:
  "pre_write_callback xmem_regio = None" "post_read_callback xmem_regio = None"
  "mtu xmem_regio = REGIO_MTU_DEFAULT" "\<not> error_on_write xmem_regio"
  "dev_write xmem_regio a d (w, x) = (if xm_is_cached x then cached_dev_write a d (w, x) else plain_dev_write a d (w, x))"
  "dev_read xmem_regio a n (w, x) = (if xm_is_cached x then cached_dev_read a n (w, x) else plain_dev_read a n (w, x))"
  by (simp_all add: xmem_regio_def Regio_init_def io_bind_run)

section \<open>The window as a device\<close>

definition win_mem :: "('w \<Rightarrow> int \<rightharpoonup> byte) \<Rightarrow> int \<Rightarrow> 'w \<times> 'w xmem \<Rightarrow> int \<rightharpoonup> byte" where
  "win_mem mem base s = (\<lambda>i. mem (fst s) (i + base))"

definition win_inv :: "('w \<Rightarrow> bool) \<Rightarrow> 'w regio \<Rightarrow> int \<Rightarrow> int \<Rightarrow> 'w \<times> 'w xmem \<Rightarrow> bool" where
  "win_inv dinv r base sz s \<longleftrightarrow> dinv (fst s) \<and> xm_regio (snd s) = r \<and> xm_base_addr (snd s) = base \<and> xm_size (snd s) = sz"

definition win_ok :: "(int \<Rightarrow> int \<Rightarrow> bool) \<Rightarrow> int \<Rightarrow> int \<Rightarrow> int \<Rightarrow> int \<Rightarrow> bool" where
  "win_ok ok base sz a n \<longleftrightarrow> 0 \<le> a \<and> a + n \<le> sz \<and> ok (a + base) n"

lemma win_mem_overlay:
  "mem w' = mem_overlay (mem w) (a + base) d \<Longrightarrow> win_mem mem base (w', x') = mem_overlay (win_mem mem base (w, x)) a d"
  by (auto simp: win_mem_def mem_overlay_def fun_eq_iff algebra_simps)

lemma win_mem_has: "mem_has (win_mem mem base (w, x)) a n \<longleftrightarrow> mem_has (mem w) (a + base) n"
  by (simp add: win_mem_def mem_has_def algebra_simps)

lemma win_mem_bytes: "mem_bytes (win_mem mem base (w, x)) a n = mem_bytes (mem w) (a + base) n"
  by (simp add: win_mem_def mem_bytes_def algebra_simps)

locale mem_window = regio_object r mem dinv ok limit
  for r :: "'w regio" and mem dinv ok limit +
  fixes base sz :: int
  assumes page: "REGIO_MTU_DEFAULT \<le> limit"
begin

lemma plain_write_law:
  assumes "win_inv dinv r base sz (w, x)" and "win_ok ok base sz a (int (length d))" and "d \<noteq> []" and "int (length d) \<le> limit"
  shows "\<exists>w'. plain_dev_write a d (w, x) = (Inr (), (w', x)) \<and> dinv w' \<and> mem w' = mem_overlay (mem w) (a + base) d"
proof -
  have x: "dinv w" "xm_regio x = r" "xm_base_addr x = base" "xm_size x = sz" using assms(1) by (simp_all add: win_inv_def)
  obtain w' where "dev_write r (a + base) d w = (Inr (), w')" "dinv w'" "mem w' = mem_overlay (mem w) (a + base) d"
    using dev_write_law [OF x(1), of "a + base" d] assms by (auto simp: win_ok_def)
  then show ?thesis
    using x assms(2) by (simp add: plain_dev_write_def io_bind_run xm_check_size_def regio_addr_def win_ok_def)
qed

lemma plain_read_law:
  assumes "win_inv dinv r base sz (w, x)" and "win_ok ok base sz a n" and "0 < n" and "n \<le> limit"
    and "mem_has (mem w) (a + base) n"
  shows "\<exists>w'. plain_dev_read a n (w, x) = (Inr (mem_bytes (mem w) (a + base) n), (w', x)) \<and> dinv w' \<and> mem w' = mem w"
proof -
  have x: "dinv w" "xm_regio x = r" "xm_base_addr x = base" "xm_size x = sz" using assms(1) by (simp_all add: win_inv_def)
  obtain w' where "dev_read r (a + base) n w = (Inr (mem_bytes (mem w) (a + base) n), w')" "dinv w'" "mem w' = mem w"
    using dev_read_law [OF x(1), of "a + base" n] assms by (auto simp: win_ok_def)
  then show ?thesis
    using x assms(2) by (simp add: plain_dev_read_def io_bind_run xm_check_size_def regio_addr_def win_ok_def)
qed

end

sublocale mem_window \<subseteq> win: regio_object xmem_regio "win_mem mem base" "win_inv dinv r base sz" "win_ok ok base sz" limit
proof unfold_locales
  fix s :: "'w \<times> 'w xmem" and a and d :: "byte list"
  assume h: "win_inv dinv r base sz s" "win_ok ok base sz a (int (length d))" "d \<noteq> []" "int (length d) \<le> limit"
  obtain w x where s: "s = (w, x)" by (cases s)
  obtain w' where w': "plain_dev_write a d (w, x) = (Inr (), (w', x))" "dinv w'" "mem w' = mem_overlay (mem w) (a + base) d"
    using plain_write_law h s by blast
  have sz: "xm_size x = sz" "a + int (length d) \<le> sz" using h s by (simp_all add: win_inv_def win_ok_def)
  have "\<exists>x'. dev_write xmem_regio a d (w, x) = (Inr (), (w', x')) \<and> xm_regio x' = xm_regio x \<and>
      xm_base_addr x' = xm_base_addr x \<and> xm_size x' = xm_size x"
    using w'(1) sz by (auto simp: cached_dev_write_def io_bind_run xm_write_cached_def xm_check_size_def)
  then obtain x' where "dev_write xmem_regio a d (w, x) = (Inr (), (w', x'))" "xm_regio x' = xm_regio x"
      "xm_base_addr x' = xm_base_addr x" "xm_size x' = xm_size x" by blast
  then show "\<exists>s'. dev_write xmem_regio a d s = (Inr (), s') \<and> win_inv dinv r base sz s' \<and>
      win_mem mem base s' = mem_overlay (win_mem mem base s) a d"
    using w'(2) win_mem_overlay [OF w'(3)] h(1) s by (auto simp: win_inv_def)
next
  fix s :: "'w \<times> 'w xmem" and a n :: int
  assume h: "win_inv dinv r base sz s" "win_ok ok base sz a n" "0 < n" "n \<le> limit" "mem_has (win_mem mem base s) a n"
  obtain w x where s: "s = (w, x)" by (cases s)
  let ?d = "mem_bytes (mem w) (a + base) n"
  obtain w' where w': "plain_dev_read a n (w, x) = (Inr ?d, (w', x))" "dinv w'" "mem w' = mem w"
    using plain_read_law [of w x a n] h by (auto simp: s win_mem_has)
  have sz: "xm_size x = sz" "a + n \<le> sz" using h s by (simp_all add: win_inv_def win_ok_def)
  have "\<exists>x'. dev_read xmem_regio a n (w, x) = (Inr ?d, (w', x')) \<and> xm_regio x' = xm_regio x \<and>
      xm_base_addr x' = xm_base_addr x \<and> xm_size x' = xm_size x"
    using w'(1) sz h(3) by (auto simp: cached_dev_read_def io_bind_run xm_write_cached_def xm_check_size_def)
  then obtain x' where "dev_read xmem_regio a n (w, x) = (Inr ?d, (w', x'))" "xm_regio x' = xm_regio x"
      "xm_base_addr x' = xm_base_addr x" "xm_size x' = xm_size x" by blast
  then show "\<exists>s'. dev_read xmem_regio a n s = (Inr (mem_bytes (win_mem mem base s) a n), s') \<and>
      win_inv dinv r base sz s' \<and> win_mem mem base s' = win_mem mem base s"
    using w'(2,3) h(1) s by (auto simp: win_inv_def win_mem_bytes) (simp add: win_mem_def)
next
  show "win_ok ok base sz a n \<Longrightarrow> a \<le> b \<Longrightarrow> 0 \<le> k \<Longrightarrow> b + k \<le> a + n \<Longrightarrow> win_ok ok base sz b k" for a n b k
    using ok_sub [of "a + base" n "b + base" k] by (auto simp: win_ok_def)
qed (use page in \<open>simp_all add: REGIO_MTU_DEFAULT_def\<close>)

interpretation cw: mem_window RegioCache_init mem_of regions_ok addr_space "UINT32_MAX + 1" base sz for base sz
  by unfold_locales (simp add: REGIO_MTU_DEFAULT_def UINT32_MAX_def)

section \<open>A read fills the image\<close>

lemma py_slice_append:
  "0 \<le> i \<Longrightarrow> i \<le> j \<Longrightarrow> j \<le> k \<Longrightarrow> k \<le> int (length xs) \<Longrightarrow> py_slice xs i k = py_slice xs i j @ py_slice xs j k"
proof -
  assume h: "0 \<le> i" "i \<le> j" "j \<le> k" "k \<le> int (length xs)"
  then have "nat (k - i) = nat (j - i) + nat (k - j)" "nat j = nat (j - i) + nat i" by auto
  then show ?thesis using h by (simp add: py_slice_inside take_add add.commute)
qed

lemma xm_set_Inr: "xm_set g (w, x) = (Inr u, s) \<longleftrightarrow> (\<exists>x'. g x = Inr x' \<and> s = (w, x'))"
  by (auto split: sum.splits)

lemma xmem_read1_fills:
  assumes "regio_read1 xmem_regio b c (w, x) = (Inr d, (w', x'))" and "xm_is_cached x"
  shows "int (length d) = c \<and> xm_cache x' = py_slice_assign (xm_cache x) b (b + c) d \<and> xm_is_cached x' \<and>
    xm_size x' = xm_size x \<and> b + c \<le> xm_size x"
  using assms
  by (auto simp: regio_read1_def io_bind_Inr_iff cached_dev_read_def plain_dev_read_def xm_write_cached_def
      xm_check_size_def xm_is_cached_def xm_set_Inr rbind_Inr_iff simp del: xm_runs(2) split: sum.splits if_splits)

lemma xmem_read_loop_fills:
  assumes "read_loop xmem_regio a n c k col (w, x) = (Inr data, (w', x'))" and "xm_is_cached x"
    and "int (length (xm_cache x)) = xm_size x" and "0 \<le> a" and "0 \<le> k" and "k \<le> n" and "a + n \<le> xm_size x"
    and "py_slice (xm_cache x) a (a + k) = col"
  shows "py_slice (xm_cache x') a (a + n) = data \<and> int (length (xm_cache x')) = xm_size x' \<and> xm_size x' = xm_size x"
  using assms
proof (induction "nat (n - k)" arbitrary: c k col w x rule: less_induct)
  case less
  show ?case
  proof (cases "k < n")
    case False
    then have "read_loop xmem_regio a n c k col (w, x) = (Inr col, (w, x))" by (subst read_loop.simps) simp
    then show ?thesis using less.prems False by simp
  next
    case True
    define c' where "c' = min c (n - k)"
    have run: "read_loop xmem_regio a n c k col (w, x) = (if c' \<le> 0 then io_raise Diverges
        else io_bind (regio_read1 xmem_regio (a + k) c') (\<lambda>chunk. read_loop xmem_regio a n REGIO_MTU_DEFAULT (k + c') (col @ chunk))) (w, x)"
      unfolding c'_def by (subst read_loop.simps) (simp only: True if_True Let_def xmem_regio_simps(3))
    then have c: "0 < c'" using less.prems(1) by (auto split: if_splits)
    then obtain d w1 x1 where st: "regio_read1 xmem_regio (a + k) c' (w, x) = (Inr d, (w1, x1))"
        "read_loop xmem_regio a n REGIO_MTU_DEFAULT (k + c') (col @ d) (w1, x1) = (Inr data, (w', x'))"
      using less.prems(1) by (auto simp: run io_bind_Inr_iff)
    note x1 = xmem_read1_fills [OF st(1) less.prems(2)]
    have fit: "a + k + c' \<le> int (length (xm_cache x))" using x1 less.prems(3) by simp
    have l1: "int (length (xm_cache x1)) = xm_size x1"
      using x1 fit less.prems(3-5) py_slice_assign_inside_length [of "a + k" d "xm_cache x"] by simp
    have "py_slice (xm_cache x1) a (a + k) = col"
      using x1 fit less.prems(3-8) py_slice_of_assign_other [of "a + k" d "xm_cache x" a "a + k"] by simp
    moreover have "py_slice (xm_cache x1) (a + k) (a + k + c') = d"
      using x1 fit less.prems(4,5) py_slice_of_assign_same [of "a + k" d "xm_cache x"] by simp
    moreover have "a + k + c' \<le> int (length (xm_cache x1))" using l1 x1 by simp
    ultimately have "py_slice (xm_cache x1) a (a + (k + c')) = col @ d"
      using py_slice_append [of a "a + k" "a + k + c'" "xm_cache x1"] c less.prems(4,5) by (simp add: add.assoc)
    moreover have "nat (n - (k + c')) < nat (n - k)" using c True by simp
    moreover have "k + c' \<le> n" by (simp add: c'_def)
    ultimately show ?thesis
      using less.hyps [of "k + c'", OF _ st(2)] x1 l1 less.prems(4-7) c by (simp add: x1)
  qed
qed

section \<open>Properties\<close>

text \<open>
  Reading any range of a cached external memory, in as many pieces as the device needs, leaves
  exactly the bytes read in its image, so the cached read of the range gives them.
\<close>
theorem xmem_read_fills_cache:
  assumes "regio_read xmem_regio a n (w, x) = (Inr data, (w', x'))" and "xm_is_cached x"
    and "int (length (xm_cache x)) = xm_size x" and "0 \<le> a" and "0 \<le> n" and "a + n \<le> xm_size x"
  shows "xm_read_cached a n x' = Inr data \<and> int (length (xm_cache x')) = xm_size x'"
proof -
  obtain c where "read_loop xmem_regio a n c 0 [] (w, x) = (Inr data, (w', x'))"
    using assms(1) by (auto simp: regio_read_def io_bind_lift_run split: sum.splits)
  then show ?thesis
    using xmem_read_loop_fills [OF _ assms(2-4), of n c 0 "[]"] assms(4-6)
    by (simp add: xm_read_cached_def xm_check_size_def py_slice_def)
qed

definition example_xmem :: "regions xmem" where
  "example_xmem = (ExternalMem_init RegioCache_init 0x100 16 Acc_rw)\<lparr>xm_class := XM_cached, xm_cache := replicate 16 0\<rparr>"

text \<open>
  C39: an external memory over the memory backed device is itself a device: what is written at an
  address of the memory is what is read there, and on the device exactly the bytes at the base of
  the window plus that address change.
\<close>
theorem xmem_window_roundtrip:
  assumes "regions_ok w" and "xm_regio x = RegioCache_init" and "0 \<le> a" and "a + int (length d) \<le> xm_size x"
    and "addr_space (a + xm_base_addr x) (int (length d))"
  shows "\<exists>w' x'. regio_write xmem_regio a d (w, x) = (Inr (), (w', x')) \<and>
    mem_of w' = mem_overlay (mem_of w) (a + xm_base_addr x) d \<and>
    fst (regio_read xmem_regio a (int (length d)) (w', x')) = Inr d"
proof -
  let ?b = "xm_base_addr x"
  have inv: "win_inv regions_ok RegioCache_init ?b (xm_size x) (w, x)" using assms(1,2) by (simp add: win_inv_def)
  have ok: "win_ok addr_space ?b (xm_size x) a (int (length d))" using assms(3-5) by (simp add: win_ok_def)
  obtain w' x' where s: "regio_write xmem_regio a d (w, x) = (Inr (), (w', x'))"
      "win_inv regions_ok RegioCache_init ?b (xm_size x) (w', x')"
      "win_mem mem_of ?b (w', x') = mem_overlay (win_mem mem_of ?b (w, x)) a d"
    using cw.win.regio_write_law [OF inv ok] by (metis surj_pair)
  have "mem_of w' i = mem_overlay (mem_of w) (a + ?b) d i" for i
    using fun_cong [OF s(3), of "i - ?b"] by (simp add: win_mem_def mem_overlay_def algebra_simps split: if_splits)
  then have m: "mem_of w' = mem_overlay (mem_of w) (a + ?b) d" by blast
  have "mem_has (win_mem mem_of ?b (w', x')) a (int (length d))" by (simp add: s(3) mem_overlay_has)
  from cw.win.regio_read_law [OF s(2) ok this]
  have "fst (regio_read xmem_regio a (int (length d)) (w', x')) = Inr d"
    by (auto simp: s(3) mem_overlay_bytes)
  then show ?thesis using s(1) m by blast
qed

theorem xmem_window_roundtrip_witness:
  "\<exists>w' x'. regio_write xmem_regio 4 [1, 2] ([], example_xmem) = (Inr (), (w', x')) \<and>
    mem_of w' = mem_overlay (mem_of []) 0x104 [1, 2] \<and> fst (regio_read xmem_regio 4 2 (w', x')) = Inr [1, 2]"
proof -
  have "addr_space (4 + xm_base_addr example_xmem) (int (length [1, 2 :: byte]))"
    by (simp add: example_xmem_def ExternalMem_init_def addr_space_def UINT32_MAX_def)
  moreover have "4 + int (length [1, 2 :: byte]) \<le> xm_size example_xmem" "xm_regio example_xmem = RegioCache_init"
      "xm_base_addr example_xmem = 0x100" "regions_ok []"
    by (simp_all add: example_xmem_def ExternalMem_init_def regions_ok_def)
  ultimately show ?thesis using xmem_window_roundtrip [of "[]" example_xmem 4 "[1, 2]"] by (simp del: mem_of.simps)
qed

theorem xmem_read_fills_cache_witness:
  "\<exists>w' x'. regio_read xmem_regio 2 3 ([(0x100, [1, 2, 3, 4, 5, 6])], example_xmem) = (Inr [3, 4, 5], (w', x')) \<and>
    xm_read_cached 2 3 x' = Inr [3, 4, 5]"
proof -
  let ?w = "[(0x100, [1, 2, 3, 4, 5, 6 :: byte])] :: regions"
  have x: "xm_size example_xmem = 16" "xm_is_cached example_xmem" "int (length (xm_cache example_xmem)) = xm_size example_xmem"
      "xm_regio example_xmem = RegioCache_init" "xm_base_addr example_xmem = 0x100"
    by (simp_all add: example_xmem_def ExternalMem_init_def xm_is_cached_def)
  have inv: "win_inv regions_ok RegioCache_init 0x100 16 (?w, example_xmem)"
    using x by (simp add: win_inv_def regions_ok_def region_ok_def UINT32_MAX_def)
  have ok: "win_ok addr_space 0x100 16 2 3" by (simp add: win_ok_def addr_space_def UINT32_MAX_def)
  have m: "mem_has (mem_of ?w) (2 + 0x100) 3" "mem_bytes (mem_of ?w) (2 + 0x100) 3 = [3, 4, 5]"
    by (simp_all add: mem_has_def mem_bytes_def numeral_eq_Suc upt_rec less_Suc_eq)
  obtain w' x' where r: "regio_read xmem_regio 2 3 (?w, example_xmem) = (Inr [3, 4, 5], (w', x'))"
    using cw.win.regio_read_law [OF inv ok] m by (auto simp: win_mem_has win_mem_bytes simp del: mem_of.simps)
  show ?thesis using xmem_read_fills_cache [OF r x(2,3)] r x(1) by auto
qed

text \<open>
  The size check of an external memory has no lower bound. A write at a negative address
  passes it: it changes the device below the window, and on a cached memory it also overwrites the
  end of the image, or inserts bytes into it, so that it no longer has the size of the memory.
\<close>
theorem xmem_negative_addr:
  "(\<exists>x. plain_dev_write (- 4) [1, 2] ([], example_xmem) = (Inr (), ([(0xFC, [1, 2])], x))) \<and>
   (\<exists>x. cached_dev_write (- 4) [1, 2] ([], example_xmem) = (Inr (), ([(0xFC, [1, 2])], x)) \<and>
     xm_cache x = replicate 12 0 @ [1, 2, 0, 0]) \<and>
   (\<exists>x. cached_dev_write (- 1) [1, 2] ([], example_xmem) = (Inr (), ([(0xFF, [1, 2])], x)) \<and>
     length (xm_cache x) = 18)"
proof -
  have w: "plain_dev_write (- k) [1, 2] ([], example_xmem) = (Inr (), ([(0x100 - k, [1, 2])], example_xmem))"
    if "0 < k" "k \<le> 4" for k
    using that by (simp add: plain_dev_write_def io_bind_run xm_check_size_def regio_addr_def example_xmem_def
        ExternalMem_init_def RegioCache_init_def Regio_init_def cache_dev_write_def cache_write_run UINT32_MAX_def
        merge_write_def Let_def py_slice_assign_def py_clamp_def)
  show ?thesis
    using w [of 4] w [of 1]
    by (simp add: cached_dev_write_def io_bind_run xm_write_cached_def xm_check_size_def)
      (simp add: example_xmem_def ExternalMem_init_def py_slice_assign_def py_clamp_def numeral_eq_Suc)
qed

end
