(* ===== verification/RegPrint.thy ===== *)
theory RegPrint
  imports ExternalMem
begin

text \<open>
  The texts of the register map: the printing methods of \<^verbatim>\<open>pip/skmap/src/skmap/reg.py\<close> and the rows
  of \<^verbatim>\<open>reg_map_table.py\<close>. A table is the list of its rows; drawing it is left to the library
  \<^verbatim>\<open>rich\<close>. Strings are lists of 8-bit characters.
\<close>

section \<open>Names in an expression text\<close>

text \<open>\<^verbatim>\<open>\w\<close> of Python regular expressions.\<close>

definition word_char :: "char \<Rightarrow> bool" where
  "word_char c \<longleftrightarrow> (let n = of_char c :: nat in
     (48 \<le> n \<and> n \<le> 57) \<or> (65 \<le> n \<and> n \<le> 90) \<or> n = 95 \<or> (97 \<le> n \<and> n \<le> 122) \<or>
     n \<in> {0xAA, 0xB2, 0xB3, 0xB5, 0xB9, 0xBA, 0xBC, 0xBD, 0xBE} \<or> (0xC0 \<le> n \<and> n \<noteq> 0xD7 \<and> n \<noteq> 0xF7))"

definition word_boundary :: "char option \<Rightarrow> char option \<Rightarrow> bool" where
  "word_boundary a b \<longleftrightarrow>
     (case a of None \<Rightarrow> False | Some c \<Rightarrow> word_char c) \<noteq> (case b of None \<Rightarrow> False | Some c \<Rightarrow> word_char c)"

definition first_char :: "string \<Rightarrow> char option" where
  "first_char s = (case s of [] \<Rightarrow> None | c # cs \<Rightarrow> Some c)"

text \<open>Does \<^verbatim>\<open>\b<name>\b\<close> match at this position, after the character \<open>prev\<close>? A register has a name.\<close>

definition word_at :: "string \<Rightarrow> char option \<Rightarrow> string \<Rightarrow> bool" where
  "word_at nm prev text \<longleftrightarrow> nm \<noteq> [] \<and> take (length nm) text = nm \<and> word_boundary prev (first_char nm) \<and>
     word_boundary (Some (last nm)) (first_char (drop (length nm) text))"

fun word_found :: "string \<Rightarrow> char option \<Rightarrow> string \<Rightarrow> bool" where
  "word_found nm prev [] = False"
| "word_found nm prev (c # cs) = (word_at nm prev (c # cs) \<or> word_found nm (Some c) cs)"

text \<open>\<^verbatim>\<open>re.sub\<close>: \<open>skip\<close> counts the characters of a match still to be dropped.\<close>

fun word_sub :: "string \<Rightarrow> string \<Rightarrow> char option \<Rightarrow> nat \<Rightarrow> string \<Rightarrow> string" where
  "word_sub nm repl prev skip [] = []"
| "word_sub nm repl prev (Suc k) (c # cs) = word_sub nm repl (Some c) k cs"
| "word_sub nm repl prev 0 (c # cs) =
     (if word_at nm prev (c # cs) then repl @ word_sub nm repl (Some c) (length nm - 1) cs
      else c # word_sub nm repl (Some c) 0 cs)"

text \<open>A backslash in the replacement is a template escape, which raises.\<close>

fun resolve_expr_names :: "py_impl \<Rightarrow> reg list \<Rightarrow> 'w modmem \<Rightarrow> string \<Rightarrow> string res" where
  "resolve_expr_names pf [] m text = Inr text"
| "resolve_expr_names pf (k # ks) m text =
     (if \<not> word_found (rg_name k) None text then resolve_expr_names pf ks m text
      else case read_value_cached k m of
        Inl e \<Rightarrow> resolve_expr_names pf ks m text
      | Inr v \<Rightarrow>
          if CHR 92 \<in> set (py_val_str pf v) then Inl GenericException
          else resolve_expr_names pf ks m (word_sub (rg_name k) (py_val_str pf v) None 0 text))"

definition v_convert_marker :: "py_impl \<Rightarrow> reg list \<Rightarrow> reg \<Rightarrow> 'w modmem \<Rightarrow> string res" where
  "v_convert_marker pf ks r m =
     (case rg_v_convert r of None \<Rightarrow> Inr ''''
      | Some cv \<Rightarrow>
          rbind (resolve_expr_names pf ks m (cv_str cv)) (\<lambda>conv.
            let conv = (if 2 < length conv \<and> hd conv \<in> set ''({'' \<and> last conv \<in> set ''})''
                        then py_strip (butlast (tl conv)) else conv)
            in Inr (''={ '' @ conv @ '' } '')))"

section \<open>The value of a register\<close>

datatype str_base = Base2 | Base10 | Base16

definition str_num :: "reg \<Rightarrow> int \<Rightarrow> str_base \<Rightarrow> string res" where
  "str_num r v base =
     (case base of
        Base2 \<Rightarrow> Inr (''0b'' @ py_fmt0 2 False (vt_width (rg_type r)) v)
      | Base10 \<Rightarrow> Inr (py_str_int v)
      | Base16 \<Rightarrow> rbind (ceil_div (vt_width (rg_type r)) 4) (\<lambda>n. Inr (''0x'' @ py_fmt0 16 True n v)))"

definition v_check_bound_str :: "py_impl \<Rightarrow> reg list \<Rightarrow> reg \<Rightarrow> string \<Rightarrow> 'w modmem \<Rightarrow> string res" where
  "v_check_bound_str pf ks r color m =
     rbind (resolve_expr_names pf ks m (case rg_v_check r of None \<Rightarrow> ''None'' | Some vc \<Rightarrow> vc_str vc)) (\<lambda>s.
       Inr (to_rich_str s (Some color) @ '' ''))"

text \<open>The text of the value before the asserts, of a register that is not a vector.\<close>

definition reg_value_str :: "py_impl \<Rightarrow> reg \<Rightarrow> 'w modmem \<Rightarrow> string res" where
  "reg_value_str pf r m =
     (case vt_kind (rg_type r) of
        VK_uint \<Rightarrow> rbind (read_uint_cached r m) (\<lambda>v. str_num r v Base10)
      | VK_sint \<Rightarrow> rbind (read_sint_cached r m) (\<lambda>v. str_num r v Base10)
      | VK_bits \<Rightarrow> rbind (read_uint_cached r m) (\<lambda>v. str_num r v Base16)
      | VK_flag \<Rightarrow> (if is_bool (rg_type r) then rbind (read_bool_cached r m) (\<lambda>v. Inr (py_str_bool v))
                   else rbind (read_uint_cached r m) (\<lambda>v. str_num r v Base2))
      | VK_char \<Rightarrow> read_char_cached r m)"

definition reg_rich_str_cached :: "py_impl \<Rightarrow> reg list \<Rightarrow> reg \<Rightarrow> 'w modmem \<Rightarrow> string res" where
  "reg_rich_str_cached pf ks r m =
     rbind (reg_value_str pf r m) (\<lambda>value_str.
     rbind (if rg_ass r \<noteq> Ass_none then rbind (m_ass_check_cached r Ass_none [] m) (\<lambda>(a, _). Inr a) else Inr Ass_none) (\<lambda>a.
     rbind (Inr (if rg_ass r \<noteq> Ass_none then to_rich_str (ass_str (rg_ass r)) (Some (ass_color a)) @ '': '' else '''')) (\<lambda>s.
     rbind (if has_limit r
            then rbind (reg_ass_check_limit_cached r m) (\<lambda>lim.
                 rbind (v_check_bound_str pf ks r
                          (if lim = Ass_none then ass_color Ass_passed else ass_color (max a lim)) m) (\<lambda>t.
                   Inr (max a lim, s @ t)))
            else Inr (a, s)) (\<lambda>(a, s).
     rbind (if has_v_convert r then rbind (read_converted_cached r m) (\<lambda>v. Inr (py_val_str pf v)) else Inr value_str) (\<lambda>value_str.
       Inr (s @ to_rich_str value_str (Some (ass_color a))))))))"

text \<open>The elements of a vector: numbers, bools or characters.\<close>

datatype elem = El_num pynum | El_bool bool | El_chr char

definition vec_elems :: "reg \<Rightarrow> 'w modmem \<Rightarrow> (elem list \<times> str_base) res" where
  "vec_elems r m =
     (case vt_kind (rg_type r) of
        VK_uint \<Rightarrow> rbind (read_list_uint_cached r m) (\<lambda>vs. Inr (map (\<lambda>v. El_num (PInt v)) vs, Base10))
      | VK_sint \<Rightarrow> rbind (read_list_sint_cached r m) (\<lambda>vs. Inr (map (\<lambda>v. El_num (PInt v)) vs, Base10))
      | VK_bits \<Rightarrow> rbind (read_list_uint_cached r m) (\<lambda>vs. Inr (map (\<lambda>v. El_num (PInt v)) vs, Base16))
      | VK_flag \<Rightarrow> rbind (rassert (is_bool (rg_type r))) (\<lambda>_.
                   rbind (read_list_bool_cached r m) (\<lambda>vs. Inr (map El_bool vs, Base10)))
      | VK_char \<Rightarrow> rbind (read_str_cached r m) (\<lambda>s. Inr (map El_chr s, Base10)))"

definition elem_str :: "py_impl \<Rightarrow> reg \<Rightarrow> str_base \<Rightarrow> elem \<Rightarrow> string res" where
  "elem_str pf r base v =
     (case v of
        El_num (PInt i) \<Rightarrow> str_num r i base
      | El_num (PFlt x) \<Rightarrow> Inr (pf_str pf x)
      | El_bool b \<Rightarrow> Inr (py_str_bool b)
      | El_chr c \<Rightarrow> Inr [c])"

text \<open>The loop over the elements; \<open>n\<close> is their number.\<close>

fun vec_elems_str :: "py_impl \<Rightarrow> reg \<Rightarrow> str_base \<Rightarrow> nat \<Rightarrow> nat \<Rightarrow> elem list \<Rightarrow> 'w modmem \<Rightarrow> string res" where
  "vec_elems_str pf r base n idx [] m = Inr ''''"
| "vec_elems_str pf r base n idx (v # vs) m =
     rbind (vec_ass_check_cached_idx r (int idx) Ass_none [] m) (\<lambda>(a, _).
     rbind (elem_str pf r base v) (\<lambda>v_str.
     rbind (vec_elems_str pf r base n (Suc idx) vs m) (\<lambda>rest.
       Inr (to_rich_str v_str (Some (ass_color a)) @ (if Suc idx \<noteq> n then '', '' else '''') @ rest))))"

definition vec_rich_str_cached :: "py_impl \<Rightarrow> reg list \<Rightarrow> reg \<Rightarrow> 'w modmem \<Rightarrow> string res" where
  "vec_rich_str_cached pf ks r m =
     rbind (vec_elems r m) (\<lambda>(vs, base).
     rbind (if rg_ass r \<noteq> Ass_none
            then rbind (vec_ass_check_cached r Ass_none [] m) (\<lambda>(a, _).
                   Inr (to_rich_str (pf_ass_str pf (rg_ass r)) (Some (ass_color a)) @ '': ''))
            else Inr '''') (\<lambda>s.
     rbind (if has_limit r
            then rbind (vec_ass_check_limit_cached r m) (\<lambda>lim.
                 rbind (v_check_bound_str pf ks r
                          (if lim = Ass_none then ass_color Ass_passed else ass_color (max Ass_none lim)) m) (\<lambda>t. Inr (s @ t)))
            else Inr s) (\<lambda>s.
     rbind (if has_v_convert r then rbind (vec_read_converted_cached r m) (\<lambda>vs. Inr (map El_num vs)) else Inr vs) (\<lambda>vs.
     rbind (vec_elems_str pf r base (length vs) 0 vs m) (\<lambda>t.
       Inr (s @ ''[ '' @ t @ '' ]''))))))"

definition m_rich_str_cached :: "py_impl \<Rightarrow> reg list \<Rightarrow> reg \<Rightarrow> 'w modmem \<Rightarrow> string res" where
  "m_rich_str_cached pf ks r =
     (case rg_class r of RC_vec eo \<Rightarrow> vec_rich_str_cached pf ks r | _ \<Rightarrow> reg_rich_str_cached pf ks r)"

text \<open>A flag.\<close>

definition flag_value_rich_str :: "py_impl \<Rightarrow> reg \<Rightarrow> rflag \<Rightarrow> 'w modmem \<Rightarrow> string res" where
  "flag_value_rich_str pf r f m =
     (if rf_vec_len f = None
      then rbind (flag_read_bool_cached r f m) (\<lambda>v.
             Inr (if rf_ass f = Ass_none then py_str_bool v
                  else to_rich_str (pf_ass_str pf (rf_ass f) @ '': '' @ py_str_bool v) (Some (ass_color (flag_ass f v)))))
      else rbind (flag_read_list_bool_cached r f m) (\<lambda>lv.
             let checked = flag_ass_list f lv in
             Inr ((if rf_ass f \<noteq> Ass_none then to_rich_str (pf_ass_str pf (rf_ass f) @ '': '') (Some (ass_color checked)) else '''') @
               ''0b'' @
               concat (map (\<lambda>v. to_rich_str (py_str_int (of_bool v))
                                  (Some (ass_color (if checked \<le> Ass_passed \<or> v then checked else Ass_passed)))) (rev lv)))))"

section \<open>The table\<close>

text \<open>A description with the marker of a conversion in front of it keeps the two apart.\<close>

datatype desc_text = Desc string | Desc_marked string string

record table_row =
  row_addr :: string
  row_type :: string
  row_acc :: string
  row_name :: string
  row_value :: string
  row_desc :: desc_text

definition desc_cell_reg :: "py_impl \<Rightarrow> reg list \<Rightarrow> reg \<Rightarrow> 'w modmem \<Rightarrow> desc_text res" where
  "desc_cell_reg pf ks r m =
     rbind (v_convert_marker pf ks r m) (\<lambda>marker.
       Inr (if marker = '''' then Desc (rg_desc r) else Desc_marked marker (rg_desc r)))"

definition add_flag :: "py_impl \<Rightarrow> reg \<Rightarrow> rflag \<Rightarrow> 'w modmem \<Rightarrow> table_row list \<Rightarrow> table_row list res" where
  "add_flag pf r f m t =
     rbind (flag_value_rich_str pf r f m) (\<lambda>v.
       Inr (t @ [\<lparr>row_addr = ''-'', row_type = ''b'', row_acc = py_str_int (rf_bit f), row_name = rf_name f,
                  row_value = v, row_desc = Desc (rf_desc f)\<rparr>]))"

fun add_flags :: "py_impl \<Rightarrow> reg \<Rightarrow> rflag list \<Rightarrow> 'w modmem \<Rightarrow> table_row list \<Rightarrow> table_row list res" where
  "add_flags pf r [] m t = Inr t"
| "add_flags pf r (f # fs) m t = rbind (add_flag pf r f m t) (add_flags pf r fs m)"

definition add_reg :: "py_impl \<Rightarrow> reg list \<Rightarrow> bool \<Rightarrow> reg \<Rightarrow> 'w modmem \<Rightarrow> table_row list \<Rightarrow> table_row list res" where
  "add_reg pf ks expand_flags r m t =
     rbind (reg_addr r) (\<lambda>a.
     rbind (m_rich_str_cached pf ks r m) (\<lambda>v.
     rbind (desc_cell_reg pf ks r m) (\<lambda>d.
       let t = t @ [\<lparr>row_addr = py_hex a, row_type = value_type_str r, row_acc = acc_name (rg_acc r), row_name = rg_name r,
                     row_value = v, row_desc = d\<rparr>]
       in if expand_flags then add_flags pf r (reg_flags r) m t else Inr t)))"

definition add_mem :: "'w xmem \<Rightarrow> table_row list \<Rightarrow> table_row list res" where
  "add_mem x t =
     rbind (xm_set_field (xm_name x)) (\<lambda>nm.
     rbind (xm_set_field (xm_desc x)) (\<lambda>d.
       Inr (t @ [\<lparr>row_addr = py_hex (xm_base_addr x), row_type = xm_value_type_str x, row_acc = acc_name (xm_acc x),
                  row_name = nm, row_value = ''(Mem size:'' @ py_str_int (xm_size x) @ '' B)'', row_desc = Desc d\<rparr>])))"

fun fold_rows :: "('a \<Rightarrow> table_row list \<Rightarrow> table_row list res) \<Rightarrow> 'a list \<Rightarrow> table_row list \<Rightarrow> table_row list res" where
  "fold_rows f [] t = Inr t"
| "fold_rows f (x # xs) t = rbind (f x t) (fold_rows f xs)"

definition add_module ::
  "py_impl \<Rightarrow> reg list \<Rightarrow> reg list \<Rightarrow> 'w xmem list \<Rightarrow> 'w modmem \<Rightarrow> table_row list \<Rightarrow> table_row list res" where
  "add_module pf arr_k arr_var mems m t =
     rbind (fold_rows (\<lambda>r. add_reg pf arr_k True r m) arr_k t) (\<lambda>t.
     rbind (fold_rows (\<lambda>r. add_reg pf arr_k True r m) arr_var t) (\<lambda>t. fold_rows add_mem mems t))"

text \<open>
  \<^verbatim>\<open>print_table_reg_list\<close>. A logged register comes with the constants and the memory of its module;
  the identity of a register object is its address and name.
\<close>

type_synonym 'w logged = "log_item \<times> reg list \<times> 'w modmem"

fun reg_list_rows ::
  "py_impl \<Rightarrow> bool \<Rightarrow> (int option \<times> string) option \<Rightarrow> 'w logged list \<Rightarrow> table_row list \<Rightarrow> table_row list res" where
  "reg_list_rows pf prepend reg_prev [] t = Inr t"
| "reg_list_rows pf prepend reg_prev ((Log_flag r f, ks, m) # l) t =
     (let key = Some (rg_addr r, rg_name r) in
      if prepend \<and> key \<noteq> reg_prev
      then rbind (add_reg pf ks False r m t) (\<lambda>t. rbind (add_flag pf r f m t) (reg_list_rows pf prepend key l))
      else rbind (add_flag pf r f m t) (reg_list_rows pf prepend reg_prev l))"
| "reg_list_rows pf prepend reg_prev ((Log_reg r, ks, m) # l) t =
     rbind (add_reg pf ks False r m t) (reg_list_rows pf prepend reg_prev l)"

section \<open>The rows of a module\<close>

definition reg_row_names :: "reg \<Rightarrow> string list" where
  "reg_row_names r = rg_name r # map rf_name (reg_flags r)"

lemma add_flags_names: "add_flags pf r fs m t = Inr t' \<Longrightarrow> map row_name t' = map row_name t @ map rf_name fs"
  by (induction fs arbitrary: t) (auto simp: rbind_Inr_iff add_flag_def)

lemma add_reg_names: "add_reg pf ks True r m t = Inr t' \<Longrightarrow> map row_name t' = map row_name t @ reg_row_names r"
  by (auto simp: add_reg_def rbind_Inr_iff Let_def reg_row_names_def dest: add_flags_names)

lemma add_mem_names: "add_mem x t = Inr t' \<Longrightarrow> map row_name t' = map row_name t @ [the (xm_name x)]"
  by (auto simp: add_mem_def rbind_Inr_iff xm_set_field_def split: option.splits)

lemma fold_rows_names:
  assumes "\<And>x t t'. f x t = Inr t' \<Longrightarrow> map row_name t' = map row_name t @ g x"
  shows "fold_rows f xs t = Inr t' \<Longrightarrow> map row_name t' = map row_name t @ concat (map g xs)"
proof (induction xs arbitrary: t)
  case (Cons x xs)
  obtain t1 where "f x t = Inr t1" "fold_rows f xs t1 = Inr t'" using Cons.prems by (auto simp: rbind_Inr_iff)
  then show ?case using Cons.IH assms by simp
qed simp

text \<open>
  The printed register map of a module lists everything the module has, in order: the constants
  and then the variables, each flag register followed by its flags, and then the external memories.
\<close>
theorem reg_map_lists_all:
  assumes "add_module pf arr_k arr_var mems m [] = Inr t"
  shows "map row_name t = concat (map reg_row_names (arr_k @ arr_var)) @ map (\<lambda>x. the (xm_name x)) mems"
proof -
  obtain t1 t2 where t: "fold_rows (\<lambda>r. add_reg pf arr_k True r m) arr_k [] = Inr t1"
      "fold_rows (\<lambda>r. add_reg pf arr_k True r m) arr_var t1 = Inr t2" "fold_rows add_mem mems t2 = Inr t"
    using assms by (auto simp: add_module_def rbind_Inr_iff)
  have "map row_name t1 = concat (map reg_row_names arr_k)"
    using fold_rows_names [OF add_reg_names t(1)] by simp
  moreover have "map row_name t2 = map row_name t1 @ concat (map reg_row_names arr_var)"
    by (rule fold_rows_names [OF add_reg_names t(2)])
  moreover have "map row_name t = map row_name t2 @ concat (map (\<lambda>x. [the (xm_name x)]) mems)"
    by (rule fold_rows_names [OF add_mem_names t(3)])
  ultimately show ?thesis by simp
qed

theorem reg_map_lists_all_witness:
  "\<exists>t. add_module \<lparr>pf_round = id, pf_str = (\<lambda>_. ''''), pf_ass_str = ass_str, pf_pow = (\<lambda>_ _. Inl ValueError)\<rparr> [] [example_reg Acc_rw VK_uint 12 None] [] example_mem [] = Inr t \<and>
     map row_name t = [''R'']"
proof -
  let ?pf = "\<lparr>pf_round = id, pf_str = (\<lambda>_. ''''), pf_ass_str = ass_str, pf_pow = (\<lambda>_ _. Inl ValueError)\<rparr>"
  let ?r = "example_reg Acc_rw VK_uint 12 None"
  have b: "read_cached 0x104 2 example_mem = [0, 0]"
    by (simp add: read_cached_def cache_addr_def example_mem_def py_slice_inside numeral_eq_Suc)
  have u: "read_uint_cached ?r example_mem = Inr 0"
    using b by (simp add: read_uint_cached_def read_bytes_cached_def reg_addr_def example_reg_def)
  have "\<exists>s. reg_rich_str_cached ?pf [] ?r example_mem = Inr s"
    using u by (simp add: reg_rich_str_cached_def reg_value_str_def has_limit_def has_v_convert_def)
      (simp add: example_reg_def str_num_def)
  then obtain t where t: "add_module ?pf [] [?r] [] example_mem [] = Inr t"
    by (auto simp: add_module_def add_reg_def reg_addr_def m_rich_str_cached_def desc_cell_reg_def v_convert_marker_def
        reg_flags_def example_reg_def Let_def)
  then show ?thesis using reg_map_lists_all [OF t] by (simp add: reg_row_names_def reg_flags_def example_reg_def)
qed

end
