(* ===== verification/Module.thy ===== *)
theory Module
  imports RegPrint
begin

text \<open>
  \<^verbatim>\<open>pip/skmap/src/skmap/module.py\<close>: the construction of a module from its bytes, and its own
  operations on its registers and external memories; the tree of kids and the factory are in
  ModuleTree. \<open>modcore\<close> is the state of a module without its kids: \<open>mo_mem\<close> is the part the
  registers use. The hooks a subclass implements (\<open>_init_reg_map_k\<close> and so on, normally generated
  from a recipe) are functions on that state in the record of the class. Log messages are dropped.
\<close>

section \<open>State\<close>

record 'w modcore =
  mo_mem :: "'w modmem"
  mo_name :: string
  mo_head :: head
  mo_allow_unknowen :: bool
  mo_kid_addrs :: "int list"
  mo_byte_idx :: int
  mo_arr_reg_k :: "reg list"
  mo_arr_reg_var :: "reg list"
  mo_arr_reg_var_ass :: "reg list"
  mo_arr_external_mem :: "'w xmem list"
  mo_base_addr_var :: int
  mo_size_var :: int

record 'w mod_class =
  cl_name :: string
  cl_id :: "string res"
  cl_version :: "int res"
  cl_checksum :: "int res"
  cl_init_reg_map_k :: "'w modcore \<Rightarrow> 'w modcore res"
  cl_init_reg_map_var :: "'w modcore \<Rightarrow> 'w modcore res"
  cl_init_external_mem :: "'w modcore \<Rightarrow> 'w modcore res"
  cl_init_finialise :: "'w modcore \<Rightarrow> 'w modcore res"

definition MAX_EXTERNAL_MEM_CACHE_SIZE :: int where "MAX_EXTERNAL_MEM_CACHE_SIZE = 1024 * 1024"

definition mo_base_addr :: "'w modcore \<Rightarrow> int" where
  "mo_base_addr c = mm_base_addr (mo_mem c)"

definition mo_set_use_cache :: "bool \<Rightarrow> 'w modcore \<Rightarrow> 'w modcore" where
  "mo_set_use_cache b c = c\<lparr>mo_mem := (mo_mem c)\<lparr>mm_use_cache := b\<rparr>\<rparr>"

definition len_external_mem :: "'w modcore \<Rightarrow> int" where
  "len_external_mem c = int (length (mo_arr_external_mem c))"

definition external_mem_at :: "'w modcore \<Rightarrow> int \<Rightarrow> 'w xmem res" where
  "external_mem_at c i = py_index (mo_arr_external_mem c) i"

section \<open>Adding registers\<close>

definition byte_idx_align_addr_width :: "int \<Rightarrow> 'w modcore \<Rightarrow> 'w modcore res" where
  "byte_idx_align_addr_width width c =
     (if width = 0 then Inr c
      else rbind (ceil_multiple (mo_byte_idx c) (byte_alignment_from_val_width (mm_byte_align (mo_mem c)) width)) (\<lambda>i.
        Inr (c\<lparr>mo_byte_idx := i\<rparr>)))"

definition add_reg_k :: "reg \<Rightarrow> 'w modcore \<Rightarrow> 'w modcore res" where
  "add_reg_k r c =
     rbind (byte_idx_align_addr_width (vt_width (rg_type r)) c) (\<lambda>c.
       let r = r\<lparr>rg_addr := Some (mo_byte_idx c + mo_base_addr c)\<rparr>;
           c = c\<lparr>mo_arr_reg_k := mo_arr_reg_k c @ [r],
                 mo_arr_reg_var_ass := (if rg_v_check r \<noteq> None then mo_arr_reg_var_ass c @ [r] else mo_arr_reg_var_ass c),
                 mo_byte_idx := mo_byte_idx c + rg_size r\<rparr>
       in byte_idx_align_addr_width (vt_width (rg_type r)) c)"

definition add_reg_var :: "reg \<Rightarrow> 'w modcore \<Rightarrow> 'w modcore res" where
  "add_reg_var r c =
     rbind (byte_idx_align_addr_width (vt_width (rg_type r)) c) (\<lambda>c.
       let r = r\<lparr>rg_addr := Some (mo_byte_idx c + mo_base_addr c)\<rparr>;
           c = c\<lparr>mo_arr_reg_var := mo_arr_reg_var c @ [r],
                 mo_arr_reg_var_ass := (if m_has_ass r then mo_arr_reg_var_ass c @ [r] else mo_arr_reg_var_ass c),
                 mo_byte_idx := mo_byte_idx c + rg_size r\<rparr>
       in byte_idx_align_addr_width (vt_width (rg_type r)) c)"

text \<open>
  The hooks a generated class has: it constructs each register (a vector asks the module for its
  alignment) and adds it, and names its external memories.
\<close>

fun reg_map_hook ::
  "(reg \<Rightarrow> 'w modcore \<Rightarrow> 'w modcore res) \<Rightarrow> (int \<Rightarrow> reg res) list \<Rightarrow> 'w modcore \<Rightarrow> 'w modcore res" where
  "reg_map_hook add [] c = Inr c"
| "reg_map_hook add (mk # mks) c =
     rbind (mk (mm_byte_align (mo_mem c))) (\<lambda>r. rbind (add r c) (reg_map_hook add mks))"

text \<open>The abstract method of the base class has a body, for subclasses that call it.\<close>

definition base_init_reg_map_var :: "'w modcore \<Rightarrow> 'w modcore res" where
  "base_init_reg_map_var c = rbind (rassert (len_external_mem c = 0)) (\<lambda>_. Inr c)"

section \<open>Construction\<close>

definition init_core :: "'w regio \<Rightarrow> int \<Rightarrow> head \<Rightarrow> byte list \<Rightarrow> bool \<Rightarrow> string \<Rightarrow> 'w modcore" where
  "init_core r addr h data allow nm =
     \<lparr>mo_mem = \<lparr>mm_regio = r, mm_base_addr = addr, mm_cache = data, mm_use_cache = False, mm_byte_align = 1\<rparr>,
      mo_name = nm, mo_head = h, mo_allow_unknowen = allow, mo_kid_addrs = [], mo_byte_idx = SIZE_HEAD,
      mo_arr_reg_k = [], mo_arr_reg_var = [], mo_arr_reg_var_ass = [], mo_arr_external_mem = [],
      mo_base_addr_var = 0, mo_size_var = 0\<rparr>"

fun init_kid_addrs :: "nat \<Rightarrow> byte list \<Rightarrow> 'w modcore \<Rightarrow> 'w modcore res" where
  "init_kid_addrs 0 data c = Inr c"
| "init_kid_addrs (Suc n) data c =
     (let i = mo_byte_idx c; a = le_to_int (py_slice data i (i + SIZE_WORD)) in
      rbind (rassert (a \<noteq> 0)) (\<lambda>_.
        init_kid_addrs n data (c\<lparr>mo_kid_addrs := mo_kid_addrs c @ [a], mo_byte_idx := i + SIZE_WORD\<rparr>)))"

definition SUB_PAD :: int where "SUB_PAD = 0x00"
definition SUB_BYTE_ALIGN :: int where "SUB_BYTE_ALIGN = 0x1A"
definition SUB_EXTERNAL_MEM :: int where "SUB_EXTERNAL_MEM = 0x3B"

definition external_mem_of_sub :: "byte list \<Rightarrow> 'w modcore \<Rightarrow> 'w xmem res" where
  "external_mem_of_sub data c =
     (let i = mo_byte_idx c in
      rbind (byte_at data (i + 1)) (\<lambda>acc_int.
      rbind (acc_of_value acc_int) (\<lambda>a.
        let base = le_to_int (py_slice data (i + 4) (i + 8));
            sz = le_to_int (py_slice data (i + 8) (i + 12))
        in if sz \<le> MAX_EXTERNAL_MEM_CACHE_SIZE then ExternalMemCached_init (mm_regio (mo_mem c)) base sz a
           else Inr (ExternalMem_init (mm_regio (mo_mem c)) base sz a))))"

text \<open>The loop over the sub heads; \<open>align\<close> is the byte alignment found so far.\<close>

function init_sub_heads :: "int \<Rightarrow> byte list \<Rightarrow> int \<Rightarrow> 'w modcore \<Rightarrow> ('w modcore \<times> int) res" where
  "init_sub_heads sub_end data align c =
     (if mo_byte_idx c < sub_end
      then rbind (byte_at data (mo_byte_idx c)) (\<lambda>sub_id.
        if sub_id = SUB_PAD then Inr (c, align)
        else if sub_id = SUB_BYTE_ALIGN then
          rbind (byte_at data (mo_byte_idx c + 1)) (\<lambda>align.
          rbind (rassert (\<exists>k < 8. align = 2 ^ k)) (\<lambda>_.
            init_sub_heads sub_end data align (c\<lparr>mo_byte_idx := mo_byte_idx c + SIZE_WORD\<rparr>)))
        else if sub_id = SUB_EXTERNAL_MEM then
          rbind (external_mem_of_sub data c) (\<lambda>x.
            init_sub_heads sub_end data align
              (c\<lparr>mo_arr_external_mem := mo_arr_external_mem c @ [x], mo_byte_idx := mo_byte_idx c + 3 * SIZE_WORD\<rparr>))
        else Inl GenericException)
      else Inr (c, align))"
  by pat_completeness auto
termination
  by (relation "measure (\<lambda>(e, d, a, c). nat (e - mo_byte_idx c))") (auto simp: SIZE_WORD_def)

declare init_sub_heads.simps [simp del]

definition word_align_idx :: "'w modcore \<Rightarrow> 'w modcore res" where
  "word_align_idx c = rbind (ceil_div (mo_byte_idx c) SIZE_WORD) (\<lambda>q. Inr (c\<lparr>mo_byte_idx := q * SIZE_WORD\<rparr>))"

definition Module_init :: "'w mod_class \<Rightarrow> 'w regio \<Rightarrow> int \<Rightarrow> head \<Rightarrow> byte list \<Rightarrow> bool \<Rightarrow> 'w modcore res" where
  "Module_init cl r addr h data allow =
     rbind (rassert (hd_sync h = SYNC)) (\<lambda>_.
     rbind (init_kid_addrs (nat (hd_len_kids h)) data (init_core r addr h data allow (cl_name cl))) (\<lambda>c.
       let sub_end = mo_byte_idx c + hd_len_sub h * SIZE_WORD in
     rbind (init_sub_heads sub_end data 1 c) (\<lambda>(c, align).
       let c = c\<lparr>mo_byte_idx := sub_end\<rparr>; expected = mo_byte_idx c + hd_len_k h * SIZE_WORD in
     rbind (cl_init_reg_map_k cl c) (\<lambda>c.
     rbind (word_align_idx c) (\<lambda>c.
     rbind (rassert (expected = mo_byte_idx c)) (\<lambda>_.
       let c = c\<lparr>mo_base_addr_var := mo_byte_idx c + mo_base_addr c, mo_size_var := hd_len_var h * SIZE_WORD,
                 mo_mem := (mo_mem c)\<lparr>mm_byte_align := align\<rparr>\<rparr>;
           expected = mo_byte_idx c + mo_size_var c in
     rbind (cl_init_reg_map_var cl c) (\<lambda>c.
     rbind (word_align_idx c) (\<lambda>c.
     rbind (rassert (expected = mo_byte_idx c)) (\<lambda>_.
     rbind (cl_init_external_mem cl c) (\<lambda>c.
     rbind (rmapM external_mem_cast_to_derived_if_possible (mo_arr_external_mem c)) (\<lambda>xs.
       cl_init_finialise cl (c\<lparr>mo_arr_external_mem := xs\<rparr>))))))))))))"

subsection \<open>The class for unregistered modules\<close>

definition unkowen_name :: "string \<Rightarrow> nat \<Rightarrow> string" where
  "unkowen_name kind ii = ''UNKOWN_'' @ kind @ ''_'' @ py_str_int (int ii)"

definition unkowen_init_k :: "'w modcore \<Rightarrow> 'w modcore res" where
  "unkowen_init_k c =
     reg_map_hook add_reg_k
       (map (\<lambda>ii _. RegK_init (unkowen_name ''K'' ii) value_type_x32 (''Unkowen constant '' @ py_str_int (int ii))
                     Ass_none None None None) [0..<nat (hd_len_k (mo_head c))]) c"

definition unkowen_init_var :: "'w modcore \<Rightarrow> 'w modcore res" where
  "unkowen_init_var c =
     reg_map_hook add_reg_var
       (map (\<lambda>ii _. Reg_init (unkowen_name ''VAR'' ii) value_type_x32 Acc_na (''Unkowen variable '' @ py_str_int (int ii))
                     Ass_none None None None) [0..<nat (hd_len_var (mo_head c))]) c"

definition ModuleUnkowen :: "'w mod_class" where
  "ModuleUnkowen =
     \<lparr>cl_name = ''Unkowen'', cl_id = Inl AssertionError, cl_version = Inl AssertionError, cl_checksum = Inl AssertionError,
      cl_init_reg_map_k = unkowen_init_k, cl_init_reg_map_var = unkowen_init_var,
      cl_init_external_mem = (\<lambda>c. Inr c), cl_init_finialise = (\<lambda>c. Inr c)\<rparr>"

section \<open>Operations\<close>

definition on_mem :: "('w \<times> 'w modmem, 'a) io \<Rightarrow> ('w \<times> 'w modcore, 'a) io" where
  "on_mem f = (\<lambda>(w, c). case f (w, mo_mem c) of (x, (w', m')) \<Rightarrow> (x, (w', c\<lparr>mo_mem := m'\<rparr>)))"

definition mo_get :: "('w modcore \<Rightarrow> 'a res) \<Rightarrow> ('w \<times> 'w modcore, 'a) io" where
  "mo_get f = (\<lambda>(w, c). (f c, (w, c)))"

definition on_xmem :: "nat \<Rightarrow> ('w \<times> 'w xmem, 'a) io \<Rightarrow> ('w \<times> 'w modcore, 'a) io" where
  "on_xmem i f = (\<lambda>(w, c).
     if i < length (mo_arr_external_mem c)
     then (case f (w, mo_arr_external_mem c ! i) of
             (y, (w', x')) \<Rightarrow> (y, (w', c\<lparr>mo_arr_external_mem := (mo_arr_external_mem c)[i := x']\<rparr>)))
     else (Inl IndexError, (w, c)))"

definition read_mem_if_cached :: "nat \<Rightarrow> ('w \<times> 'w modcore, unit) io" where
  "read_mem_if_cached i =
     on_xmem i (io_bind (xm_get (\<lambda>x. Inr (xm_is_cached x, xm_size x))) (\<lambda>(cached, sz).
       if cached then io_bind (regio_read xmem_regio 0 sz) (\<lambda>_. io_return ()) else io_return ()))"

definition read_all :: "bool \<Rightarrow> bool \<Rightarrow> ('w \<times> 'w modcore, unit) io" where
  "read_all read_external_mem_cache skip_self =
     io_bind (mo_get (\<lambda>c. rassert (\<not> mm_use_cache (mo_mem c)))) (\<lambda>_.
     io_bind (if skip_self then io_return ()
              else io_bind (mo_get (\<lambda>c. Inr (mo_base_addr_var c, mo_size_var c))) (\<lambda>(a, n).
                   io_bind (on_mem (mod_read_bytes a n)) (\<lambda>_. io_return ()))) (\<lambda>_.
       if read_external_mem_cache
       then io_bind (mo_get (\<lambda>c. Inr (length (mo_arr_external_mem c)))) (\<lambda>n. io_forM read_mem_if_cached [0..<n])
       else io_return ()))"

definition module_write_cache :: "('w \<times> 'w modcore, unit) io" where
  "module_write_cache =
     io_bind (mo_get (\<lambda>c. rassert (\<not> mm_use_cache (mo_mem c)))) (\<lambda>_.
     io_bind (mo_get (\<lambda>c. Inr (mo_base_addr_var c, read_cached (mo_base_addr_var c) (mo_size_var c) (mo_mem c)))) (\<lambda>(a, b).
       on_mem (mod_write_bytes a b)))"

fun regs_cached :: "(reg \<Rightarrow> 'w modmem \<Rightarrow> 'w modmem res) \<Rightarrow> reg list \<Rightarrow> 'w modmem \<Rightarrow> unit res \<times> 'w modmem" where
  "regs_cached f [] m = (Inr (), m)"
| "regs_cached f (r # rs) m = (case f r m of Inl e \<Rightarrow> (Inl e, m) | Inr m' \<Rightarrow> regs_cached f rs m')"

definition write_zero_all_rc_cached :: "'w modcore \<Rightarrow> unit res \<times> 'w modcore" where
  "write_zero_all_rc_cached c =
     (case regs_cached write_zero_cached (mo_arr_reg_var c) (mo_mem c) of (x, m) \<Rightarrow> (x, c\<lparr>mo_mem := m\<rparr>))"

definition write_zero_if_rc :: "reg \<Rightarrow> ('w \<times> 'w modcore, unit) io" where
  "write_zero_if_rc r = (if rg_acc r = Acc_rc then on_mem (write_zero r) else io_return ())"

definition write_zero_all_rc :: "('w \<times> 'w modcore, unit) io" where
  "write_zero_all_rc = io_bind (mo_get (\<lambda>c. Inr (mo_arr_reg_var c))) (io_forM write_zero_if_rc)"

definition clear_reg_rc :: "('w \<times> 'w modcore, unit) io" where
  "clear_reg_rc = io_bind (mo_get (\<lambda>c. Inr (mo_arr_reg_var c))) (io_forM write_zero_if_rc)"

section \<open>Asserts\<close>

fun check_regs :: "reg list \<Rightarrow> ass \<Rightarrow> ass \<Rightarrow> log_item list \<Rightarrow> 'w modmem \<Rightarrow> (ass \<times> log_item list) res" where
  "check_regs [] a log_ass log_f m = Inr (a, log_f)"
| "check_regs (r # rs) a log_ass log_f m =
     rbind (m_ass_check_cached r log_ass log_f m) (\<lambda>(f_ass, log_f).
       check_regs rs (if f_ass \<ge> a then f_ass else a) log_ass log_f m)"

definition check_assert_cached :: "ass \<Rightarrow> log_item list \<Rightarrow> 'w modcore \<Rightarrow> (ass \<times> log_item list) res" where
  "check_assert_cached log_ass log_f c = check_regs (mo_arr_reg_var_ass c) Ass_none log_ass log_f (mo_mem c)"

definition clear_assert_reg :: "reg \<Rightarrow> ('w \<times> 'w modcore, unit) io" where
  "clear_assert_reg r =
     io_bind (mo_get (\<lambda>c. m_ass_check_cached r Ass_none [] (mo_mem c))) (\<lambda>(a, _).
       if a \<ge> Ass_debug \<and> rg_acc r = Acc_rc then on_mem (write_zero r) else io_return ())"

definition clear_assert :: "('w \<times> 'w modcore, unit) io" where
  "clear_assert = io_bind (mo_get (\<lambda>c. Inr (mo_arr_reg_var_ass c))) (io_forM clear_assert_reg)"

section \<open>The image of a module as a device\<close>

fun mems_to_regio_cache :: "'w xmem list \<Rightarrow> (regions, unit) io" where
  "mems_to_regio_cache [] = io_return ()"
| "mems_to_regio_cache (x # xs) =
     (if \<not> xm_is_cached x \<or> \<not> xm_cache_loaded x then mems_to_regio_cache xs
      else io_bind (io_lift (xm_read_cached 0 (xm_size x) x)) (\<lambda>d.
           io_bind (cache_write (xm_base_addr x) d) (\<lambda>_. mems_to_regio_cache xs)))"

definition write_cache_to_regio_cache :: "bool \<Rightarrow> 'w modcore \<Rightarrow> (regions, unit) io" where
  "write_cache_to_regio_cache include_external_mem c =
     io_bind (cache_write (mo_base_addr c) (mm_cache (mo_mem c))) (\<lambda>_.
       if include_external_mem then mems_to_regio_cache (mo_arr_external_mem c) else io_return ())"

section \<open>Texts\<close>

definition info_line_str :: "'w modcore \<Rightarrow> string" where
  "info_line_str c = py_hex (mo_base_addr c) @ '' '' @ mo_name c @ '' '' @ head_repr (mo_head c)"

definition reg_map_rows :: "py_impl \<Rightarrow> 'w modcore \<Rightarrow> table_row list res" where
  "reg_map_rows pf c = add_module pf (mo_arr_reg_k c) (mo_arr_reg_var c) (mo_arr_external_mem c) (mo_mem c) []"

section \<open>The class a recipe generates\<close>

definition mem_details_hook :: "(string \<times> value_type \<times> acc \<times> string) list \<Rightarrow> 'w modcore \<Rightarrow> 'w modcore res" where
  "mem_details_hook ds c =
     rbind (rassert (length (mo_arr_external_mem c) = length ds)) (\<lambda>_.
     rbind (rmapM (\<lambda>(x, nm, t, a, d). xm_details nm t a d x) (zip (mo_arr_external_mem c) ds)) (\<lambda>xs.
       Inr (c\<lparr>mo_arr_external_mem := xs\<rparr>)))"

definition gen_class ::
  "string \<Rightarrow> string \<Rightarrow> int \<Rightarrow> int \<Rightarrow> (int \<Rightarrow> reg res) list \<Rightarrow> (int \<Rightarrow> reg res) list \<Rightarrow>
     (string \<times> value_type \<times> acc \<times> string) list \<Rightarrow> 'w mod_class" where
  "gen_class nm i version checksum ks vs ds =
     \<lparr>cl_name = nm, cl_id = Inr i, cl_version = Inr version, cl_checksum = Inr checksum,
      cl_init_reg_map_k = reg_map_hook add_reg_k ks, cl_init_reg_map_var = reg_map_hook add_reg_var vs,
      cl_init_external_mem = mem_details_hook ds, cl_init_finialise = (\<lambda>c. Inr c)\<rparr>"

section \<open>Lemmas: the layout of the registers\<close>

lemma ceil_multiple_least:
  assumes "0 < m" and "ceil_multiple n m = Inr k" and "m dvd x" and "n \<le> x"
  shows "k \<le> x"
proof (rule ccontr)
  assume "\<not> k \<le> x"
  have k: "k < n + m" "m dvd k" using ceil_multiple_pos [OF assms(1), of n] assms(2) by auto
  then have "m dvd k - x" using assms(3) by simp
  then have "m \<le> k - x" using \<open>\<not> k \<le> x\<close> by (intro zdvd_imp_le) auto
  then show False using k(1) assms(4) by simp
qed

lemma byte_alignment_pow2:
  assumes "al = 2 ^ p" and "1 \<le> w"
  shows "0 < byte_alignment_from_val_width al w \<and> al dvd byte_alignment_from_val_width al w"
proof -
  obtain k where k: "promote_to_sw_w w = 2 ^ k" using promote_to_sw_w_pow by blast
  then have "3 \<le> k" using promote_to_sw_w_le_iff [OF assms(2), of k] by simp
  then have q: "promote_to_sw_w w div 8 = 2 ^ (k - 3)" using k by (simp add: power_diff)
  have "(2 :: int) ^ p dvd max (2 ^ p) (2 ^ (k - 3))"
  proof (cases "p \<le> k - 3")
    case True
    then show ?thesis by (simp add: max_def le_imp_power_dvd)
  next
    case False
    then have "(2 :: int) ^ (k - 3) \<le> 2 ^ p" by (simp add: power_increasing)
    then show ?thesis by (simp add: max_def)
  qed
  moreover have "(0 :: int) < 2 ^ p" by simp
  ultimately show ?thesis by (simp add: byte_alignment_from_val_width_def q assms(1) less_max_iff_disj)
qed

text \<open>
  Registers laid out one after the other in \<open>[lo, hi)\<close> of a module at \<open>b\<close>: each starts on a
  multiple of the alignment, and the block an access of it touches ends before the next starts.
\<close>

fun laid :: "int \<Rightarrow> int \<Rightarrow> int \<Rightarrow> reg list \<Rightarrow> int \<Rightarrow> bool" where
  "laid b al lo [] hi \<longleftrightarrow> lo \<le> hi"
| "laid b al lo (r # rs) hi \<longleftrightarrow> (\<exists>i k. rg_addr r = Some (i + b) \<and> lo \<le> i \<and> al dvd i \<and> 0 \<le> rg_size r \<and>
     ceil_multiple (rg_size r) al = Inr k \<and> laid b al (i + k) rs hi)"

lemma laid_lower: "laid b al lo rs hi \<Longrightarrow> lo' \<le> lo \<Longrightarrow> laid b al lo' rs hi"
  by (cases rs) fastforce+

lemma laid_append: "laid b al lo rs mid \<Longrightarrow> laid b al mid rs' hi \<Longrightarrow> laid b al lo (rs @ rs') hi"
  by (induction rs arbitrary: lo) (auto intro: laid_lower)

lemma laid_upper: "laid b al lo rs hi \<Longrightarrow> hi \<le> hi' \<Longrightarrow> laid b al lo rs hi'"
  by (induction rs arbitrary: lo) auto

definition reg_block_before :: "int \<Rightarrow> reg \<Rightarrow> reg \<Rightarrow> bool" where
  "reg_block_before al g h \<longleftrightarrow>
     (\<exists>a k a'. rg_addr g = Some a \<and> ceil_multiple (rg_size g) al = Inr k \<and> rg_addr h = Some a' \<and> a + k \<le> a')"

lemma laid_members:
  assumes "0 < al"
  shows "laid b al lo rs hi \<Longrightarrow> r \<in> set rs \<Longrightarrow> \<exists>i k. rg_addr r = Some (i + b) \<and> lo \<le> i \<and> al dvd i \<and> 0 \<le> rg_size r \<and>
    ceil_multiple (rg_size r) al = Inr k \<and> i + k \<le> hi"
proof (induction rs arbitrary: lo)
  case (Cons g rs)
  obtain i k where g: "rg_addr g = Some (i + b)" "lo \<le> i" "al dvd i" "0 \<le> rg_size g"
      "ceil_multiple (rg_size g) al = Inr k" "laid b al (i + k) rs hi"
    using Cons.prems(1) by auto
  have k: "0 \<le> k" using ceil_multiple_pos [OF assms, of "rg_size g"] g(4,5) by auto
  have "i + k \<le> hi" using g(6) k
  proof (induction rs arbitrary: i k)
    case (Cons h rs)
    then obtain i' k' where h: "i + k \<le> i'" "0 \<le> rg_size h" "ceil_multiple (rg_size h) al = Inr k'" "laid b al (i' + k') rs hi"
      by auto
    then have "0 \<le> k'" using ceil_multiple_pos [OF assms, of "rg_size h"] by auto
    then show ?case using Cons.IH [OF h(4)] h(1) by simp
  qed simp
  then show ?case using Cons.IH [OF g(6)] Cons.prems(2) g k by fastforce
qed simp

lemma laid_sorted: "0 < al \<Longrightarrow> laid b al lo rs hi \<Longrightarrow> sorted_wrt (reg_block_before al) rs"
proof (induction rs arbitrary: lo)
  case (Cons g rs)
  then obtain i k where g: "rg_addr g = Some (i + b)" "ceil_multiple (rg_size g) al = Inr k" "laid b al (i + k) rs hi" by auto
  have "reg_block_before al g h" if h: "h \<in> set rs" for h
  proof -
    obtain j where "rg_addr h = Some (j + b)" "i + k \<le> j" using laid_members [OF Cons.prems(1) g(3) h] by blast
    then show ?thesis using g(1,2) by (auto simp: reg_block_before_def)
  qed
  then show ?case using Cons.IH [OF Cons.prems(1) g(3)] by simp
qed simp

lemma byte_idx_align_run:
  assumes "mm_byte_align (mo_mem c) = 2 ^ p" and "1 \<le> w"
  shows "\<exists>i. byte_idx_align_addr_width w c = Inr (c\<lparr>mo_byte_idx := i\<rparr>) \<and> mo_byte_idx c \<le> i \<and> mm_byte_align (mo_mem c) dvd i"
proof -
  let ?A = "byte_alignment_from_val_width (mm_byte_align (mo_mem c)) w"
  have A: "0 < ?A" "mm_byte_align (mo_mem c) dvd ?A" using byte_alignment_pow2 [OF assms] by auto
  obtain i where "ceil_multiple (mo_byte_idx c) ?A = Inr i" "mo_byte_idx c \<le> i" "?A dvd i"
    using ceil_multiple_pos [OF A(1), of "mo_byte_idx c"] by auto
  then show ?thesis using assms(2) A(2) by (auto simp: byte_idx_align_addr_width_def intro: dvd_trans)
qed

definition reg_fits :: "reg \<Rightarrow> bool" where
  "reg_fits r \<longleftrightarrow> 1 \<le> vt_width (rg_type r) \<and> 0 \<le> rg_size r"

text \<open>What an addition keeps of the rest of the module.\<close>

definition same_frame :: "'w modcore \<Rightarrow> 'w modcore \<Rightarrow> bool" where
  "same_frame c c' \<longleftrightarrow> mo_mem c' = mo_mem c \<and> mo_head c' = mo_head c \<and> mo_base_addr_var c' = mo_base_addr_var c \<and>
     mo_size_var c' = mo_size_var c \<and> mo_arr_external_mem c' = mo_arr_external_mem c"

lemma add_reg_var_laid:
  assumes "add_reg_var r c = Inr c'" and "mm_byte_align (mo_mem c) = 2 ^ p" and "reg_fits r"
  shows "\<exists>a. mo_arr_reg_var c' = mo_arr_reg_var c @ [r\<lparr>rg_addr := Some a\<rparr>] \<and> mo_arr_reg_k c' = mo_arr_reg_k c \<and> same_frame c c' \<and>
    laid (mo_base_addr c) (mm_byte_align (mo_mem c)) (mo_byte_idx c) [r\<lparr>rg_addr := Some a\<rparr>] (mo_byte_idx c')"
proof -
  let ?al = "mm_byte_align (mo_mem c)"
  have w: "1 \<le> vt_width (rg_type r)" "0 \<le> rg_size r" using assms(3) by (auto simp: reg_fits_def)
  obtain i where i: "byte_idx_align_addr_width (vt_width (rg_type r)) c = Inr (c\<lparr>mo_byte_idx := i\<rparr>)" "mo_byte_idx c \<le> i" "?al dvd i"
    using byte_idx_align_run [OF assms(2) w(1)] by blast
  define r' where "r' = r\<lparr>rg_addr := Some (i + mo_base_addr c)\<rparr>"
  define c1 where "c1 = c\<lparr>mo_arr_reg_var := mo_arr_reg_var c @ [r'],
    mo_arr_reg_var_ass := (if m_has_ass r' then mo_arr_reg_var_ass c @ [r'] else mo_arr_reg_var_ass c),
    mo_byte_idx := i + rg_size r\<rparr>"
  have c': "byte_idx_align_addr_width (vt_width (rg_type r)) c1 = Inr c'"
    using assms(1) i(1) by (simp add: add_reg_var_def c1_def r'_def mo_base_addr_def Let_def split del: if_split cong: if_cong)
  have "mm_byte_align (mo_mem c1) = 2 ^ p" using assms(2) by (simp add: c1_def)
  from byte_idx_align_run [OF this w(1)] obtain j where j: "c' = c1\<lparr>mo_byte_idx := j\<rparr>" "i + rg_size r \<le> j" "?al dvd j"
    using c' by (auto simp: c1_def)
  have al: "0 < ?al" using assms(2) by simp
  obtain k where k: "ceil_multiple (rg_size r) ?al = Inr k" using ceil_multiple_pos [OF al] by blast
  have "k \<le> j - i" using ceil_multiple_least [OF al k, of "j - i"] i(3) j(2,3) by simp
  then have "laid (mo_base_addr c) ?al (mo_byte_idx c) [r'] j"
    using i w k by (auto simp: r'_def)
  then show ?thesis using j(1) by (auto simp: c1_def r'_def same_frame_def)
qed

lemma reg_map_hook_var_laid:
  assumes "reg_map_hook add_reg_var mks c = Inr c'" and "mm_byte_align (mo_mem c) = 2 ^ p"
    and "\<And>mk r. mk \<in> set mks \<Longrightarrow> mk (2 ^ p) = Inr r \<Longrightarrow> reg_fits r"
  shows "\<exists>rs. mo_arr_reg_var c' = mo_arr_reg_var c @ rs \<and> mo_arr_reg_k c' = mo_arr_reg_k c \<and> same_frame c c' \<and>
    laid (mo_base_addr c) (mm_byte_align (mo_mem c)) (mo_byte_idx c) rs (mo_byte_idx c')"
  using assms
proof (induction mks arbitrary: c)
  case Nil
  then show ?case by (simp add: same_frame_def)
next
  case (Cons mk mks)
  obtain r c1 where st: "mk (2 ^ p) = Inr r" "add_reg_var r c = Inr c1" "reg_map_hook add_reg_var mks c1 = Inr c'"
    using Cons.prems(1,2) by (auto simp: rbind_Inr_iff)
  have "reg_fits r" using Cons.prems(3) [of mk r] st(1) by simp
  from add_reg_var_laid [OF st(2) Cons.prems(2) this] obtain r' where r': "mo_arr_reg_var c1 = mo_arr_reg_var c @ [r']"
      "mo_arr_reg_k c1 = mo_arr_reg_k c" "same_frame c c1"
      "laid (mo_base_addr c) (mm_byte_align (mo_mem c)) (mo_byte_idx c) [r'] (mo_byte_idx c1)" by blast
  have mem: "mo_mem c1 = mo_mem c" using r'(3) by (simp add: same_frame_def)
  obtain rs where rs: "mo_arr_reg_var c' = mo_arr_reg_var c1 @ rs" "mo_arr_reg_k c' = mo_arr_reg_k c1" "same_frame c1 c'"
      "laid (mo_base_addr c) (mm_byte_align (mo_mem c)) (mo_byte_idx c1) rs (mo_byte_idx c')"
    using Cons.IH [OF st(3)] Cons.prems(2,3) mem by (auto simp: mo_base_addr_def)
  have "laid (mo_base_addr c) (mm_byte_align (mo_mem c)) (mo_byte_idx c) (r' # rs) (mo_byte_idx c')"
    using laid_append [OF r'(4) rs(4)] by simp
  then show ?case using r' rs by (intro exI [of _ "r' # rs"]) (auto simp: same_frame_def)
qed

section \<open>Lemmas: what the constructor leaves\<close>

lemma init_kid_addrs_Inr:
  "init_kid_addrs n data c = Inr c' \<Longrightarrow>
     \<exists>as. length as = n \<and> 0 \<notin> set as \<and> c' = c\<lparr>mo_kid_addrs := mo_kid_addrs c @ as, mo_byte_idx := mo_byte_idx c + int n * SIZE_WORD\<rparr>"
proof (induction n arbitrary: c)
  case (Suc n)
  define a where "a = le_to_int (py_slice data (mo_byte_idx c) (mo_byte_idx c + SIZE_WORD))"
  have a: "a \<noteq> 0" and run: "init_kid_addrs n data
      (c\<lparr>mo_kid_addrs := mo_kid_addrs c @ [a], mo_byte_idx := mo_byte_idx c + SIZE_WORD\<rparr>) = Inr c'"
    using Suc.prems by (auto simp: Let_def rbind_Inr_iff a_def)
  from Suc.IH [OF run] obtain as where "length as = n" "0 \<notin> set as"
      "c' = c\<lparr>mo_kid_addrs := mo_kid_addrs c @ a # as, mo_byte_idx := mo_byte_idx c + int (Suc n) * SIZE_WORD\<rparr>"
    by (auto simp: algebra_simps)
  then show ?case using a by (intro exI [of _ "a # as"]) auto
qed simp

lemma init_sub_heads_Inr:
  "init_sub_heads e data al c = Inr (c', al') \<Longrightarrow> \<exists>p. al = 2 ^ p \<Longrightarrow>
     (\<exists>p. al' = 2 ^ p) \<and> mo_mem c' = mo_mem c \<and> mo_arr_reg_var c' = mo_arr_reg_var c \<and> mo_kid_addrs c' = mo_kid_addrs c \<and>
     mo_head c' = mo_head c"
proof (induction e data al c arbitrary: c' al' rule: init_sub_heads.induct)
  case (1 e data al c)
  show ?case
  proof (cases "mo_byte_idx c < e")
    case False
    then show ?thesis using "1.prems" by (subst (asm) init_sub_heads.simps) auto
  next
    case True
    obtain i where i: "byte_at data (mo_byte_idx c) = Inr i"
      using "1.prems"(1) True by (subst (asm) init_sub_heads.simps) (auto simp: rbind_Inr_iff)
    consider "i = SUB_PAD" | "i \<noteq> SUB_PAD" "i = SUB_BYTE_ALIGN" | "i \<noteq> SUB_PAD" "i \<noteq> SUB_BYTE_ALIGN" "i = SUB_EXTERNAL_MEM"
      using "1.prems"(1) True i by (subst (asm) init_sub_heads.simps) (auto split: if_splits)
    then show ?thesis
    proof cases
      case 1
      then show ?thesis using "1.prems" True i by (subst (asm) init_sub_heads.simps) auto
    next
      case 2
      then obtain al1 where al1: "byte_at data (mo_byte_idx c + 1) = Inr al1" "\<exists>k < 8. al1 = 2 ^ k"
          "init_sub_heads e data al1 (c\<lparr>mo_byte_idx := mo_byte_idx c + SIZE_WORD\<rparr>) = Inr (c', al')"
        using "1.prems" True i by (subst (asm) init_sub_heads.simps) (auto simp: rbind_Inr_iff)
      then have "\<exists>p. al1 = 2 ^ p" by blast
      then show ?thesis using "1.IH"(1) [OF True 2 al1(3)] al1(2) by simp
    next
      case 3
      then obtain x where "external_mem_of_sub data c = Inr x"
          "init_sub_heads e data al (c\<lparr>mo_arr_external_mem := mo_arr_external_mem c @ [x], mo_byte_idx := mo_byte_idx c + 3 * SIZE_WORD\<rparr>) = Inr (c', al')"
        using "1.prems" True i by (subst (asm) init_sub_heads.simps) (auto simp: rbind_Inr_iff)
      then show ?thesis using "1.IH"(2) [OF True 3] "1.prems"(2) by simp
    qed
  qed
qed

lemma align_frame:
  "byte_idx_align_addr_width w c = Inr c' \<Longrightarrow> same_frame c c' \<and> mo_arr_reg_var c' = mo_arr_reg_var c \<and>
     mo_arr_reg_k c' = mo_arr_reg_k c \<and> mo_kid_addrs c' = mo_kid_addrs c"
  by (auto simp: byte_idx_align_addr_width_def same_frame_def rbind_Inr_iff split: if_splits)

lemma add_reg_k_frame: "add_reg_k r c = Inr c' \<Longrightarrow> same_frame c c' \<and> mo_arr_reg_var c' = mo_arr_reg_var c"
  by (auto simp: add_reg_k_def rbind_Inr_iff Let_def same_frame_def dest!: align_frame)

lemma reg_map_hook_k_frame:
  "reg_map_hook add_reg_k mks c = Inr c' \<Longrightarrow> same_frame c c' \<and> mo_arr_reg_var c' = mo_arr_reg_var c"
proof (induction mks arbitrary: c)
  case (Cons mk mks)
  then obtain r c1 where "add_reg_k r c = Inr c1" "reg_map_hook add_reg_k mks c1 = Inr c'" by (auto simp: rbind_Inr_iff)
  then show ?case using add_reg_k_frame Cons.IH by (fastforce simp: same_frame_def)
qed (simp add: same_frame_def)

lemma word_align_idx_Inr:
  "word_align_idx c = Inr c' \<Longrightarrow> \<exists>j. c' = c\<lparr>mo_byte_idx := j\<rparr> \<and> mo_byte_idx c \<le> j"
proof -
  assume h: "word_align_idx c = Inr c'"
  have "mo_byte_idx c \<le> (mo_byte_idx c + 3) div 4 * 4"
    using div_mult_mod_eq [of "mo_byte_idx c + 3" 4] pos_mod_bound [of 4 "mo_byte_idx c + 3"] by linarith
  then show ?thesis using h by (auto simp: word_align_idx_def ceil_div_def SIZE_WORD_def)
qed

definition gen_vars_fit :: "(int \<Rightarrow> reg res) list \<Rightarrow> bool" where
  "gen_vars_fit vs \<longleftrightarrow> (\<forall>mk \<in> set vs. \<forall>p r. mk (2 ^ p) = Inr r \<longrightarrow> reg_fits r)"

lemma Module_init_gen:
  assumes "Module_init (gen_class nm i version cs ks vs ds) d addr h data allow = Inr c" and "0 \<le> hd_len_kids h" and "gen_vars_fit vs"
  shows "\<exists>p. mo_mem c = \<lparr>mm_regio = d, mm_base_addr = addr, mm_cache = data, mm_use_cache = False, mm_byte_align = 2 ^ p\<rparr> \<and>
    mo_base_addr_var c = addr + SIZE_HEAD + SIZE_WORD * (hd_len_kids h + hd_len_sub h + hd_len_k h) \<and>
    mo_size_var c = hd_len_var h * SIZE_WORD \<and>
    laid addr (2 ^ p) (mo_base_addr_var c - addr) (mo_arr_reg_var c) (mo_base_addr_var c - addr + mo_size_var c)"
proof -
  let ?c0 = "init_core d addr h data allow nm"
  obtain c1 where c1: "init_kid_addrs (nat (hd_len_kids h)) data ?c0 = Inr c1"
    using assms(1) by (auto simp: Module_init_def gen_class_def rbind_Inr_iff)
  define e where "e = mo_byte_idx c1 + hd_len_sub h * SIZE_WORD"
  define X where "X = e + hd_len_k h * SIZE_WORD"
  obtain c2 al where c2: "init_sub_heads e data 1 c1 = Inr (c2, al)"
    using assms(1) c1 by (auto simp: Module_init_def gen_class_def rbind_Inr_iff Let_def e_def)
  obtain c3 c4 where c3: "reg_map_hook add_reg_k ks (c2\<lparr>mo_byte_idx := e\<rparr>) = Inr c3" "word_align_idx c3 = Inr c4" "X = mo_byte_idx c4"
    using assms(1) c1 c2 by (auto simp: Module_init_def gen_class_def rbind_Inr_iff Let_def e_def X_def)
  define c5 where "c5 = c4\<lparr>mo_base_addr_var := mo_byte_idx c4 + mo_base_addr c4, mo_size_var := hd_len_var h * SIZE_WORD,
      mo_mem := (mo_mem c4)\<lparr>mm_byte_align := al\<rparr>\<rparr>"
  obtain c6 c7 where c6: "reg_map_hook add_reg_var vs c5 = Inr c6" "word_align_idx c6 = Inr c7" "mo_byte_idx c5 + mo_size_var c5 = mo_byte_idx c7"
      and fin: "\<exists>xs c8. mem_details_hook ds c7 = Inr c8 \<and> c = c8\<lparr>mo_arr_external_mem := xs\<rparr>"
    using assms(1) c1 c2 c3 by (auto simp: Module_init_def gen_class_def rbind_Inr_iff Let_def e_def X_def c5_def)
  obtain as where as: "c1 = ?c0\<lparr>mo_kid_addrs := as, mo_byte_idx := SIZE_HEAD + hd_len_kids h * SIZE_WORD\<rparr>"
    using init_kid_addrs_Inr [OF c1] assms(2) by (auto simp: init_core_def)
  have "\<exists>p. (1 :: int) = 2 ^ p" by (intro exI [of _ 0]) simp
  from init_sub_heads_Inr [OF c2 this] obtain p where p: "al = 2 ^ p" "mo_mem c2 = mo_mem c1" "mo_arr_reg_var c2 = []"
    using as by (auto simp: init_core_def)
  have m3: "mo_mem c3 = mo_mem ?c0" "mo_arr_reg_var c3 = []"
    using reg_map_hook_k_frame [OF c3(1)] p as by (simp_all add: same_frame_def)
  obtain j where "c4 = c3\<lparr>mo_byte_idx := j\<rparr>" using word_align_idx_Inr [OF c3(2)] by blast
  then have m5: "mo_mem c5 = (mo_mem ?c0)\<lparr>mm_byte_align := al\<rparr>" "mo_arr_reg_var c5 = []" "mo_byte_idx c5 = X"
      "mo_base_addr_var c5 = X + addr" "mo_size_var c5 = hd_len_var h * SIZE_WORD"
    using m3 c3(3) by (simp_all add: c5_def mo_base_addr_def init_core_def)
  have "mm_byte_align (mo_mem c5) = 2 ^ p" by (simp add: m5 p)
  moreover have "reg_fits r" if "mk \<in> set vs" "mk (2 ^ p) = Inr r" for mk r
    using assms(3) that by (auto simp: gen_vars_fit_def)
  ultimately obtain rs where rs: "mo_arr_reg_var c6 = rs" "same_frame c5 c6" "laid addr (2 ^ p) X rs (mo_byte_idx c6)"
    using reg_map_hook_var_laid [OF c6(1), of p] m5 by (auto simp: mo_base_addr_def init_core_def)
  obtain j7 where j7: "c7 = c6\<lparr>mo_byte_idx := j7\<rparr>" "mo_byte_idx c6 \<le> j7" using word_align_idx_Inr [OF c6(2)] by blast
  have l: "laid addr (2 ^ p) X rs (X + mo_size_var c5)" using laid_upper [OF rs(3), of "X + mo_size_var c5"] j7 c6(3) m5 by simp
  have c: "mo_mem c = mo_mem c6" "mo_arr_reg_var c = rs" "mo_base_addr_var c = mo_base_addr_var c5" "mo_size_var c = mo_size_var c5"
    using fin j7(1) rs(1,2) by (auto simp: mem_details_hook_def rbind_Inr_iff same_frame_def)
  show ?thesis
    using c m5 p rs l as
    by (intro exI [of _ p]) (auto simp: same_frame_def init_core_def X_def e_def algebra_simps)
qed

section \<open>Properties\<close>

lemma Head_init_nonneg:
  "Head_init b = Inr h \<Longrightarrow> 0 \<le> hd_len_kids h \<and> 0 \<le> hd_len_sub h \<and> 0 \<le> hd_len_k h \<and> 0 \<le> hd_len_var h"
  by (auto simp: Head_init_def rbind_Inr_iff Let_def byte_at_def)

lemma module_vars_on_device:
  assumes init: "Module_init (gen_class nm i version cs ks vs ds) d addr h data allow = Inr c"
    and "Head_init b = Inr h" and "gen_vars_fit vs" and "int (length data) = module_size h"
    and "mm_byte_align (mo_mem c) dvd addr"
  shows "(\<forall>g \<in> set (mo_arr_reg_var c). \<exists>a k. on_device d (mo_mem c) g a k \<and> addr \<le> a \<and> a + k \<le> addr + module_size h) \<and>
    sorted_wrt (reg_block_before (mm_byte_align (mo_mem c))) (mo_arr_reg_var c)"
proof -
  note nn = Head_init_nonneg [OF assms(2)]
  obtain p where p: "mo_mem c = \<lparr>mm_regio = d, mm_base_addr = addr, mm_cache = data, mm_use_cache = False, mm_byte_align = 2 ^ p\<rparr>"
      "mo_base_addr_var c = addr + SIZE_HEAD + SIZE_WORD * (hd_len_kids h + hd_len_sub h + hd_len_k h)"
      "mo_size_var c = hd_len_var h * SIZE_WORD"
      "laid addr (2 ^ p) (mo_base_addr_var c - addr) (mo_arr_reg_var c) (mo_base_addr_var c - addr + mo_size_var c)"
    using Module_init_gen [OF init _ assms(3)] nn by blast
  have al: "(0 :: int) < 2 ^ p" by simp
  have ends: "mo_base_addr_var c - addr + mo_size_var c = module_size h" "0 \<le> mo_base_addr_var c - addr"
    using p(2,3) nn by (auto simp: module_size_def module_size_words_def SIZE_HEAD_def SIZE_HEAD_WORDS_def SIZE_WORD_def)
  have "\<exists>a k. on_device d (mo_mem c) g a k \<and> addr \<le> a \<and> a + k \<le> addr + module_size h" if g: "g \<in> set (mo_arr_reg_var c)" for g
  proof -
    obtain i k where ik: "rg_addr g = Some (i + addr)" "mo_base_addr_var c - addr \<le> i" "2 ^ p dvd i" "0 \<le> rg_size g"
        "ceil_multiple (rg_size g) (2 ^ p) = Inr k" "i + k \<le> module_size h"
      using laid_members [OF al p(4) g] ends by auto
    have k: "rg_size g \<le> k" using ceil_multiple_pos [OF al, of "rg_size g"] ik(5) by auto
    have "on_device d (mo_mem c) g (i + addr) k"
      using ik k p(1) ends assms(4,5) by (simp add: on_device_def reg_placed_def in_module_def)
    then show ?thesis using ik ends by (intro exI [of _ "i + addr"] exI [of _ k]) auto
  qed
  then show ?thesis using laid_sorted [OF al p(4)] p(1) by auto
qed

lemma reg_block_before_on_device:
  "reg_block_before (mm_byte_align m) g g' \<Longrightarrow> on_device d m g a k \<Longrightarrow> on_device d m g' a' k' \<Longrightarrow> a + k \<le> a'"
  by (auto simp: reg_block_before_def on_device_def reg_placed_def)

text \<open>
  C6: the constructor of a generated class lays its registers out so that each can be accessed on
  its own. Every register is aligned, its whole access block lies in the bytes of the module, and
  the block of a register ends before the next register starts, whatever the widths, vectors and
  byte alignment of the firmware are.
\<close>
theorem module_layout:
  assumes "Module_init (gen_class nm i version cs ks vs ds) d addr h data allow = Inr c"
    and "Head_init b = Inr h" and "gen_vars_fit vs" and "int (length data) = module_size h"
    and "mm_byte_align (mo_mem c) dvd addr"
  shows "(\<forall>g \<in> set (mo_arr_reg_var c). \<exists>a k. on_device d (mo_mem c) g a k) \<and>
    sorted_wrt (reg_block_before (mm_byte_align (mo_mem c))) (mo_arr_reg_var c)"
  using module_vars_on_device [OF assms] by blast


text \<open>An example: a module of two 12 bit registers at 0x100.\<close>

definition example_mod_bytes :: "byte list" where
  "example_mod_bytes = [65, 66, 0, 0, 0, 0, 0, 0, 0xD8, 1, 0, 0, 0, 0, 0, 1]"

definition example_mod_head :: head where
  "example_mod_head = \<lparr>hd_id = ''AB'', hd_sync = 0xD8, hd_version = 1, hd_flags = 0, hd_checksum = 0, hd_len_kids = 0,
     hd_len_sub = 0, hd_len_k = 0, hd_len_var = 1\<rparr>"

definition example_var :: "string \<Rightarrow> int option \<Rightarrow> reg" where
  "example_var nm a = \<lparr>rg_name = nm, rg_type = \<lparr>vt_kind = VK_uint, vt_width = 12, vt_vec_len = None\<rparr>, rg_acc = Acc_rw,
     rg_desc = '''', rg_size = 2, rg_elem_size = 2, rg_addr = a, rg_ass = Ass_none, rg_v_check = None,
     rg_v_convert = None, rg_v_type = VType_u, rg_class = RC_reg\<rparr>"

definition example_vars :: "(int \<Rightarrow> reg res) list" where
  "example_vars = [\<lambda>_. Reg_init ''A'' \<lparr>vt_kind = VK_uint, vt_width = 12, vt_vec_len = None\<rparr> Acc_rw '''' Ass_none None None None,
                   \<lambda>_. Reg_init ''B'' \<lparr>vt_kind = VK_uint, vt_width = 12, vt_vec_len = None\<rparr> Acc_rw '''' Ass_none None None None]"

definition example_module :: "regions modcore" where
  "example_module = (init_core RegioCache_init 0x100 example_mod_head (example_mod_bytes @ [0, 0, 0, 0]) False ''M'')
     \<lparr>mo_byte_idx := 20, mo_arr_reg_var := [example_var ''A'' (Some 0x110), example_var ''B'' (Some 0x112)],
      mo_base_addr_var := 0x110, mo_size_var := 4\<rparr>"

lemma promote_12: "promote_to_sw_w 12 = 16"
  by (simp add: promote_to_sw_w_def ceil_multiple_8 ceil_log2_def bit_length_def nat_bits.simps)

lemma example_reg_init:
  "Reg_init nm \<lparr>vt_kind = VK_uint, vt_width = 12, vt_vec_len = None\<rparr> Acc_rw '''' Ass_none None None None = Inr (example_var nm None)"
  by (simp add: Reg_init_def int_kind_def promote_12 Let_def drop_bit_eq_div value_kind_to_v_type_def example_var_def)

lemma example_module_init:
  "Module_init (gen_class ''M'' ''AB'' 1 0 [] example_vars []) RegioCache_init 0x100 example_mod_head (example_mod_bytes @ [0, 0, 0, 0]) False
     = Inr example_module"
proof -
  have h: "hd_len_kids example_mod_head = 0" "hd_len_sub example_mod_head = 0" "hd_len_k example_mod_head = 0"
      "hd_len_var example_mod_head = 1" "hd_sync example_mod_head = SYNC"
    by (simp_all add: example_mod_head_def SYNC_def)
  have al: "byte_idx_align_addr_width 12 (c :: regions modcore) = Inr c"
    if "mm_byte_align (mo_mem c) = 1" "2 dvd mo_byte_idx c" for c
    using that ceil_multiple_dvd [of 2 "mo_byte_idx c"]
    by (simp add: byte_idx_align_addr_width_def byte_alignment_from_val_width_def promote_12)
  have e: "vt_width (rg_type (example_var nm a)) = 12" "rg_size (example_var nm a) = 2"
      "\<not> m_has_ass (example_var nm a)" "(example_var nm a)\<lparr>rg_addr := b\<rparr> = example_var nm b" for nm a b
    by (simp_all add: example_var_def m_has_ass_def reg_has_ass_def has_limit_def)
  show ?thesis
    by (simp add: Module_init_def h gen_class_def Let_def init_sub_heads.simps word_align_idx_def ceil_div_def SIZE_WORD_def
        SIZE_HEAD_def SIZE_HEAD_WORDS_def example_vars_def example_reg_init add_reg_var_def e al mem_details_hook_def
        mo_base_addr_def init_core_def example_module_def)
qed

lemma example_module_facts:
  "Head_init example_mod_bytes = Inr example_mod_head" "gen_vars_fit example_vars"
  "int (length (example_mod_bytes @ [0, 0, 0, 0])) = module_size example_mod_head"
  "mm_byte_align (mo_mem example_module) dvd 0x100"
  "mo_arr_reg_var example_module = [example_var ''A'' (Some 0x110), example_var ''B'' (Some 0x112)]"
  "mm_byte_align (mo_mem example_module) = 1"
proof -
  show "Head_init example_mod_bytes = Inr example_mod_head" by code_simp
  show "gen_vars_fit example_vars"
    by (simp add: gen_vars_fit_def example_vars_def example_reg_init reg_fits_def) (simp add: example_var_def)
qed (simp_all add: example_module_def init_core_def module_size_def module_size_words_def SIZE_WORD_def SIZE_HEAD_WORDS_def
    example_mod_head_def example_mod_bytes_def)

theorem module_layout_witness:
  "(\<exists>a k. on_device RegioCache_init (mo_mem example_module) (example_var ''B'' (Some 0x112)) a k) \<and>
   reg_block_before 1 (example_var ''A'' (Some 0x110)) (example_var ''B'' (Some 0x112))"
  using module_layout [OF example_module_init example_module_facts(1-4)] by (simp add: example_module_facts)


end
