(* ===== verification/ModuleTree.thy ===== *)
theory ModuleTree
  imports Module
begin

text \<open>
  \<^verbatim>\<open>pip/skmap/src/skmap/module.py\<close>: the kids of a module, the operations on the tree and the factory
  that makes a module from the bytes of a device. A module is its own state beside the list of its
  kids, \<open>None\<close> while a kid was not made. Kids are made on demand from addresses the device gives,
  so an operation that makes them recurses as deep as the device says: \<open>depth\<close> is the depth of
  recursion the interpreter allows, and running out of it is the value \<open>Diverges\<close>. The operations
  on a tree that is already made are structural.
\<close>

datatype 'w module = Module (mod_core: "'w modcore") (mod_kids: "'w module option list")

text \<open>The registered classes, by id and version.\<close>

type_synonym 'w registry = "string \<Rightarrow> (int \<Rightarrow> 'w mod_class option) option"

section \<open>The factory\<close>

definition ModuleFactory_init :: "'w registry" where
  "ModuleFactory_init = (\<lambda>_. None)"

definition register_module :: "'w mod_class \<Rightarrow> 'w registry \<Rightarrow> 'w registry res" where
  "register_module cl lookup =
     rbind (cl_id cl) (\<lambda>i.
       let module_lookup = (case lookup i of None \<Rightarrow> (\<lambda>_. None) | Some l \<Rightarrow> l) in
     rbind (cl_version cl) (\<lambda>v.
     rbind (rassert (module_lookup v = None)) (\<lambda>_. Inr (lookup(i \<mapsto> module_lookup(v \<mapsto> cl))))))"

definition with_kids :: "'w modcore res \<Rightarrow> 'w module res" where
  "with_kids r = rbind r (\<lambda>c. Inr (Module c (replicate (nat (hd_len_kids (mo_head c))) None)))"

text \<open>The class found for a head, \<open>None\<close> when there is none or its checksum differs.\<close>

definition find_class :: "'w registry \<Rightarrow> head \<Rightarrow> 'w mod_class option res" where
  "find_class lookup h =
     (case lookup (hd_id h) of None \<Rightarrow> Inr None
      | Some module_lookup \<Rightarrow>
          (case module_lookup (hd_version h) of None \<Rightarrow> Inr None
           | Some cl \<Rightarrow> rbind (cl_checksum cl) (\<lambda>k. Inr (if hd_checksum h = k then Some cl else None))))"

definition make_module :: "'w registry \<Rightarrow> 'w regio \<Rightarrow> int \<Rightarrow> bool \<Rightarrow> ('w, 'w module) io" where
  "make_module lookup r addr allow_unknowen =
     io_bind (regio_read r addr SIZE_HEAD) (\<lambda>head_data.
     io_bind (io_lift (Head_init head_data)) (\<lambda>h.
     io_bind (regio_read r (addr + SIZE_HEAD) (module_size h - SIZE_HEAD)) (\<lambda>rest.
     io_bind (io_lift (find_class lookup h)) (\<lambda>found.
       case found of
         Some cl \<Rightarrow> io_lift (with_kids (Module_init cl r addr h (head_data @ rest) allow_unknowen))
       | None \<Rightarrow>
           if allow_unknowen
           then io_lift (with_kids (Module_init ModuleUnkowen r addr h (head_data @ rest) allow_unknowen))
           else io_raise GenericException))))"

section \<open>Kids\<close>

definition len_kids :: "'w module \<Rightarrow> int" where
  "len_kids md = hd_len_kids (mo_head (mod_core md))"

definition all_kids_initialised :: "'w module \<Rightarrow> bool" where
  "all_kids_initialised md \<longleftrightarrow> None \<notin> set (map (\<lambda>k. case k of None \<Rightarrow> None | Some _ \<Rightarrow> Some ()) (mod_kids md))"

definition on_core :: "('w \<times> 'w modcore, 'a) io \<Rightarrow> ('w \<times> 'w module, 'a) io" where
  "on_core f = (\<lambda>(w, md). case f (w, mod_core md) of (x, (w', c')) \<Rightarrow> (x, (w', Module c' (mod_kids md))))"

text \<open>An operation on the kid at an index, which must have been made.\<close>

definition on_kid :: "nat \<Rightarrow> ('w \<times> 'w module, 'a) io \<Rightarrow> ('w \<times> 'w module, 'a) io" where
  "on_kid i f = (\<lambda>(w, md).
     if i < length (mod_kids md)
     then (case mod_kids md ! i of
             None \<Rightarrow> (Inl AssertionError, (w, md))
           | Some k \<Rightarrow> (case f (w, k) of (x, (w', k')) \<Rightarrow> (x, (w', Module (mod_core md) ((mod_kids md)[i := Some k'])))))
     else (Inl IndexError, (w, md)))"

definition kid_at :: "'w registry \<Rightarrow> nat \<Rightarrow> ('w \<times> 'w module, unit) io" where
  "kid_at lookup i = (\<lambda>(w, md).
     if i < length (mod_kids md)
     then (case mod_kids md ! i of
             Some k \<Rightarrow> (Inr (), (w, md))
           | None \<Rightarrow>
               (let c = mod_core md in
                case (if i < length (mo_kid_addrs c)
                      then make_module lookup (mm_regio (mo_mem c)) (mo_kid_addrs c ! i) (mo_allow_unknowen c) w
                      else (Inl IndexError, w)) of
                  (Inl e, w') \<Rightarrow> (Inl e, (w', md))
                | (Inr k, w') \<Rightarrow> (Inr (), (w', Module c ((mod_kids md)[i := Some k])))))
     else (Inl IndexError, (w, md)))"

definition make_kids :: "'w registry \<Rightarrow> ('w \<times> 'w module, unit) io" where
  "make_kids lookup = (\<lambda>(w, md). io_forM (kid_at lookup) [0..<nat (len_kids md)] (w, md))"

definition kids_with_class_cached :: "('w module \<Rightarrow> bool) \<Rightarrow> 'w module \<Rightarrow> 'w module list" where
  "kids_with_class_cached is_class md = filter is_class (List.map_filter id (mod_kids md))"

definition only_kid_with_class_cached :: "('w module \<Rightarrow> bool) \<Rightarrow> 'w module \<Rightarrow> 'w module res" where
  "only_kid_with_class_cached is_class md =
     (let k = kids_with_class_cached is_class md in rbind (rassert (length k = 1)) (\<lambda>_. Inr (hd k)))"

section \<open>Operations that make the tree as they go\<close>

text \<open>\<^verbatim>\<open>for k in await self.kids(): await k.<op>()\<close>\<close>

definition for_kids :: "'w registry \<Rightarrow> ('w \<times> 'w module, unit) io \<Rightarrow> ('w \<times> 'w module, unit) io" where
  "for_kids lookup f =
     io_bind (make_kids lookup) (\<lambda>_. \<lambda>(w, md). io_forM (\<lambda>i. on_kid i f) [0..<length (mod_kids md)] (w, md))"

fun make_tree :: "nat \<Rightarrow> 'w registry \<Rightarrow> ('w \<times> 'w module, unit) io" where
  "make_tree 0 lookup = io_raise Diverges"
| "make_tree (Suc depth) lookup = for_kids lookup (make_tree depth lookup)"

fun read_all_tree :: "nat \<Rightarrow> 'w registry \<Rightarrow> bool \<Rightarrow> bool \<Rightarrow> ('w \<times> 'w module, unit) io" where
  "read_all_tree 0 lookup ext skip_self = io_raise Diverges"
| "read_all_tree (Suc depth) lookup ext skip_self =
     io_bind (on_core (read_all ext skip_self)) (\<lambda>_. for_kids lookup (read_all_tree depth lookup ext False))"

fun clear_assert_tree :: "nat \<Rightarrow> 'w registry \<Rightarrow> ('w \<times> 'w module, unit) io" where
  "clear_assert_tree 0 lookup = io_raise Diverges"
| "clear_assert_tree (Suc depth) lookup =
     io_bind (on_core clear_assert) (\<lambda>_. for_kids lookup (clear_assert_tree depth lookup))"

fun clear_reg_rc_tree :: "nat \<Rightarrow> 'w registry \<Rightarrow> ('w \<times> 'w module, unit) io" where
  "clear_reg_rc_tree 0 lookup = io_raise Diverges"
| "clear_reg_rc_tree (Suc depth) lookup =
     io_bind (on_core clear_reg_rc) (\<lambda>_. for_kids lookup (clear_reg_rc_tree depth lookup))"

section \<open>Operations on a tree that was made\<close>

fun check_assert_tree_cached :: "ass \<Rightarrow> log_item list \<Rightarrow> 'w module \<Rightarrow> (ass \<times> log_item list) res"
and check_assert_kids_cached :: "ass \<Rightarrow> ass \<Rightarrow> log_item list \<Rightarrow> 'w module option list \<Rightarrow> (ass \<times> log_item list) res" where
  "check_assert_tree_cached log_ass log_f (Module c kids) =
     rbind (check_assert_cached log_ass log_f c) (\<lambda>(a, log_f). check_assert_kids_cached a log_ass log_f kids)"
| "check_assert_kids_cached a log_ass log_f [] = Inr (a, log_f)"
| "check_assert_kids_cached a log_ass log_f (None # kids) = Inl AssertionError"
| "check_assert_kids_cached a log_ass log_f (Some k # kids) =
     rbind (check_assert_tree_cached log_ass log_f k) (\<lambda>(ass_kid, log_f).
       check_assert_kids_cached (if ass_kid > a then ass_kid else a) log_ass log_f kids)"

fun write_cache_to_regio_cache_tree :: "bool \<Rightarrow> 'w module \<Rightarrow> (regions, unit) io"
and write_cache_to_regio_cache_kids :: "'w module option list \<Rightarrow> (regions, unit) io" where
  "write_cache_to_regio_cache_tree include_external_mem (Module c kids) =
     io_bind (write_cache_to_regio_cache include_external_mem c) (\<lambda>_. write_cache_to_regio_cache_kids kids)"
| "write_cache_to_regio_cache_kids [] = io_return ()"
| "write_cache_to_regio_cache_kids (None # kids) = write_cache_to_regio_cache_kids kids"
| "write_cache_to_regio_cache_kids (Some k # kids) =
     io_bind (write_cache_to_regio_cache_tree True k) (\<lambda>_. write_cache_to_regio_cache_kids kids)"

text \<open>The file is the list of its bytes; \<open>f\<close> is what a writer that replaces the file starts from.\<close>

definition write_cache_tree_to_file :: "'w module \<Rightarrow> byte list \<Rightarrow> unit res \<times> byte list" where
  "write_cache_tree_to_file md f =
     (case write_cache_to_regio_cache_tree True md [] of
        (Inl e, _) \<Rightarrow> (Inl e, f)
      | (Inr _, rs) \<Rightarrow> save_to_file rs f)"

section \<open>Lemmas: depth and completeness of the recursion\<close>

text \<open>\<open>f'\<close> does what \<open>f\<close> does wherever \<open>f\<close> has enough depth.\<close>

definition deeper :: "('s, 'a) io \<Rightarrow> ('s, 'a) io \<Rightarrow> bool" where
  "deeper f f' \<longleftrightarrow> (\<forall>s. fst (f s) \<noteq> Inl Diverges \<longrightarrow> f' s = f s)"

lemma deeper_refl: "deeper f f"
  by (simp add: deeper_def)

lemma deeper_raise: "deeper (io_raise Diverges) f"
  by (simp add: deeper_def)

lemma deeper_bind:
  assumes "deeper f f'" and "\<And>x. deeper (g x) (g' x)"
  shows "deeper (io_bind f g) (io_bind f' g')"
  unfolding deeper_def
proof (intro allI impI)
  fix s assume h: "fst (io_bind f g s) \<noteq> Inl Diverges"
  obtain r s' where f: "f s = (r, s')" by (cases "f s")
  then have "r \<noteq> Inl Diverges" using h by (auto simp: io_bind_run)
  then have "f' s = (r, s')" using assms(1) f by (simp add: deeper_def)
  then show "io_bind f' g' s = io_bind f g s"
    using h f assms(2) by (cases r) (auto simp: io_bind_run deeper_def)
qed

lemma deeper_forM: "(\<And>i. deeper (f i) (f' i)) \<Longrightarrow> deeper (io_forM f xs) (io_forM f' xs)"
  by (induction xs) (auto intro: deeper_refl deeper_bind)

lemma deeper_on_kid: "deeper f f' \<Longrightarrow> deeper (on_kid i f) (on_kid i f')"
  by (auto simp: deeper_def on_kid_def split: option.splits prod.splits)

lemma deeper_for_kids: "deeper f f' \<Longrightarrow> deeper (for_kids lookup f) (for_kids lookup f')"
proof -
  assume f: "deeper f f'"
  have "deeper (\<lambda>(w, md). io_forM (\<lambda>i. on_kid i f) [0..<length (mod_kids md)] (w, md))
      (\<lambda>(w, md). io_forM (\<lambda>i. on_kid i f') [0..<length (mod_kids md)] (w, md))"
    using deeper_forM [where f = "\<lambda>i. on_kid i f" and f' = "\<lambda>i. on_kid i f'", OF deeper_on_kid [OF f]]
    by (auto simp: deeper_def)
  then show ?thesis unfolding for_kids_def by (intro deeper_bind deeper_refl) simp
qed

lemma deeper_trees:
  "deeper (make_tree n lookup) (make_tree (n + k) lookup)"
  "deeper (read_all_tree n lookup ext skip) (read_all_tree (n + k) lookup ext skip)"
  "deeper (clear_assert_tree n lookup) (clear_assert_tree (n + k) lookup)"
  "deeper (clear_reg_rc_tree n lookup) (clear_reg_rc_tree (n + k) lookup)"
  by (induction n arbitrary: skip) (simp_all only: make_tree.simps read_all_tree.simps clear_assert_tree.simps
      clear_reg_rc_tree.simps deeper_raise add_Suc deeper_for_kids deeper_bind deeper_refl)

text \<open>Every module of the tree was made, and has the kids its head announces.\<close>

fun made :: "'w module \<Rightarrow> bool" and made_kids :: "'w module option list \<Rightarrow> bool" where
  "made (Module c kids) \<longleftrightarrow> length kids = nat (hd_len_kids (mo_head c)) \<and> made_kids kids"
| "made_kids [] \<longleftrightarrow> True"
| "made_kids (None # kids) \<longleftrightarrow> False"
| "made_kids (Some k # kids) \<longleftrightarrow> made k \<and> made_kids kids"

lemma made_kids_iff: "made_kids kids \<longleftrightarrow> (\<forall>i < length kids. \<exists>k. kids ! i = Some k \<and> made k)"
proof (induction kids)
  case (Cons x kids)
  then show ?case by (cases x) (auto simp: All_less_Suc2)
qed simp

fun height :: "'w module \<Rightarrow> nat" and height_kids :: "'w module option list \<Rightarrow> nat" where
  "height (Module c kids) = Suc (height_kids kids)"
| "height_kids [] = 0"
| "height_kids (None # kids) = height_kids kids"
| "height_kids (Some k # kids) = max (height k) (height_kids kids)"

lemma height_kids_ge: "i < length kids \<Longrightarrow> kids ! i = Some k \<Longrightarrow> height k \<le> height_kids kids"
proof (induction kids arbitrary: i)
  case (Cons x kids)
  then show ?case by (cases i; cases x) (auto simp: le_max_iff_disj)
qed simp

text \<open>A tree whose modules have the kids their heads announce, made or not.\<close>

fun wf_tree :: "'w module \<Rightarrow> bool" and wf_kids :: "'w module option list \<Rightarrow> bool" where
  "wf_tree (Module c kids) \<longleftrightarrow> length kids = nat (hd_len_kids (mo_head c)) \<and> wf_kids kids"
| "wf_kids [] \<longleftrightarrow> True"
| "wf_kids (None # kids) \<longleftrightarrow> wf_kids kids"
| "wf_kids (Some k # kids) \<longleftrightarrow> wf_tree k \<and> wf_kids kids"

lemma wf_kids_iff: "wf_kids kids \<longleftrightarrow> (\<forall>i < length kids. \<forall>k. kids ! i = Some k \<longrightarrow> wf_tree k)"
proof (induction kids)
  case (Cons x kids)
  then show ?case by (cases x) (auto simp: All_less_Suc2)
qed simp

lemma made_wf:
  fixes md :: "'w module" and kids :: "'w module option list"
  shows "made md \<Longrightarrow> wf_tree md" and "made_kids kids \<Longrightarrow> wf_kids kids"
  by (induction md and kids rule: made_made_kids.induct) auto

lemma wf_kids_None: "wf_kids (replicate n None)"
  by (simp add: wf_kids_iff)

lemma with_kids_wf: "with_kids r = Inr k \<Longrightarrow> wf_tree k"
  by (auto simp: with_kids_def rbind_Inr_iff wf_kids_None)

lemma make_module_wf: "make_module lookup r a allow w = (Inr k, w') \<Longrightarrow> wf_tree k"
  by (auto simp: make_module_def io_bind_run split: option.splits if_splits sum.splits prod.splits dest: with_kids_wf)

lemma io_forM_noop: "(\<And>i. i \<in> set xs \<Longrightarrow> f i s = (Inr (), s)) \<Longrightarrow> io_forM f xs s = (Inr (), s)"
  by (induction xs) (auto simp: io_bind_run)

lemma io_forM_invariant:
  assumes "\<And>i s s'. i \<in> set xs \<Longrightarrow> P s \<Longrightarrow> f i s = (Inr (), s') \<Longrightarrow> P s' \<and> Q i s' \<and> (\<forall>j. Q j s \<longrightarrow> Q j s')"
  shows "io_forM f xs s = (Inr (), s') \<Longrightarrow> P s \<Longrightarrow> P s' \<and> (\<forall>i \<in> set xs. Q i s') \<and> (\<forall>j. Q j s \<longrightarrow> Q j s')"
  using assms
proof (induction xs arbitrary: s)
  case (Cons x xs)
  obtain s1 where s1: "f x s = (Inr (), s1)" "io_forM f xs s1 = (Inr (), s')" using Cons.prems(1) by (auto simp: io_bind_Inr_iff)
  have "P s1 \<and> Q x s1 \<and> (\<forall>j. Q j s \<longrightarrow> Q j s1)" using Cons.prems(3) [OF _ Cons.prems(2) s1(1)] by simp
  moreover have "P s' \<and> (\<forall>i \<in> set xs. Q i s') \<and> (\<forall>j. Q j s1 \<longrightarrow> Q j s')" if "P s1"
    using Cons.IH [OF s1(2) that] Cons.prems(3) by (metis list.set_intros(2))
  ultimately show ?case by auto
qed simp

lemma make_kids_complete:
  assumes "make_kids lookup (w, md) = (Inr (), (w', md'))" and "wf_tree md"
  shows "mod_core md' = mod_core md \<and> wf_tree md' \<and> (\<forall>i < length (mod_kids md'). mod_kids md' ! i \<noteq> None)"
proof -
  let ?P = "\<lambda>s. mod_core (snd s) = mod_core md \<and> wf_tree (snd s)"
  let ?Q = "\<lambda>i s. i < length (mod_kids (snd s)) \<and> mod_kids (snd s) ! i \<noteq> None"
  have step: "?P s' \<and> ?Q i s' \<and> (\<forall>j. ?Q j s \<longrightarrow> ?Q j s')" if P: "?P s" and st: "kid_at lookup i s = (Inr (), s')"
    for i :: nat and s s' :: "'a \<times> 'a module"
  proof -
    obtain v c kids where s: "s = (v, Module c kids)" by (cases s; cases "snd s") auto
    show ?thesis
    proof (cases "i < length kids \<and> kids ! i \<noteq> None")
      case True
      then have "s' = s" using st s by (auto simp: kid_at_def)
      then show ?thesis using P True s by auto
    next
      case False
      then have i: "i < length kids" "kids ! i = None" using st s by (auto simp: kid_at_def split: if_splits)
      then obtain k v' where k: "make_module lookup (mm_regio (mo_mem c)) (mo_kid_addrs c ! i) (mo_allow_unknowen c) v = (Inr k, v')"
          "s' = (v', Module c (kids[i := Some k]))"
        using st s by (auto simp: kid_at_def Let_def split: prod.splits sum.splits if_splits)
      have "wf_kids (kids[i := Some k])" using P s i make_module_wf [OF k(1)] by (auto simp: wf_kids_iff nth_list_update split: if_splits)
      then show ?thesis using P s i k(2) by (auto simp: nth_list_update)
    qed
  qed
  have run: "io_forM (kid_at lookup) [0..<nat (len_kids md)] (w, md) = (Inr (), (w', md'))" using assms(1) by (simp add: make_kids_def)
  have "?P (w, md)" using assms(2) by simp
  from io_forM_invariant [where P = ?P and Q = ?Q, OF _ run this] step
  have inv: "?P (w', md')" "\<forall>i \<in> set [0..<nat (len_kids md)]. ?Q i (w', md')" by blast+
  moreover have "length (mod_kids md') = nat (len_kids md)" using inv(1) by (cases md') (auto simp: len_kids_def)
  ultimately show ?thesis by auto
qed

lemma make_tree_made:
  "make_tree n lookup (w, md) = (Inr (), (w', md')) \<Longrightarrow> wf_tree md \<Longrightarrow> made md'"
proof (induction n arbitrary: w md w' md')
  case (Suc n)
  obtain w1 md1 where k: "make_kids lookup (w, md) = (Inr (), (w1, md1))"
      "io_forM (\<lambda>i. on_kid i (make_tree n lookup)) [0..<length (mod_kids md1)] (w1, md1) = (Inr (), (w', md'))"
    using Suc.prems(1) by (auto simp: for_kids_def io_bind_Inr_iff)
  note md1 = make_kids_complete [OF k(1) Suc.prems(2)]
  let ?P = "\<lambda>s. mod_core (snd s) = mod_core md1 \<and> wf_tree (snd s) \<and> length (mod_kids (snd s)) = length (mod_kids md1)"
  let ?Q = "\<lambda>i s. i < length (mod_kids (snd s)) \<and> (\<exists>k. mod_kids (snd s) ! i = Some k \<and> made k)"
  have step: "?P s' \<and> ?Q i s' \<and> (\<forall>j. ?Q j s \<longrightarrow> ?Q j s')"
    if P: "?P s" and st: "on_kid i (make_tree n lookup) s = (Inr (), s')" for i :: nat and s s' :: "'a \<times> 'a module"
  proof -
    obtain v c kids where s: "s = (v, Module c kids)" by (cases s; cases "snd s") auto
    obtain k v' k' where k: "i < length kids" "kids ! i = Some k" "make_tree n lookup (v, k) = (Inr (), (v', k'))"
        "s' = (v', Module c (kids[i := Some k']))"
      using st s by (auto simp: on_kid_def split: if_splits option.splits prod.splits)
    have "wf_tree k" using P s k(1,2) by (auto simp: wf_kids_iff)
    then have m: "made k'" using Suc.IH [OF k(3)] by simp
    then have "wf_kids (kids[i := Some k'])" using P s k(1) made_wf(1) by (auto simp: wf_kids_iff nth_list_update split: if_splits)
    then show ?thesis using P s k m by (auto simp: nth_list_update)
  qed
  have "?P (w1, md1)" using md1 by simp
  from io_forM_invariant [where P = ?P and Q = ?Q, OF _ k(2) this] step
  have "?P (w', md')" "\<forall>i \<in> set [0..<length (mod_kids md1)]. ?Q i (w', md')" by blast+
  then show ?case by (cases md') (auto simp: made_kids_iff)
qed simp

lemma make_tree_noop: "made md \<Longrightarrow> height md \<le> n \<Longrightarrow> make_tree n lookup (w, md) = (Inr (), (w, md))"
proof (induction n arbitrary: md w)
  case 0
  then show ?case by (cases md) simp
next
  case (Suc n)
  obtain c kids where md: "md = Module c kids" by (cases md)
  have kid: "\<exists>k. kids ! i = Some k \<and> made k \<and> height k \<le> n" if "i < length kids" for i
    using Suc.prems that height_kids_ge [OF that] by (fastforce simp: md made_kids_iff)
  have len: "nat (len_kids md) = length kids" using Suc.prems(1) by (simp add: md len_kids_def)
  have "kid_at lookup i (w, md) = (Inr (), (w, md))" if "i < length kids" for i
    using kid [OF that] that by (auto simp: kid_at_def md)
  then have "make_kids lookup (w, md) = (Inr (), (w, md))"
    by (auto simp: make_kids_def len intro!: io_forM_noop)
  moreover have "on_kid i (make_tree n lookup) (w, md) = (Inr (), (w, md))" if i: "i < length kids" for i
  proof -
    obtain k where k: "kids ! i = Some k" "made k" "height k \<le> n" using kid [OF i] by blast
    then have "kids[i := Some k] = kids" by (metis list_update_id)
    then show ?thesis using Suc.IH [OF k(2,3)] k(1) i by (simp add: on_kid_def md)
  qed
  ultimately show ?case by (auto simp: for_kids_def io_bind_run md intro!: io_forM_noop)
qed

section \<open>Properties of the tree\<close>



definition example_leaf :: "regions module" where
  "example_leaf = Module example_module []"

lemma example_leaf_facts:
  "wf_tree example_leaf" "made example_leaf" "height example_leaf = 1" "mod_kids example_leaf = []" "len_kids example_leaf = 0"
  by (simp_all add: example_leaf_def example_module_def init_core_def example_mod_head_def len_kids_def)

definition example_tree :: "regions module" where
  "example_tree = Module (example_module\<lparr>mo_head := example_mod_head\<lparr>hd_len_kids := 1\<rparr>, mo_kid_addrs := [0x200]\<rparr>) [Some example_leaf]"

lemma example_tree_facts: "wf_tree example_tree" "made example_tree" "height example_tree = 2"
  by (simp_all add: example_tree_def example_mod_head_def example_leaf_facts)



subsection \<open>The worst assert\<close>

fun cores :: "'w module \<Rightarrow> 'w modcore list" and cores_kids :: "'w module option list \<Rightarrow> 'w modcore list" where
  "cores (Module c kids) = c # cores_kids kids"
| "cores_kids [] = []"
| "cores_kids (None # kids) = cores_kids kids"
| "cores_kids (Some k # kids) = cores k @ cores_kids kids"

text \<open>The assert of a register does not depend on the log.\<close>

definition reg_assert :: "'w modmem \<Rightarrow> reg \<Rightarrow> ass res" where
  "reg_assert m r = rbind (m_ass_check_cached r Ass_none [] m) (\<lambda>(a, _). Inr a)"

lemma flags_scan_log: "flags_scan r la v fs a l = Inr (b, l') \<Longrightarrow> flags_scan r Ass_none v fs a [] = Inr (b, [])"
proof (induction fs arbitrary: a l)
  case (Cons f fs)
  then show ?case by (auto simp: Let_def log_if_def split: if_splits)
qed simp

lemma reg_assert_log:
  assumes "m_ass_check_cached r la l m = Inr (b, l')"
  shows "reg_assert m r = Inr b"
proof (cases "rg_class r")
  case RC_reg
  then show ?thesis using assms
    by (simp add: m_ass_check_cached_def reg_assert_def reg_ass_check_cached_def rbind_def split: if_splits sum.splits)
next
  case (RC_vec eo)
  then show ?thesis using assms
    by (simp add: m_ass_check_cached_def reg_assert_def vec_ass_check_cached_def rbind_def split: if_splits sum.splits)
next
  case (RC_flags fs)
  then obtain v where "read_uint_cached r m = Inr v" "flags_scan r la v (reg_flags r) Ass_none l = Inr (b, l')"
    using assms by (auto simp: m_ass_check_cached_def flags_ass_check_cached_def rbind_Inr_iff)
  then show ?thesis using RC_flags flags_scan_log
    by (simp add: m_ass_check_cached_def reg_assert_def flags_ass_check_cached_def)
qed

lemma check_regs_worst:
  "check_regs rs a la l m = Inr (b, l') \<Longrightarrow>
     a \<le> b \<and> (\<forall>r \<in> set rs. \<exists>x. reg_assert m r = Inr x \<and> x \<le> b) \<and> (b = a \<or> (\<exists>r \<in> set rs. reg_assert m r = Inr b))"
proof (induction rs arbitrary: a l)
  case (Cons r rs)
  obtain x l1 where x: "m_ass_check_cached r la l m = Inr (x, l1)" "check_regs rs (if x \<ge> a then x else a) la l1 m = Inr (b, l')"
    using Cons.prems by (auto simp: rbind_Inr_iff)
  show ?case using Cons.IH [OF x(2)] reg_assert_log [OF x(1)] by (auto split: if_splits intro: order_trans)
qed simp

definition tree_asserts :: "'w modcore list \<Rightarrow> (ass res) set" where
  "tree_asserts cs = (\<Union>c \<in> set cs. reg_assert (mo_mem c) ` set (mo_arr_reg_var_ass c))"

text \<open>The worst of two parts: \<open>x\<close> is the worst of \<open>A\<close> above \<open>n\<close>, and \<open>b\<close> of \<open>B\<close> above \<open>x\<close>.\<close>

definition worst_of :: "ass \<Rightarrow> ass \<Rightarrow> ass res set \<Rightarrow> bool" where
  "worst_of n b A \<longleftrightarrow> n \<le> b \<and> (\<forall>y \<in> A. \<exists>z. y = Inr z \<and> z \<le> b) \<and> (b = n \<or> Inr b \<in> A)"

lemma worst_of_Un: "worst_of n x A \<Longrightarrow> worst_of x b B \<Longrightarrow> worst_of n b (A \<union> B)"
proof -
  assume A: "worst_of n x A" and B: "worst_of x b B"
  have "x \<le> b" using B by (simp add: worst_of_def)
  then have "\<exists>z. y = Inr z \<and> z \<le> b" if "y \<in> A" for y
    using A that order_trans unfolding worst_of_def by blast
  then show ?thesis using A B \<open>x \<le> b\<close> order_trans unfolding worst_of_def by blast
qed

lemma worst_of_max: "worst_of Ass_none x A \<Longrightarrow> worst_of a (if x > a then x else a) A"
proof -
  assume w: "worst_of Ass_none x A"
  let ?m = "if x > a then x else a"
  have m: "x \<le> ?m" "a \<le> ?m" by auto
  have "\<exists>z. y = Inr z \<and> z \<le> ?m" if "y \<in> A" for y
    using w that m(1) order_trans unfolding worst_of_def by blast
  moreover have "?m = a \<or> Inr ?m \<in> A" using w leD [OF ass_none_least] by (auto simp: worst_of_def)
  ultimately show ?thesis using m(2) unfolding worst_of_def by blast
qed

lemma tree_asserts_simps [simp]:
  "tree_asserts [] = {}"
  "tree_asserts (c # cs) = reg_assert (mo_mem c) ` set (mo_arr_reg_var_ass c) \<union> tree_asserts cs"
  "tree_asserts (cs @ ds) = tree_asserts cs \<union> tree_asserts ds"
  by (auto simp: tree_asserts_def)

lemma tree_worst:
  fixes md :: "'w module" and kids :: "'w module option list"
  shows "check_assert_tree_cached la l md = Inr (b, l') \<Longrightarrow> worst_of Ass_none b (tree_asserts (cores md))"
    and "check_assert_kids_cached a la l kids = Inr (b, l') \<Longrightarrow> worst_of a b (tree_asserts (cores_kids kids))"
proof (induction la l md and a la l kids arbitrary: b l' and b l' rule: check_assert_tree_cached_check_assert_kids_cached.induct)
  case (1 la l c kids)
  obtain x l1 where x: "check_assert_cached la l c = Inr (x, l1)" "check_assert_kids_cached x la l1 kids = Inr (b, l')"
    using "1.prems" by (auto simp: rbind_Inr_iff)
  have "worst_of Ass_none x (reg_assert (mo_mem c) ` set (mo_arr_reg_var_ass c))"
    using check_regs_worst [OF x(1) [unfolded check_assert_cached_def]] unfolding worst_of_def by (auto simp: image_iff) metis
  then show ?case using worst_of_Un "1.IH" [OF x(2)] by simp
next
  case (4 a la l k kids)
  obtain x l1 where x: "check_assert_tree_cached la l k = Inr (x, l1)"
      "check_assert_kids_cached (if x > a then x else a) la l1 kids = Inr (b, l')"
    using "4.prems" by (auto simp: rbind_Inr_iff)
  show ?case using worst_of_Un [OF worst_of_max [OF "4.IH"(1) [OF x(1)]] "4.IH"(2) [OF x(2)]] by simp
qed (auto simp: worst_of_def)

text \<open>
  C34: the assert level of a tree is the worst one of its registers: no watched register of any
  module of the tree is at a higher level, and if the level is not \<open>none\<close> some register has it.
\<close>
theorem tree_assert_is_worst:
  assumes "check_assert_tree_cached log_ass log_f md = Inr (a, log')"
  shows "(\<forall>x \<in> tree_asserts (cores md). \<exists>y. x = Inr y \<and> y \<le> a) \<and> (a = Ass_none \<or> Inr a \<in> tree_asserts (cores md))"
  using tree_worst(1) [OF assms] by (simp add: worst_of_def)

definition example_ass_reg :: reg where
  "example_ass_reg = (example_var ''E'' (Some 0x110))\<lparr>rg_ass := Ass_warn\<rparr>"

definition example_ass_module :: "regions module" where
  "example_ass_module = Module (example_module\<lparr>mo_arr_reg_var_ass := [example_ass_reg],
     mo_mem := (mo_mem example_module)\<lparr>mm_cache := replicate 16 0 @ [1, 0, 0, 0]\<rparr>\<rparr>) []"

theorem tree_assert_is_worst_witness:
  "check_assert_tree_cached Ass_none [] example_ass_module = Inr (Ass_warn, []) \<and>
   Inr Ass_warn \<in> tree_asserts (cores example_ass_module)"
proof -
  let ?m = "mo_mem (mod_core example_ass_module)"
  have "read_bytes_cached example_ass_reg ?m = Inr [1, 0]"
    by (simp add: read_bytes_cached_def reg_addr_def example_ass_reg_def example_var_def example_ass_module_def example_module_def
        init_core_def read_cached_def cache_addr_def py_slice_inside numeral_eq_Suc)
  then have "read_uint_cached example_ass_reg ?m = Inr 1"
    by (simp add: read_uint_cached_def) (simp add: example_ass_reg_def example_var_def)
  then have "read_bool_cached example_ass_reg ?m = Inr True" by (simp add: read_bool_cached_def)
  moreover have "rg_class example_ass_reg = RC_reg" "\<not> has_limit example_ass_reg" "rg_ass example_ass_reg = Ass_warn"
    by (simp_all add: example_ass_reg_def example_var_def has_limit_def)
  ultimately have "m_ass_check_cached example_ass_reg Ass_none [] ?m = Inr (Ass_warn, [])"
    by (simp add: m_ass_check_cached_def reg_ass_check_cached_def log_if_def)
  then have c: "check_assert_tree_cached Ass_none [] example_ass_module = Inr (Ass_warn, [])"
    by (simp add: example_ass_module_def check_assert_cached_def)
  show ?thesis using tree_assert_is_worst [OF c] c by simp
qed

subsection \<open>Clearing\<close>

text \<open>
  The cached clearing of the \<open>rc\<close> registers does not look at their access kind. One register
  of the module that software may not write makes the whole operation raise, whatever else the
  module holds.
\<close>
theorem write_zero_all_rc_cached_raises:
  assumes "r \<in> set (mo_arr_reg_var c)" and "rg_acc r \<in> {Acc_na, Acc_k, Acc_ro}"
  shows "\<exists>e. fst (write_zero_all_rc_cached c) = Inl e"
proof -
  have "\<exists>e. fst (regs_cached write_zero_cached rs m) = Inl e" if "r \<in> set rs" for rs and m :: "'a modmem"
    using that
  proof (induction rs arbitrary: m)
    case (Cons g rs)
    have "\<exists>e. write_zero_cached r m = Inl e"
      using no_write_without_access(2) [OF assms(2)] by (simp add: write_zero_cached_def write_uint_cached_def)
    then show ?case using Cons by (cases "write_zero_cached g m") auto
  qed simp
  then show ?thesis using assms(1) by (auto simp: write_zero_all_rc_cached_def split: prod.splits) (metis fst_conv)
qed

theorem write_zero_all_rc_cached_raises_witness:
  "\<exists>e. fst (write_zero_all_rc_cached (example_module\<lparr>mo_arr_reg_var :=
     [(example_var ''A'' (Some 0x110))\<lparr>rg_acc := Acc_rc\<rparr>, (example_var ''B'' (Some 0x112))\<lparr>rg_acc := Acc_ro\<rparr>]\<rparr>)) = Inl e"
  by (rule write_zero_all_rc_cached_raises [where r = "(example_var ''B'' (Some 0x112))\<lparr>rg_acc := Acc_ro\<rparr>"]) simp_all

subsection \<open>The snapshot of a tree\<close>

text \<open>What the tree puts into the snapshot, in order: the image of each module and of its memories.\<close>

definition core_writes :: "bool \<Rightarrow> 'w modcore \<Rightarrow> (int \<times> byte list) list" where
  "core_writes ext c = (mo_base_addr c, mm_cache (mo_mem c)) #
     (if ext then map (\<lambda>x. (xm_base_addr x, py_slice (xm_cache x) 0 (xm_size x)))
                    (filter (\<lambda>x. xm_is_cached x \<and> xm_cache_loaded x) (mo_arr_external_mem c)) else [])"

fun tree_writes :: "bool \<Rightarrow> 'w module \<Rightarrow> (int \<times> byte list) list"
and kids_writes :: "'w module option list \<Rightarrow> (int \<times> byte list) list" where
  "tree_writes ext (Module c kids) = core_writes ext c @ kids_writes kids"
| "kids_writes [] = []"
| "kids_writes (None # kids) = kids_writes kids"
| "kids_writes (Some k # kids) = tree_writes True k @ kids_writes kids"

definition overlay_all :: "(int \<rightharpoonup> byte) \<Rightarrow> (int \<times> byte list) list \<Rightarrow> (int \<rightharpoonup> byte)" where
  "overlay_all m ws = foldl (\<lambda>m (a, d). mem_overlay m a d) m ws"

lemma overlay_all_simps [simp]:
  "overlay_all m [] = m"
  "overlay_all m ((a, d) # ws) = overlay_all (mem_overlay m a d) ws"
  "overlay_all m (vs @ ws) = overlay_all (overlay_all m vs) ws"
  by (simp_all add: overlay_all_def)

definition overlays :: "(regions, unit) io \<Rightarrow> (int \<times> byte list) list \<Rightarrow> bool" where
  "overlays f ws \<longleftrightarrow> (\<forall>rs rs'. f rs = (Inr (), rs') \<longrightarrow> regions_ok rs \<longrightarrow> regions_ok rs' \<and> mem_of rs' = overlay_all (mem_of rs) ws)"

lemma overlays_write: "overlays (cache_write a d) [(a, d)]"
proof -
  have "regions_ok rs' \<and> mem_of rs' = mem_overlay (mem_of rs) a d"
    if h: "cache_write a d rs = (Inr (), rs')" "regions_ok rs" for rs rs'
  proof (cases "d = []")
    case True
    then show ?thesis using h by (auto simp: cache_write_run split: if_splits)
  next
    case False
    then have "rs' = merge_write a d rs" "0 \<le> a" "a + int (length d) \<le> UINT32_MAX + 1"
      using h(1) by (auto simp: cache_write_run split: if_splits)
    then show ?thesis using merge_write_ok [OF h(2) False] merge_write_mem [OF h(2) False] by simp
  qed
  then show ?thesis by (simp add: overlays_def)
qed

lemma overlays_return: "overlays (io_return ()) []"
  by (simp add: overlays_def)

lemma overlays_bind: "overlays f vs \<Longrightarrow> (\<And>u. overlays (g u) ws) \<Longrightarrow> overlays (io_bind f g) (vs @ ws)"
  by (auto simp: overlays_def io_bind_Inr_iff)

lemma overlays_mems:
  "overlays (mems_to_regio_cache xs) (map (\<lambda>x. (xm_base_addr x, py_slice (xm_cache x) 0 (xm_size x)))
     (filter (\<lambda>x. xm_is_cached x \<and> xm_cache_loaded x) xs))"
proof (induction xs)
  case (Cons x xs)
  have "xm_read_cached 0 (xm_size x) x = Inr (py_slice (xm_cache x) 0 (xm_size x))"
    by (simp add: xm_read_cached_def xm_check_size_def)
  then show ?case using Cons overlays_bind [OF overlays_write] by auto
qed (use overlays_return in simp)

lemma overlays_core: "overlays (write_cache_to_regio_cache ext c) (core_writes ext c)"
  using overlays_bind [OF overlays_write overlays_mems] overlays_bind [OF overlays_write overlays_return]
  by (auto simp: write_cache_to_regio_cache_def core_writes_def)

lemma overlays_tree:
  fixes md :: "'w module" and kids :: "'w module option list"
  shows "overlays (write_cache_to_regio_cache_tree ext md) (tree_writes ext md)"
    and "overlays (write_cache_to_regio_cache_kids kids) (kids_writes kids)"
  by (induction ext md and kids rule: write_cache_to_regio_cache_tree_write_cache_to_regio_cache_kids.induct)
    (use overlays_return in \<open>auto intro!: overlays_bind overlays_core\<close>)

lemma save_regions_saveable: "io_forM save_region rs f = (Inr (), f') \<Longrightarrow> saveable rs"
proof (induction rs arbitrary: f)
  case (Cons r rs)
  obtain a d where r: "r = (a, d)" by (cases r)
  obtain f1 where f1: "save_region r f = (Inr (), f1)" "io_forM save_region rs f1 = (Inr (), f')"
    using Cons.prems by (auto simp: io_bind_Inr_iff)
  have "\<not> int (length d) > UINT32_MAX" using f1(1) by (auto simp: save_region_def r)
  moreover have "\<exists>b. pack_u 4 a = Inr b"
    using f1(1) by (auto simp: save_region_def r io_bind_lift_run rbind_def split: if_splits sum.splits)
  ultimately show ?case using Cons.IH [OF f1(2)] pack_u_Inr by (fastforce simp: saveable_def r UINT32_MAX_def)
qed (simp add: saveable_def)

text \<open>
  C10: a tree saved to a file comes back. Whatever the file was before, when saving succeeds the
  file loads into a well-formed cache whose bytes are exactly the images of the modules of the tree
  and of their cached memories, a kid over its parent where they overlap.
\<close>
theorem tree_snapshot_roundtrip:
  assumes "write_cache_tree_to_file md f0 = (Inr (), f)"
  shows "\<exists>rs. load_from_file f True rs0 = (Inr (), rs) \<and> regions_ok rs \<and> mem_of rs = overlay_all Map.empty (tree_writes True md)"
proof -
  obtain rs where rs: "write_cache_to_regio_cache_tree True md [] = (Inr (), rs)" "save_to_file rs f0 = (Inr (), f)"
    using assms by (auto simp: write_cache_tree_to_file_def split: prod.splits sum.splits)
  have "mem_of [] = Map.empty" by (simp add: fun_eq_iff)
  moreover have "regions_ok []" by (simp add: regions_ok_def)
  ultimately have ok: "regions_ok rs" "mem_of rs = overlay_all Map.empty (tree_writes True md)"
    using overlays_tree(1) [of True md] rs(1) by (auto simp: overlays_def simp del: mem_of.simps)
  have sv: "saveable rs" using rs(2) by (auto simp: save_to_file_def intro: save_regions_saveable)
  have "f = FILE_HEADER @ concat (map region_bytes rs)" using rs(2) save_to_file_run [OF sv, of f0] by simp
  then show ?thesis using load_from_file_saved [OF sv, of True rs0] ok by simp
qed

lemma example_leaf_saved:
  "\<exists>f. write_cache_tree_to_file example_leaf [] = (Inr (), f)"
proof -
  have m: "mm_cache (mo_mem example_module) = example_mod_bytes @ [0, 0, 0, 0]" "mo_base_addr example_module = 0x100"
      "mo_arr_external_mem example_module = []"
    by (simp_all add: example_module_def init_core_def mo_base_addr_def)
  have "write_cache_to_regio_cache_tree True example_leaf [] = (Inr (), [(0x100, example_mod_bytes @ [0, 0, 0, 0])])"
    by (simp add: example_leaf_def write_cache_to_regio_cache_def m io_bind_run io_return_def cache_write_run merge_write_def py_slice_assign_def py_clamp_def
        example_mod_bytes_def UINT32_MAX_def)
  moreover have "saveable [(0x100, example_mod_bytes @ [0, 0, 0, 0])]"
    by (simp add: saveable_def example_mod_bytes_def UINT32_MAX_def)
  ultimately show ?thesis using save_to_file_run by (simp add: write_cache_tree_to_file_def)
qed

theorem tree_snapshot_roundtrip_witness:
  "\<exists>f rs. write_cache_tree_to_file example_leaf [] = (Inr (), f) \<and> load_from_file f True [] = (Inr (), rs) \<and>
     mem_of rs = overlay_all Map.empty (tree_writes True example_leaf)"
proof -
  obtain f where f: "write_cache_tree_to_file example_leaf [] = (Inr (), f)" using example_leaf_saved by blast
  show ?thesis using tree_snapshot_roundtrip [OF f, of "[]"] f by blast
qed

end
