(* ===== verification/RecipeNum.thy ===== *)
theory RecipeNum
  imports Reg
begin

text \<open>
  The numbers of a recipe expression: Python ints, floats and, inside the derivation of an inverse
  conversion, exact \<^verbatim>\<open>Fraction\<close>s; and \<^verbatim>\<open>pip/skmap/src/skmap/recipe_functions.py\<close>, the functions the
  generated code calls. A float is a rational as in Reg: every float operation is the exact one
  followed by \<open>pf_round\<close>. A \<^verbatim>\<open>Fraction\<close> never is an exponent, no expression of a recipe makes one.
\<close>

datatype rnum = NInt int | NFlt rat | NFrac rat

fun num_val :: "rnum \<Rightarrow> rat" where
  "num_val (NInt i) = of_int i"
| "num_val (NFlt x) = x"
| "num_val (NFrac q) = q"

fun is_flt :: "rnum \<Rightarrow> bool" where
  "is_flt (NFlt x) = True"
| "is_flt _ = False"

definition to_flt :: "py_impl \<Rightarrow> rnum \<Rightarrow> rat" where
  "to_flt pf a = (if is_flt a then num_val a else pf_round pf (num_val a))"

section \<open>Arithmetic\<close>

text \<open>The result is an int for two ints, a float when a float is involved, a \<^verbatim>\<open>Fraction\<close> otherwise.\<close>

definition num_op :: "py_impl \<Rightarrow> (int \<Rightarrow> int \<Rightarrow> int) \<Rightarrow> (rat \<Rightarrow> rat \<Rightarrow> rat) \<Rightarrow> rnum \<Rightarrow> rnum \<Rightarrow> rnum" where
  "num_op pf fi fq a b =
     (case (a, b) of
        (NInt i, NInt j) \<Rightarrow> NInt (fi i j)
      | _ \<Rightarrow> if is_flt a \<or> is_flt b then NFlt (pf_round pf (fq (to_flt pf a) (to_flt pf b)))
             else NFrac (fq (num_val a) (num_val b)))"

definition num_add :: "py_impl \<Rightarrow> rnum \<Rightarrow> rnum \<Rightarrow> rnum" where "num_add pf = num_op pf (+) (+)"
definition num_sub :: "py_impl \<Rightarrow> rnum \<Rightarrow> rnum \<Rightarrow> rnum" where "num_sub pf = num_op pf (-) (-)"
definition num_mult :: "py_impl \<Rightarrow> rnum \<Rightarrow> rnum \<Rightarrow> rnum" where "num_mult pf = num_op pf (*) (*)"

fun num_neg :: "rnum \<Rightarrow> rnum" where
  "num_neg (NInt i) = NInt (- i)"
| "num_neg (NFlt x) = NFlt (- x)"
| "num_neg (NFrac q) = NFrac (- q)"

text \<open>\<^verbatim>\<open>a / b\<close>, \<^verbatim>\<open>a // b\<close>, \<^verbatim>\<open>a % b\<close>\<close>

definition num_truediv :: "py_impl \<Rightarrow> rnum \<Rightarrow> rnum \<Rightarrow> rnum res" where
  "num_truediv pf a b =
     (if is_flt a \<or> is_flt b then
        if to_flt pf b = 0 then Inl ZeroDivisionError else Inr (NFlt (pf_round pf (to_flt pf a / to_flt pf b)))
      else if num_val b = 0 then Inl ZeroDivisionError
      else case (a, b) of
        (NInt i, NInt j) \<Rightarrow> Inr (NFlt (pf_round pf (of_int i / of_int j)))
      | _ \<Rightarrow> Inr (NFrac (num_val a / num_val b)))"

definition num_floordiv :: "py_impl \<Rightarrow> rnum \<Rightarrow> rnum \<Rightarrow> rnum res" where
  "num_floordiv pf a b =
     (if is_flt a \<or> is_flt b then
        if to_flt pf b = 0 then Inl ZeroDivisionError
        else Inr (NFlt (pf_round pf (of_int \<lfloor>to_flt pf a / to_flt pf b\<rfloor>)))
      else if num_val b = 0 then Inl ZeroDivisionError
      else case (a, b) of
        (NInt i, NInt j) \<Rightarrow> Inr (NInt (i div j))
      | _ \<Rightarrow> Inr (NInt \<lfloor>num_val a / num_val b\<rfloor>))"

definition rat_mod :: "rat \<Rightarrow> rat \<Rightarrow> rat" where
  "rat_mod x y = x - y * of_int \<lfloor>x / y\<rfloor>"

definition num_mod :: "py_impl \<Rightarrow> rnum \<Rightarrow> rnum \<Rightarrow> rnum res" where
  "num_mod pf a b =
     (if is_flt a \<or> is_flt b then
        if to_flt pf b = 0 then Inl ZeroDivisionError else Inr (NFlt (pf_round pf (rat_mod (to_flt pf a) (to_flt pf b))))
      else if num_val b = 0 then Inl ZeroDivisionError
      else case (a, b) of
        (NInt i, NInt j) \<Rightarrow> Inr (NInt (i mod j))
      | _ \<Rightarrow> Inr (NFrac (rat_mod (num_val a) (num_val b))))"

text \<open>\<^verbatim>\<open>a ** b\<close>: an int to a negative int is a float.\<close>

definition num_pow :: "py_impl \<Rightarrow> rnum \<Rightarrow> rnum \<Rightarrow> rnum res" where
  "num_pow pf a b =
     (case (a, b) of
        (NInt i, NInt j) \<Rightarrow>
          if 0 \<le> j then Inr (NInt (i ^ nat j))
          else if i = 0 then Inl ZeroDivisionError
          else rbind (pf_pow pf (to_flt pf a) (to_flt pf b)) (\<lambda>x. Inr (NFlt x))
      | (NFrac q, NInt j) \<Rightarrow>
          if 0 \<le> j then Inr (NFrac (q ^ nat j))
          else if q = 0 then Inl ZeroDivisionError
          else Inr (NFrac (inverse q ^ nat (- j)))
      | _ \<Rightarrow> rbind (pf_pow pf (to_flt pf a) (to_flt pf b)) (\<lambda>x. Inr (NFlt x)))"

section \<open>Rounding and text\<close>

definition num_int :: "rnum \<Rightarrow> int" where
  "num_int a = (let x = num_val a in if 0 \<le> x then \<lfloor>x\<rfloor> else - \<lfloor>- x\<rfloor>)"

definition frac_str :: "rat \<Rightarrow> string" where
  "frac_str q = (let (n, d) = quotient_of q in if d = 1 then py_str_int n else py_str_int n @ ''/'' @ py_str_int d)"

definition num_str :: "py_impl \<Rightarrow> rnum \<Rightarrow> string" where
  "num_str pf a = (case a of NInt i \<Rightarrow> py_str_int i | NFlt x \<Rightarrow> pf_str pf x | NFrac q \<Rightarrow> frac_str q)"

text \<open>\<^verbatim>\<open>int((value + 0.5)//1) if value >= 0 else -int((-value + 0.5)//1)\<close>\<close>

definition half_up :: "py_impl \<Rightarrow> rnum \<Rightarrow> int res" where
  "half_up pf a = rbind (num_floordiv pf (num_add pf a (NFlt (1 / 2))) (NInt 1)) (\<lambda>q. Inr (num_int q))"

definition round_to_int :: "py_impl \<Rightarrow> rnum \<Rightarrow> int res" where
  "round_to_int pf a =
     (case a of NInt i \<Rightarrow> Inr i
      | _ \<Rightarrow> if 0 \<le> num_val a then half_up pf a else rbind (half_up pf (num_neg a)) (\<lambda>q. Inr (- q)))"

section \<open>Functions of the generated code\<close>

definition fn_cdiv :: "py_impl \<Rightarrow> rnum \<Rightarrow> rnum \<Rightarrow> rnum res" where
  "fn_cdiv pf n d = rbind (num_floordiv pf n (num_neg d)) (\<lambda>q. Inr (num_neg q))"

definition num_bit_length :: "rnum \<Rightarrow> rnum res" where
  "num_bit_length a = (case a of NInt i \<Rightarrow> Inr (NInt (bit_length i)) | _ \<Rightarrow> Inl AttributeError)"

definition fn_clog2 :: "py_impl \<Rightarrow> rnum \<Rightarrow> rnum res" where
  "fn_clog2 pf x = num_bit_length (num_sub pf x (NInt 1))"

definition fn_round :: "py_impl \<Rightarrow> rnum \<Rightarrow> rnum res" where
  "fn_round pf a =
     (case a of NInt i \<Rightarrow> Inr (NInt i)
      | _ \<Rightarrow> rbind (if 0 \<le> num_val a then half_up pf a else rbind (half_up pf (num_neg a)) (\<lambda>q. Inr (- q)))
               (\<lambda>q. Inr (NInt q)))"

definition fn_ceil :: "rnum \<Rightarrow> rnum" where
  "fn_ceil a = NInt \<lceil>num_val a\<rceil>"

definition fn_floor :: "rnum \<Rightarrow> rnum" where
  "fn_floor a = NInt \<lfloor>num_val a\<rfloor>"

definition fn_float :: "py_impl \<Rightarrow> rnum \<Rightarrow> rnum" where
  "fn_float pf a = NFlt (to_flt pf a)"

section \<open>Lemmas\<close>

lemma num_op_int [simp]:
  "num_add pf (NInt i) (NInt j) = NInt (i + j)"
  "num_sub pf (NInt i) (NInt j) = NInt (i - j)"
  "num_mult pf (NInt i) (NInt j) = NInt (i * j)"
  by (simp_all add: num_add_def num_sub_def num_mult_def num_op_def)

lemma num_add_is_int: "num_add pf a b = NInt k \<longleftrightarrow> (\<exists>i j. a = NInt i \<and> b = NInt j \<and> k = i + j)"
  by (cases a; cases b) (auto simp: num_add_def num_op_def)

lemma num_floordiv_int:
  "num_floordiv pf (NInt i) (NInt j) = (if j = 0 then Inl ZeroDivisionError else Inr (NInt (i div j)))"
  by (simp add: num_floordiv_def)

text \<open>An interpreter for the examples: exact floats, without a text.\<close>

definition example_pf :: py_impl where
  "example_pf = \<lparr>pf_round = id, pf_str = (\<lambda>_. ''''), pf_ass_str = ass_str, pf_pow = (\<lambda>_ _. Inl ValueError)\<rparr>"

end
