(* ===== verification/RecipeTree.thy ===== *)
theory RecipeTree
  imports RecipeNum
begin

text \<open>
  \<^verbatim>\<open>pip/skmap/src/skmap/code_generator_parse_resolvable.py\<close>, the trees of recipe expressions: their
  nodes, the constant folding the parser applies while it builds them, their value, their printed
  text and the predicates on them. An \<^verbatim>\<open>ipkg\<close> leaf has a value; a \<^verbatim>\<open>k\<close> leaf has only a name, its
  value is reported by the firmware. The operator \<^verbatim>\<open>!\<close> is the only one without a right side, so it
  has a node of its own.
\<close>

section \<open>Nodes\<close>

datatype bin_op =
    Op_add | Op_sub | Op_mult | Op_div | Op_power | Op_mod
  | Op_eq | Op_ne | Op_lt | Op_le | Op_gt | Op_ge | Op_land | Op_lor

fun is_comparision :: "bin_op \<Rightarrow> bool" where
  "is_comparision op \<longleftrightarrow> op \<in> {Op_eq, Op_ne, Op_lt, Op_le, Op_gt, Op_ge}"

fun bin_op_str :: "bin_op \<Rightarrow> string" where
  "bin_op_str Op_add = ''+''"
| "bin_op_str Op_sub = ''-''"
| "bin_op_str Op_mult = ''*''"
| "bin_op_str Op_div = ''/''"
| "bin_op_str Op_power = ''**''"
| "bin_op_str Op_mod = ''%''"
| "bin_op_str Op_eq = ''==''"
| "bin_op_str Op_ne = ''!=''"
| "bin_op_str Op_lt = ''<''"
| "bin_op_str Op_le = ''<=''"
| "bin_op_str Op_gt = ''>''"
| "bin_op_str Op_ge = ''>=''"
| "bin_op_str Op_land = ''&&''"
| "bin_op_str Op_lor = ''||''"

datatype built_in = Fn_clog2 | Fn_cdiv | Fn_round | Fn_ceil | Fn_floor | Fn_float

fun built_in_name :: "built_in \<Rightarrow> string" where
  "built_in_name Fn_clog2 = ''clog2''"
| "built_in_name Fn_cdiv = ''cdiv''"
| "built_in_name Fn_round = ''round''"
| "built_in_name Fn_ceil = ''ceil''"
| "built_in_name Fn_floor = ''floor''"
| "built_in_name Fn_float = ''float''"

fun built_in_parameters :: "built_in \<Rightarrow> nat" where
  "built_in_parameters Fn_cdiv = 2"
| "built_in_parameters _ = 1"

definition BUILTIN_FUNCTIONS :: "string \<Rightarrow> built_in option" where
  "BUILTIN_FUNCTIONS = map_of (map (\<lambda>f. (built_in_name f, f)) [Fn_clog2, Fn_cdiv, Fn_round, Fn_ceil, Fn_floor, Fn_float])"

datatype resolvable =
    RNum rnum
  | RBool bool
  | RStr string
  | RK string
  | RIpkg string resolvable
  | RParam string v_type
  | ROp resolvable bin_op resolvable
  | RNot resolvable
  | RFun built_in "resolvable list"

text \<open>\<^verbatim>\<open>isinstance(node, int)\<close>, a bool is one; \<^verbatim>\<open>isinstance(node, (int, float))\<close> without the bools\<close>

fun r_int :: "resolvable \<Rightarrow> int option" where
  "r_int (RNum (NInt i)) = Some i"
| "r_int (RBool b) = Some (of_bool b)"
| "r_int _ = None"

fun r_number :: "resolvable \<Rightarrow> rnum option" where
  "r_number (RNum (NInt i)) = Some (NInt i)"
| "r_number (RNum (NFlt x)) = Some (NFlt x)"
| "r_number _ = None"

section \<open>Constant folding\<close>

text \<open>The two operands of a fold: numbers one of which is a float, or two ints.\<close>

definition fold_operands :: "resolvable \<Rightarrow> resolvable \<Rightarrow> (rnum \<times> rnum) option" where
  "fold_operands l r =
     (case (r_number l, r_number r) of
        (Some a, Some b) \<Rightarrow> Some (a, b)
      | _ \<Rightarrow> (case (r_int l, r_int r) of (Some i, Some j) \<Rightarrow> Some (NInt i, NInt j) | _ \<Rightarrow> None))"

text \<open>The folded value; \<^verbatim>\<open>/\<close> of two ints is \<^verbatim>\<open>//\<close> here, with a float it is a true division.\<close>

definition fold_op :: "py_impl \<Rightarrow> bin_op \<Rightarrow> rnum \<Rightarrow> rnum \<Rightarrow> rnum res option" where
  "fold_op pf op a b =
     (case op of
        Op_add \<Rightarrow> Some (Inr (num_add pf a b))
      | Op_sub \<Rightarrow> Some (Inr (num_sub pf a b))
      | Op_mult \<Rightarrow> Some (Inr (num_mult pf a b))
      | Op_div \<Rightarrow> Some (if is_flt a \<or> is_flt b then num_truediv pf a b else num_floordiv pf a b)
      | Op_power \<Rightarrow> Some (num_pow pf a b)
      | _ \<Rightarrow> None)"

text \<open>\<open>(x + i) + j\<close> with ints \<open>i\<close> and \<open>j\<close> becomes \<open>x + (i + j)\<close>.\<close>

definition fold_sum :: "resolvable \<Rightarrow> bin_op \<Rightarrow> resolvable \<Rightarrow> resolvable option" where
  "fold_sum l op r =
     (case (l, r_int r) of
        (ROp x Op_add y, Some j) \<Rightarrow>
          (case r_int y of
             Some i \<Rightarrow> if op = Op_add then Some (ROp x Op_add (RNum (NInt (i + j)))) else None
           | None \<Rightarrow> None)
      | _ \<Rightarrow> None)"

definition make_resolvable_function :: "py_impl \<Rightarrow> resolvable \<Rightarrow> bin_op \<Rightarrow> resolvable \<Rightarrow> resolvable res" where
  "make_resolvable_function pf l op r =
     (case fold_operands l r of
        Some (a, b) \<Rightarrow>
          (case fold_op pf op a b of
             Some x \<Rightarrow> rbind x (\<lambda>n. Inr (RNum n))
           | None \<Rightarrow> Inr (ROp l op r))
      | None \<Rightarrow>
          (case fold_sum l op r of
             Some t \<Rightarrow> Inr t
           | None \<Rightarrow> Inr (ROp l op r)))"

section \<open>Value\<close>

definition recipe_ceil_div :: "py_impl \<Rightarrow> rnum \<Rightarrow> rnum \<Rightarrow> rnum res" where
  "recipe_ceil_div pf l r = rbind (num_floordiv pf (num_neg l) r) (\<lambda>q. Inr (num_neg q))"

definition num_bool :: "bool \<Rightarrow> rnum" where
  "num_bool b = NInt (of_bool b)"

text \<open>\<^verbatim>\<open>args[i]\<close>\<close>

definition arg_at :: "rnum list \<Rightarrow> nat \<Rightarrow> rnum res" where
  "arg_at args i = py_index args (int i)"

definition eval_built_in :: "py_impl \<Rightarrow> built_in \<Rightarrow> rnum list \<Rightarrow> rnum res" where
  "eval_built_in pf f args =
     (case f of
        Fn_clog2 \<Rightarrow> rbind (arg_at args 0) (\<lambda>v. if num_val v \<le> 1 then Inr (NInt 0) else num_bit_length (num_sub pf v (NInt 1)))
      | Fn_cdiv \<Rightarrow> rbind (arg_at args 0) (\<lambda>a. rbind (arg_at args 1) (\<lambda>b. recipe_ceil_div pf a b))
      | Fn_round \<Rightarrow> rbind (arg_at args 0) (\<lambda>a. rbind (round_to_int pf a) (\<lambda>i. Inr (NInt i)))
      | Fn_ceil \<Rightarrow> rbind (arg_at args 0) (\<lambda>a. Inr (NInt \<lceil>num_val a\<rceil>))
      | Fn_floor \<Rightarrow> rbind (arg_at args 0) (\<lambda>a. Inr (NInt \<lfloor>num_val a\<rfloor>))
      | Fn_float \<Rightarrow> rbind (arg_at args 0) (\<lambda>a. Inr (NFlt (to_flt pf a))))"

text \<open>The \<^verbatim>\<open>/\<close> of a recipe: the ceiling division of two ints, a true division otherwise.\<close>

definition recipe_div :: "py_impl \<Rightarrow> rnum \<Rightarrow> rnum \<Rightarrow> rnum res" where
  "recipe_div pf a b =
     (case (a, b) of (NInt i, NInt j) \<Rightarrow> recipe_ceil_div pf a b | _ \<Rightarrow> num_truediv pf a b)"

definition eval_op :: "py_impl \<Rightarrow> bin_op \<Rightarrow> rnum \<Rightarrow> rnum \<Rightarrow> rnum res" where
  "eval_op pf op a b =
     (case op of
        Op_add \<Rightarrow> Inr (num_add pf a b)
      | Op_sub \<Rightarrow> Inr (num_sub pf a b)
      | Op_mult \<Rightarrow> Inr (num_mult pf a b)
      | Op_div \<Rightarrow> recipe_div pf a b
      | Op_power \<Rightarrow> num_pow pf a b
      | Op_mod \<Rightarrow> num_mod pf a b
      | Op_eq \<Rightarrow> Inr (num_bool (num_val a = num_val b))
      | Op_ne \<Rightarrow> Inr (num_bool (num_val a \<noteq> num_val b))
      | Op_lt \<Rightarrow> Inr (num_bool (num_val a < num_val b))
      | Op_le \<Rightarrow> Inr (num_bool (num_val a \<le> num_val b))
      | Op_gt \<Rightarrow> Inr (num_bool (num_val a > num_val b))
      | Op_ge \<Rightarrow> Inr (num_bool (num_val a \<ge> num_val b))
      | Op_land \<Rightarrow> Inr (num_bool (num_val a \<noteq> 0 \<and> num_val b \<noteq> 0))
      | Op_lor \<Rightarrow> Inr (num_bool (num_val a \<noteq> 0 \<or> num_val b \<noteq> 0)))"

lemma rmapM_cong [fundef_cong]:
  "xs = ys \<Longrightarrow> (\<And>y. y \<in> set ys \<Longrightarrow> f y = g y) \<Longrightarrow> rmapM f xs = rmapM g ys"
  by (induction ys arbitrary: xs) auto

fun resolvable_to_int :: "py_impl \<Rightarrow> resolvable \<Rightarrow> rnum res" where
  "resolvable_to_int pf (RBool b) = Inr (num_bool b)"
| "resolvable_to_int pf (RNum n) = Inr n"
| "resolvable_to_int pf (RParam nm t) = Inl ValueError"
| "resolvable_to_int pf (RFun f ps) = rbind (rmapM (\<lambda>p. resolvable_to_int pf p) ps) (eval_built_in pf f)"
| "resolvable_to_int pf (ROp l op r) =
     rbind (resolvable_to_int pf l) (\<lambda>a. rbind (resolvable_to_int pf r) (\<lambda>b. eval_op pf op a b))"
| "resolvable_to_int pf (RNot l) = rbind (resolvable_to_int pf l) (\<lambda>a. Inr (num_bool (num_val a = 0)))"
| "resolvable_to_int pf (RIpkg nm v) = resolvable_to_int pf v"
| "resolvable_to_int pf (RStr s) = Inl TypeError"
| "resolvable_to_int pf (RK nm) = Inl TypeError"

section \<open>Text\<close>

definition str_join :: "string \<Rightarrow> string list \<Rightarrow> string" where
  "str_join sp xs = (case xs of [] \<Rightarrow> '''' | x # xs \<Rightarrow> x @ concat (map (\<lambda>s. sp @ s) xs))"

fun resolvable_print_source :: "py_impl \<Rightarrow> resolvable \<Rightarrow> string" where
  "resolvable_print_source pf (RBool b) = py_str_int (of_bool b)"
| "resolvable_print_source pf (RNum n) = num_str pf n"
| "resolvable_print_source pf (RParam nm t) = nm"
| "resolvable_print_source pf (RNot l) = ''(!'' @ resolvable_print_source pf l @ '')''"
| "resolvable_print_source pf (ROp l op r) =
     ''('' @ resolvable_print_source pf l @ '' '' @ bin_op_str op @ '' '' @ resolvable_print_source pf r @ '')''"
| "resolvable_print_source pf (RFun f ps) =
     ''$'' @ built_in_name f @ ''('' @ str_join '', '' (map (\<lambda>p. resolvable_print_source pf p) ps) @ '')''"
| "resolvable_print_source pf (RStr s) = s"
| "resolvable_print_source pf (RIpkg nm v) =
     (case resolvable_to_int pf (RIpkg nm v) of Inr n \<Rightarrow> num_str pf n | Inl _ \<Rightarrow> nm)"
| "resolvable_print_source pf (RK nm) = nm"

section \<open>Predicates\<close>

fun is_value_param :: "resolvable \<Rightarrow> bool" where
  "is_value_param (RParam nm t) = True"
| "is_value_param _ = False"

fun is_bool_expr :: "resolvable \<Rightarrow> bool" where
  "is_bool_expr (RParam nm t) = True"
| "is_bool_expr (RNot l) = True"
| "is_bool_expr (ROp l op r) = (is_comparision op \<or> op \<in> {Op_land, Op_lor})"
| "is_bool_expr _ = False"

fun contains_float_value :: "resolvable \<Rightarrow> bool" where
  "contains_float_value (RNum n) = is_flt n"
| "contains_float_value (RParam nm t) = v_type_is_float t"
| "contains_float_value (ROp l op r) = (contains_float_value l \<or> contains_float_value r)"
| "contains_float_value (RNot l) = contains_float_value l"
| "contains_float_value (RFun f ps) = (f = Fn_float \<or> list_ex (\<lambda>p. contains_float_value p) ps)"
| "contains_float_value _ = False"

fun contains_value_param :: "resolvable \<Rightarrow> bool" where
  "contains_value_param (RParam nm t) = True"
| "contains_value_param (ROp l op r) = (contains_value_param l \<or> contains_value_param r)"
| "contains_value_param (RNot l) = contains_value_param l"
| "contains_value_param (RFun f ps) = list_ex (\<lambda>p. contains_value_param p) ps"
| "contains_value_param _ = False"

fun retype_value_params :: "v_type \<Rightarrow> resolvable \<Rightarrow> resolvable" where
  "retype_value_params t (RParam nm u) = RParam nm t"
| "retype_value_params t (ROp l op r) = ROp (retype_value_params t l) op (retype_value_params t r)"
| "retype_value_params t (RNot l) = RNot (retype_value_params t l)"
| "retype_value_params t (RFun f ps) = RFun f (map (\<lambda>p. retype_value_params t p) ps)"
| "retype_value_params t node = node"

section \<open>Lemmas\<close>

lemma fold_operands_value:
  "fold_operands l r = Some (a, b) \<Longrightarrow> resolvable_to_int pf l = Inr a \<and> resolvable_to_int pf r = Inr b"
proof -
  have n: "r_number t = Some x \<Longrightarrow> resolvable_to_int pf t = Inr x" for t x by (cases t rule: r_number.cases) auto
  have i: "r_int t = Some k \<Longrightarrow> resolvable_to_int pf t = Inr (NInt k)" for t k
    by (cases t rule: r_int.cases) (auto simp: num_bool_def)
  have ni: "r_number t = Some x \<Longrightarrow> r_int t = Some k \<Longrightarrow> x = NInt k" for t x k by (cases t rule: r_int.cases) auto
  assume "fold_operands l r = Some (a, b)"
  then show ?thesis by (auto simp: fold_operands_def n i dest: ni split: option.splits)
qed

lemma r_int_value: "r_int t = Some k \<Longrightarrow> resolvable_to_int pf t = Inr (NInt k)"
  by (cases t rule: r_int.cases) (auto simp: num_bool_def)

lemma fold_op_value: "fold_op pf op a b = Some x \<Longrightarrow> op \<noteq> Op_div \<Longrightarrow> eval_op pf op a b = x"
  by (cases op) (auto simp: fold_op_def eval_op_def)

lemma fold_sum_SomeE:
  assumes "fold_sum l op r = Some t"
  obtains x y i j where "l = ROp x Op_add y" "op = Op_add" "r_int y = Some i" "r_int r = Some j"
    "t = ROp x Op_add (RNum (NInt (i + j)))"
  using assms by (auto simp: fold_sum_def split: resolvable.splits bin_op.splits option.splits if_splits)

lemma make_cases:
  assumes "make_resolvable_function pf l op r = x"
  obtains (fold) a b n where "fold_operands l r = Some (a, b)" "fold_op pf op a b = Some n" "x = rbind n (\<lambda>n. Inr (RNum n))"
    | (sum) t where "fold_sum l op r = Some t" "x = Inr t"
    | (node) "x = Inr (ROp l op r)"
  using assms by (auto simp: make_resolvable_function_def split: option.splits)

lemma fold_sum_value:
  assumes "fold_sum l op r = Some t" and "resolvable_to_int pf (ROp l op r) = Inr (NInt v)"
  shows "resolvable_to_int pf t = Inr (NInt v)"
  using assms(1)
proof (cases rule: fold_sum_SomeE)
  case (1 x y i j)
  obtain a where a: "resolvable_to_int pf x = Inr a" "num_add pf (num_add pf a (NInt i)) (NInt j) = NInt v"
    using assms(2) 1 by (auto simp: rbind_Inr_iff r_int_value eval_op_def)
  then show ?thesis using 1 by (auto simp: num_add_is_int eval_op_def)
qed

lemma ceil_div_neg_floor: "0 < d \<Longrightarrow> (n + d - 1) div d = - (- n div d)" for n d :: int
proof -
  assume d: "0 < d"
  have "- n = (- n div d) * d + (- n) mod d" by simp
  then have "n + d - 1 = d - 1 - (- n) mod d + (- (- n div d)) * d" by (simp add: algebra_simps)
  moreover have "0 \<le> d - 1 - (- n) mod d" "d - 1 - (- n) mod d < d"
    using d pos_mod_bound [of d "- n"] pos_mod_sign [of d "- n"] by linarith+
  ultimately show ?thesis by (metis add.commute add_0 div_mult_self1 div_pos_pos_trivial d less_irrefl)
qed

section \<open>Properties\<close>

text \<open>
  C16: constant folding keeps the meaning of an expression, the operator \<open>/\<close> apart. Whatever the
  parser builds for \<open>l op r\<close> has the value of the unfolded node, and when building it raises, the
  unfolded node raises the same when it is evaluated. The one fold that moves an operand,
  \<open>(x + i) + j\<close> into \<open>x + (i + j)\<close>, is only claimed for int values, floats round in another order.
\<close>
theorem constant_folding_sound:
  assumes "op \<noteq> Op_div"
  shows "(\<forall>e. make_resolvable_function pf l op r = Inl e \<longrightarrow> resolvable_to_int pf (ROp l op r) = Inl e) \<and>
    (\<forall>t v. make_resolvable_function pf l op r = Inr t \<longrightarrow> resolvable_to_int pf (ROp l op r) = Inr v \<longrightarrow>
      fold_sum l op r = None \<or> (\<exists>i. v = NInt i) \<longrightarrow> resolvable_to_int pf t = Inr v)"
proof (intro conjI allI impI)
  show "resolvable_to_int pf (ROp l op r) = Inl e" if "make_resolvable_function pf l op r = Inl e" for e
    using that
  proof (cases rule: make_cases)
    case (fold a b n)
    then have "n = Inl e" by (cases n) auto
    then show ?thesis using fold_operands_value [OF fold(1)] fold_op_value [OF fold(2) assms] by simp
  qed auto
  show "resolvable_to_int pf t = Inr v"
    if m: "make_resolvable_function pf l op r = Inr t" and v: "resolvable_to_int pf (ROp l op r) = Inr v"
      "fold_sum l op r = None \<or> (\<exists>i. v = NInt i)" for t v
    using m
  proof (cases rule: make_cases)
    case (fold a b n)
    then obtain k where "n = Inr k" "t = RNum k" by (cases n) auto
    then show ?thesis using fold_operands_value [OF fold(1)] fold_op_value [OF fold(2) assms] v by simp
  next
    case (sum u)
    then show ?thesis using v fold_sum_value by auto
  next
    case node
    then show ?thesis using v by simp
  qed
qed

theorem constant_folding_sound_witness:
  "(\<exists>t. make_resolvable_function example_pf (ROp (RIpkg ''N'' (RNum (NInt 5))) Op_add (RNum (NInt 2))) Op_add (RNum (NInt 3)) = Inr t \<and>
     resolvable_to_int example_pf t = Inr (NInt 10)) \<and>
   make_resolvable_function example_pf (RNum (NInt 0)) Op_power (RNum (NInt (- 1))) = Inl ZeroDivisionError \<and>
   resolvable_to_int example_pf (ROp (RNum (NInt 0)) Op_power (RNum (NInt (- 1)))) = Inl ZeroDivisionError"
proof -
  let ?l = "ROp (RIpkg ''N'' (RNum (NInt 5))) Op_add (RNum (NInt 2))" and ?r = "RNum (NInt 3)"
  let ?t = "ROp (RIpkg ''N'' (RNum (NInt 5))) Op_add (RNum (NInt 5))"
  have 1: "make_resolvable_function example_pf ?l Op_add ?r = Inr ?t"
    by (simp add: make_resolvable_function_def fold_operands_def fold_sum_def)
  have 2: "resolvable_to_int example_pf (ROp ?l Op_add ?r) = Inr (NInt 10)" by (simp add: eval_op_def)
  have 3: "make_resolvable_function example_pf (RNum (NInt 0)) Op_power (RNum (NInt (- 1))) = Inl ZeroDivisionError"
    by (simp add: make_resolvable_function_def fold_operands_def fold_op_def num_pow_def)
  show ?thesis
    using constant_folding_sound [of Op_add example_pf ?l ?r] constant_folding_sound [of Op_power example_pf "RNum (NInt 0)" "RNum (NInt (- 1))"] 1 2 3
    by blast
qed

text \<open>
  the operator \<open>/\<close> of two ints means two things. The parser folds two literals with the floor
  division; the same expression with a name in it is kept and evaluated with the ceiling division.
  The two agree exactly when the division has no remainder.
\<close>
theorem int_division_folds_differently:
  assumes "j \<noteq> 0"
  shows "\<exists>a b. make_resolvable_function pf (RNum (NInt i)) Op_div (RNum (NInt j)) = Inr (RNum (NInt a)) \<and>
    resolvable_to_int pf (ROp (RIpkg nm (RNum (NInt i))) Op_div (RNum (NInt j))) = Inr (NInt b) \<and>
    (a = b \<longleftrightarrow> j dvd i)"
proof -
  have "i div j = - (- i div j) \<longleftrightarrow> j dvd i"
    using assms by (simp add: zdiv_zminus1_eq_if dvd_eq_mod_eq_0)
  then show ?thesis using assms
    by (simp add: make_resolvable_function_def fold_operands_def fold_op_def num_floordiv_int eval_op_def recipe_div_def
        recipe_ceil_div_def)
qed

theorem int_division_folds_differently_witness:
  "make_resolvable_function example_pf (RNum (NInt 7)) Op_div (RNum (NInt 2)) = Inr (RNum (NInt 3)) \<and>
   resolvable_to_int example_pf (ROp (RIpkg ''N'' (RNum (NInt 7))) Op_div (RNum (NInt 2))) = Inr (NInt 4)"
  using int_division_folds_differently [of 2 example_pf 7 "''N''"]
  by (simp add: make_resolvable_function_def fold_operands_def fold_op_def num_floordiv_int eval_op_def recipe_div_def
      recipe_ceil_div_def)

text \<open>
  An expression the parser accepts as a check evaluates to 0 or 1 when it has a value at all.
\<close>
theorem bool_expr_value:
  assumes "is_bool_expr t" and "resolvable_to_int pf t = Inr n"
  shows "n = NInt 0 \<or> n = NInt 1"
  using assms by (cases t rule: is_bool_expr.cases)
    (auto simp: rbind_Inr_iff eval_op_def num_bool_def)

theorem bool_expr_value_witness:
  "resolvable_to_int example_pf (ROp (RNum (NInt 3)) Op_le (RNum (NInt 4))) = Inr (NInt 1) \<and> (NInt 1 = NInt 0 \<or> NInt 1 = NInt 1)"
proof -
  have v: "resolvable_to_int example_pf (ROp (RNum (NInt 3)) Op_le (RNum (NInt 4))) = Inr (NInt 1)"
    by (simp add: eval_op_def num_bool_def)
  then show ?thesis using bool_expr_value [OF _ v] by simp
qed

text \<open>
  The functions the generated code calls agree with the evaluation of the recipe on ints:
  \<open>$cdiv\<close>, \<open>$round\<close>, \<open>$ceil\<close>, \<open>$floor\<close>, \<open>$float\<close> everywhere, \<open>$clog2\<close> from 1 on; and \<open>$cdiv\<close> by a
  positive number is the \<open>ceil_div\<close> of the runtime.
\<close>
theorem recipe_functions_agree:
  shows "eval_built_in pf Fn_cdiv [NInt n, NInt d] = fn_cdiv pf (NInt n) (NInt d) \<and>
    eval_built_in pf Fn_round [a] = fn_round pf a \<and>
    eval_built_in pf Fn_ceil [a] = Inr (fn_ceil a) \<and>
    eval_built_in pf Fn_floor [a] = Inr (fn_floor a) \<and>
    eval_built_in pf Fn_float [a] = Inr (fn_float pf a) \<and>
    eval_built_in pf Fn_clog2 [NInt (1 + int k)] = fn_clog2 pf (NInt (1 + int k)) \<and>
    rbind (ceil_div n (1 + int k)) (\<lambda>q. Inr (NInt q)) = fn_cdiv pf (NInt n) (NInt (1 + int k))"
proof -
  have arg: "arg_at [x] 0 = Inr x" "arg_at [x, y] 0 = Inr x" "arg_at [x, y] (Suc 0) = Inr y" for x y
    by (simp_all add: arg_at_def py_index_def)
  have "n div (- 1 - int k) = - n div (1 + int k)" using div_minus_right [of n "1 + int k"] by simp
  then have "(n + int k) div (1 + int k) = - (n div (- 1 - int k))" using ceil_div_neg_floor [of "1 + int k" n] by simp
  then show ?thesis
    by (auto simp: eval_built_in_def arg fn_cdiv_def recipe_ceil_div_def num_floordiv_int fn_round_def round_to_int_def
        fn_ceil_def fn_floor_def fn_float_def fn_clog2_def num_bit_length_def bit_length_def nat_bits.simps ceil_div_def
        div_minus_right rbind_assoc split: rnum.splits)
qed

end
