(* ===== verification/RecipeParse.thy ===== *)
theory RecipeParse
  imports RecipeTree
begin

text \<open>
  \<^verbatim>\<open>pip/skmap/src/skmap/code_generator_parse_resolvable.py\<close>, from the text of an expression to its
  tree: the tokens of \<^verbatim>\<open>_TOKEN_SPEC\<close>, the recursive descent parser \<^verbatim>\<open>_RecipeExprParser\<close> and
  \<^verbatim>\<open>parse_resolvable\<close>. A parser is a function from the tokens left to a tree and the tokens left
  after it. The recursion of the source goes through \<^verbatim>\<open>_parse_factor\<close>, so that one function has a
  depth; the number of tokens is depth enough.

  A recipe file is TOML, \<open>toml\<close> is the value its parser gives.
\<close>

datatype toml =
    TInt int
  | TBool bool
  | TFloat rat
  | TStr string
  | TList "toml list"
  | TDict "(string \<times> toml) list"

section \<open>Tokens\<close>

datatype tok_kind =
    Tok_NAME | Tok_FUNC | Tok_FLOAT | Tok_NUMBER | Tok_POWER | Tok_EQ | Tok_NE | Tok_LE | Tok_GE | Tok_LAND | Tok_LOR
  | Tok_PLUS | Tok_MINUS | Tok_MUL | Tok_DIV | Tok_MOD | Tok_LT | Tok_GT | Tok_LNOT | Tok_LPAREN | Tok_RPAREN | Tok_COMMA

type_synonym tok = "tok_kind \<times> string"

definition is_name_start :: "char \<Rightarrow> bool" where
  "is_name_start c = (let n = of_char c :: nat in (65 \<le> n \<and> n \<le> 90) \<or> (97 \<le> n \<and> n \<le> 122) \<or> n = 95)"

definition is_digit :: "char \<Rightarrow> bool" where
  "is_digit c = (let n = of_char c :: nat in 48 \<le> n \<and> n \<le> 57)"

definition is_name_char :: "char \<Rightarrow> bool" where
  "is_name_char c = (is_name_start c \<or> is_digit c)"

definition is_skip :: "char \<Rightarrow> bool" where
  "is_skip c = (let n = of_char c :: nat in n = 32 \<or> n = 9 \<or> n = 10 \<or> n = 13)"

text \<open>The operators and brackets, in the order in which the pattern tries them.\<close>

definition OP_TOKENS :: "tok list" where
  "OP_TOKENS =
     [(Tok_POWER, ''**''), (Tok_EQ, ''==''), (Tok_NE, ''!=''), (Tok_LE, ''<=''), (Tok_GE, ''>=''), (Tok_LAND, ''&&''),
      (Tok_LOR, ''||''), (Tok_PLUS, ''+''), (Tok_MINUS, ''-''), (Tok_MUL, ''*''), (Tok_DIV, ''/''), (Tok_MOD, ''%''),
      (Tok_LT, ''<''), (Tok_GT, ''>''), (Tok_LNOT, ''!''), (Tok_LPAREN, ''(''), (Tok_RPAREN, '')''), (Tok_COMMA, '','')]"

text \<open>The match of \<^verbatim>\<open>_TOKEN_RE\<close> at the start of the text: kind (\<open>None\<close> for a skip), lexeme, the rest.\<close>

definition next_token :: "string \<Rightarrow> (tok_kind option \<times> string \<times> string) option" where
  "next_token s =
     (case s of [] \<Rightarrow> None
      | c # cs \<Rightarrow>
          if is_name_start c then Some (Some Tok_NAME, takeWhile is_name_char s, dropWhile is_name_char s)
          else if c = CHR ''$'' then
            (case cs of [] \<Rightarrow> None
             | d # _ \<Rightarrow> if is_name_start d then Some (Some Tok_FUNC, c # takeWhile is_name_char cs, dropWhile is_name_char cs)
                      else None)
          else if is_digit c then
            (case dropWhile is_digit s of
               [] \<Rightarrow> Some (Some Tok_NUMBER, s, [])
             | d # r \<Rightarrow> if d = CHR ''.'' then
                   Some (Some Tok_FLOAT, takeWhile is_digit s @ d # takeWhile is_digit r, dropWhile is_digit r)
                 else Some (Some Tok_NUMBER, takeWhile is_digit s, d # r))
          else if c = CHR ''.'' then
            (case cs of [] \<Rightarrow> None
             | d # _ \<Rightarrow> if is_digit d then Some (Some Tok_FLOAT, c # takeWhile is_digit cs, dropWhile is_digit cs) else None)
          else if is_skip c then Some (None, takeWhile is_skip s, dropWhile is_skip s)
          else
            (case find (\<lambda>(k, p). take (length p) s = p) OP_TOKENS of
               None \<Rightarrow> None
             | Some (k, p) \<Rightarrow> Some (Some k, p, drop (length p) s)))"

lemma next_token_shorter:
  assumes "next_token s = Some (k, v, r)"
  shows "length r < length s"
proof (cases s)
  case Nil
  then show ?thesis using assms by (simp add: next_token_def)
next
  case (Cons c cs)
  have d: "length (dropWhile P xs) \<le> length xs" for P and xs :: string by (rule length_dropWhile_le)
  have le: "length (dropWhile P cs) < length s" for P using d [of P cs] Cons by simp
  have dc: "length (dropWhile P s) < length s" if "P c" for P using le [of P] Cons that by simp
  note nt = assms [unfolded next_token_def Cons list.case, folded Cons]
  consider "is_name_start c" | "\<not> is_name_start c" "c = CHR ''$''" | "\<not> is_name_start c" "c \<noteq> CHR ''$''" "is_digit c"
    | "\<not> is_name_start c" "c \<noteq> CHR ''$''" "\<not> is_digit c" "c = CHR ''.''"
    | "\<not> is_name_start c" "c \<noteq> CHR ''$''" "\<not> is_digit c" "c \<noteq> CHR ''.''" "is_skip c"
    | "\<not> is_name_start c" "c \<noteq> CHR ''$''" "\<not> is_digit c" "c \<noteq> CHR ''.''" "\<not> is_skip c" by blast
  then show ?thesis
  proof cases
    case 1
    then have "is_name_char c" by (simp add: is_name_char_def)
    then have "length (dropWhile is_name_char s) < length s" by (rule dc)
    then show ?thesis using nt 1 by auto
  next
    case 2
    have "r = dropWhile is_name_char cs" using nt 2 by (cases cs) (auto split: if_splits)
    then show ?thesis using le by simp
  next
    case 3
    show ?thesis
    proof (cases "dropWhile is_digit s")
      case Nil
      then have "r = []" using nt 3 by (simp del: dropWhile_eq_Nil_conv)
      then show ?thesis using Cons by simp
    next
      case (Cons x r')
      then have "length r' < length s" using dc [of is_digit] 3 by simp
      then have "length (x # r') < length s" using Cons dc [of is_digit] 3 by simp
      moreover have "r = dropWhile is_digit r' \<or> r = x # r'" using nt 3 Cons by (auto split: if_splits)
      ultimately show ?thesis using d [of is_digit r'] by auto
    qed
  next
    case 4
    have "r = dropWhile is_digit cs" using nt 4 by (cases cs) (auto split: if_splits)
    then show ?thesis using le by simp
  next
    case 5
    have "length (dropWhile is_skip s) < length s" using 5 by (intro dc)
    then show ?thesis using nt 5 by auto
  next
    case 6
    have "v \<noteq> []" if "find (\<lambda>(k, p). take (length p) s = p) OP_TOKENS = Some (k', v)" for k'
      using that find_Some_iff [of "\<lambda>(k, p). take (length p) s = p" OP_TOKENS]
      by (auto simp: OP_TOKENS_def split: if_splits)
    then have "v \<noteq> []" "r = drop (length v) s" using nt 6 by (auto split: option.splits prod.splits)
    then show ?thesis using Cons by (cases v) auto
  qed
qed

function tokenize :: "string \<Rightarrow> tok list res" where
  "tokenize s =
     (if s = [] then Inr []
      else case next_token s of
        None \<Rightarrow> Inl SyntaxError
      | Some (k, v, r) \<Rightarrow>
          rbind (tokenize r) (\<lambda>ts. Inr (case k of None \<Rightarrow> ts | Some k \<Rightarrow> (k, v) # ts)))"
  by pat_completeness auto
termination by (relation "measure length") (auto dest: next_token_shorter)

declare tokenize.simps [simp del]

section \<open>The parser\<close>

text \<open>The names an expression may use: the values of the recipe and the parameters of the option.\<close>

record expr_env =
  name_to_k :: "string \<Rightarrow> resolvable option"
  expr_params :: "string \<Rightarrow> v_type option"

type_synonym 'a parser = "tok list \<Rightarrow> ('a \<times> tok list) res"

definition binary_op :: "tok_kind \<Rightarrow> bin_op res" where
  "binary_op k =
     (case k of
        Tok_PLUS \<Rightarrow> Inr Op_add | Tok_MINUS \<Rightarrow> Inr Op_sub | Tok_MUL \<Rightarrow> Inr Op_mult | Tok_DIV \<Rightarrow> Inr Op_div
      | Tok_MOD \<Rightarrow> Inr Op_mod | Tok_EQ \<Rightarrow> Inr Op_eq | Tok_NE \<Rightarrow> Inr Op_ne | Tok_LT \<Rightarrow> Inr Op_lt | Tok_LE \<Rightarrow> Inr Op_le
      | Tok_GT \<Rightarrow> Inr Op_gt | Tok_GE \<Rightarrow> Inr Op_ge | Tok_LAND \<Rightarrow> Inr Op_land | Tok_LOR \<Rightarrow> Inr Op_lor
      | _ \<Rightarrow> Inl KeyError)"

definition peek :: "tok list \<Rightarrow> tok_kind option" where
  "peek ts = (case ts of [] \<Rightarrow> None | (k, v) # _ \<Rightarrow> Some k)"

definition expect :: "tok_kind \<Rightarrow> unit parser" where
  "expect k ts = (if peek ts = Some k then Inr ((), tl ts) else Inl SyntaxError)"

text \<open>The loop of \<^verbatim>\<open>_parse_binary\<close>, each turn of which eats a token.\<close>

fun binary_loop :: "py_impl \<Rightarrow> nat \<Rightarrow> tok_kind list \<Rightarrow> resolvable parser \<Rightarrow> resolvable \<Rightarrow> resolvable parser" where
  "binary_loop pf n kinds lower node [] = Inr (node, [])"
| "binary_loop pf n kinds lower node ((k, v) # ts) =
     (if k \<in> set kinds then
        case n of
          0 \<Rightarrow> Inl Diverges
        | Suc n \<Rightarrow>
            rbind (binary_op k) (\<lambda>op.
            rbind (lower ts) (\<lambda>(rhs, ts).
            rbind (make_resolvable_function pf node op rhs) (\<lambda>node.
              binary_loop pf n kinds lower node ts)))
      else Inr (node, (k, v) # ts))"

definition parse_binary :: "py_impl \<Rightarrow> tok_kind list \<Rightarrow> resolvable parser \<Rightarrow> resolvable parser" where
  "parse_binary pf kinds lower ts = rbind (lower ts) (\<lambda>(node, ts). binary_loop pf (length ts) kinds lower node ts)"

definition parse_term :: "py_impl \<Rightarrow> resolvable parser \<Rightarrow> resolvable parser" where
  "parse_term pf factor = parse_binary pf [Tok_MUL, Tok_DIV, Tok_MOD] factor"

definition parse_add :: "py_impl \<Rightarrow> resolvable parser \<Rightarrow> resolvable parser" where
  "parse_add pf factor = parse_binary pf [Tok_PLUS, Tok_MINUS] (parse_term pf factor)"

definition parse_compare :: "py_impl \<Rightarrow> resolvable parser \<Rightarrow> resolvable parser" where
  "parse_compare pf factor = parse_binary pf [Tok_LT, Tok_LE, Tok_GT, Tok_GE] (parse_add pf factor)"

definition parse_equality :: "py_impl \<Rightarrow> resolvable parser \<Rightarrow> resolvable parser" where
  "parse_equality pf factor = parse_binary pf [Tok_EQ, Tok_NE] (parse_compare pf factor)"

definition parse_logic_and :: "py_impl \<Rightarrow> resolvable parser \<Rightarrow> resolvable parser" where
  "parse_logic_and pf factor = parse_binary pf [Tok_LAND] (parse_equality pf factor)"

definition parse_expr :: "py_impl \<Rightarrow> resolvable parser \<Rightarrow> resolvable parser" where
  "parse_expr pf factor = parse_binary pf [Tok_LOR] (parse_logic_and pf factor)"

text \<open>\<^verbatim>\<open>int(tok.value)\<close> and \<^verbatim>\<open>float(tok.value)\<close> of the lexemes of the two kinds of numbers\<close>

definition int_of_digits :: "string \<Rightarrow> int res" where
  "int_of_digits s = (case read_digits 10 0 s of None \<Rightarrow> Inl ValueError | Some n \<Rightarrow> Inr (int n))"

definition float_of_text :: "py_impl \<Rightarrow> string \<Rightarrow> rat res" where
  "float_of_text pf s =
     (let ds = takeWhile is_digit s; fs = tl (dropWhile is_digit s)
      in rbind (int_of_digits (ds @ fs)) (\<lambda>i. Inr (pf_round pf (of_int i / 10 ^ length fs))))"

fun args_loop :: "nat \<Rightarrow> resolvable parser \<Rightarrow> resolvable list \<Rightarrow> resolvable list parser" where
  "args_loop n expr acc ts =
     (if peek ts = Some Tok_COMMA then
        case n of
          0 \<Rightarrow> Inl Diverges
        | Suc n \<Rightarrow> rbind (expr (tl ts)) (\<lambda>(p, ts). args_loop n expr (acc @ [p]) ts)
      else Inr (acc, ts))"

declare args_loop.simps [simp del]

definition parse_call :: "resolvable parser \<Rightarrow> string \<Rightarrow> resolvable parser" where
  "parse_call expr func_name ts =
     (case BUILTIN_FUNCTIONS func_name of
        None \<Rightarrow> Inl KeyError
      | Some func \<Rightarrow>
          rbind (expect Tok_LPAREN ts) (\<lambda>(_, ts).
          rbind (expr ts) (\<lambda>(p, ts).
          rbind (args_loop (length ts) expr [p] ts) (\<lambda>(params, ts).
          rbind (expect Tok_RPAREN ts) (\<lambda>(_, ts).
            if length params \<noteq> built_in_parameters func then Inl TypeError
            else Inr (RFun func params, ts))))))"

definition parse_name :: "expr_env \<Rightarrow> string \<Rightarrow> resolvable res" where
  "parse_name env nm =
     (case expr_params env nm of
        Some t \<Rightarrow> Inr (RParam nm t)
      | None \<Rightarrow> (case name_to_k env nm of None \<Rightarrow> Inl KeyError | Some k \<Rightarrow> Inr k))"

definition parse_atom :: "py_impl \<Rightarrow> expr_env \<Rightarrow> resolvable parser \<Rightarrow> resolvable parser" where
  "parse_atom pf env expr ts =
     (case ts of
        [] \<Rightarrow> Inl SyntaxError
      | (k, v) # ts \<Rightarrow>
          if k = Tok_NUMBER then rbind (int_of_digits v) (\<lambda>i. Inr (RNum (NInt i), ts))
          else if k = Tok_FLOAT then rbind (float_of_text pf v) (\<lambda>x. Inr (RNum (NFlt x), ts))
          else if k = Tok_NAME then rbind (parse_name env v) (\<lambda>t. Inr (t, ts))
          else if k = Tok_LPAREN then rbind (expr ts) (\<lambda>(node, ts). rbind (expect Tok_RPAREN ts) (\<lambda>(_, ts). Inr (node, ts)))
          else if k = Tok_FUNC then parse_call expr (tl v) ts
          else Inl SyntaxError)"

definition parse_power :: "py_impl \<Rightarrow> resolvable parser \<Rightarrow> resolvable parser \<Rightarrow> resolvable parser" where
  "parse_power pf atom factor ts =
     rbind (atom ts) (\<lambda>(base, ts).
       if peek ts = Some Tok_POWER
       then rbind (factor (tl ts)) (\<lambda>(e, ts). rbind (make_resolvable_function pf base Op_power e) (\<lambda>t. Inr (t, ts)))
       else Inr (base, ts))"

fun parse_factor :: "py_impl \<Rightarrow> expr_env \<Rightarrow> nat \<Rightarrow> resolvable parser" where
  "parse_factor pf env 0 ts = Inl Diverges"
| "parse_factor pf env (Suc d) ts =
     (if peek ts = Some Tok_MINUS then
        rbind (parse_factor pf env d (tl ts)) (\<lambda>(t, ts).
          rbind (make_resolvable_function pf (RNum (NInt 0)) Op_sub t) (\<lambda>t. Inr (t, ts)))
      else if peek ts = Some Tok_PLUS then parse_factor pf env d (tl ts)
      else if peek ts = Some Tok_LNOT then rbind (parse_factor pf env d (tl ts)) (\<lambda>(t, ts). Inr (RNot t, ts))
      else parse_power pf (parse_atom pf env (parse_expr pf (parse_factor pf env d))) (parse_factor pf env d) ts)"

declare parse_factor.simps [simp del]

definition parse_tokens :: "py_impl \<Rightarrow> expr_env \<Rightarrow> nat \<Rightarrow> tok list \<Rightarrow> resolvable res" where
  "parse_tokens pf env d ts =
     rbind (parse_expr pf (parse_factor pf env d) ts) (\<lambda>(node, ts).
       if peek ts \<noteq> None then Inl SyntaxError else Inr node)"

text \<open>A value that is neither an int nor a string has no length or cannot be matched.\<close>

definition parse_resolvable :: "py_impl \<Rightarrow> expr_env \<Rightarrow> toml \<Rightarrow> resolvable res" where
  "parse_resolvable pf env expr =
     (case expr of
        TInt i \<Rightarrow> Inr (RNum (NInt i))
      | TBool b \<Rightarrow> Inr (RBool b)
      | TStr s \<Rightarrow> rbind (tokenize s) (\<lambda>ts. parse_tokens pf env (Suc (length ts)) ts)
      | TFloat x \<Rightarrow> Inl TypeError
      | TList xs \<Rightarrow> Inl (if xs = [] then SyntaxError else TypeError)
      | TDict xs \<Rightarrow> Inl (if xs = [] then SyntaxError else TypeError))"

text \<open>\<^verbatim>\<open>strip_recipe_expr\<close>\<close>

definition strip_recipe_text :: "string \<Rightarrow> string" where
  "strip_recipe_text s =
     (let inner = py_strip s in
      if inner \<noteq> [] \<and> hd inner = CHR 0x7B \<and> last inner = CHR 0x7D then py_strip (py_slice inner 1 (- 1)) else inner)"

definition strip_recipe_expr :: "toml \<Rightarrow> toml" where
  "strip_recipe_expr e = (case e of TStr s \<Rightarrow> TStr (strip_recipe_text s) | _ \<Rightarrow> e)"

section \<open>Lemmas: every parser returns and eats tokens\<close>

text \<open>A parser that works on token lists shorter than \<open>n\<close>: it returns, and it eats a token.\<close>

definition parses :: "nat \<Rightarrow> 'a parser \<Rightarrow> bool" where
  "parses n p \<longleftrightarrow> (\<forall>ts. length ts < n \<longrightarrow> p ts \<noteq> Inl Diverges \<and> (\<forall>x r. p ts = Inr (x, r) \<longrightarrow> length r < length ts))"

lemma parsesD:
  "parses n p \<Longrightarrow> length ts < n \<Longrightarrow> p ts \<noteq> Inl Diverges"
  "parses n p \<Longrightarrow> length ts < n \<Longrightarrow> p ts = Inr (x, r) \<Longrightarrow> length r < length ts"
  by (auto simp: parses_def)

definition pow_returns :: "py_impl \<Rightarrow> bool" where
  "pow_returns pf \<longleftrightarrow> (\<forall>x y. pf_pow pf x y \<noteq> Inl Diverges)"

lemma make_returns: "pow_returns pf \<Longrightarrow> make_resolvable_function pf l op r \<noteq> Inl Diverges"
proof -
  assume pw: "pow_returns pf"
  have "fold_op pf op a b = Some x \<Longrightarrow> x \<noteq> Inl Diverges" for a b x
    using pw by (cases op) (auto simp: fold_op_def num_truediv_def num_floordiv_def num_pow_def pow_returns_def rbind_Inl_iff
        split: rnum.splits if_splits)
  then show ?thesis by (auto simp: make_resolvable_function_def rbind_Inl_iff split: option.splits)
qed

lemma binary_op_returns: "binary_op k \<noteq> Inl Diverges"
  by (simp add: binary_op_def split: tok_kind.splits)

lemma binary_loop_parses:
  assumes "pow_returns pf" and "parses n lower"
  shows "length ts \<le> m \<Longrightarrow> length ts < n \<Longrightarrow>
    binary_loop pf m kinds lower node ts \<noteq> Inl Diverges \<and>
    (\<forall>x r. binary_loop pf m kinds lower node ts = Inr (x, r) \<longrightarrow> length r \<le> length ts)"
proof (induction m arbitrary: node ts)
  case 0
  then show ?case by simp
next
  case (Suc m)
  show ?case
  proof (cases "\<exists>k v us. ts = (k, v) # us \<and> k \<in> set kinds")
    case True
    then obtain k v us where ts: "ts = (k, v) # us" "k \<in> set kinds" by blast
    then have us: "length us \<le> m" "length us < n" using Suc.prems by auto
    have IH: "binary_loop pf m kinds lower node' us' \<noteq> Inl Diverges \<and>
        (\<forall>x r. binary_loop pf m kinds lower node' us' = Inr (x, r) \<longrightarrow> length r \<le> length us)"
      if "lower us = Inr (rhs, us')" for rhs us' node'
    proof -
      have "length us' < length us" using parsesD(2) [OF assms(2) us(2) that] .
      then have "length us' \<le> m" "length us' < n" "length us' \<le> length us" using us by auto
      then show ?thesis using Suc.IH [of us' node'] by fastforce
    qed
    then show ?thesis
      using ts us make_returns [OF assms(1)] binary_op_returns parsesD(1) [OF assms(2) us(2)]
      by (auto simp: rbind_Inl_iff rbind_Inr_iff) (meson le_SucI)+
  next
    case False
    then show ?thesis by (cases ts) auto
  qed
qed

lemma parses_binary:
  assumes "pow_returns pf" and "parses n lower"
  shows "parses n (parse_binary pf kinds lower)"
  unfolding parses_def
proof (intro allI impI)
  fix ts :: "tok list" assume ts: "length ts < n"
  have "binary_loop pf (length us) kinds lower node us \<noteq> Inl Diverges \<and>
      (\<forall>x r. binary_loop pf (length us) kinds lower node us = Inr (x, r) \<longrightarrow> length r < length ts)"
    if "lower ts = Inr (node, us)" for node us
    using binary_loop_parses [OF assms, of us "length us" kinds node] parsesD(2) [OF assms(2) ts that] ts by fastforce
  then show "parse_binary pf kinds lower ts \<noteq> Inl Diverges \<and>
      (\<forall>x r. parse_binary pf kinds lower ts = Inr (x, r) \<longrightarrow> length r < length ts)"
    using parsesD(1) [OF assms(2) ts] by (auto simp: parse_binary_def rbind_Inl_iff rbind_Inr_iff)
qed

lemma parses_expr: "pow_returns pf \<Longrightarrow> parses n factor \<Longrightarrow> parses n (parse_expr pf factor)"
  unfolding parse_expr_def parse_logic_and_def parse_equality_def parse_compare_def parse_add_def parse_term_def
  by (intro parses_binary)

lemma expect_parses:
  "expect k ts \<noteq> Inl Diverges"
  "expect k ts = Inr (u, r) \<Longrightarrow> length r < length ts"
  by (auto simp: expect_def peek_def split: list.splits if_splits)

lemma args_loop_parses:
  assumes "parses n expr"
  shows "length ts \<le> m \<Longrightarrow> length ts < n \<Longrightarrow>
    args_loop m expr acc ts \<noteq> Inl Diverges \<and> (\<forall>x r. args_loop m expr acc ts = Inr (x, r) \<longrightarrow> length r \<le> length ts)"
proof (induction m arbitrary: acc ts)
  case 0
  then show ?case by (simp add: args_loop.simps [of 0] peek_def)
next
  case (Suc m)
  show ?case
  proof (cases "peek ts = Some Tok_COMMA")
    case True
    then have tl: "length (tl ts) \<le> m" "length (tl ts) < n" using Suc.prems by (auto simp: peek_def split: list.splits)
    have "args_loop m expr acc' us \<noteq> Inl Diverges \<and> (\<forall>x r. args_loop m expr acc' us = Inr (x, r) \<longrightarrow> length r \<le> length ts)"
      if "expr (tl ts) = Inr (p, us)" for p us acc'
    proof -
      have "length us < length (tl ts)" using parsesD(2) [OF assms tl(2) that] .
      then have "length us \<le> m" "length us < n" "length us \<le> length ts" using tl by auto
      then show ?thesis using Suc.IH [of us acc'] by fastforce
    qed
    then show ?thesis using True parsesD(1) [OF assms tl(2)]
      by (auto simp: args_loop.simps [of "Suc m"] rbind_Inl_iff rbind_Inr_iff)
  next
    case False
    then show ?thesis by (simp add: args_loop.simps [of "Suc m"])
  qed
qed

lemma parse_call_parses:
  assumes "parses n expr" and "length ts < n"
  shows "parse_call expr nm ts \<noteq> Inl Diverges \<and> (\<forall>x r. parse_call expr nm ts = Inr (x, r) \<longrightarrow> length r < length ts)"
proof -
  have 1: "length us < n \<and> length us < length ts" if "expect Tok_LPAREN ts = Inr (u, us)" for u us
    using expect_parses(2) [OF that] assms(2) by simp
  have 2: "length vs < length us" if "expr us = Inr (p, vs)" "length us < n" for us p vs
    using parsesD(2) [OF assms(1) that(2,1)] .
  have 3: "args_loop (length vs) expr acc vs \<noteq> Inl Diverges"
      "args_loop (length vs) expr acc vs = Inr (ps, ws) \<Longrightarrow> length ws \<le> length vs" if "length vs < n" for acc vs ps ws
    using args_loop_parses [OF assms(1) le_refl that] by blast+
  have "length r < length ts"
    if a: "expect Tok_LPAREN ts = Inr (u, us)" "expr us = Inr (p, vs)" "args_loop (length vs) expr [p] vs = Inr (ps, ws)"
      "expect Tok_RPAREN ws = Inr (w, r)" for u us p vs ps ws w r
    using 1 [OF a(1)] 2 [OF a(2)] 3(2) [OF _ a(3)] expect_parses(2) [OF a(4)] by force
  moreover have "expr us \<noteq> Inl Diverges" "expr us = Inr (p, vs) \<Longrightarrow> args_loop (length vs) expr [p] vs \<noteq> Inl Diverges"
    if "expect Tok_LPAREN ts = Inr (u, us)" for u us p vs
    using 1 [OF that] 2 [of us p vs] 3(1) [of vs] parsesD(1) [OF assms(1), of us] by auto
  ultimately show ?thesis using expect_parses(1)
    by (auto simp: parse_call_def rbind_Inl_iff rbind_Inr_iff split: option.splits if_splits)
qed

lemma number_text_returns:
  "int_of_digits v \<noteq> Inl Diverges"
  "float_of_text pf v \<noteq> Inl Diverges"
  by (auto simp: int_of_digits_def float_of_text_def Let_def rbind_Inl_iff split: option.splits)

lemma parses_atom:
  assumes "parses n expr"
  shows "parses (Suc n) (parse_atom pf env expr)"
  unfolding parses_def
proof (intro allI impI)
  fix ts :: "tok list" assume ts: "length ts < Suc n"
  show "parse_atom pf env expr ts \<noteq> Inl Diverges \<and> (\<forall>x r. parse_atom pf env expr ts = Inr (x, r) \<longrightarrow> length r < length ts)"
  proof (cases ts)
    case (Cons t us)
    then have us: "length us < n" using ts by simp
    have nm: "parse_name env v \<noteq> Inl Diverges" for v by (simp add: parse_name_def split: option.splits)
    have ex: "length r < length ts" if "expr us = Inr (x, vs)" "expect Tok_RPAREN vs = Inr (u, r)" for x vs u r
      using parsesD(2) [OF assms us that(1)] expect_parses(2) [OF that(2)] Cons by simp
    have call: "parse_call expr f us \<noteq> Inl Diverges" "parse_call expr f us = Inr (x, r) \<Longrightarrow> length r < length ts" for f x r
      using parse_call_parses [OF assms us, of f] Cons by auto
    show ?thesis
      using nm ex call number_text_returns expect_parses(1) parsesD(1) [OF assms us] Cons
      by (cases t) (auto simp: parse_atom_def rbind_Inl_iff rbind_Inr_iff)
  qed (simp add: parse_atom_def)
qed

lemma parses_power:
  assumes "pow_returns pf" and "parses (Suc n) atom" and "parses n factor"
  shows "parses (Suc n) (parse_power pf atom factor)"
  unfolding parses_def
proof (intro allI impI)
  fix ts :: "tok list" assume ts: "length ts < Suc n"
  have 1: "length us < length ts" if "atom ts = Inr (b, us)" for b us using parsesD(2) [OF assms(2) ts that] .
  then have 2: "length (tl us) < n" if "atom ts = Inr (b, us)" "peek us = Some k" for b us k
    using that ts by (force simp: peek_def split: list.splits)
  have 3: "length r < length ts" if "atom ts = Inr (b, us)" "peek us = Some k" "factor (tl us) = Inr (e, r)" for b us k e r
    using 1 [OF that(1)] parsesD(2) [OF assms(3) 2 [OF that(1,2)] that(3)] by simp
  show "parse_power pf atom factor ts \<noteq> Inl Diverges \<and>
      (\<forall>x r. parse_power pf atom factor ts = Inr (x, r) \<longrightarrow> length r < length ts)"
    using parsesD(1) [OF assms(2) ts] make_returns [OF assms(1)] 1 parsesD(1) [OF assms(3) 2]
    by (auto simp: parse_power_def rbind_Inl_iff rbind_Inr_iff split: if_splits intro: 3)
qed

lemma parses_factor: "pow_returns pf \<Longrightarrow> parses d (parse_factor pf env d)"
proof (induction d)
  case (Suc d)
  have pw: "parses (Suc d) (parse_power pf (parse_atom pf env (parse_expr pf (parse_factor pf env d))) (parse_factor pf env d))"
    using Suc by (intro parses_power parses_atom parses_expr)
  show ?case
    unfolding parses_def
  proof (intro allI impI)
    fix ts :: "tok list" assume ts: "length ts < Suc d"
    have tl: "length (tl ts) < d" if "peek ts = Some k" for k
      using that ts by (auto simp: peek_def split: list.splits)
    note f = parsesD [OF Suc.IH [OF Suc.prems]]
    have lt: "length r < length ts" if "peek ts = Some k" "parse_factor pf env d (tl ts) = Inr (x, r)" for k x r
      using f(2) [OF tl [OF that(1)] that(2)] by simp
    show "parse_factor pf env (Suc d) ts \<noteq> Inl Diverges \<and>
        (\<forall>x r. parse_factor pf env (Suc d) ts = Inr (x, r) \<longrightarrow> length r < length ts)"
      using f(1) [OF tl] lt parsesD [OF pw ts] make_returns [OF Suc.prems]
      by (auto simp: parse_factor.simps rbind_Inl_iff rbind_Inr_iff)
  qed
qed (simp add: parses_def)

lemma tokenize_returns: "tokenize s \<noteq> Inl Diverges"
proof (induction s rule: tokenize.induct)
  case (1 s)
  then show ?case by (subst tokenize.simps) (auto simp: rbind_Inl_iff split: option.splits prod.splits)
qed

lemma parse_tokens_returns: "pow_returns pf \<Longrightarrow> length ts < d \<Longrightarrow> parse_tokens pf env d ts \<noteq> Inl Diverges"
  using parsesD(1) [OF parses_expr [OF _ parses_factor]] by (auto simp: parse_tokens_def rbind_Inl_iff split: if_splits)

text \<open>
  C31: parsing returns for every text, with a tree or an exception of the source: no loop of the
  tokenizer and the parser runs on, and the number of tokens is recursion depth enough. The power
  of two floats, which is not the source's, is taken to return.
\<close>
theorem parse_resolvable_returns:
  assumes "\<And>x y. pf_pow pf x y \<noteq> Inl Diverges"
  shows "parse_resolvable pf env e \<noteq> Inl Diverges"
proof -
  have "pow_returns pf" using assms by (simp add: pow_returns_def)
  then show ?thesis using tokenize_returns parse_tokens_returns
    by (auto simp: parse_resolvable_def rbind_Inl_iff split: toml.splits)
qed

definition example_env :: expr_env where
  "example_env = \<lparr>name_to_k = map_of [(''N'', RIpkg ''N'' (RNum (NInt 7))), (''DEPTH'', RK ''DEPTH'')],
                  expr_params = map_of [(''v'', VType_s)]\<rparr>"

theorem parse_resolvable_returns_witness:
  "parse_resolvable example_pf example_env (TStr ''((v+'') \<noteq> Inl Diverges"
  by (rule parse_resolvable_returns) (simp add: example_pf_def)

section \<open>Lemmas: the tokens of a printed tree\<close>

fun op_kind :: "bin_op \<Rightarrow> tok_kind" where
  "op_kind Op_add = Tok_PLUS"
| "op_kind Op_sub = Tok_MINUS"
| "op_kind Op_mult = Tok_MUL"
| "op_kind Op_div = Tok_DIV"
| "op_kind Op_power = Tok_POWER"
| "op_kind Op_mod = Tok_MOD"
| "op_kind Op_eq = Tok_EQ"
| "op_kind Op_ne = Tok_NE"
| "op_kind Op_lt = Tok_LT"
| "op_kind Op_le = Tok_LE"
| "op_kind Op_gt = Tok_GT"
| "op_kind Op_ge = Tok_GE"
| "op_kind Op_land = Tok_LAND"
| "op_kind Op_lor = Tok_LOR"

definition op_tok :: "bin_op \<Rightarrow> tok" where
  "op_tok op = (op_kind op, bin_op_str op)"

fun num_toks :: "rnum \<Rightarrow> tok list" where
  "num_toks (NInt i) = (if i < 0 then [(Tok_MINUS, ''-'')] else []) @ [(Tok_NUMBER, digits_str 10 False i)]"
| "num_toks _ = []"

definition comma_sep :: "tok list list \<Rightarrow> tok list" where
  "comma_sep xs = (case xs of [] \<Rightarrow> [] | x # xs \<Rightarrow> x @ concat (map (\<lambda>u. (Tok_COMMA, '','') # u) xs))"

fun toks :: "resolvable \<Rightarrow> tok list" where
  "toks (RNum n) = num_toks n"
| "toks (RParam nm t) = [(Tok_NAME, nm)]"
| "toks (RK nm) = [(Tok_NAME, nm)]"
| "toks (ROp l op r) = (Tok_LPAREN, ''('') # toks l @ op_tok op # toks r @ [(Tok_RPAREN, '')'')]"
| "toks (RNot l) = (Tok_LPAREN, ''('') # (Tok_LNOT, ''!'') # toks l @ [(Tok_RPAREN, '')'')]"
| "toks (RFun f ps) =
     (Tok_FUNC, ''$'' @ built_in_name f) # (Tok_LPAREN, ''('') # comma_sep (map (\<lambda>p. toks p) ps) @ [(Tok_RPAREN, '')'')]"
| "toks _ = []"

definition is_name :: "string \<Rightarrow> bool" where
  "is_name nm \<longleftrightarrow> nm \<noteq> [] \<and> is_name_start (hd nm) \<and> list_all is_name_char nm"

fun is_neg :: "resolvable \<Rightarrow> bool" where
  "is_neg (RNum (NInt i)) \<longleftrightarrow> i < 0"
| "is_neg _ \<longleftrightarrow> False"

text \<open>
  The trees the parser can read back: no float, no value resolved away, names of the environment,
  nodes that do not fold, and no power of a negative number.
\<close>

fun printable :: "py_impl \<Rightarrow> expr_env \<Rightarrow> resolvable \<Rightarrow> bool" where
  "printable pf env (RNum (NInt i)) \<longleftrightarrow> True"
| "printable pf env (RParam nm t) \<longleftrightarrow> is_name nm \<and> expr_params env nm = Some t"
| "printable pf env (RK nm) \<longleftrightarrow> is_name nm \<and> expr_params env nm = None \<and> name_to_k env nm = Some (RK nm)"
| "printable pf env (ROp l op r) \<longleftrightarrow> printable pf env l \<and> printable pf env r \<and>
     make_resolvable_function pf l op r = Inr (ROp l op r) \<and> (op = Op_power \<longrightarrow> \<not> is_neg l)"
| "printable pf env (RNot l) \<longleftrightarrow> printable pf env l"
| "printable pf env (RFun f ps) \<longleftrightarrow> length ps = built_in_parameters f \<and> list_all (\<lambda>p. printable pf env p) ps"
| "printable pf env _ \<longleftrightarrow> False"

definition emit :: "tok list \<Rightarrow> tok list res \<Rightarrow> tok list res" where
  "emit ts r = rbind r (\<lambda>us. Inr (ts @ us))"

lemma emit_simps [simp]:
  "emit ts (emit us r) = emit (ts @ us) r"
  "emit ts (Inr us) = Inr (ts @ us)"
  by (cases r) (simp_all add: emit_def)

definition boundary :: "string \<Rightarrow> bool" where
  "boundary s \<longleftrightarrow> s = [] \<or> hd s \<in> {CHR '' '', CHR '')'', CHR '',''}"

lemma boundary_simps [simp]:
  "boundary []" "boundary (CHR '' '' # s)" "boundary (CHR '')'' # s)" "boundary (CHR '','' # s)"
  by (simp_all add: boundary_def)

lemma take_drop_while_boundary:
  assumes "list_all P xs" and "s = [] \<or> \<not> P (hd s)"
  shows "takeWhile P (xs @ s) = xs" and "dropWhile P (xs @ s) = s"
  using assms by (induction xs) (cases s; simp)+

lemma boundary_chars:
  "boundary s \<Longrightarrow> s = [] \<or> \<not> is_name_char (hd s)"
  "boundary s \<Longrightarrow> s = [] \<or> \<not> is_digit (hd s) \<and> hd s \<noteq> CHR ''.''"
  by (auto simp: boundary_def is_name_char_def is_name_start_def is_digit_def)

lemma tokenize_Some:
  "next_token s = Some (Some k, v, r) \<Longrightarrow> tokenize s = emit [(k, v)] (tokenize r)"
  by (cases "s = []") (simp_all add: next_token_def emit_def tokenize.simps [of s])

lemma tokenize_name:
  assumes "is_name nm" and "s = [] \<or> \<not> is_name_char (hd s)"
  shows "tokenize (nm @ s) = emit [(Tok_NAME, nm)] (tokenize s)"
proof (rule tokenize_Some)
  obtain c cs where nm: "nm = c # cs" "is_name_start c" using assms(1) by (cases nm) (auto simp: is_name_def)
  then show "next_token (nm @ s) = Some (Some Tok_NAME, nm, s)"
    using take_drop_while_boundary [where P = is_name_char, OF _ assms(2), of nm] assms(1) by (simp add: next_token_def is_name_def)
qed

lemma tokenize_func:
  assumes "is_name nm" and "s = [] \<or> \<not> is_name_char (hd s)"
  shows "tokenize (CHR ''$'' # nm @ s) = emit [(Tok_FUNC, CHR ''$'' # nm)] (tokenize s)"
proof (rule tokenize_Some)
  obtain c cs where nm: "nm = c # cs" "is_name_start c" using assms(1) by (cases nm) (auto simp: is_name_def)
  have "\<not> is_name_start CHR ''$''" by (simp add: is_name_start_def)
  then show "next_token (CHR ''$'' # nm @ s) = Some (Some Tok_FUNC, CHR ''$'' # nm, s)"
    using take_drop_while_boundary [where P = is_name_char, OF _ assms(2), of nm] assms(1) nm by (simp add: next_token_def is_name_def)
qed

lemma tokenize_number:
  assumes "ds \<noteq> []" and "list_all is_digit ds" and "boundary s"
  shows "tokenize (ds @ s) = emit [(Tok_NUMBER, ds)] (tokenize s)"
proof (rule tokenize_Some)
  obtain c cs where ds: "ds = c # cs" "is_digit c" using assms(1,2) by (cases ds) auto
  then have c: "\<not> is_name_start c" "c \<noteq> CHR ''$''" by (auto simp: is_digit_def is_name_start_def Let_def)
  have s: "s = [] \<or> \<not> is_digit (hd s)" "s = [] \<or> hd s \<noteq> CHR ''.''" using boundary_chars(2) [OF assms(3)] by auto
  have "takeWhile is_digit (ds @ s) = ds" "dropWhile is_digit (ds @ s) = s"
    using take_drop_while_boundary [where P = is_digit, OF assms(2) s(1)] by auto
  then show "next_token (ds @ s) = Some (Some Tok_NUMBER, ds, s)"
    using ds c s(2) by (cases s) (auto simp: next_token_def simp del: dropWhile_eq_Nil_conv)
qed

lemma op_char_classes:
  "\<not> is_name_start c \<and> c \<noteq> CHR ''$'' \<and> \<not> is_digit c \<and> c \<noteq> CHR ''.'' \<and> \<not> is_skip c"
  if "c \<in> set ''+-*/%<>=!&|(),''"
  using that by (auto simp: is_name_start_def is_digit_def is_skip_def)

lemma tokenize_opI:
  assumes "c \<in> set ''+-*/%<>=!&|(),''" and "find (\<lambda>(k, p). take (length p) (c # s) = p) OP_TOKENS = Some (k, p)"
    and "r = drop (length p) (c # s)"
  shows "tokenize (c # s) = emit [(k, p)] (tokenize r)"
  using op_char_classes [OF assms(1)] assms(2,3) by (intro tokenize_Some) (simp add: next_token_def)

lemma tokenize_brackets:
  "tokenize (CHR ''('' # s) = emit [(Tok_LPAREN, ''('')] (tokenize s)"
  "tokenize (CHR '')'' # s) = emit [(Tok_RPAREN, '')'')] (tokenize s)"
  "tokenize (CHR '','' # s) = emit [(Tok_COMMA, '','')] (tokenize s)"
  "tokenize (CHR ''-'' # s) = emit [(Tok_MINUS, ''-'')] (tokenize s)"
  by (rule tokenize_opI; simp add: OP_TOKENS_def)+

lemma tokenize_not:
  "s \<noteq> [] \<Longrightarrow> hd s \<noteq> CHR ''='' \<Longrightarrow> tokenize (CHR ''!'' # s) = emit [(Tok_LNOT, ''!'')] (tokenize s)"
  by (rule tokenize_opI; cases s; simp add: OP_TOKENS_def)

lemma tokenize_skip: "tokenize (CHR '' '' # s) = tokenize s"
proof -
  have sk: "tokenize (c # s) = tokenize (dropWhile is_skip (c # s))" if "is_skip c" for c s
  proof -
    have "\<not> is_name_start c" "c \<noteq> CHR ''$''" "\<not> is_digit c" "c \<noteq> CHR ''.''"
      using that by (auto simp: is_name_start_def is_digit_def is_skip_def Let_def)
    then have "next_token (c # s) = Some (None, takeWhile is_skip (c # s), dropWhile is_skip (c # s))"
      using that by (simp add: next_token_def)
    then show ?thesis using that
      by (cases "tokenize (dropWhile is_skip s)") (simp_all add: tokenize.simps [of "c # s"])
  qed
  have sp: "is_skip CHR '' ''" by (simp add: is_skip_def)
  have "tokenize (dropWhile is_skip s) = tokenize s"
  proof (cases "s \<noteq> [] \<and> is_skip (hd s)")
    case True
    then show ?thesis using sk [of "hd s" "tl s"] by simp
  next
    case False
    then show ?thesis by (cases s) simp_all
  qed
  moreover have "tokenize (CHR '' '' # s) = tokenize (dropWhile is_skip s)" using sk [OF sp, of s] sp by simp
  ultimately show ?thesis by simp
qed

lemma tokenize_op: "tokenize (bin_op_str op @ CHR '' '' # s) = emit [op_tok op] (tokenize s)"
proof -
  have "tokenize (bin_op_str op @ CHR '' '' # s) = emit [op_tok op] (tokenize (CHR '' '' # s))"
    by (cases op; simp add: op_tok_def; rule tokenize_opI; simp add: OP_TOKENS_def)
  then show ?thesis by (simp add: tokenize_skip)
qed

lemma digits_str_digits: "digits_str 10 u v \<noteq> []" "list_all is_digit (digits_str 10 u v)"
proof -
  have "is_digit (digit_char u d)" if "d < 10" for d using that by (simp add: digit_char_def is_digit_def)
  then show "list_all is_digit (digits_str 10 u v)"
    using nat_digits_less [of 10 "nat \<bar>v\<bar>"] by (simp add: digits_str_def list_all_iff)
qed (simp add: digits_str_def)

lemma built_in_is_name: "is_name (built_in_name f)"
  by (cases f) (simp_all add: is_name_def is_name_char_def is_name_start_def is_digit_def)

lemma tokenize_arg_list:
  assumes sp: "\<And>u. tokenize (sp @ u) = emit [(Tok_COMMA, '','')] (tokenize u)" "\<And>u. boundary (sp @ u)"
    and "\<And>p s. p \<in> set ps \<Longrightarrow> boundary s \<Longrightarrow> tokenize (f p @ s) = emit (g p) (tokenize s)" and "boundary s"
  shows "tokenize (concat (map ((@) sp) (map f ps)) @ s) = emit (concat (map (\<lambda>u. (Tok_COMMA, '','') # u) (map g ps))) (tokenize s)"
  using assms(3)
proof (induction ps)
  case Nil
  then show ?case by (cases "tokenize s") (simp_all add: emit_def)
next
  case (Cons p ps)
  let ?rest = "concat (map ((@) sp) (map f ps)) @ s"
  have "boundary ?rest" using assms(4) sp(2) by (cases ps) simp_all
  then have "tokenize (f p @ ?rest) = emit (g p) (tokenize ?rest)" using Cons.prems by simp
  moreover have "tokenize ?rest = emit (concat (map (\<lambda>u. (Tok_COMMA, '','') # u) (map g ps))) (tokenize s)" using Cons by simp
  ultimately show ?case by (simp add: sp(1))
qed

lemma tokenize_args:
  assumes sp: "\<And>u. tokenize (sp @ u) = emit [(Tok_COMMA, '','')] (tokenize u)" "\<And>u. boundary (sp @ u)"
    and "\<And>p s. p \<in> set ps \<Longrightarrow> boundary s \<Longrightarrow> tokenize (f p @ s) = emit (g p) (tokenize s)" and "boundary s"
  shows "tokenize (str_join sp (map f ps) @ s) = emit (comma_sep (map g ps)) (tokenize s)"
proof (cases ps)
  case Nil
  then show ?thesis by (cases "tokenize s") (simp_all add: emit_def str_join_def comma_sep_def)
next
  case (Cons p qs)
  have "boundary (concat (map ((@) sp) (map f qs)) @ s)" using assms(4) sp(2) by (cases qs) simp_all
  then show ?thesis using tokenize_arg_list [OF sp, of qs f g s] assms(3,4) Cons by (simp add: str_join_def comma_sep_def)
qed

lemma print_nonempty:
  "printable pf env t \<Longrightarrow> resolvable_print_source pf t @ s \<noteq> [] \<and> hd (resolvable_print_source pf t @ s) \<noteq> CHR ''=''"
proof (cases t)
  case (RNum n)
  assume "printable pf env t"
  then obtain i where n: "n = NInt i" using RNum by (cases n) auto
  obtain c cs where d: "digits_str 10 False i = c # cs" "is_digit c"
    using digits_str_digits [of False i] by (cases "digits_str 10 False i") auto
  then show ?thesis using RNum n by (auto simp: num_str_def py_str_int_def is_digit_def)
next
  case (RParam nm ty)
  assume "printable pf env t"
  then show ?thesis using RParam by (cases nm) (auto simp: is_name_def is_name_start_def)
next
  case (RK nm)
  assume "printable pf env t"
  then show ?thesis using RK by (cases nm) (auto simp: is_name_def is_name_start_def)
qed auto

lemma tokenize_print:
  "printable pf env t \<Longrightarrow> boundary s \<Longrightarrow> tokenize (resolvable_print_source pf t @ s) = emit (toks t) (tokenize s)"
proof (induction t arbitrary: s rule: resolvable.induct)
  case (RNum n)
  then obtain i where "n = NInt i" by (cases n) auto
  then show ?case using RNum tokenize_number [OF digits_str_digits, of s False i]
    by (simp add: num_str_def py_str_int_def tokenize_brackets)
next
  case (RK nm)
  then show ?case using tokenize_name [OF _ boundary_chars(1)] by simp
next
  case (RParam nm ty)
  then show ?case using tokenize_name [OF _ boundary_chars(1)] by simp
next
  case (ROp l op r)
  have "tokenize (bin_op_str op @ CHR '' '' # u) = emit [op_tok op] (tokenize u)" for u by (rule tokenize_op)
  then show ?case using ROp by (simp add: tokenize_brackets tokenize_skip)
next
  case (RNot l)
  then show ?case using tokenize_not print_nonempty [of pf env l "CHR '')'' # s"] by (simp add: tokenize_brackets)
next
  case (RFun f ps)
  have "tokenize (CHR ''$'' # built_in_name f @ u) = emit [(Tok_FUNC, CHR ''$'' # built_in_name f)] (tokenize u)"
    if "u = CHR ''('' # v" for u v
    using that by (intro tokenize_func built_in_is_name) (simp add: is_name_char_def is_name_start_def is_digit_def)
  moreover have "tokenize (str_join '', '' (map (resolvable_print_source pf) ps) @ CHR '')'' # s) =
      emit (comma_sep (map toks ps)) (tokenize (CHR '')'' # s))"
    using RFun by (intro tokenize_args) (auto simp: list_all_iff tokenize_brackets tokenize_skip)
  ultimately show ?case by (simp add: tokenize_brackets)
qed auto

section \<open>Lemmas: the tree of the tokens of a printed tree\<close>

lemma peek_simps [simp]:
  "peek [] = None"
  "peek ((k, v) # ts) = Some k"
  by (simp_all add: peek_def)

lemma binary_skip:
  "lower us = Inr (x, rest) \<Longrightarrow> peek rest \<notin> Some ` set kinds \<Longrightarrow> parse_binary pf kinds lower us = Inr (x, rest)"
  by (cases rest) (auto simp: parse_binary_def)

lemma binary_hit:
  assumes "lower us = Inr (l, (k, v) # vs)" and "k \<in> set kinds" and "binary_op k = Inr op" and "lower vs = Inr (r, rest)"
    and "make_resolvable_function pf l op r = Inr t" and "peek rest \<notin> Some ` set kinds"
  shows "parse_binary pf kinds lower us = Inr (t, rest)"
  using assms by (cases rest) (auto simp: parse_binary_def)

text \<open>The levels of the binary operators, from the one that binds strongest.\<close>

definition LEVELS :: "tok_kind list list" where
  "LEVELS = [[Tok_MUL, Tok_DIV, Tok_MOD], [Tok_PLUS, Tok_MINUS], [Tok_LT, Tok_LE, Tok_GT, Tok_GE], [Tok_EQ, Tok_NE],
             [Tok_LAND], [Tok_LOR]]"

definition climb :: "py_impl \<Rightarrow> tok_kind list list \<Rightarrow> resolvable parser \<Rightarrow> resolvable parser" where
  "climb pf ls p = foldl (\<lambda>p kinds. parse_binary pf kinds p) p ls"

lemma climb_simps [simp]:
  "climb pf [] p = p"
  "climb pf (kinds # ls) p = climb pf ls (parse_binary pf kinds p)"
  by (simp_all add: climb_def)

lemma climb_append [simp]: "climb pf (ls @ ms) p = climb pf ms (climb pf ls p)"
  by (simp add: climb_def)

lemma parse_expr_climb: "parse_expr pf p = climb pf LEVELS p"
  by (simp add: parse_expr_def parse_logic_and_def parse_equality_def parse_compare_def parse_add_def parse_term_def LEVELS_def)

lemma climb_skip:
  "p us = Inr (x, rest) \<Longrightarrow> \<forall>kinds \<in> set ls. peek rest \<notin> Some ` set kinds \<Longrightarrow> climb pf ls p us = Inr (x, rest)"
  by (induction ls arbitrary: p) (simp_all add: binary_skip)

text \<open>After an operand or an expression: no operator of any level.\<close>

definition stops :: "tok list \<Rightarrow> bool" where
  "stops rest \<longleftrightarrow> (\<forall>kinds \<in> set LEVELS. peek rest \<notin> Some ` set kinds) \<and> peek rest \<noteq> Some Tok_POWER"

lemma climb_op:
  assumes op: "op \<noteq> Op_power"
    and l: "p us = Inr (l, op_tok op # vs)" and r: "p vs = Inr (r, rest)"
    and m: "make_resolvable_function pf l op r = Inr t" and "stops rest"
  shows "parse_expr pf p us = Inr (t, rest)"
proof -
  obtain ls kinds ms where L: "LEVELS = ls @ kinds # ms" "op_kind op \<in> set kinds" "\<forall>ks \<in> set ls. op_kind op \<notin> set ks"
  proof (cases op)
    case Op_add
    then show ?thesis using that [of "take 1 LEVELS" "LEVELS ! 1" "drop 2 LEVELS"] by (simp add: LEVELS_def numeral_eq_Suc)
  next
    case Op_sub
    then show ?thesis using that [of "take 1 LEVELS" "LEVELS ! 1" "drop 2 LEVELS"] by (simp add: LEVELS_def numeral_eq_Suc)
  next
    case Op_land
    then show ?thesis using that [of "take 4 LEVELS" "LEVELS ! 4" "drop 5 LEVELS"] by (simp add: LEVELS_def numeral_eq_Suc)
  next
    case Op_lor
    then show ?thesis using that [of "take 5 LEVELS" "LEVELS ! 5" "drop 6 LEVELS"] by (simp add: LEVELS_def numeral_eq_Suc)
  qed (use op that [of "take 0 LEVELS" "LEVELS ! 0" "drop 1 LEVELS"] that [of "take 2 LEVELS" "LEVELS ! 2" "drop 3 LEVELS"]
        that [of "take 3 LEVELS" "LEVELS ! 3" "drop 4 LEVELS"] in \<open>simp_all add: LEVELS_def numeral_eq_Suc\<close>)
  have st: "\<forall>ks \<in> set ls. peek rest \<notin> Some ` set ks" "\<forall>ks \<in> set ms. peek rest \<notin> Some ` set ks" "peek rest \<notin> Some ` set kinds"
    using assms(5) unfolding stops_def L(1) by auto
  have "climb pf ls p us = Inr (l, op_tok op # vs)" using l L(3) by (intro climb_skip) (auto simp: op_tok_def)
  moreover have "climb pf ls p vs = Inr (r, rest)" using r st(1) by (intro climb_skip)
  moreover have "binary_op (op_kind op) = Inr op" using op by (cases op) (simp_all add: binary_op_def)
  ultimately have "parse_binary pf kinds (climb pf ls p) us = Inr (t, rest)"
    using L(2) m st(3) by (intro binary_hit [where k = "op_kind op" and v = "bin_op_str op"]) (auto simp: op_tok_def)
  then have "climb pf ms (parse_binary pf kinds (climb pf ls p)) us = Inr (t, rest)" using st(2) by (intro climb_skip)
  then show ?thesis by (simp add: parse_expr_climb L(1))
qed

text \<open>What a parser of tokens of \<open>t\<close> has to do, wherever the tokens stand.\<close>

definition reads :: "resolvable parser \<Rightarrow> resolvable \<Rightarrow> bool" where
  "reads p t \<longleftrightarrow> (\<forall>rest. peek rest \<noteq> Some Tok_POWER \<longrightarrow> p (toks t @ rest) = Inr (t, rest))"

lemma readsD: "reads p t \<Longrightarrow> peek rest \<noteq> Some Tok_POWER \<Longrightarrow> p (toks t @ rest) = Inr (t, rest)"
  by (simp add: reads_def)

lemma expr_of_factor: "p us = Inr (x, rest) \<Longrightarrow> stops rest \<Longrightarrow> parse_expr pf p us = Inr (x, rest)"
  by (simp add: parse_expr_climb climb_skip stops_def)

lemma reads_expr: "reads p t \<Longrightarrow> stops rest \<Longrightarrow> parse_expr pf p (toks t @ rest) = Inr (t, rest)"
  by (rule expr_of_factor [OF readsD]) (simp_all add: stops_def)

lemma stops_brackets [simp]: "stops []" "stops ((Tok_RPAREN, v) # ts)" "stops ((Tok_COMMA, v) # ts)"
  by (simp_all add: stops_def LEVELS_def image_iff)

lemma int_of_digits_str: "int_of_digits (digits_str 10 False i) = Inr \<bar>i\<bar>"
  by (simp add: int_of_digits_def digits_str_def read_nat_digits)

lemma printable_num: "printable pf env (RNum n) \<Longrightarrow> \<exists>i. n = NInt i"
  by (cases n) simp_all

lemma toks_length: "printable pf env t \<Longrightarrow> 1 \<le> length (toks t)"
  by (cases t rule: toks.cases) (auto dest: printable_num)

lemma first_tok:
  "printable pf env t \<Longrightarrow> \<not> is_neg t \<Longrightarrow>
     peek (toks t @ rest) \<in> Some ` {Tok_NUMBER, Tok_NAME, Tok_LPAREN, Tok_FUNC}"
  by (cases t rule: toks.cases) (auto dest: printable_num)

text \<open>From an atom to a factor: a negative number is a minus and a number.\<close>

lemma factor_reads:
  assumes p: "printable pf env t" and d: "length (toks t) \<le> Suc d"
    and a: "\<not> is_neg t \<Longrightarrow> \<forall>rest. parse_atom pf env (parse_expr pf (parse_factor pf env d)) (toks t @ rest) = Inr (t, rest)"
  shows "reads (parse_factor pf env (Suc d)) t"
proof (cases "is_neg t")
  case False
  then have f: "peek (toks t @ rest) \<in> Some ` {Tok_NUMBER, Tok_NAME, Tok_LPAREN, Tok_FUNC}" for rest
    using first_tok [OF p] by blast
  have "parse_factor pf env (Suc d) (toks t @ rest) = Inr (t, rest)" if "peek rest \<noteq> Some Tok_POWER" for rest
    using f [of rest] a [OF False] that by (auto simp: parse_factor.simps parse_power_def)
  then show ?thesis by (simp add: reads_def)
next
  case True
  then obtain i where i: "t = RNum (NInt i)" "i < 0" by (cases t rule: is_neg.cases) auto
  then obtain d' where d': "d = Suc d'" using d by (cases d) auto
  have "make_resolvable_function pf (RNum (NInt 0)) Op_sub (RNum (NInt (- i))) = Inr t"
    using i by (simp add: make_resolvable_function_def fold_operands_def fold_op_def)
  then show ?thesis
    using i d' by (auto simp: reads_def parse_factor.simps parse_power_def parse_atom_def int_of_digits_str)
qed

lemma args_read:
  assumes p: "\<And>t. t \<in> set ts \<Longrightarrow> reads p t" and "length ts \<le> m"
  shows "args_loop m (parse_expr pf p) acc (concat (map (\<lambda>u. (Tok_COMMA, '','') # u) (map toks ts)) @ (Tok_RPAREN, v) # rest) =
    Inr (acc @ ts, (Tok_RPAREN, v) # rest)"
  using assms
proof (induction ts arbitrary: acc m)
  case Nil
  then show ?case by (simp add: args_loop.simps [of m])
next
  case (Cons t ts)
  obtain n where m: "m = Suc n" "length ts \<le> n" using Cons.prems by (cases m) auto
  let ?us = "concat (map (\<lambda>u. (Tok_COMMA, '','') # u) (map toks ts)) @ (Tok_RPAREN, v) # rest"
  have "stops ?us" by (cases ts) simp_all
  then have "parse_expr pf p (toks t @ ?us) = Inr (t, ?us)" using Cons.prems by (intro reads_expr) simp_all
  then show ?case using Cons.IH [of n "acc @ [t]"] Cons.prems m by (simp add: args_loop.simps [of "Suc n"])
qed

lemma built_in_lookup: "BUILTIN_FUNCTIONS (built_in_name f) = Some f"
  by (cases f) (simp_all add: BUILTIN_FUNCTIONS_def)

lemma concat_toks_length:
  "t \<in> set ts \<Longrightarrow> length (toks t) \<le> length (concat (map (\<lambda>u. (Tok_COMMA, '','') # u) (map toks ts)))"
  by (induction ts) auto

lemma comma_sep_length: "t \<in> set ts \<Longrightarrow> length (toks t) \<le> length (comma_sep (map toks ts))"
proof (cases ts)
  case (Cons u us)
  assume "t \<in> set ts"
  then show ?thesis using Cons concat_toks_length [of t us] by (auto simp: comma_sep_def)
qed simp

lemma atom_reads:
  "printable pf env t \<Longrightarrow> \<not> is_neg t \<Longrightarrow> length (toks t) \<le> Suc d \<Longrightarrow>
     parse_atom pf env (parse_expr pf (parse_factor pf env d)) (toks t @ rest) = Inr (t, rest)"
proof (induction t arbitrary: d rest rule: resolvable.induct)
  case (RNum n)
  then obtain i where "n = NInt i" by (cases n) auto
  then show ?case using RNum by (simp add: parse_atom_def int_of_digits_str)
next
  case (RK nm)
  then show ?case by (simp add: parse_atom_def parse_name_def)
next
  case (RParam nm ty)
  then show ?case by (simp add: parse_atom_def parse_name_def)
next
  case (ROp l op r)
  note pr = ROp.prems(1) [simplified]
  have mk: "make_resolvable_function pf l op r = Inr (ROp l op r)" using pr by blast
  obtain d' where d: "d = Suc d'" "length (toks l) \<le> Suc d'" "length (toks r) \<le> d'"
    using ROp.prems(3) toks_length [of pf env l] pr by (cases d) auto
  have rl: "reads (parse_factor pf env d) l"
    unfolding d(1) using pr d ROp.IH(1) by (intro factor_reads) auto
  have rr: "reads (parse_factor pf env d) r"
    unfolding d(1) using pr d ROp.IH(2) by (intro factor_reads) auto
  let ?e = "(Tok_RPAREN, '')'') # rest"
  have "parse_expr pf (parse_factor pf env d) (toks l @ op_tok op # toks r @ ?e) = Inr (ROp l op r, ?e)"
  proof (cases "op = Op_power")
    case False
    have "peek (op_tok op # toks r @ ?e) \<noteq> Some Tok_POWER" using False by (cases op) (simp_all add: op_tok_def)
    then show ?thesis using readsD [OF rl] readsD [OF rr, of ?e] by (intro climb_op [OF False _ _ mk]) simp_all
  next
    case True
    obtain d'' where d2: "d' = Suc d''" using d(3) toks_length [of pf env r] pr by (cases d') auto
    have "reads (parse_factor pf env d') r"
      unfolding d2 using pr d(3) d2 ROp.IH(2) by (intro factor_reads) auto
    then have r: "parse_factor pf env d' (toks r @ ?e) = Inr (r, ?e)" by (rule readsD) simp
    have l: "parse_atom pf env (parse_expr pf (parse_factor pf env d')) (toks l @ op_tok op # toks r @ ?e) =
        Inr (l, op_tok op # toks r @ ?e)"
      using pr True d by (intro ROp.IH(1)) auto
    have "parse_factor pf env d (toks l @ op_tok op # toks r @ ?e) = Inr (ROp l op r, ?e)"
      using first_tok [of pf env l "op_tok op # toks r @ ?e"] pr True l r d(1)
      by (auto simp: parse_factor.simps parse_power_def op_tok_def)
    then show ?thesis by (rule expr_of_factor) simp
  qed
  then show ?case by (simp add: parse_atom_def expect_def)
next
  case (RNot l)
  note pr = RNot.prems(1) [simplified]
  obtain d' where d: "d = Suc (Suc d')" "length (toks l) \<le> d'"
    using RNot.prems(3) toks_length [OF pr] by (cases d; cases "d - 1") auto
  have "reads (parse_factor pf env (Suc d')) l" using pr d RNot.IH by (intro factor_reads) auto
  then have "parse_factor pf env (Suc d') (toks l @ (Tok_RPAREN, '')'') # rest) = Inr (l, (Tok_RPAREN, '')'') # rest)"
    by (rule readsD) simp
  then have "parse_factor pf env d ((Tok_LNOT, ''!'') # toks l @ (Tok_RPAREN, '')'') # rest) = Inr (RNot l, (Tok_RPAREN, '')'') # rest)"
    using d(1) by (simp add: parse_factor.simps(2) [of pf env "Suc d'"])
  then show ?case using expr_of_factor stops_brackets(2) by (simp add: parse_atom_def expect_def)
next
  case (RFun f ps)
  have "ps \<noteq> []" using RFun.prems(1) by (cases f) auto
  then obtain q qs where ps: "ps = q # qs" by (cases ps) auto
  have pr: "printable pf env t" if "t \<in> set ps" for t using RFun.prems(1) that by (simp add: list_all_iff)
  have len: "length (toks t) + 2 \<le> d" if "t \<in> set ps" for t
    using RFun.prems(3) comma_sep_length [OF that] by simp
  obtain d' where d: "d = Suc d'" using len [of q] ps by (cases d) auto
  have rd: "reads (parse_factor pf env d) t" if "t \<in> set ps" for t
  proof -
    have "length (toks t) \<le> Suc d'" using len [OF that] d by simp
    then show ?thesis unfolding d using pr [OF that] RFun.IH [OF that] by (intro factor_reads) auto
  qed
  let ?us = "concat (map (\<lambda>u. (Tok_COMMA, '','') # u) (map toks qs)) @ (Tok_RPAREN, '')'') # rest"
  have "stops ?us" by (cases qs) simp_all
  then have 1: "parse_expr pf (parse_factor pf env d) (toks q @ ?us) = Inr (q, ?us)" using rd ps by (intro reads_expr) simp_all
  have "length qs \<le> length (concat (map (\<lambda>u. (Tok_COMMA, '','') # u) (map toks qs)))" by (induction qs) auto
  then have 2: "args_loop (length ?us) (parse_expr pf (parse_factor pf env d)) [q] ?us = Inr ([q] @ qs, (Tok_RPAREN, '')'') # rest)"
    using rd ps by (intro args_read) auto
  have "parse_call (parse_expr pf (parse_factor pf env d)) (built_in_name f) ((Tok_LPAREN, ''('') # toks q @ ?us) = Inr (RFun f ps, rest)"
    using 1 2 RFun.prems(1) ps by (simp add: parse_call_def built_in_lookup expect_def)
  then show ?case using ps by (simp add: parse_atom_def comma_sep_def)
qed auto

text \<open>
  C4: the printed text of an expression is the expression. A tree of ints, names, operators and
  functions that is folded reads back as the same tree; excepted is the power of a negative number,
  whose text binds the minus last.
\<close>
theorem print_parse_roundtrip:
  assumes "printable pf env t"
  shows "parse_resolvable pf env (TStr (resolvable_print_source pf t)) = Inr t"
proof -
  have "tokenize (resolvable_print_source pf t) = Inr (toks t)"
    using tokenize_print [OF assms, of "[]"] by (simp add: tokenize.simps [of "[]"])
  moreover have "reads (parse_factor pf env (Suc (length (toks t)))) t"
    using assms by (intro factor_reads) (auto intro: atom_reads)
  then have "parse_expr pf (parse_factor pf env (Suc (length (toks t)))) (toks t) = Inr (t, [])"
    using reads_expr [of _ t "[]"] by simp
  ultimately show ?thesis by (simp add: parse_resolvable_def parse_tokens_def)
qed

theorem print_parse_roundtrip_witness:
  "parse_resolvable example_pf example_env (TStr ''(($cdiv((v * -3), DEPTH) % 2) == 0)'') =
     Inr (ROp (ROp (RFun Fn_cdiv [ROp (RParam ''v'' VType_s) Op_mult (RNum (NInt (- 3))), RK ''DEPTH'']) Op_mod (RNum (NInt 2)))
            Op_eq (RNum (NInt 0)))"
proof -
  let ?t = "ROp (ROp (RFun Fn_cdiv [ROp (RParam ''v'' VType_s) Op_mult (RNum (NInt (- 3))), RK ''DEPTH'']) Op_mod (RNum (NInt 2)))
            Op_eq (RNum (NInt 0))"
  have p: "printable example_pf example_env ?t"
    by (simp add: example_env_def make_resolvable_function_def fold_operands_def fold_sum_def is_name_def is_name_char_def
        is_name_start_def)
  have s: "resolvable_print_source example_pf ?t = ''(($cdiv((v * -3), DEPTH) % 2) == 0)''"
    by code_simp
  show ?thesis using print_parse_roundtrip [OF p] unfolding s .
qed

text \<open>
  The excepted case does go wrong. The square of a negative literal prints as a text that the
  parser, and any reader of the register map, takes for the negated square.
\<close>
theorem negative_power_text:
  assumes "i < 0" and "is_name nm" and "expr_params env nm = Some t"
  shows "parse_resolvable pf env (TStr (resolvable_print_source pf (ROp (RNum (NInt i)) Op_power (RParam nm t)))) =
    Inr (ROp (RNum (NInt 0)) Op_sub (ROp (RNum (NInt (- i))) Op_power (RParam nm t)))"
proof -
  have "resolvable_print_source pf (ROp (RNum (NInt i)) Op_power (RParam nm t)) =
      CHR ''('' # CHR ''-'' # digits_str 10 False i @ CHR '' '' # ''**'' @ CHR '' '' # nm @ '')''"
    using assms(1) by (simp add: num_str_def py_str_int_def)
  moreover have "tokenize (CHR ''('' # CHR ''-'' # digits_str 10 False i @ CHR '' '' # ''**'' @ CHR '' '' # nm @ '')'') =
      Inr [(Tok_LPAREN, ''(''), (Tok_MINUS, ''-''), (Tok_NUMBER, digits_str 10 False i), (Tok_POWER, ''**''), (Tok_NAME, nm), (Tok_RPAREN, '')'')]"
    using tokenize_number [OF digits_str_digits, of _ False i] tokenize_op [of Op_power] tokenize_name [OF assms(2), of "'')''"]
      tokenize.simps [of "[]"] boundary_chars(1) [of "'')''"]
    by (simp add: tokenize_brackets tokenize_skip op_tok_def)
  ultimately show ?thesis
    using assms by (simp add: parse_resolvable_def parse_tokens_def parse_expr_def parse_logic_and_def parse_equality_def
        parse_compare_def parse_add_def parse_term_def parse_binary_def parse_factor.simps parse_power_def parse_atom_def
        int_of_digits_str parse_name_def expect_def make_resolvable_function_def fold_operands_def fold_sum_def)
qed

theorem negative_power_text_witness:
  "parse_resolvable example_pf example_env (TStr (resolvable_print_source example_pf
      (ROp (RNum (NInt (- 2))) Op_power (RParam ''v'' VType_s)))) =
    Inr (ROp (RNum (NInt 0)) Op_sub (ROp (RNum (NInt 2)) Op_power (RParam ''v'' VType_s)))"
  using negative_power_text [of "- 2" "''v''" example_env VType_s example_pf]
  by (simp add: example_env_def is_name_def is_name_char_def is_name_start_def)

end
