(* ===== verification/PlotRegs.thy ===== *)
theory PlotRegs
  imports RegioUi ModuleTree RecipeParse
begin

text \<open>
  \<^verbatim>\<open>pip/skmap_plot_regs/src/skmap_plot_regs/app.py\<close>: registers plotted against time. Modelled are the command
  line tokens, the traces with their rolling windows, the sampling of a register, the state of the window
  with its handlers and the class a host application uses. A handler of the window leaves its state
  behind also when it raises. The reads run on another thread: \<open>plot_step\<close> is one turn of either side,
  and the device may be in any state when a sample is taken. The widgets are the library pyqtgraph; the
  model keeps what the code sets on them (the data of the curves, the ranges of the axes, the timer).
\<close>

section \<open>Numbers and clamps\<close>

text \<open>
  \<^verbatim>\<open>float(v)\<close>: an integer that rounds to a power of two or more past the largest float does not convert. A text
  never gets here, the registers of chars are refused before.
\<close>

definition FLOAT_OVERFLOW :: int where
  "FLOAT_OVERFLOW = 2 ^ 1024 - 2 ^ 970"

definition py_float :: "py_impl \<Rightarrow> pyval \<Rightarrow> rat res" where
  "py_float pf v =
     (case v of
        PNum (PInt i) \<Rightarrow> if \<bar>i\<bar> < FLOAT_OVERFLOW then Inr (pf_round pf (of_int i)) else Inl OverflowError
      | PNum (PFlt x) \<Rightarrow> Inr x
      | PStr s \<Rightarrow> Inl ValueError)"

definition PERIOD_MIN :: "py_impl \<Rightarrow> rat" where "PERIOD_MIN pf = pf_round pf (1 / 100)"
definition PERIOD_MAX :: rat where "PERIOD_MAX = 3600"
definition LENGTH_MIN :: int where "LENGTH_MIN = 1"
definition LENGTH_MAX :: int where "LENGTH_MAX = 1000000"

definition clamp_period :: "py_impl \<Rightarrow> pynum \<Rightarrow> rat res" where
  "clamp_period pf period = rbind (py_float pf (PNum period)) (\<lambda>p. Inr (min (max p (PERIOD_MIN pf)) PERIOD_MAX))"

definition clamp_length :: "pynum \<Rightarrow> int" where
  "clamp_length n = min (max (py_num_int n) LENGTH_MIN) LENGTH_MAX"

text \<open>\<^verbatim>\<open>round(x)\<close> of a float: to the nearest integer, halves to the even one\<close>

definition py_round :: "rat \<Rightarrow> int" where
  "py_round x =
     (let d = x - of_int \<lfloor>x\<rfloor> in
      if d < 1 / 2 \<or> (d = 1 / 2 \<and> even \<lfloor>x\<rfloor>) then \<lfloor>x\<rfloor> else \<lfloor>x\<rfloor> + 1)"

section \<open>The tokens of the command line\<close>

definition try_addr :: "string \<Rightarrow> int option" where
  "try_addr token = int_text token"

fun add_tokens :: "string list \<Rightarrow> (int \<times> string list) list \<Rightarrow> (int \<times> string list) list res" where
  "add_tokens [] groups = Inr groups"
| "add_tokens (token # ts) groups =
     (case try_addr token of
        Some addr \<Rightarrow> add_tokens ts (groups @ [(addr, [])])
      | None \<Rightarrow>
          if groups = [] then Inl SystemExit
          else add_tokens ts (butlast groups @ [(fst (last groups), snd (last groups) @ [token])]))"

definition parse_targets :: "string list \<Rightarrow> (int \<times> string list) list res" where
  "parse_targets tokens =
     rbind (add_tokens tokens []) (\<lambda>groups.
       if \<exists>g \<in> set groups. snd g = [] then Inl SystemExit else Inr groups)"

text \<open>The characters of \<^verbatim>\<open>\w\<close> up to 255\<close>

definition is_word_char :: "char \<Rightarrow> bool" where
  "is_word_char c =
     (is_name_char c \<or>
      (let n = of_char c :: nat in
       n \<in> {0xAA, 0xB2, 0xB3, 0xB5, 0xB9, 0xBA, 0xBC, 0xBD, 0xBE} \<or> (0xC0 \<le> n \<and> n \<noteq> 0xD7 \<and> n \<noteq> 0xF7)))"

text \<open>\<^verbatim>\<open>$\<close> of a regular expression: the end, or a newline at the end\<close>

definition at_end :: "string \<Rightarrow> bool" where
  "at_end s \<longleftrightarrow> s = [] \<or> s = [CHR 0x0A]"

definition parse_idx :: "string \<Rightarrow> int option" where
  "parse_idx s =
     (if take 1 s = ''['' \<and> takeWhile is_digit (drop 1 s) \<noteq> [] \<and>
         take 1 (dropWhile is_digit (drop 1 s)) = '']'' \<and> at_end (drop 1 (dropWhile is_digit (drop 1 s)))
      then map_option int (read_digits 10 0 (takeWhile is_digit (drop 1 s))) else None)"

definition parse_reg_spec :: "string \<Rightarrow> (string \<times> int option) res" where
  "parse_reg_spec token =
     (if token = [] \<or> \<not> is_name_start (hd token) then Inl SystemExit
      else let name = takeWhile is_word_char token; rest = dropWhile is_word_char token in
        if at_end rest then Inr (name, None)
        else (case parse_idx rest of None \<Rightarrow> Inl SystemExit | Some i \<Rightarrow> Inr (name, Some i)))"

section \<open>Traces\<close>

text \<open>
  One curve. \<open>tr_module\<close> tells the module objects apart, their memories are the state the samples are
  taken in. \<open>tr_curve\<close> and \<open>tr_scatter\<close> are the data last given to the curve and its markers.
\<close>

record trace =
  tr_module :: nat
  tr_label :: string
  tr_reg :: reg
  tr_idx :: "int option"
  tr_xs :: "rat list"
  tr_ys :: "rat list"
  tr_bad_xs :: "rat list"
  tr_bad_ys :: "rat list"
  tr_read_error :: bool
  tr_curve :: "rat list \<times> rat list"
  tr_scatter :: "rat list \<times> rat list"

definition Trace_init :: "nat \<Rightarrow> 'w modcore \<Rightarrow> reg \<Rightarrow> int option \<Rightarrow> trace" where
  "Trace_init m c r idx =
     \<lparr>tr_module = m,
      tr_label = mo_name c @ '' @0x'' @ py_fmt0 16 False 0 (mo_base_addr c) @ '' / '' @ rg_name r @
        (case idx of None \<Rightarrow> '''' | Some i \<Rightarrow> ''['' @ py_str_int i @ '']''),
      tr_reg = r, tr_idx = idx, tr_xs = [], tr_ys = [], tr_bad_xs = [], tr_bad_ys = [], tr_read_error = False,
      tr_curve = ([], []), tr_scatter = ([], [])\<rparr>"

text \<open>The memories of the modules beside the device: an operation of one module.\<close>

type_synonym 'w plot_world = "'w \<times> (nat \<Rightarrow> 'w modmem)"

definition on_module :: "nat \<Rightarrow> ('w \<times> 'w modmem, 'a) io \<Rightarrow> ('w plot_world, 'a) io" where
  "on_module m f = (\<lambda>(w, ms). case f (w, ms m) of (x, (w', mm)) \<Rightarrow> (x, (w', ms(m := mm))))"

definition clear_rc :: "trace \<Rightarrow> ('w plot_world, unit) io" where
  "clear_rc tr =
     (let r = tr_reg tr in
      on_module (tr_module tr)
        (case tr_idx tr of
           None \<Rightarrow> reg_write_bytes r (replicate (nat (rg_size r)) 0)
         | Some i \<Rightarrow> write_idx_bytes r i (replicate (nat (rg_elem_size r)) 0)))"

definition trace_sample :: "trace \<Rightarrow> ('w plot_world, pyval \<times> bool) io" where
  "trace_sample tr =
     (let r = tr_reg tr; m = tr_module tr in
      io_bind (on_module m (case tr_idx tr of None \<Rightarrow> read_converted r | Some i \<Rightarrow> read_converted_idx r i)) (\<lambda>v.
      io_bind (if rg_acc r = Acc_rc then clear_rc tr else io_return ()) (\<lambda>_.
      io_bind (case rg_v_check r of
                 None \<Rightarrow> io_return True
               | Some vc \<Rightarrow>
                   (case v of
                      PNum n \<Rightarrow> on_module m (\<lambda>(w, mm). (vc_fn vc (mm_cache mm) n, (w, mm)))
                    | PStr s \<Rightarrow> io_raise TypeError)) (\<lambda>ok. io_return (v, ok)))))"

text \<open>
  \<^verbatim>\<open>while len(xs) > n: xs.popleft(); ys.popleft()\<close>, and the markers in front of the window. A
  \<^verbatim>\<open>popleft\<close> of an empty deque raises and leaves the first one popped.
\<close>

fun pop_beyond :: "int \<Rightarrow> rat list \<Rightarrow> rat list \<Rightarrow> unit res \<times> rat list \<times> rat list" where
  "pop_beyond n [] ys = (if n < 0 then (Inl IndexError, [], ys) else (Inr (), [], ys))"
| "pop_beyond n (x # xs) ys =
     (if n < int (length (x # xs)) then
        (case ys of [] \<Rightarrow> (Inl IndexError, xs, []) | y # ys' \<Rightarrow> pop_beyond n xs ys')
      else (Inr (), x # xs, ys))"

fun pop_marks :: "(rat \<Rightarrow> bool) \<Rightarrow> rat list \<Rightarrow> rat list \<Rightarrow> unit res \<times> rat list \<times> rat list" where
  "pop_marks P [] ys = (Inr (), [], ys)"
| "pop_marks P (b # bs) ys =
     (if P b then (case ys of [] \<Rightarrow> (Inl IndexError, bs, []) | y # ys' \<Rightarrow> pop_marks P bs ys')
      else (Inr (), b # bs, ys))"

definition pop_samples :: "int \<Rightarrow> (trace, unit) io" where
  "pop_samples n = (\<lambda>tr. case pop_beyond n (tr_xs tr) (tr_ys tr) of (x, xs, ys) \<Rightarrow> (x, tr\<lparr>tr_xs := xs, tr_ys := ys\<rparr>))"

definition pop_bad :: "(trace, unit) io" where
  "pop_bad = (\<lambda>tr. case pop_marks (\<lambda>b. tr_xs tr = [] \<or> b < hd (tr_xs tr)) (tr_bad_xs tr) (tr_bad_ys tr) of
     (x, bs, ys) \<Rightarrow> (x, tr\<lparr>tr_bad_xs := bs, tr_bad_ys := ys\<rparr>))"

definition add_sample :: "py_impl \<Rightarrow> rat \<Rightarrow> pyval \<Rightarrow> bool \<Rightarrow> int \<Rightarrow> (trace, unit) io" where
  "add_sample pf t v check_ok len =
     io_bind (pop_samples (len - 1)) (\<lambda>_.
     io_bind (io_modify (\<lambda>tr. tr\<lparr>tr_xs := tr_xs tr @ [t]\<rparr>)) (\<lambda>_.
     io_bind (io_lift (py_float pf v)) (\<lambda>y.
     io_bind (io_modify (\<lambda>tr. tr\<lparr>tr_ys := tr_ys tr @ [y]\<rparr>)) (\<lambda>_.
     io_bind (if check_ok then io_return ()
              else io_modify (\<lambda>tr. tr\<lparr>tr_bad_xs := tr_bad_xs tr @ [t], tr_bad_ys := tr_bad_ys tr @ [y]\<rparr>)) (\<lambda>_.
       pop_bad)))))"

definition trim_trace :: "int \<Rightarrow> (trace, unit) io" where
  "trim_trace len = io_bind (pop_samples len) (\<lambda>_. pop_bad)"

definition find_reg :: "'w modcore \<Rightarrow> string \<Rightarrow> reg res" where
  "find_reg c name =
     (case find (\<lambda>r. rg_name r = name) (mo_arr_reg_var c @ mo_arr_reg_k c) of
        None \<Rightarrow> Inl SystemExit | Some r \<Rightarrow> Inr r)"

text \<open>The warnings (\<^verbatim>\<open>ACC_WARN\<close>) beside the traces\<close>

definition acc_warn :: "acc \<Rightarrow> string option" where
  "acc_warn a =
     (case a of
        Acc_rw \<Rightarrow> Some ''is RW, it holds the value software wrote''
      | Acc_wt \<Rightarrow> Some ''is WT, it holds the value software wrote (write trigger)''
      | Acc_k \<Rightarrow> Some ''is K, a constant reported at module creation, the plot will be a flat line''
      | _ \<Rightarrow> None)"

definition trace_warning :: "trace \<Rightarrow> string option" where
  "trace_warning tr =
     map_option (\<lambda>s. ''[yellow]warning: '' @ tr_label tr @ '' '' @ s @ ''[/]'') (acc_warn (rg_acc (tr_reg tr)))"

definition checked_traces :: "nat \<Rightarrow> 'w modcore \<Rightarrow> reg \<Rightarrow> int option list \<Rightarrow> trace list res" where
  "checked_traces m c r idxs =
     (if vt_kind (rg_type r) = VK_char then Inl SystemExit else Inr (map (Trace_init m c r) idxs))"

definition is_reg_vec :: "reg \<Rightarrow> bool" where
  "is_reg_vec r \<longleftrightarrow> (case rg_class r of RC_vec _ \<Rightarrow> True | _ \<Rightarrow> False)"

text \<open>The length a vector is indexed with; with \<^verbatim>\<open>None\<close> the comparison and \<^verbatim>\<open>range\<close> raise.\<close>

definition plot_vec_len :: "reg \<Rightarrow> int res" where
  "plot_vec_len r = (case vt_vec_len (rg_type r) of None \<Rightarrow> Inl TypeError | Some n \<Rightarrow> Inr n)"

definition make_traces :: "nat \<Rightarrow> 'w modcore \<Rightarrow> string \<Rightarrow> trace list res" where
  "make_traces m c token =
     rbind (parse_reg_spec token) (\<lambda>(name, idx).
     rbind (find_reg c name) (\<lambda>r.
       if is_reg_vec r then
         rbind (plot_vec_len r) (\<lambda>n.
           case idx of
             None \<Rightarrow> checked_traces m c r (map Some [0..n - 1])
           | Some i \<Rightarrow> if i \<ge> n then Inl SystemExit else checked_traces m c r [Some i])
       else if idx \<noteq> None then Inl SystemExit
       else checked_traces m c r [None]))"

text \<open>The modules and the traces of the command line: a module is made once for every base address.\<close>

fun add_specs :: "nat \<Rightarrow> 'w modcore \<Rightarrow> string list \<Rightarrow> trace list \<Rightarrow> trace list res" where
  "add_specs m c [] traces = Inr traces"
| "add_specs m c (spec # specs) traces =
     rbind (make_traces m c spec) (\<lambda>new. add_specs m c specs (traces @ new))"

fun add_targets ::
  "'w registry \<Rightarrow> 'w regio \<Rightarrow> (int \<times> string list) list \<Rightarrow> (int \<times> 'w module) list \<Rightarrow> trace list \<Rightarrow>
     ('w, (int \<times> 'w module) list \<times> trace list) io" where
  "add_targets lookup r [] mods traces = io_return (mods, traces)"
| "add_targets lookup r ((addr, specs) # gs) mods traces =
     io_bind (if map_of mods addr \<noteq> None then io_return mods
              else io_bind (make_module lookup r addr False) (\<lambda>m. io_return (mods @ [(addr, m)]))) (\<lambda>mods.
     io_bind (io_lift (add_specs (length (takeWhile (\<lambda>a. a \<noteq> addr) (map fst mods)))
                        (mod_core (the (map_of mods addr))) specs traces)) (\<lambda>traces.
       add_targets lookup r gs mods traces))"

definition build_traces ::
  "'w registry \<Rightarrow> 'w regio \<Rightarrow> string list \<Rightarrow> ('w, (int \<times> 'w module) list \<times> trace list) io" where
  "build_traces lookup r targets =
     io_bind (io_lift (parse_targets targets)) (\<lambda>gs.
     io_bind (add_targets lookup r gs [] []) (\<lambda>(mods, traces).
       if traces = [] then io_raise SystemExit else io_return (mods, traces)))"

section \<open>The window\<close>

record plot_app =
  pa_traces :: "trace list"
  pa_period :: rat
  pa_length :: int
  pa_ranges_fixed :: bool
  pa_inflight :: bool
  pa_timer :: "int option"
  pa_x_range :: "(rat \<times> rat) option"
  pa_y_range :: "(rat \<times> rat) option"

definition timer_ms :: "py_impl \<Rightarrow> rat \<Rightarrow> int" where
  "timer_ms pf period = max 1 (py_round (pf_round pf (period * 1000)))"

definition PlotApp_init :: "py_impl \<Rightarrow> trace list \<Rightarrow> pynum \<Rightarrow> pynum \<Rightarrow> plot_app res" where
  "PlotApp_init pf traces period len =
     rbind (clamp_period pf period) (\<lambda>p.
       Inr \<lparr>pa_traces = map (\<lambda>tr. tr\<lparr>tr_curve := ([], []), tr_scatter := ([], [])\<rparr>) traces, pa_period = p,
            pa_length = clamp_length len, pa_ranges_fixed = False, pa_inflight = False,
            pa_timer = Some (timer_ms pf p), pa_x_range = None, pa_y_range = None\<rparr>)"

definition apply_x_range :: "py_impl \<Rightarrow> plot_app \<Rightarrow> plot_app" where
  "apply_x_range pf app =
     (let fl = pf_round pf; span = fl (fl (of_int (pa_length app - 1)) * pa_period app) in
      app\<lparr>pa_x_range := Some (0, fl (fl (span * fl (104 / 100)) + pa_period app))\<rparr>)"

definition on_period_changed :: "py_impl \<Rightarrow> pynum \<Rightarrow> (plot_app, unit) io" where
  "on_period_changed pf v =
     io_bind (io_lift (clamp_period pf v)) (\<lambda>p.
       io_modify (\<lambda>app. apply_x_range pf (app\<lparr>pa_period := p, pa_timer := Some (timer_ms pf p)\<rparr>)))"

definition set_data :: "(trace, unit) io" where
  "set_data = io_modify (\<lambda>tr. tr\<lparr>tr_curve := (tr_xs tr, tr_ys tr), tr_scatter := (tr_bad_xs tr, tr_bad_ys tr)\<rparr>)"

definition on_trace :: "nat \<Rightarrow> (trace, 'a) io \<Rightarrow> (plot_app, 'a) io" where
  "on_trace i f = (\<lambda>app.
     if i < length (pa_traces app) then
       (case f (pa_traces app ! i) of (x, tr) \<Rightarrow> (x, app\<lparr>pa_traces := (pa_traces app)[i := tr]\<rparr>))
     else (Inl IndexError, app))"

definition on_length_changed :: "py_impl \<Rightarrow> pynum \<Rightarrow> (plot_app, unit) io" where
  "on_length_changed pf v =
     (let len = clamp_length v in
      io_bind (io_modify (\<lambda>app. app\<lparr>pa_length := len\<rparr>)) (\<lambda>_.
      io_bind (io_get pa_traces) (\<lambda>trs.
      io_bind (io_forM (\<lambda>i. on_trace i (io_bind (trim_trace len) (\<lambda>_. set_data))) [0..<length trs]) (\<lambda>_.
        io_modify (apply_x_range pf)))))"

text \<open>The result of one entry: the exception of the read, or the value and the outcome of its check.\<close>

type_synonym sample_result = "exn + pyval \<times> bool"

definition tick :: "plot_app \<Rightarrow> bool \<times> plot_app" where
  "tick app = (if pa_inflight app then (False, app) else (True, app\<lparr>pa_inflight := True\<rparr>))"

definition sample_all :: "trace list \<Rightarrow> ('w plot_world, (nat \<times> sample_result) list) io" where
  "sample_all traces =
     io_mapM (\<lambda>(i, tr). io_bind (io_try (trace_sample tr)) (\<lambda>x. io_return (i, x))) (enumerate 0 traces)"

definition trace_result :: "py_impl \<Rightarrow> rat \<Rightarrow> int \<Rightarrow> sample_result \<Rightarrow> (trace, unit) io" where
  "trace_result pf t len res =
     (case res of
        Inl e \<Rightarrow> io_modify (\<lambda>tr. tr\<lparr>tr_read_error := True\<rparr>)
      | Inr (v, ok) \<Rightarrow>
          io_bind (io_modify (\<lambda>tr. tr\<lparr>tr_read_error := False\<rparr>)) (\<lambda>_.
          io_bind (add_sample pf t v ok len) (\<lambda>_. set_data)))"

definition set_fixed_ranges :: "py_impl \<Rightarrow> plot_app \<Rightarrow> plot_app" where
  "set_fixed_ranges pf app =
     (case concat (map tr_ys (pa_traces app)) of
        [] \<Rightarrow> app
      | y # ys \<Rightarrow>
          let lo = fold min ys y; hi = fold max ys y in
          (apply_x_range pf app)\<lparr>
            pa_y_range := Some (if lo = hi then (pf_round pf (lo - 1), pf_round pf (hi + 1)) else (lo, hi)),
            pa_ranges_fixed := True\<rparr>)"

definition on_samples :: "py_impl \<Rightarrow> rat \<Rightarrow> (nat \<times> sample_result) list \<Rightarrow> (plot_app, unit) io" where
  "on_samples pf t results =
     io_bind (io_modify (\<lambda>app. app\<lparr>pa_inflight := False\<rparr>)) (\<lambda>_.
     io_bind (io_forM (\<lambda>(i, res). io_bind (io_get pa_length) (\<lambda>len. on_trace i (trace_result pf t len res))) results) (\<lambda>_.
       io_modify (\<lambda>app. if pa_ranges_fixed app then app else set_fixed_ranges pf app)))"

section \<open>The two threads\<close>

text \<open>
  The window on its thread, the coroutines \<open>_sample_all\<close> started and not finished on the other, the results
  sent and not yet handled, the time of the last ones handled, and the device with the module memories.
\<close>

record 'w plot_sys =
  ps_app :: plot_app
  ps_jobs :: nat
  ps_queue :: "(nat \<times> sample_result) list list"
  ps_now :: rat
  ps_loop :: bool
  ps_world :: "'w plot_world"

definition tick_sys :: "'w plot_sys \<Rightarrow> 'w plot_sys" where
  "tick_sys s =
     (case tick (ps_app s) of (started, app) \<Rightarrow>
        s\<lparr>ps_app := app, ps_jobs := ps_jobs s + of_bool started\<rparr>)"

definition close_sys :: "'w plot_sys \<Rightarrow> 'w plot_sys" where
  "close_sys s = s\<lparr>ps_app := (ps_app s)\<lparr>pa_timer := None\<rparr>, ps_loop := False\<rparr>"

text \<open>\<^verbatim>\<open>run_plot_app\<close>: the window is made and the first sample started.\<close>

definition run_plot_app :: "py_impl \<Rightarrow> trace list \<Rightarrow> pynum \<Rightarrow> pynum \<Rightarrow> 'w plot_world \<Rightarrow> 'w plot_sys res" where
  "run_plot_app pf traces period len w =
     rbind (PlotApp_init pf traces period len) (\<lambda>app.
       Inr (tick_sys \<lparr>ps_app = app, ps_jobs = 0, ps_queue = [], ps_now = 0, ps_loop = True, ps_world = w\<rparr>))"

text \<open>
  One turn: the timer runs out, a sample is taken, its results are handled later than the results before,
  the user changes an option or closes the window, something else changes the device or the memories. A
  handler that raises ends its turn with the state it left.
\<close>

inductive plot_step :: "py_impl \<Rightarrow> 'w plot_sys \<Rightarrow> 'w plot_sys \<Rightarrow> bool" for pf where
  step_tick: "pa_timer (ps_app s) \<noteq> None \<Longrightarrow> plot_step pf s (tick_sys s)"
| step_sample: "0 < ps_jobs s \<Longrightarrow> ps_loop s \<Longrightarrow> sample_all (pa_traces (ps_app s)) (ps_world s) = (Inr rs, w) \<Longrightarrow>
    plot_step pf s (s\<lparr>ps_jobs := ps_jobs s - 1, ps_queue := ps_queue s @ [rs], ps_world := w\<rparr>)"
| step_show: "ps_queue s = rs # q \<Longrightarrow> ps_now s < t \<Longrightarrow> on_samples pf t rs (ps_app s) = (x, app) \<Longrightarrow>
    plot_step pf s (s\<lparr>ps_app := app, ps_queue := q, ps_now := t\<rparr>)"
| step_period: "on_period_changed pf v (ps_app s) = (x, app) \<Longrightarrow> plot_step pf s (s\<lparr>ps_app := app\<rparr>)"
| step_length: "on_length_changed pf v (ps_app s) = (x, app) \<Longrightarrow> plot_step pf s (s\<lparr>ps_app := app\<rparr>)"
| step_close: "plot_step pf s (close_sys s)"
| step_world: "plot_step pf s (s\<lparr>ps_world := w\<rparr>)"

inductive_cases plot_stepE: "plot_step pf s s'"

section \<open>The class of a host application\<close>

record plot_regs =
  pr_traces :: "trace list"
  pr_period :: rat
  pr_length :: int

definition SkmapPlotRegs_init :: "py_impl \<Rightarrow> pynum \<Rightarrow> pynum \<Rightarrow> plot_regs res" where
  "SkmapPlotRegs_init pf period len =
     rbind (clamp_period pf period) (\<lambda>p. Inr \<lparr>pr_traces = [], pr_period = p, pr_length = clamp_length len\<rparr>)"

definition add_traces :: "trace list res \<Rightarrow> plot_regs \<Rightarrow> plot_regs res" where
  "add_traces new p = rbind new (\<lambda>trs. Inr (p\<lparr>pr_traces := pr_traces p @ trs\<rparr>))"

definition plot_add_reg :: "nat \<Rightarrow> 'w modcore \<Rightarrow> reg \<Rightarrow> plot_regs \<Rightarrow> plot_regs res" where
  "plot_add_reg m c r p =
     (if is_reg_vec r then Inl TypeError else add_traces (checked_traces m c r [None]) p)"

definition plot_add_reg_vec_all :: "nat \<Rightarrow> 'w modcore \<Rightarrow> reg \<Rightarrow> plot_regs \<Rightarrow> plot_regs res" where
  "plot_add_reg_vec_all m c r p =
     rbind (plot_vec_len r) (\<lambda>n. add_traces (checked_traces m c r (map Some [0..n - 1])) p)"

definition plot_add_reg_vec_idx :: "nat \<Rightarrow> 'w modcore \<Rightarrow> reg \<Rightarrow> int \<Rightarrow> plot_regs \<Rightarrow> plot_regs res" where
  "plot_add_reg_vec_idx m c r idx p =
     rbind (plot_vec_len r) (\<lambda>n.
       if \<not> (0 \<le> idx \<and> idx < n) then Inl TypeError else add_traces (checked_traces m c r [Some idx]) p)"

definition plot_run :: "py_impl \<Rightarrow> plot_regs \<Rightarrow> 'w plot_world \<Rightarrow> 'w plot_sys res" where
  "plot_run pf p w =
     (if pr_traces p = [] then Inl SystemExit
      else run_plot_app pf (pr_traces p) (PFlt (pr_period p)) (PInt (pr_length p)) w)"

section \<open>The window of a trace\<close>

text \<open>
  What a trace shows: a list of samples (time, value, outcome of the check), every one a point and the
  failing ones marked. \<open>last_samples\<close> is the rolling window on the list.
\<close>

definition trace_shows :: "trace \<Rightarrow> (rat \<times> rat \<times> bool) list \<Rightarrow> bool" where
  "trace_shows tr ws \<longleftrightarrow>
     tr_xs tr = map fst ws \<and> tr_ys tr = map (\<lambda>w. fst (snd w)) ws \<and>
     tr_bad_xs tr = map fst (filter (\<lambda>w. \<not> snd (snd w)) ws) \<and>
     tr_bad_ys tr = map (\<lambda>w. fst (snd w)) (filter (\<lambda>w. \<not> snd (snd w)) ws)"

definition last_samples :: "int \<Rightarrow> 'a list \<Rightarrow> 'a list" where
  "last_samples n ws = drop (nat (int (length ws) - n)) ws"

lemma last_samples_all: "int (length ws) \<le> n \<Longrightarrow> last_samples n ws = ws"
  by (simp add: last_samples_def)

lemma last_samples_Cons: "n < int (length (w # ws)) \<Longrightarrow> 0 \<le> n \<Longrightarrow> last_samples n (w # ws) = last_samples n ws"
proof -
  assume "n < int (length (w # ws))" "0 \<le> n"
  then have "nat (int (length (w # ws)) - n) = Suc (nat (int (length ws) - n))" by simp
  then show ?thesis by (simp add: last_samples_def)
qed

lemma length_last_samples: "0 \<le> n \<Longrightarrow> int (length (last_samples n ws)) \<le> n"
  by (simp add: last_samples_def)

lemma last_samples_snoc: "1 \<le> n \<Longrightarrow> last_samples (n - 1) ws @ [w] = last_samples n (ws @ [w])"
  by (simp add: last_samples_def algebra_simps)

lemma pop_beyond_window:
  "0 \<le> n \<Longrightarrow> pop_beyond n (map f ws) (map g ws) = (Inr (), map f (last_samples n ws), map g (last_samples n ws))"
proof (induction ws)
  case (Cons w ws)
  show ?case
  proof (cases "n < int (length (w # ws))")
    case True
    then show ?thesis using Cons last_samples_Cons [of n w ws] by simp
  next
    case False
    then show ?thesis using last_samples_all [of "w # ws" n] by simp
  qed
qed (simp add: last_samples_def)

lemma pop_marks_map:
  "pop_marks P (map f us) (map g us) = (Inr (), map f (dropWhile (\<lambda>u. P (f u)) us), map g (dropWhile (\<lambda>u. P (f u)) us))"
  by (induction us) auto

lemma dropWhile_none: "\<forall>x \<in> set xs. \<not> P x \<Longrightarrow> dropWhile P xs = xs"
  by (cases xs) auto

text \<open>The markers in front of the window are those of the samples in front of it.\<close>

lemma marks_of_window:
  fixes ws :: "(rat \<times> rat \<times> bool) list"
  assumes "sorted_wrt (<) (map fst ws)" and "us = drop k ws"
  shows "dropWhile (\<lambda>u. map fst us = [] \<or> fst u < hd (map fst us)) (filter Q ws) = filter Q us"
proof (cases us)
  case Nil
  then show ?thesis by simp
next
  case (Cons b bs)
  have ws: "ws = take k ws @ b # bs" using assms(2) Cons append_take_drop_id [of k ws] by simp
  have s: "sorted_wrt (<) (map fst (take k ws) @ fst b # map fst bs)" using assms(1) by (subst (asm) ws) simp
  have before: "\<forall>u \<in> set (filter Q (take k ws)). fst u < fst b" using s by (auto simp: sorted_wrt_append)
  have "\<forall>u \<in> set (filter Q (b # bs)). \<not> fst u < fst b" using s by (auto simp: sorted_wrt_append not_less intro: less_imp_le)
  then have after: "dropWhile (\<lambda>u. fst u < fst b) (filter Q (b # bs)) = filter Q (b # bs)" by (rule dropWhile_none)
  have "dropWhile (\<lambda>u. fst u < fst b) (filter Q (take k ws) @ filter Q (b # bs)) = dropWhile (\<lambda>u. fst u < fst b) (filter Q (b # bs))"
    by (rule dropWhile_append2) (rule bspec [OF before])
  then show ?thesis using Cons after by (subst ws) (simp only: filter_append list.map list.sel list.simps simp_thms)
qed


lemma pop_samples_shows:
  assumes "trace_shows tr ws" and "0 \<le> n"
  shows "pop_samples n tr = (Inr (), tr\<lparr>tr_xs := map fst (last_samples n ws), tr_ys := map (\<lambda>w. fst (snd w)) (last_samples n ws)\<rparr>)"
  using assms by (simp add: pop_samples_def trace_shows_def pop_beyond_window)

lemma pop_bad_shows:
  assumes "tr_xs tr = map fst us" and "tr_ys tr = map (\<lambda>w. fst (snd w)) us" and "us = drop k ws"
    and "tr_bad_xs tr = map fst (filter (\<lambda>w. \<not> snd (snd w)) ws)"
    and "tr_bad_ys tr = map (\<lambda>w. fst (snd w)) (filter (\<lambda>w. \<not> snd (snd w)) ws)" and "sorted_wrt (<) (map fst ws)"
  shows "\<exists>tr'. pop_bad tr = (Inr (), tr') \<and> trace_shows tr' us"
  using marks_of_window [OF assms(6,3), of "\<lambda>w. \<not> snd (snd w)"] assms(1,2)
  by (simp add: pop_bad_def pop_marks_map assms(1,2,4,5) trace_shows_def)

text \<open>One sample more, and a shorter window.\<close>

lemma plot_window_step:
  assumes "trace_shows tr ws" and "sorted_wrt (<) (map fst ws @ [t])" and "1 \<le> len" and "py_float pf v = Inr y"
  shows "(\<exists>tr'. add_sample pf t v ok len tr = (Inr (), tr') \<and> trace_shows tr' (last_samples len (ws @ [(t, y, ok)]))) \<and>
    (\<exists>tr'. trim_trace len tr = (Inr (), tr') \<and> trace_shows tr' (last_samples len ws))"
proof
  note sh = assms(1) [unfolded trace_shows_def]
  let ?us = "last_samples (len - 1) ws @ [(t, y, ok)]"
  let ?tr = "tr\<lparr>tr_xs := map fst ?us, tr_ys := map (\<lambda>w. fst (snd w)) ?us,
    tr_bad_xs := map fst (filter (\<lambda>w. \<not> snd (snd w)) (ws @ [(t, y, ok)])),
    tr_bad_ys := map (\<lambda>w. fst (snd w)) (filter (\<lambda>w. \<not> snd (snd w)) (ws @ [(t, y, ok)]))\<rparr>"
  have us: "?us = last_samples len (ws @ [(t, y, ok)])" by (rule last_samples_snoc [OF assms(3)])
  have "add_sample pf t v ok len tr = pop_bad ?tr"
    using pop_samples_shows [OF assms(1), of "len - 1"] assms(3,4) sh
    by (cases tr; cases ok) (simp_all add: add_sample_def io_bind_run io_modify_def)
  moreover have "\<exists>tr'. pop_bad ?tr = (Inr (), tr') \<and> trace_shows tr' ?us"
    by (rule pop_bad_shows [OF _ _ trans [OF us last_samples_def]]) (use assms(2) in simp_all)
  ultimately show "\<exists>tr'. add_sample pf t v ok len tr = (Inr (), tr') \<and> trace_shows tr' (last_samples len (ws @ [(t, y, ok)]))"
    by (simp add: us)
  let ?vs = "last_samples len ws"
  have "trim_trace len tr = pop_bad (tr\<lparr>tr_xs := map fst ?vs, tr_ys := map (\<lambda>w. fst (snd w)) ?vs\<rparr>)"
    using pop_samples_shows [OF assms(1), of len] assms(3) by (simp add: trim_trace_def io_bind_run)
  moreover have "\<exists>tr'. pop_bad (tr\<lparr>tr_xs := map fst ?vs, tr_ys := map (\<lambda>w. fst (snd w)) ?vs\<rparr>) = (Inr (), tr') \<and> trace_shows tr' ?vs"
    by (rule pop_bad_shows [where ws = ws, OF _ _ last_samples_def]) (use assms(2) sh in \<open>simp_all add: sorted_wrt_append\<close>)
  ultimately show "\<exists>tr'. trim_trace len tr = (Inr (), tr') \<and> trace_shows tr' (last_samples len ws)" by simp
qed

section \<open>The invariant of the window\<close>

text \<open>What a sample is taken from does not change.\<close>

definition trace_key :: "trace \<Rightarrow> nat \<times> reg \<times> int option" where
  "trace_key tr = (tr_module tr, tr_reg tr, tr_idx tr)"

lemma trace_sample_key: "trace_key tr = trace_key tr' \<Longrightarrow> trace_sample tr = trace_sample tr'"
  by (simp add: trace_key_def trace_sample_def clear_rc_def Let_def)

text \<open>A trace shows samples with growing times up to \<open>T\<close>, no more than \<open>len\<close>.\<close>

definition trace_ok :: "rat \<Rightarrow> int \<Rightarrow> trace \<Rightarrow> bool" where
  "trace_ok T len tr \<longleftrightarrow>
     (\<exists>ws. trace_shows tr ws \<and> sorted_wrt (<) (map fst ws) \<and> (\<forall>w \<in> set ws. fst w \<le> T) \<and> int (length ws) \<le> len)"

lemma trace_ok_later: "trace_ok T len tr \<Longrightarrow> T \<le> T' \<Longrightarrow> trace_ok T' len tr"
  unfolding trace_ok_def by fastforce

lemma last_samples_set: "set (last_samples n ws) \<subseteq> set ws"
  by (simp add: last_samples_def set_drop_subset)

lemma last_samples_sorted: "sorted_wrt (<) (map fst ws) \<Longrightarrow> sorted_wrt (<) (map fst (last_samples n ws))"
  by (simp add: last_samples_def drop_map [symmetric] sorted_wrt_drop)

lemma trace_ok_window:
  assumes "trace_shows tr (last_samples len ws)" and "sorted_wrt (<) (map fst ws)" and "\<forall>w \<in> set ws. fst w \<le> T" and "0 \<le> len"
  shows "trace_ok T len tr"
  unfolding trace_ok_def
  by (rule exI [of _ "last_samples len ws"])
    (use assms last_samples_set [of len ws] last_samples_sorted [of ws len] length_last_samples [of len ws] in auto)

lemma trace_ok_cong:
  "tr_xs tr' = tr_xs tr \<Longrightarrow> tr_ys tr' = tr_ys tr \<Longrightarrow> tr_bad_xs tr' = tr_bad_xs tr \<Longrightarrow> tr_bad_ys tr' = tr_bad_ys tr \<Longrightarrow>
    trace_ok T len tr' = trace_ok T len tr"
  by (simp add: trace_ok_def trace_shows_def)

text \<open>The operations of a trace keep its key, whatever they raise.\<close>

lemma pop_keys: "trace_key (snd (pop_samples n tr)) = trace_key tr" "trace_key (snd (pop_bad tr)) = trace_key tr"
  by (simp_all add: pop_samples_def pop_bad_def trace_key_def split: prod.splits)

lemma io_bind_keeps:
  assumes "\<And>s. f (snd (m s)) = f s" and "\<And>x s. f (snd (g x s)) = f s"
  shows "f (snd (io_bind m g s)) = f s"
proof (cases "m s")
  case (Pair x s')
  then have "f s' = f s" using assms(1) [of s] by simp
  then show ?thesis using Pair assms(2) by (cases x) (simp_all add: io_bind_def)
qed

lemma set_data_run:
  "set_data tr = (Inr (), tr\<lparr>tr_curve := (tr_xs tr, tr_ys tr), tr_scatter := (tr_bad_xs tr, tr_bad_ys tr)\<rparr>)"
  by (simp add: set_data_def io_modify_def)

lemma trace_ops_keys:
  "trace_key (snd (add_sample pf t v ok len tr)) = trace_key tr"
  "trace_key (snd (trim_trace len tr)) = trace_key tr"
  "trace_key (snd (trace_result pf t len res tr)) = trace_key tr"
proof -
  have m: "trace_key (snd (io_modify f tr)) = trace_key tr" if "\<And>tr. trace_key (f tr) = trace_key tr" for f tr
    using that by (simp add: io_modify_def)
  show add: "trace_key (snd (add_sample pf t v ok len tr)) = trace_key tr" for t v ok len tr
    unfolding add_sample_def by (intro io_bind_keeps pop_keys m) (auto simp: trace_key_def io_modify_def)
  show "trace_key (snd (trim_trace len tr)) = trace_key tr"
    unfolding trim_trace_def by (intro io_bind_keeps pop_keys)
  show "trace_key (snd (trace_result pf t len res tr)) = trace_key tr"
  proof (cases res)
    case (Inl e)
    then show ?thesis by (simp add: trace_result_def io_modify_def trace_key_def)
  next
    case (Inr a)
    obtain v ok where a: "res = Inr (v, ok)" using Inr by (cases a) simp
    show ?thesis unfolding trace_result_def a sum.case prod.case
      by (intro io_bind_keeps add m) (simp_all add: trace_key_def set_data_run io_modify_def)
  qed
qed

lemma sorted_later:
  fixes T t :: rat
  assumes "sorted_wrt (<) (map fst ws)" and "\<forall>w \<in> set ws. fst w \<le> T" and "T < t"
  shows "sorted_wrt (<) (map fst ws @ [t])"
proof -
  have "\<forall>w \<in> set ws. fst w < t" using assms(2,3) le_less_trans by blast
  then show ?thesis using assms(1) by (auto simp: sorted_wrt_append)
qed

lemma trim_ok:
  assumes "trace_ok T len0 tr" and "1 \<le> len"
  shows "\<exists>tr'. io_bind (trim_trace len) (\<lambda>_. set_data) tr = (Inr (), tr') \<and> trace_ok T len tr' \<and> trace_key tr' = trace_key tr"
proof -
  obtain ws where ws: "trace_shows tr ws" "sorted_wrt (<) (map fst ws)" "\<forall>w \<in> set ws. fst w \<le> T"
    using assms(1) unfolding trace_ok_def by blast
  have s: "sorted_wrt (<) (map fst ws @ [T + 1])" by (rule sorted_later [OF ws(2,3)]) simp
  obtain tr' where tr': "trim_trace len tr = (Inr (), tr')" "trace_shows tr' (last_samples len ws)"
    using plot_window_step [OF ws(1) s assms(2), of undefined "PNum (PFlt 0)"] by (auto simp: py_float_def)
  have "trace_key tr' = trace_key tr" using trace_ops_keys(2) [of len tr] tr'(1) by simp
  moreover have "trace_ok T len tr'" by (rule trace_ok_window [OF tr'(2) ws(2,3)]) (use assms(2) in simp)
  ultimately show ?thesis using tr'(1)
    by (simp add: io_bind_run set_data_run trace_key_def) (subst trace_ok_cong [where tr = tr'], simp_all)
qed

lemma result_ok:
  assumes "trace_ok T len tr" and "T < t" and "1 \<le> len" and "\<forall>v ok. res = Inr (v, ok) \<longrightarrow> (\<exists>y. py_float pf v = Inr y)"
  shows "\<exists>tr'. trace_result pf t len res tr = (Inr (), tr') \<and> trace_ok t len tr' \<and> trace_key tr' = trace_key tr"
proof (cases res)
  case (Inl e)
  then show ?thesis using trace_ok_later [OF assms(1) less_imp_le [OF assms(2)]]
    by (simp add: trace_result_def io_modify_def trace_key_def) (subst trace_ok_cong [where tr = tr], simp_all)
next
  case (Inr a)
  obtain v ok where a: "res = Inr (v, ok)" using Inr by (cases a) simp
  obtain y where y: "py_float pf v = Inr y" using assms(4) a by blast
  let ?tr = "tr\<lparr>tr_read_error := False\<rparr>"
  obtain ws where "trace_shows tr ws" and s0: "sorted_wrt (<) (map fst ws)" and le: "\<forall>w \<in> set ws. fst w \<le> T"
    using assms(1) unfolding trace_ok_def by blast
  then have sh: "trace_shows ?tr ws" by (simp add: trace_shows_def)
  have s: "sorted_wrt (<) (map fst ws @ [t])" by (rule sorted_later [OF s0 le assms(2)])
  obtain tr' where tr': "add_sample pf t v ok len ?tr = (Inr (), tr')" "trace_shows tr' (last_samples len (ws @ [(t, y, ok)]))"
    using plot_window_step [OF sh s assms(3) y] by blast
  have "\<forall>w \<in> set (ws @ [(t, y, ok)]). fst w \<le> t" using le assms(2) by (auto dest!: bspec intro: order_trans less_imp_le)
  moreover have "sorted_wrt (<) (map fst (ws @ [(t, y, ok)]))" using s by simp
  ultimately have "trace_ok t len tr'" using trace_ok_window [OF tr'(2)] assms(3) by simp
  moreover have "trace_key tr' = trace_key tr" using trace_ops_keys(1) [of pf t v ok len ?tr] tr'(1) by (simp add: trace_key_def)
  ultimately show ?thesis using tr'(1)
    by (simp add: a trace_result_def io_bind_run io_modify_def set_data_run trace_key_def) (subst trace_ok_cong [where tr = tr'], simp_all)
qed

text \<open>Handlers that go through the traces: each succeeds on its own trace and leaves the others.\<close>

lemma forM_on_trace:
  assumes "distinct (map fst js)"
    and "\<forall>(i, g) \<in> set js. i < length (pa_traces app) \<and> (\<exists>tr'. g (pa_traces app ! i) = (Inr (), tr') \<and> Q (pa_traces app ! i) tr')"
  shows "\<exists>trs. io_forM (\<lambda>(i, g). on_trace i g) js app = (Inr (), app\<lparr>pa_traces := trs\<rparr>) \<and> length trs = length (pa_traces app) \<and>
    (\<forall>i < length trs. if i \<in> fst ` set js then Q (pa_traces app ! i) (trs ! i) else trs ! i = pa_traces app ! i)"
  using assms
proof (induction js arbitrary: app)
  case Nil
  show ?case by (rule exI [of _ "pa_traces app"]) simp
next
  case (Cons j js)
  obtain i g where j: "j = (i, g)" by (cases j)
  obtain tr' where i: "i < length (pa_traces app)" and g: "g (pa_traces app ! i) = (Inr (), tr')" and q: "Q (pa_traces app ! i) tr'"
    using Cons.prems(2) by (auto simp: j)
  let ?app = "app\<lparr>pa_traces := (pa_traces app)[i := tr']\<rparr>"
  have d: "distinct (map fst js)" and ni: "i \<notin> fst ` set js" using Cons.prems(1) by (auto simp: j)
  have "\<forall>(k, h) \<in> set js. k < length (pa_traces ?app) \<and> (\<exists>tr'. h (pa_traces ?app ! k) = (Inr (), tr') \<and> Q (pa_traces ?app ! k) tr')"
  proof (clarify)
    fix k h assume kh: "(k, h) \<in> set js"
    then have "k \<noteq> i" using ni by force
    then show "k < length (pa_traces ?app) \<and> (\<exists>tr'. h (pa_traces ?app ! k) = (Inr (), tr') \<and> Q (pa_traces ?app ! k) tr')"
      using Cons.prems(2) kh by auto
  qed
  from Cons.IH [OF d this] obtain trs where
    run: "io_forM (\<lambda>(i, g). on_trace i g) js ?app = (Inr (), ?app\<lparr>pa_traces := trs\<rparr>)" and len: "length trs = length (pa_traces app)"
    and all: "\<forall>k < length trs. if k \<in> fst ` set js then Q (pa_traces ?app ! k) (trs ! k) else trs ! k = pa_traces ?app ! k" by auto
  have "on_trace i g app = (Inr (), ?app)" using i g by (simp add: on_trace_def)
  then have "io_forM (\<lambda>(i, g). on_trace i g) (j # js) app = (Inr (), app\<lparr>pa_traces := trs\<rparr>)"
    using run by (simp add: j io_bind_run)
  moreover have "if k \<in> fst ` set (j # js) then Q (pa_traces app ! k) (trs ! k) else trs ! k = pa_traces app ! k" if "k < length trs" for k
    using all that q ni i len by (cases "k = i") (auto simp: j split: if_splits)
  ultimately show ?case using len by blast
qed

lemma on_trace_length: "pa_length (snd (on_trace i f app)) = pa_length app"
  by (simp add: on_trace_def split: prod.splits)

lemma forM_samples:
  "io_forM (\<lambda>(i, res). io_bind (io_get pa_length) (\<lambda>len. on_trace i (trace_result pf t len res))) rs app =
   io_forM (\<lambda>(i, g). on_trace i g) (map (\<lambda>(i, res). (i, trace_result pf t (pa_length app) res)) rs) app"
proof (induction rs arbitrary: app)
  case (Cons r rs)
  obtain i res where r: "r = (i, res)" by (cases r)
  obtain x app' where run: "on_trace i (trace_result pf t (pa_length app) res) app = (x, app')" by (cases "on_trace i (trace_result pf t (pa_length app) res) app")
  have "pa_length app' = pa_length app" using on_trace_length [of i "trace_result pf t (pa_length app) res" app] run by simp
  then show ?case using Cons run by (cases x) (simp_all add: r io_bind_def io_get_def)
qed simp

text \<open>The state of the window and of the other thread.\<close>

definition results_ok :: "py_impl \<Rightarrow> nat \<Rightarrow> (nat \<times> sample_result) list \<Rightarrow> bool" where
  "results_ok pf n rs \<longleftrightarrow>
     map fst rs = [0..<n] \<and> (\<forall>(i, res) \<in> set rs. \<forall>v ok. res = Inr (v, ok) \<longrightarrow> (\<exists>y. py_float pf v = Inr y))"

definition app_inv :: "py_impl \<Rightarrow> (nat \<times> reg \<times> int option) list \<Rightarrow> rat \<Rightarrow> plot_app \<Rightarrow> bool" where
  "app_inv pf ks T app \<longleftrightarrow>
     LENGTH_MIN \<le> pa_length app \<and> pa_length app \<le> LENGTH_MAX \<and> PERIOD_MIN pf \<le> pa_period app \<and> pa_period app \<le> PERIOD_MAX \<and>
     (\<forall>n. pa_timer app = Some n \<longrightarrow> 1 \<le> n) \<and> map trace_key (pa_traces app) = ks \<and>
     (\<forall>i < length (pa_traces app). trace_ok T (pa_length app) (pa_traces app ! i))"

lemma app_inv_cong:
  "pa_length app' = pa_length app \<Longrightarrow> pa_period app' = pa_period app \<Longrightarrow> pa_timer app' = pa_timer app \<Longrightarrow> pa_traces app' = pa_traces app \<Longrightarrow>
    app_inv pf ks T app' = app_inv pf ks T app"
  by (simp add: app_inv_def)

lemma apply_x_range_fields [simp]:
  "pa_length (apply_x_range pf app) = pa_length app" "pa_period (apply_x_range pf app) = pa_period app"
  "pa_timer (apply_x_range pf app) = pa_timer app" "pa_traces (apply_x_range pf app) = pa_traces app"
  "pa_inflight (apply_x_range pf app) = pa_inflight app"
  by (simp_all add: apply_x_range_def Let_def)

lemma set_fixed_ranges_fields [simp]:
  "pa_length (set_fixed_ranges pf app) = pa_length app" "pa_period (set_fixed_ranges pf app) = pa_period app"
  "pa_timer (set_fixed_ranges pf app) = pa_timer app" "pa_traces (set_fixed_ranges pf app) = pa_traces app"
  "pa_inflight (set_fixed_ranges pf app) = pa_inflight app"
  by (simp_all add: set_fixed_ranges_def Let_def split: list.splits)

lemma keys_nth: "length trs = length trs' \<Longrightarrow> (\<And>i. i < length trs \<Longrightarrow> trace_key (trs ! i) = trace_key (trs' ! i)) \<Longrightarrow>
    map trace_key trs = map trace_key trs'"
  by (rule nth_equalityI) simp_all

lemma on_samples_inv:
  assumes inv: "app_inv pf ks T app" and rs: "results_ok pf (length ks) rs" and t: "T < t"
  shows "\<exists>app'. on_samples pf t rs app = (Inr (), app') \<and> app_inv pf ks t app' \<and> \<not> pa_inflight app'"
proof -
  let ?app = "app\<lparr>pa_inflight := False\<rparr>" and ?len = "pa_length app"
  let ?js = "map (\<lambda>(i, res). (i, trace_result pf t ?len res)) rs"
  let ?Q = "\<lambda>tr tr'. trace_ok t ?len tr' \<and> trace_key tr' = trace_key tr"
  note i = inv [unfolded app_inv_def]
  have n: "length (pa_traces app) = length ks" using i by auto
  have len: "1 \<le> ?len" using i by (simp add: LENGTH_MIN_def)
  have fs: "map fst ?js = [0..<length ks]" using rs by (simp add: results_ok_def o_def case_prod_unfold)
  have "\<forall>(i, g) \<in> set ?js. i < length (pa_traces ?app) \<and> (\<exists>tr'. g (pa_traces ?app ! i) = (Inr (), tr') \<and> ?Q (pa_traces ?app ! i) tr')"
  proof clarify
    fix k g assume "(k, g) \<in> set ?js"
    then obtain res where g: "g = trace_result pf t ?len res" and mem: "(k, res) \<in> set rs" by auto
    have "fst ` set rs = {0..<length ks}" using rs by (metis results_ok_def set_map set_upt)
    then have k: "k < length (pa_traces app)" using mem n by force
    have "\<forall>v ok. res = Inr (v, ok) \<longrightarrow> (\<exists>y. py_float pf v = Inr y)" using rs mem by (auto simp: results_ok_def)
    then show "k < length (pa_traces ?app) \<and> (\<exists>tr'. g (pa_traces ?app ! k) = (Inr (), tr') \<and> ?Q (pa_traces ?app ! k) tr')"
      using result_ok [of T ?len "pa_traces app ! k" t res pf] i k t len g by auto
  qed
  from forM_on_trace [OF _ this] fs obtain trs where
    run: "io_forM (\<lambda>(i, g). on_trace i g) ?js ?app = (Inr (), ?app\<lparr>pa_traces := trs\<rparr>)" and l: "length trs = length (pa_traces app)"
    and all: "\<forall>i < length trs. if i \<in> fst ` set ?js then ?Q (pa_traces app ! i) (trs ! i) else trs ! i = pa_traces app ! i" by auto
  have img: "fst ` set ?js = {0..<length ks}" using fs by (metis set_map set_upt)
  have each: "?Q (pa_traces app ! i) (trs ! i)" if "i < length trs" for i
    using all that img l n by simp
  have "app_inv pf ks t (?app\<lparr>pa_traces := trs\<rparr>)"
    using i each keys_nth [of trs "pa_traces app"] l by (auto simp: app_inv_def)
  moreover have "on_samples pf t rs app =
      (Inr (), if pa_ranges_fixed app then ?app\<lparr>pa_traces := trs\<rparr> else set_fixed_ranges pf (?app\<lparr>pa_traces := trs\<rparr>))"
    using run by (simp add: on_samples_def io_bind_run io_modify_def forM_samples)
  moreover have "app_inv pf ks t (set_fixed_ranges pf (?app\<lparr>pa_traces := trs\<rparr>)) = app_inv pf ks t (?app\<lparr>pa_traces := trs\<rparr>)"
    by (rule app_inv_cong) simp_all
  ultimately show ?thesis by (cases "pa_ranges_fixed app") simp_all
qed

lemma clamp_length_range: "LENGTH_MIN \<le> clamp_length v \<and> clamp_length v \<le> LENGTH_MAX"
  by (simp add: clamp_length_def LENGTH_MIN_def LENGTH_MAX_def)

lemma clamp_period_range: "PERIOD_MIN pf \<le> PERIOD_MAX \<Longrightarrow> clamp_period pf v = Inr p \<Longrightarrow> PERIOD_MIN pf \<le> p \<and> p \<le> PERIOD_MAX"
  by (auto simp: clamp_period_def rbind_Inr_iff)

lemma on_length_inv:
  assumes inv: "app_inv pf ks T app"
  shows "\<exists>app'. on_length_changed pf v app = (Inr (), app') \<and> app_inv pf ks T app' \<and> pa_inflight app' = pa_inflight app"
proof -
  let ?len = "clamp_length v"
  let ?app = "app\<lparr>pa_length := ?len\<rparr>" and ?n = "length (pa_traces app)"
  let ?g = "io_bind (trim_trace ?len) (\<lambda>_. set_data)"
  let ?js = "map (\<lambda>i. (i, ?g)) [0..<?n]"
  let ?Q = "\<lambda>tr tr'. trace_ok T ?len tr' \<and> trace_key tr' = trace_key tr"
  note i = inv [unfolded app_inv_def]
  have len: "1 \<le> ?len" using clamp_length_range [of v] by (simp add: LENGTH_MIN_def)
  have "\<forall>(i, g) \<in> set ?js. i < length (pa_traces ?app) \<and> (\<exists>tr'. g (pa_traces ?app ! i) = (Inr (), tr') \<and> ?Q (pa_traces ?app ! i) tr')"
    using trim_ok [OF _ len] i by auto
  from forM_on_trace [OF _ this] obtain trs where
    run: "io_forM (\<lambda>(i, g). on_trace i g) ?js ?app = (Inr (), ?app\<lparr>pa_traces := trs\<rparr>)" and l: "length trs = ?n"
    and all: "\<forall>i < length trs. if i \<in> fst ` set ?js then ?Q (pa_traces app ! i) (trs ! i) else trs ! i = pa_traces app ! i"
    by (auto simp: o_def)
  have each: "?Q (pa_traces app ! i) (trs ! i)" if "i < length trs" for i
    using all that l by (simp add: image_image)
  have "app_inv pf ks T (?app\<lparr>pa_traces := trs\<rparr>)"
    using i each keys_nth [of trs "pa_traces app"] l clamp_length_range [of v] by (auto simp: app_inv_def)
  moreover have "on_length_changed pf v app = (Inr (), apply_x_range pf (?app\<lparr>pa_traces := trs\<rparr>))"
    using run by (simp add: on_length_changed_def io_bind_run io_modify_def io_get_def io_forM_map comp_def Let_def)
  moreover have "app_inv pf ks T (apply_x_range pf (?app\<lparr>pa_traces := trs\<rparr>)) = app_inv pf ks T (?app\<lparr>pa_traces := trs\<rparr>)"
    by (rule app_inv_cong) simp_all
  ultimately show ?thesis by simp
qed

lemma on_period_inv:
  assumes "app_inv pf ks T app" and "PERIOD_MIN pf \<le> PERIOD_MAX" and "on_period_changed pf v app = (x, app')"
  shows "app_inv pf ks T app' \<and> pa_inflight app' = pa_inflight app"
proof (cases "clamp_period pf v")
  case (Inl e)
  then show ?thesis using assms(1,3) by (simp add: on_period_changed_def io_bind_run)
next
  case (Inr p)
  then have "app' = apply_x_range pf (app\<lparr>pa_period := p, pa_timer := Some (timer_ms pf p)\<rparr>)"
    using assms(3) by (simp add: on_period_changed_def io_bind_run io_modify_def)
  then show ?thesis using assms(1) clamp_period_range [OF assms(2) Inr] by (simp add: app_inv_def timer_ms_def)
qed

text \<open>A sample reports one result for every trace, the exception or what the read gave.\<close>

lemma sample_all_results:
  fixes w :: "'w plot_world"
  assumes "io_mapM (\<lambda>(i, tr). io_bind (io_try (trace_sample tr)) (\<lambda>x. io_return (i, x))) js w = (Inr rs, w')"
    and "\<And>i tr (w :: 'w plot_world) res w'. (i, tr) \<in> set js \<Longrightarrow> trace_sample tr w = (res, w') \<Longrightarrow> P res"
  shows "map fst rs = map fst js \<and> (\<forall>(i, res) \<in> set rs. P res)"
  using assms
proof (induction js arbitrary: rs w)
  case (Cons j js)
  obtain i tr where j: "j = (i, tr)" by (cases j)
  obtain res w1 where s: "trace_sample tr w = (res, w1)" by (cases "trace_sample tr w")
  obtain rs' where rs: "rs = (i, res) # rs'"
    and rest: "io_mapM (\<lambda>(i, tr). io_bind (io_try (trace_sample tr)) (\<lambda>x. io_return (i, x))) js w1 = (Inr rs', w')"
    using Cons.prems(1) by (auto simp: j s io_try_def io_bind_def split: prod.splits sum.splits)
  have "P res" using Cons.prems(2) [of i tr w res w1] s by (simp add: j)
  moreover have "map fst rs' = map fst js \<and> (\<forall>(i, res) \<in> set rs'. P res)"
    by (rule Cons.IH [OF rest], rule Cons.prems(2), rule list.set_intros(2))
  ultimately show ?case by (simp add: rs j)
qed simp

definition plot_inv :: "py_impl \<Rightarrow> (nat \<times> reg \<times> int option) list \<Rightarrow> 'w plot_sys \<Rightarrow> bool" where
  "plot_inv pf ks s \<longleftrightarrow>
     app_inv pf ks (ps_now s) (ps_app s) \<and> ps_jobs s + length (ps_queue s) = of_bool (pa_inflight (ps_app s)) \<and>
     (\<forall>rs \<in> set (ps_queue s). results_ok pf (length ks) rs)"

text \<open>The values of an entry convert to a float.\<close>

definition entry_fits :: "py_impl \<Rightarrow> 'w itself \<Rightarrow> nat \<times> reg \<times> int option \<Rightarrow> bool" where
  "entry_fits pf w k \<longleftrightarrow>
     (\<forall>tr (a :: 'w plot_world) b v ok. trace_key tr = k \<longrightarrow> trace_sample tr a = (Inr (v, ok), b) \<longrightarrow> (\<exists>y. py_float pf v = Inr y))"

lemma sample_step_ok:
  fixes w :: "'w plot_world"
  assumes "sample_all trs w = (Inr rs, w')" and "\<forall>k \<in> set (map trace_key trs). entry_fits pf TYPE('w) k"
  shows "results_ok pf (length trs) rs"
proof -
  have fits: "\<forall>v ok. res = Inr (v, ok) \<longrightarrow> (\<exists>y. py_float pf v = Inr y)"
    if "(i, tr) \<in> set (enumerate 0 trs)" and tr: "trace_sample tr a = (res, b)" for i tr res and a b :: "'w plot_world"
  proof -
    have "tr \<in> set trs" using that(1) by (auto simp: in_set_enumerate_eq)
    then have "entry_fits pf TYPE('w) (trace_key tr)" using assms(2) by simp
    then show ?thesis using tr unfolding entry_fits_def by blast
  qed
  show ?thesis
    using sample_all_results [OF assms(1) [unfolded sample_all_def], of "\<lambda>res. \<forall>v ok. res = Inr (v, ok) \<longrightarrow> (\<exists>y. py_float pf v = Inr y)"] fits
    unfolding results_ok_def by simp
qed

lemma plot_step_inv:
  fixes s :: "'w plot_sys"
  assumes step: "plot_step pf s s'" and inv: "plot_inv pf ks s" and fits: "\<forall>k \<in> set ks. entry_fits pf TYPE('w) k"
    and "PERIOD_MIN pf \<le> PERIOD_MAX"
  shows "plot_inv pf ks s'"
  using step
proof cases
  case step_tick
  have "app_inv pf ks (ps_now s) ((ps_app s)\<lparr>pa_inflight := True\<rparr>) = app_inv pf ks (ps_now s) (ps_app s)"
    by (rule app_inv_cong) simp_all
  then show ?thesis using inv step_tick by (auto simp: tick_sys_def tick_def plot_inv_def)
next
  case (step_sample rs w)
  have k: "map trace_key (pa_traces (ps_app s)) = ks" using inv by (simp add: plot_inv_def app_inv_def)
  then have "length (pa_traces (ps_app s)) = length ks" by auto
  then have "results_ok pf (length ks) rs" using sample_step_ok [OF step_sample(4)] fits k by metis
  then show ?thesis using inv step_sample(1,2) by (cases "pa_inflight (ps_app s)"; cases "ps_queue s") (simp_all add: plot_inv_def)
next
  case (step_show rs q t x app)
  have r: "results_ok pf (length ks) rs" using inv step_show(2) by (simp add: plot_inv_def)
  obtain app' where a: "on_samples pf t rs (ps_app s) = (Inr (), app')" "app_inv pf ks t app'" "\<not> pa_inflight app'"
    using on_samples_inv [OF _ r step_show(3)] inv by (auto simp: plot_inv_def)
  have "ps_jobs s = 0 \<and> q = []" using inv step_show(2) by (cases "pa_inflight (ps_app s)") (auto simp: plot_inv_def)
  then show ?thesis using a step_show(1,4) by (simp add: plot_inv_def)
next
  case (step_period v x app)
  then show ?thesis using on_period_inv [OF _ assms(4) step_period(2)] inv by (auto simp: plot_inv_def)
next
  case (step_length v x app)
  then show ?thesis using on_length_inv [of pf ks "ps_now s" "ps_app s" v] inv by (auto simp: plot_inv_def)
next
  case step_close
  then show ?thesis using inv by (auto simp: close_sys_def plot_inv_def app_inv_def)
next
  case (step_world w)
  then show ?thesis using inv by (simp add: plot_inv_def)
qed

text \<open>A trace that was made and not sampled yet.\<close>

definition fresh_trace :: "trace \<Rightarrow> bool" where
  "fresh_trace tr \<longleftrightarrow> trace_shows tr []"

lemma run_plot_app_inv:
  assumes "run_plot_app pf traces period len w = Inr s" and "\<forall>tr \<in> set traces. fresh_trace tr" and "PERIOD_MIN pf \<le> PERIOD_MAX"
  shows "plot_inv pf (map trace_key traces) s"
proof -
  obtain p where p: "clamp_period pf period = Inr p"
    and s: "s = tick_sys \<lparr>ps_app = \<lparr>pa_traces = map (\<lambda>tr. tr\<lparr>tr_curve := ([], []), tr_scatter := ([], [])\<rparr>) traces, pa_period = p,
            pa_length = clamp_length len, pa_ranges_fixed = False, pa_inflight = False,
            pa_timer = Some (timer_ms pf p), pa_x_range = None, pa_y_range = None\<rparr>, ps_jobs = 0, ps_queue = [], ps_now = 0,
            ps_loop = True, ps_world = w\<rparr>"
    using assms(1) by (auto simp: run_plot_app_def PlotApp_init_def rbind_Inr_iff)
  have "trace_ok 0 (clamp_length len) (tr\<lparr>tr_curve := ([], []), tr_scatter := ([], [])\<rparr>)" if "tr \<in> set traces" for tr
    using assms(2) that clamp_length_range [of len]
    by (auto simp: trace_ok_def trace_shows_def fresh_trace_def LENGTH_MIN_def intro!: exI [of _ "[]"])
  then show ?thesis
    using clamp_period_range [OF assms(3) p] clamp_length_range [of len]
    by (auto simp: s tick_sys_def tick_def plot_inv_def app_inv_def timer_ms_def trace_key_def)
qed

lemma plot_reachable_inv:
  fixes s :: "'w plot_sys"
  assumes "(plot_step pf)\<^sup>*\<^sup>* s0 s" and "plot_inv pf ks s0" and "\<forall>k \<in> set ks. entry_fits pf TYPE('w) k" and "PERIOD_MIN pf \<le> PERIOD_MAX"
  shows "plot_inv pf ks s"
  using assms(1,2) by (induction rule: rtranclp_induct) (use plot_step_inv assms(3,4) in blast)+

section \<open>A window that runs\<close>

lemma read_converted_uint:
  assumes "read_converted_cached r m = Inr v" and "vt_kind (rg_type r) = VK_uint" and "rg_v_convert r = None" and "0 \<le> rg_size r"
  shows "\<exists>i. v = PNum (PInt i) \<and> 0 \<le> i \<and> i < 256 ^ nat (rg_size r)"
proof -
  obtain a b where b: "b = read_cached a (rg_size r) m"
    and v: "v = PNum (PInt (if vt_width (rg_type r) \<noteq> rg_size r * 8
      then le_to_int b AND (push_bit (nat (vt_width (rg_type r))) 1 - 1) else le_to_int b))"
    using assms(1-3) by (auto simp: read_converted_cached_def read_value_cached_def read_uint_cached_def read_bytes_cached_def
        from_raw_value_def from_raw_def rbind_Inr_iff Let_def)
  have "length b \<le> nat (rg_size r)"
    using assms(4) by (auto simp: b read_cached_def py_slice_def py_clamp_def Let_def)
  then have "(256::int) ^ length b \<le> 256 ^ nat (rg_size r)" by (rule power_increasing) simp
  then have le: "0 \<le> le_to_int b \<and> le_to_int b < 256 ^ nat (rg_size r)"
    using le_to_int_bounds [of b] order_less_le_trans by blast
  have "0 \<le> le_to_int b AND k \<and> le_to_int b AND k \<le> le_to_int b" for k
    using le by (simp add: AND_upper1)
  then show ?thesis using le v by fastforce
qed

lemma uint_entry_fits:
  assumes "vt_kind (rg_type r) = VK_uint" and "rg_v_convert r = None" and "0 \<le> rg_size r" and "rg_size r \<le> 100"
  shows "entry_fits pf TYPE('w) (m, r, None)"
  unfolding entry_fits_def
proof (intro allI impI)
  fix tr and a b :: "'w plot_world" and v ok
  assume k: "trace_key tr = (m, r, None)" and run: "trace_sample tr a = (Inr (v, ok), b)"
  have f: "tr_reg tr = r" "tr_idx tr = None" using k by (simp_all add: trace_key_def)
  obtain w1 where "on_module (tr_module tr) (read_converted r) a = (Inr v, w1)"
    using run unfolding trace_sample_def Let_def f option.case io_bind_Inr_iff by auto
  then obtain mm :: "'w modmem" where "read_converted_cached r mm = Inr v"
    by (auto simp: on_module_def read_converted_def after_read_def mm_get_def io_bind_Inr_iff split: prod.splits)
  then obtain i where i: "v = PNum (PInt i)" "0 \<le> i" "i < 256 ^ nat (rg_size r)" using read_converted_uint [OF _ assms(1-3)] by blast
  have "(256::int) ^ nat (rg_size r) \<le> 256 ^ 100" using assms(4) by (intro power_increasing) auto
  moreover have "(256::int) ^ 100 < FLOAT_OVERFLOW" by (simp add: FLOAT_OVERFLOW_def)
  ultimately show "\<exists>y. py_float pf v = Inr y" using i by (simp add: py_float_def)
qed

section \<open>Properties\<close>

text \<open>
  C25: a trace is a rolling window on its samples. Adding a sample to a trace that shows the samples \<open>ws\<close> makes it
  show the last ones, at most as many as the length of the plot, of \<open>ws\<close> and the new one, and shortening
  the plot makes it show the last ones of \<open>ws\<close>; the markers are those of the failing samples shown, and
  no deque runs empty. The times grow strictly, as those of \<^verbatim>\<open>time.monotonic\<close> between two samples.
\<close>

theorem plot_window_refines:
  assumes "trace_shows tr ws" and "sorted_wrt (<) (map fst ws @ [t])" and "1 \<le> len" and "py_float pf v = Inr y"
  shows "(\<exists>tr'. add_sample pf t v ok len tr = (Inr (), tr') \<and> trace_shows tr' (last_samples len (ws @ [(t, y, ok)]))) \<and>
    (\<exists>tr'. trim_trace len tr = (Inr (), tr') \<and> trace_shows tr' (last_samples len ws))"
  by (rule plot_window_step [OF assms])

definition example_trace :: trace where
  "example_trace = Trace_init 0 example_module (example_reg Acc_k VK_uint 12 None) None"

theorem plot_window_refines_witness:
  "\<exists>tr'. add_sample example_pf 3 (PNum (PInt 7)) False 2
      (example_trace\<lparr>tr_xs := [1, 2], tr_ys := [5, 6], tr_bad_xs := [1], tr_bad_ys := [5]\<rparr>) = (Inr (), tr') \<and>
    tr_xs tr' = [2, 3] \<and> tr_ys tr' = [6, 7] \<and> tr_bad_xs tr' = [3] \<and> tr_bad_ys tr' = [7]"
proof -
  have f: "py_float example_pf (PNum (PInt 7)) = Inr 7" by (simp add: py_float_def example_pf_def FLOAT_OVERFLOW_def)
  show ?thesis
    using plot_window_refines [OF _ _ _ f, of "example_trace\<lparr>tr_xs := [1, 2], tr_ys := [5, 6], tr_bad_xs := [1], tr_bad_ys := [5]\<rparr>"
        "[(1, 5, False), (2, 6, True)]" 3 2 False]
    by (auto simp: trace_shows_def last_samples_def)
qed

text \<open>
  C24: the bounds of a running plot. Whatever the timer, the device and the user do, the length of the plot stays
  between 1 and a million points and the period in its range; every curve has as many times as values, in
  order, and no more than the length; the marked samples are samples of the curve, with their values; the
  timer never runs at 0 ms, and at most one sample is being taken or waiting to be shown. The values of the
  registers have to fit a float.
\<close>

theorem plot_bounds:
  fixes s :: "'w plot_sys"
  assumes "run_plot_app pf traces period len w = Inr s0" and "(plot_step pf)\<^sup>*\<^sup>* s0 s"
    and "\<forall>tr \<in> set traces. fresh_trace tr" and "\<forall>k \<in> set (map trace_key traces). entry_fits pf TYPE('w) k"
    and "PERIOD_MIN pf \<le> PERIOD_MAX"
  shows "1 \<le> pa_length (ps_app s) \<and> pa_length (ps_app s) \<le> 1000000 \<and>
    PERIOD_MIN pf \<le> pa_period (ps_app s) \<and> pa_period (ps_app s) \<le> 3600 \<and>
    pa_timer (ps_app s) \<noteq> Some 0 \<and> ps_jobs s + length (ps_queue s) \<le> 1 \<and>
    (\<forall>tr \<in> set (pa_traces (ps_app s)).
       int (length (tr_xs tr)) \<le> pa_length (ps_app s) \<and> length (tr_ys tr) = length (tr_xs tr) \<and> sorted_wrt (<) (tr_xs tr) \<and>
       length (tr_bad_ys tr) = length (tr_bad_xs tr) \<and> set (zip (tr_bad_xs tr) (tr_bad_ys tr)) \<subseteq> set (zip (tr_xs tr) (tr_ys tr)))"
proof -
  have inv: "plot_inv pf (map trace_key traces) s"
    by (rule plot_reachable_inv [OF assms(2) run_plot_app_inv [OF assms(1,3,5)] assms(4,5)])
  have "int (length (tr_xs tr)) \<le> pa_length (ps_app s) \<and> length (tr_ys tr) = length (tr_xs tr) \<and> sorted_wrt (<) (tr_xs tr) \<and>
       length (tr_bad_ys tr) = length (tr_bad_xs tr) \<and> set (zip (tr_bad_xs tr) (tr_bad_ys tr)) \<subseteq> set (zip (tr_xs tr) (tr_ys tr))"
    if tr: "tr \<in> set (pa_traces (ps_app s))" for tr
  proof -
    have "trace_ok (ps_now s) (pa_length (ps_app s)) tr" using inv tr by (auto simp: plot_inv_def app_inv_def in_set_conv_nth)
    then show ?thesis by (auto simp: trace_ok_def trace_shows_def zip_map_map zip_same_conv_map)
  qed
  then show ?thesis using inv
    by (auto simp: plot_inv_def app_inv_def LENGTH_MIN_def LENGTH_MAX_def PERIOD_MAX_def)
qed



lemma example_fits: "entry_fits pf TYPE('w) (trace_key example_trace)"
  unfolding example_trace_def Trace_init_def trace_key_def trace.simps
  by (rule uint_entry_fits) (simp_all add: example_reg_def)

lemma example_sample: "trace_sample example_trace (w, \<lambda>_. example_mem) = (Inr (PNum (PInt 0), True), (w, \<lambda>_. example_mem))"
  by (simp add: trace_sample_def example_trace_def Trace_init_def on_module_def read_converted_def after_read_def read_bytes_def
      mm_get_def read_bytes_cached_def reg_addr_def read_cached_def cache_addr_def example_mem_def read_converted_cached_def
      read_value_cached_def read_uint_cached_def from_raw_value_def from_raw_def io_bind_run example_reg_def py_slice_def
      py_clamp_def Let_def fun_upd_idem eval_nat_numeral)

theorem plot_bounds_witness:
  "\<exists>s. (plot_step example_pf)\<^sup>*\<^sup>* (tick_sys \<lparr>ps_app = \<lparr>pa_traces = [example_trace], pa_period = 1 / 100, pa_length = 1,
        pa_ranges_fixed = False, pa_inflight = False, pa_timer = Some 10, pa_x_range = None, pa_y_range = None\<rparr>, ps_jobs = 0,
        ps_queue = [], ps_now = 0, ps_loop = True, ps_world = ([] :: regions, \<lambda>_. example_mem)\<rparr>) s \<and>
    map tr_ys (pa_traces (ps_app s)) = [[0]] \<and> ps_jobs s + length (ps_queue s) \<le> 1 \<and> pa_period (ps_app s) \<le> 3600"
proof -
  let ?s0 = "tick_sys \<lparr>ps_app = \<lparr>pa_traces = [example_trace], pa_period = 1 / 100, pa_length = 1,
        pa_ranges_fixed = False, pa_inflight = False, pa_timer = Some 10, pa_x_range = None, pa_y_range = None\<rparr>, ps_jobs = 0,
        ps_queue = [], ps_now = 0, ps_loop = True, ps_world = ([] :: regions, \<lambda>_. example_mem)\<rparr>"
  have start: "run_plot_app example_pf [example_trace] (PFlt 0) (PInt 0) ([] :: regions, \<lambda>_. example_mem) = Inr ?s0"
    by (simp add: run_plot_app_def PlotApp_init_def clamp_period_def py_float_def PERIOD_MIN_def PERIOD_MAX_def example_pf_def
        clamp_length_def py_num_int_def LENGTH_MIN_def LENGTH_MAX_def timer_ms_def py_round_def example_trace_def Trace_init_def)
  let ?rs = "[(0, Inr (PNum (PInt 0), True))] :: (nat \<times> sample_result) list"
  let ?s1 = "?s0\<lparr>ps_jobs := 0, ps_queue := [?rs]\<rparr>"
  have "sample_all (pa_traces (ps_app ?s0)) (ps_world ?s0) = (Inr ?rs, ([] :: regions, \<lambda>_. example_mem))"
    using example_sample [of "[] :: regions"] by (simp add: sample_all_def tick_sys_def tick_def io_try_def io_bind_run)
  then have 1: "plot_step example_pf ?s0 ?s1"
    using step_sample [of ?s0 ?rs "([] :: regions, \<lambda>_. example_mem)" example_pf] by (simp add: tick_sys_def tick_def)
  have fresh: "\<forall>tr \<in> set [example_trace]. fresh_trace tr"
    by (simp add: fresh_trace_def trace_shows_def example_trace_def Trace_init_def)
  have fits: "\<forall>k \<in> set (map trace_key [example_trace]). entry_fits example_pf TYPE(regions) k" using example_fits by simp
  have pm: "PERIOD_MIN example_pf \<le> PERIOD_MAX" by (simp add: PERIOD_MIN_def PERIOD_MAX_def example_pf_def)
  obtain x app where r: "on_samples example_pf 1 ?rs (ps_app ?s1) = (x, app)" by (cases "on_samples example_pf 1 ?rs (ps_app ?s1)")
  let ?s2 = "?s1\<lparr>ps_app := app, ps_queue := [], ps_now := 1\<rparr>"
  have 2: "plot_step example_pf ?s1 ?s2" by (rule step_show [OF _ _ r]) (simp_all add: tick_sys_def tick_def)
  have reach: "(plot_step example_pf)\<^sup>*\<^sup>* ?s0 ?s2" using 1 2 by (meson converse_rtranclp_into_rtranclp rtranclp.rtrancl_refl)
  have "map tr_ys (pa_traces app) = [[0]]"
    using r by (auto simp: on_samples_def io_bind_run io_modify_def io_get_def on_trace_def trace_result_def add_sample_def
        pop_samples_def pop_bad_def set_data_def tick_sys_def tick_def example_trace_def Trace_init_def py_float_def FLOAT_OVERFLOW_def
        example_pf_def set_fixed_ranges_fields split: if_splits)
  moreover have "ps_jobs ?s2 + length (ps_queue ?s2) \<le> 1 \<and> pa_period (ps_app ?s2) \<le> 3600"
    by (intro conjI) (use plot_bounds [OF start reach fresh fits pm] in simp_all)
  ultimately show ?thesis using reach by - (rule exI [of _ ?s2], simp)
qed


section \<open>Tokens and traces\<close>

lemma add_tokens_specs:
  assumes "\<forall>t \<in> set specs. try_addr t = None"
  shows "add_tokens (specs @ ts) (groups @ [(a, done)]) = add_tokens ts (groups @ [(a, done @ specs)])"
  using assms by (induction specs arbitrary: "done") simp_all

lemma add_tokens_groups:
  "\<forall>(a, specs) \<in> set xs. try_addr a \<noteq> None \<and> (\<forall>s \<in> set specs. try_addr s = None) \<Longrightarrow>
    add_tokens (concat (map (\<lambda>(a, specs). a # specs) xs)) groups = Inr (groups @ map (\<lambda>(a, specs). (the (try_addr a), specs)) xs)"
proof (induction xs arbitrary: groups)
  case (Cons x xs)
  obtain a specs where x: "x = (a, specs)" by (cases x)
  obtain n where n: "try_addr a = Some n" using Cons.prems by (auto simp: x)
  have "\<forall>s \<in> set specs. try_addr s = None" using Cons.prems by (simp add: x)
  then show ?case using Cons n add_tokens_specs [of specs "concat (map (\<lambda>(a, specs). a # specs) xs)" groups n "[]"] by (simp add: x)
qed simp

lemma add_tokens_spelled:
  assumes "add_tokens ts groups = Inr gs" and "groups = map (\<lambda>(a, specs). (the (try_addr a), specs)) pre"
    and "\<forall>(a, specs) \<in> set pre. try_addr a \<noteq> None \<and> (\<forall>s \<in> set specs. try_addr s = None)"
  shows "\<exists>xs. concat (map (\<lambda>(a, specs). a # specs) pre) @ ts = concat (map (\<lambda>(a, specs). a # specs) xs) \<and>
    gs = map (\<lambda>(a, specs). (the (try_addr a), specs)) xs \<and>
    (\<forall>(a, specs) \<in> set xs. try_addr a \<noteq> None \<and> (\<forall>s \<in> set specs. try_addr s = None))"
  using assms
proof (induction ts groups arbitrary: pre rule: add_tokens.induct)
  case (1 groups)
  then show ?case by (intro exI [of _ pre]) simp
next
  case (2 token ts groups)
  show ?case
  proof (cases "try_addr token")
    case (Some addr)
    have p: "groups @ [(addr, [])] = map (\<lambda>(a, specs). (the (try_addr a), specs)) (pre @ [(token, [])])" using 2(4) Some by simp
    have "add_tokens ts (groups @ [(addr, [])]) = Inr gs" using 2(3) Some by simp
    from 2(2) [OF Some this p] 2(5) Some show ?thesis by simp
  next
    case None
    then have ne: "groups \<noteq> []" and run: "add_tokens ts (butlast groups @ [(fst (last groups), snd (last groups) @ [token])]) = Inr gs"
      using 2(3) by (auto split: if_splits)
    obtain ps a specs where pre: "pre = ps @ [(a, specs)]" using ne 2(4) by (cases pre rule: rev_cases) auto
    have p: "butlast groups @ [(fst (last groups), snd (last groups) @ [token])] =
        map (\<lambda>(a, specs). (the (try_addr a), specs)) (ps @ [(a, specs @ [token])])" using 2(4) by (simp add: pre)
    from 2(1) [OF None ne run p] 2(5) None show ?thesis by (simp add: pre)
  qed
qed

text \<open>
  The groups of the command line. The tokens are accepted exactly when they are module addresses, each followed
  by at least one token that is no address, and the groups are those: no token is lost, moved to another
  module or taken twice.
\<close>

theorem parse_targets_groups:
  "parse_targets ts = Inr gs \<longleftrightarrow>
    (\<exists>xs. ts = concat (map (\<lambda>(a, specs). a # specs) xs) \<and> gs = map (\<lambda>(a, specs). (the (try_addr a), specs)) xs \<and>
      (\<forall>(a, specs) \<in> set xs. try_addr a \<noteq> None \<and> specs \<noteq> [] \<and> (\<forall>s \<in> set specs. try_addr s = None)))"
proof
  assume "parse_targets ts = Inr gs"
  then have run: "add_tokens ts [] = Inr gs" and ne: "\<forall>g \<in> set gs. snd g \<noteq> []"
    by (auto simp: parse_targets_def rbind_Inr_iff split: if_splits)
  obtain xs where xs: "ts = concat (map (\<lambda>(a, specs). a # specs) xs)" "gs = map (\<lambda>(a, specs). (the (try_addr a), specs)) xs"
    "\<forall>(a, specs) \<in> set xs. try_addr a \<noteq> None \<and> (\<forall>s \<in> set specs. try_addr s = None)"
    using add_tokens_spelled [OF run, of "[]"] by auto
  then show "\<exists>xs. ts = concat (map (\<lambda>(a, specs). a # specs) xs) \<and> gs = map (\<lambda>(a, specs). (the (try_addr a), specs)) xs \<and>
      (\<forall>(a, specs) \<in> set xs. try_addr a \<noteq> None \<and> specs \<noteq> [] \<and> (\<forall>s \<in> set specs. try_addr s = None))"
    using ne by (intro exI [of _ xs]) fastforce
next
  assume "\<exists>xs. ts = concat (map (\<lambda>(a, specs). a # specs) xs) \<and> gs = map (\<lambda>(a, specs). (the (try_addr a), specs)) xs \<and>
      (\<forall>(a, specs) \<in> set xs. try_addr a \<noteq> None \<and> specs \<noteq> [] \<and> (\<forall>s \<in> set specs. try_addr s = None))"
  then obtain xs where xs: "ts = concat (map (\<lambda>(a, specs). a # specs) xs)" "gs = map (\<lambda>(a, specs). (the (try_addr a), specs)) xs"
    "\<forall>(a, specs) \<in> set xs. try_addr a \<noteq> None \<and> specs \<noteq> [] \<and> (\<forall>s \<in> set specs. try_addr s = None)" by blast
  have "\<forall>(a, specs) \<in> set xs. try_addr a \<noteq> None \<and> (\<forall>s \<in> set specs. try_addr s = None)" using xs(3) by blast
  then have "add_tokens ts [] = Inr gs" using add_tokens_groups [of xs "[]"] by (simp add: xs(1,2))
  moreover have "\<not> (\<exists>g \<in> set gs. snd g = [])" using xs(2,3) by auto
  ultimately show "parse_targets ts = Inr gs" by (simp add: parse_targets_def)
qed

text \<open>
  The traces of a token: of one register that has its name and holds no chars, the whole of a scalar, an
  element inside a vector. They were not sampled, so a plot of them starts in the invariant.
\<close>

lemma make_traces_valid:
  assumes "make_traces m c token = Inr trs" and "tr \<in> set trs"
  shows "\<exists>name idx r. parse_reg_spec token = Inr (name, idx) \<and> r \<in> set (mo_arr_reg_var c @ mo_arr_reg_k c) \<and> rg_name r = name \<and>
    vt_kind (rg_type r) \<noteq> VK_char \<and> fresh_trace tr \<and> trace_key tr = (m, r, tr_idx tr) \<and>
    (if is_reg_vec r then \<exists>n i. vt_vec_len (rg_type r) = Some n \<and> tr_idx tr = Some i \<and> i < n else tr_idx tr = None)"
proof -
  obtain name idx r where spec: "parse_reg_spec token = Inr (name, idx)" and r: "find_reg c name = Inr r"
    using assms(1) by (auto simp: make_traces_def rbind_Inr_iff)
  have rm: "r \<in> set (mo_arr_reg_var c @ mo_arr_reg_k c)" "rg_name r = name"
    using r by (auto simp: find_reg_def find_Some_iff in_set_conv_nth simp del: set_append split: option.splits)
  have f: "fresh_trace (Trace_init m c r i)" "trace_key (Trace_init m c r i) = (m, r, i)" "tr_idx (Trace_init m c r i) = i" for i
    by (simp_all add: fresh_trace_def trace_shows_def Trace_init_def trace_key_def)
  show ?thesis
    using assms spec r rm
    by (intro exI [of _ name] exI [of _ idx] exI [of _ r])
      (auto simp: make_traces_def rbind_Inr_iff checked_traces_def plot_vec_len_def f split: if_splits option.splits)
qed

theorem parse_targets_groups_witness:
  "parse_targets [''0x10'', ''a'', ''b[2]'', ''32'', ''c''] = Inr [(16, [''a'', ''b[2]'']), (32, [''c''])]"
proof -
  let ?xs = "[(''0x10'', [''a'', ''b[2]'']), (''32'', [''c''])]"
  have n: "try_addr ''a'' = None" "try_addr ''b[2]'' = None" "try_addr ''c'' = None" "try_addr ''0x10'' = Some 16" "try_addr ''32'' = Some 32"
    by code_simp+
  show ?thesis
    by (rule iffD2 [OF parse_targets_groups]) (rule exI [of _ ?xs], simp add: n)
qed

text \<open>
  A value that does not fit a float: the time of the sample stays behind without a value, the curve has one
  more time than values from then on.
\<close>

lemma add_sample_overflow:
  assumes "trace_shows tr ws" and "1 \<le> len" and "py_float pf v = Inl e"
  shows "\<exists>tr'. add_sample pf t v ok len tr = (Inl e, tr') \<and> length (tr_xs tr') = length (tr_ys tr') + 1"
  using pop_samples_shows [OF assms(1), of "len - 1"] assms(2,3)
  by (simp add: add_sample_def io_bind_run io_modify_def)

end
