(* ===== verification/SkmapEdit.thy ===== *)
theory SkmapEdit
  imports ModuleTree RegioProxy ExternalMem RegPrint RecipeNum
begin

text \<open>
  \<^verbatim>\<open>pip/skmap_ui/src/skmap_ui/app.py\<close>, the edit of values: the text an input line starts with, the parser of
  what was typed, what a submitted line writes, the steps of the plus and minus keys, the random values of a
  trigger, and the coroutines that write. The coroutines catch every exception of the device and report a
  warning: their result here is whether the write went through (then the shown cells are refreshed from the
  cached image). \<open>rd\<close> is \<^verbatim>\<open>float(text)\<close>, \<open>None\<close> where it raises \<^verbatim>\<open>ValueError\<close>.
\<close>

section \<open>Texts of numbers\<close>

text \<open>\<^verbatim>\<open>1 << n\<close>; a value type has no negative width, \<open>n\<close> is negative for a width of 0 only.\<close>

definition shl1 :: "int \<Rightarrow> int res" where
  "shl1 n = (if n < 0 then Inl ValueError else Inr (2 ^ nat n))"

definition hex_digits_of :: "int \<Rightarrow> int" where
  "hex_digits_of width = - (- width div 4)"

definition bits_str :: "int \<Rightarrow> int \<Rightarrow> value_kind \<Rightarrow> string res" where
  "bits_str v width kind =
     rbind (shl1 width) (\<lambda>p.
       let hd = hex_digits_of width; v = v AND (p - 1) in
     rbind (if kind = VK_sint then rbind (shl1 (width - 1)) (\<lambda>h. Inr (v AND h \<noteq> 0)) else Inr False) (\<lambda>neg.
     rbind (if neg then rbind (shl1 (hd * 4)) (\<lambda>q. Inr (v OR (q - p))) else Inr v) (\<lambda>v.
       Inr (''0x'' @ py_fmt0 16 True hd v))))"

definition is_hex_literal :: "string \<Rightarrow> bool" where
  "is_hex_literal text \<longleftrightarrow>
     take 2 (dropWhile (\<lambda>c. c = CHR ''+'' \<or> c = CHR ''-'') (py_strip text)) \<in> {''0x'', ''0X''}"

definition is_raw_write :: "reg option \<Rightarrow> string \<Rightarrow> bool" where
  "is_raw_write ro text \<longleftrightarrow>
     (case ro of None \<Rightarrow> False | Some r \<Rightarrow> has_v_convert r \<and> is_hex_literal (py_strip text))"

section \<open>The text an edit starts with\<close>

text \<open>Of a register or one element of it, and of an element of a memory. A lane of single flags is a bool.\<close>

definition lane_bits :: "reg \<Rightarrow> 'w modmem \<Rightarrow> int option \<Rightarrow> int res" where
  "lane_bits r m idx = (case idx of Some i \<Rightarrow> read_idx_uint_cached r i m | None \<Rightarrow> read_uint_cached r m)"

definition value_text :: "py_impl \<Rightarrow> bool \<Rightarrow> reg \<Rightarrow> 'w modmem \<Rightarrow> int option \<Rightarrow> string res" where
  "value_text pf value_bits r m idx =
     (let k = vt_kind (rg_type r); w = vt_width (rg_type r) in
      if k = VK_bits \<or> (k \<in> {VK_uint, VK_sint} \<and> value_bits) then
        rbind (lane_bits r m idx) (\<lambda>raw. bits_str raw w k)
      else if has_v_convert r then
        rbind (case idx of Some i \<Rightarrow> read_converted_idx_cached r i m | None \<Rightarrow> read_converted_cached r m) (\<lambda>v. Inr (py_val_str pf v))
      else
        (case idx of
           Some i \<Rightarrow>
             if k = VK_flag then
               rbind (rassert (is_bool (rg_type r))) (\<lambda>_. rbind (read_idx_bool_cached r i m) (\<lambda>b. Inr (py_str_bool b)))
             else rbind (read_idx_value_cached r i m) (\<lambda>v. Inr (py_val_str pf v))
         | None \<Rightarrow> rbind (read_value_cached r m) (\<lambda>v. Inr (py_val_str pf v))))"

definition mem_value_text :: "bool \<Rightarrow> 'w xmem \<Rightarrow> int \<Rightarrow> string res" where
  "mem_value_text value_bits x i =
     rbind (xm_type x) (\<lambda>t.
       if vt_kind t = VK_bits \<or> (vt_kind t \<in> {VK_uint, VK_sint} \<and> value_bits)
       then rbind (xm_read_idx_uint_cached i x) (\<lambda>raw. bits_str raw (vt_width t) (vt_kind t))
       else rbind (xm_read_idx_value_cached i x) (\<lambda>v. Inr (py_str_int v)))"

section \<open>The text that was typed\<close>

text \<open>
  \<open>ro\<close> is the register, with the image of its module for the check, or nothing for a memory. \<open>None\<close> refuses
  the text.
\<close>

definition in_kind_range :: "value_type \<Rightarrow> string \<Rightarrow> int \<Rightarrow> int option res" where
  "in_kind_range t text v =
     rbind (shl1 (vt_width t)) (\<lambda>p.
       if vt_kind t = VK_sint then
         rbind (shl1 (vt_width t - 1)) (\<lambda>h.
           Inr (if v < 0 then (if v < - h then None else Some v)
                else if v \<ge> h then (if \<not> is_hex_literal text \<or> v \<ge> p then None else Some (v - p))
                else Some v))
       else Inr (if 0 \<le> v \<and> v < p then Some v else None))"

definition parse_lane :: "(string \<Rightarrow> rat option) \<Rightarrow> value_type \<Rightarrow> reg option \<Rightarrow> 'w modmem \<Rightarrow> string \<Rightarrow> pynum option res" where
  "parse_lane rd t ro m text =
     (let s = py_strip text; raw = is_raw_write ro s in
      if (case ro of None \<Rightarrow> False | Some r \<Rightarrow> v_type_is_float (rg_v_type r)) \<and> \<not> is_hex_literal s
      then Inr (map_option PFlt (rd s))
      else
        (case int_text s of
           None \<Rightarrow> Inr None
         | Some v \<Rightarrow>
             rbind (in_kind_range t s v) (\<lambda>u.
               case (u, ro) of
                 (Some v, Some r) \<Rightarrow>
                   if raw then Inr (Some (PInt v))
                   else rbind (ass_check_value_limit r m (PInt v)) (\<lambda>a. Inr (if a \<ge> Ass_error then None else Some (PInt v)))
               | (Some v, None) \<Rightarrow> Inr (Some (PInt v))
               | (None, _) \<Rightarrow> Inr None)))"

definition parse_value :: "(string \<Rightarrow> rat option) \<Rightarrow> reg \<Rightarrow> 'w modmem \<Rightarrow> string \<Rightarrow> pynum option res" where
  "parse_value rd r m text = parse_lane rd (rg_type r) (Some r) m text"

text \<open>
  A random value for a trigger, found in at most 64 tries: \<open>draws\<close> are the numbers drawn, an integer of the
  range and the fraction added for a float.
\<close>

definition RANDOM_CHECK_TRIES :: nat where "RANDOM_CHECK_TRIES = 64"

definition random_range :: "value_type \<Rightarrow> (int \<times> int) res" where
  "random_range t =
     (if vt_kind t = VK_sint then rbind (shl1 (vt_width t - 1)) (\<lambda>h. Inr (- h, h - 1))
      else rbind (shl1 (vt_width t)) (\<lambda>p. Inr (0, p - 1)))"

definition random_value_ok :: "py_impl \<Rightarrow> reg \<Rightarrow> 'w modmem \<Rightarrow> pynum \<Rightarrow> bool res" where
  "random_value_ok pf r m v =
     rbind (ass_check_value_limit r m v) (\<lambda>a.
       if a \<ge> Ass_error then Inr False
       else if \<not> has_v_convert r then Inr True
       else (case rbind (to_raw pf r m v) (check_value_fits_reg r) of
               Inr _ \<Rightarrow> Inr True
             | Inl e \<Rightarrow> if e = ValueError then Inr False else Inl e))"

fun random_tries :: "py_impl \<Rightarrow> reg \<Rightarrow> 'w modmem \<Rightarrow> nat \<Rightarrow> (int \<times> rat) list \<Rightarrow> pynum option res" where
  "random_tries pf r m (Suc n) ((i, x) # draws) =
     (let v = (if v_type_is_float (rg_v_type r) then PFlt (pf_round pf (pf_round pf (of_int i) + x)) else PInt i) in
      rbind (random_value_ok pf r m v) (\<lambda>ok. if ok then Inr (Some v) else random_tries pf r m n draws))"
| "random_tries pf r m n draws = Inr None"

definition random_limit_value :: "py_impl \<Rightarrow> reg \<Rightarrow> 'w modmem \<Rightarrow> (int \<times> rat) list \<Rightarrow> pynum option res" where
  "random_limit_value pf r m draws =
     rbind (random_range (rg_type r)) (\<lambda>_. random_tries pf r m RANDOM_CHECK_TRIES draws)"

section \<open>Writing\<close>

datatype write_op = Op_write | Op_clear | Op_step

datatype write_value = W_num pynum | W_list "pynum list"

definition write_values :: "write_value \<Rightarrow> pynum list" where
  "write_values v = (case v of W_num n \<Rightarrow> [n] | W_list ns \<Rightarrow> ns)"

text \<open>\<^verbatim>\<open>any(reg.ass_check_value_limit(v) >= Ass.error for v in values)\<close>\<close>

fun any_fails :: "reg \<Rightarrow> 'w modmem \<Rightarrow> pynum list \<Rightarrow> bool res" where
  "any_fails r m [] = Inr False"
| "any_fails r m (v # vs) =
     rbind (ass_check_value_limit r m v) (\<lambda>a. if a \<ge> Ass_error then Inr True else any_fails r m vs)"

definition is_vec_reg :: "reg \<Rightarrow> bool" where
  "is_vec_reg r \<longleftrightarrow> (case rg_class r of RC_vec _ \<Rightarrow> True | _ \<Rightarrow> False)"

text \<open>The write of a row; the method of the class. A vector takes a list, the others take a number.\<close>

definition row_writer :: "py_impl \<Rightarrow> reg \<Rightarrow> write_value \<Rightarrow> write_op \<Rightarrow> bool \<Rightarrow> ('w \<times> 'w modmem, unit) io" where
  "row_writer pf r v op raw =
     (let sint = vt_kind (rg_type r) = VK_sint in
      if op = Op_clear then write_zero r
      else if has_v_convert r \<and> \<not> raw then
        (case v of
           W_num n \<Rightarrow> if is_vec_reg r then io_raise TypeError else write_converted pf r n
         | W_list ns \<Rightarrow> if is_vec_reg r then vec_write_converted pf r ns else io_raise TypeError)
      else
        (case v of
           W_list ns \<Rightarrow>
             if \<not> is_vec_reg r then io_raise AttributeError
             else if sint then write_list_sint r ns else write_list_uint r ns
         | W_num n \<Rightarrow> if sint then write_sint r n else write_uint r n))"

definition caught :: "('s, unit) io \<Rightarrow> ('s, bool) io" where
  "caught m = io_bind (io_try m) (\<lambda>x. io_return (case x of Inl _ \<Rightarrow> False | Inr _ \<Rightarrow> True))"

definition write_row_async :: "py_impl \<Rightarrow> reg \<Rightarrow> write_value \<Rightarrow> write_op \<Rightarrow> bool \<Rightarrow> ('w \<times> 'w modmem, bool) io" where
  "write_row_async pf r v op raw =
     io_bind (if raw then io_return False else mm_get (\<lambda>m. any_fails r m (write_values v))) (\<lambda>bad.
       if bad then io_return False else caught (row_writer pf r v op raw))"

text \<open>One lane after the other; the lanes before one that fails stay written.\<close>

definition lane_writer :: "py_impl \<Rightarrow> reg \<Rightarrow> int \<times> pynum \<times> bool \<Rightarrow> ('w \<times> 'w modmem, unit) io" where
  "lane_writer pf r = (\<lambda>(i, v, raw).
     if \<not> is_vec_reg r then io_raise AttributeError
     else if raw \<or> \<not> has_v_convert r
     then (if vt_kind (rg_type r) = VK_sint then write_idx_sint r i v else write_idx_uint r i v)
     else write_converted_idx pf r i v)"

definition write_vec_row_async ::
  "py_impl \<Rightarrow> reg \<Rightarrow> (int \<times> pynum) list \<Rightarrow> bool list option \<Rightarrow> ('w \<times> 'w modmem, bool) io" where
  "write_vec_row_async pf r pairs raws0 =
     (let raws = (case raws0 of None \<Rightarrow> replicate (length pairs) False | Some rs \<Rightarrow> rs);
          jobs = map2 (\<lambda>(i, v) raw. (i, v, raw)) pairs raws in
      io_bind (io_assert (length raws = length pairs)) (\<lambda>_.
      io_bind (mm_get (\<lambda>m. any_fails r m (map (\<lambda>(i, v, raw). v) (filter (\<lambda>(i, v, raw). \<not> raw) jobs)))) (\<lambda>bad.
        if bad then io_return False else caught (io_forM (lane_writer pf r) jobs))))"

definition mem_lane_writer :: "int \<times> int \<Rightarrow> ('w \<times> 'w xmem, unit) io" where
  "mem_lane_writer = (\<lambda>(i, v).
     io_bind (xm_get xm_type) (\<lambda>t. if vt_kind t = VK_sint then xm_write_idx_sint i v else xm_write_idx_uint i v))"

definition write_mem_lanes_async :: "(int \<times> int) list \<Rightarrow> ('w \<times> 'w xmem, bool) io" where
  "write_mem_lanes_async pairs = io_bind (xm_get xm_type) (\<lambda>_. caught (io_forM mem_lane_writer pairs))"

definition clear_mem_lanes :: "int option \<Rightarrow> ('w \<times> 'w xmem, bool) io" where
  "clear_mem_lanes idx =
     io_bind (case idx of Some i \<Rightarrow> io_return [i] | None \<Rightarrow> io_bind (xm_get xm_vec_len) (\<lambda>n. io_return [0..n - 1])) (\<lambda>is.
       write_mem_lanes_async (map (\<lambda>i. (i, 0)) is))"

definition clear_row :: "py_impl \<Rightarrow> reg \<Rightarrow> ('w \<times> 'w modmem, bool) io" where
  "clear_row pf r =
     write_row_async pf r
       (case vt_vec_len (rg_type r) of
          None \<Rightarrow> W_num (PInt 0)
        | Some n \<Rightarrow> if n = 0 then W_num (PInt 0) else W_list (replicate (nat n) (PInt 0))) Op_clear False"

definition flag_write_async :: "reg \<Rightarrow> rflag \<Rightarrow> bool \<Rightarrow> ('w \<times> 'w modmem, bool) io" where
  "flag_write_async r f v = caught (flag_write_bool r f v)"

section \<open>Reading a row\<close>

definition effect_of :: "('s, 'a) io \<Rightarrow> ('s, unit) io" where
  "effect_of m = io_bind m (\<lambda>_. io_return ())"

definition async_read :: "reg \<Rightarrow> ('w \<times> 'w modmem, unit) io" where
  "async_read r =
     (let k = vt_kind (rg_type r) in
      if is_vec (rg_type r) then
        (if k = VK_sint then effect_of (read_list_sint r)
         else if k = VK_char then effect_of (read_str r)
         else effect_of (read_list_uint r))
      else if k = VK_sint then effect_of (read_sint r)
      else if k = VK_char then effect_of (read_char r)
      else effect_of (read_uint r))"

definition read_row_async :: "reg \<Rightarrow> ('w \<times> 'w modmem, bool) io" where
  "read_row_async r = caught (case rg_class r of RC_flags _ \<Rightarrow> effect_of (read_uint r) | _ \<Rightarrow> async_read r)"

definition read_mem_row_async :: "int option \<Rightarrow> ('w \<times> 'w xmem, bool) io" where
  "read_mem_row_async idx =
     caught (case idx of
         Some i \<Rightarrow> effect_of (xm_read_idx_bytes i)
       | None \<Rightarrow> io_bind (xm_get (\<lambda>x. Inr (min 8 (xm_size x)))) (\<lambda>n. effect_of (regio_read xmem_regio 0 n)))"

section \<open>Steps\<close>

text \<open>What a row of the table stands for.\<close>

datatype 'w row_obj = Row_reg reg | Row_flag reg rflag | Row_mem "'w xmem"

definition check_writable :: "acc \<Rightarrow> bool" where
  "check_writable a \<longleftrightarrow> a = Acc_rw \<or> a = Acc_wt"

definition step_queued :: "'w row_obj \<Rightarrow> bool" where
  "step_queued obj \<longleftrightarrow>
     (case obj of
        Row_flag r f \<Rightarrow> check_writable (rg_acc r)
      | Row_reg r \<Rightarrow> check_writable (rg_acc r) \<and> vt_kind (rg_type r) \<noteq> VK_char
      | Row_mem x \<Rightarrow> xm_class x = XM_vec \<and> check_writable (xm_acc x) \<and> xm_is_cached x)"

definition step_bits :: "int \<Rightarrow> int \<Rightarrow> int \<Rightarrow> int res" where
  "step_bits cur delta width = rbind (shl1 width) (\<lambda>p. Inr ((cur + delta) AND (p - 1)))"

text \<open>The stepped bits as the number that is written: signed for a signed kind.\<close>

definition stepped :: "value_type \<Rightarrow> int \<Rightarrow> int \<Rightarrow> int res" where
  "stepped t delta cur =
     rbind (step_bits cur delta (vt_width t)) (\<lambda>b.
       if vt_kind t = VK_sint then cast_uint_to_sint b (vt_width t) else Inr b)"

definition step_reg_async :: "py_impl \<Rightarrow> reg \<Rightarrow> int option \<Rightarrow> int \<Rightarrow> ('w \<times> 'w modmem, bool) io" where
  "step_reg_async pf r idx delta =
     (let t = rg_type r in
      case vt_vec_len t of
        Some n \<Rightarrow>
          io_bind (mm_get (\<lambda>m. rmapM (\<lambda>i. rbind (read_idx_uint_cached r i m) (\<lambda>c.
              rbind (stepped t delta c) (\<lambda>v. Inr (i, PInt v)))) (case idx of Some i \<Rightarrow> [i] | None \<Rightarrow> [0..n - 1]))) (\<lambda>pairs.
            write_vec_row_async pf r pairs (Some (replicate (length pairs) True)))
      | None \<Rightarrow>
          io_bind (mm_get (\<lambda>m. rbind (read_uint_cached r m) (stepped t delta))) (\<lambda>v.
            write_row_async pf r (W_num (PInt v)) Op_step True))"

definition step_mem_async :: "int option \<Rightarrow> int \<Rightarrow> ('w \<times> 'w xmem, bool) io" where
  "step_mem_async idx delta =
     io_bind (xm_get xm_type) (\<lambda>t.
     io_bind (case idx of Some i \<Rightarrow> io_return [i] | None \<Rightarrow> io_bind (xm_get xm_vec_len) (\<lambda>n. io_return [0..n - 1])) (\<lambda>is.
     io_bind (xm_get (\<lambda>x. rmapM (\<lambda>i. rbind (xm_read_idx_uint_cached i x) (\<lambda>c.
         rbind (stepped t delta c) (\<lambda>v. Inr (i, v)))) is)) write_mem_lanes_async))"

text \<open>The bits of the flags of a register; of a vector of flags the first one only.\<close>

fun flags_mask :: "rflag list \<Rightarrow> int \<Rightarrow> int res" where
  "flags_mask [] acc = Inr acc"
| "flags_mask (f # fs) acc = rbind (shl1 (rf_bit f)) (\<lambda>b. flags_mask fs (acc OR b))"

definition toggle_flag_async :: "reg \<Rightarrow> rflag \<Rightarrow> ('w \<times> 'w modmem, bool) io" where
  "toggle_flag_async r f = io_bind (mm_get (flag_read_bool_cached r f)) (\<lambda>b. flag_write_async r f (\<not> b))"

definition toggle_bool_async :: "py_impl \<Rightarrow> reg \<Rightarrow> ('w \<times> 'w modmem, bool) io" where
  "toggle_bool_async pf r =
     (if is_vec (rg_type r) then
        io_bind (mm_get (read_list_bool_cached r)) (\<lambda>bs.
          write_vec_row_async pf r (map (\<lambda>(i, b). (int i, PInt (of_bool (\<not> b)))) (enumerate 0 bs)) None)
      else
        (case rg_class r of
           RC_flags fs \<Rightarrow>
             io_bind (io_lift (flags_mask fs 0)) (\<lambda>msk.
             io_bind (mm_get (read_uint_cached r)) (\<lambda>cur.
               write_row_async pf r (W_num (PInt ((cur AND NOT msk) OR (NOT cur AND msk)))) Op_write False))
         | _ \<Rightarrow> io_bind (mm_get (read_bool_cached r)) (\<lambda>b.
               write_row_async pf r (W_num (PInt (of_bool (\<not> b)))) Op_write False)))"

text \<open>One queued step, and the worker that runs the queue: a step that raises does not stop it.\<close>

definition step_job :: "py_impl \<Rightarrow> reg \<Rightarrow> int option \<Rightarrow> int \<Rightarrow> ('w \<times> 'w modmem, bool) io" where
  "step_job pf r idx delta =
     (if vt_kind (rg_type r) = VK_flag then toggle_bool_async pf r else step_reg_async pf r idx delta)"

fun step_pump :: "('s, bool) io list \<Rightarrow> ('s, unit) io" where
  "step_pump [] = io_return ()"
| "step_pump (job # queue) = io_bind (io_try job) (\<lambda>_. step_pump queue)"

text \<open>The line that asks for the increment; 0 stands for a text that is no number.\<close>

definition submit_step :: "string \<Rightarrow> int \<Rightarrow> int" where
  "submit_step text step_value =
     (let step = (case int_text (py_strip text) of None \<Rightarrow> 0 | Some n \<Rightarrow> n) in if step < 1 then step_value else step)"

section \<open>Opening and submitting an edit\<close>

text \<open>The input lines that are opened: one, or one for every element; the texts they start with.\<close>

definition open_value_input :: "py_impl \<Rightarrow> bool \<Rightarrow> reg \<Rightarrow> 'w modmem \<Rightarrow> string list res" where
  "open_value_input pf value_bits r m =
     (case vt_vec_len (rg_type r) of
        Some n \<Rightarrow>
          if n \<noteq> 0 then rmapM (\<lambda>i. value_text pf value_bits r m (Some i)) [0..n - 1]
          else rbind (value_text pf value_bits r m None) (\<lambda>s. Inr [s])
      | None \<Rightarrow> rbind (value_text pf value_bits r m None) (\<lambda>s. Inr [s]))"

definition open_mem_inputs :: "bool \<Rightarrow> 'w xmem \<Rightarrow> string list res" where
  "open_mem_inputs value_bits x = rbind (xm_vec_len x) (\<lambda>n. rmapM (mem_value_text value_bits x) [0..n - 1])"

text \<open>What enter on a row does, by its access kind.\<close>

datatype enter_action = En_edit | En_clear | En_none

definition edit_cursor_row :: "'w row_obj \<Rightarrow> enter_action" where
  "edit_cursor_row obj =
     (let of_acc = (\<lambda>a. if a = Acc_rw \<or> a = Acc_wt then En_edit else if a = Acc_rc then En_clear else En_none) in
      case obj of
        Row_reg r \<Rightarrow> of_acc (rg_acc r)
      | Row_mem x \<Rightarrow> if xm_class x = XM_vec then of_acc (xm_acc x) else En_none
      | Row_flag r f \<Rightarrow> En_none)"

text \<open>What a submitted edit starts; \<open>Ed_keep\<close> leaves the edit open with its texts.\<close>

datatype edit_action =
    Ed_keep
  | Ed_row write_value bool
  | Ed_lanes "(int \<times> pynum) list" "bool list"
  | Ed_mem "(int \<times> pynum) list"

definition submit_scalar_edit :: "(string \<Rightarrow> rat option) \<Rightarrow> reg \<Rightarrow> 'w modmem \<Rightarrow> string \<Rightarrow> edit_action res" where
  "submit_scalar_edit rd r m text =
     rbind (parse_value rd r m text) (\<lambda>v. Inr (case v of
         None \<Rightarrow> Ed_keep
       | Some v \<Rightarrow> Ed_row (W_num v) (is_raw_write (Some r) text)))"

definition submit_vector_edit :: "(string \<Rightarrow> rat option) \<Rightarrow> reg \<Rightarrow> 'w modmem \<Rightarrow> string list \<Rightarrow> edit_action res" where
  "submit_vector_edit rd r m texts =
     rbind (rmapM (parse_lane rd (rg_type r) (Some r) m) texts) (\<lambda>vs. Inr (
       if None \<in> set vs then Ed_keep
       else Ed_lanes (map (\<lambda>(i, v). (int i, the v)) (enumerate 0 vs)) (map (is_raw_write (Some r)) texts)))"

text \<open>The edit of one lane of a register: the input line is emptied before it is asked whether it was hex.\<close>

definition submit_lane_edit :: "(string \<Rightarrow> rat option) \<Rightarrow> reg \<Rightarrow> 'w modmem \<Rightarrow> int \<Rightarrow> string \<Rightarrow> edit_action res" where
  "submit_lane_edit rd r m i text =
     rbind (parse_lane rd (rg_type r) (Some r) m text) (\<lambda>v. Inr (case v of
         None \<Rightarrow> Ed_keep
       | Some v \<Rightarrow> let input = '''' in Ed_lanes [(i, v)] [is_raw_write (Some r) input]))"

definition submit_mem_edit :: "(string \<Rightarrow> rat option) \<Rightarrow> 'w xmem \<Rightarrow> 'w modmem \<Rightarrow> (int \<times> string) list \<Rightarrow> edit_action res" where
  "submit_mem_edit rd x m texts =
     rbind (xm_type x) (\<lambda>t.
     rbind (rmapM (\<lambda>(i, text). rbind (parse_lane rd t None m text) (\<lambda>v. Inr (i, v))) texts) (\<lambda>vs. Inr (
       if None \<in> snd ` set vs then Ed_keep else Ed_mem (map (\<lambda>(i, v). (i, the v)) vs))))"

text \<open>The write that an edit of a register starts.\<close>

definition run_edit :: "py_impl \<Rightarrow> reg \<Rightarrow> edit_action \<Rightarrow> ('w \<times> 'w modmem, bool) io" where
  "run_edit pf r act =
     (case act of
        Ed_row v raw \<Rightarrow> write_row_async pf r v Op_write raw
      | Ed_lanes pairs raws \<Rightarrow> write_vec_row_async pf r pairs (Some raws)
      | _ \<Rightarrow> io_return False)"

section \<open>Triggers\<close>

datatype trigger_action = Tr_write write_value | Tr_write_lane int pynum | Tr_skip | Tr_read | Tr_none

definition trigger_reg :: "py_impl \<Rightarrow> reg \<Rightarrow> 'w modmem \<Rightarrow> (nat \<Rightarrow> (int \<times> rat) list) \<Rightarrow> trigger_action res" where
  "trigger_reg pf r m draws =
     (if check_writable (rg_acc r) then
        (if is_vec_reg r then
           rbind (case vt_vec_len (rg_type r) of None \<Rightarrow> Inl TypeError | Some n \<Rightarrow> Inr [0..<nat n]) (\<lambda>lanes.
           rbind (rmapM (\<lambda>i. random_limit_value pf r m (draws i)) lanes) (\<lambda>vs. Inr (
             if None \<in> set vs then Tr_skip else Tr_write (W_list (map the vs)))))
         else
           rbind (random_limit_value pf r m (draws 0)) (\<lambda>v. Inr (
             case v of None \<Rightarrow> Tr_skip | Some v \<Rightarrow> Tr_write (W_num v))))
      else if rg_acc r = Acc_k \<or> rg_acc r = Acc_na then Inr Tr_none
      else Inr Tr_read)"

definition trigger_reg_lane :: "py_impl \<Rightarrow> reg \<Rightarrow> 'w modmem \<Rightarrow> int \<Rightarrow> (int \<times> rat) list \<Rightarrow> trigger_action res" where
  "trigger_reg_lane pf r m i draws =
     (if check_writable (rg_acc r) then
        rbind (random_limit_value pf r m draws) (\<lambda>v. Inr (case v of None \<Rightarrow> Tr_skip | Some v \<Rightarrow> Tr_write_lane i v))
      else if rg_acc r = Acc_k \<or> rg_acc r = Acc_na then Inr Tr_none
      else Inr Tr_read)"

definition trigger_flag :: "reg \<Rightarrow> rat \<Rightarrow> trigger_action" where
  "trigger_flag r draw =
     (if check_writable (rg_acc r) then Tr_write (W_num (PInt (of_bool (draw < 1 / 2))))
      else if rg_acc r = Acc_k \<or> rg_acc r = Acc_na then Tr_none else Tr_read)"

definition trigger_mem :: "'w xmem \<Rightarrow> trigger_action" where
  "trigger_mem x = (if \<not> xm_is_cached x \<or> xm_acc x = Acc_k \<or> xm_acc x = Acc_na then Tr_none else Tr_read)"

section \<open>What is shown is what is read\<close>

lemma shl1_pos [simp]: "0 \<le> n \<Longrightarrow> shl1 n = Inr (2 ^ nat n)"
  by (simp add: shl1_def)

lemma hex_digits_bounds: "w \<le> hex_digits_of w * 4 \<and> hex_digits_of w * 4 < w + 4"
  unfolding hex_digits_of_def by linarith

lemma hex_digits_exact: "4 dvd w \<Longrightarrow> hex_digits_of w * 4 = w"
  unfolding hex_digits_of_def by auto

lemma and_pow_mod: "(u::int) AND (2 ^ n - 1) = u mod 2 ^ n"
  by (simp add: take_bit_eq_mod [symmetric] take_bit_eq_mask mask_eq_exp_minus_1)

lemma sign_bit:
  fixes u :: int
  assumes "0 \<le> u" and "u < 2 ^ n" and "1 \<le> n"
  shows "u AND 2 ^ (n - 1) \<noteq> 0 \<longleftrightarrow> 2 ^ (n - 1) \<le> u"
proof -
  obtain k where n: "n = Suc k" using assms(3) by (cases n) auto
  have "u div 2 ^ k = (if 2 ^ k \<le> u then 1 else 0)"
    using assms(1,2) by (auto simp: n div_pos_pos_trivial intro: int_div_pos_eq [where r = "u - 2 ^ k"])
  then have "bit u k \<longleftrightarrow> 2 ^ k \<le> u" by (simp add: bit_iff_odd)
  then show ?thesis by (simp add: n and_exp_eq_0_iff_not_bit)
qed

lemma or_high:
  fixes u :: int
  assumes "0 \<le> u" and "u < 2 ^ n" and "n \<le> k"
  shows "u OR (2 ^ k - 2 ^ n) = u + (2 ^ k - 2 ^ n)"
proof -
  have e: "(2::int) ^ k - 2 ^ n = push_bit n (mask (k - n))"
    using assms(3) by (simp add: push_bit_eq_mult mask_eq_exp_minus_1 left_diff_distrib flip: power_add)
  have t: "take_bit n u = u" using assms(1,2) by (simp add: take_bit_int_eq_self)
  have "u AND push_bit n (mask (k - n)) = 0"
    by (rule bit_eqI) (subst t [symmetric], auto simp: bit_and_iff bit_push_bit_iff bit_take_bit_iff)
  then show ?thesis unfolding e by (simp add: disjunctive_add_eq_or)
qed

lemma bits_str_value:
  assumes "0 \<le> u" and "u < 2 ^ nat w" and "1 \<le> w"
  shows "bits_str u w k = Inr (''0x'' @ py_fmt0 16 True (hex_digits_of w)
    (if k = VK_sint \<and> 2 ^ nat (w - 1) \<le> u then u + (2 ^ nat (hex_digits_of w * 4) - 2 ^ nat w) else u))"
proof -
  have n: "nat (w - 1) = nat w - 1" "1 \<le> nat w" using assms(3) by auto
  have m: "u mod 2 ^ nat w = u" using assms(1,2) by simp
  have h: "nat w \<le> nat (hex_digits_of w * 4)" "0 \<le> hex_digits_of w * 4" using hex_digits_bounds [of w] assms(3) by auto
  show ?thesis
    using assms m sign_bit [OF assms(1,2) n(2)] or_high [OF assms(1,2) h(1)] h(2)
    by (auto simp: bits_str_def and_pow_mod n(1) Let_def)
qed


lemma strip_hex: "0 \<le> v \<Longrightarrow> py_strip (''0x'' @ py_fmt0 16 u w v) = ''0x'' @ py_fmt0 16 u w v"
proof -
  assume v: "0 \<le> v"
  let ?ds = "map (digit_char u) (nat_digits 16 (nat v))"
  obtain k where f: "py_fmt0 16 u w v = replicate k CHR ''0'' @ ?ds" using v by (auto simp: py_fmt0_def digits_str_def Let_def)
  have "\<forall>c \<in> set ?ds. of_char c \<in> {48..122 :: nat} - {88, 95, 120}" by (rule digits_plain) simp_all
  then have "\<forall>c \<in> set (''0x'' @ replicate k CHR ''0'' @ ?ds). \<not> is_py_space c"
    by (auto intro!: char_of_num_no_space simp del: set_map)
  then show ?thesis unfolding f by (rule py_strip_id)
qed

lemma strip_dec: "py_strip (py_str_int v) = py_str_int v"
proof -
  have "\<forall>c \<in> set (map (digit_char False) (nat_digits 10 (nat \<bar>v\<bar>))). of_char c \<in> {48..57 :: nat}" by (rule dec_digits)
  then have "\<forall>c \<in> set (py_str_int v). \<not> is_py_space c"
    by (auto simp: py_str_int_def digits_str_def intro!: char_of_num_no_space)
  then show ?thesis by (rule py_strip_id)
qed

lemma hex_text_is_hex: "0 \<le> v \<Longrightarrow> is_hex_literal (''0x'' @ py_fmt0 16 u w v)"
  unfolding is_hex_literal_def strip_hex by simp

lemma dec_text_not_hex: "\<not> is_hex_literal (py_str_int v)"
proof -
  let ?ds = "map (digit_char False) (nat_digits 10 (nat \<bar>v\<bar>))"
  have d: "\<forall>c \<in> set ?ds. of_char c \<in> {48..57 :: nat}" by (rule dec_digits)
  have nosign: "dropWhile (\<lambda>c. c = CHR ''+'' \<or> c = CHR ''-'') ?ds = ?ds"
  proof (cases ?ds)
    case (Cons c cs)
    then have "of_char c \<in> {48..57 :: nat}" using d by simp
    then have "c \<noteq> CHR ''+'' \<and> c \<noteq> CHR ''-''" by auto
    then show ?thesis using Cons by simp
  qed simp
  have drop: "dropWhile (\<lambda>c. c = CHR ''+'' \<or> c = CHR ''-'') (py_str_int v) = ?ds"
    using nosign by (auto simp: py_str_int_def digits_str_def)
  have "take 2 ?ds \<noteq> [a, c]" if "of_char c \<notin> {48..57 :: nat}" for a c
  proof
    assume "take 2 ?ds = [a, c]"
    then have "c \<in> set ?ds" by (metis in_set_takeD list.set_intros(1) list.set_intros(2))
    then show False using d that by blast
  qed
  then have "take 2 ?ds \<noteq> ''0x'' \<and> take 2 ?ds \<noteq> ''0X''" by simp
  then show ?thesis unfolding is_hex_literal_def strip_dec drop by blast
qed

lemma in_kind_range_hex:
  assumes "0 \<le> u" and "u < 2 ^ nat w" and "1 \<le> w" and "vt_width t = w" and "is_hex_literal s"
    and "hx = (if vt_kind t = VK_sint \<and> 2 ^ nat (w - 1) \<le> u then u + (2 ^ nat (hex_digits_of w * 4) - 2 ^ nat w) else u)"
  shows "in_kind_range t s hx = Inr (
    if vt_kind t = VK_sint \<and> 2 ^ nat (w - 1) \<le> u then (if 4 dvd w then Some (u - 2 ^ nat w) else None) else Some u)"
proof -
  have b: "w \<le> hex_digits_of w * 4" "hex_digits_of w * 4 < w + 4" using hex_digits_bounds [of w] by auto
  have neg: "hx < 2 ^ nat w \<longleftrightarrow> 4 dvd w" if "vt_kind t = VK_sint" "2 ^ nat (w - 1) \<le> u"
  proof (cases "4 dvd w")
    case True
    then show ?thesis using assms(2,6) hex_digits_exact [OF True] by simp
  next
    case False
    then have "w \<noteq> hex_digits_of w * 4" by (metis dvd_triv_right)
    then have "nat w + 1 \<le> nat (hex_digits_of w * 4)" using b assms(3) by linarith
    then have "(2::int) ^ (nat w + 1) \<le> 2 ^ nat (hex_digits_of w * 4)" by (rule power_increasing) simp
    then show ?thesis using False assms(1,6) that by simp
  qed
  have big: "2 ^ nat (w - 1) \<le> hx" if "vt_kind t = VK_sint" "2 ^ nat (w - 1) \<le> u"
  proof -
    have "nat w \<le> nat (hex_digits_of w * 4)" using b by linarith
    then have "(2::int) ^ nat w \<le> 2 ^ nat (hex_digits_of w * 4)" by (rule power_increasing) simp
    moreover have "hx = u + (2 ^ nat (hex_digits_of w * 4) - 2 ^ nat w)" using assms(6) that by simp
    ultimately show ?thesis using that(2) by linarith
  qed
  have h0: "(0::int) < 2 ^ nat (w - 1)" by simp
  show ?thesis
  proof (cases "vt_kind t = VK_sint \<and> 2 ^ nat (w - 1) \<le> u")
    case True
    have "hx = u" if "4 dvd w" using assms(6) True hex_digits_exact [OF that] by simp
    then show ?thesis using True neg big h0 assms(1,3,4,5) by (auto simp: in_kind_range_def)
  next
    case False
    then have "hx = u" using assms(6) by auto
    then show ?thesis using False assms(1-5) by (auto simp: in_kind_range_def)
  qed
qed

lemma in_kind_range_value:
  assumes "1 \<le> vt_width t"
    and "if vt_kind t = VK_sint then - (2 ^ nat (vt_width t - 1)) \<le> v \<and> v < 2 ^ nat (vt_width t - 1) else 0 \<le> v \<and> v < 2 ^ nat (vt_width t)"
  shows "in_kind_range t s v = Inr (Some v)"
  using assms by (auto simp: in_kind_range_def)


lemma parse_checked:
  assumes "rg_v_check r = None" and "\<not> v_type_is_float (rg_v_type r)" and "rg_v_convert r = None"
    and "int_text (py_strip s) = Some v" and "in_kind_range (rg_type r) (py_strip s) v = Inr u"
  shows "parse_value rd r m s = Inr (map_option PInt u)"
  using assms
  by (cases u) (simp_all add: parse_value_def parse_lane_def Let_def ass_check_value_limit_def less_eq_ass_def is_raw_write_def has_v_convert_def)

section \<open>Properties\<close>




section \<open>A series of steps\<close>

lemma write_int_ok:
  assumes "reg_placed r m a" and "reg_wf r" and "rg_acc r \<in> {Acc_rw, Acc_wt}" and "rg_v_convert r = None" and "rg_v_check r = None"
    and "if sg then - (2 ^ nat (vt_width (rg_type r) - 1)) \<le> v \<and> v < 2 ^ nat (vt_width (rg_type r) - 1)
         else 0 \<le> v \<and> v < 2 ^ nat (vt_width (rg_type r))"
    and "sg = (vt_kind (rg_type r) = VK_sint)"
  shows "\<exists>m'. write_int_cached sg r (PInt v) m = Inr m'"
proof -
  let ?w = "vt_width (rg_type r)"
  have w: "1 \<le> ?w" "nat ?w \<le> 8 * nat (rg_size r)" "0 < rg_size r" using assms(2) by (auto simp: reg_wf_def)
  have "(2::int) ^ nat ?w \<le> 2 ^ (8 * nat (rg_size r))" by (rule power_increasing [OF w(2)]) simp
  then have p: "(2::int) ^ nat ?w \<le> 256 ^ nat (rg_size r)" by (simp add: power_mult)
  have "nat ?w = Suc (nat (?w - 1))" using w(1) by simp
  then have half: "(2::int) ^ nat ?w = 2 ^ nat (?w - 1) * 2" by simp
  have "if sg then - (256 ^ nat (rg_size r)) \<le> 2 * v \<and> 2 * v < 256 ^ nat (rg_size r) else 0 \<le> v \<and> v < 256 ^ nat (rg_size r)"
    using assms(6) p half by (cases sg) auto
  then obtain b where b: "to_bytes v (rg_size r) Little sg = Inr b" using w(3) by (auto simp: to_bytes_def Let_def)
  have l: "int (length b) = rg_size r" using to_bytes_le [OF b] by simp
  have "check_value_fits_reg r (PInt v) = Inr ()"
    using assms(6,7) w(1) by (cases sg) (auto simp: check_value_fits_reg_def value_range_def py_num_int_def Let_def)
  then show ?thesis
    using assms(1,3,4,5) b l
    by (auto simp: write_int_cached_def from_raw_def check_value_limit_def ass_check_value_limit_def less_eq_ass_def num_to_bytes_def
        reg_write_bytes_cached_def write_allowed_def)
qed


text \<open>Writing the cached image to the device leaves the image as it is, also when the device fails.\<close>

lemma write_cache_keeps:
  assumes "reg_placed r m a"
  shows "\<exists>x w'. write_cache r (w, m) = (x, (w', m))"
proof -
  have im: "in_module m a (rg_size r)" using assms by (simp add: reg_placed_def)
  have same: "write_bytes_cached a (read_cached a (rg_size r) m) m = m" by (rule write_cached_same [OF im])
  show ?thesis
    using assms
    by (cases "write_allowed r (read_cached a (rg_size r) m)"; cases "mm_use_cache m")
      (auto simp: write_cache_def io_bind_def read_bytes_cached_placed mod_write_bytes_def same io_assert_def split: sum.splits prod.splits)
qed

lemma caught_write:
  assumes "reg_placed r m1 a" and "f m = Inr m1"
  shows "\<exists>ok w'. caught (then_write r f) (w, m) = (Inr ok, (w', m1))"
proof -
  obtain x w' where "write_cache r (w, m1) = (x, (w', m1))" using write_cache_keeps [OF assms(1)] by blast
  then show ?thesis using assms(2) by (simp add: caught_def then_write_def io_bind_run io_try_def split: sum.splits)
qed

definition steppable :: "reg \<Rightarrow> bool" where
  "steppable r \<longleftrightarrow> vt_kind (rg_type r) \<in> {VK_uint, VK_sint, VK_bits} \<and> vt_vec_len (rg_type r) = None \<and>
     rg_acc r \<in> {Acc_rw, Acc_wt} \<and> rg_v_convert r = None \<and> rg_v_check r = None"

lemma step_once:
  assumes "steppable r" and "reg_wf r" and "reg_placed r m a" and "read_uint_cached r m = Inr u"
  shows "\<exists>ok w' m'. step_job pf r None d (w, m) = (Inr ok, (w', m')) \<and> reg_placed r m' a \<and>
    read_uint_cached r m' = Inr ((u + d) mod 2 ^ nat (vt_width (rg_type r)))"
proof -
  let ?w = "vt_width (rg_type r)" and ?sg = "vt_kind (rg_type r) = VK_sint"
  let ?b = "(u + d) mod 2 ^ nat ?w"
  note st = assms(1) [unfolded steppable_def]
  have w: "1 \<le> ?w" using assms(2) by (simp add: reg_wf_def)
  have b: "0 \<le> ?b" "?b < 2 ^ nat ?w" by simp_all
  obtain v where v: "stepped (rg_type r) d u = Inr v" "v mod 2 ^ nat ?w = ?b"
    and range: "if ?sg then - (2 ^ nat (?w - 1)) \<le> v \<and> v < 2 ^ nat (?w - 1) else 0 \<le> v \<and> v < 2 ^ nat ?w"
  proof (cases ?sg)
    case True
    obtain v where c: "cast_uint_to_sint ?b ?w = Inr v" using w by (simp add: cast_uint_to_sint_def Let_def)
    show thesis
      by (rule that [of v]) (use c cast_uint_to_sint_range [OF c b] True w in \<open>auto simp: stepped_def step_bits_def and_pow_mod\<close>)
  next
    case False
    show thesis by (rule that [of ?b]) (use False w in \<open>auto simp: stepped_def step_bits_def and_pow_mod\<close>)
  qed
  obtain m1 where m1: "write_int_cached ?sg r (PInt v) m = Inr m1"
    using write_int_ok [OF assms(3,2) _ _ _ range refl] st by auto
  have after: "reg_placed r m1 a" "read_uint_cached r m1 = Inr ?b"
    using read_after_write_int [OF m1 assms(3,2)] v(2) by auto
  obtain ok w' where run: "caught (then_write r (write_int_cached ?sg r (PInt v))) (w, m) = (Inr ok, (w', m1))"
    using caught_write [OF after(1), of "write_int_cached ?sg r (PInt v)" m w] m1 by blast
  have wr: "caught (row_writer pf r (W_num (PInt v)) Op_step True) (w, m) = caught (then_write r (write_int_cached ?sg r (PInt v))) (w, m)"
    by (simp add: row_writer_def write_sint_def write_uint_def write_sint_cached_def write_uint_cached_def)
  have "step_job pf r None d (w, m) = (Inr ok, (w', m1))"
    using st assms(4) v(1) run wr by (auto simp: step_job_def step_reg_async_def Let_def io_bind_run write_row_async_def)
  then show ?thesis using after by blast
qed

lemma step_series:
  assumes "steppable r" and "reg_wf r" and "reg_placed r m a" and "read_uint_cached r m = Inr u"
    and "u = u0 mod 2 ^ nat (vt_width (rg_type r))"
  shows "\<exists>w' m'. step_pump (map (step_job pf r None) ds) (w, m) = (Inr (), (w', m')) \<and>
    read_uint_cached r m' = Inr ((u0 + sum_list ds) mod 2 ^ nat (vt_width (rg_type r)))"
  using assms(3-5)
proof (induction ds arbitrary: w m u u0)
  case (Cons d ds)
  obtain ok w1 m1 where s: "step_job pf r None d (w, m) = (Inr ok, (w1, m1))" "reg_placed r m1 a"
    "read_uint_cached r m1 = Inr ((u + d) mod 2 ^ nat (vt_width (rg_type r)))"
    using step_once [OF assms(1,2) Cons.prems(1,2)] by blast
  have e: "(u + d) mod 2 ^ nat (vt_width (rg_type r)) = (u0 + d) mod 2 ^ nat (vt_width (rg_type r))"
    using Cons.prems(3) by (simp add: mod_add_left_eq)
  obtain w' m' where "step_pump (map (step_job pf r None) ds) (w1, m1) = (Inr (), (w', m'))"
    "read_uint_cached r m' = Inr ((u0 + d + sum_list ds) mod 2 ^ nat (vt_width (rg_type r)))"
    using Cons.IH [OF s(2,3) e, of w1] by blast
  then show ?case using s(1) by (simp add: io_bind_run io_try_def add.assoc)
qed simp



section \<open>The edit of one lane\<close>

lemma py_strip_idem: "py_strip (py_strip s) = py_strip s"
proof -
  let ?a = "dropWhile is_py_space s"
  let ?r = "rev (dropWhile is_py_space (rev ?a))"
  have "dropWhile is_py_space ?r = ?r"
  proof (cases ?r)
    case (Cons c cs)
    obtain suf where "rev ?a = takeWhile is_py_space (rev ?a) @ dropWhile is_py_space (rev ?a)" by simp
    then have "?a = ?r @ rev (takeWhile is_py_space (rev ?a))" by (metis rev_append rev_rev_ident)
    then have "hd ?a = c" "?a \<noteq> []" using Cons by (metis append_Cons list.sel(1), metis append_is_Nil_conv list.discI)
    then have "\<not> is_py_space c" using hd_dropWhile [of is_py_space s] by simp
    then show ?thesis using Cons by simp
  next
    case Nil
    show ?thesis unfolding Nil by (rule dropWhile.simps(1))
  qed
  then show ?thesis by (simp add: py_strip_def)
qed



text \<open>
  The text a char register is opened with is no number: it is refused, or, where the char is a digit, the number
  is written and not the code of the char.
\<close>

definition char_reg :: reg where
  "char_reg = (example_reg Acc_rw VK_char 8 None)\<lparr>rg_size := 1, rg_elem_size := 1\<rparr>"

lemma char_edit:
  "value_text example_pf False char_reg (write_bytes_cached 0x104 [0x37] example_mem) None = Inr ''7''"
  "parse_value (\<lambda>_. None) char_reg (write_bytes_cached 0x104 [0x37] example_mem) ''7'' = Inr (Some (PInt 7))"
  "value_text example_pf False char_reg (write_bytes_cached 0x104 [0x41] example_mem) None = Inr ''A''"
  "parse_value (\<lambda>_. None) char_reg (write_bytes_cached 0x104 [0x41] example_mem) ''A'' = Inr None"
  by code_simp+

text \<open>A negative value of a memory of signed values narrower than their bytes does not read back.\<close>

lemma mem_narrow_sint_misread: "rbind (to_bytes (-8) 2 Little True) (\<lambda>b. cast_uint_to_sint (le_to_int b) 12) = Inr 61432"
  by code_simp

end
