(* ===== verification/SkmapTable.thy ===== *)
theory SkmapTable
  imports SkmapEdit RecipeTree
begin

text \<open>
  \<^verbatim>\<open>pip/skmap_ui/src/skmap_ui/app.py\<close>, the register map table: the rows of a module or of a memory, their
  keys, the texts of the value cells, the refresh of the shown values from the cached image, and the search
  of the asset at an address. A text that the library \<^verbatim>\<open>rich\<close> parses as markup stays as it is; what is
  left of it when the markup is drawn, \<open>plain\<close>, is a parameter. Styles, column widths and row heights are left
  out.
\<close>

section \<open>Cells\<close>

datatype cell = Cell_text string | Cell_markup string

definition cell_plain :: "(string \<Rightarrow> string) \<Rightarrow> cell \<Rightarrow> string" where
  "cell_plain plain c = (case c of Cell_text s \<Rightarrow> s | Cell_markup s \<Rightarrow> plain s)"

text \<open>The options of the display: bits instead of numbers, a row for every element of a vector.\<close>

record view_opts =
  vo_value_bits :: bool
  vo_expand_vec :: bool

definition view_options_suffix :: "view_opts \<Rightarrow> string" where
  "view_options_suffix o1 =
     (let opts = (if vo_value_bits o1 then [''bits''] else []) @ (if vo_expand_vec o1 then [''expand vec''] else []) in
      if opts \<noteq> [] then ''  ('' @ str_join '', '' opts @ '')'' else '''')"

definition shows_bits :: "view_opts \<Rightarrow> value_kind \<Rightarrow> bool" where
  "shows_bits o1 k \<longleftrightarrow> vo_value_bits o1 \<and> (k = VK_uint \<or> k = VK_sint)"

definition reg_value_text :: "py_impl \<Rightarrow> view_opts \<Rightarrow> reg list \<Rightarrow> reg \<Rightarrow> 'w modmem \<Rightarrow> cell res" where
  "reg_value_text pf o1 ks r m =
     (let k = vt_kind (rg_type r); w = vt_width (rg_type r) in
      if shows_bits o1 k then
        (if is_vec (rg_type r) then
           rbind (read_list_uint_cached r m) (\<lambda>values.
           rbind (rmapM (\<lambda>v. bits_str v w k) values) (\<lambda>ss. Inr (Cell_text (''[ '' @ str_join '', '' ss @ '' ]''))))
         else rbind (read_uint_cached r m) (\<lambda>v. rbind (bits_str v w k) (\<lambda>s. Inr (Cell_text s))))
      else rbind (m_rich_str_cached pf ks r m) (\<lambda>s. Inr (Cell_markup s)))"

definition reg_lane_value_text :: "py_impl \<Rightarrow> view_opts \<Rightarrow> reg \<Rightarrow> int \<Rightarrow> 'w modmem \<Rightarrow> cell res" where
  "reg_lane_value_text pf o1 r i m =
     (let k = vt_kind (rg_type r) in
      if shows_bits o1 k then
        rbind (read_idx_uint_cached r i m) (\<lambda>v. rbind (bits_str v (vt_width (rg_type r)) k) (\<lambda>s. Inr (Cell_text s)))
      else if has_v_convert r then rbind (read_converted_idx_cached r i m) (\<lambda>v. Inr (Cell_text (py_val_str pf v)))
      else rbind (read_idx_value_cached r i m) (\<lambda>v. Inr (Cell_text (py_val_str pf v))))"

definition flag_value_text :: "py_impl \<Rightarrow> reg \<Rightarrow> rflag \<Rightarrow> 'w modmem \<Rightarrow> cell res" where
  "flag_value_text pf r f m = rbind (flag_value_rich_str pf r f m) (\<lambda>s. Inr (Cell_markup s))"

definition mem_lane_value_text :: "view_opts \<Rightarrow> 'w xmem \<Rightarrow> int \<Rightarrow> cell res" where
  "mem_lane_value_text o1 x i =
     rbind (xm_type x) (\<lambda>t.
       if shows_bits o1 (vt_kind t)
       then rbind (xm_read_idx_uint_cached i x) (\<lambda>v. rbind (bits_str v (vt_width t) (vt_kind t)) (\<lambda>s. Inr (Cell_text s)))
       else rbind (xm_read_idx_rich_str_cached i x) (\<lambda>s. Inr (Cell_text s)))"

text \<open>The first bytes of a memory; a memory without a cached image has none to show.\<close>

definition mem_bytes_text :: "'w xmem \<Rightarrow> cell res" where
  "mem_bytes_text x =
     rbind (if xm_is_cached x then xm_read_cached 0 (min 8 (xm_size x)) x else Inl AttributeError) (\<lambda>d.
       Inr (Cell_text (''(Mem '' @ str_join '' '' (map (\<lambda>b. py_fmt0 16 False 2 (uint b)) d) @ '')'')))"

section \<open>Rows\<close>

text \<open>
  The object of a row is the object in the module: a register by its place in the list of the constants
  followed by the variables, a flag by its register and its place, a memory by its place.
\<close>

datatype row_ref = Rw_reg nat | Rw_flag nat nat | Rw_mem nat

record map_row =
  mr_key :: string
  mr_addr :: string
  mr_type :: string
  mr_acc :: string
  mr_name :: string
  mr_value :: cell
  mr_desc :: desc_text
  mr_obj :: row_ref
  mr_idx :: "int option"

definition module_regs :: "'w modcore \<Rightarrow> reg list" where
  "module_regs c = mo_arr_reg_k c @ mo_arr_reg_var c"

definition lanes_shown :: "view_opts \<Rightarrow> reg \<Rightarrow> int list" where
  "lanes_shown o1 r =
     (if vo_expand_vec o1 \<and> is_vec_reg r \<and> vt_kind (rg_type r) \<in> {VK_uint, VK_sint, VK_bits}
      then (case vt_vec_len (rg_type r) of None \<Rightarrow> [] | Some n \<Rightarrow> [0..n - 1]) else [])"

definition elem_offset_of :: "reg \<Rightarrow> int" where
  "elem_offset_of r = (case rg_class r of RC_vec eo \<Rightarrow> eo | _ \<Rightarrow> 0)"

definition lane_row :: "py_impl \<Rightarrow> view_opts \<Rightarrow> 'w modmem \<Rightarrow> nat \<Rightarrow> reg \<Rightarrow> int \<Rightarrow> int \<Rightarrow> map_row res" where
  "lane_row pf o1 m j r a i =
     rbind (reg_lane_value_text pf o1 r i m) (\<lambda>v. Inr
       \<lparr>mr_key = '''', mr_addr = py_hex (a + i * elem_offset_of r), mr_type = '''', mr_acc = '''',
        mr_name = rg_name r @ ''['' @ py_str_int i @ '']'', mr_value = v, mr_desc = Desc '''', mr_obj = Rw_reg j, mr_idx = Some i\<rparr>)"

definition flag_row :: "py_impl \<Rightarrow> 'w modmem \<Rightarrow> nat \<Rightarrow> reg \<Rightarrow> nat \<Rightarrow> map_row res" where
  "flag_row pf m j r i =
     (let f = reg_flags r ! i in
      rbind (flag_value_text pf r f m) (\<lambda>v. Inr
        \<lparr>mr_key = '''', mr_addr = ''-'', mr_type = ''b'', mr_acc = py_str_int (rf_bit f), mr_name = rf_name f,
         mr_value = v, mr_desc = Desc (rf_desc f), mr_obj = Rw_flag j i, mr_idx = None\<rparr>))"

definition reg_rows :: "py_impl \<Rightarrow> view_opts \<Rightarrow> reg list \<Rightarrow> 'w modmem \<Rightarrow> nat \<Rightarrow> reg \<Rightarrow> map_row list res" where
  "reg_rows pf o1 ks m j r =
     rbind (reg_addr r) (\<lambda>a.
     rbind (reg_value_text pf o1 ks r m) (\<lambda>v.
     rbind (desc_cell_reg pf ks r m) (\<lambda>d.
     rbind (rmapM (lane_row pf o1 m j r a) (lanes_shown o1 r)) (\<lambda>lanes.
     rbind (rmapM (flag_row pf m j r) [0..<length (reg_flags r)]) (\<lambda>flags.
       Inr (\<lparr>mr_key = '''', mr_addr = py_hex a, mr_type = value_type_str r, mr_acc = acc_name (rg_acc r), mr_name = rg_name r,
             mr_value = v, mr_desc = d, mr_obj = Rw_reg j, mr_idx = None\<rparr> # lanes @ flags))))))"

definition mem_row :: "nat \<Rightarrow> 'w xmem \<Rightarrow> map_row res" where
  "mem_row i x =
     rbind (xm_set_field (xm_name x)) (\<lambda>nm.
     rbind (xm_set_field (xm_desc x)) (\<lambda>d.
       Inr \<lparr>mr_key = '''', mr_addr = py_hex (xm_base_addr x), mr_type = xm_value_type_str x, mr_acc = acc_name (xm_acc x), mr_name = nm,
            mr_value = Cell_text (''(Mem size:'' @ py_str_int (xm_size x) @ '' B)''), mr_desc = Desc d, mr_obj = Rw_mem i, mr_idx = None\<rparr>))"

definition row_key :: "nat \<Rightarrow> string" where "row_key i = ''r'' @ py_str_int (int i)"

definition mem_lane_key :: "int \<Rightarrow> string" where "mem_lane_key i = ''r'' @ py_str_int (i + 1)"

definition keyed :: "map_row list \<Rightarrow> map_row list" where
  "keyed rows = map (\<lambda>(i, row). row\<lparr>mr_key := row_key i\<rparr>) (enumerate 0 rows)"

definition module_rows :: "py_impl \<Rightarrow> view_opts \<Rightarrow> 'w modcore \<Rightarrow> map_row list res" where
  "module_rows pf o1 c =
     rbind (rmapM (\<lambda>j. reg_rows pf o1 (mo_arr_reg_k c) (mo_mem c) j (module_regs c ! j)) [0..<length (module_regs c)]) (\<lambda>regs.
     rbind (rmapM (\<lambda>i. mem_row i (mo_arr_external_mem c ! i)) [0..<length (mo_arr_external_mem c)]) (\<lambda>mems.
       Inr (concat regs @ mems)))"

text \<open>The table on show: its rows in order, the plain text that was last drawn of each, the header of a memory.\<close>

record shown_table =
  st_rows :: "map_row list"
  st_plain :: "string list"
  st_header :: "string option"

definition drawn :: "(string \<Rightarrow> string) \<Rightarrow> map_row list \<Rightarrow> string option \<Rightarrow> shown_table" where
  "drawn plain rows hdr = \<lparr>st_rows = rows, st_plain = map (cell_plain plain \<circ> mr_value) rows, st_header = hdr\<rparr>"

definition show_module :: "(string \<Rightarrow> string) \<Rightarrow> py_impl \<Rightarrow> view_opts \<Rightarrow> 'w modcore \<Rightarrow> shown_table res" where
  "show_module plain pf o1 c = rbind (module_rows pf o1 c) (\<lambda>rows. Inr (drawn plain (keyed rows) None))"

definition show_mem_vec :: "(string \<Rightarrow> string) \<Rightarrow> view_opts \<Rightarrow> nat \<Rightarrow> 'w xmem \<Rightarrow> shown_table res" where
  "show_mem_vec plain o1 i x =
     rbind (mem_row i x) (\<lambda>hdr.
     rbind (xm_set_field (xm_name x)) (\<lambda>nm.
     rbind (xm_elem_size x) (\<lambda>es.
     rbind (xm_vec_len x) (\<lambda>n.
     rbind (rmapM (\<lambda>j. rbind (mem_lane_value_text o1 x j) (\<lambda>v. Inr
         \<lparr>mr_key = mem_lane_key j, mr_addr = py_hex (xm_base_addr x + j * es), mr_type = '''', mr_acc = '''',
          mr_name = nm @ ''['' @ py_str_int j @ '']'', mr_value = v, mr_desc = Desc '''', mr_obj = Rw_mem i, mr_idx = Some j\<rparr>))
       [0..n - 1]) (\<lambda>lanes.
       Inr (drawn plain (hdr\<lparr>mr_key := ''r0''\<rparr> # lanes) (Some ''r0'')))))))"

definition show_mem :: "(string \<Rightarrow> string) \<Rightarrow> view_opts \<Rightarrow> nat \<Rightarrow> 'w xmem \<Rightarrow> shown_table res" where
  "show_mem plain o1 i x =
     (if xm_class x = XM_vec then show_mem_vec plain o1 i x
      else rbind (mem_row i x) (\<lambda>row. Inr (drawn plain [row\<lparr>mr_key := ''r0''\<rparr>] None)))"

text \<open>The row of the cursor is kept by its key when the table is built again.\<close>

definition remember_table_cursor :: "int \<Rightarrow> map_row list \<Rightarrow> string option" where
  "remember_table_cursor row rows = (if 0 \<le> row \<and> row < int (length rows) then Some (mr_key (rows ! nat row)) else None)"

definition row_of_key :: "string \<Rightarrow> map_row list \<Rightarrow> nat option" where
  "row_of_key k rows = find (\<lambda>i. mr_key (rows ! i) = k) [0..<length rows]"

definition restore_table_cursor :: "string option \<Rightarrow> map_row list \<Rightarrow> nat \<Rightarrow> nat" where
  "restore_table_cursor key rows cur =
     (case key of None \<Rightarrow> cur | Some k \<Rightarrow> (case row_of_key k rows of None \<Rightarrow> cur | Some i \<Rightarrow> i))"

section \<open>Refreshing the values on show\<close>

text \<open>A cell is drawn again only where the text of its value changes.\<close>

definition update_row_value :: "(string \<Rightarrow> string) \<Rightarrow> nat \<Rightarrow> cell \<Rightarrow> shown_table \<Rightarrow> shown_table" where
  "update_row_value plain i v t =
     (if st_plain t ! i = cell_plain plain v then t
      else t\<lparr>st_rows := (st_rows t)[i := (st_rows t ! i)\<lparr>mr_value := v\<rparr>], st_plain := (st_plain t)[i := cell_plain plain v]\<rparr>)"

text \<open>The text of a row as the cached image has it now; \<open>None\<close> leaves the row as it is.\<close>

definition row_value_now :: "py_impl \<Rightarrow> view_opts \<Rightarrow> string option \<Rightarrow> 'w modcore \<Rightarrow> map_row \<Rightarrow> cell option res" where
  "row_value_now pf o1 hdr c row =
     (case mr_obj row of
        Rw_reg j \<Rightarrow>
          rbind (case mr_idx row of
                   Some i \<Rightarrow> reg_lane_value_text pf o1 (module_regs c ! j) i (mo_mem c)
                 | None \<Rightarrow> reg_value_text pf o1 (mo_arr_reg_k c) (module_regs c ! j) (mo_mem c)) (\<lambda>v. Inr (Some v))
      | Rw_flag j i \<Rightarrow>
          rbind (flag_value_text pf (module_regs c ! j) (reg_flags (module_regs c ! j) ! i) (mo_mem c)) (\<lambda>v. Inr (Some v))
      | Rw_mem i \<Rightarrow>
          (let x = mo_arr_external_mem c ! i in
           case mr_idx row of
             Some j \<Rightarrow> rbind (mem_lane_value_text o1 x j) (\<lambda>v. Inr (Some v))
           | None \<Rightarrow>
               if xm_class x = XM_vec \<and> hdr = Some (mr_key row) then Inr None
               else rbind (mem_bytes_text x) (\<lambda>v. Inr (Some v))))"

fun refresh_rows :: "(string \<Rightarrow> string) \<Rightarrow> (map_row \<Rightarrow> cell option res) \<Rightarrow> nat list \<Rightarrow> shown_table \<Rightarrow> shown_table" where
  "refresh_rows plain now [] t = t"
| "refresh_rows plain now (i # is) t =
     refresh_rows plain now is (case now (st_rows t ! i) of Inr (Some v) \<Rightarrow> update_row_value plain i v t | _ \<Rightarrow> t)"

definition refresh_shown_values ::
  "(string \<Rightarrow> string) \<Rightarrow> py_impl \<Rightarrow> view_opts \<Rightarrow> 'w modcore \<Rightarrow> shown_table \<Rightarrow> shown_table" where
  "refresh_shown_values plain pf o1 c t =
     refresh_rows plain (row_value_now pf o1 (st_header t) c) [0..<length (st_rows t)] t"

text \<open>The rows that show an object: of a register its own row and its elements, of a register of flags also its flags.\<close>

definition rows_of_obj :: "'w modcore \<Rightarrow> row_ref \<Rightarrow> map_row \<Rightarrow> bool" where
  "rows_of_obj c obj row \<longleftrightarrow>
     (case obj of
        Rw_mem i \<Rightarrow> mr_obj row = obj
      | Rw_reg j \<Rightarrow>
          mr_obj row = Rw_reg j \<or>
          (case rg_class (module_regs c ! j) of RC_flags fs \<Rightarrow> (case mr_obj row of Rw_flag k i \<Rightarrow> k = j | _ \<Rightarrow> False) | _ \<Rightarrow> False)
      | Rw_flag j i \<Rightarrow> mr_obj row = Rw_reg j \<or> (case mr_obj row of Rw_flag k i \<Rightarrow> k = j | _ \<Rightarrow> False))"

text \<open>
  The refresh after a write. It stops at the first text that cannot be made; a row of a memory is refreshed
  alone, and only where the row still shows the memory.
\<close>

fun refresh_each :: "(string \<Rightarrow> string) \<Rightarrow> (map_row \<Rightarrow> cell option res) \<Rightarrow> nat list \<Rightarrow> shown_table \<Rightarrow> unit res \<times> shown_table" where
  "refresh_each plain now [] t = (Inr (), t)"
| "refresh_each plain now (i # is) t =
     (case now (st_rows t ! i) of
        Inl e \<Rightarrow> (Inl e, t)
      | Inr None \<Rightarrow> refresh_each plain now is t
      | Inr (Some v) \<Rightarrow> refresh_each plain now is (update_row_value plain i v t))"

definition mem_row_after_write :: "view_opts \<Rightarrow> 'w xmem \<Rightarrow> map_row \<Rightarrow> cell option res" where
  "mem_row_after_write o1 x row =
     (if xm_class x = XM_vec then
        (case mr_idx row of None \<Rightarrow> Inr None | Some j \<Rightarrow> rbind (mem_lane_value_text o1 x j) (\<lambda>v. Inr (Some v)))
      else rbind (mem_bytes_text x) (\<lambda>v. Inr (Some v)))"

definition refresh_rows_from_cache ::
  "(string \<Rightarrow> string) \<Rightarrow> py_impl \<Rightarrow> view_opts \<Rightarrow> 'w modcore \<Rightarrow> string \<Rightarrow> row_ref \<Rightarrow> shown_table \<Rightarrow> unit res \<times> shown_table" where
  "refresh_rows_from_cache plain pf o1 c key obj t =
     (let rows = st_rows t;
          all = refresh_each plain (row_value_now pf o1 (st_header t) c) (filter (\<lambda>i. rows_of_obj c obj (rows ! i)) [0..<length rows]) t;
          pos = row_of_key key rows;
          same = (case pos of None \<Rightarrow> False | Some p \<Rightarrow> mr_obj (rows ! p) = obj) in
      case obj of
        Rw_flag j i \<Rightarrow> all
      | Rw_reg j \<Rightarrow>
          (case rg_class (module_regs c ! j) of RC_flags fs \<Rightarrow> all | _ \<Rightarrow> if same then all else (Inr (), t))
      | Rw_mem i \<Rightarrow>
          if same then refresh_each plain (mem_row_after_write o1 (mo_arr_external_mem c ! i)) [the pos] t else (Inr (), t))"

section \<open>The asset at an address\<close>

text \<open>A register or a memory that was found, with the module that has it.\<close>

datatype 'w asset = As_reg "'w modcore" reg | As_mem "'w modcore" "'w xmem"

definition holds_addr :: "int \<Rightarrow> int \<Rightarrow> int \<Rightarrow> bool" where
  "holds_addr addr a n \<longleftrightarrow> a \<le> addr \<and> addr < a + n"

definition asset_in :: "int \<Rightarrow> 'w modcore \<Rightarrow> 'w asset option" where
  "asset_in addr c =
     (case find (\<lambda>r. case rg_addr r of None \<Rightarrow> False | Some a \<Rightarrow> holds_addr addr a (rg_size r)) (module_regs c) of
        Some r \<Rightarrow> Some (As_reg c r)
      | None \<Rightarrow> map_option (As_mem c) (find (\<lambda>x. holds_addr addr (xm_base_addr x) (xm_size x)) (mo_arr_external_mem c)))"

fun asset_at :: "int \<Rightarrow> 'w module \<Rightarrow> 'w asset option"
and asset_at_kids :: "int \<Rightarrow> 'w module option list \<Rightarrow> 'w asset option" where
  "asset_at addr (Module c kids) =
     (case asset_in addr c of Some x \<Rightarrow> Some x | None \<Rightarrow> asset_at_kids addr kids)"
| "asset_at_kids addr [] = None"
| "asset_at_kids addr (None # kids) = asset_at_kids addr kids"
| "asset_at_kids addr (Some k # kids) =
     (case asset_at addr k of Some x \<Rightarrow> Some x | None \<Rightarrow> asset_at_kids addr kids)"

section \<open>What a row stands for\<close>

text \<open>The rows of a module are those of its registers, whatever the values are.\<close>

definition row_ident :: "map_row \<Rightarrow> row_ref \<times> int option" where
  "row_ident row = (mr_obj row, mr_idx row)"

definition is_mem_row :: "map_row \<Rightarrow> bool" where
  "is_mem_row row \<longleftrightarrow> (case mr_obj row of Rw_mem i \<Rightarrow> True | _ \<Rightarrow> False)"

definition reg_idents :: "view_opts \<Rightarrow> nat \<Rightarrow> reg \<Rightarrow> (row_ref \<times> int option) list" where
  "reg_idents o1 j r = (Rw_reg j, None) # map (\<lambda>i. (Rw_reg j, Some i)) (lanes_shown o1 r) @
     map (\<lambda>i. (Rw_flag j i, None)) [0..<length (reg_flags r)]"

definition module_idents :: "view_opts \<Rightarrow> 'w modcore \<Rightarrow> (row_ref \<times> int option) list" where
  "module_idents o1 c =
     concat (map (\<lambda>j. reg_idents o1 j (module_regs c ! j)) [0..<length (module_regs c)]) @
     map (\<lambda>i. (Rw_mem i, None)) [0..<length (mo_arr_external_mem c)]"

lemma rmapM_map:
  assumes "rmapM f xs = Inr ys" and "\<And>x y. f x = Inr y \<Longrightarrow> g y = h x"
  shows "map g ys = map h xs"
  using assms(1) by (induction xs arbitrary: ys) (auto simp: rbind_Inr_iff dest: assms(2))

lemma rmapM_ball:
  assumes "rmapM f xs = Inr ys" and "\<And>x y. x \<in> set xs \<Longrightarrow> f x = Inr y \<Longrightarrow> P y"
  shows "\<forall>y \<in> set ys. P y"
  using assms
proof (induction xs arbitrary: ys)
  case (Cons x xs)
  obtain y zs where "f x = Inr y" "rmapM f xs = Inr zs" "ys = y # zs" using Cons.prems(1) by (auto simp: rbind_Inr_iff)
  then show ?case using Cons.IH [of zs] Cons.prems(2) by (metis list.set_intros(1) list.set_intros(2) set_ConsD)
qed simp

lemma lane_row_ident: "lane_row pf o1 m j r a i = Inr row \<Longrightarrow> row_ident row = (Rw_reg j, Some i)"
  by (auto simp: lane_row_def rbind_Inr_iff row_ident_def)

lemma flag_row_ident: "flag_row pf m j r i = Inr row \<Longrightarrow> row_ident row = (Rw_flag j i, None)"
  by (auto simp: flag_row_def rbind_Inr_iff row_ident_def Let_def)

lemma mem_row_ident: "mem_row i x = Inr row \<Longrightarrow> row_ident row = (Rw_mem i, None)"
  by (auto simp: mem_row_def rbind_Inr_iff row_ident_def)

lemma reg_rows_idents:
  assumes "reg_rows pf o1 ks m j r = Inr rows"
  shows "map row_ident rows = reg_idents o1 j r"
proof -
  obtain a v d lanes flags where
    l: "rmapM (lane_row pf o1 m j r a) (lanes_shown o1 r) = Inr lanes"
    and f: "rmapM (flag_row pf m j r) [0..<length (reg_flags r)] = Inr flags"
    and r: "map row_ident rows = (Rw_reg j, None) # map row_ident lanes @ map row_ident flags"
    using assms by (auto simp: reg_rows_def rbind_Inr_iff row_ident_def)
  have "map row_ident lanes = map (\<lambda>i. (Rw_reg j, Some i)) (lanes_shown o1 r)"
    by (rule rmapM_map [OF l]) (rule lane_row_ident)
  moreover have "map row_ident flags = map (\<lambda>i. (Rw_flag j i, None)) [0..<length (reg_flags r)]"
    by (rule rmapM_map [OF f]) (rule flag_row_ident)
  ultimately show ?thesis using r by (simp add: reg_idents_def)
qed

lemma module_rows_idents:
  assumes "module_rows pf o1 c = Inr rows"
  shows "map row_ident rows = module_idents o1 c"
proof -
  let ?f = "\<lambda>j. reg_rows pf o1 (mo_arr_reg_k c) (mo_mem c) j (module_regs c ! j)"
  obtain regs mems where r: "rmapM ?f [0..<length (module_regs c)] = Inr regs"
    and m: "rmapM (\<lambda>i. mem_row i (mo_arr_external_mem c ! i)) [0..<length (mo_arr_external_mem c)] = Inr mems"
    and rows: "rows = concat regs @ mems"
    using assms by (auto simp: module_rows_def rbind_Inr_iff)
  have "map (map row_ident) regs = map (\<lambda>j. reg_idents o1 j (module_regs c ! j)) [0..<length (module_regs c)]"
    by (rule rmapM_map [OF r]) (rule reg_rows_idents)
  then have "map row_ident (concat regs) = concat (map (\<lambda>j. reg_idents o1 j (module_regs c ! j)) [0..<length (module_regs c)])"
    by (simp add: map_concat)
  moreover have "map row_ident mems = map (\<lambda>i. (Rw_mem i, None)) [0..<length (mo_arr_external_mem c)]"
    by (rule rmapM_map [OF m]) (rule mem_row_ident)
  ultimately show ?thesis by (simp add: rows module_idents_def)
qed

text \<open>A row of a register or of a flag holds the text that a refresh gives it.\<close>

lemma lane_row_now:
  "lane_row pf o1 m j r a i = Inr row \<Longrightarrow> m = mo_mem c \<Longrightarrow> r = module_regs c ! j \<Longrightarrow>
    row_value_now pf o1 hdr c row = Inr (Some (mr_value row)) \<and> \<not> is_mem_row row"
  by (auto simp: lane_row_def rbind_Inr_iff row_value_now_def is_mem_row_def)

lemma flag_row_now:
  "flag_row pf m j r i = Inr row \<Longrightarrow> m = mo_mem c \<Longrightarrow> r = module_regs c ! j \<Longrightarrow>
    row_value_now pf o1 hdr c row = Inr (Some (mr_value row)) \<and> \<not> is_mem_row row"
  by (auto simp: flag_row_def rbind_Inr_iff row_value_now_def is_mem_row_def Let_def)

lemma reg_rows_now:
  assumes "reg_rows pf o1 (mo_arr_reg_k c) (mo_mem c) j (module_regs c ! j) = Inr rows"
  shows "\<forall>row \<in> set rows. row_value_now pf o1 hdr c row = Inr (Some (mr_value row)) \<and> \<not> is_mem_row row"
proof -
  let ?r = "module_regs c ! j"
  obtain a v d lanes flags where v: "reg_value_text pf o1 (mo_arr_reg_k c) ?r (mo_mem c) = Inr v"
    and l: "rmapM (lane_row pf o1 (mo_mem c) j ?r a) (lanes_shown o1 ?r) = Inr lanes"
    and f: "rmapM (flag_row pf (mo_mem c) j ?r) [0..<length (reg_flags ?r)] = Inr flags"
    and rows: "\<exists>own. rows = own # lanes @ flags \<and> mr_value own = v \<and> mr_obj own = Rw_reg j \<and> mr_idx own = None"
    using assms by (auto simp: reg_rows_def rbind_Inr_iff)
  have "\<forall>row \<in> set lanes. row_value_now pf o1 hdr c row = Inr (Some (mr_value row)) \<and> \<not> is_mem_row row"
    by (rule rmapM_ball [OF l]) (rule lane_row_now [OF _ refl refl])
  moreover have "\<forall>row \<in> set flags. row_value_now pf o1 hdr c row = Inr (Some (mr_value row)) \<and> \<not> is_mem_row row"
    by (rule rmapM_ball [OF f]) (rule flag_row_now [OF _ refl refl])
  ultimately show ?thesis using rows v by (auto simp: row_value_now_def is_mem_row_def)
qed

lemma module_rows_now:
  assumes "module_rows pf o1 c = Inr rows" and "row \<in> set rows" and "\<not> is_mem_row row"
  shows "row_value_now pf o1 hdr c row = Inr (Some (mr_value row))"
proof -
  let ?f = "\<lambda>j. reg_rows pf o1 (mo_arr_reg_k c) (mo_mem c) j (module_regs c ! j)"
  obtain regs mems where r: "rmapM ?f [0..<length (module_regs c)] = Inr regs"
    and m: "rmapM (\<lambda>i. mem_row i (mo_arr_external_mem c ! i)) [0..<length (mo_arr_external_mem c)] = Inr mems"
    and rows: "rows = concat regs @ mems"
    using assms(1) by (auto simp: module_rows_def rbind_Inr_iff)
  have "\<forall>rs \<in> set regs. \<forall>row \<in> set rs. row_value_now pf o1 hdr c row = Inr (Some (mr_value row)) \<and> \<not> is_mem_row row"
    by (rule rmapM_ball [OF r]) (rule reg_rows_now)
  moreover have "\<forall>row \<in> set mems. is_mem_row row"
    by (rule rmapM_ball [OF m]) (auto simp: mem_row_def rbind_Inr_iff is_mem_row_def)
  ultimately show ?thesis using assms(2,3) rows by auto
qed

text \<open>What a refresh of some rows does: the rows stay those they are, the texts of the others stay.\<close>

definition row_frame :: "map_row \<Rightarrow> string \<times> row_ref \<times> int option" where
  "row_frame row = (mr_key row, row_ident row)"

lemma update_row_value_spec:
  assumes "i < length (st_rows t)" and "length (st_plain t) = length (st_rows t)"
  shows "map row_frame (st_rows (update_row_value plain i v t)) = map row_frame (st_rows t)"
    and "st_header (update_row_value plain i v t) = st_header t"
    and "st_plain (update_row_value plain i v t) = (st_plain t)[i := cell_plain plain v]"
    and "j \<noteq> i \<Longrightarrow> st_rows (update_row_value plain i v t) ! j = st_rows t ! j"
    and "length (st_rows (update_row_value plain i v t)) = length (st_rows t)"
  using assms
  by (auto simp: update_row_value_def row_frame_def row_ident_def map_update intro!: nth_equalityI simp: nth_list_update)

lemma refresh_rows_spec:
  assumes "distinct is" and "set is \<subseteq> {..<length (st_rows t)}" and "length (st_plain t) = length (st_rows t)"
  shows "map row_frame (st_rows (refresh_rows plain now is t)) = map row_frame (st_rows t) \<and>
    st_header (refresh_rows plain now is t) = st_header t \<and>
    length (st_plain (refresh_rows plain now is t)) = length (st_rows t) \<and>
    (\<forall>j < length (st_rows t). st_plain (refresh_rows plain now is t) ! j =
       (if j \<in> set is then (case now (st_rows t ! j) of Inr (Some v) \<Rightarrow> cell_plain plain v | _ \<Rightarrow> st_plain t ! j) else st_plain t ! j))"
  using assms
proof (induction "is" arbitrary: t)
  case (Cons i "is")
  define t1 where "t1 = (case now (st_rows t ! i) of Inr (Some v) \<Rightarrow> update_row_value plain i v t | _ \<Rightarrow> t)"
  have i: "i < length (st_rows t)" "i \<notin> set is" using Cons.prems by auto
  note u = update_row_value_spec [OF i(1) Cons.prems(3), where plain = plain]
  have t1: "map row_frame (st_rows t1) = map row_frame (st_rows t)" "st_header t1 = st_header t"
    "length (st_rows t1) = length (st_rows t)"
    "st_plain t1 = (case now (st_rows t ! i) of Inr (Some v) \<Rightarrow> (st_plain t)[i := cell_plain plain v] | _ \<Rightarrow> st_plain t)"
    "\<And>j. j \<noteq> i \<Longrightarrow> st_rows t1 ! j = st_rows t ! j"
    using u by (auto simp: t1_def split: sum.splits option.splits)
  have l: "length (st_plain t1) = length (st_rows t1)"
    using t1(3,4) Cons.prems(3) by (auto split: sum.splits option.splits)
  have "distinct is" "set is \<subseteq> {..<length (st_rows t1)}" using Cons.prems t1(3) by auto
  note ih = Cons.IH [OF this l]
  have "st_plain (refresh_rows plain now is t1) ! j =
      (if j \<in> set (i # is) then (case now (st_rows t ! j) of Inr (Some v) \<Rightarrow> cell_plain plain v | _ \<Rightarrow> st_plain t ! j) else st_plain t ! j)"
    if j: "j < length (st_rows t)" for j
  proof (cases "j = i")
    case True
    then have "st_plain (refresh_rows plain now is t1) ! j = st_plain t1 ! j" using ih i j t1(3) by auto
    then show ?thesis using True t1(4) i(1) Cons.prems(3) by (auto split: sum.splits option.splits)
  next
    case False
    then have e: "st_plain t1 ! j = st_plain t ! j" using t1(4) by (auto split: sum.splits option.splits)
    have "st_plain (refresh_rows plain now is t1) ! j =
      (if j \<in> set is then (case now (st_rows t1 ! j) of Inr (Some v) \<Rightarrow> cell_plain plain v | _ \<Rightarrow> st_plain t1 ! j) else st_plain t1 ! j)"
      using ih j t1(3) by simp
    then show ?thesis unfolding t1(5) [OF False] e using False by simp
  qed
  then show ?case using ih t1(1-3) by (simp add: t1_def [symmetric])
qed simp

lemma refresh_shown_spec:
  assumes "length (st_plain t) = length (st_rows t)"
  shows "map row_frame (st_rows (refresh_shown_values plain pf o1 c t)) = map row_frame (st_rows t)"
    and "st_header (refresh_shown_values plain pf o1 c t) = st_header t"
    and "length (st_plain (refresh_shown_values plain pf o1 c t)) = length (st_rows (refresh_shown_values plain pf o1 c t))"
    and "j < length (st_rows t) \<Longrightarrow> st_plain (refresh_shown_values plain pf o1 c t) ! j =
      (case row_value_now pf o1 (st_header t) c (st_rows t ! j) of Inr (Some v) \<Rightarrow> cell_plain plain v | _ \<Rightarrow> st_plain t ! j)"
proof -
  note s = refresh_rows_spec [of "[0..<length (st_rows t)]" t plain "row_value_now pf o1 (st_header t) c", folded refresh_shown_values_def]
  have s': "distinct [0..<length (st_rows t)]" "set [0..<length (st_rows t)] \<subseteq> {..<length (st_rows t)}" by auto
  note s = s [OF s' assms]
  show f: "map row_frame (st_rows (refresh_shown_values plain pf o1 c t)) = map row_frame (st_rows t)"
    and "st_header (refresh_shown_values plain pf o1 c t) = st_header t" using s by auto
  show "length (st_plain (refresh_shown_values plain pf o1 c t)) = length (st_rows (refresh_shown_values plain pf o1 c t))"
    using s map_eq_imp_length_eq [OF f] by auto
  show "j < length (st_rows t) \<Longrightarrow> st_plain (refresh_shown_values plain pf o1 c t) ! j =
      (case row_value_now pf o1 (st_header t) c (st_rows t ! j) of Inr (Some v) \<Rightarrow> cell_plain plain v | _ \<Rightarrow> st_plain t ! j)"
    using s by auto
qed

lemma row_value_now_frame: "row_frame r1 = row_frame r2 \<Longrightarrow> row_value_now pf o1 hdr c r1 = row_value_now pf o1 hdr c r2"
  by (cases "mr_obj r2"; cases "mr_idx r2") (auto simp: row_frame_def row_ident_def row_value_now_def Let_def)

section \<open>Properties\<close>

lemma keyed_facts:
  "length (keyed rows) = length rows"
  "i < length rows \<Longrightarrow> keyed rows ! i = (rows ! i)\<lparr>mr_key := row_key i\<rparr>"
  by (simp_all add: keyed_def nth_enumerate_eq)

lemma row_key_inj: "row_key i = row_key j \<longleftrightarrow> i = j"
proof
  assume "row_key i = row_key j"
  then have "py_str_int (int i) = py_str_int (int j)" by (simp add: row_key_def)
  then have "Some (int i) = Some (int j)" using int_text_py_str_int by metis
  then show "i = j" by simp
qed simp

lemma find_append: "find P (xs @ ys) = (case find P xs of None \<Rightarrow> find P ys | Some x \<Rightarrow> Some x)"
  by (induction xs) auto

lemma find_holds: "find P xs = Some x \<Longrightarrow> P x"
  by (induction xs) (auto split: if_splits)

lemma find_index: "find (\<lambda>j. j = i) [0..<n] = (if i < n then Some i else (None :: nat option))"
  by (induction n) (auto simp: find_append)

lemma row_of_key_keyed: "row_of_key (row_key i) (keyed rows) = (if i < length rows then Some i else None)"
proof -
  have "row_of_key (row_key i) (keyed rows) = find (\<lambda>j. j = i) [0..<length rows]"
    unfolding row_of_key_def keyed_facts(1) by (rule find_cong [OF refl]) (auto simp: keyed_facts(2) row_key_inj)
  also have "\<dots> = (if i < length rows then Some i else None)" by (rule find_index)
  finally show ?thesis .
qed

text \<open>The rows other than those of memories: what they stand for and the text that is on show.\<close>

definition shown_texts :: "shown_table \<Rightarrow> ((string \<times> row_ref \<times> int option) \<times> string) list" where
  "shown_texts t =
     map (\<lambda>i. (row_frame (st_rows t ! i), st_plain t ! i)) (filter (\<lambda>i. \<not> is_mem_row (st_rows t ! i)) [0..<length (st_rows t)])"

lemma shown_texts_eq:
  assumes "map row_frame (st_rows t) = map row_frame (st_rows t')"
    and "\<And>i. i < length (st_rows t') \<Longrightarrow> \<not> is_mem_row (st_rows t' ! i) \<Longrightarrow> st_plain t ! i = st_plain t' ! i"
  shows "shown_texts t = shown_texts t'"
proof -
  have l: "length (st_rows t) = length (st_rows t')" using map_eq_imp_length_eq [OF assms(1)] .
  have f: "row_frame (st_rows t ! i) = row_frame (st_rows t' ! i)" if "i < length (st_rows t')" for i
    using assms(1) that l by (metis nth_map)
  then have m: "is_mem_row (st_rows t ! i) = is_mem_row (st_rows t' ! i)" if "i < length (st_rows t')" for i
    using that by (fastforce simp: row_frame_def row_ident_def is_mem_row_def)
  have "filter (\<lambda>i. \<not> is_mem_row (st_rows t ! i)) [0..<length (st_rows t)] = filter (\<lambda>i. \<not> is_mem_row (st_rows t' ! i)) [0..<length (st_rows t')]"
    unfolding l by (rule filter_cong [OF refl]) (simp add: m)
  then show ?thesis unfolding shown_texts_def by (auto intro!: map_cong simp: f assms(2))
qed

lemma show_module_frame:
  assumes "show_module plain pf o1 c = Inr t"
  shows "map row_frame (st_rows t) = map (\<lambda>i. (row_key i, module_idents o1 c ! i)) [0..<length (module_idents o1 c)]"
    and "st_header t = None" and "length (st_plain t) = length (st_rows t)"
    and "i < length (st_rows t) \<Longrightarrow> \<not> is_mem_row (st_rows t ! i) \<Longrightarrow>
      row_value_now pf o1 hdr c (st_rows t ! i) = Inr (Some (mr_value (st_rows t ! i))) \<and>
      st_plain t ! i = cell_plain plain (mr_value (st_rows t ! i))"
proof -
  obtain rows where r: "module_rows pf o1 c = Inr rows" and t: "t = drawn plain (keyed rows) None"
    using assms by (auto simp: show_module_def rbind_Inr_iff)
  note ids = module_rows_idents [OF r]
  have l: "length (module_idents o1 c) = length rows" using ids by (metis length_map)
  have n: "module_idents o1 c ! i = row_ident (rows ! i)" if "i < length rows" for i using ids that by (metis nth_map)
  show "map row_frame (st_rows t) = map (\<lambda>i. (row_key i, module_idents o1 c ! i)) [0..<length (module_idents o1 c)]"
    by (rule nth_equalityI) (simp_all add: t drawn_def keyed_facts l n row_frame_def row_ident_def)
  show "st_header t = None" "length (st_plain t) = length (st_rows t)" by (simp_all add: t drawn_def keyed_facts)
  assume i: "i < length (st_rows t)" "\<not> is_mem_row (st_rows t ! i)"
  then have row: "st_rows t ! i = (rows ! i)\<lparr>mr_key := row_key i\<rparr>" "i < length rows" by (simp_all add: t drawn_def keyed_facts)
  then have "\<not> is_mem_row (rows ! i)" using i(2) by (simp add: is_mem_row_def)
  then have "row_value_now pf o1 hdr c (rows ! i) = Inr (Some (mr_value (rows ! i)))"
    using module_rows_now [OF r] row(2) by simp
  then show "row_value_now pf o1 hdr c (st_rows t ! i) = Inr (Some (mr_value (st_rows t ! i))) \<and>
      st_plain t ! i = cell_plain plain (mr_value (st_rows t ! i))"
    using row \<open>\<not> is_mem_row (rows ! i)\<close> by (auto simp: t drawn_def keyed_facts row_value_now_def is_mem_row_def split: row_ref.splits)
qed

lemma refreshes_frame:
  assumes "length (st_plain t) = length (st_rows t)"
  shows "map row_frame (st_rows (fold (\<lambda>m'. refresh_shown_values plain pf o1 (c\<lparr>mo_mem := m'\<rparr>)) ms t)) = map row_frame (st_rows t) \<and>
    st_header (fold (\<lambda>m'. refresh_shown_values plain pf o1 (c\<lparr>mo_mem := m'\<rparr>)) ms t) = st_header t \<and>
    length (st_plain (fold (\<lambda>m'. refresh_shown_values plain pf o1 (c\<lparr>mo_mem := m'\<rparr>)) ms t)) =
      length (st_rows (fold (\<lambda>m'. refresh_shown_values plain pf o1 (c\<lparr>mo_mem := m'\<rparr>)) ms t))"
  using assms
proof (induction ms arbitrary: t)
  case (Cons m ms)
  note s = refresh_shown_spec [OF Cons.prems, where plain = plain and pf = pf and ?o1.0 = o1 and c = "c\<lparr>mo_mem := m\<rparr>"]
  show ?case using Cons.IH [OF s(3)] s(1,2) by simp
qed simp

text \<open>
  The values on show are never stale. However often the shown values were refreshed before, from whatever
  images, and even where some texts could not be made then, a refresh from the present image shows for every
  register, element and flag the text that building the table again would show.
\<close>

theorem refresh_is_redraw:
  assumes "show_module plain pf o1 (c\<lparr>mo_mem := m0\<rparr>) = Inr t" and "show_module plain pf o1 (c\<lparr>mo_mem := m\<rparr>) = Inr t'"
  shows "shown_texts (refresh_shown_values plain pf o1 (c\<lparr>mo_mem := m\<rparr>)
      (fold (\<lambda>m'. refresh_shown_values plain pf o1 (c\<lparr>mo_mem := m'\<rparr>)) ms t)) = shown_texts t'"
proof -
  let ?c = "c\<lparr>mo_mem := m\<rparr>"
  let ?u = "fold (\<lambda>m'. refresh_shown_values plain pf o1 (c\<lparr>mo_mem := m'\<rparr>)) ms t"
  have same: "module_idents o1 (c\<lparr>mo_mem := m0\<rparr>) = module_idents o1 ?c" by (simp add: module_idents_def module_regs_def)
  note t = show_module_frame(1-3) [OF assms(1)] and t' = show_module_frame [OF assms(2)]
  have u: "map row_frame (st_rows ?u) = map row_frame (st_rows t')" "st_header ?u = None" "length (st_plain ?u) = length (st_rows ?u)"
    using refreshes_frame [OF t(3), of plain pf o1 c ms] t(1,2) t'(1) same by simp_all
  note r = refresh_shown_spec [OF u(3), where plain = plain and pf = pf and ?o1.0 = o1 and c = ?c]
  have l: "length (st_rows ?u) = length (st_rows t')" using map_eq_imp_length_eq [OF u(1)] .
  show ?thesis
  proof (rule shown_texts_eq)
    show "map row_frame (st_rows (refresh_shown_values plain pf o1 ?c ?u)) = map row_frame (st_rows t')" using r(1) u(1) by simp
    fix i assume i: "i < length (st_rows t')" "\<not> is_mem_row (st_rows t' ! i)"
    have f: "row_frame (st_rows ?u ! i) = row_frame (st_rows t' ! i)" using u(1) i(1) l by (metis nth_map)
    have now: "row_value_now pf o1 (st_header ?u) ?c (st_rows ?u ! i) = Inr (Some (mr_value (st_rows t' ! i)))"
      by (rule trans [OF row_value_now_frame [OF f]]) (rule conjunct1 [OF t'(4) [OF i]])
    have "i < length (st_rows ?u)" unfolding l by (rule i(1))
    from r(4) [OF this] show "st_plain (refresh_shown_values plain pf o1 ?c ?u) ! i = st_plain t' ! i"
      unfolding now sum.case option.case conjunct2 [OF t'(4) [OF i]] .
  qed
qed

text \<open>An example: one signed register of 12 bits, its two bytes in the image as given.\<close>

definition example_image :: "byte list \<Rightarrow> regions modmem" where
  "example_image d = write_bytes_cached 0x104 d example_mem"

definition example_map :: "regions modcore" where
  "example_map = example_module\<lparr>mo_arr_reg_k := [], mo_arr_reg_var := [example_reg Acc_rw VK_sint 12 None], mo_arr_external_mem := []\<rparr>"

definition example_opts :: view_opts where
  "example_opts = \<lparr>vo_value_bits = False, vo_expand_vec = False\<rparr>"

lemma map_sum_Inr: "map_sum id f x = Inr y \<Longrightarrow> \<exists>z. x = Inr z \<and> f z = y"
  by (cases x) auto

lemma example_map_shown:
  "map_sum id (map snd \<circ> shown_texts) (show_module id example_pf example_opts (example_map\<lparr>mo_mem := example_image [0, 0]\<rparr>)) =
     Inr [''[default]0[/default]'']"
  "map_sum id (map snd \<circ> shown_texts) (show_module id example_pf example_opts (example_map\<lparr>mo_mem := example_image [0xD8, 0xFF]\<rparr>)) =
     Inr [''[default]-40[/default]'']"
  by code_simp+

theorem refresh_is_redraw_witness:
  "\<exists>t. show_module id example_pf example_opts (example_map\<lparr>mo_mem := example_image [0, 0]\<rparr>) = Inr t \<and>
     map snd (shown_texts t) = [''[default]0[/default]''] \<and>
     map snd (shown_texts (refresh_shown_values id example_pf example_opts (example_map\<lparr>mo_mem := example_image [0xD8, 0xFF]\<rparr>) t)) =
       [''[default]-40[/default]'']"
proof -
  obtain t where t: "show_module id example_pf example_opts (example_map\<lparr>mo_mem := example_image [0, 0]\<rparr>) = Inr t"
      "map snd (shown_texts t) = [''[default]0[/default]'']"
    using map_sum_Inr [OF example_map_shown(1)] by auto
  obtain t' where t': "show_module id example_pf example_opts (example_map\<lparr>mo_mem := example_image [0xD8, 0xFF]\<rparr>) = Inr t'"
      "map snd (shown_texts t') = [''[default]-40[/default]'']"
    using map_sum_Inr [OF example_map_shown(2)] by auto
  show ?thesis using t t'(2) refresh_is_redraw [OF t(1) t'(1), of "[]"] by simp
qed

text \<open>
  A table that is built again keeps the position of the cursor, not the register it is on: where vectors are
  expanded meanwhile the row at this position is another one.
\<close>

lemma cursor_keeps_position:
  assumes "i < length rows" and "i < length rows'"
  shows "restore_table_cursor (remember_table_cursor (int i) (keyed rows)) (keyed rows') cur = i"
  using assms by (simp add: remember_table_cursor_def restore_table_cursor_def keyed_facts row_of_key_keyed)

section \<open>The search of an address\<close>

lemma asset_in_holds:
  "asset_in addr c = Some x \<Longrightarrow>
     (case x of
        As_reg c' r \<Rightarrow> c' = c \<and> r \<in> set (module_regs c) \<and> (\<exists>a. rg_addr r = Some a \<and> holds_addr addr a (rg_size r))
      | As_mem c' y \<Rightarrow> c' = c \<and> y \<in> set (mo_arr_external_mem c) \<and> holds_addr addr (xm_base_addr y) (xm_size y))"
  by (auto simp: asset_in_def find_Some_iff split: option.splits)

text \<open>The search over the tree is the search in its loaded modules in their order.\<close>

lemma asset_at_search:
  fixes md :: "'w module" and kids :: "'w module option list"
  shows "asset_at addr md = (case find (\<lambda>c. asset_in addr c \<noteq> None) (cores md) of None \<Rightarrow> None | Some c \<Rightarrow> asset_in addr c)"
    and "asset_at_kids addr kids = (case find (\<lambda>c. asset_in addr c \<noteq> None) (cores_kids kids) of None \<Rightarrow> None | Some c \<Rightarrow> asset_in addr c)"
proof (induction md and kids rule: cores_cores_kids.induct)
  case (1 c kids)
  then show ?case by (auto split: option.splits)
next
  case (4 k kids)
  then show ?case by (auto simp: find_append split: option.splits dest!: find_holds)
qed simp_all

end
