(* ===== verification/SkmapLog.thy ===== *)
theory SkmapLog
  imports SkmapEdit
begin

text \<open>
  \<^verbatim>\<open>pip/skmap_ui/src/skmap_ui/app.py\<close>, the asserts: the check of the loaded tree, the log of the triggered
  asserts and the cursor in it, the levels and periods the keys cycle through, the workers that read, check
  and clear, and the flag that holds writes while one of them runs. A logged asset is a parameter \<open>'a\<close> of the
  log. The panels are those a cursor can come from.
\<close>

section \<open>Levels and periods\<close>

definition asserts_levels :: "ass list" where
  "asserts_levels = [Ass_debug, Ass_info, Ass_warn, Ass_error, Ass_fatal]"

definition refresh_intervals :: "rat option list" where
  "refresh_intervals = [None, Some 1, Some 5, Some 30]"

fun index_of :: "'a \<Rightarrow> 'a list \<Rightarrow> nat option" where
  "index_of x [] = None"
| "index_of x (y # ys) = (if y = x then Some 0 else map_option Suc (index_of x ys))"

definition after_index :: "'a list \<Rightarrow> nat \<Rightarrow> 'a" where
  "after_index xs i = xs ! ((i + 1) mod length xs)"

definition cycle_asserts_level :: "ass \<Rightarrow> ass res" where
  "cycle_asserts_level a =
     (case index_of a asserts_levels of None \<Rightarrow> Inl ValueError | Some i \<Rightarrow> Inr (after_index asserts_levels i))"

text \<open>The options of the periodic update and the interval of the timer that runs.\<close>

record update_state =
  up_period :: "rat option"
  up_clears_rc :: bool
  up_timer :: "rat option"

definition set_refresh_timer :: "update_state \<Rightarrow> update_state" where
  "set_refresh_timer u = u\<lparr>up_timer := (case up_period u of None \<Rightarrow> None | Some p \<Rightarrow> if p = 0 then None else Some p)\<rparr>"

definition set_update :: "bool \<Rightarrow> update_state \<Rightarrow> update_state" where
  "set_update clears_rc u =
     (let i = (case index_of (up_period u) refresh_intervals of None \<Rightarrow> 0 | Some i \<Rightarrow> i) in
      set_refresh_timer (u\<lparr>up_clears_rc := clears_rc, up_period := after_index refresh_intervals i\<rparr>))"

section \<open>The check of the loaded tree\<close>

definition kids_loaded :: "'w module \<Rightarrow> bool" where
  "kids_loaded md \<longleftrightarrow> (\<forall>k \<in> set (mod_kids md). \<not> Option.is_none k)"

fun check_asserts_partial :: "ass \<Rightarrow> log_item list \<Rightarrow> 'w module \<Rightarrow> (ass \<times> log_item list) res"
and check_kids_partial :: "ass \<Rightarrow> ass \<Rightarrow> log_item list \<Rightarrow> 'w module option list \<Rightarrow> (ass \<times> log_item list) res" where
  "check_asserts_partial level log_f (Module c kids) =
     rbind (check_assert_cached level log_f c) (\<lambda>(worst, log_f). check_kids_partial worst level log_f kids)"
| "check_kids_partial worst level log_f [] = Inr (worst, log_f)"
| "check_kids_partial worst level log_f (None # kids) = check_kids_partial worst level log_f kids"
| "check_kids_partial worst level log_f (Some k # kids) =
     rbind (check_asserts_partial level log_f k) (\<lambda>(kid_worst, log_f).
       check_kids_partial (if kid_worst > worst then kid_worst else worst) level log_f kids)"

definition check_loaded :: "ass \<Rightarrow> 'w module \<Rightarrow> (ass \<times> log_item list) res" where
  "check_loaded level md =
     (if kids_loaded md then check_assert_tree_cached level [] md else check_asserts_partial level [] md)"

section \<open>The log\<close>

datatype log_line = Ln_head string ass nat ass | Ln_asset string

record 'a log_block =
  lb_head :: log_line
  lb_rows :: "table_row list"
  lb_assets :: "'a list"

datatype panel = Pn_tree | Pn_table | Pn_log | Pn_other

record 'a assert_log =
  al_lines :: "log_line list"
  al_blocks :: "'a log_block list"
  al_nav :: bool
  al_idx :: int
  al_return :: "panel option"
  al_focus :: panel

text \<open>The row of a triggered assert, with the constants and the image of its module, and its line.\<close>

definition assert_row :: "py_impl \<Rightarrow> 'w logged \<Rightarrow> table_row res" where
  "assert_row pf it =
     (case it of
        (Log_flag r f, ks, m) \<Rightarrow>
          rbind (reg_addr r) (\<lambda>a.
          rbind (flag_value_rich_str pf r f m) (\<lambda>v.
            Inr \<lparr>row_addr = py_hex a, row_type = ''b'' @ py_str_int (rf_bit f), row_acc = acc_name (rg_acc r),
                 row_name = rg_name r @ ''.'' @ rf_name f, row_value = v, row_desc = Desc (rf_desc f)\<rparr>))
      | (Log_reg r, ks, m) \<Rightarrow>
          rbind (reg_addr r) (\<lambda>a.
          rbind (m_rich_str_cached pf ks r m) (\<lambda>v.
            Inr \<lparr>row_addr = py_hex a, row_type = value_type_str r, row_acc = acc_name (rg_acc r),
                 row_name = rg_name r, row_value = v, row_desc = Desc (rg_desc r)\<rparr>)))"

definition assert_line :: "(string \<Rightarrow> string) \<Rightarrow> table_row \<Rightarrow> string" where
  "assert_line plain t =
     row_addr t @ ''  '' @ row_type t @ ''  '' @ row_acc t @ ''  '' @ row_name t @ ''  '' @ plain (row_value t) @ ''  '' @
     (case row_desc t of Desc d \<Rightarrow> d | Desc_marked k d \<Rightarrow> d)"

text \<open>One block for a check that found something; \<open>row\<close> gives the row of an asset.\<close>

definition append_assert_log ::
  "(string \<Rightarrow> string) \<Rightarrow> ('a \<Rightarrow> table_row res) \<Rightarrow> string \<Rightarrow> ass \<Rightarrow> ass \<Rightarrow> 'a list \<Rightarrow> 'a assert_log \<Rightarrow> 'a assert_log res" where
  "append_assert_log plain row stamp level worst log_f lg =
     (if log_f = [] then Inr lg
      else rbind (rmapM row log_f) (\<lambda>rows.
        let head = Ln_head stamp level (length log_f) worst in
        Inr (lg\<lparr>al_lines := al_lines lg @ head # map (\<lambda>t. Ln_asset (assert_line plain t)) rows,
                al_blocks := al_blocks lg @ [\<lparr>lb_head = head, lb_rows = rows, lb_assets = log_f\<rparr>]\<rparr>)))"

text \<open>Every logged assert as its block and its row, oldest first.\<close>

definition log_entries :: "'a assert_log \<Rightarrow> (nat \<times> nat) list" where
  "log_entries lg = concat (map (\<lambda>(i, b). map (Pair i) [0..<length (lb_assets b)]) (enumerate 0 (al_blocks lg)))"

definition log_render :: "'a assert_log \<Rightarrow> 'a assert_log" where
  "log_render lg =
     (let n = int (length (log_entries lg)) in
      lg\<lparr>al_idx := (if n = 0 then -1 else if al_idx lg \<ge> n then n - 1 else al_idx lg)\<rparr>)"

definition log_cursor_exit :: "(panel \<Rightarrow> bool) \<Rightarrow> 'a assert_log \<Rightarrow> 'a assert_log" where
  "log_cursor_exit focusable lg =
     (if \<not> al_nav lg then lg
      else let widget = al_return lg;
               lg = log_render (lg\<lparr>al_nav := False, al_idx := -1, al_return := None\<rparr>) in
           lg\<lparr>al_focus := (case widget of Some p \<Rightarrow> if focusable p then p else Pn_table | None \<Rightarrow> Pn_table)\<rparr>)"

definition action_log_cursor :: "(panel \<Rightarrow> bool) \<Rightarrow> 'a assert_log \<Rightarrow> 'a assert_log" where
  "action_log_cursor focusable lg =
     (if al_nav lg then log_cursor_exit focusable lg
      else if log_entries lg = [] then lg
      else log_render (lg\<lparr>al_nav := True, al_idx := int (length (log_entries lg)) - 1, al_return := Some (al_focus lg),
                          al_focus := Pn_log\<rparr>))"

definition log_cursor_move :: "int \<Rightarrow> 'a assert_log \<Rightarrow> 'a assert_log" where
  "log_cursor_move delta lg =
     (let n = int (length (log_entries lg)) in
      if n = 0 then lg
      else log_render (lg\<lparr>al_idx :=
        (if al_idx lg < 0 then (if delta > 0 then 0 else n - 1) else max 0 (min (al_idx lg + delta) (n - 1)))\<rparr>))"

text \<open>The assert the cursor is on, the one that is shown in the register map.\<close>

definition log_cursor_select :: "'a assert_log \<Rightarrow> 'a option" where
  "log_cursor_select lg =
     (if log_entries lg = [] \<or> al_idx lg < 0 then None
      else case log_entries lg ! nat (al_idx lg) of (i, row) \<Rightarrow> Some (lb_assets (al_blocks lg ! i) ! row))"

definition action_clear_log :: "(panel \<Rightarrow> bool) \<Rightarrow> 'a assert_log \<Rightarrow> 'a assert_log" where
  "action_clear_log focusable lg =
     (let lg = lg\<lparr>al_lines := [], al_blocks := []\<rparr>; lg = (if al_nav lg then log_cursor_exit focusable lg else lg) in
      lg\<lparr>al_idx := -1\<rparr>)"

text \<open>The keys of the log widget; they act only while the cursor is inside the log.\<close>

datatype log_key = Key_up | Key_down | Key_enter | Key_l | Key_escape | Key_tab | Key_shift_tab

definition nav_key :: "(panel \<Rightarrow> bool) \<Rightarrow> log_key \<Rightarrow> 'a assert_log \<Rightarrow> bool \<times> 'a assert_log" where
  "nav_key focusable k lg =
     (if \<not> al_nav lg then (False, lg)
      else (True, case k of
          Key_up \<Rightarrow> log_cursor_move (-1) lg
        | Key_down \<Rightarrow> log_cursor_move 1 lg
        | Key_enter \<Rightarrow> lg
        | _ \<Rightarrow> log_cursor_exit focusable lg))"

datatype 'a log_event = Ev_check string ass ass "'a list" | Ev_cursor | Ev_key log_key | Ev_clear | Ev_focus panel

definition log_event :: "(string \<Rightarrow> string) \<Rightarrow> ('a \<Rightarrow> table_row res) \<Rightarrow> (panel \<Rightarrow> bool) \<Rightarrow> 'a log_event \<Rightarrow> 'a assert_log \<Rightarrow> 'a assert_log" where
  "log_event plain row focusable ev lg =
     (case ev of
        Ev_check stamp level worst items \<Rightarrow>
          (case append_assert_log plain row stamp level worst items lg of Inl e \<Rightarrow> lg | Inr lg' \<Rightarrow> lg')
      | Ev_cursor \<Rightarrow> action_log_cursor focusable lg
      | Ev_key k \<Rightarrow> snd (nav_key focusable k lg)
      | Ev_clear \<Rightarrow> action_clear_log focusable lg
      | Ev_focus p \<Rightarrow> lg\<lparr>al_focus := p\<rparr>)"

definition assert_log_init :: "'a assert_log" where
  "assert_log_init = \<lparr>al_lines = [], al_blocks = [], al_nav = False, al_idx = -1, al_return = None, al_focus = Pn_tree\<rparr>"

section \<open>The workers\<close>

text \<open>A module of the tree by the indexes of the kids that lead to it.\<close>

fun on_path :: "nat list \<Rightarrow> ('w \<times> 'w module, 'a) io \<Rightarrow> ('w \<times> 'w module, 'a) io" where
  "on_path [] f = f"
| "on_path (i # is) f = on_kid i (on_path is f)"

text \<open>The check a worker makes: nothing where one already runs, and a check that raises logs nothing.\<close>

definition recheck_asserts ::
  "nat \<Rightarrow> 'w registry \<Rightarrow> bool \<Rightarrow> ass \<Rightarrow> bool \<Rightarrow> ('w \<times> 'w module, (ass \<times> log_item list) option) io" where
  "recheck_asserts depth lookup checking level rebuild =
     (if checking then io_return None
      else io_bind (if rebuild then effect_of (io_try (make_tree depth lookup)) else io_return ()) (\<lambda>_.
           io_bind (io_get (\<lambda>(w, md). check_loaded level md)) (\<lambda>x.
             io_return (case x of Inl e \<Rightarrow> None | Inr found \<Rightarrow> Some found))))"

definition clear_triggered :: "nat \<Rightarrow> 'w registry \<Rightarrow> nat list option \<Rightarrow> ('w \<times> 'w module, unit) io" where
  "clear_triggered depth lookup shown =
     io_bind (case shown of None \<Rightarrow> io_return () | Some p \<Rightarrow> on_path p (on_core clear_reg_rc)) (\<lambda>_.
       clear_assert_tree depth lookup)"

definition refresh_worker ::
  "nat \<Rightarrow> 'w registry \<Rightarrow> bool \<Rightarrow> ass \<Rightarrow> nat list option \<Rightarrow> bool \<Rightarrow> ('w \<times> 'w module, (ass \<times> log_item list) option) io" where
  "refresh_worker depth lookup checking level shown clears_rc =
     io_bind (io_try (read_all_tree depth lookup False False)) (\<lambda>x.
       case x of
         Inl e \<Rightarrow> io_return None
       | Inr _ \<Rightarrow>
           io_bind (recheck_asserts depth lookup checking level False) (\<lambda>found.
           io_bind (if clears_rc then effect_of (io_try (clear_triggered depth lookup shown)) else io_return ()) (\<lambda>_.
             io_return found)))"

definition read_all_worker ::
  "nat \<Rightarrow> 'w registry \<Rightarrow> bool \<Rightarrow> ass \<Rightarrow> ('w \<times> 'w module, (ass \<times> log_item list) option) io" where
  "read_all_worker depth lookup checking level =
     io_bind (io_get (\<lambda>(w, md). \<not> mm_use_cache (mo_mem (mod_core md)))) (\<lambda>use_read_all.
     io_bind (io_try (read_all_tree depth lookup use_read_all False)) (\<lambda>x.
       case x of
         Inl e \<Rightarrow> io_return None
       | Inr _ \<Rightarrow> recheck_asserts depth lookup checking level use_read_all))"

definition clear_triggered_worker :: "nat \<Rightarrow> 'w registry \<Rightarrow> nat list option \<Rightarrow> ('w \<times> 'w module, bool) io" where
  "clear_triggered_worker depth lookup shown = caught (clear_triggered depth lookup shown)"

section \<open>The flag that holds the writes\<close>

text \<open>
  The coroutines take turns. A worker clears the flag when it starts and sets it when it ends; a write waits
  for the flag before its first access.
\<close>

datatype worker = Wk_refresh | Wk_read_all | Wk_clear

record work_state =
  wk_running :: "worker list"
  wk_checking :: bool
  wk_idle :: bool
  wk_held :: nat

datatype work_event = We_start worker | We_end worker | We_check bool | We_write | We_release

definition may_start :: "worker \<Rightarrow> work_state \<Rightarrow> bool" where
  "may_start k s \<longleftrightarrow> k = Wk_clear \<or> \<not> wk_checking s"

inductive work_step :: "work_state \<Rightarrow> work_event \<Rightarrow> work_state \<Rightarrow> bool" where
  begins: "may_start k s \<Longrightarrow> work_step s (We_start k) (s\<lparr>wk_running := k # wk_running s, wk_idle := False\<rparr>)"
| ends: "k \<in> set (wk_running s) \<Longrightarrow> work_step s (We_end k) (s\<lparr>wk_running := remove1 k (wk_running s), wk_idle := True\<rparr>)"
| checks: "wk_checking s = (\<not> b) \<Longrightarrow> work_step s (We_check b) (s\<lparr>wk_checking := b\<rparr>)"
| asks: "work_step s We_write (s\<lparr>wk_held := wk_held s + 1\<rparr>)"
| goes: "wk_idle s \<Longrightarrow> 0 < wk_held s \<Longrightarrow> work_step s We_release (s\<lparr>wk_held := wk_held s - 1\<rparr>)"

definition work_init :: work_state where
  "work_init = \<lparr>wk_running = [], wk_checking = False, wk_idle = True, wk_held = 0\<rparr>"

inductive work_run :: "work_state \<Rightarrow> work_event list \<Rightarrow> work_state \<Rightarrow> bool" where
  none: "work_run s [] s"
| more: "work_step s e s' \<Longrightarrow> work_run s' es s'' \<Longrightarrow> work_run s (e # es) s''"

section \<open>Lemmas: the check\<close>

text \<open>Every kid that the tree has room for is loaded, at every depth.\<close>

fun loaded :: "'w module \<Rightarrow> bool" and loaded_kids :: "'w module option list \<Rightarrow> bool" where
  "loaded (Module c kids) \<longleftrightarrow> loaded_kids kids"
| "loaded_kids [] \<longleftrightarrow> True"
| "loaded_kids (None # kids) \<longleftrightarrow> False"
| "loaded_kids (Some k # kids) \<longleftrightarrow> loaded k \<and> loaded_kids kids"

lemma partial_is_tree:
  fixes md :: "'w module" and kids :: "'w module option list"
  shows "check_asserts_partial level log_f md = Inr x \<Longrightarrow>
      check_assert_tree_cached level log_f md = (if loaded md then Inr x else Inl AssertionError)"
    and "check_kids_partial worst level log_f kids = Inr x \<Longrightarrow>
      check_assert_kids_cached worst level log_f kids = (if loaded_kids kids then Inr x else Inl AssertionError)"
proof (induction level log_f md and worst level log_f kids arbitrary: x and x rule: check_asserts_partial_check_kids_partial.induct)
  case (4 worst level log_f k kids)
  obtain kid_worst log_f' where k: "check_asserts_partial level log_f k = Inr (kid_worst, log_f')"
    and r: "check_kids_partial (if kid_worst > worst then kid_worst else worst) level log_f' kids = Inr x"
    using "4.prems" by (auto simp: rbind_Inr_iff)
  show ?case using "4.IH"(1) [OF k] "4.IH"(2) [OF r] by auto
qed (auto simp: rbind_Inr_iff)

text \<open>
  What a check of the tree says. Where the modules that are loaded can be checked, the result is theirs, except
  for a tree that is loaded at the top and not below: the shortcut for a loaded tree looks at the kids of the
  top module only, and the check of the whole tree then fails at the module that is missing.
\<close>

theorem check_loaded_result:
  assumes "check_asserts_partial level [] md = Inr found"
  shows "check_loaded level md = (if kids_loaded md \<and> \<not> loaded md then Inl AssertionError else Inr found)"
  using assms partial_is_tree(1) [OF assms] by (auto simp: check_loaded_def)

section \<open>Lemmas: the log\<close>

lemma entries_length: "length (log_entries lg) = sum_list (map (length \<circ> lb_assets) (al_blocks lg))"
proof -
  have "sum_list (map (\<lambda>(i, b). length (lb_assets b)) (enumerate n bs)) = sum_list (map (length \<circ> lb_assets) bs)" for n and bs :: "'a log_block list"
    by (induction bs arbitrary: n) auto
  then show ?thesis by (simp add: log_entries_def length_concat comp_def case_prod_beta')
qed

lemma entries_append:
  "log_entries (lg\<lparr>al_lines := ls, al_blocks := al_blocks lg @ [b]\<rparr>) =
    log_entries lg @ map (Pair (length (al_blocks lg))) [0..<length (lb_assets b)]"
  by (simp add: log_entries_def enumerate_append_eq)

lemma entries_valid:
  assumes "(i, row) \<in> set (log_entries lg)"
  shows "i < length (al_blocks lg) \<and> row < length (lb_assets (al_blocks lg ! i))"
  using assms by (auto simp: log_entries_def in_set_enumerate_eq)

lemma render_facts [simp]:
  "al_nav (log_render lg) = al_nav lg" "al_blocks (log_render lg) = al_blocks lg" "al_return (log_render lg) = al_return lg"
  "al_focus (log_render lg) = al_focus lg" "log_entries (log_render lg) = log_entries lg"
  by (simp_all add: log_render_def Let_def log_entries_def)

text \<open>While the cursor is inside the log it is on a logged assert; outside it has no place.\<close>

definition log_ok :: "'a assert_log \<Rightarrow> bool" where
  "log_ok lg \<longleftrightarrow> (if al_nav lg then 0 \<le> al_idx lg \<and> al_idx lg < int (length (log_entries lg)) else al_idx lg = -1)"

lemma exit_facts:
  assumes "log_ok lg"
  shows "\<not> al_nav (log_cursor_exit focusable lg)" "al_idx (log_cursor_exit focusable lg) = -1"
  using assms by (auto simp: log_cursor_exit_def Let_def log_render_def log_ok_def)

lemma append_facts:
  assumes "append_assert_log plain row stamp level worst items lg = Inr lg'"
  shows "al_nav lg' = al_nav lg" "al_idx lg' = al_idx lg" "al_return lg' = al_return lg" "al_focus lg' = al_focus lg"
    "\<exists>new. al_blocks lg' = al_blocks lg @ new" "\<exists>new. log_entries lg' = log_entries lg @ new"
  using assms by (auto simp: append_assert_log_def rbind_Inr_iff Let_def entries_append split: if_splits)

lemma log_event_ok:
  assumes "log_ok lg"
  shows "log_ok (log_event plain row focusable ev lg)"
proof (cases ev)
  case (Ev_check stamp level worst items)
  show ?thesis
  proof (cases "append_assert_log plain row stamp level worst items lg")
    case (Inr lg')
    then show ?thesis using append_facts [OF Inr] assms by (auto simp: log_event_def Ev_check log_ok_def)
  qed (simp add: log_event_def Ev_check assms)
next
  case Ev_cursor
  then show ?thesis using assms exit_facts [OF assms]
    by (auto simp: log_event_def action_log_cursor_def log_ok_def log_render_def Let_def log_entries_def)
next
  case (Ev_key k)
  then show ?thesis using assms exit_facts [OF assms]
    by (cases k) (auto simp: log_event_def nav_key_def log_ok_def log_cursor_move_def Let_def, auto simp: log_render_def Let_def log_entries_def)
next
  case Ev_clear
  then show ?thesis by (auto simp: log_event_def action_clear_log_def log_ok_def log_cursor_exit_def Let_def)
qed (use assms in \<open>auto simp: log_event_def log_ok_def log_entries_def\<close>)

lemma fold_log_ok: "log_ok lg \<Longrightarrow> log_ok (fold (log_event plain row focusable) evs lg)"
  by (induction evs arbitrary: lg) (auto intro: log_event_ok)

lemma init_log_ok: "log_ok assert_log_init"
  by (simp add: log_ok_def assert_log_init_def)

lemma selected_when_nav: "log_ok lg \<Longrightarrow> al_nav lg = (log_cursor_select lg \<noteq> None)"
  by (auto simp: log_ok_def log_cursor_select_def split: prod.splits if_splits)

lemma check_keeps_selected:
  assumes "log_ok lg"
  shows "log_cursor_select (log_event plain row focusable (Ev_check stamp level worst items) lg) = log_cursor_select lg \<and>
    al_return (log_event plain row focusable (Ev_check stamp level worst items) lg) = al_return lg"
proof (cases "append_assert_log plain row stamp level worst items lg")
  case (Inr lg')
  note a = append_facts [OF Inr]
  obtain nb ne where n: "al_blocks lg' = al_blocks lg @ nb" "log_entries lg' = log_entries lg @ ne" using a(5,6) by blast
  have "log_cursor_select lg' = log_cursor_select lg"
  proof (cases "al_nav lg")
    case True
    then have i: "0 \<le> al_idx lg" "nat (al_idx lg) < length (log_entries lg)" using assms by (auto simp: log_ok_def)
    obtain b r where e: "log_entries lg ! nat (al_idx lg) = (b, r)" by (cases "log_entries lg ! nat (al_idx lg)")
    have "b < length (al_blocks lg)" using entries_valid [of b r lg] nth_mem [OF i(2)] e by simp
    moreover have "log_entries lg \<noteq> []" using i(2) by auto
    ultimately show ?thesis using i e n a(2) by (simp add: log_cursor_select_def nth_append)
  next
    case False
    then show ?thesis using assms a(2) by (simp add: log_ok_def log_cursor_select_def)
  qed
  then show ?thesis using a(3) by (simp add: log_event_def Inr)
qed (simp add: log_event_def)

text \<open>The events of a series of checks.\<close>

definition checks :: "(string \<times> ass \<times> ass \<times> 'a list) list \<Rightarrow> 'a log_event list" where
  "checks cs = map (\<lambda>(stamp, level, worst, items). Ev_check stamp level worst items) cs"

lemma checks_keep_selected:
  "log_ok lg \<Longrightarrow>
    log_cursor_select (fold (log_event plain row focusable) (checks cs) lg) = log_cursor_select lg \<and>
    al_return (fold (log_event plain row focusable) (checks cs) lg) = al_return lg"
proof (induction cs arbitrary: lg)
  case (Cons x cs)
  obtain stamp level worst items where x: "x = (stamp, level, worst, items)" by (cases x)
  let ?lg = "log_event plain row focusable (Ev_check stamp level worst items) lg"
  have "checks (x # cs) = Ev_check stamp level worst items # checks cs" by (simp add: checks_def x)
  then show ?case
    using Cons.IH [OF log_event_ok [OF Cons.prems], of plain row focusable "Ev_check stamp level worst items"]
      check_keeps_selected [OF Cons.prems, of plain row focusable stamp level worst items] by simp
qed (simp add: checks_def)

text \<open>
  The cursor in the log. Whatever was pressed, logged and cleared before, the cursor is inside the log exactly
  when it is on a logged assert. The checks that run meanwhile append to the log and leave the cursor on the
  same assert, and remember the same panel to go back to.
\<close>

theorem log_cursor_stays:
  "let lg = fold (log_event plain row focusable) evs assert_log_init;
       lg' = fold (log_event plain row focusable) (checks cs) lg in
     al_nav lg = (log_cursor_select lg \<noteq> None) \<and> log_cursor_select lg' = log_cursor_select lg \<and> al_return lg' = al_return lg"
proof -
  have "log_ok (fold (log_event plain row focusable) evs assert_log_init)" by (rule fold_log_ok [OF init_log_ok])
  then show ?thesis using selected_when_nav checks_keep_selected unfolding Let_def by blast
qed

theorem check_loaded_result_witness:
  "check_loaded Ass_warn (Module (example_module) [Some (Module example_module [None])]) = Inl AssertionError \<and>
    check_asserts_partial Ass_warn [] (Module (example_module) [Some (Module example_module [None])]) = Inr (Ass_none, [])"
proof -
  have p: "check_asserts_partial Ass_warn [] (Module (example_module) [Some (Module example_module [None])]) = Inr (Ass_none, [])"
    by (simp add: check_assert_cached_def example_module_def init_core_def)
  then show ?thesis using check_loaded_result [OF p] by (simp add: kids_loaded_def)
qed

section \<open>Lemmas: levels and periods\<close>

text \<open>The key of the level goes through all five levels and comes back.\<close>

lemma level_cycle:
  "map cycle_asserts_level asserts_levels = map Inr [Ass_info, Ass_warn, Ass_error, Ass_fatal, Ass_debug]"
  by (simp add: asserts_levels_def cycle_asserts_level_def after_index_def)

text \<open>After the key of the update the timer runs at the period that is shown, whatever it ran at before.\<close>

lemma update_timer: "up_timer (set_update b u) = up_period (set_update b u) \<and> up_clears_rc (set_update b u) = b"
proof -
  have "after_index refresh_intervals i \<in> {None, Some 1, Some 5, Some 30}" for i
  proof -
    have "after_index refresh_intervals i \<in> set refresh_intervals" unfolding after_index_def by (rule nth_mem) (simp add: refresh_intervals_def)
    then show ?thesis by (auto simp: refresh_intervals_def)
  qed
  from this [of "case index_of (up_period u) refresh_intervals of None \<Rightarrow> 0 | Some i \<Rightarrow> i"] show ?thesis
    by (auto simp: set_update_def set_refresh_timer_def Let_def)
qed

section \<open>Lemmas: the held writes\<close>

inductive_cases work_runE: "work_run s es s'"

lemma idle_without_worker: "work_run s es s' \<Longrightarrow> (wk_running s = [] \<Longrightarrow> wk_idle s) \<Longrightarrow> wk_running s' = [] \<Longrightarrow> wk_idle s'"
  by (induction rule: work_run.induct) (auto elim!: work_step.cases)

lemma run_append: "work_run s es s' \<Longrightarrow> work_run s' es' s'' \<Longrightarrow> work_run s (es @ es') s''"
  by (induction rule: work_run.induct) (auto intro: work_run.intros)

lemma all_end: "\<exists>s'. work_run s (map We_end (wk_running s)) s' \<and> wk_running s' = [] \<and> wk_held s' = wk_held s"
proof (induction "wk_running s" arbitrary: s)
  case (Cons k ks)
  let ?s = "s\<lparr>wk_running := remove1 k (wk_running s), wk_idle := True\<rparr>"
  have k: "wk_running s = k # ks" using Cons.hyps(2) by simp
  obtain s' where "work_run ?s (map We_end (wk_running ?s)) s'" "wk_running s' = []" "wk_held s' = wk_held ?s"
    using Cons.hyps(1) [of ?s] k by auto
  moreover have "work_step s (We_end k) ?s" by (rule ends) (simp add: k)
  ultimately show ?case using k by (auto intro: more)
qed (auto intro: none)

lemma all_go: "wk_idle s \<Longrightarrow> \<exists>s'. work_run s (replicate (wk_held s) We_release) s' \<and> wk_running s' = wk_running s \<and> wk_held s' = 0"
proof (induction "wk_held s" arbitrary: s)
  case (Suc n)
  let ?s = "s\<lparr>wk_held := wk_held s - 1\<rparr>"
  obtain s' where "work_run ?s (replicate n We_release) s'" "wk_running s' = wk_running ?s" "wk_held s' = 0"
    using Suc.hyps(1) [of ?s] Suc.hyps(2) Suc.prems by (metis diff_Suc_1 select_convs(4) update_convs(4) work_state.select_convs(3) work_state.select_convs(4) work_state.surjective work_state.update_convs(4))
  moreover have "work_step s We_release ?s" by (rule goes) (use Suc in auto)
  ultimately show ?case using Suc.hyps(2) [symmetric] by (auto intro: more)
qed (auto intro: none)

text \<open>
  No write is held for ever: whatever the workers and keys did before, once the workers that run have ended
  every write that waits goes out.
\<close>

theorem held_writes_go_out:
  assumes "work_run work_init es s"
  shows "\<exists>s' s''. work_run s (map We_end (wk_running s)) s' \<and>
    work_run s' (replicate (wk_held s) We_release) s'' \<and> wk_running s'' = [] \<and> wk_held s'' = 0"
proof -
  obtain s' where s': "work_run s (map We_end (wk_running s)) s'" "wk_running s' = []" "wk_held s' = wk_held s" using all_end by blast
  have "wk_idle s'" using idle_without_worker [OF run_append [OF assms s'(1)]] s'(2) by (simp add: work_init_def)
  then show ?thesis using all_go [of s'] s' by auto
qed

theorem held_writes_go_out_witness:
  "\<exists>s' s''. work_run \<lparr>wk_running = [Wk_refresh], wk_checking = False, wk_idle = False, wk_held = 1\<rparr> [We_end Wk_refresh] s' \<and>
    work_run s' [We_release] s'' \<and> wk_running s'' = [] \<and> wk_held s'' = 0"
proof -
  have "work_step work_init (We_start Wk_refresh) \<lparr>wk_running = [Wk_refresh], wk_checking = False, wk_idle = False, wk_held = 0\<rparr>"
    using begins [of Wk_refresh work_init] by (simp add: may_start_def work_init_def)
  moreover have "work_step \<lparr>wk_running = [Wk_refresh], wk_checking = False, wk_idle = False, wk_held = 0\<rparr> We_write
      \<lparr>wk_running = [Wk_refresh], wk_checking = False, wk_idle = False, wk_held = 1\<rparr>"
    using asks [of "\<lparr>wk_running = [Wk_refresh], wk_checking = False, wk_idle = False, wk_held = 0\<rparr>"] by simp
  ultimately have "work_run work_init [We_start Wk_refresh, We_write] \<lparr>wk_running = [Wk_refresh], wk_checking = False, wk_idle = False, wk_held = 1\<rparr>"
    by (auto intro: more none)
  from held_writes_go_out [OF this] show ?thesis by simp
qed

text \<open>Each worker starts while no other runs; the number of those that run at the start is given.\<close>

fun alone :: "nat \<Rightarrow> work_event list \<Rightarrow> bool" where
  "alone n [] \<longleftrightarrow> True"
| "alone n (We_start k # es) \<longleftrightarrow> n = 0 \<and> alone 1 es"
| "alone n (We_end k # es) \<longleftrightarrow> alone (n - 1) es"
| "alone n (e # es) \<longleftrightarrow> alone n es"

lemma alone_idle:
  assumes "work_run s es s'" and "alone (length (wk_running s)) es" and "wk_idle s = (wk_running s = [])" and "length (wk_running s) \<le> 1"
  shows "wk_idle s' = (wk_running s' = []) \<and> length (wk_running s') \<le> 1"
  using assms
proof (induction rule: work_run.induct)
  case (more s e s' es s'')
  from more.hyps(1) show ?case
  proof cases
    case (ends k)
    then have "wk_running s = [k]" using more.prems(3) by (cases "wk_running s") (auto simp: Suc_le_eq)
    then show ?thesis using more.IH more.prems ends by simp
  qed (use more.IH more.prems in auto)
qed simp

text \<open>
  A write does not go out in the middle of a worker, as long as no worker starts while another runs. The flag
  is one for all workers: with two of them the first that ends lets the writes out while the other still reads.
\<close>

theorem lone_worker_holds_writes:
  assumes "work_run work_init es s" and "alone 0 es"
  shows "work_step s We_release s' \<longleftrightarrow> wk_running s = [] \<and> 0 < wk_held s \<and> s' = s\<lparr>wk_held := wk_held s - 1\<rparr>"
proof -
  have "wk_idle s = (wk_running s = [])"
    using alone_idle [OF assms(1)] assms(2) by (simp add: work_init_def)
  then show ?thesis using goes [of s] by (auto elim!: work_step.cases)
qed

lemma overlap_lets_writes_out:
  "\<exists>es s s'. work_run work_init es s \<and> Wk_refresh \<in> set (wk_running s) \<and> work_step s We_release s'"
proof -
  define s1 where "s1 = \<lparr>wk_running = [Wk_refresh], wk_checking = False, wk_idle = False, wk_held = 0\<rparr>"
  define s2 where "s2 = s1\<lparr>wk_running := [Wk_clear, Wk_refresh]\<rparr>"
  define s3 where "s3 = s2\<lparr>wk_held := 1\<rparr>"
  define s4 where "s4 = s3\<lparr>wk_running := [Wk_refresh], wk_idle := True\<rparr>"
  have "work_step work_init (We_start Wk_refresh) s1" "work_step s1 (We_start Wk_clear) s2" "work_step s2 We_write s3" "work_step s3 (We_end Wk_clear) s4"
    using begins [of Wk_refresh work_init] begins [of Wk_clear s1] asks [of s2] ends [of Wk_clear s3]
    by (simp_all add: s1_def s2_def s3_def s4_def may_start_def work_init_def)
  then have "work_run work_init [We_start Wk_refresh, We_start Wk_clear, We_write, We_end Wk_clear] s4" by (blast intro: more none)
  moreover have "work_step s4 We_release (s4\<lparr>wk_held := wk_held s4 - 1\<rparr>)" by (rule goes) (simp_all add: s4_def s3_def)
  moreover have "Wk_refresh \<in> set (wk_running s4)" by (simp add: s4_def)
  ultimately show ?thesis by blast
qed


theorem lone_worker_holds_writes_witness:
  "\<exists>s. work_run work_init [We_start Wk_refresh, We_write, We_end Wk_refresh] s \<and>
    (\<forall>s'. work_step s We_release s' \<longleftrightarrow> s' = work_init)"
proof -
  define s1 where "s1 = work_init\<lparr>wk_running := [Wk_refresh], wk_idle := False\<rparr>"
  define s2 where "s2 = s1\<lparr>wk_held := 1\<rparr>"
  define s3 where "s3 = work_init\<lparr>wk_held := 1\<rparr>"
  have "work_step work_init (We_start Wk_refresh) s1" "work_step s1 We_write s2" "work_step s2 (We_end Wk_refresh) s3"
    using begins [of Wk_refresh work_init] asks [of s1] ends [of Wk_refresh s2]
    by (simp_all add: s1_def s2_def s3_def may_start_def work_init_def)
  then have run: "work_run work_init [We_start Wk_refresh, We_write, We_end Wk_refresh] s3" by (blast intro: more none)
  have "work_step s3 We_release s' \<longleftrightarrow> s' = work_init" for s'
    using lone_worker_holds_writes [OF run, of s'] by (simp add: s3_def work_init_def)
  then show ?thesis using run by blast
qed

section \<open>Lemmas: the update\<close>

text \<open>
  What a periodic update reports is the check of what it read, made before anything is cleared; and the update
  that keeps the registers leaves the tree and the device as the reads left them.
\<close>

lemma refresh_reports_what_was_read:
  assumes "read_all_tree depth lookup False False (w, md) = (Inr (), (w1, md1))"
  shows "fst (refresh_worker depth lookup False level shown clears_rc (w, md)) =
      Inr (case check_loaded level md1 of Inl e \<Rightarrow> None | Inr found \<Rightarrow> Some found)"
    and "snd (refresh_worker depth lookup False level shown False (w, md)) = (w1, md1)"
  using assms
  by (auto simp: refresh_worker_def recheck_asserts_def effect_of_def io_bind_run io_try_def io_get_def io_return_def
      split: sum.splits prod.splits)

end
