(* ===== verification/RecipeInvert.thy ===== *)
theory RecipeInvert
  imports RecipeParse
begin

text \<open>
  \<^verbatim>\<open>pip/skmap/src/skmap/code_generator_parse_resolvable.py\<close>, the value options of a register:
  \<open>v_check\<close>, and \<open>v_convert_wr\<close> or \<open>v_convert_rd\<close>, of which the other side is derived by inverting
  an expression that is affine in the value. The properties say when the derived side is the inverse
  of the given one for every register value, and which expressions the derivation treats wrongly.
\<close>

section \<open>Expressions of the coefficients\<close>

definition is_int_value :: "resolvable \<Rightarrow> int \<Rightarrow> bool" where
  "is_int_value node value \<longleftrightarrow> r_int node = Some value"

text \<open>\<^verbatim>\<open>_is_num\<close>, giving the number\<close>

fun r_num :: "resolvable \<Rightarrow> rnum option" where
  "r_num (RNum n) = Some n"
| "r_num _ = None"

fun norm_num :: "rnum \<Rightarrow> rnum" where
  "norm_num (NFrac q) = (if snd (quotient_of q) = 1 then NInt (fst (quotient_of q)) else NFrac q)"
| "norm_num n = n"

text \<open>\<^verbatim>\<open>while d % p == 0: d //= p\<close>\<close>

function strip_factor :: "int \<Rightarrow> int \<Rightarrow> int" where
  "strip_factor p d = (if 1 < p \<and> 0 < d \<and> d mod p = 0 then strip_factor p (d div p) else d)"
  by pat_completeness auto
termination by (relation "measure (\<lambda>(p, d). nat d)") (auto intro: int_div_less_self)

declare strip_factor.simps [simp del]

definition fraction_as_number :: "py_impl \<Rightarrow> rat \<Rightarrow> rnum option" where
  "fraction_as_number pf q =
     (let (n, d) = quotient_of q in
      if d = 1 then Some (NInt n)
      else if strip_factor 5 (strip_factor 2 d) = 1 then Some (NFlt (pf_round pf q)) else None)"

definition try_int :: "py_impl \<Rightarrow> resolvable \<Rightarrow> resolvable" where
  "try_int pf node =
     (case r_num node of Some n \<Rightarrow> node
      | None \<Rightarrow> (case resolvable_to_int pf node of Inr n \<Rightarrow> RNum n | Inl e \<Rightarrow> node))"

fun no_fraction_inside :: "resolvable \<Rightarrow> bool" where
  "no_fraction_inside (RNum (NFrac q)) = False"
| "no_fraction_inside (ROp l op r) = (no_fraction_inside l \<and> no_fraction_inside r)"
| "no_fraction_inside (RNot l) = no_fraction_inside l"
| "no_fraction_inside (RFun f ps) = list_all (\<lambda>p. no_fraction_inside p) ps"
| "no_fraction_inside _ = True"

lemma num_val_norm [simp]: "num_val (norm_num n) = num_val n"
proof (cases n)
  case (NFrac q)
  obtain a b where q: "quotient_of q = (a, b)" by (cases "quotient_of q")
  then show ?thesis using NFrac quotient_of_div [OF q] by simp
qed simp_all

lemma num_val_neg [simp]: "num_val (num_neg n) = - num_val n"
  by (cases n) simp_all

text \<open>\<open>x + -8\<close> is spelled \<open>x - 8\<close> and \<open>x - -8\<close> is spelled \<open>x + 8\<close>.\<close>

function expr_add :: "py_impl \<Rightarrow> resolvable \<Rightarrow> resolvable \<Rightarrow> resolvable"
  and expr_sub :: "py_impl \<Rightarrow> resolvable \<Rightarrow> resolvable \<Rightarrow> resolvable" where
  "expr_add pf lhs rhs =
     (if is_int_value lhs 0 then rhs
      else if is_int_value rhs 0 then lhs
      else case (r_num lhs, r_num rhs) of
        (Some a, Some b) \<Rightarrow> RNum (norm_num (num_add pf a b))
      | (None, Some b) \<Rightarrow> if num_val b < 0 then expr_sub pf lhs (RNum (norm_num (num_neg b))) else ROp lhs Op_add rhs
      | _ \<Rightarrow> ROp lhs Op_add rhs)"
| "expr_sub pf lhs rhs =
     (if is_int_value rhs 0 then lhs
      else case (r_num lhs, r_num rhs) of
        (Some a, Some b) \<Rightarrow> RNum (norm_num (num_sub pf a b))
      | (None, Some b) \<Rightarrow> if num_val b < 0 then expr_add pf lhs (RNum (norm_num (num_neg b))) else ROp lhs Op_sub rhs
      | _ \<Rightarrow> ROp lhs Op_sub rhs)"
  by pat_completeness auto
termination
  by (relation "measure (\<lambda>x. case x of Inl (pf, l, r) \<Rightarrow> (case r_num r of Some b \<Rightarrow> of_bool (num_val b < 0) | None \<Rightarrow> 0)
                                    | Inr (pf, l, r) \<Rightarrow> (case r_num r of Some b \<Rightarrow> of_bool (num_val b < 0) | None \<Rightarrow> 0))")
    (auto dest: sym split: option.split)

declare expr_add.simps [simp del] expr_sub.simps [simp del]

definition expr_mult :: "py_impl \<Rightarrow> resolvable \<Rightarrow> resolvable \<Rightarrow> resolvable" where
  "expr_mult pf lhs rhs =
     (if is_int_value lhs 0 \<or> is_int_value rhs 0 then RNum (NInt 0)
      else if is_int_value lhs 1 then rhs
      else if is_int_value rhs 1 then lhs
      else case (r_num lhs, r_num rhs) of
        (Some a, Some b) \<Rightarrow> RNum (norm_num (num_mult pf a b))
      | _ \<Rightarrow> ROp lhs Op_mult rhs)"

definition expr_div :: "py_impl \<Rightarrow> resolvable \<Rightarrow> resolvable \<Rightarrow> resolvable res" where
  "expr_div pf lhs rhs =
     (if is_int_value lhs 0 then Inr (RNum (NInt 0))
      else if is_int_value rhs 1 then Inr lhs
      else case (r_num lhs, r_num rhs) of
        (Some a, Some b) \<Rightarrow>
          if is_flt a \<or> is_flt b then rbind (num_truediv pf a b) (\<lambda>n. Inr (RNum n))
          else if num_val b = 0 then Inl ZeroDivisionError
          else Inr (RNum (norm_num (NFrac (num_val a / num_val b))))
      | _ \<Rightarrow> Inr (ROp lhs Op_div rhs))"

section \<open>Inversion\<close>

text \<open>The node as \<open>coef * v + offset\<close>, both without the value.\<close>

fun affine_in_v :: "py_impl \<Rightarrow> resolvable \<Rightarrow> (resolvable \<times> resolvable) res" where
  "affine_in_v pf (RParam nm t) = Inr (RNum (NInt 1), RNum (NInt 0))"
| "affine_in_v pf (ROp l op r) =
     (if \<not> contains_value_param (ROp l op r) then Inr (RNum (NInt 0), ROp l op r)
      else
        rbind (affine_in_v pf l) (\<lambda>(c_l, o_l).
          if op = Op_add then
            rbind (affine_in_v pf r) (\<lambda>(c_r, o_r). Inr (expr_add pf c_l c_r, expr_add pf o_l o_r))
          else if op = Op_sub then
            rbind (affine_in_v pf r) (\<lambda>(c_r, o_r). Inr (expr_sub pf c_l c_r, expr_sub pf o_l o_r))
          else if op = Op_mult then
            rbind (affine_in_v pf r) (\<lambda>(c_r, o_r).
              if \<not> is_int_value c_r 0 then Inl NotInvertibleError
              else Inr (expr_mult pf c_l r, expr_mult pf o_l r))
          else if op = Op_div then
            rbind (affine_in_v pf r) (\<lambda>(c_r, o_r).
              if \<not> is_int_value c_r 0 then Inl NotInvertibleError
              else
                let rhs_num = try_int pf r in
                rbind (expr_div pf c_l rhs_num) (\<lambda>c. rbind (expr_div pf o_l rhs_num) (\<lambda>d. Inr (c, d))))
          else Inl NotInvertibleError))"
| "affine_in_v pf (RNot l) =
     (if \<not> contains_value_param l then Inr (RNum (NInt 0), RNot l)
      else rbind (affine_in_v pf l) (\<lambda>_. Inl NotInvertibleError))"
| "affine_in_v pf (RFun f ps) =
     (if \<not> contains_value_param (RFun f ps) then Inr (RNum (NInt 0), RFun f ps) else Inl NotInvertibleError)"
| "affine_in_v pf node = Inr (RNum (NInt 0), node)"

text \<open>
  \<^verbatim>\<open>Fraction(text)\<close> of the text of a float: sign, digits, a decimal part, an exponent. The text of an
  int or a \<^verbatim>\<open>Fraction\<close> gives the number back.
\<close>

definition digits_of :: "string \<Rightarrow> int option" where
  "digits_of s = (if s = [] then None else map_option int (read_digits 10 0 s))"

definition signed_text :: "(string \<Rightarrow> 'a option) \<Rightarrow> ('a \<Rightarrow> 'a) \<Rightarrow> string \<Rightarrow> 'a option" where
  "signed_text f neg s =
     (case s of [] \<Rightarrow> None
      | c # cs \<Rightarrow> if c = CHR ''-'' then map_option neg (f cs) else if c = CHR ''+'' then f cs else f s)"

definition exponent_text :: "string \<Rightarrow> rat option" where
  "exponent_text s =
     (if s = [] then Some 1
      else map_option (\<lambda>e. if 0 \<le> e then 10 ^ nat e else 1 / 10 ^ nat (- e)) (signed_text digits_of uminus (tl s)))"

definition fraction_text :: "string \<Rightarrow> rat option" where
  "fraction_text =
     signed_text (\<lambda>s.
       let ip = takeWhile is_digit s; r = dropWhile is_digit s;
           dp = (if r \<noteq> [] \<and> hd r = CHR ''.'' then takeWhile is_digit (tl r) else []);
           r = (if r \<noteq> [] \<and> hd r = CHR ''.'' then dropWhile is_digit (tl r) else r)
       in if r \<noteq> [] \<and> hd r \<notin> {CHR ''e'', CHR ''E''} then None
          else case (digits_of (ip @ dp), exponent_text r) of
            (Some m, Some e) \<Rightarrow> Some (of_int m / 10 ^ length dp * e)
          | _ \<Rightarrow> None) uminus"

definition fraction_of_str :: "py_impl \<Rightarrow> rnum \<Rightarrow> rat res" where
  "fraction_of_str pf n =
     (case n of NFlt x \<Rightarrow> (case fraction_text (pf_str pf x) of None \<Rightarrow> Inl ValueError | Some q \<Rightarrow> Inr q)
      | _ \<Rightarrow> Inr (num_val n))"

definition V_CHECK_PARAM :: string where "V_CHECK_PARAM = ''v''"

text \<open>The float spelling of the inverse: \<open>v / 2.5\<close>, or \<open>v * 2.5\<close> for a coefficient below 1.\<close>

definition inverse_float :: "py_impl \<Rightarrow> rnum \<Rightarrow> resolvable \<Rightarrow> resolvable res" where
  "inverse_float pf coef offset =
     (let v = RParam V_CHECK_PARAM VType_s;
          tree = (if (case r_num offset of Some d \<Rightarrow> num_val d = 0 | None \<Rightarrow> False) then v else expr_sub pf v offset)
      in if num_val coef = 1 then Inr tree
         else if \<bar>num_val coef\<bar> < 1 then
           rbind (fraction_of_str pf coef) (\<lambda>fr.
             if fr = 0 then Inl ZeroDivisionError
             else case fraction_as_number pf (1 / fr) of
               Some recip \<Rightarrow> Inr (if num_val recip = 1 then tree else expr_mult pf tree (RNum recip))
             | None \<Rightarrow> expr_div pf tree (RNum coef))
         else expr_div pf tree (RNum coef))"

text \<open>The exact inverse of \<open>n/d * v + a/b\<close>: \<open>(v * b*d - a*d) / (b*n)\<close>, reduced.\<close>

definition inverse_exact :: "py_impl \<Rightarrow> rat \<Rightarrow> rat \<Rightarrow> resolvable res" where
  "inverse_exact pf coef_f off_f =
     (let (n, d) = quotient_of coef_f; (a, b) = quotient_of off_f;
          t_lhs = b * d; t_off = a * d; t_rhs = b * n;
          g = gcd (gcd \<bar>t_lhs\<bar> \<bar>t_off\<bar>) \<bar>t_rhs\<bar>;
          (t_lhs, t_off, t_rhs) = (t_lhs div g, t_off div g, t_rhs div g);
          (t_lhs, t_off, t_rhs) = (if t_rhs < 0 then (- t_lhs, - t_off, - t_rhs) else (t_lhs, t_off, t_rhs))
      in expr_div pf (expr_sub pf (expr_mult pf (RParam V_CHECK_PARAM VType_s) (RNum (NInt t_lhs))) (RNum (NInt t_off)))
           (RNum (NInt t_rhs)))"

text \<open>A coefficient or an offset known at run time only: the inverse is left to the run time.\<close>

definition inverse_named :: "py_impl \<Rightarrow> resolvable \<Rightarrow> resolvable \<Rightarrow> resolvable res" where
  "inverse_named pf coef offset =
     (if \<not> no_fraction_inside coef \<or> \<not> no_fraction_inside offset then Inl NotInvertibleError
      else expr_div pf (expr_sub pf (RParam V_CHECK_PARAM VType_s) offset) coef)"

definition inverse_affine :: "py_impl \<Rightarrow> resolvable \<Rightarrow> resolvable \<Rightarrow> resolvable res" where
  "inverse_affine pf coef offset =
     (let coef = try_int pf coef; offset = try_int pf offset in
      case (r_num coef, r_num offset) of
        (Some c, Some d) \<Rightarrow>
          if is_flt c \<or> is_flt d then inverse_float pf c offset else inverse_exact pf (num_val c) (num_val d)
      | (Some c, None) \<Rightarrow> if is_flt c then inverse_float pf c offset else inverse_named pf coef offset
      | _ \<Rightarrow> inverse_named pf coef offset)"

text \<open>An outer rounding or \<^verbatim>\<open>$float\<close> is dropped first.\<close>

definition unwrap :: "resolvable \<Rightarrow> resolvable" where
  "unwrap node =
     (case node of
        RFun f [p] \<Rightarrow> if f \<in> {Fn_round, Fn_ceil, Fn_floor, Fn_float} then p else node
      | _ \<Rightarrow> node)"

definition invert_resolvable :: "py_impl \<Rightarrow> resolvable \<Rightarrow> resolvable res" where
  "invert_resolvable pf node =
     rbind (affine_in_v pf (unwrap node)) (\<lambda>(coef, offset).
       if is_int_value coef 0 \<or> (case coef of RNum n \<Rightarrow> num_val n = 0 | _ \<Rightarrow> False) then Inl NotInvertibleError
       else inverse_affine pf coef offset)"

section \<open>Verification of the inverse\<close>

text \<open>The value of a tree with the value parameter bound; comparisons have none.\<close>

fun eval_with :: "py_impl \<Rightarrow> resolvable \<Rightarrow> rnum \<Rightarrow> rnum res" where
  "eval_with pf (RParam nm t) value = Inr (if v_type_is_float t then NFlt (to_flt pf value) else value)"
| "eval_with pf (ROp l op r) value =
     rbind (eval_with pf l value) (\<lambda>a. rbind (eval_with pf r value) (\<lambda>b.
       if op \<in> {Op_add, Op_sub, Op_mult, Op_div, Op_power, Op_mod} then eval_op pf op a b else Inl ValueError))"
| "eval_with pf (RNot l) value = rbind (eval_with pf l value) (\<lambda>_. Inl ValueError)"
| "eval_with pf (RFun f ps) value =
     rbind (rmapM (\<lambda>p. if contains_value_param p then rbind (eval_with pf p value) (\<lambda>n. Inr (RNum n)) else Inr p) ps)
       (\<lambda>ps. resolvable_to_int pf (RFun f ps))"
| "eval_with pf node value = resolvable_to_int pf node"

definition SAMPLES :: "int list" where "SAMPLES = [0, 1, 3, - 3, 100, - 100]"

text \<open>A sample that cannot be evaluated ends the verification without an error.\<close>

fun verify_samples :: "py_impl \<Rightarrow> resolvable \<Rightarrow> resolvable \<Rightarrow> int list \<Rightarrow> unit res" where
  "verify_samples pf node inv_node [] = Inr ()"
| "verify_samples pf node inv_node (raw # raws) =
     (case rbind (eval_with pf inv_node (NInt raw)) (\<lambda>user. rbind (eval_with pf node user) (round_to_int pf)) of
        Inl e \<Rightarrow> if e \<in> {ValueError, TypeError, ZeroDivisionError} then Inr () else Inl e
      | Inr back \<Rightarrow> if back \<noteq> raw then Inl NotInvertibleError else verify_samples pf node inv_node raws)"

definition verify_inverse :: "py_impl \<Rightarrow> resolvable \<Rightarrow> resolvable \<Rightarrow> unit res" where
  "verify_inverse pf node inv_node = verify_samples pf node inv_node SAMPLES"

section \<open>The options\<close>

definition with_param :: "expr_env \<Rightarrow> v_type \<Rightarrow> expr_env" where
  "with_param env t = env\<lparr>expr_params := [V_CHECK_PARAM \<mapsto> t]\<rparr>"

definition parse_resolvable_v_check :: "py_impl \<Rightarrow> expr_env \<Rightarrow> toml \<Rightarrow> v_type \<Rightarrow> (resolvable \<times> string) res" where
  "parse_resolvable_v_check pf env expr v_type =
     rbind (parse_resolvable pf (with_param env v_type) (strip_recipe_expr expr)) (\<lambda>tree.
     rbind (rassert (is_bool_expr tree)) (\<lambda>_. Inr (tree, resolvable_print_source pf tree)))"

type_synonym conversion = "resolvable \<times> string \<times> resolvable \<times> string"

definition parse_resolvable_v_convert_wr :: "py_impl \<Rightarrow> expr_env \<Rightarrow> toml \<Rightarrow> v_type \<Rightarrow> conversion res" where
  "parse_resolvable_v_convert_wr pf env expr v_type =
     rbind (parse_resolvable pf (with_param env v_type) (strip_recipe_expr expr)) (\<lambda>wr.
     rbind (rassert (\<not> is_bool_expr wr)) (\<lambda>_.
     rbind (invert_resolvable pf wr) (\<lambda>rd.
       let rd = retype_value_params (if v_type_is_float v_type then VType_f else v_type) rd in
       rbind (verify_inverse pf wr rd) (\<lambda>_.
         Inr (wr, resolvable_print_source pf wr, rd, resolvable_print_source pf rd)))))"

definition parse_resolvable_v_convert_rd :: "py_impl \<Rightarrow> expr_env \<Rightarrow> toml \<Rightarrow> v_type \<Rightarrow> conversion res" where
  "parse_resolvable_v_convert_rd pf env expr v_type =
     rbind (parse_resolvable pf (with_param env (if v_type_is_float v_type then VType_f else v_type)) (strip_recipe_expr expr)) (\<lambda>rd.
     rbind (rassert (\<not> is_bool_expr rd)) (\<lambda>_.
     rbind (invert_resolvable pf rd) (\<lambda>wr.
       let wr = retype_value_params v_type wr in
       rbind (verify_inverse pf wr rd) (\<lambda>_.
         Inr (wr, resolvable_print_source pf wr, rd, resolvable_print_source pf rd)))))"

section \<open>Lemmas: exact values\<close>

text \<open>
  Exact arithmetic: float operations do not round, and the text of a float, where it can be read, is
  the float.
\<close>

definition exact_floats :: "py_impl \<Rightarrow> bool" where
  "exact_floats pf \<longleftrightarrow> pf_round pf = id \<and> (\<forall>x q. fraction_text (pf_str pf x) = Some q \<longrightarrow> q = x)"

lemma exact_to_flt: "exact_floats pf \<Longrightarrow> to_flt pf a = num_val a"
  by (simp add: exact_floats_def to_flt_def)

lemma exact_ops:
  assumes "exact_floats pf"
  shows "num_val (num_add pf a b) = num_val a + num_val b"
    and "num_val (num_sub pf a b) = num_val a - num_val b"
    and "num_val (num_mult pf a b) = num_val a * num_val b"
    and "is_flt (num_add pf a b) \<longleftrightarrow> is_flt a \<or> is_flt b"
    and "is_flt (num_sub pf a b) \<longleftrightarrow> is_flt a \<or> is_flt b"
    and "is_flt (num_mult pf a b) \<longleftrightarrow> is_flt a \<or> is_flt b"
  using assms exact_to_flt [OF assms]
  by (cases a; cases b; simp add: num_add_def num_sub_def num_mult_def num_op_def exact_floats_def)+

lemma exact_truediv:
  assumes "exact_floats pf" and "num_val b \<noteq> 0"
  shows "\<exists>n. num_truediv pf a b = Inr n \<and> num_val n = num_val a / num_val b \<and> (is_flt a \<or> is_flt b \<longrightarrow> is_flt n)"
  using assms exact_to_flt [OF assms(1)]
  by (cases a; cases b) (simp_all add: num_truediv_def exact_floats_def)

text \<open>A tree without the value has the value \<open>x\<close>.\<close>

definition cval :: "py_impl \<Rightarrow> resolvable \<Rightarrow> rat \<Rightarrow> bool" where
  "cval pf t x \<longleftrightarrow> (\<exists>n. resolvable_to_int pf t = Inr n \<and> num_val n = x)"

lemma cval_simps [simp]: "cval pf (RNum n) x \<longleftrightarrow> num_val n = x"
  by (auto simp: cval_def)

lemma cval_int: "is_int_value t k \<Longrightarrow> cval pf t x \<Longrightarrow> x = of_int k"
  using r_int_value [of t k pf] by (auto simp: is_int_value_def cval_def)

lemma cval_num: "r_num t = Some n \<Longrightarrow> cval pf t x \<longleftrightarrow> num_val n = x"
  by (cases t) auto

lemma cval_op:
  assumes "exact_floats pf" and "cval pf l a" and "cval pf r b"
  shows "cval pf (ROp l Op_add r) (a + b)" "cval pf (ROp l Op_sub r) (a - b)" "cval pf (ROp l Op_mult r) (a * b)"
  using assms exact_ops [OF assms(1)] by (auto simp: cval_def eval_op_def)

lemma cval_expr_add_sub:
  assumes "exact_floats pf"
  shows "cval pf l a \<Longrightarrow> cval pf r b \<Longrightarrow> cval pf (expr_add pf l r) (a + b)"
    and "cval pf l a \<Longrightarrow> cval pf r b \<Longrightarrow> cval pf (expr_sub pf l r) (a - b)"
  using assms
proof (induction pf l r and pf l r arbitrary: a b and a b rule: expr_add_expr_sub.induct)
  case (1 pf l r)
  note prems = "1.prems"
  consider "is_int_value l 0" | "\<not> is_int_value l 0" "is_int_value r 0"
    | n where "\<not> is_int_value l 0" "\<not> is_int_value r 0" "r_num l = None" "r_num r = Some n" "num_val n < 0"
    | n m where "\<not> is_int_value l 0" "\<not> is_int_value r 0" "r_num l = Some n" "r_num r = Some m"
    | "\<not> is_int_value l 0" "\<not> is_int_value r 0" "r_num l = None \<or> r_num r = None" "\<nexists>n. r_num l = None \<and> r_num r = Some n \<and> num_val n < 0"
    by (cases "r_num l"; cases "r_num r") auto
  then show ?case
  proof cases
    case 1
    then show ?thesis using cval_int [OF 1 prems(1)] prems by (simp add: expr_add.simps [of pf l r])
  next
    case 2
    then show ?thesis using cval_int [OF 2(2) prems(2)] prems by (simp add: expr_add.simps [of pf l r])
  next
    case (3 n)
    have "cval pf (expr_sub pf l (RNum (norm_num (num_neg n)))) (a - - b)"
      using cval_num [OF 3(4), of pf b] prems by (intro "1.IH" [OF 3(1,2) refl 3(3,4,5)]) simp_all
    then show ?thesis using 3 by (simp add: expr_add.simps [of pf l r])
  next
    case (4 n m)
    then show ?thesis using prems cval_num exact_ops(1) by (simp add: expr_add.simps [of pf l r])
  next
    case 5
    then have "expr_add pf l r = ROp l Op_add r" by (subst expr_add.simps) (auto split: option.splits)
    then show ?thesis using cval_op(1) prems by simp
  qed
next
  case (2 pf l r)
  note prems = "2.prems"
  consider "is_int_value r 0"
    | n where "\<not> is_int_value r 0" "r_num l = None" "r_num r = Some n" "num_val n < 0"
    | n m where "\<not> is_int_value r 0" "r_num l = Some n" "r_num r = Some m"
    | "\<not> is_int_value r 0" "r_num l = None \<or> r_num r = None" "\<nexists>n. r_num l = None \<and> r_num r = Some n \<and> num_val n < 0"
    by (cases "r_num l"; cases "r_num r") auto
  then show ?case
  proof cases
    case 1
    then show ?thesis using cval_int [OF 1 prems(2)] prems by (simp add: expr_sub.simps [of pf l r])
  next
    case (2 n)
    have "cval pf (expr_add pf l (RNum (norm_num (num_neg n)))) (a + - b)"
      using cval_num [OF 2(3), of pf b] prems by (intro "2.IH" [OF 2(1) refl 2(2,3,4)]) simp_all
    then show ?thesis using 2 by (simp add: expr_sub.simps [of pf l r])
  next
    case (3 n m)
    then show ?thesis using prems cval_num exact_ops(2) by (simp add: expr_sub.simps [of pf l r])
  next
    case 4
    then have "expr_sub pf l r = ROp l Op_sub r" by (subst expr_sub.simps) (auto split: option.splits)
    then show ?thesis using cval_op(2) prems by simp
  qed
qed

lemma cval_expr_mult:
  assumes "exact_floats pf" and "cval pf l a" and "cval pf r b"
  shows "cval pf (expr_mult pf l r) (a * b)"
proof -
  consider "is_int_value l 0 \<or> is_int_value r 0" | "\<not> is_int_value l 0" "\<not> is_int_value r 0" "is_int_value l 1"
    | "\<not> is_int_value l 0" "\<not> is_int_value r 0" "\<not> is_int_value l 1" "is_int_value r 1"
    | n m where "\<not> is_int_value l 0" "\<not> is_int_value r 0" "\<not> is_int_value l 1" "\<not> is_int_value r 1" "r_num l = Some n" "r_num r = Some m"
    | "\<not> is_int_value l 0" "\<not> is_int_value r 0" "\<not> is_int_value l 1" "\<not> is_int_value r 1" "r_num l = None \<or> r_num r = None"
    by (cases "r_num l"; cases "r_num r") auto
  then show ?thesis
  proof cases
    case 1
    then show ?thesis using cval_int [OF _ assms(2), of 0] cval_int [OF _ assms(3), of 0] by (auto simp: expr_mult_def)
  next
    case 2
    then show ?thesis using cval_int [OF 2(3) assms(2)] assms(3) by (simp add: expr_mult_def)
  next
    case 3
    then show ?thesis using cval_int [OF 3(4) assms(3)] assms(2) by (simp add: expr_mult_def)
  next
    case (4 n m)
    then show ?thesis using assms cval_num exact_ops(3) by (simp add: expr_mult_def)
  next
    case 5
    then have "expr_mult pf l r = ROp l Op_mult r" by (auto simp: expr_mult_def split: option.splits)
    then show ?thesis using cval_op(3) [OF assms] by simp
  qed
qed

lemma cval_expr_div:
  assumes "exact_floats pf" and "r_num l = Some n" and "num_val m \<noteq> 0" and "expr_div pf l (RNum m) = Inr t"
  shows "cval pf t (num_val n / num_val m) \<and> r_num t \<noteq> None"
proof -
  have l: "l = RNum n" using assms(2) by (cases l) auto
  show ?thesis
    using assms(3,4) l exact_truediv [OF assms(1,3), of n]
    by (cases n; cases m) (auto simp: expr_div_def is_int_value_def simp del: norm_num.simps split: if_splits)
qed

lemma r_num_expr:
  "r_num l \<noteq> None \<Longrightarrow> r_num r \<noteq> None \<Longrightarrow> r_num (expr_add pf l r) \<noteq> None"
  "r_num l \<noteq> None \<Longrightarrow> r_num r \<noteq> None \<Longrightarrow> r_num (expr_sub pf l r) \<noteq> None"
  "r_num l \<noteq> None \<Longrightarrow> r_num r \<noteq> None \<Longrightarrow> r_num (expr_mult pf l r) \<noteq> None"
  by (auto simp: expr_add.simps [of pf l r] expr_sub.simps [of pf l r] expr_mult_def)

section \<open>Lemmas: an affine expression\<close>

text \<open>A tree without the value has the same value whatever the value is, and it is its constant value.\<close>

lemma eval_with_const:
  "\<not> contains_value_param t \<Longrightarrow> eval_with pf t x = Inr n \<Longrightarrow> resolvable_to_int pf t = Inr n \<and> eval_with pf t y = Inr n"
proof (induction t arbitrary: n rule: resolvable.induct)
  case (ROp l op r)
  then show ?case by (auto simp: rbind_Inr_iff split: if_splits)
next
  case (RFun f ps)
  have c: "rmapM (\<lambda>p. if contains_value_param p then rbind (eval_with pf p z) (\<lambda>n. Inr (RNum n)) else Inr p) ps = Inr ps" for z
    using RFun.prems(1) rmapM_Inr_all [of ps "\<lambda>p. if contains_value_param p then rbind (eval_with pf p z) (\<lambda>n. Inr (RNum n)) else Inr p" id]
    by (auto simp: list_ex_iff)
  show ?case using RFun.prems(2) by (simp add: c)
qed (auto simp: rbind_Inr_iff)

lemma affine_const: "\<not> contains_value_param t \<Longrightarrow> affine_in_v pf t = Inr (RNum (NInt 0), t)"
  by (cases t) simp_all

fun numeric :: "resolvable \<Rightarrow> bool" where
  "numeric (RNum n) \<longleftrightarrow> True"
| "numeric (RParam nm t) \<longleftrightarrow> True"
| "numeric (ROp l op r) \<longleftrightarrow> numeric l \<and> numeric r \<and> contains_value_param (ROp l op r)"
| "numeric _ \<longleftrightarrow> False"

definition const_value :: "py_impl \<Rightarrow> resolvable \<Rightarrow> rnum option" where
  "const_value pf t = (case eval_with pf t (NInt 0) of Inr n \<Rightarrow> Some n | Inl _ \<Rightarrow> None)"

text \<open>
  The float expressions that convert: \<open>+\<close>, \<open>-\<close> and, by constants, \<open>*\<close> and \<open>/\<close>; every part without
  the value evaluates; and what is divided is made of literals and the value, a name only occurs
  outside of a numerator.
\<close>

fun convertible :: "py_impl \<Rightarrow> resolvable \<Rightarrow> bool" where
  "convertible pf (RParam nm t) \<longleftrightarrow> v_type_is_float t"
| "convertible pf (ROp l op r) \<longleftrightarrow>
     (if \<not> contains_value_param (ROp l op r) then const_value pf (ROp l op r) \<noteq> None
      else convertible pf l \<and> convertible pf r \<and>
        (op = Op_add \<or> op = Op_sub \<or> op = Op_mult \<and> \<not> contains_value_param r \<or>
         op = Op_div \<and> \<not> contains_value_param r \<and> numeric l \<and>
           (case const_value pf r of None \<Rightarrow> False | Some n \<Rightarrow> num_val n \<noteq> 0)))"
| "convertible pf t \<longleftrightarrow> \<not> contains_value_param t \<and> const_value pf t \<noteq> None"

text \<open>The tree is a line in the value, and a float where the value occurs.\<close>

definition line :: "py_impl \<Rightarrow> resolvable \<Rightarrow> rat \<Rightarrow> rat \<Rightarrow> bool" where
  "line pf t C D \<longleftrightarrow>
     (\<forall>x. \<exists>n. eval_with pf t x = Inr n \<and> num_val n = C * num_val x + D \<and> (contains_value_param t \<longrightarrow> is_flt n))"

lemma lineE:
  assumes "line pf t C D"
  obtains n where "eval_with pf t x = Inr n" "num_val n = C * num_val x + D" "contains_value_param t \<Longrightarrow> is_flt n"
  using assms by (auto simp: line_def)

lemma const_line:
  assumes "\<not> contains_value_param t" and "const_value pf t = Some n"
  shows "line pf t 0 (num_val n)" and "cval pf t (num_val n)"
proof -
  have "eval_with pf t (NInt 0) = Inr n" using assms(2) by (simp add: const_value_def split: sum.splits)
  then have *: "resolvable_to_int pf t = Inr n" "eval_with pf t x = Inr n" for x
    using eval_with_const [OF assms(1)] by blast+
  show "line pf t 0 (num_val n)" "cval pf t (num_val n)" using * assms(1) by (simp_all add: line_def cval_def)
qed

lemma line_op:
  assumes ex: "exact_floats pf" and l: "line pf l A B" and r: "line pf r C D"
  shows "line pf (ROp l Op_add r) (A + C) (B + D)" and "line pf (ROp l Op_sub r) (A - C) (B - D)"
    and "A = 0 \<or> C = 0 \<Longrightarrow> line pf (ROp l Op_mult r) (A * D + C * B) (B * D)"
    and "C = 0 \<Longrightarrow> D \<noteq> 0 \<Longrightarrow> contains_value_param l \<Longrightarrow> line pf (ROp l Op_div r) (A / D) (B / D)"
proof -
  note e = exact_ops [OF ex]
  show "line pf (ROp l Op_add r) (A + C) (B + D)"
    unfolding line_def
  proof
    fix x
    show "\<exists>n. eval_with pf (ROp l Op_add r) x = Inr n \<and> num_val n = (A + C) * num_val x + (B + D) \<and>
        (contains_value_param (ROp l Op_add r) \<longrightarrow> is_flt n)"
      by (rule lineE [OF l, of x], rule lineE [OF r, of x]) (auto simp: eval_op_def e algebra_simps)
  qed
  show "line pf (ROp l Op_sub r) (A - C) (B - D)"
    unfolding line_def
  proof
    fix x
    show "\<exists>n. eval_with pf (ROp l Op_sub r) x = Inr n \<and> num_val n = (A - C) * num_val x + (B - D) \<and>
        (contains_value_param (ROp l Op_sub r) \<longrightarrow> is_flt n)"
      by (rule lineE [OF l, of x], rule lineE [OF r, of x]) (auto simp: eval_op_def e algebra_simps)
  qed
  show "line pf (ROp l Op_mult r) (A * D + C * B) (B * D)" if h: "A = 0 \<or> C = 0"
    unfolding line_def
  proof
    fix x
    show "\<exists>n. eval_with pf (ROp l Op_mult r) x = Inr n \<and> num_val n = (A * D + C * B) * num_val x + B * D \<and>
        (contains_value_param (ROp l Op_mult r) \<longrightarrow> is_flt n)"
      by (rule lineE [OF l, of x], rule lineE [OF r, of x]) (use h in \<open>auto simp: eval_op_def e algebra_simps\<close>)
  qed
  show "line pf (ROp l Op_div r) (A / D) (B / D)" if h: "C = 0" "D \<noteq> 0" "contains_value_param l"
    unfolding line_def
  proof
    fix x
    obtain n where n: "eval_with pf l x = Inr n" "num_val n = A * num_val x + B" "is_flt n" using lineE [OF l] h(3) by blast
    obtain m where m: "eval_with pf r x = Inr m" "num_val m = D" using lineE [OF r, of x] h(1) by auto
    obtain k where k: "num_truediv pf n m = Inr k" "num_val k = num_val n / num_val m" "is_flt k"
      using exact_truediv [OF ex, of m n] m(2) h(2) n(3) by auto
    have "eval_op pf Op_div n m = Inr k" using k(1) n(3) by (cases n) (simp_all add: eval_op_def recipe_div_def)
    then show "\<exists>k. eval_with pf (ROp l Op_div r) x = Inr k \<and> num_val k = A / D * num_val x + B / D \<and>
        (contains_value_param (ROp l Op_div r) \<longrightarrow> is_flt k)"
      using n m k by (simp add: add_divide_distrib)
  qed
qed

lemma try_int_const: "resolvable_to_int pf t = Inr n \<Longrightarrow> try_int pf t = RNum n"
  by (cases "r_num t"; cases t) (auto simp: try_int_def)

lemma affine_value_const:
  assumes "\<not> contains_value_param t" and "const_value pf t \<noteq> None" and "affine_in_v pf t = Inr (c, d)"
  shows "\<exists>C D. cval pf c C \<and> cval pf d D \<and> line pf t C D \<and> (numeric t \<longrightarrow> r_num c \<noteq> None \<and> r_num d \<noteq> None)"
proof -
  obtain n where n: "const_value pf t = Some n" using assms(2) by blast
  have cd: "c = RNum (NInt 0)" "d = t" using affine_const [OF assms(1), of pf] assms(3) by simp_all
  have "numeric t \<Longrightarrow> r_num t \<noteq> None" using assms(1) by (cases t) simp_all
  then show ?thesis using const_line [OF assms(1) n] cd by - (rule exI [of _ 0], rule exI [of _ "num_val n"], simp)
qed

lemma affine_value:
  "exact_floats pf \<Longrightarrow> convertible pf t \<Longrightarrow> affine_in_v pf t = Inr (c, d) \<Longrightarrow>
     \<exists>C D. cval pf c C \<and> cval pf d D \<and> line pf t C D \<and> (numeric t \<longrightarrow> r_num c \<noteq> None \<and> r_num d \<noteq> None)"
proof (induction t arbitrary: c d rule: resolvable.induct)
  case (RParam nm t)
  then have "line pf (RParam nm t) 1 0" by (auto simp: line_def exact_to_flt)
  then show ?case using RParam by auto
next
  case (ROp l op r)
  show ?case
  proof (cases "contains_value_param (ROp l op r)")
    case False
    have "const_value pf (ROp l op r) \<noteq> None" using ROp.prems(2) False by (simp del: contains_value_param.simps)
    then show ?thesis by (rule affine_value_const [OF False _ ROp.prems(3)])
  next
    case True
    note cv = ROp.prems(2) [simplified convertible.simps, simplified True, simplified]
    have cvl: "convertible pf l" and cvr: "convertible pf r" using cv by auto
    obtain c_l o_l where al: "affine_in_v pf l = Inr (c_l, o_l)" using ROp.prems(3) True by (auto simp: rbind_Inr_iff)
    obtain A B where AB: "cval pf c_l A" "cval pf o_l B" "line pf l A B" "numeric l \<longrightarrow> r_num c_l \<noteq> None \<and> r_num o_l \<noteq> None"
      using ROp.IH(1) [OF ROp.prems(1) cvl al] by blast
    consider "op = Op_add" | "op = Op_sub" | "op = Op_mult" "\<not> contains_value_param r"
      | n where "op = Op_div" "\<not> contains_value_param r" "numeric l" "const_value pf r = Some n" "num_val n \<noteq> 0"
      using cv by (auto split: option.splits)
    then show ?thesis
    proof cases
      case 1
      then obtain c_r o_r where ar: "affine_in_v pf r = Inr (c_r, o_r)" "c = expr_add pf c_l c_r" "d = expr_add pf o_l o_r"
        using ROp.prems(3) True al by (auto simp: rbind_Inr_iff)
      obtain C D where CD: "cval pf c_r C" "cval pf o_r D" "line pf r C D" "numeric r \<longrightarrow> r_num c_r \<noteq> None \<and> r_num o_r \<noteq> None"
        using ROp.IH(2) [OF ROp.prems(1) cvr ar(1)] by blast
      show ?thesis
        using 1 ar AB CD cval_expr_add_sub(1) [OF ROp.prems(1)] line_op(1) [OF ROp.prems(1) AB(3) CD(3)] r_num_expr(1)
        by - (rule exI [of _ "A + C"], rule exI [of _ "B + D"], simp)
    next
      case 2
      then obtain c_r o_r where ar: "affine_in_v pf r = Inr (c_r, o_r)" "c = expr_sub pf c_l c_r" "d = expr_sub pf o_l o_r"
        using ROp.prems(3) True al by (auto simp: rbind_Inr_iff)
      obtain C D where CD: "cval pf c_r C" "cval pf o_r D" "line pf r C D" "numeric r \<longrightarrow> r_num c_r \<noteq> None \<and> r_num o_r \<noteq> None"
        using ROp.IH(2) [OF ROp.prems(1) cvr ar(1)] by blast
      show ?thesis
        using 2 ar AB CD cval_expr_add_sub(2) [OF ROp.prems(1)] line_op(2) [OF ROp.prems(1) AB(3) CD(3)] r_num_expr(2)
        by - (rule exI [of _ "A - C"], rule exI [of _ "B - D"], simp)
    next
      case 3
      have "const_value pf r \<noteq> None" using cvr 3(2) by (cases r) auto
      then obtain n where n: "const_value pf r = Some n" by blast
      note rc = const_line [OF 3(2) n]
      have cd: "c = expr_mult pf c_l r" "d = expr_mult pf o_l r"
        using ROp.prems(3) True al 3 affine_const [OF 3(2), of pf] by (auto simp: is_int_value_def)
      have num: "r_num c \<noteq> None \<and> r_num d \<noteq> None" if "numeric (ROp l op r)"
      proof -
        have "r_num r \<noteq> None" using 3(2) that by (cases r) auto
        then show ?thesis using AB(4) that r_num_expr(3) by (simp add: cd)
      qed
      have "cval pf c (A * num_val n)" "cval pf d (B * num_val n)"
        using cval_expr_mult [OF ROp.prems(1) AB(1) rc(2)] cval_expr_mult [OF ROp.prems(1) AB(2) rc(2)] by (simp_all add: cd)
      moreover have "line pf (ROp l op r) (A * num_val n) (B * num_val n)"
        using line_op(3) [OF ROp.prems(1) AB(3) rc(1)] 3(1) by simp
      ultimately show ?thesis using num by blast
    next
      case (4 n)
      note rc = const_line [OF 4(2,4)]
      have "eval_with pf r (NInt 0) = Inr n" using 4(4) by (simp add: const_value_def split: sum.splits)
      then have "resolvable_to_int pf r = Inr n" using eval_with_const [OF 4(2)] by blast
      then have cd: "expr_div pf c_l (RNum n) = Inr c" "expr_div pf o_l (RNum n) = Inr d"
        using ROp.prems(3) True al 4(1,2) affine_const [OF 4(2), of pf]
        by (auto simp: is_int_value_def rbind_Inr_iff try_int_const Let_def)
      obtain a b where ab: "r_num c_l = Some a" "r_num o_l = Some b" using AB(4) 4(3) by auto
      have lv: "contains_value_param l" using True 4(2) by simp
      show ?thesis
        using 4(1) cval_expr_div [OF ROp.prems(1) ab(1) 4(5) cd(1)] cval_expr_div [OF ROp.prems(1) ab(2) 4(5) cd(2)]
          cval_num [OF ab(1)] cval_num [OF ab(2)] AB line_op(4) [OF ROp.prems(1) AB(3) rc(1) refl 4(5) lv]
        by - (rule exI [of _ "A / num_val n"], rule exI [of _ "B / num_val n"], simp)
    qed
  qed
qed (rule affine_value_const; simp)+

section \<open>Lemmas: the inverse\<close>

text \<open>A float tree of the derived side, once its parameter is typed: the function of the value.\<close>

definition computes :: "py_impl \<Rightarrow> resolvable \<Rightarrow> (rat \<Rightarrow> rat) \<Rightarrow> bool" where
  "computes pf t f \<longleftrightarrow> r_num t = None \<and> r_int t = None \<and>
     (\<forall>x. eval_with pf (retype_value_params VType_f t) x = Inr (NFlt (f (num_val x))))"

lemma computes_v: "exact_floats pf \<Longrightarrow> computes pf (RParam nm t) (\<lambda>x. x)"
  by (simp add: computes_def exact_to_flt v_type_is_float_def)

lemma computes_op:
  assumes "exact_floats pf" and "computes pf t f"
  shows "computes pf (ROp t Op_add (RNum n)) (\<lambda>x. f x + num_val n)"
    and "computes pf (ROp t Op_sub (RNum n)) (\<lambda>x. f x - num_val n)"
    and "computes pf (ROp t Op_mult (RNum n)) (\<lambda>x. f x * num_val n)"
    and "num_val n \<noteq> 0 \<Longrightarrow> computes pf (ROp t Op_div (RNum n)) (\<lambda>x. f x / num_val n)"
  using assms exact_to_flt [OF assms(1)]
  by (auto simp: computes_def eval_op_def num_add_def num_sub_def num_mult_def num_op_def recipe_div_def num_truediv_def
      exact_floats_def split: rnum.splits)

lemma computes_expr_sub:
  assumes "exact_floats pf" and "computes pf t f"
  shows "computes pf (expr_sub pf t (RNum n)) (\<lambda>x. f x - num_val n)"
proof -
  have t: "r_num t = None" "r_int t = None" using assms(2) by (simp_all add: computes_def)
  consider "is_int_value (RNum n) 0" | "\<not> is_int_value (RNum n) 0" "num_val n < 0" | "\<not> is_int_value (RNum n) 0" "\<not> num_val n < 0" by blast
  then show ?thesis
  proof cases
    case 1
    then have "num_val n = 0" by (cases n) (auto simp: is_int_value_def)
    then show ?thesis using 1 assms(2) by (simp add: expr_sub.simps [of pf t])
  next
    case 2
    let ?m = "norm_num (num_neg n)"
    have "\<not> is_int_value (RNum ?m) 0"
    proof
      assume "is_int_value (RNum ?m) 0"
      then have "?m = NInt 0" by (cases ?m) (auto simp: is_int_value_def)
      then show False using 2(2) num_val_norm [of "num_neg n"] by simp
    qed
    then have "expr_sub pf t (RNum n) = ROp t Op_add (RNum ?m)"
      using 2 t by (simp add: expr_sub.simps [of pf t] expr_add.simps [of pf t] is_int_value_def)
    then show ?thesis using computes_op(1) [OF assms, of ?m] by simp
  next
    case 3
    then show ?thesis using t computes_op(2) [OF assms, of n] by (simp add: expr_sub.simps [of pf t])
  qed
qed

lemma computes_expr_mult:
  assumes "exact_floats pf" and "computes pf t f" and "num_val n \<noteq> 0"
  shows "computes pf (expr_mult pf t (RNum n)) (\<lambda>x. f x * num_val n)"
proof -
  have t: "r_num t = None" "r_int t = None" using assms(2) by (simp_all add: computes_def)
  have "is_int_value (RNum n) 1 \<Longrightarrow> num_val n = 1" by (cases n) (auto simp: is_int_value_def)
  moreover have "\<not> is_int_value (RNum n) 0" using assms(3) by (cases n) (auto simp: is_int_value_def)
  ultimately show ?thesis
    using t assms(2) computes_op(3) [OF assms(1,2), of n]
    by (cases "is_int_value (RNum n) 1") (auto simp: expr_mult_def is_int_value_def)
qed

lemma computes_expr_div:
  assumes "exact_floats pf" and "computes pf t f" and "num_val n \<noteq> 0"
  shows "\<exists>u. expr_div pf t (RNum n) = Inr u \<and> computes pf u (\<lambda>x. f x / num_val n)"
proof -
  have t: "r_num t = None" "r_int t = None" using assms(2) by (simp_all add: computes_def)
  have "is_int_value (RNum n) 1 \<Longrightarrow> num_val n = 1" by (cases n) (auto simp: is_int_value_def)
  then show ?thesis
    using t assms(2) computes_op(4) [OF assms]
    by (cases "is_int_value (RNum n) 1") (auto simp: expr_div_def is_int_value_def)
qed

lemma fraction_as_number_val: "exact_floats pf \<Longrightarrow> fraction_as_number pf q = Some n \<Longrightarrow> num_val n = q"
proof -
  assume ex: "exact_floats pf" and n: "fraction_as_number pf q = Some n"
  obtain a b where q: "quotient_of q = (a, b)" by (cases "quotient_of q")
  show ?thesis using n ex quotient_of_div [OF q] q by (auto simp: fraction_as_number_def exact_floats_def split: if_splits)
qed

lemma fraction_of_str_val: "exact_floats pf \<Longrightarrow> fraction_of_str pf n = Inr q \<Longrightarrow> q = num_val n"
  by (cases n) (auto simp: fraction_of_str_def exact_floats_def split: option.splits)

lemma inverse_float_computes:
  assumes ex: "exact_floats pf" and "num_val c \<noteq> 0" and "inverse_float pf c (RNum d) = Inr t"
  shows "computes pf t (\<lambda>x. (x - num_val d) / num_val c)"
proof -
  let ?v = "RParam V_CHECK_PARAM VType_s"
  define u where "u = (if num_val d = 0 then ?v else expr_sub pf ?v (RNum d))"
  have u: "computes pf u (\<lambda>x. x - num_val d)"
    using computes_expr_sub [OF ex computes_v [OF ex]] computes_v [OF ex] by (simp add: u_def)
  obtain w where w: "expr_div pf u (RNum c) = Inr w" "computes pf w (\<lambda>x. (x - num_val d) / num_val c)"
    using computes_expr_div [OF ex u assms(2)] by blast
  have t: "inverse_float pf c (RNum d) = (if num_val c = 1 then Inr u else if \<bar>num_val c\<bar> < 1 then
      rbind (fraction_of_str pf c) (\<lambda>fr. if fr = 0 then Inl ZeroDivisionError
        else case fraction_as_number pf (1 / fr) of
            Some r \<Rightarrow> Inr (if num_val r = 1 then u else expr_mult pf u (RNum r)) | None \<Rightarrow> Inr w) else Inr w)"
    by (simp only: inverse_float_def Let_def r_num.simps option.case u_def [symmetric] w(1))
  have s: "fr = num_val c" if "fraction_of_str pf c = Inr fr" for fr
    using fraction_of_str_val [OF ex that] .
  consider "num_val c = 1" "t = u"
    | r where "fraction_as_number pf (1 / num_val c) = Some r" "t = (if num_val r = 1 then u else expr_mult pf u (RNum r))"
    | "t = w"
  proof (cases "num_val c = 1")
    case True
    then show ?thesis using that(1) assms(3) t by simp
  next
    case False
    show ?thesis
    proof (cases "\<bar>num_val c\<bar> < 1")
      case True
      then obtain fr where fr: "fraction_of_str pf c = Inr fr" using assms(3) False t by (cases "fraction_of_str pf c") auto
      then have "(case fraction_as_number pf (1 / num_val c) of
            Some r \<Rightarrow> Inr (if num_val r = 1 then u else expr_mult pf u (RNum r)) | None \<Rightarrow> Inr w) = (Inr t :: resolvable res)"
        using assms(2,3) t True False s [OF fr] by simp
      then show ?thesis using that(2,3) by (cases "fraction_as_number pf (1 / num_val c)") simp_all
    next
      case False
      then show ?thesis using that(3) assms(3) t \<open>num_val c \<noteq> 1\<close> by simp
    qed
  qed
  then show ?thesis
  proof cases
    case 1
    then show ?thesis using u by simp
  next
    case (2 r)
    have r: "num_val r = 1 / num_val c" using fraction_as_number_val [OF ex 2(1)] .
    have "num_val r \<noteq> 0" using r assms(2) by simp
    then have m: "computes pf (expr_mult pf u (RNum r)) (\<lambda>x. (x - num_val d) / num_val c)"
      using computes_expr_mult [OF ex u, of r] by (simp add: r)
    have "num_val r = 1 \<Longrightarrow> num_val c = 1" using r by simp
    then show ?thesis using 2(2) u m by (cases "num_val r = 1") simp_all
  next
    case 3
    then show ?thesis using w by simp
  qed
qed

lemma inverse_exact_computes:
  assumes ex: "exact_floats pf" and "C \<noteq> 0"
  shows "\<exists>t. inverse_exact pf C D = Inr t \<and> computes pf t (\<lambda>x. (x - D) / C)"
proof -
  obtain n d a b where q: "quotient_of C = (n, d)" "quotient_of D = (a, b)"
    by (cases "quotient_of C"; cases "quotient_of D")
  have pos: "0 < d" "0 < b" using quotient_of_denom_pos [OF q(1)] quotient_of_denom_pos [OF q(2)] by simp_all
  have CD: "C = of_int n / of_int d" "D = of_int a / of_int b" using quotient_of_div [OF q(1)] quotient_of_div [OF q(2)] .
  then have "n \<noteq> 0" using assms(2) by auto
  define g where "g = gcd (gcd (b * d) (a * d)) (b * n)"
  have dv: "g dvd b * d" "g dvd a * d" "g dvd b * n" by (auto simp: g_def intro: dvd_trans [OF gcd_dvd1] dvd_trans [OF gcd_dvd2])
  have "b * d \<noteq> 0" using pos by simp
  then have g: "0 < g" unfolding g_def by (simp add: gcd_pos_int)
  define s :: int where "s = (if b * n div g < 0 then - 1 else 1)"
  define L T R where "L = s * (b * d div g)" and "T = s * (a * d div g)" and "R = s * (b * n div g)"
  have inv: "inverse_exact pf C D = expr_div pf (expr_sub pf (expr_mult pf (RParam V_CHECK_PARAM VType_s) (RNum (NInt L))) (RNum (NInt T))) (RNum (NInt R))"
    by (simp add: inverse_exact_def q Let_def g_def [symmetric] L_def T_def R_def s_def)
  have s: "s \<noteq> 0" by (simp add: s_def)
  have LR: "L \<noteq> 0" "R \<noteq> 0"
    using s dv \<open>b * d \<noteq> 0\<close> \<open>n \<noteq> 0\<close> pos by (auto simp: L_def R_def dvd_div_eq_0_iff)
  have c: "computes pf (expr_sub pf (expr_mult pf (RParam V_CHECK_PARAM VType_s) (RNum (NInt L))) (RNum (NInt T)))
      (\<lambda>x. x * of_int L - of_int T)"
    using computes_expr_sub [OF ex computes_expr_mult [OF ex computes_v [OF ex]], of "NInt L" V_CHECK_PARAM VType_s "NInt T"] LR by simp
  have q: "of_int (m div g) = (of_int m / of_int g :: rat)" if "g dvd m" for m
    using that g by (simp add: of_int_div)
  have "(x * of_int L - of_int T) / of_int R = (x - D) / C" for x
    using pos g s \<open>n \<noteq> 0\<close> by (simp add: L_def T_def R_def CD q dv field_simps)
  then show ?thesis using computes_expr_div [OF ex c, of "NInt R"] LR inv by simp
qed

lemma inverse_affine_computes:
  assumes ex: "exact_floats pf" and c: "cval pf c C" "C \<noteq> 0" and d: "cval pf d D" and "inverse_affine pf c d = Inr t"
  shows "computes pf t (\<lambda>x. (x - D) / C)"
proof -
  obtain n m where n: "resolvable_to_int pf c = Inr n" "num_val n = C" and m: "resolvable_to_int pf d = Inr m" "num_val m = D"
    using c(1) d by (auto simp: cval_def)
  show ?thesis
    using assms(5) c(2) n(2) m(2) inverse_float_computes [OF ex, of n m t] inverse_exact_computes [OF ex c(2), of D]
    by (auto simp: inverse_affine_def try_int_const [OF n(1)] try_int_const [OF m(1)] split: if_splits)
qed

text \<open>The two sides undo each other, on every number.\<close>

lemma inverse_undoes:
  assumes ex: "exact_floats pf" and cv: "convertible pf t" and a: "affine_in_v pf t = Inr (c, d)"
    and nz: "\<not> cval pf c 0" and inv: "inverse_affine pf c d = Inr u"
  shows "\<exists>a b. eval_with pf (retype_value_params VType_f u) x = Inr a \<and> eval_with pf t a = Inr b \<and> num_val b = num_val x"
    and "\<exists>a b. eval_with pf t x = Inr a \<and> eval_with pf (retype_value_params VType_f u) a = Inr b \<and> num_val b = num_val x"
proof -
  obtain C D where CD: "cval pf c C" "cval pf d D" "line pf t C D" using affine_value [OF ex cv a] by blast
  have C: "C \<noteq> 0" using CD(1) nz by auto
  have u: "eval_with pf (retype_value_params VType_f u) y = Inr (NFlt ((num_val y - D) / C))" for y
    using inverse_affine_computes [OF ex CD(1) C CD(2) inv] by (simp add: computes_def)
  have t: "\<exists>n. eval_with pf t y = Inr n \<and> num_val n = C * num_val y + D" for y
    using CD(3) by (auto simp: line_def)
  show "\<exists>a b. eval_with pf (retype_value_params VType_f u) x = Inr a \<and> eval_with pf t a = Inr b \<and> num_val b = num_val x"
    using t [of "NFlt ((num_val x - D) / C)"] C by (auto simp: u)
  show "\<exists>a b. eval_with pf t x = Inr a \<and> eval_with pf (retype_value_params VType_f u) a = Inr b \<and> num_val b = num_val x"
    using t [of x] C by (auto simp: u)
qed

section \<open>Properties\<close>

lemma round_int_val: "exact_floats pf \<Longrightarrow> num_val n = of_int i \<Longrightarrow> round_to_int pf n = Inr i"
proof -
  assume ex: "exact_floats pf" and n: "num_val n = of_int i"
  have h: "half_up pf m = Inr j" if "num_val m = of_int j" "0 \<le> j" for m j
  proof -
    have "\<lfloor>of_int j + 1 / 2 :: rat\<rfloor> = j" by linarith
    then show ?thesis
      using that exact_ops(1,4) [OF ex, of m "NFlt (1 / 2)"] exact_to_flt [OF ex] ex
      by (simp add: half_up_def num_floordiv_def num_int_def exact_floats_def)
  qed
  show ?thesis using n h [of n i] h [of "num_neg n" "- i"] by (cases n) (auto simp: round_to_int_def)
qed

lemma unwrap_cases:
  obtains "unwrap t = t"
    | f p where "t = RFun f [p]" "f \<in> {Fn_round, Fn_ceil, Fn_floor, Fn_float}" "unwrap t = p"
proof (cases "\<exists>f p. t = RFun f [p] \<and> f \<in> {Fn_round, Fn_ceil, Fn_floor, Fn_float}")
  case True
  then show ?thesis using that(2) by (auto simp: unwrap_def)
next
  case False
  then have "unwrap t = t" by (auto simp: unwrap_def split: resolvable.splits list.splits)
  then show ?thesis by (rule that(1))
qed

lemma wrapped_value:
  assumes ex: "exact_floats pf" and f: "f \<in> {Fn_round, Fn_ceil, Fn_floor, Fn_float}"
    and p: "contains_value_param p" "eval_with pf p x = Inr n" "num_val n = of_int i"
  shows "\<exists>m. eval_with pf (RFun f [p]) x = Inr m \<and> num_val m = of_int i"
  using f p round_int_val [OF ex p(3)] exact_to_flt [OF ex]
  by (auto simp: eval_built_in_def arg_at_def py_index_def)

lemma depends_on_value:
  assumes ex: "exact_floats pf" and cv: "convertible pf t" and a: "affine_in_v pf t = Inr (c, d)"
    and "eval_with pf t (NInt 0) \<noteq> eval_with pf t (NInt 1)"
  shows "\<not> cval pf c 0" and "contains_value_param t"
proof -
  show t: "contains_value_param t"
  proof (rule ccontr)
    assume t: "\<not> contains_value_param t"
    then have "const_value pf t \<noteq> None" using cv by (cases t) auto
    then show False using eval_with_const [OF t, of pf "NInt 0" _ "NInt 1"] assms(4) by (auto simp: const_value_def split: sum.splits)
  qed
  obtain C D where CD: "cval pf c C" "line pf t C D" using affine_value [OF ex cv a] by blast
  obtain m n where "eval_with pf t (NInt 0) = Inr m" "num_val m = D" "is_flt m"
      "eval_with pf t (NInt 1) = Inr n" "num_val n = C + D" "is_flt n"
    by (rule lineE [OF CD(2), of "NInt 0"], rule lineE [OF CD(2), of "NInt 1"]) (use t in simp)
  then have "C \<noteq> 0" using assms(4) by (cases m; cases n) auto
  then show "\<not> cval pf c 0" using CD(1) by (auto simp: cval_def)
qed

text \<open>
  C3: the derived read side of a float conversion is right for every register value, not only for
  the six the parser tries. For an expression that converts (\<open>+\<close>, \<open>-\<close>, and \<open>*\<close>, \<open>/\<close> by constants,
  names outside of numerators, perhaps inside a rounding) and depends on the value, converting a
  register value to the user value and back gives the register value. The statement is about exact
  arithmetic: float operations that do not round.
\<close>
theorem v_convert_wr_roundtrip:
  assumes ex: "exact_floats pf" and wr: "parse_resolvable_v_convert_wr pf env e VType_f = Inr (wr, ws, rd, rs)"
    and cv: "convertible pf (unwrap wr)" and dep: "eval_with pf (unwrap wr) (NInt 0) \<noteq> eval_with pf (unwrap wr) (NInt 1)"
  shows "\<exists>u b. eval_with pf rd (NInt raw) = Inr u \<and> eval_with pf wr u = Inr b \<and> round_to_int pf b = Inr raw"
proof -
  obtain c d inv where a: "affine_in_v pf (unwrap wr) = Inr (c, d)" "inverse_affine pf c d = Inr inv" "rd = retype_value_params VType_f inv"
    using wr by (auto simp: parse_resolvable_v_convert_wr_def invert_resolvable_def rbind_Inr_iff Let_def v_type_is_float_def split: if_splits)
  note dv = depends_on_value [OF ex cv a(1) dep]
  obtain u n where u: "eval_with pf rd (NInt raw) = Inr u" "eval_with pf (unwrap wr) u = Inr n" "num_val n = of_int raw"
    using inverse_undoes(1) [OF ex cv a(1) dv(1) a(2), of "NInt raw"] a(3) by auto
  have "\<exists>b. eval_with pf wr u = Inr b \<and> num_val b = of_int raw"
  proof (cases rule: unwrap_cases [of wr])
    case 1
    then show ?thesis using u by simp
  next
    case (2 f p)
    then show ?thesis using wrapped_value [OF ex 2(2) _ _ u(3)] dv(2) u(2) by simp
  qed
  then show ?thesis using u(1) round_int_val [OF ex] by blast
qed

text \<open>
  The same for a conversion given by its read side, when that is not rounded: the derived write
  side undoes it on every register value.
\<close>
theorem v_convert_rd_roundtrip:
  assumes ex: "exact_floats pf" and rd: "parse_resolvable_v_convert_rd pf env e VType_f = Inr (wr, ws, rd, rs)"
    and cv: "convertible pf rd" and dep: "eval_with pf rd (NInt 0) \<noteq> eval_with pf rd (NInt 1)"
  shows "\<exists>u b. eval_with pf rd (NInt raw) = Inr u \<and> eval_with pf wr u = Inr b \<and> round_to_int pf b = Inr raw"
proof -
  have uw: "unwrap rd = rd"
  proof (cases rule: unwrap_cases [of rd])
    case (2 f p)
    then show ?thesis using cv depends_on_value(2) [OF ex cv _ dep] by (auto simp: affine_const)
  qed
  obtain c d inv where a: "affine_in_v pf rd = Inr (c, d)" "inverse_affine pf c d = Inr inv" "wr = retype_value_params VType_f inv"
    using rd uw by (auto simp: parse_resolvable_v_convert_rd_def invert_resolvable_def rbind_Inr_iff Let_def v_type_is_float_def split: if_splits)
  note dv = depends_on_value [OF ex cv a(1) dep]
  obtain u n where u: "eval_with pf rd (NInt raw) = Inr u" "eval_with pf wr u = Inr n" "num_val n = of_int raw"
    using inverse_undoes(2) [OF ex cv a(1) dv(1) a(2), of "NInt raw"] a(3) by auto
  then show ?thesis using round_int_val [OF ex u(3)] by blast
qed

lemma example_exact: "exact_floats example_pf"
  by (simp add: exact_floats_def example_pf_def fraction_text_def signed_text_def)

definition scale_env :: expr_env where
  "scale_env = \<lparr>name_to_k = map_of [(''SCALE'', RIpkg ''SCALE'' (RNum (NInt 8)))], expr_params = Map.empty\<rparr>"

theorem v_convert_wr_roundtrip_witness:
  "\<exists>wr ws rd rs u b. parse_resolvable_v_convert_wr example_pf scale_env (TStr ''{ (v + 3) / 4 * SCALE }'') VType_f = Inr (wr, ws, rd, rs) \<and>
     eval_with example_pf rd (NInt 1234567) = Inr u \<and> eval_with example_pf wr u = Inr b \<and> round_to_int example_pf b = Inr 1234567"
proof -
  let ?p = "parse_resolvable_v_convert_wr example_pf scale_env (TStr ''{ (v + 3) / 4 * SCALE }'') VType_f"
  let ?wr = "ROp (ROp (ROp (RParam ''v'' VType_f) Op_add (RNum (NInt 3))) Op_div (RNum (NInt 4))) Op_mult (RIpkg ''SCALE'' (RNum (NInt 8)))"
  have "case ?p of Inl _ \<Rightarrow> False | Inr (wr, _) \<Rightarrow> wr = ?wr" by code_simp
  then obtain ws rd rs where p: "?p = Inr (?wr, ws, rd, rs)" by (auto split: sum.splits)
  have "convertible example_pf (unwrap ?wr)" "eval_with example_pf (unwrap ?wr) (NInt 0) \<noteq> eval_with example_pf (unwrap ?wr) (NInt 1)"
    by code_simp+
  then show ?thesis using v_convert_wr_roundtrip [OF example_exact p, of 1234567] p by blast
qed

theorem v_convert_rd_roundtrip_witness:
  "\<exists>wr ws rd rs u b. parse_resolvable_v_convert_rd example_pf scale_env (TStr ''{ v / 16 - 5 }'') VType_f = Inr (wr, ws, rd, rs) \<and>
     eval_with example_pf rd (NInt 77) = Inr u \<and> eval_with example_pf wr u = Inr b \<and> round_to_int example_pf b = Inr 77"
proof -
  let ?p = "parse_resolvable_v_convert_rd example_pf scale_env (TStr ''{ v / 16 - 5 }'') VType_f"
  let ?rd = "ROp (ROp (RParam ''v'' VType_f) Op_div (RNum (NInt 16))) Op_sub (RNum (NInt 5))"
  have "case ?p of Inl _ \<Rightarrow> False | Inr (_, _, rd, _) \<Rightarrow> rd = ?rd" by code_simp
  then obtain wr ws rs where p: "?p = Inr (wr, ws, ?rd, rs)" by (auto split: sum.splits)
  have "convertible example_pf ?rd" "eval_with example_pf ?rd (NInt 0) \<noteq> eval_with example_pf ?rd (NInt 1)"
    by code_simp+
  then show ?thesis using v_convert_rd_roundtrip [OF example_exact p, of 77] p by blast
qed

text \<open>
  A constant times the value is refused although it is affine: the product is only inverted with
  the value on its left, \<open>v * 2\<close> but not \<open>2 * v\<close>.
\<close>
theorem constant_times_value_refused:
  assumes "\<not> contains_value_param l"
  shows "invert_resolvable pf (ROp l Op_mult (RParam nm t)) = Inl NotInvertibleError"
  using affine_const [OF assms, of pf] by (simp add: invert_resolvable_def unwrap_def is_int_value_def)

theorem constant_times_value_refused_witness:
  "invert_resolvable example_pf (ROp (RNum (NInt 2)) Op_mult (RParam ''v'' VType_f)) = Inl NotInvertibleError"
  by (rule constant_times_value_refused) simp

text \<open>
  A conversion by a named constant that is zero is accepted. The zero is only found when the
  name is resolved, after the test for it; the samples of the verification then divide by zero, which
  ends the verification as a success, and so does every read at run time.
\<close>
theorem named_zero_scale_accepted:
  assumes "resolvable_to_int pf k = Inr (NInt 0)" and "pf_round pf 0 = 0"
  shows "\<exists>inv. invert_resolvable pf (ROp (RParam nm t) Op_mult (RIpkg nk k)) = Inr inv \<and>
    verify_inverse pf (ROp (RParam nm t) Op_mult (RIpkg nk k)) (retype_value_params u inv) = Inr () \<and>
    eval_with pf (retype_value_params u inv) (NInt raw) = Inl ZeroDivisionError"
proof -
  let ?inv = "ROp (RParam V_CHECK_PARAM VType_s) Op_div (RNum (NInt 0))"
  have "try_int pf (RIpkg nk k) = RNum (NInt 0)" using assms(1) by (simp add: try_int_def)
  then have "inverse_affine pf (RIpkg nk k) (RNum (NInt 0)) = Inr ?inv"
    by (simp add: inverse_affine_def try_int_def inverse_exact_def quotient_of_int expr_mult_def expr_sub.simps [of pf "RParam V_CHECK_PARAM VType_s"]
        expr_div_def is_int_value_def)
  then have i: "invert_resolvable pf (ROp (RParam nm t) Op_mult (RIpkg nk k)) = Inr ?inv"
    by (simp add: invert_resolvable_def unwrap_def expr_mult_def is_int_value_def)
  have e: "eval_with pf (retype_value_params u ?inv) (NInt r) = Inl ZeroDivisionError" for r
    using assms(2) by (simp add: eval_op_def recipe_div_def recipe_ceil_div_def num_floordiv_def num_truediv_def to_flt_def)
  then have "verify_inverse pf (ROp (RParam nm t) Op_mult (RIpkg nk k)) (retype_value_params u ?inv) = Inr ()"
    by (simp add: verify_inverse_def SAMPLES_def del: retype_value_params.simps eval_with.simps)
  then show ?thesis using i e by blast
qed

theorem named_zero_scale_accepted_witness:
  "\<exists>inv. invert_resolvable example_pf (ROp (RParam ''v'' VType_f) Op_mult (RIpkg ''N'' (RNum (NInt 0)))) = Inr inv \<and>
    eval_with example_pf (retype_value_params VType_f inv) (NInt 5) = Inl ZeroDivisionError"
  using named_zero_scale_accepted [of example_pf "RNum (NInt 0)" "''v''" VType_f "''N''" VType_f 5] by (auto simp: example_pf_def)

text \<open>
  A name under a division loses its fraction: for an odd \<open>N\<close> the float conversion \<open>(v + N) / 2\<close>
  has an inverse, but its offset \<open>N / 2\<close> is evaluated with the ceiling division of ints, and the
  verification refuses the recipe.
\<close>
theorem named_offset_under_division_refused:
  assumes "exact_floats pf"
  shows "\<exists>inv. invert_resolvable pf (ROp (ROp (RParam nm VType_f) Op_add (RIpkg nk (RNum (NInt (2 * k + 1))))) Op_div (RNum (NInt 2))) = Inr inv \<and>
    verify_inverse pf (ROp (ROp (RParam nm VType_f) Op_add (RIpkg nk (RNum (NInt (2 * k + 1))))) Op_div (RNum (NInt 2)))
      (retype_value_params VType_f inv) = Inl NotInvertibleError"
proof -
  let ?n = "RIpkg nk (RNum (NInt (2 * k + 1)))"
  let ?wr = "ROp (ROp (RParam nm VType_f) Op_add ?n) Op_div (RNum (NInt 2))"
  have q: "quotient_of (1 / 2) = (1, 2)" by code_simp
  have h: "- ((- 1 - 2 * k) div 2) = k + 1" by presburger
  have a: "affine_in_v pf ?wr = Inr (RNum (NFrac (1 / 2)), ROp ?n Op_div (RNum (NInt 2)))"
    by (simp add: expr_add.simps [of pf "RNum n"] expr_add.simps [of pf "RNum (NInt 1)"] expr_add.simps [of pf "RNum (NInt 0)"]
        is_int_value_def try_int_def expr_div_def q)
  have o: "resolvable_to_int pf (ROp ?n Op_div (RNum (NInt 2))) = Inr (NInt (k + 1))"
    using h by (simp add: eval_op_def recipe_div_def recipe_ceil_div_def num_floordiv_int)
  obtain t where t: "inverse_exact pf (1 / 2) (of_int (k + 1)) = Inr t" "computes pf t (\<lambda>x. (x - of_int (k + 1)) / (1 / 2))"
    using inverse_exact_computes [OF assms, of "1 / 2" "of_int (k + 1)"] by auto
  have i: "invert_resolvable pf ?wr = Inr t"
    using a t(1) o by (simp add: invert_resolvable_def unwrap_def is_int_value_def inverse_affine_def try_int_def
        del: affine_in_v.simps resolvable_to_int.simps)
  have u: "eval_with pf (retype_value_params VType_f t) (NInt 0) = Inr (NFlt (- 2 * of_int (k + 1)))"
    using t(2) by (simp add: computes_def)
  have b: "eval_with pf ?wr (NFlt (- 2 * of_int (k + 1))) = Inr (NFlt (- 1 / 2))"
    using assms exact_to_flt [OF assms]
    by (simp add: v_type_is_float_def eval_op_def num_add_def num_op_def recipe_div_def num_truediv_def exact_floats_def field_simps)
  have r: "round_to_int pf (NFlt (- 1 / 2)) = Inr (- 1)"
    using assms exact_to_flt [OF assms]
    by (simp add: round_to_int_def half_up_def num_floordiv_def num_add_def num_op_def exact_floats_def num_int_def)
  have "verify_inverse pf ?wr (retype_value_params VType_f t) = Inl NotInvertibleError"
    using u b r by (simp add: verify_inverse_def SAMPLES_def del: eval_with.simps)
  then show ?thesis using i by blast
qed

theorem named_offset_under_division_refused_witness:
  "\<exists>inv. invert_resolvable example_pf (ROp (ROp (RParam ''v'' VType_f) Op_add (RIpkg ''N'' (RNum (NInt 7)))) Op_div (RNum (NInt 2))) = Inr inv \<and>
    verify_inverse example_pf (ROp (ROp (RParam ''v'' VType_f) Op_add (RIpkg ''N'' (RNum (NInt 7)))) Op_div (RNum (NInt 2)))
      (retype_value_params VType_f inv) = Inl NotInvertibleError"
  using named_offset_under_division_refused [OF example_exact, of "''v''" "''N''" 3] by simp

end
