(* ===== verification/RecipeTypes.thy ===== *)
theory RecipeTypes
  imports RecipeInvert
begin

text \<open>
  \<^verbatim>\<open>pip/skmap/src/skmap/code_generator_parse_recipe.py\<close>, the values of a recipe file: numbers that are
  written as digits or as an expression in braces, the value types \<^verbatim>\<open>[length]kindwidth\<close> made of them,
  and the text a value has in the checksum of the recipe. A width or a length that uses a constant of
  the module stays an expression, \<open>unresolved_type\<close>.

  Where the code subscripts a table by name, a TOML value that is not a table is a \<open>TypeError\<close>; where
  a field is annotated \<^verbatim>\<open>str\<close>, a value that is not a text is a \<open>TypeError\<close> too.
\<close>

section \<open>Access to TOML values\<close>

definition dict_of :: "toml \<Rightarrow> (string \<times> toml) list res" where
  "dict_of v = (case v of TDict d \<Rightarrow> Inr d | _ \<Rightarrow> Inl TypeError)"

definition dict_get :: "(string \<times> toml) list \<Rightarrow> string \<Rightarrow> toml res" where
  "dict_get d k = (case map_of d k of None \<Rightarrow> Inl KeyError | Some v \<Rightarrow> Inr v)"

definition str_of :: "toml \<Rightarrow> string res" where
  "str_of v = (case v of TStr s \<Rightarrow> Inr s | _ \<Rightarrow> Inl TypeError)"

text \<open>
  The tables a \<^verbatim>\<open>for\<close> loop takes from a value: the elements of a list. The elements of a text and of a
  table are texts, and the loops subscript an element by a name first.
\<close>

definition tables_of :: "toml \<Rightarrow> toml list res" where
  "tables_of v =
     (case v of
        TList xs \<Rightarrow> Inr xs
      | TStr s \<Rightarrow> if s = [] then Inr [] else Inl TypeError
      | TDict d \<Rightarrow> if d = [] then Inr [] else Inl TypeError
      | _ \<Rightarrow> Inl TypeError)"

text \<open>A member of an enumeration by its name\<close>

definition enum_member :: "(string \<times> 'a) list \<Rightarrow> toml \<Rightarrow> 'a res" where
  "enum_member ms v =
     (case v of
        TStr s \<Rightarrow> (case map_of ms s of None \<Rightarrow> Inl KeyError | Some m \<Rightarrow> Inr m)
      | TList _ \<Rightarrow> Inl TypeError
      | TDict _ \<Rightarrow> Inl TypeError
      | _ \<Rightarrow> Inl KeyError)"

definition acc_member :: "toml \<Rightarrow> acc res" where
  "acc_member = enum_member (map (\<lambda>a. (acc_name a, a)) [Acc_na, Acc_k, Acc_ro, Acc_rc, Acc_rw, Acc_wt])"

definition ass_member :: "toml \<Rightarrow> ass res" where
  "ass_member = enum_member (map (\<lambda>a. (ass_name a, a))
     [Ass_none, Ass_passed, Ass_debug, Ass_info, Ass_warn, Ass_error, Ass_fatal])"

datatype fw_init_mode = Fw_zero | Fw_k | Fw_k_int

fun not_zero :: "fw_init_mode \<Rightarrow> bool" where
  "not_zero Fw_zero = False"
| "not_zero Fw_k = True"
| "not_zero Fw_k_int = True"

fun is_k_int :: "fw_init_mode \<Rightarrow> bool" where
  "is_k_int Fw_zero = False"
| "is_k_int Fw_k = False"
| "is_k_int Fw_k_int = True"

definition fw_init_member :: "toml \<Rightarrow> fw_init_mode res" where
  "fw_init_member = enum_member [(''zero'', Fw_zero), (''k'', Fw_k), (''k_int'', Fw_k_int)]"

definition char_to_ValueKind :: "string \<Rightarrow> value_kind res" where
  "char_to_ValueKind c =
     (case map_of (map (\<lambda>k. (char_str k, k)) [VK_uint, VK_sint, VK_char, VK_bits, VK_flag]) c of
        None \<Rightarrow> Inl KeyError
      | Some k \<Rightarrow> Inr k)"

section \<open>Words\<close>

text \<open>\<^verbatim>\<open>int(token)\<close> of a text of letters, digits and underscores: single underscores stand between digits.\<close>

fun underscores_ok :: "bool \<Rightarrow> string \<Rightarrow> bool" where
  "underscores_ok after_digit [] = after_digit"
| "underscores_ok after_digit (c # cs) =
     (if c = CHR ''_'' then after_digit \<and> underscores_ok False cs else underscores_ok True cs)"

definition int_of_word :: "string \<Rightarrow> int res" where
  "int_of_word s =
     (if underscores_ok False s then int_of_digits (filter (\<lambda>c. c \<noteq> CHR ''_'') s) else Inl ValueError)"

abbreviation skip_spaces :: "string \<Rightarrow> string" where
  "skip_spaces \<equiv> dropWhile (\<lambda>c. c = CHR '' '')"

text \<open>\<^verbatim>\<open>parse_unresolved\<close> of the text from an index on: the value and the text after it.\<close>

definition parse_unresolved :: "py_impl \<Rightarrow> expr_env \<Rightarrow> string \<Rightarrow> (resolvable \<times> string) res" where
  "parse_unresolved pf env s =
     (case skip_spaces s of
        [] \<Rightarrow> Inl IndexError
      | c # cs \<Rightarrow>
          rbind
            (if c = CHR 0x7B then
               (case dropWhile (\<lambda>c. c \<noteq> CHR 0x7D \<and> c \<noteq> CHR 0x7B) cs of
                  [] \<Rightarrow> Inl IndexError
                | e # rest \<Rightarrow>
                    rbind (rassert (e \<noteq> CHR 0x7B)) (\<lambda>_.
                    rbind (parse_resolvable pf env (TStr (py_strip (takeWhile (\<lambda>c. c \<noteq> CHR 0x7D \<and> c \<noteq> CHR 0x7B) cs))))
                      (\<lambda>t. Inr (t, rest))))
             else rbind (int_of_word (takeWhile is_name_char (c # cs))) (\<lambda>i.
               Inr (RNum (NInt i), dropWhile is_name_char (c # cs))))
            (\<lambda>(token, rest). Inr (token, skip_spaces rest)))"

text \<open>Of a value that is neither an int nor a text: the first subscript fails (a list stands for one of
  elements that are not single characters).\<close>

definition parse_unresolved_word :: "py_impl \<Rightarrow> expr_env \<Rightarrow> toml \<Rightarrow> resolvable res" where
  "parse_unresolved_word pf env v =
     (case v of
        TInt i \<Rightarrow> Inr (RNum (NInt i))
      | TBool b \<Rightarrow> Inr (RBool b)
      | TStr s \<Rightarrow> rbind (parse_unresolved pf env s) (\<lambda>(word, _). Inr word)
      | TFloat x \<Rightarrow> Inl TypeError
      | TList xs \<Rightarrow> Inl (if xs = [] then IndexError else TypeError)
      | TDict d \<Rightarrow> Inl KeyError)"

section \<open>Value types\<close>

record unresolved_type =
  ut_kind :: value_kind
  ut_width :: "resolvable option"
  ut_vec_len :: "resolvable option"

datatype recipe_type = Type_known value_type | Type_open unresolved_type

definition castable_to_ValueType :: "unresolved_type \<Rightarrow> bool" where
  "castable_to_ValueType t \<longleftrightarrow>
     Option.bind (ut_width t) r_int \<noteq> None \<and> ut_vec_len t = None \<or> Option.bind (ut_vec_len t) r_int \<noteq> None"

definition to_ValueType :: "unresolved_type \<Rightarrow> value_type res" where
  "to_ValueType t =
     (case Option.bind (ut_width t) r_int of
        None \<Rightarrow> Inl AssertionError
      | Some w \<Rightarrow>
          (case ut_vec_len t of
             None \<Rightarrow> ValueType_init (ut_kind t) w None
           | Some n \<Rightarrow> (case r_int n of None \<Rightarrow> Inl AssertionError | Some n \<Rightarrow> ValueType_init (ut_kind t) w (Some n))))"

definition make_value_type_resolvable ::
  "value_kind \<Rightarrow> resolvable option \<Rightarrow> resolvable option \<Rightarrow> recipe_type res" where
  "make_value_type_resolvable kind width vec_len =
     (let value_type = \<lparr>ut_kind = kind, ut_width = width, ut_vec_len = vec_len\<rparr> in
      if castable_to_ValueType value_type then rbind (to_ValueType value_type) (\<lambda>t. Inr (Type_known t))
      else Inr (Type_open value_type))"

definition parse_value_type_text :: "py_impl \<Rightarrow> expr_env \<Rightarrow> string \<Rightarrow> recipe_type res" where
  "parse_value_type_text pf env s =
     (if s = [] then Inl IndexError
      else
        rbind
          (if hd s = CHR ''['' then
             rbind (parse_unresolved pf env (tl s)) (\<lambda>(vec_len, s).
               if s = [] then Inl IndexError
               else rbind (rassert (hd s = CHR '']'')) (\<lambda>_. Inr (Some vec_len, tl s)))
           else Inr (None, s)) (\<lambda>(vec_len, s).
        rbind (char_to_ValueKind (take 1 s)) (\<lambda>kind.
        rbind
          (if tl s = [] then Inr (None, [])
           else rbind (parse_unresolved pf env (tl s)) (\<lambda>(width, s). Inr (Some width, s))) (\<lambda>(width, s).
        rbind (rassert (s = [])) (\<lambda>_. make_value_type_resolvable kind width vec_len)))))"

definition parse_value_type_resolvable :: "py_impl \<Rightarrow> expr_env \<Rightarrow> toml \<Rightarrow> recipe_type res" where
  "parse_value_type_resolvable pf env v =
     (case v of
        TStr s \<Rightarrow> parse_value_type_text pf env s
      | TDict d \<Rightarrow> Inl KeyError
      | TList xs \<Rightarrow> Inl (if xs = [] then IndexError else TypeError)
      | _ \<Rightarrow> Inl TypeError)"

text \<open>The attributes both classes have\<close>

definition rt_kind :: "recipe_type \<Rightarrow> value_kind" where
  "rt_kind t = (case t of Type_known t \<Rightarrow> vt_kind t | Type_open t \<Rightarrow> ut_kind t)"

definition rt_width :: "recipe_type \<Rightarrow> resolvable option" where
  "rt_width t = (case t of Type_known t \<Rightarrow> Some (RNum (NInt (vt_width t))) | Type_open t \<Rightarrow> ut_width t)"

definition rt_vec_len :: "recipe_type \<Rightarrow> resolvable option" where
  "rt_vec_len t =
     (case t of Type_known t \<Rightarrow> map_option (\<lambda>n. RNum (NInt n)) (vt_vec_len t) | Type_open t \<Rightarrow> ut_vec_len t)"

definition ut_is_vec :: "unresolved_type \<Rightarrow> bool" where
  "ut_is_vec t \<longleftrightarrow> ut_vec_len t \<noteq> None"

definition ut_supports_int32 :: "unresolved_type \<Rightarrow> bool" where
  "ut_supports_int32 t \<longleftrightarrow>
     (case Option.bind (ut_width t) r_int of
        None \<Rightarrow> False
      | Some w \<Rightarrow> ut_vec_len t = None \<and>
          (if ut_kind t = VK_sint then w \<le> 32 else if ut_kind t = VK_uint then w \<le> 31 else False))"

text \<open>\<^verbatim>\<open>str(v)\<close> of a resolvable: the \<^verbatim>\<open>__repr__\<close> of its class\<close>

fun resolvable_repr :: "py_impl \<Rightarrow> resolvable \<Rightarrow> string" where
  "resolvable_repr pf (RBool b) = py_str_bool b"
| "resolvable_repr pf (RNum n) = num_str pf n"
| "resolvable_repr pf (RParam nm t) = nm"
| "resolvable_repr pf (RNot l) = ''(!'' @ resolvable_repr pf l @ '')''"
| "resolvable_repr pf (ROp l op r) =
     ''('' @ resolvable_repr pf l @ '' '' @ bin_op_str op @ '' '' @ resolvable_repr pf r @ '')''"
| "resolvable_repr pf (RFun f ps) =
     ''$'' @ built_in_name f @ ''('' @ str_join '', '' (map (\<lambda>p. resolvable_repr pf p) ps) @ '')''"
| "resolvable_repr pf (RStr s) = s"
| "resolvable_repr pf (RIpkg nm v) = nm"
| "resolvable_repr pf (RK nm) = nm"

definition ut_repr :: "py_impl \<Rightarrow> unresolved_type \<Rightarrow> string" where
  "ut_repr pf t =
     char_str (ut_kind t) @ (case ut_width t of None \<Rightarrow> ''None'' | Some w \<Rightarrow> resolvable_repr pf w)
       @ (case ut_vec_len t of None \<Rightarrow> '''' | Some n \<Rightarrow> ''['' @ resolvable_repr pf n @ '']'')"

section \<open>The text of a value in the checksum\<close>

datatype checksum_val =
    C_None
  | C_int int
  | C_text string
  | C_ass ass
  | C_v_type v_type
  | C_tree resolvable

text \<open>An \<^verbatim>\<open>Ass\<close> is an int with a text of its own; a number of a tree is an int or, with a fraction, not.\<close>

definition checksum_hash_of :: "py_impl \<Rightarrow> checksum_val \<Rightarrow> string" where
  "checksum_hash_of pf v =
     (case v of
        C_None \<Rightarrow> ''none''
      | C_int i \<Rightarrow> py_str_int i
      | C_text s \<Rightarrow> s
      | C_ass a \<Rightarrow> ass_str a
      | C_v_type t \<Rightarrow> v_type_str t
      | C_tree t \<Rightarrow>
          (case t of
             RBool b \<Rightarrow> py_str_int (of_bool b)
           | RNum (NInt i) \<Rightarrow> py_str_int i
           | RStr s \<Rightarrow> s
           | _ \<Rightarrow> (case resolvable_to_int pf t of Inr n \<Rightarrow> num_str pf n | Inl _ \<Rightarrow> resolvable_print_source pf t)))"

abbreviation hash_opt :: "('a \<Rightarrow> checksum_val) \<Rightarrow> 'a option \<Rightarrow> checksum_val" where
  "hash_opt f v \<equiv> (case v of None \<Rightarrow> C_None | Some x \<Rightarrow> f x)"

section \<open>Lemmas\<close>

lemma name_char_cases: "is_name_char c \<Longrightarrow> c \<noteq> CHR '' '' \<and> c \<noteq> CHR 0x7B \<and> c \<noteq> CHR 0x7D \<and> c \<noteq> CHR '']''"
  by (auto simp: is_name_char_def is_name_start_def is_digit_def)

lemma digit_cases: "is_digit c \<Longrightarrow> is_name_char c \<and> c \<noteq> CHR ''_'' \<and> c \<noteq> CHR ''[''"
  by (auto simp: is_name_char_def is_digit_def)

lemma underscores_digits: "list_all is_digit s \<Longrightarrow> underscores_ok b s \<longleftrightarrow> s \<noteq> [] \<or> b"
  by (induction s arbitrary: b) (auto dest: digit_cases)

lemma int_of_word_digits: "0 \<le> n \<Longrightarrow> int_of_word (digits_str 10 False n) = Inr n"
proof -
  assume n: "0 \<le> n"
  have d: "list_all is_digit (digits_str 10 False n)" "digits_str 10 False n \<noteq> []"
    by (rule digits_str_digits)+
  then have "filter (\<lambda>c. c \<noteq> CHR ''_'') (digits_str 10 False n) = digits_str 10 False n"
    by (auto simp: filter_id_conv list_all_iff dest: digit_cases)
  then show ?thesis using n d by (simp add: int_of_word_def underscores_digits int_of_digits_str)
qed

lemma skip_spaces_id: "s = [] \<or> hd s \<noteq> CHR '' '' \<Longrightarrow> skip_spaces s = s"
  by (cases s) auto

text \<open>Digits up to a character that is not of a word, and is not a space, are read as their number.\<close>

lemma parse_unresolved_digits:
  assumes "0 \<le> n" and rest: "rest = [] \<or> \<not> is_name_char (hd rest) \<and> hd rest \<noteq> CHR '' ''"
  shows "parse_unresolved pf env (py_str_int n @ rest) = Inr (RNum (NInt n), rest)"
proof -
  define ds where "ds = digits_str 10 False n"
  have ds: "ds \<noteq> []" "list_all is_digit ds" by (simp_all add: ds_def digits_str_digits)
  then obtain c cs where c: "ds = c # cs" and cd: "is_digit c" by (cases ds) auto
  have nc: "is_name_char c" "c \<noteq> CHR '' ''" "c \<noteq> CHR 0x7B"
    using digit_cases [OF cd] name_char_cases [of c] by auto
  have all: "\<forall>x \<in> set ds. is_name_char x" using ds(2) by (auto simp: list_all_iff dest: digit_cases)
  have tk: "takeWhile is_name_char (ds @ rest) = ds" "dropWhile is_name_char (ds @ rest) = rest"
    using all rest by (cases rest; simp)+
  have sk: "skip_spaces (ds @ rest) = c # cs @ rest" using c nc by simp
  have "parse_unresolved pf env (ds @ rest) = Inr (RNum (NInt n), skip_spaces rest)"
    using tk int_of_word_digits [OF assms(1)] nc unfolding parse_unresolved_def sk
    by (simp add: ds_def [symmetric] c)
  then show ?thesis using skip_spaces_id [of rest] rest assms(1)
    by (auto simp: py_str_int_def ds_def)
qed

text \<open>An expression in braces\<close>

lemma parse_unresolved_braces:
  assumes "\<forall>c \<in> set w. c \<noteq> CHR 0x7D \<and> c \<noteq> CHR 0x7B" and rest: "rest = [] \<or> hd rest \<noteq> CHR '' ''"
    and "parse_resolvable pf env (TStr (py_strip w)) = Inr t"
  shows "parse_unresolved pf env (CHR 0x7B # w @ CHR 0x7D # rest) = Inr (t, rest)"
proof -
  have "takeWhile (\<lambda>c. c \<noteq> CHR 0x7D \<and> c \<noteq> CHR 0x7B) (w @ CHR 0x7D # rest) = w"
    "dropWhile (\<lambda>c. c \<noteq> CHR 0x7D \<and> c \<noteq> CHR 0x7B) (w @ CHR 0x7D # rest) = CHR 0x7D # rest"
    using assms(1) by simp_all
  then show ?thesis using assms(3) skip_spaces_id [OF rest] by (simp add: parse_unresolved_def)
qed

lemma char_to_ValueKind_char_str: "char_to_ValueKind (char_str k) = Inr k"
  by (cases k) (simp_all add: char_to_ValueKind_def)

lemma char_str_single: "\<exists>c. char_str k = [c] \<and> c \<noteq> CHR ''[''"
  by (cases k) simp_all

text \<open>The text of a value type, by its parts: the length, the kind, the width.\<close>

lemma parse_value_type_parts:
  assumes len: "pre = [] \<and> vec_len = None \<or>
      pre = CHR ''['' # l @ '']'' \<and> (\<exists>n. vec_len = Some n \<and>
        parse_unresolved pf env (l @ CHR '']'' # char_str kind @ w) = Inr (n, CHR '']'' # char_str kind @ w))"
    and width: "w = [] \<and> width = None \<or> w \<noteq> [] \<and> (\<exists>x. width = Some x \<and> parse_unresolved pf env w = Inr (x, []))"
  shows "parse_value_type_text pf env (pre @ char_str kind @ w) = make_value_type_resolvable kind width vec_len"
proof -
  obtain c where c: "char_str kind = [c]" "c \<noteq> CHR ''[''" using char_str_single by blast
  have k: "char_to_ValueKind [c] = Inr kind" using char_to_ValueKind_char_str [of kind] c by simp
  show ?thesis using len width c k by (auto simp: parse_value_type_text_def)
qed

section \<open>Properties\<close>



text \<open>
  \<^verbatim>\<open>castable_to_ValueType\<close> reads as (the width is a number and there is no length) or the length is
  a number. So a register whose width is an expression of the constants of the module is accepted, and
  an array of a fixed number of such registers ends in the assert of \<^verbatim>\<open>to_ValueType\<close>.
\<close>

theorem fixed_vec_of_open_width_refused:
  assumes "0 \<le> n" and "\<forall>c \<in> set w. c \<noteq> CHR 0x7D \<and> c \<noteq> CHR 0x7B"
    and "parse_resolvable pf env (TStr (py_strip w)) = Inr t" and "r_int t = None"
  shows "parse_value_type_resolvable pf env (TStr (char_str kind @ CHR 0x7B # w @ [CHR 0x7D])) =
      Inr (Type_open \<lparr>ut_kind = kind, ut_width = Some t, ut_vec_len = None\<rparr>) \<and>
    parse_value_type_resolvable pf env (TStr (''['' @ py_str_int n @ '']'' @ char_str kind @ CHR 0x7B # w @ [CHR 0x7D])) =
      Inl AssertionError"
proof -
  have w: "parse_unresolved pf env (CHR 0x7B # w @ [CHR 0x7D]) = Inr (t, [])"
    using parse_unresolved_braces [OF assms(2) _ assms(3), of "[]"] by simp
  let ?w = "CHR 0x7B # w @ [CHR 0x7D]"
  have "parse_value_type_text pf env ([] @ char_str kind @ ?w) = make_value_type_resolvable kind (Some t) None"
    by (rule parse_value_type_parts) (use w in auto)
  moreover have "parse_value_type_text pf env ((''['' @ py_str_int n @ '']'') @ char_str kind @ ?w) =
      make_value_type_resolvable kind (Some t) (Some (RNum (NInt n)))"
    by (rule parse_value_type_parts [where l = "py_str_int n"])
      (use w assms(1) in \<open>auto simp: parse_unresolved_digits is_name_char_def is_name_start_def is_digit_def\<close>)
  ultimately show ?thesis using assms(4)
    by (simp add: parse_value_type_resolvable_def make_value_type_resolvable_def castable_to_ValueType_def to_ValueType_def)
qed

definition width_env :: expr_env where
  "width_env = \<lparr>name_to_k = [''W'' \<mapsto> RK ''W''], expr_params = Map.empty\<rparr>"

theorem fixed_vec_of_open_width_refused_witness:
  "parse_value_type_resolvable example_pf width_env (TStr (''u'' @ CHR 0x7B # ''W'' @ [CHR 0x7D])) =
      Inr (Type_open \<lparr>ut_kind = VK_uint, ut_width = Some (RK ''W''), ut_vec_len = None\<rparr>) \<and>
   parse_value_type_resolvable example_pf width_env (TStr (''[4]u'' @ CHR 0x7B # ''W'' @ [CHR 0x7D])) = Inl AssertionError"
proof -
  have "parse_resolvable example_pf width_env (TStr (py_strip ''W'')) = Inr (RK ''W'')" by code_simp
  moreover have "py_str_int 4 = ''4''" by code_simp
  ultimately show ?thesis
    using fixed_vec_of_open_width_refused [of 4 "''W''" example_pf width_env "RK ''W''" VK_uint] by simp
qed

end
