(* ===== verification/Recipe.thy ===== *)
theory Recipe
  imports RecipeTypes Head "HOL-Library.Multiset"
begin

text \<open>
  \<^verbatim>\<open>pip/skmap/src/skmap/code_generator_parse_recipe.py\<close>, the recipe of a module: the flags of a
  register, its value options, the values (\<open>recipe_ipkg\<close>), constants (\<open>recipe_k\<close>), registers
  (\<open>recipe_var\<close>) and memories (\<open>recipe_mem\<close>), the class \<^verbatim>\<open>Recipe\<close> built from the table of the TOML file
  with its check for unique names, and the checksum. The digest function \<^verbatim>\<open>hashlib.md5\<close> is a
  parameter. Reading the file and its TOML is not modelled, a recipe is built from the parsed table.
\<close>

section \<open>Flags\<close>

datatype recipe_flag = RecipeFlag
  (fl_name: string) (fl_ass: ass) (fl_desc: toml) (fl_bit: resolvable) (fl_vec_len: "resolvable option")
  (fl_flags: "recipe_flag list option") (fl_width: resolvable)

text \<open>\<^verbatim>\<open>bit_default == 0\<close>: an expression is not equal to a number\<close>

definition is_zero :: "resolvable \<Rightarrow> bool" where
  "is_zero t = (case t of RNum n \<Rightarrow> num_val n = 0 | RBool b \<Rightarrow> \<not> b | _ \<Rightarrow> False)"

definition next_bit :: "py_impl \<Rightarrow> recipe_flag \<Rightarrow> resolvable res" where
  "next_bit pf f =
     (if is_zero (fl_bit f) then Inr (fl_width f) else make_resolvable_function pf (fl_bit f) Op_add (fl_width f))"

text \<open>
  The loop of \<^verbatim>\<open>parse_recipe_flags\<close> over the flags of a register, \<open>flag\<close> parses one of them with its
  default bit. The parsing of a flag and of the flags inside it call each other; the loop has the
  parser of a flag as an argument.
\<close>

fun flags_loop :: "py_impl \<Rightarrow> (toml \<Rightarrow> resolvable \<Rightarrow> recipe_flag res) \<Rightarrow> toml list \<Rightarrow> resolvable \<Rightarrow>
    (recipe_flag list \<times> resolvable) res" where
  "flags_loop pf flag [] bit_default = Inr ([], bit_default)"
| "flags_loop pf flag (df # dfs) bit_default =
     rbind (flag df bit_default) (\<lambda>f.
     rbind (next_bit pf f) (\<lambda>bit_default.
     rbind (flags_loop pf flag dfs bit_default) (\<lambda>(fs, width). Inr (f # fs, width))))"

definition flags_of :: "py_impl \<Rightarrow> (toml \<Rightarrow> resolvable \<Rightarrow> recipe_flag res) \<Rightarrow> (string \<times> toml) list \<Rightarrow>
    (recipe_flag list option \<times> resolvable) res" where
  "flags_of pf flag d =
     (case map_of d ''flags'' of
        None \<Rightarrow> Inr (None, RNum (NInt 0))
      | Some v \<Rightarrow>
          rbind (tables_of v) (\<lambda>dfs.
          rbind (flags_loop pf flag dfs (RNum (NInt 0))) (\<lambda>(fs, width). Inr (Some fs, width))))"

definition flag_width :: "py_impl \<Rightarrow> resolvable option \<Rightarrow> recipe_flag list option \<Rightarrow> resolvable \<Rightarrow> resolvable res" where
  "flag_width pf vec_len flags flags_width =
     (case flags of
        None \<Rightarrow> Inr (case vec_len of None \<Rightarrow> RNum (NInt 1) | Some n \<Rightarrow> n)
      | Some _ \<Rightarrow> (case vec_len of None \<Rightarrow> Inr flags_width | Some n \<Rightarrow> make_resolvable_function pf n Op_mult flags_width))"

lemma rbind_cong [fundef_cong]: "m = m' \<Longrightarrow> (\<And>x. m' = Inr x \<Longrightarrow> f x = g x) \<Longrightarrow> rbind m f = rbind m' g"
  by (cases m') auto

lemma flags_loop_cong [fundef_cong]:
  "dfs = dfs' \<Longrightarrow> (\<And>v b. v \<in> set dfs' \<Longrightarrow> f v b = g v b) \<Longrightarrow> b = b' \<Longrightarrow> pf = pf' \<Longrightarrow>
   flags_loop pf f dfs b = flags_loop pf' g dfs' b'"
  by (induction dfs arbitrary: b b' dfs') (auto intro!: rbind_cong)

definition inner_flags :: "(string \<times> toml) list \<Rightarrow> toml set" where
  "inner_flags d = {v. \<exists>w xs. map_of d ''flags'' = Some w \<and> tables_of w = Inr xs \<and> v \<in> set xs}"

lemma flags_of_cong [fundef_cong]:
  "pf = pf' \<Longrightarrow> d = d' \<Longrightarrow> (\<And>v b. v \<in> inner_flags d' \<Longrightarrow> f v b = g v b) \<Longrightarrow> flags_of pf f d = flags_of pf' g d'"
  by (auto simp: flags_of_def inner_flags_def split: option.splits intro!: rbind_cong flags_loop_cong)

lemma inner_flags_size: "v \<in> inner_flags d \<Longrightarrow> size v < size (TDict d)"
proof -
  assume "v \<in> inner_flags d"
  then obtain w xs where w: "map_of d ''flags'' = Some w" "tables_of w = Inr xs" "v \<in> set xs"
    by (auto simp: inner_flags_def)
  have "size v \<le> size_list size xs" using w(3) by (rule size_list_estimation') simp
  then have "size v < size w" using w(2,3) by (auto simp: tables_of_def split: toml.splits if_splits)
  moreover have "(''flags'', w) \<in> set d" using w(1) by (rule map_of_SomeD)
  then have "size w < size (TDict d)"
    by (induction d) auto
  ultimately show ?thesis by simp
qed

function parse_recipe_flag :: "py_impl \<Rightarrow> expr_env \<Rightarrow> toml \<Rightarrow> resolvable \<Rightarrow> recipe_flag res" where
  "parse_recipe_flag pf env v bit_default =
     rbind (dict_of v) (\<lambda>d.
     rbind (rbind (dict_get d ''name'') str_of) (\<lambda>name.
     rbind (case map_of d ''ass'' of None \<Rightarrow> Inr Ass_none | Some a \<Rightarrow> ass_member a) (\<lambda>a.
     rbind (dict_get d ''desc'') (\<lambda>desc.
     rbind (case map_of d ''bit'' of None \<Rightarrow> Inr bit_default | Some b \<Rightarrow> parse_resolvable pf env b) (\<lambda>bit.
     rbind (case map_of d ''vec_len'' of
              None \<Rightarrow> Inr None
            | Some n \<Rightarrow> rbind (parse_unresolved_word pf env n) (\<lambda>n. Inr (Some n))) (\<lambda>vec_len.
     rbind (flags_of pf (\<lambda>v b. parse_recipe_flag pf env v b) d) (\<lambda>(flags, flags_width).
     rbind (flag_width pf vec_len flags flags_width) (\<lambda>width.
       Inr (RecipeFlag name a desc bit vec_len flags width)))))))))"
  by pat_completeness auto
termination
  by (relation "measure (\<lambda>(pf, env, v, b). size v)")
    (auto simp: dict_of_def split: toml.splits dest: inner_flags_size)

declare parse_recipe_flag.simps [simp del]

definition parse_recipe_flags :: "py_impl \<Rightarrow> expr_env \<Rightarrow> (string \<times> toml) list \<Rightarrow> (recipe_flag list option \<times> resolvable) res" where
  "parse_recipe_flags pf env d = flags_of pf (parse_recipe_flag pf env) d"

section \<open>The value options\<close>

record v_options =
  vo_v_type :: v_type
  vo_v_check :: "resolvable option"
  vo_v_check_str :: "string option"
  vo_v_convert_wr :: "resolvable option"
  vo_v_convert_wr_str :: "string option"
  vo_v_convert_rd :: "resolvable option"
  vo_v_convert_rd_str :: "string option"

abbreviation has :: "(string \<times> toml) list \<Rightarrow> string \<Rightarrow> bool" where
  "has d k \<equiv> map_of d k \<noteq> None"

definition v_type_option :: "(string \<times> toml) list \<Rightarrow> value_kind \<Rightarrow> v_type res" where
  "v_type_option d kind =
     (case map_of d ''v_type'' of
        None \<Rightarrow> Inr (value_kind_to_v_type kind)
      | Some (TStr s) \<Rightarrow> v_type_from_str s
      | Some _ \<Rightarrow> Inl ValueError)"

definition v_check_option :: "py_impl \<Rightarrow> expr_env \<Rightarrow> (string \<times> toml) list \<Rightarrow> v_type \<Rightarrow> (resolvable \<times> string) option res" where
  "v_check_option pf env d t =
     (case map_of d ''v_check'' of
        None \<Rightarrow> Inr None
      | Some e \<Rightarrow> rbind (parse_resolvable_v_check pf env e t) (\<lambda>c. Inr (Some c)))"

definition v_convert_option ::
  "py_impl \<Rightarrow> expr_env \<Rightarrow> (string \<times> toml) list \<Rightarrow> v_type \<Rightarrow> bool \<Rightarrow> conversion option res" where
  "v_convert_option pf env d t checked =
     (if has d ''v_convert_wr'' \<or> has d ''v_convert_rd'' then
        rbind (rassert (checked \<or> v_type_is_float t)) (\<lambda>_.
        rbind
          (case map_of d ''v_convert_wr'' of
             Some e \<Rightarrow> parse_resolvable_v_convert_wr pf env e t
           | None \<Rightarrow> rbind (dict_get d ''v_convert_rd'') (\<lambda>e. parse_resolvable_v_convert_rd pf env e t))
          (\<lambda>c. Inr (Some c)))
      else rbind (rassert (\<not> v_type_is_float t)) (\<lambda>_. Inr None))"

definition parse_recipe_v_options ::
  "py_impl \<Rightarrow> expr_env \<Rightarrow> (string \<times> toml) list \<Rightarrow> value_kind \<Rightarrow> bool \<Rightarrow> v_options res" where
  "parse_recipe_v_options pf env d kind is_flag =
     rbind (rassert (\<forall>opt \<in> set [''v_type'', ''v_check'', ''v_convert_wr'', ''v_convert_rd'']. \<not> is_flag \<or> \<not> has d opt)) (\<lambda>_.
     rbind (rassert (\<forall>removed \<in> set [''min'', ''max'', ''check'']. \<not> has d removed)) (\<lambda>_.
     rbind (rassert (\<not> has d ''v_convert'')) (\<lambda>_.
     rbind (rassert (\<not> (has d ''v_convert_wr'' \<and> has d ''v_convert_rd''))) (\<lambda>_.
     rbind (rassert (kind \<noteq> VK_char \<or>
       \<not> (has d ''v_check'' \<or> has d ''v_convert_wr'' \<or> has d ''v_convert_rd'' \<or> has d ''v_type''))) (\<lambda>_.
     rbind (v_type_option d kind) (\<lambda>t.
     rbind (v_check_option pf env d t) (\<lambda>check.
     rbind (v_convert_option pf env d t (check \<noteq> None)) (\<lambda>convert.
       Inr \<lparr>vo_v_type = t,
         vo_v_check = map_option fst check, vo_v_check_str = map_option snd check,
         vo_v_convert_wr = map_option (\<lambda>(wr, wr_str, rd, rd_str). wr) convert,
         vo_v_convert_wr_str = map_option (\<lambda>(wr, wr_str, rd, rd_str). wr_str) convert,
         vo_v_convert_rd = map_option (\<lambda>(wr, wr_str, rd, rd_str). rd) convert,
         vo_v_convert_rd_str = map_option (\<lambda>(wr, wr_str, rd, rd_str). rd_str) convert\<rparr>))))))))"

section \<open>Values, constants, registers, memories\<close>

text \<open>An ipkg value is the value of the file, or the tree of an expression in braces.\<close>

datatype ipkg_value = Val_toml toml | Val_tree resolvable

record recipe_ipkg =
  ri_name :: string
  ri_value :: ipkg_value
  ri_desc :: "toml option"
  ri_t :: recipe_type

record recipe_k =
  rr_name :: string
  rr_t :: recipe_type
  rr_acc :: acc
  rr_desc :: toml
  rr_flags :: "recipe_flag list option"
  rr_opts :: v_options

record recipe_var = recipe_k +
  rr_ass :: ass
  rr_fw_init :: fw_init_mode

record recipe_mem =
  rm_name :: string
  rm_t :: recipe_type
  rm_acc :: acc
  rm_desc :: toml
  rm_fw_depth :: resolvable
  rm_fw_width :: resolvable
  rm_fw_latency :: resolvable

definition get_name :: "(string \<times> toml) list \<Rightarrow> string res" where
  "get_name d = rbind (dict_get d ''name'') str_of"

definition get_type :: "py_impl \<Rightarrow> expr_env \<Rightarrow> (string \<times> toml) list \<Rightarrow> recipe_type res" where
  "get_type pf env d = rbind (dict_get d ''t'') (parse_value_type_resolvable pf env)"

definition sint32 :: recipe_type where
  "sint32 = Type_known \<lparr>vt_kind = VK_sint, vt_width = 32, vt_vec_len = None\<rparr>"

definition ipkg_type_value :: "py_impl \<Rightarrow> expr_env \<Rightarrow> toml \<Rightarrow> (recipe_type \<times> ipkg_value) res" where
  "ipkg_type_value pf env v =
     (case v of
        TInt i \<Rightarrow> Inr (sint32, Val_toml v)
      | TBool b \<Rightarrow> Inr (sint32, Val_toml v)
      | TStr s \<Rightarrow>
          if s = [] then Inl IndexError
          else if hd s = CHR 0x7B \<and> last s = CHR 0x7D then
            rbind (parse_unresolved_word pf env v) (\<lambda>t. Inr (sint32, Val_tree t))
          else Inr (Type_known \<lparr>vt_kind = VK_char, vt_width = 8, vt_vec_len = Some (int (length s))\<rparr>, Val_toml v)
      | _ \<Rightarrow> Inl AssertionError)"

definition RecipeIpkg_init :: "py_impl \<Rightarrow> expr_env \<Rightarrow> toml \<Rightarrow> recipe_ipkg res" where
  "RecipeIpkg_init pf env dv =
     rbind (dict_of dv) (\<lambda>d.
     rbind (get_name d) (\<lambda>name.
     rbind (dict_get d ''value'') (\<lambda>v.
     rbind (if has d ''t'' then rbind (get_type pf env d) (\<lambda>t. Inr (t, Val_toml v)) else ipkg_type_value pf env v) (\<lambda>(t, value).
       Inr \<lparr>ri_name = name, ri_value = value, ri_desc = map_of d ''desc'', ri_t = t\<rparr>))))"

text \<open>
  What the object stands for in an expression. A text, a list and a table have no number, the leaf of
  each is a text.
\<close>

definition ipkg_leaf :: "recipe_ipkg \<Rightarrow> resolvable" where
  "ipkg_leaf i = RIpkg (ri_name i)
     (case ri_value i of
        Val_tree t \<Rightarrow> t
      | Val_toml v \<Rightarrow> (case v of TInt n \<Rightarrow> RNum (NInt n) | TBool b \<Rightarrow> RBool b | TFloat x \<Rightarrow> RNum (NFlt x)
          | TStr s \<Rightarrow> RStr s | _ \<Rightarrow> RStr ''''))"

text \<open>A type without a width takes the width of the flags, which have to fit where both are numbers.\<close>

definition reg_type :: "recipe_type \<Rightarrow> recipe_flag list option \<Rightarrow> resolvable \<Rightarrow> recipe_type res" where
  "reg_type t flags flags_width =
     (case rt_width t of
        Some w \<Rightarrow>
          (case (flags, r_int flags_width, r_int w) of
             (Some _, Some fw, Some w) \<Rightarrow> rbind (rassert (fw \<le> w)) (\<lambda>_. Inr t)
           | _ \<Rightarrow> Inr t)
      | None \<Rightarrow>
          rbind (rassert (flags \<noteq> None)) (\<lambda>_.
            case t of Type_known _ \<Rightarrow> Inl AssertionError | Type_open u \<Rightarrow> Inr (Type_open (u\<lparr>ut_width := Some flags_width\<rparr>))))"

definition RecipeK_init :: "py_impl \<Rightarrow> expr_env \<Rightarrow> toml \<Rightarrow> recipe_k res" where
  "RecipeK_init pf env dv =
     rbind (dict_of dv) (\<lambda>d.
     rbind (get_name d) (\<lambda>name.
     rbind (get_type pf env d) (\<lambda>t.
     rbind (dict_get d ''desc'') (\<lambda>desc.
     rbind (parse_recipe_flags pf env d) (\<lambda>(flags, flags_width).
     rbind (parse_recipe_v_options pf env d (rt_kind t) (flags \<noteq> None)) (\<lambda>opts.
     rbind (rassert (vo_v_convert_wr opts = None \<and> vo_v_convert_rd opts = None)) (\<lambda>_.
     rbind (reg_type t flags flags_width) (\<lambda>t.
       Inr \<lparr>rr_name = name, rr_t = t, rr_acc = Acc_k, rr_desc = desc, rr_flags = flags, rr_opts = opts\<rparr>))))))))"

definition RecipeVar_init :: "py_impl \<Rightarrow> expr_env \<Rightarrow> toml \<Rightarrow> recipe_var res" where
  "RecipeVar_init pf env dv =
     rbind (dict_of dv) (\<lambda>d.
     rbind (get_name d) (\<lambda>name.
     rbind (get_type pf env d) (\<lambda>t.
     rbind (rbind (dict_get d ''acc'') acc_member) (\<lambda>ac.
     rbind (dict_get d ''desc'') (\<lambda>desc.
     rbind (case map_of d ''ass'' of None \<Rightarrow> Inr Ass_none | Some a \<Rightarrow> ass_member a) (\<lambda>a.
     rbind (case map_of d ''fw_init'' of None \<Rightarrow> Inr Fw_zero | Some m \<Rightarrow> fw_init_member m) (\<lambda>fw_init.
     rbind (parse_recipe_flags pf env d) (\<lambda>(flags, flags_width).
     rbind (parse_recipe_v_options pf env d (rt_kind t) (flags \<noteq> None)) (\<lambda>opts.
     rbind (reg_type t flags flags_width) (\<lambda>t.
       Inr \<lparr>rr_name = name, rr_t = t, rr_acc = ac, rr_desc = desc, rr_flags = flags, rr_opts = opts,
            rr_ass = a, rr_fw_init = fw_init\<rparr>))))))))))"

definition RecipeMem_init :: "py_impl \<Rightarrow> expr_env \<Rightarrow> toml \<Rightarrow> recipe_mem res" where
  "RecipeMem_init pf env dv =
     rbind (dict_of dv) (\<lambda>d.
     rbind (get_name d) (\<lambda>name.
     rbind (get_type pf env d) (\<lambda>t.
     rbind (rbind (dict_get d ''acc'') acc_member) (\<lambda>ac.
     rbind (dict_get d ''desc'') (\<lambda>desc.
     rbind (rbind (dict_get d ''fw_depth'') (parse_unresolved_word pf env)) (\<lambda>depth.
     rbind (rbind (dict_get d ''fw_width'') (parse_unresolved_word pf env)) (\<lambda>width.
     rbind (rbind (dict_get d ''fw_latency'') (parse_unresolved_word pf env)) (\<lambda>latency.
       Inr \<lparr>rm_name = name, rm_t = t, rm_acc = ac, rm_desc = desc, rm_fw_depth = depth, rm_fw_width = width,
            rm_fw_latency = latency\<rparr>))))))))"

section \<open>The recipe\<close>

record fw_opts =
  fo_ports_use_basic_types :: toml
  fo_hdlskel_vhdl_lib :: toml
  fo_size_reserved :: toml
  fo_size_reserved_base_regs :: toml

definition FwOpts :: fw_opts where
  "FwOpts = \<lparr>fo_ports_use_basic_types = TBool False, fo_hdlskel_vhdl_lib = TStr ''hdlskel'',
     fo_size_reserved = TStr ''SKMAP_SIZE_RESERVED_DEFAULT'',
     fo_size_reserved_base_regs = TStr ''SKMAP_SIZE_RESERVED_DEFAULT''\<rparr>"

definition get_or :: "(string \<times> toml) list \<Rightarrow> string \<Rightarrow> toml \<Rightarrow> toml" where
  "get_or d k v = (case map_of d k of None \<Rightarrow> v | Some w \<Rightarrow> w)"

definition parse_fw_opts :: "(string \<times> toml) list \<Rightarrow> fw_opts res" where
  "parse_fw_opts d =
     (case map_of d ''fw_opts'' of
        None \<Rightarrow> Inr FwOpts
      | Some v \<Rightarrow>
          rbind (dict_of v) (\<lambda>o_d.
            let base = get_or o_d ''size_reserved_base_regs'' (fo_size_reserved_base_regs FwOpts) in
            Inr \<lparr>fo_ports_use_basic_types = get_or o_d ''ports_use_basic_types'' (fo_ports_use_basic_types FwOpts),
                 fo_hdlskel_vhdl_lib = get_or o_d ''hdlskel_vhdl_lib'' (fo_hdlskel_vhdl_lib FwOpts),
                 fo_size_reserved = get_or o_d ''size_reserved'' base,
                 fo_size_reserved_base_regs = base\<rparr>))"

record recipe =
  rc_name :: toml
  rc_sw_module :: toml
  rc_fw_module :: toml
  rc_id :: string
  rc_version :: toml
  rc_ipkg :: "recipe_ipkg list"
  rc_k :: "recipe_k list"
  rc_var :: "recipe_var list"
  rc_mem :: "recipe_mem list"
  rc_name_to_k :: "string \<Rightarrow> resolvable option"
  rc_names :: "string list"
  rc_fw_opts :: fw_opts
  rc_checksum :: int

definition check_unique_name :: "string \<Rightarrow> recipe \<Rightarrow> recipe res" where
  "check_unique_name name r =
     (if name \<in> set (rc_names r) then Inl ValueError else Inr (r\<lparr>rc_names := rc_names r @ [name]\<rparr>))"

definition recipe_env :: "recipe \<Rightarrow> expr_env" where
  "recipe_env r = \<lparr>name_to_k = rc_name_to_k r, expr_params = Map.empty\<rparr>"

definition add_ipkg :: "py_impl \<Rightarrow> toml \<Rightarrow> recipe \<Rightarrow> recipe res" where
  "add_ipkg pf dv r =
     rbind (RecipeIpkg_init pf (recipe_env r) dv) (\<lambda>i.
     rbind (check_unique_name (ri_name i) r) (\<lambda>r.
       Inr (r\<lparr>rc_ipkg := rc_ipkg r @ [i], rc_name_to_k := (rc_name_to_k r)(ri_name i \<mapsto> ipkg_leaf i)\<rparr>)))"

definition add_k :: "py_impl \<Rightarrow> toml \<Rightarrow> recipe \<Rightarrow> recipe res" where
  "add_k pf dv r =
     rbind (RecipeK_init pf (recipe_env r) dv) (\<lambda>k.
     rbind (check_unique_name (rr_name k) r) (\<lambda>r.
       Inr (r\<lparr>rc_k := rc_k r @ [k], rc_name_to_k := (rc_name_to_k r)(rr_name k \<mapsto> RK (rr_name k))\<rparr>)))"

definition add_var :: "py_impl \<Rightarrow> toml \<Rightarrow> recipe \<Rightarrow> recipe res" where
  "add_var pf dv r =
     rbind (RecipeVar_init pf (recipe_env r) dv) (\<lambda>v.
     rbind (check_unique_name (rr_name v) r) (\<lambda>r. Inr (r\<lparr>rc_var := rc_var r @ [v]\<rparr>)))"

definition add_recipe_mem :: "py_impl \<Rightarrow> toml \<Rightarrow> recipe \<Rightarrow> recipe res" where
  "add_recipe_mem pf dv r =
     rbind (RecipeMem_init pf (recipe_env r) dv) (\<lambda>m.
     rbind (check_unique_name (rm_name m) r) (\<lambda>r. Inr (r\<lparr>rc_mem := rc_mem r @ [m]\<rparr>)))"

fun rfold :: "('a \<Rightarrow> 's \<Rightarrow> 's res) \<Rightarrow> 'a list \<Rightarrow> 's \<Rightarrow> 's res" where
  "rfold f [] s = Inr s"
| "rfold f (x # xs) s = rbind (f x s) (rfold f xs)"

text \<open>\<^verbatim>\<open>if key in d: for x in d[key]: ...\<close>\<close>

definition each_of :: "(string \<times> toml) list \<Rightarrow> string \<Rightarrow> (toml \<Rightarrow> recipe \<Rightarrow> recipe res) \<Rightarrow> recipe \<Rightarrow> recipe res" where
  "each_of d key f r =
     (case map_of d key of None \<Rightarrow> Inr r | Some v \<Rightarrow> rbind (tables_of v) (\<lambda>xs. rfold f xs r))"

section \<open>The checksum\<close>

text \<open>\<^verbatim>\<open>str.encode()\<close>, UTF-8 of the first 256 code points\<close>

definition utf8 :: "string \<Rightarrow> byte list" where
  "utf8 s = concat (map (\<lambda>c. let n = of_char c :: nat in
     if n < 128 then [word_of_nat n] else [word_of_nat (192 + n div 64), word_of_nat (128 + n mod 64)]) s)"

text \<open>
  The message digested is the concatenation of what the \<^verbatim>\<open>md5_update\<close> calls hand over, all of them
  texts.
\<close>

definition checksum_flag :: "py_impl \<Rightarrow> recipe_flag \<Rightarrow> string" where
  "checksum_flag pf f =
     checksum_hash_of pf (C_text (fl_name f)) @ checksum_hash_of pf (C_tree (fl_bit f)) @
     checksum_hash_of pf (hash_opt C_tree (fl_vec_len f)) @ checksum_hash_of pf (C_ass (fl_ass f))"

definition checksum_update_reg :: "py_impl \<Rightarrow> ass \<Rightarrow> 'a recipe_k_scheme \<Rightarrow> string" where
  "checksum_update_reg pf a r =
     rr_name r @ acc_name (rr_acc r) @ ''ValueKind.'' @ value_kind_str (rt_kind (rr_t r)) @
     checksum_hash_of pf (hash_opt C_tree (rt_width (rr_t r))) @
     checksum_hash_of pf (hash_opt C_tree (rt_vec_len (rr_t r))) @
     checksum_hash_of pf (C_ass a) @
     checksum_hash_of pf (C_v_type (vo_v_type (rr_opts r))) @
     checksum_hash_of pf (hash_opt C_text (vo_v_check_str (rr_opts r))) @
     checksum_hash_of pf (hash_opt C_text (vo_v_convert_wr_str (rr_opts r))) @
     (case rr_flags r of
        None \<Rightarrow> checksum_hash_of pf C_None
      | Some fs \<Rightarrow> checksum_hash_of pf (C_int (int (length fs))) @ concat (map (checksum_flag pf) fs))"

text \<open>\<^verbatim>\<open>str(type(value))\<close>\<close>

definition class_str :: "ipkg_value \<Rightarrow> string" where
  "class_str v =
     ''<class '' @ [CHR 0x27] @
     (case v of
        Val_toml v \<Rightarrow>
          (case v of TInt _ \<Rightarrow> ''int'' | TBool _ \<Rightarrow> ''bool'' | TFloat _ \<Rightarrow> ''float'' | TStr _ \<Rightarrow> ''str''
           | TList _ \<Rightarrow> ''list'' | TDict _ \<Rightarrow> ''dict'')
      | Val_tree t \<Rightarrow>
          (case t of
             RNum (NInt _) \<Rightarrow> ''int'' | RNum (NFlt _) \<Rightarrow> ''float'' | RNum (NFrac _) \<Rightarrow> ''fractions.Fraction''
           | RBool _ \<Rightarrow> ''bool'' | RStr _ \<Rightarrow> ''str''
           | RK _ \<Rightarrow> ''skmap.code_generator_parse_recipe.RecipeK''
           | RIpkg _ _ \<Rightarrow> ''skmap.code_generator_parse_recipe.RecipeIpkg''
           | RParam _ _ \<Rightarrow> ''skmap.code_generator_parse_resolvable.ResolvableValueParam''
           | ROp _ _ _ \<Rightarrow> ''skmap.code_generator_parse_resolvable.ResolvableFunctionOperation''
           | RNot _ \<Rightarrow> ''skmap.code_generator_parse_resolvable.ResolvableFunctionOperation''
           | RFun _ _ \<Rightarrow> ''skmap.code_generator_parse_resolvable.ResolvableFunctionBuiltIn'')) @ [CHR 0x27] @ ''>''"

text \<open>\<^verbatim>\<open>version.to_bytes(1)\<close>\<close>

definition version_byte :: "toml \<Rightarrow> byte res" where
  "version_byte v =
     (case v of
        TInt i \<Rightarrow> if 0 \<le> i \<and> i < 256 then Inr (word_of_int i) else Inl OverflowError
      | TBool b \<Rightarrow> Inr (of_bool b)
      | _ \<Rightarrow> Inl AttributeError)"

definition checksum_text :: "py_impl \<Rightarrow> recipe \<Rightarrow> string" where
  "checksum_text pf r =
     concat (map (\<lambda>i. ri_name i @ class_str (ri_value i)) (rc_ipkg r)) @
     concat (map (checksum_update_reg pf Ass_none) (rc_k r)) @
     concat (map (\<lambda>v. checksum_update_reg pf (rr_ass v) v) (rc_var r))"

definition caculate_checksum :: "py_impl \<Rightarrow> (byte list \<Rightarrow> byte list) \<Rightarrow> recipe \<Rightarrow> int res" where
  "caculate_checksum pf md5 r =
     rbind (version_byte (rc_version r)) (\<lambda>version.
       Inr (from_bytes (md5 (word_of_int SKMAP_VER_MAJOR # utf8 (rc_id r) @ version # utf8 (checksum_text pf r)))
              Big False AND 0xFFFF))"

definition recipe_checksum_str :: "recipe \<Rightarrow> string" where
  "recipe_checksum_str r = py_fmt0 16 True SIZE_CHECKSUM (rc_checksum r)"

definition Recipe_start :: "toml \<Rightarrow> toml \<Rightarrow> toml \<Rightarrow> string \<Rightarrow> toml \<Rightarrow> fw_opts \<Rightarrow> recipe" where
  "Recipe_start name sw_module fw_module i version opts =
     \<lparr>rc_name = name, rc_sw_module = sw_module, rc_fw_module = fw_module, rc_id = i, rc_version = version,
      rc_ipkg = [], rc_k = [], rc_var = [], rc_mem = [], rc_name_to_k = Map.empty, rc_names = [],
      rc_fw_opts = opts, rc_checksum = 0\<rparr>"

definition Recipe_init :: "py_impl \<Rightarrow> (byte list \<Rightarrow> byte list) \<Rightarrow> (string \<times> toml) list \<Rightarrow> recipe res" where
  "Recipe_init pf md5 d =
     rbind (dict_get d ''name'') (\<lambda>name.
     rbind (dict_get d ''sw_module'') (\<lambda>sw_module.
     rbind (dict_get d ''fw_module'') (\<lambda>fw_module.
     rbind (rbind (dict_get d ''id'') str_of) (\<lambda>i.
     rbind (rassert (int (length i) \<le> SKMAP_ID_LEN)) (\<lambda>_.
     rbind (dict_get d ''version'') (\<lambda>version.
     rbind (parse_fw_opts d) (\<lambda>opts.
     rbind (each_of d ''ipkg'' (add_ipkg pf) (Recipe_start name sw_module fw_module i version opts)) (\<lambda>r.
     rbind (dict_get d ''k'') (\<lambda>_.
     rbind (each_of d ''k'' (add_k pf) r) (\<lambda>r.
     rbind (dict_get d ''var'') (\<lambda>_.
     rbind (each_of d ''var'' (add_var pf) r) (\<lambda>r.
     rbind (each_of d ''mem'' (add_recipe_mem pf) r) (\<lambda>r.
     rbind (caculate_checksum pf md5 r) (\<lambda>c.
       Inr (r\<lparr>rc_checksum := c\<rparr>)))))))))))))))"

section \<open>Lemmas: folds over the tables\<close>

lemma rfold_inv:
  assumes "\<And>x s s'. P s \<Longrightarrow> f x s = Inr s' \<Longrightarrow> P s'"
  shows "rfold f xs s = Inr s' \<Longrightarrow> P s \<Longrightarrow> P s'"
  by (induction xs arbitrary: s) (auto simp: rbind_Inr_iff dest: assms)

lemma each_of_inv:
  assumes "\<And>x s s'. P s \<Longrightarrow> f x s = Inr s' \<Longrightarrow> P s'"
    and "each_of d key f s = Inr s'" and "P s"
  shows "P s'"
proof (cases "map_of d key")
  case None
  then show ?thesis using assms(2,3) by (simp add: each_of_def)
next
  case (Some v)
  then obtain xs where "rfold f xs s = Inr s'" using assms(2) by (auto simp: each_of_def rbind_Inr_iff)
  then show ?thesis using assms(3) rfold_inv [of P f xs s s'] assms(1) by metis
qed

lemma check_unique_name_Inr:
  "check_unique_name nm r = Inr r' \<longleftrightarrow> nm \<notin> set (rc_names r) \<and> r' = r\<lparr>rc_names := rc_names r @ [nm]\<rparr>"
  by (auto simp: check_unique_name_def)

text \<open>The steps of \<^verbatim>\<open>Recipe.__init__\<close> that add to a recipe\<close>

inductive recipe_step :: "py_impl \<Rightarrow> recipe \<Rightarrow> recipe \<Rightarrow> bool" for pf where
  step_ipkg: "add_ipkg pf v r = Inr r' \<Longrightarrow> recipe_step pf r r'"
| step_k: "add_k pf v r = Inr r' \<Longrightarrow> recipe_step pf r r'"
| step_var: "add_var pf v r = Inr r' \<Longrightarrow> recipe_step pf r r'"
| step_mem: "add_recipe_mem pf v r = Inr r' \<Longrightarrow> recipe_step pf r r'"

lemmas add_defs = add_ipkg_def add_k_def add_var_def add_recipe_mem_def

definition all_names :: "recipe \<Rightarrow> string list" where
  "all_names r = map ri_name (rc_ipkg r) @ map rr_name (rc_k r) @ map rr_name (rc_var r) @ map rm_name (rc_mem r)"

text \<open>
  The invariant of the construction: the set of names is the names of the entries, each once; an
  expression can use the ipkg values and the constants and nothing else; no constant has a conversion.
\<close>

definition recipe_ok :: "recipe \<Rightarrow> bool" where
  "recipe_ok r \<longleftrightarrow> distinct (rc_names r) \<and> mset (rc_names r) = mset (all_names r) \<and>
     dom (rc_name_to_k r) = set (map ri_name (rc_ipkg r) @ map rr_name (rc_k r)) \<and>
     (\<forall>i \<in> set (rc_ipkg r). rc_name_to_k r (ri_name i) = Some (ipkg_leaf i)) \<and>
     (\<forall>k \<in> set (rc_k r). rc_name_to_k r (rr_name k) = Some (RK (rr_name k)) \<and> rr_acc k = Acc_k \<and>
        vo_v_convert_wr (rr_opts k) = None \<and> vo_v_convert_rd (rr_opts k) = None)"

lemma new_name:
  assumes "recipe_ok r" and "nm \<notin> set (rc_names r)"
  shows "nm \<notin> ri_name ` set (rc_ipkg r)" "nm \<notin> rr_name ` set (rc_k r)" "\<forall>i \<in> set (rc_ipkg r). ri_name i \<noteq> nm"
    "\<forall>k \<in> set (rc_k r). rr_name k \<noteq> nm"
  using assms mset_eq_setD [of "rc_names r" "all_names r"] by (auto simp: recipe_ok_def all_names_def)

lemma RecipeK_opts:
  "RecipeK_init pf env v = Inr k \<Longrightarrow>
   rr_acc k = Acc_k \<and> vo_v_convert_wr (rr_opts k) = None \<and> vo_v_convert_rd (rr_opts k) = None"
  by (auto simp: RecipeK_init_def rbind_Inr_iff split: prod.splits)

lemma recipe_step_ok: "recipe_step pf r r' \<Longrightarrow> recipe_ok r \<Longrightarrow> recipe_ok r'"
proof (induction rule: recipe_step.induct)
  case (step_ipkg v r r')
  then obtain i where i: "ri_name i \<notin> set (rc_names r)"
    "r' = r\<lparr>rc_names := rc_names r @ [ri_name i], rc_ipkg := rc_ipkg r @ [i],
            rc_name_to_k := (rc_name_to_k r)(ri_name i \<mapsto> ipkg_leaf i)\<rparr>"
    by (auto simp: add_ipkg_def rbind_Inr_iff check_unique_name_Inr)
  then show ?case using step_ipkg(2) new_name [OF step_ipkg(2) i(1)]
    by (auto simp: recipe_ok_def all_names_def)
next
  case (step_k v r r')
  then obtain k where k: "rr_name k \<notin> set (rc_names r)" "RecipeK_init pf (recipe_env r) v = Inr k"
    "r' = r\<lparr>rc_names := rc_names r @ [rr_name k], rc_k := rc_k r @ [k],
            rc_name_to_k := (rc_name_to_k r)(rr_name k \<mapsto> RK (rr_name k))\<rparr>"
    by (auto simp: add_k_def rbind_Inr_iff check_unique_name_Inr)
  then show ?case using step_k(2) new_name [OF step_k(2) k(1)] RecipeK_opts [OF k(2)]
    by (auto simp: recipe_ok_def all_names_def)
next
  case (step_var v r r')
  then obtain x where "rr_name x \<notin> set (rc_names r)"
    "r' = r\<lparr>rc_names := rc_names r @ [rr_name x], rc_var := rc_var r @ [x]\<rparr>"
    by (auto simp: add_var_def rbind_Inr_iff check_unique_name_Inr)
  then show ?case using step_var(2) by (simp add: recipe_ok_def all_names_def)
next
  case (step_mem v r r')
  then obtain x where "rm_name x \<notin> set (rc_names r)"
    "r' = r\<lparr>rc_names := rc_names r @ [rm_name x], rc_mem := rc_mem r @ [x]\<rparr>"
    by (auto simp: add_recipe_mem_def rbind_Inr_iff check_unique_name_Inr)
  then show ?case using step_mem(2) by (simp add: recipe_ok_def all_names_def)
qed

lemma recipe_steps_ok:
  assumes "each_of d key f r = Inr r'" and "\<And>x s s'. f x s = Inr s' \<Longrightarrow> recipe_step pf s s'" and "recipe_ok r"
  shows "recipe_ok r'"
  by (rule each_of_inv [of recipe_ok f, OF _ assms(1,3)]) (blast intro: recipe_step_ok assms(2))

text \<open>\<^verbatim>\<open>Recipe.__init__\<close> from its parts\<close>

lemma Recipe_init_cases:
  assumes "Recipe_init pf md5 d = Inr r"
  obtains name sw fw i version opts r1 r2 r3 r4 c where "int (length i) \<le> SKMAP_ID_LEN"
    "each_of d ''ipkg'' (add_ipkg pf) (Recipe_start name sw fw i version opts) = Inr r1"
    "each_of d ''k'' (add_k pf) r1 = Inr r2" "each_of d ''var'' (add_var pf) r2 = Inr r3"
    "each_of d ''mem'' (add_recipe_mem pf) r3 = Inr r4" "caculate_checksum pf md5 r4 = Inr c" "r = r4\<lparr>rc_checksum := c\<rparr>"
  using assms by (auto simp: Recipe_init_def rbind_Inr_iff)

lemma recipe_ok_start: "recipe_ok (Recipe_start name sw fw i version opts)"
  by (simp add: recipe_ok_def all_names_def Recipe_start_def)

lemma and_16_bits: "0 \<le> (x AND 0xFFFF :: int) \<and> (x AND 0xFFFF) < 65536"
  using AND_upper2' [of "0xFFFF" x] by simp

section \<open>Properties\<close>

text \<open>
  C7: a recipe that is accepted has every name once, over the values, constants, registers and memories;
  the names an expression may use are those of the values and the constants, each standing for its own
  entry, no constant has a conversion, and the checksum fits the two bytes of the module head.
\<close>

theorem recipe_well_formed:
  assumes "Recipe_init pf md5 d = Inr r"
  shows "distinct (map ri_name (rc_ipkg r) @ map rr_name (rc_k r) @ map rr_name (rc_var r) @ map rm_name (rc_mem r)) \<and>
    dom (rc_name_to_k r) = set (map ri_name (rc_ipkg r) @ map rr_name (rc_k r)) \<and>
    (\<forall>i \<in> set (rc_ipkg r). rc_name_to_k r (ri_name i) = Some (ipkg_leaf i)) \<and>
    (\<forall>k \<in> set (rc_k r). rc_name_to_k r (rr_name k) = Some (RK (rr_name k)) \<and>
       vo_v_convert_wr (rr_opts k) = None \<and> vo_v_convert_rd (rr_opts k) = None) \<and>
    0 \<le> rc_checksum r \<and> rc_checksum r < 65536"
proof -
  obtain name sw fw i version opts r1 r2 r3 r4 c where "int (length i) \<le> SKMAP_ID_LEN"
    and steps: "each_of d ''ipkg'' (add_ipkg pf) (Recipe_start name sw fw i version opts) = Inr r1"
      "each_of d ''k'' (add_k pf) r1 = Inr r2" "each_of d ''var'' (add_var pf) r2 = Inr r3"
      "each_of d ''mem'' (add_recipe_mem pf) r3 = Inr r4"
    and c: "caculate_checksum pf md5 r4 = Inr c" "r = r4\<lparr>rc_checksum := c\<rparr>"
    using assms by (rule Recipe_init_cases)
  have ok1: "recipe_ok r1" by (rule recipe_steps_ok [OF steps(1) _ recipe_ok_start]) (rule step_ipkg)
  have ok2: "recipe_ok r2" by (rule recipe_steps_ok [OF steps(2) _ ok1]) (rule step_k)
  have ok3: "recipe_ok r3" by (rule recipe_steps_ok [OF steps(3) _ ok2]) (rule step_var)
  have ok: "recipe_ok r4" by (rule recipe_steps_ok [OF steps(4) _ ok3]) (rule step_mem)
  then have "distinct (all_names r4)" by (metis recipe_ok_def mset_eq_imp_distinct_iff)
  moreover have "0 \<le> c \<and> c < 65536" using c(1) and_16_bits by (auto simp: caculate_checksum_def rbind_Inr_iff)
  ultimately show ?thesis using ok c(2) by (simp add: recipe_ok_def all_names_def)
qed

definition tm :: "(string \<times> string) list \<Rightarrow> toml" where
  "tm kvs = TDict (map (\<lambda>(k, v). (k, TStr v)) kvs)"

definition example_recipe :: "(string \<times> toml) list" where
  "example_recipe =
     [(''name'', TStr ''ex''), (''sw_module'', TStr ''ex''), (''fw_module'', TStr ''ex''), (''id'', TStr ''EX''),
      (''version'', TInt 1),
      (''ipkg'', TList [TDict [(''name'', TStr ''LEN''), (''value'', TInt 4)]]),
      (''k'', TList [tm [(''name'', ''W''), (''t'', ''u8''), (''desc'', ''width'')]]),
      (''var'', TList [TDict [(''name'', TStr ''st''), (''t'', TStr ''x8''), (''acc'', TStr ''ro''), (''desc'', TStr ''state''),
         (''flags'', TList [tm [(''name'', ''a''), (''desc'', ''first'')],
            TDict [(''name'', TStr ''b''), (''desc'', TStr ''vector''), (''vec_len'', TInt 3)],
            tm [(''name'', ''c''), (''desc'', ''last'')]])],
         tm [(''name'', ''v''), (''t'', ''u'' @ CHR 0x7B # ''W'' @ [CHR 0x7D]), (''acc'', ''rw''), (''desc'', ''value'')]]),
      (''mem'', TList [TDict [(''name'', TStr ''m''), (''t'', TStr ''[16]u8''), (''acc'', TStr ''rw''), (''desc'', TStr ''memory''),
         (''fw_depth'', TInt 16), (''fw_width'', TInt 8), (''fw_latency'', TInt 1)]])]"

theorem recipe_well_formed_witness:
  "\<exists>r. Recipe_init example_pf id example_recipe = Inr r \<and> rc_checksum r < 65536 \<and>
     distinct (map ri_name (rc_ipkg r) @ map rr_name (rc_k r) @ map rr_name (rc_var r) @ map rm_name (rc_mem r))"
proof -
  have "\<not> isl (Recipe_init example_pf id example_recipe)" by code_simp
  then obtain r where r: "Recipe_init example_pf id example_recipe = Inr r" by (cases "Recipe_init example_pf id example_recipe") auto
  then show ?thesis using recipe_well_formed [OF r] by blast
qed

text \<open>Two int expressions added by \<^verbatim>\<open>make_resolvable_function\<close>\<close>

lemma make_add_value:
  assumes "make_resolvable_function pf l Op_add r = Inr t"
    and v: "resolvable_to_int pf l = Inr (NInt a)" "resolvable_to_int pf r = Inr (NInt b)"
  shows "resolvable_to_int pf t = Inr (NInt (a + b))"
  using assms(1)
proof (cases rule: make_cases)
  case (fold x y n)
  then have "x = NInt a" "y = NInt b" using fold_operands_value [OF fold(1), of pf] v by auto
  then show ?thesis using fold(2,3) fold_op_value [OF fold(2)] by (auto simp: eval_op_def num_add_is_int)
next
  case (sum u)
  then show ?thesis using v fold_sum_value [of l Op_add r u pf "a + b"] by (simp add: eval_op_def num_add_is_int)
next
  case node
  then show ?thesis using v by (simp add: eval_op_def num_add_is_int)
qed

lemma next_bit_value:
  assumes "next_bit pf f = Inr t" and "resolvable_to_int pf (fl_bit f) = Inr (NInt b)"
    and "resolvable_to_int pf (fl_width f) = Inr (NInt w)"
  shows "resolvable_to_int pf t = Inr (NInt (b + w))"
proof (cases "is_zero (fl_bit f)")
  case True
  then have "b = 0" using assms(2) by (auto simp: is_zero_def num_bool_def split: resolvable.splits if_splits)
  then show ?thesis using assms True by (simp add: next_bit_def)
next
  case False
  then show ?thesis using assms make_add_value by (simp add: next_bit_def)
qed

text \<open>A flag without a bit of its own has the default bit.\<close>

lemma parse_recipe_flag_bit:
  "parse_recipe_flag pf env (TDict d) b = Inr f \<Longrightarrow> map_of d ''bit'' = None \<Longrightarrow> fl_bit f = b"
  by (subst (asm) parse_recipe_flag.simps) (auto simp: rbind_Inr_iff dict_of_def split: prod.splits)

lemma flags_loop_bits:
  assumes "flags_loop pf flag dfs b = Inr (fs, width)" and "resolvable_to_int pf b = Inr (NInt n)"
    and "\<forall>v \<in> set dfs. \<forall>b f. flag v b = Inr f \<longrightarrow> fl_bit f = b"
    and "\<forall>f \<in> set fs. resolvable_to_int pf (fl_width f) = Inr (NInt (w f))"
  shows "(\<forall>i < length fs. resolvable_to_int pf (fl_bit (fs ! i)) = Inr (NInt (n + sum_list (map w (take i fs))))) \<and>
    resolvable_to_int pf width = Inr (NInt (n + sum_list (map w fs)))"
  using assms
proof (induction dfs arbitrary: b n fs)
  case Nil
  then show ?case by simp
next
  case (Cons v dfs)
  obtain f b' gs where f: "flag v b = Inr f" "next_bit pf f = Inr b'" "flags_loop pf flag dfs b' = Inr (gs, width)"
    "fs = f # gs"
    using Cons.prems(1) by (auto simp: rbind_Inr_iff)
  have bit: "fl_bit f = b" using Cons.prems(3) f(1) by simp
  have w: "resolvable_to_int pf (fl_width f) = Inr (NInt (w f))" using Cons.prems(4) f(4) by simp
  have "resolvable_to_int pf b' = Inr (NInt (n + w f))"
    using next_bit_value [OF f(2)] Cons.prems(2) bit w by simp
  then have "(\<forall>i < length gs. resolvable_to_int pf (fl_bit (gs ! i)) = Inr (NInt (n + w f + sum_list (map w (take i gs))))) \<and>
    resolvable_to_int pf width = Inr (NInt (n + w f + sum_list (map w gs)))"
    using Cons.IH [OF f(3)] Cons.prems(3,4) f(4) by simp
  then show ?case using f(4) bit Cons.prems(2) by (auto simp: nth_Cons' take_Cons' add.assoc)
qed

text \<open>
  C17: flags that do not name their bit are laid out one after the other: when the widths of the flags have
  the values \<open>w\<close>, a flag starts at the sum of the widths before it, so no two flags share a bit, and
  the width of the register is the sum of all. The widths may be expressions of the recipe.
\<close>

theorem default_flags_disjoint:
  assumes "parse_recipe_flags pf env d = Inr (Some fs, width)"
    and "\<forall>v \<in> inner_flags d. \<exists>e. v = TDict e \<and> map_of e ''bit'' = None"
    and "\<forall>f \<in> set fs. resolvable_to_int pf (fl_width f) = Inr (NInt (w f)) \<and> 0 \<le> w f"
  shows "\<exists>bit. (\<forall>i < length fs. resolvable_to_int pf (fl_bit (fs ! i)) = Inr (NInt (bit i))) \<and>
    (\<forall>i j. i < j \<and> j < length fs \<longrightarrow> bit i + w (fs ! i) \<le> bit j) \<and>
    (\<forall>i < length fs. 0 \<le> bit i \<and> bit i + w (fs ! i) \<le> sum_list (map w fs)) \<and>
    resolvable_to_int pf width = Inr (NInt (sum_list (map w fs)))"
proof -
  obtain v dfs where d: "map_of d ''flags'' = Some v" "tables_of v = Inr dfs"
    and loop: "flags_loop pf (parse_recipe_flag pf env) dfs (RNum (NInt 0)) = Inr (fs, width)"
    using assms(1) by (auto simp: parse_recipe_flags_def flags_of_def rbind_Inr_iff split: option.splits)
  have dflt: "fl_bit f = b" if "u \<in> set dfs" "parse_recipe_flag pf env u b = Inr f" for u b f
    using assms(2) d that parse_recipe_flag_bit by (fastforce simp: inner_flags_def)
  define bit where "bit i = sum_list (map w (take i fs))" for i
  have bit_Suc: "bit (Suc i) = bit i + w (fs ! i)" if "i < length fs" for i
    using that by (simp add: bit_def take_Suc_conv_app_nth)
  have pos: "0 \<le> w (fs ! i)" if "i < length fs" for i using assms(3) that by simp
  have mono: "i \<le> j \<Longrightarrow> j \<le> length fs \<Longrightarrow> bit i \<le> bit j" for i j
  proof (induction j rule: dec_induct)
    case (step k)
    then show ?case using bit_Suc [of k] pos [of k] by simp
  qed simp
  have all: "bit (length fs) = sum_list (map w fs)" "bit 0 = 0" by (simp_all add: bit_def)
  have "(\<forall>i < length fs. resolvable_to_int pf (fl_bit (fs ! i)) = Inr (NInt (bit i))) \<and>
    resolvable_to_int pf width = Inr (NInt (sum_list (map w fs)))"
    using flags_loop_bits [OF loop, of 0 w] dflt assms(3) by (simp add: bit_def)
  moreover have "bit i + w (fs ! i) \<le> bit j" if "i < j" "j < length fs" for i j
    using mono [of "Suc i" j] bit_Suc [of i] that by simp
  moreover have "0 \<le> bit i \<and> bit i + w (fs ! i) \<le> sum_list (map w fs)" if "i < length fs" for i
    using mono [of 0 i] mono [of "Suc i" "length fs"] bit_Suc [of i] all that by simp
  ultimately show ?thesis by blast
qed

definition example_flags :: "(string \<times> toml) list" where
  "example_flags =
     [(''flags'', TList [tm [(''name'', ''a''), (''desc'', ''first'')],
        TDict [(''name'', TStr ''b''), (''desc'', TStr ''vector''), (''vec_len'', TInt 3)],
        tm [(''name'', ''c''), (''desc'', ''last'')]])]"

definition parsed_flags :: "recipe_flag list" where
  "parsed_flags =
     [RecipeFlag ''a'' Ass_none (TStr ''first'') (RNum (NInt 0)) None None (RNum (NInt 1)),
      RecipeFlag ''b'' Ass_none (TStr ''vector'') (RNum (NInt 1)) (Some (RNum (NInt 3))) None (RNum (NInt 3)),
      RecipeFlag ''c'' Ass_none (TStr ''last'') (RNum (NInt 4)) None None (RNum (NInt 1))]"

theorem default_flags_disjoint_witness:
  "\<exists>fs width bit. parse_recipe_flags example_pf example_env example_flags = Inr (Some fs, width) \<and> length fs = 3 \<and>
     resolvable_to_int example_pf (fl_bit (fs ! 2)) = Inr (NInt (bit 2)) \<and> bit (1::nat) + 3 \<le> bit 2"
proof -
  define w where "w f = (case r_int (fl_width f) of None \<Rightarrow> 0 | Some n \<Rightarrow> n)" for f
  have "parse_recipe_flags example_pf example_env example_flags = Inr (Some parsed_flags, RNum (NInt 5))" by code_simp
  moreover have "\<forall>v \<in> inner_flags example_flags. \<exists>e. v = TDict e \<and> map_of e ''bit'' = None"
    by (auto simp: inner_flags_def example_flags_def tables_of_def tm_def)
  moreover have "\<forall>f \<in> set parsed_flags. resolvable_to_int example_pf (fl_width f) = Inr (NInt (w f)) \<and> 0 \<le> w f"
    by (simp add: parsed_flags_def w_def)
  ultimately obtain bit where bit: "\<forall>i < length parsed_flags. resolvable_to_int example_pf (fl_bit (parsed_flags ! i)) = Inr (NInt (bit i))"
    "\<forall>i j. i < j \<and> j < length parsed_flags \<longrightarrow> bit i + w (parsed_flags ! i) \<le> bit j"
    and p: "parse_recipe_flags example_pf example_env example_flags = Inr (Some parsed_flags, RNum (NInt 5))"
    using default_flags_disjoint [of example_pf example_env example_flags parsed_flags "RNum (NInt 5)" w] by blast
  have "resolvable_to_int example_pf (fl_bit (parsed_flags ! 2)) = Inr (NInt (bit 2))"
    using bit(1) [rule_format, of 2] by (simp add: parsed_flags_def)
  moreover have "bit 1 + 3 \<le> bit 2"
    using bit(2) [rule_format, of 1 2] by (simp add: parsed_flags_def w_def)
  moreover have "length parsed_flags = 3" by (simp add: parsed_flags_def)
  ultimately show ?thesis using p
    by - (rule exI [of _ parsed_flags], rule exI [of _ "RNum (NInt 5)"], rule exI [of _ bit], simp)
qed

text \<open>
  The value options fit together. A register with a conversion has both sides of it, and a check
  unless its values are floats; a register whose values are floats has a conversion; a char register,
  and a register of flags, has none of the options.
\<close>

theorem v_options_consistent:
  assumes "parse_recipe_v_options pf env d kind is_flag = Inr opts"
  shows "(vo_v_convert_wr opts = None \<longleftrightarrow> vo_v_convert_rd opts = None) \<and>
    (vo_v_convert_wr opts = None \<longleftrightarrow> vo_v_convert_wr_str opts = None) \<and>
    (vo_v_check opts = None \<longleftrightarrow> vo_v_check_str opts = None) \<and>
    (vo_v_convert_wr opts \<noteq> None \<longrightarrow> vo_v_check opts \<noteq> None \<or> vo_v_type opts = VType_f) \<and>
    (vo_v_type opts = VType_f \<longrightarrow> vo_v_convert_wr opts \<noteq> None) \<and>
    (vo_v_convert_wr opts \<noteq> None \<longleftrightarrow> has d ''v_convert_wr'' \<or> has d ''v_convert_rd'') \<and>
    (vo_v_check opts \<noteq> None \<longleftrightarrow> has d ''v_check'') \<and>
    (is_flag \<or> kind = VK_char \<longrightarrow> vo_v_check opts = None \<and> vo_v_convert_wr opts = None \<and>
       vo_v_type opts = value_kind_to_v_type kind)"
proof -
  obtain t check conv where
    none: "\<forall>opt \<in> set [''v_type'', ''v_check'', ''v_convert_wr'', ''v_convert_rd'']. \<not> is_flag \<or> \<not> has d opt"
      "kind \<noteq> VK_char \<or> \<not> (has d ''v_check'' \<or> has d ''v_convert_wr'' \<or> has d ''v_convert_rd'' \<or> has d ''v_type'')"
    and t: "v_type_option d kind = Inr t" and check: "v_check_option pf env d t = Inr check"
    and conv: "v_convert_option pf env d t (check \<noteq> None) = Inr conv"
    and opts: "vo_v_type opts = t" "vo_v_check opts = map_option fst check" "vo_v_check_str opts = map_option snd check"
      "vo_v_convert_wr opts = map_option (\<lambda>(wr, wr_str, rd, rd_str). wr) conv"
      "vo_v_convert_wr_str opts = map_option (\<lambda>(wr, wr_str, rd, rd_str). wr_str) conv"
      "vo_v_convert_rd opts = map_option (\<lambda>(wr, wr_str, rd, rd_str). rd) conv"
    using assms unfolding parse_recipe_v_options_def by (auto simp: rbind_Inr_iff)
  have c: "check = None \<longleftrightarrow> \<not> has d ''v_check''"
    using check by (auto simp: v_check_option_def rbind_Inr_iff split: option.splits)
  have v: "(conv = None \<longleftrightarrow> \<not> (has d ''v_convert_wr'' \<or> has d ''v_convert_rd'')) \<and>
      (conv = None \<longrightarrow> t \<noteq> VType_f) \<and> (conv \<noteq> None \<longrightarrow> check \<noteq> None \<or> t = VType_f)"
    using conv by (auto simp: v_convert_option_def rbind_Inr_iff v_type_is_float_def split: if_splits)
  have "\<not> has d ''v_type'' \<longrightarrow> t = value_kind_to_v_type kind" using t by (auto simp: v_type_option_def)
  then show ?thesis using none c v opts by auto
qed

definition scaled_reg :: "(string \<times> toml) list" where
  "scaled_reg = [(''name'', TStr ''r''), (''v_type'', TStr ''f''), (''v_convert_wr'', TStr ''v * 8'')]"

theorem v_options_consistent_witness:
  "\<exists>opts. parse_recipe_v_options example_pf example_env scaled_reg VK_uint False = Inr opts \<and>
     vo_v_convert_wr opts \<noteq> None \<and> vo_v_convert_rd opts \<noteq> None \<and> vo_v_check opts = None"
proof -
  have "\<not> isl (parse_recipe_v_options example_pf example_env scaled_reg VK_uint False)" by code_simp
  then obtain opts where o: "parse_recipe_v_options example_pf example_env scaled_reg VK_uint False = Inr opts"
    by (cases "parse_recipe_v_options example_pf example_env scaled_reg VK_uint False") auto
  then show ?thesis using v_options_consistent [OF o] by (auto simp: scaled_reg_def)
qed

text \<open>
  The bit of a flag is parsed as an expression without braces. The form the checksum's comment gives,
  \<^verbatim>\<open>bit = "{RO_LEN}"\<close>, is refused.
\<close>

theorem braces_bit_refused:
  assumes "map_of d ''name'' = Some (TStr name)" and "map_of d ''desc'' = Some desc"
    and "map_of d ''ass'' = None" and "map_of d ''bit'' = Some (TStr (CHR 0x7B # s))"
  shows "parse_recipe_flag pf env (TDict d) b = Inl SyntaxError"
proof -
  have "tokenize (CHR 0x7B # s) = Inl SyntaxError"
    by (subst tokenize.simps) (simp add: next_token_def is_name_start_def is_digit_def is_skip_def OP_TOKENS_def)
  then show ?thesis using assms
    by (subst parse_recipe_flag.simps) (simp add: dict_of_def dict_get_def str_of_def parse_resolvable_def)
qed

theorem braces_bit_refused_witness:
  "parse_recipe_flag example_pf example_env
     (tm [(''name'', ''f''), (''desc'', ''''), (''bit'', CHR 0x7B # ''N'' @ [CHR 0x7D])]) (RNum (NInt 0)) = Inl SyntaxError"
  unfolding tm_def by (rule braces_bit_refused) simp_all

lemma rfold_mem_hashed:
  assumes "rfold (add_recipe_mem pf) xs r = Inr r'"
  shows "rc_version r' = rc_version r \<and> rc_id r' = rc_id r \<and> checksum_text pf r' = checksum_text pf r"
  by (rule rfold_inv [of "\<lambda>s. rc_version s = rc_version r \<and> rc_id s = rc_id r \<and> checksum_text pf s = checksum_text pf r",
        OF _ assms])
    (auto simp: add_recipe_mem_def rbind_Inr_iff check_unique_name_Inr checksum_text_def)

text \<open>
  the memories of a recipe are not part of its checksum: a recipe without them has the same one, so a
  module and the code that parses it can disagree on every memory and still pass the check.
\<close>

theorem checksum_ignores_memories:
  assumes "Recipe_init pf md5 d = Inr r"
  shows "\<exists>r'. Recipe_init pf md5 (filter (\<lambda>(k, v). k \<noteq> ''mem'') d) = Inr r' \<and>
    rc_mem r' = [] \<and> rc_checksum r' = rc_checksum r"
proof -
  let ?d = "filter (\<lambda>(k, v). k \<noteq> ''mem'') d"
  have get: "k \<noteq> ''mem'' \<Longrightarrow> map_of ?d k = map_of d k" "map_of ?d ''mem'' = None" for k
    by (induction d) auto
  obtain name sw fw i version opts r1 r2 r3 r4 c where
    fields: "dict_get d ''name'' = Inr name" "dict_get d ''sw_module'' = Inr sw" "dict_get d ''fw_module'' = Inr fw"
      "rbind (dict_get d ''id'') str_of = Inr i" "int (length i) \<le> SKMAP_ID_LEN" "dict_get d ''version'' = Inr version"
      "parse_fw_opts d = Inr opts" "\<not> isl (dict_get d ''k'')" "\<not> isl (dict_get d ''var'')"
    and steps: "each_of d ''ipkg'' (add_ipkg pf) (Recipe_start name sw fw i version opts) = Inr r1"
      "each_of d ''k'' (add_k pf) r1 = Inr r2" "each_of d ''var'' (add_var pf) r2 = Inr r3"
      "each_of d ''mem'' (add_recipe_mem pf) r3 = Inr r4" "caculate_checksum pf md5 r4 = Inr c" "r = r4\<lparr>rc_checksum := c\<rparr>"
    using assms by (auto simp: Recipe_init_def rbind_Inr_iff)
  have "rc_version r4 = rc_version r3 \<and> rc_id r4 = rc_id r3 \<and> checksum_text pf r4 = checksum_text pf r3"
    using steps(4) rfold_mem_hashed by (auto simp: each_of_def rbind_Inr_iff split: option.splits)
  then have c: "caculate_checksum pf md5 r3 = Inr c" using steps(5) by (simp add: caculate_checksum_def)
  have no_mem: "each_of d key f r = Inr r' \<Longrightarrow> (\<And>x s s'. f x s = Inr s' \<Longrightarrow> rc_mem s' = rc_mem s) \<Longrightarrow> rc_mem r' = rc_mem r"
    for key f r r' by (rule each_of_inv [of "\<lambda>s. rc_mem s = rc_mem r" f]) auto
  have "rc_mem r3 = rc_mem r2" by (rule no_mem [OF steps(3)]) (auto simp: add_var_def rbind_Inr_iff check_unique_name_Inr)
  also have "\<dots> = rc_mem r1" by (rule no_mem [OF steps(2)]) (auto simp: add_k_def rbind_Inr_iff check_unique_name_Inr)
  also have "\<dots> = rc_mem (Recipe_start name sw fw i version opts)"
    by (rule no_mem [OF steps(1)]) (auto simp: add_ipkg_def rbind_Inr_iff check_unique_name_Inr)
  also have "\<dots> = []" by (simp add: Recipe_start_def)
  finally have m: "rc_mem r3 = []" .
  have same: "k \<noteq> ''mem'' \<Longrightarrow> dict_get ?d k = dict_get d k" "k \<noteq> ''mem'' \<Longrightarrow> each_of ?d k = each_of d k"
    "parse_fw_opts ?d = parse_fw_opts d" for k
    using get by (simp_all add: dict_get_def each_of_def parse_fw_opts_def fun_eq_iff)
  have "Recipe_init pf md5 ?d = Inr (r3\<lparr>rc_checksum := c\<rparr>)"
    using fields steps c same get(2) unfolding Recipe_init_def
    by (cases "dict_get d ''k''"; cases "dict_get d ''var''") (auto simp: each_of_def [of ?d "''mem''"])
  then show ?thesis using m steps(6) by simp
qed

lemma example_recipe_accepted: "\<not> isl (Recipe_init example_pf id example_recipe)"
  by code_simp

theorem checksum_ignores_memories_witness:
  "\<exists>r r'. Recipe_init example_pf id example_recipe = Inr r \<and> map_of example_recipe ''mem'' \<noteq> None \<and>
     Recipe_init example_pf id (filter (\<lambda>(k, v). k \<noteq> ''mem'') example_recipe) = Inr r' \<and> rc_checksum r' = rc_checksum r"
proof -
  obtain r where r: "Recipe_init example_pf id example_recipe = Inr r"
    using example_recipe_accepted by (cases "Recipe_init example_pf id example_recipe") auto
  moreover have "map_of example_recipe ''mem'' \<noteq> None" by (simp add: example_recipe_def)
  ultimately show ?thesis using checksum_ignores_memories [OF r] by blast
qed

definition array_recipe :: "string \<Rightarrow> (string \<times> toml) list" where
  "array_recipe t =
     [(''name'', TStr ''ex''), (''sw_module'', TStr ''ex''), (''fw_module'', TStr ''ex''), (''id'', TStr ''EX''),
      (''version'', TInt 1), (''k'', TList []),
      (''var'', TList [tm [(''name'', ''v''), (''t'', t), (''acc'', ''rw''), (''desc'', ''values'')]])]"

definition array_var :: "int \<Rightarrow> int \<Rightarrow> recipe_var" where
  "array_var n w =
     \<lparr>rr_name = ''v'', rr_t = Type_known \<lparr>vt_kind = VK_uint, vt_width = w, vt_vec_len = Some n\<rparr>, rr_acc = Acc_rw,
      rr_desc = TStr ''values'', rr_flags = None,
      rr_opts = \<lparr>vo_v_type = VType_u, vo_v_check = None, vo_v_check_str = None, vo_v_convert_wr = None,
        vo_v_convert_wr_str = None, vo_v_convert_rd = None, vo_v_convert_rd_str = None\<rparr>,
      rr_ass = Ass_none, rr_fw_init = Fw_zero\<rparr>"

definition array_built :: "(byte list \<Rightarrow> byte list) \<Rightarrow> int \<Rightarrow> int \<Rightarrow> recipe" where
  "array_built md5 n w =
     (Recipe_start (TStr ''ex'') (TStr ''ex'') (TStr ''ex'') ''EX'' (TInt 1) FwOpts)
       \<lparr>rc_var := [array_var n w], rc_names := [''v''],
        rc_checksum := from_bytes (md5 ([1] @ utf8 ''EX'' @ [1] @
          utf8 (checksum_update_reg example_pf Ass_none (array_var n w)))) Big False AND 0xFFFF\<rparr>"

lemma array_recipe_built:
  assumes "parse_value_type_text example_pf \<lparr>name_to_k = Map.empty, expr_params = Map.empty\<rparr> t =
    Inr (Type_known \<lparr>vt_kind = VK_uint, vt_width = w, vt_vec_len = Some n\<rparr>)"
  shows "Recipe_init example_pf md5 (array_recipe t) = Inr (array_built md5 n w)"
  using assms
  by (simp add: Recipe_init_def array_recipe_def array_built_def dict_get_def str_of_def SKMAP_ID_LEN_def parse_fw_opts_def
      each_of_def tables_of_def add_var_def RecipeVar_init_def tm_def dict_of_def get_name_def get_type_def
      parse_value_type_resolvable_def recipe_env_def Recipe_start_def acc_member_def enum_member_def parse_recipe_flags_def flags_of_def
      parse_recipe_v_options_def v_type_option_def v_check_option_def v_convert_option_def rt_kind_def reg_type_def
      rt_width_def value_kind_to_v_type_def v_type_is_float_def check_unique_name_def array_var_def
      caculate_checksum_def version_byte_def checksum_text_def SKMAP_VER_MAJOR_def)

text \<open>
  The texts of the checksum are joined without a separator. So a recipe whose only register is an array
  of 24 values of 3 bits and one whose register is an array of 4 values of 32 bits have the same
  checksum, for any digest: a module of the first layout, 24 bytes, is accepted by code generated for
  the second, 16 bytes.
\<close>

theorem checksum_layout_collision:
  "\<exists>r s t u. Recipe_init example_pf md5 (array_recipe ''[24]u3'') = Inr r \<and>
     Recipe_init example_pf md5 (array_recipe ''[4]u32'') = Inr s \<and> rc_checksum r = rc_checksum s \<and>
     map rr_t (rc_var r) = [Type_known t] \<and> map rr_t (rc_var s) = [Type_known u] \<and>
     total_size t = 24 \<and> total_size u = 16"
proof -
  let ?env = "\<lparr>name_to_k = Map.empty, expr_params = Map.empty\<rparr>"
  have "parse_value_type_text example_pf ?env ''[24]u3'' = Inr (Type_known \<lparr>vt_kind = VK_uint, vt_width = 3, vt_vec_len = Some 24\<rparr>)"
    by code_simp
  then have r: "Recipe_init example_pf md5 (array_recipe ''[24]u3'') = Inr (array_built md5 24 3)" by (rule array_recipe_built)
  have "parse_value_type_text example_pf ?env ''[4]u32'' = Inr (Type_known \<lparr>vt_kind = VK_uint, vt_width = 32, vt_vec_len = Some 4\<rparr>)"
    by code_simp
  then have s: "Recipe_init example_pf md5 (array_recipe ''[4]u32'') = Inr (array_built md5 4 32)" by (rule array_recipe_built)
  have "checksum_update_reg example_pf Ass_none (array_var 24 3) = checksum_update_reg example_pf Ass_none (array_var 4 32)"
    by code_simp
  then have "rc_checksum (array_built md5 24 3) = rc_checksum (array_built md5 4 32)" by (simp add: array_built_def)
  moreover have "total_size \<lparr>vt_kind = VK_uint, vt_width = 3, vt_vec_len = Some 24\<rparr> = 24"
    "total_size \<lparr>vt_kind = VK_uint, vt_width = 32, vt_vec_len = Some 4\<rparr> = 16" by code_simp+
  moreover have "map rr_t (rc_var (array_built md5 n w)) = [Type_known \<lparr>vt_kind = VK_uint, vt_width = w, vt_vec_len = Some n\<rparr>]"
    for n w by (simp add: array_built_def array_var_def)
  ultimately show ?thesis using r s by blast
qed

end
