(* ===== verification/GenExpr.thy ===== *)
theory GenExpr
  imports RecipeInvert
begin

text \<open>
  The expressions of a recipe as source text: \<^verbatim>\<open>to_python_source\<close> of
  \<^verbatim>\<open>pip/skmap/src/skmap/code_generator_py.py\<close>, \<^verbatim>\<open>to_cpp_source\<close> of \<^verbatim>\<open>code_generator_cpp.py\<close> and
  \<^verbatim>\<open>to_vhdl_source\<close> of \<^verbatim>\<open>code_generator_vhdl.py\<close>.

  For Python the theory says what the text means: \<open>py_reads\<close> is the part of the grammar of Python the
  generator uses, with its levels of precedence, \<open>py_eval\<close> the value of an expression. The properties
  compare that value with the value the recipe gives the tree.
\<close>

section \<open>Operators\<close>

fun op_to_py_source :: "bin_op \<Rightarrow> string" where
  "op_to_py_source Op_add = ''+''"
| "op_to_py_source Op_sub = ''-''"
| "op_to_py_source Op_mult = ''*''"
| "op_to_py_source Op_div = ''//''"
| "op_to_py_source Op_power = ''**''"
| "op_to_py_source Op_mod = ''%''"
| "op_to_py_source Op_eq = ''==''"
| "op_to_py_source Op_ne = ''!=''"
| "op_to_py_source Op_lt = ''<''"
| "op_to_py_source Op_le = ''<=''"
| "op_to_py_source Op_gt = ''>''"
| "op_to_py_source Op_ge = ''>=''"
| "op_to_py_source Op_land = ''and''"
| "op_to_py_source Op_lor = ''or''"

definition op_to_vhdl_source :: "bin_op \<Rightarrow> string res" where
  "op_to_vhdl_source op =
     (case op of
        Op_add \<Rightarrow> Inr ''+'' | Op_sub \<Rightarrow> Inr ''-'' | Op_mult \<Rightarrow> Inr ''*'' | Op_div \<Rightarrow> Inr ''/'' | Op_power \<Rightarrow> Inr ''**''
      | _ \<Rightarrow> Inl KeyError)"

section \<open>The three printers\<close>

text \<open>A bool is an int of Python, its text is \<^verbatim>\<open>True\<close> or \<^verbatim>\<open>False\<close>. A fraction has no text.\<close>

fun to_python_source :: "py_impl \<Rightarrow> resolvable \<Rightarrow> string res" where
  "to_python_source pf (RBool b) = Inr (py_str_bool b)"
| "to_python_source pf (RNum n) =
     (case n of NInt i \<Rightarrow> Inr (py_str_int i) | NFlt x \<Rightarrow> Inr (pf_str pf x) | NFrac q \<Rightarrow> Inl TypeError)"
| "to_python_source pf (RIpkg nm v) = Inr (''self.'' @ nm)"
| "to_python_source pf (RK nm) = Inr (''self.'' @ nm)"
| "to_python_source pf (RParam nm t) = Inr nm"
| "to_python_source pf (RNot l) = rbind (to_python_source pf l) (\<lambda>s. Inr (''(not '' @ s @ '')''))"
| "to_python_source pf (ROp l op r) =
     rbind (to_python_source pf l) (\<lambda>s. rbind (to_python_source pf r) (\<lambda>t.
       if op = Op_div \<and> contains_float_value (ROp l op r) then Inr (''('' @ s @ '' / '' @ t @ '')'')
       else Inr (''('' @ s @ '' '' @ op_to_py_source op @ '' '' @ t @ '')'')))"
| "to_python_source pf (RFun f ps) =
     rbind (rmapM (\<lambda>p. to_python_source pf p) ps) (\<lambda>args.
       Inr (''skmap.recipe_functions.'' @ built_in_name f @ ''('' @ str_join '', '' args @ '')''))"
| "to_python_source pf (RStr s) = Inl TypeError"

fun to_cpp_source :: "py_impl \<Rightarrow> resolvable \<Rightarrow> string res" where
  "to_cpp_source pf (RBool b) = Inr (py_str_bool b)"
| "to_cpp_source pf (RNum n) =
     (case n of NInt i \<Rightarrow> Inr (py_str_int i) | NFlt x \<Rightarrow> Inr (pf_str pf x) | NFrac q \<Rightarrow> Inl TypeError)"
| "to_cpp_source pf (RStr s) = Inr s"
| "to_cpp_source pf (RIpkg nm v) = Inr (nm @ ''()'')"
| "to_cpp_source pf (RK nm) = Inr (nm @ ''()'')"
| "to_cpp_source pf (RNot l) = rbind (to_cpp_source pf l) (\<lambda>s. Inr (''(!'' @ s @ '')''))"
| "to_cpp_source pf (ROp l op r) =
     rbind (to_cpp_source pf l) (\<lambda>s. rbind (to_cpp_source pf r) (\<lambda>t.
       if op = Op_power then Inr (''static_cast<int>(std::pow('' @ s @ '', '' @ t @ ''))'')
       else if op = Op_div \<and> contains_float_value (ROp l op r) then
         Inr (''(static_cast<float_t>('' @ s @ '') / '' @ t @ '')'')
       else Inr (''('' @ s @ '' '' @ bin_op_str op @ '' '' @ t @ '')'')))"
| "to_cpp_source pf (RFun f ps) =
     rbind (rmapM (\<lambda>p. to_cpp_source pf p) ps) (\<lambda>args.
       Inr (''recipe_functions::'' @ (if f = Fn_float then ''to_float'' else built_in_name f) @ ''('' @ str_join '', '' args @ '')''))"
| "to_cpp_source pf (RParam nm t) = Inr nm"

fun to_vhdl_source :: "resolvable \<Rightarrow> string res" where
  "to_vhdl_source (RBool b) = Inr (py_str_bool b)"
| "to_vhdl_source (RNum n) = (case n of NInt i \<Rightarrow> Inr (py_str_int i) | _ \<Rightarrow> Inl TypeError)"
| "to_vhdl_source (RIpkg nm v) = Inr nm"
| "to_vhdl_source (RK nm) = Inr nm"
| "to_vhdl_source (RNot l) = rbind (to_vhdl_source l) (\<lambda>_. Inl KeyError)"
| "to_vhdl_source (ROp l op r) =
     rbind (to_vhdl_source l) (\<lambda>s. rbind (op_to_vhdl_source op) (\<lambda>o_s. rbind (to_vhdl_source r) (\<lambda>t.
       Inr (''('' @ s @ '' '' @ o_s @ '' '' @ t @ '')''))))"
| "to_vhdl_source (RFun f ps) =
     rbind (rmapM (\<lambda>p. to_vhdl_source p) ps) (\<lambda>args.
       Inr (''skmap_recipe_'' @ built_in_name f @ ''('' @ str_join '', '' args @ '')''))"
| "to_vhdl_source (RParam nm t) = Inr nm"
| "to_vhdl_source (RStr s) = Inl TypeError"

section \<open>The Python a text stands for\<close>

datatype py_op =
    Py_add | Py_sub | Py_mult | Py_floordiv | Py_truediv | Py_mod | Py_pow
  | Py_eq | Py_ne | Py_lt | Py_le | Py_gt | Py_ge | Py_and | Py_or

datatype py_expr =
    Py_int int
  | Py_float rat
  | Py_bool bool
  | Py_self string
  | Py_name string
  | Py_neg py_expr
  | Py_not py_expr
  | Py_bin py_expr py_op py_expr
  | Py_call built_in "py_expr list"

text \<open>
  The levels of the grammar: 0 \<^verbatim>\<open>or\<close>, 1 \<^verbatim>\<open>and\<close>, 2 \<^verbatim>\<open>not\<close>, 3 comparison (one operator, no chain), 4 sum, 5
  product, 6 sign, 7 power, 8 atom. A binary operator takes its left operand from its own level and the
  right one from the next, the power the other way round.
\<close>

fun py_op_str :: "py_op \<Rightarrow> string" where
  "py_op_str Py_add = ''+''" | "py_op_str Py_sub = ''-''" | "py_op_str Py_mult = ''*''"
| "py_op_str Py_floordiv = ''//''" | "py_op_str Py_truediv = ''/''" | "py_op_str Py_mod = ''%''"
| "py_op_str Py_pow = ''**''" | "py_op_str Py_eq = ''==''" | "py_op_str Py_ne = ''!=''" | "py_op_str Py_lt = ''<''"
| "py_op_str Py_le = ''<=''" | "py_op_str Py_gt = ''>''" | "py_op_str Py_ge = ''>=''" | "py_op_str Py_and = ''and''"
| "py_op_str Py_or = ''or''"

fun op_levels :: "py_op \<Rightarrow> nat \<times> nat \<times> nat" where
  "op_levels Py_or = (0, 0, 1)"
| "op_levels Py_and = (1, 1, 2)"
| "op_levels Py_add = (4, 4, 5)"
| "op_levels Py_sub = (4, 4, 5)"
| "op_levels Py_mult = (5, 5, 6)"
| "op_levels Py_floordiv = (5, 5, 6)"
| "op_levels Py_truediv = (5, 5, 6)"
| "op_levels Py_mod = (5, 5, 6)"
| "op_levels Py_pow = (7, 8, 6)"
| "op_levels _ = (3, 4, 4)"

inductive py_reads :: "py_impl \<Rightarrow> nat \<Rightarrow> string \<Rightarrow> py_expr \<Rightarrow> bool" for pf where
  up: "py_reads pf (Suc n) s e \<Longrightarrow> py_reads pf n s e"
| int: "0 \<le> i \<Longrightarrow> py_reads pf 8 (py_str_int i) (Py_int i)"
| float: "0 \<le> x \<Longrightarrow> py_reads pf 8 (pf_str pf x) (Py_float x)"
| bool: "py_reads pf 8 (py_str_bool b) (Py_bool b)"
| self: "py_reads pf 8 (''self.'' @ nm) (Py_self nm)"
| name: "py_reads pf 8 nm (Py_name nm)"
| paren: "py_reads pf 0 s e \<Longrightarrow> py_reads pf 8 (''('' @ s @ '')'') e"
| call: "list_all2 (py_reads pf 0) ss es \<Longrightarrow>
    py_reads pf 8 (''skmap.recipe_functions.'' @ built_in_name f @ ''('' @ str_join '', '' ss @ '')'') (Py_call f es)"
| neg: "py_reads pf 6 s e \<Longrightarrow> py_reads pf 6 (CHR ''-'' # s) (Py_neg e)"
| logic_not: "py_reads pf 2 s e \<Longrightarrow> py_reads pf 2 (''not '' @ s) (Py_not e)"
| bin: "op_levels op = (n, k, m) \<Longrightarrow> py_reads pf k s d \<Longrightarrow> py_reads pf m t e \<Longrightarrow>
    py_reads pf n (s @ '' '' @ py_op_str op @ '' '' @ t) (Py_bin d op e)"

text \<open>The value of an expression: \<open>self_v\<close> has the attributes of the module, \<open>arg_v\<close> the parameter of the lambda.\<close>

definition py_fn :: "py_impl \<Rightarrow> built_in \<Rightarrow> rnum list \<Rightarrow> rnum res" where
  "py_fn pf f args =
     (case (f, args) of
        (Fn_clog2, [x]) \<Rightarrow> fn_clog2 pf x
      | (Fn_cdiv, [x, y]) \<Rightarrow> fn_cdiv pf x y
      | (Fn_round, [x]) \<Rightarrow> fn_round pf x
      | (Fn_ceil, [x]) \<Rightarrow> Inr (fn_ceil x)
      | (Fn_floor, [x]) \<Rightarrow> Inr (fn_floor x)
      | (Fn_float, [x]) \<Rightarrow> Inr (fn_float pf x)
      | _ \<Rightarrow> Inl TypeError)"

definition py_arith :: "py_impl \<Rightarrow> py_op \<Rightarrow> rnum \<Rightarrow> rnum \<Rightarrow> rnum res" where
  "py_arith pf op a b =
     (case op of
        Py_add \<Rightarrow> Inr (num_add pf a b) | Py_sub \<Rightarrow> Inr (num_sub pf a b) | Py_mult \<Rightarrow> Inr (num_mult pf a b)
      | Py_floordiv \<Rightarrow> num_floordiv pf a b | Py_truediv \<Rightarrow> num_truediv pf a b | Py_mod \<Rightarrow> num_mod pf a b
      | Py_pow \<Rightarrow> num_pow pf a b
      | Py_eq \<Rightarrow> Inr (num_bool (num_val a = num_val b)) | Py_ne \<Rightarrow> Inr (num_bool (num_val a \<noteq> num_val b))
      | Py_lt \<Rightarrow> Inr (num_bool (num_val a < num_val b)) | Py_le \<Rightarrow> Inr (num_bool (num_val a \<le> num_val b))
      | Py_gt \<Rightarrow> Inr (num_bool (num_val a > num_val b)) | Py_ge \<Rightarrow> Inr (num_bool (num_val a \<ge> num_val b))
      | Py_and \<Rightarrow> Inr (if num_val a = 0 then a else b) | Py_or \<Rightarrow> Inr (if num_val a = 0 then b else a))"

fun py_eval :: "py_impl \<Rightarrow> (string \<Rightarrow> rnum res) \<Rightarrow> (string \<Rightarrow> rnum res) \<Rightarrow> py_expr \<Rightarrow> rnum res" where
  "py_eval pf self_v arg_v (Py_int i) = Inr (NInt i)"
| "py_eval pf self_v arg_v (Py_float x) = Inr (NFlt x)"
| "py_eval pf self_v arg_v (Py_bool b) = Inr (num_bool b)"
| "py_eval pf self_v arg_v (Py_self nm) = self_v nm"
| "py_eval pf self_v arg_v (Py_name nm) = arg_v nm"
| "py_eval pf self_v arg_v (Py_neg e) = rbind (py_eval pf self_v arg_v e) (\<lambda>a. Inr (num_neg a))"
| "py_eval pf self_v arg_v (Py_not e) = rbind (py_eval pf self_v arg_v e) (\<lambda>a. Inr (num_bool (num_val a = 0)))"
| "py_eval pf self_v arg_v (Py_bin d op e) =
     rbind (py_eval pf self_v arg_v d) (\<lambda>a.
       if op = Py_and \<and> num_val a = 0 \<or> op = Py_or \<and> num_val a \<noteq> 0 then Inr a
       else rbind (py_eval pf self_v arg_v e) (\<lambda>b. py_arith pf op a b))"
| "py_eval pf self_v arg_v (Py_call f es) =
     rbind (rmapM (\<lambda>e. py_eval pf self_v arg_v e) es) (py_fn pf f)"

section \<open>What the printed text reads as\<close>

fun neg_literal :: "resolvable \<Rightarrow> bool" where
  "neg_literal (RNum (NInt i)) = (i < 0)"
| "neg_literal (RNum (NFlt x)) = (x < 0)"
| "neg_literal _ = False"

fun py_op_of :: "bin_op \<Rightarrow> py_op" where
  "py_op_of Op_add = Py_add"
| "py_op_of Op_sub = Py_sub"
| "py_op_of Op_mult = Py_mult"
| "py_op_of Op_div = Py_floordiv"
| "py_op_of Op_power = Py_pow"
| "py_op_of Op_mod = Py_mod"
| "py_op_of Op_eq = Py_eq"
| "py_op_of Op_ne = Py_ne"
| "py_op_of Op_lt = Py_lt"
| "py_op_of Op_le = Py_le"
| "py_op_of Op_gt = Py_gt"
| "py_op_of Op_ge = Py_ge"
| "py_op_of Op_land = Py_and"
| "py_op_of Op_lor = Py_or"

text \<open>The sign of a literal on the left of a power belongs to the power.\<close>

fun pow_tree :: "bool \<Rightarrow> py_expr \<Rightarrow> py_expr \<Rightarrow> py_expr" where
  "pow_tree True (Py_neg d) e = Py_neg (Py_bin d Py_pow e)"
| "pow_tree _ d e = Py_bin d Py_pow e"

fun py_tree :: "resolvable \<Rightarrow> py_expr" where
  "py_tree (RBool b) = Py_bool b"
| "py_tree (RNum n) =
     (case n of
        NInt i \<Rightarrow> if i < 0 then Py_neg (Py_int (- i)) else Py_int i
      | NFlt x \<Rightarrow> if x < 0 then Py_neg (Py_float (- x)) else Py_float x
      | NFrac q \<Rightarrow> Py_int 0)"
| "py_tree (RIpkg nm v) = Py_self nm"
| "py_tree (RK nm) = Py_self nm"
| "py_tree (RParam nm t) = Py_name nm"
| "py_tree (RNot l) = Py_not (py_tree l)"
| "py_tree (ROp l op r) =
     (if op = Op_power then pow_tree (neg_literal l) (py_tree l) (py_tree r)
      else Py_bin (py_tree l)
        (if op = Op_div \<and> contains_float_value (ROp l op r) then Py_truediv else py_op_of op) (py_tree r))"
| "py_tree (RFun f ps) = Py_call f (map (\<lambda>p. py_tree p) ps)"
| "py_tree (RStr s) = Py_int 0"

text \<open>Floats as Python has them: the sign is printed in front and rounding does not depend on it.\<close>

definition float_laws :: "py_impl \<Rightarrow> bool" where
  "float_laws pf \<longleftrightarrow> (\<forall>x. x < 0 \<longrightarrow> pf_str pf x = CHR ''-'' # pf_str pf (- x)) \<and> (\<forall>x. pf_round pf (- x) = - pf_round pf x)"

lemma py_reads_down: "py_reads pf n s e \<Longrightarrow> m \<le> n \<Longrightarrow> py_reads pf m s e"
proof (induction "n - m" arbitrary: m)
  case (Suc k)
  then have "py_reads pf (Suc m) s e" by simp
  then show ?case by (rule py_reads.up)
qed simp

lemma py_op_str_of: "py_op_str (py_op_of op) = op_to_py_source op"
  by (cases op) simp_all

lemma op_levels_operands:
  assumes "op_levels op = (n, k, m)" and "op \<noteq> Py_pow"
  shows "k \<le> 6 \<and> m \<le> 6"
  using assms by (cases op) auto

lemma reads_paren_bin:
  assumes "py_reads pf 6 s d" and "py_reads pf 6 t e" and "op \<noteq> Py_pow"
  shows "py_reads pf 8 (''('' @ s @ '' '' @ py_op_str op @ '' '' @ t @ '')'') (Py_bin d op e)"
proof -
  obtain n k m where l: "op_levels op = (n, k, m)" by (cases "op_levels op")
  have "py_reads pf n (s @ '' '' @ py_op_str op @ '' '' @ t) (Py_bin d op e)"
  proof (rule py_reads.bin [OF l])
    show "py_reads pf k s d" "py_reads pf m t e"
      using op_levels_operands [OF l assms(3)] py_reads_down assms(1,2) by blast+
  qed
  then have "py_reads pf 0 (s @ '' '' @ py_op_str op @ '' '' @ t) (Py_bin d op e)" by (rule py_reads_down) simp
  from py_reads.paren [OF this] show ?thesis by simp
qed

lemma reads_paren_pow:
  assumes "py_reads pf 8 s d" and "py_reads pf 6 t e"
  shows "py_reads pf 8 (''('' @ s @ '' ** '' @ t @ '')'') (Py_bin d Py_pow e)"
    and "py_reads pf 8 (''(-'' @ s @ '' ** '' @ t @ '')'') (Py_neg (Py_bin d Py_pow e))"
proof -
  have p: "py_reads pf 7 (s @ '' ** '' @ t) (Py_bin d Py_pow e)"
    using py_reads.bin [of Py_pow 7 8 6 pf s d t e] assms by simp
  then have "py_reads pf 0 (s @ '' ** '' @ t) (Py_bin d Py_pow e)" by (rule py_reads_down) simp
  from py_reads.paren [OF this] show "py_reads pf 8 (''('' @ s @ '' ** '' @ t @ '')'') (Py_bin d Py_pow e)" by simp
  have "py_reads pf 6 (s @ '' ** '' @ t) (Py_bin d Py_pow e)" using p by (rule py_reads_down) simp
  from py_reads.neg [OF this] have "py_reads pf 0 (CHR ''-'' # s @ '' ** '' @ t) (Py_neg (Py_bin d Py_pow e))"
    by (rule py_reads_down) simp
  from py_reads.paren [OF this] show "py_reads pf 8 (''(-'' @ s @ '' ** '' @ t @ '')'') (Py_neg (Py_bin d Py_pow e))"
    by simp
qed

text \<open>A printed tree is an atom, a negative number the sign of one.\<close>

definition reads_as :: "py_impl \<Rightarrow> bool \<Rightarrow> string \<Rightarrow> py_expr \<Rightarrow> bool" where
  "reads_as pf neg s e \<longleftrightarrow>
     (if neg then \<exists>u d. s = CHR ''-'' # u \<and> e = Py_neg d \<and> py_reads pf 8 u d else py_reads pf 8 s e)"

lemma reads_as_factor: "reads_as pf neg s e \<Longrightarrow> py_reads pf 6 s e"
proof -
  have 6: "py_reads pf 8 u d \<Longrightarrow> py_reads pf 6 u d" for u d
    by (erule py_reads_down) (simp only: numeral_le_iff semiring_norm)
  show "reads_as pf neg s e \<Longrightarrow> py_reads pf 6 s e"
    by (auto simp: reads_as_def intro: py_reads.neg 6 split: if_splits)
qed

lemma py_str_int_neg: "i < 0 \<Longrightarrow> py_str_int i = CHR ''-'' # py_str_int (- i)"
  by (simp add: py_str_int_def digits_str_def)

lemma source_reads:
  assumes "float_laws pf"
  shows "to_python_source pf t = Inr s \<Longrightarrow> reads_as pf (neg_literal t) s (py_tree t)"
proof (induction t arbitrary: s)
  case (RNum n)
  show ?case
  proof (cases n)
    case (NInt i)
    have "i < 0 \<Longrightarrow> py_reads pf 8 (py_str_int (- i)) (Py_int (- i))" "\<not> i < 0 \<Longrightarrow> py_reads pf 8 (py_str_int i) (Py_int i)"
      by (simp_all add: py_reads.int)
    then show ?thesis using NInt RNum py_str_int_neg [of i] by (cases "i < 0") (auto simp: reads_as_def)
  next
    case (NFlt x)
    have "x < 0 \<Longrightarrow> py_reads pf 8 (pf_str pf (- x)) (Py_float (- x))" "\<not> x < 0 \<Longrightarrow> py_reads pf 8 (pf_str pf x) (Py_float x)"
      by (simp_all add: py_reads.float)
    moreover have "x < 0 \<Longrightarrow> pf_str pf x = CHR ''-'' # pf_str pf (- x)" using assms by (simp add: float_laws_def)
    ultimately show ?thesis using NFlt RNum by (cases "x < 0") (force simp: reads_as_def)+
  qed (use RNum in simp)
next
  case (ROp l op r)
  obtain u v where u: "to_python_source pf l = Inr u" and v: "to_python_source pf r = Inr v"
    using ROp.prems by (auto simp: rbind_Inr_iff split: if_splits)
  note l = ROp.IH(1) [OF u] and r = reads_as_factor [OF ROp.IH(2) [OF v]]
  show ?case
  proof (cases "op = Op_power")
    case True
    then have s: "s = ''('' @ u @ '' ** '' @ v @ '')''" using ROp.prems u v by simp
    show ?thesis
    proof (cases "neg_literal l")
      case True
      then obtain w d where "u = CHR ''-'' # w" "py_tree l = Py_neg d" "py_reads pf 8 w d" using l by (auto simp: reads_as_def)
      then show ?thesis using reads_paren_pow(2) [OF _ r] True s \<open>op = Op_power\<close> by (simp add: reads_as_def)
    next
      case False
      then show ?thesis using reads_paren_pow(1) [OF _ r] l s \<open>op = Op_power\<close> by (simp add: reads_as_def)
    qed
  next
    case False
    define o_p where "o_p = (if op = Op_div \<and> contains_float_value (ROp l op r) then Py_truediv else py_op_of op)"
    have "o_p \<noteq> Py_pow" using False by (cases op) (auto simp: o_p_def)
    then have "py_reads pf 8 (''('' @ u @ '' '' @ py_op_str o_p @ '' '' @ v @ '')'') (Py_bin (py_tree l) o_p (py_tree r))"
      by (rule reads_paren_bin [OF reads_as_factor [OF l] r])
    moreover have "s = ''('' @ u @ '' '' @ py_op_str o_p @ '' '' @ v @ '')''"
      using ROp.prems u v by (auto simp: o_p_def py_op_str_of split: if_splits)
    moreover have "py_tree (ROp l op r) = Py_bin (py_tree l) o_p (py_tree r)" using False by (simp add: o_p_def)
    ultimately show ?thesis by (simp add: reads_as_def)
  qed
next
  case (RNot l)
  obtain u where u: "to_python_source pf l = Inr u" "s = ''(not '' @ u @ '')''"
    using RNot.prems by (auto simp: rbind_Inr_iff)
  have "py_reads pf 2 u (py_tree l)" using reads_as_factor [OF RNot.IH [OF u(1)]] by (rule py_reads_down) simp
  from py_reads.logic_not [OF this] have "py_reads pf 0 (''not '' @ u) (Py_not (py_tree l))" by (rule py_reads_down) simp
  from py_reads.paren [OF this] show ?case using u by (simp add: reads_as_def)
next
  case (RFun f ps)
  obtain args where args: "rmapM (\<lambda>p. to_python_source pf p) ps = Inr args"
    "s = ''skmap.recipe_functions.'' @ built_in_name f @ ''('' @ str_join '', '' args @ '')''"
    using RFun.prems by (auto simp: rbind_Inr_iff)
  have "py_reads pf 0 (args ! i) (py_tree (ps ! i))" if "i < length ps" for i
  proof -
    have "to_python_source pf (ps ! i) = Inr (args ! i)" using rmapM_Inr_nth [OF args(1) that] .
    then have "reads_as pf (neg_literal (ps ! i)) (args ! i) (py_tree (ps ! i))" using RFun.IH that by simp
    then show ?thesis using reads_as_factor py_reads_down by blast
  qed
  then have "list_all2 (py_reads pf 0) args (map py_tree ps)"
    using rmapM_Inr_length [OF args(1)] by (simp add: list_all2_conv_all_nth)
  from py_reads.call [OF this, of f] show ?case using args(2) by (simp add: reads_as_def)
next
  case (RIpkg nm v)
  then show ?case using py_reads.self [of pf nm] by (simp add: reads_as_def)
next
  case (RK nm)
  then show ?case using py_reads.self [of pf nm] by (simp add: reads_as_def)
qed (auto simp: reads_as_def intro: py_reads.intros)

section \<open>The value of the printed text\<close>

text \<open>The tree with the values the generated module has at run time: its constants and the parameter.\<close>

fun at_run_time :: "(string \<Rightarrow> rnum) \<Rightarrow> (string \<Rightarrow> rnum) \<Rightarrow> resolvable \<Rightarrow> resolvable" where
  "at_run_time kv pv (RK nm) = RNum (kv nm)"
| "at_run_time kv pv (RParam nm t) = RNum (pv nm)"
| "at_run_time kv pv (ROp l op r) = ROp (at_run_time kv pv l) op (at_run_time kv pv r)"
| "at_run_time kv pv (RNot l) = RNot (at_run_time kv pv l)"
| "at_run_time kv pv (RFun f ps) = RFun f (map (\<lambda>p. at_run_time kv pv p) ps)"
| "at_run_time kv pv t = t"

fun is_logic :: "resolvable \<Rightarrow> bool" where
  "is_logic (ROp l op r) = (op \<in> {Op_land, Op_lor})"
| "is_logic _ = False"

text \<open>
  The trees whose text means what the tree does: no division, no power of a negative literal, no
  \<^verbatim>\<open>&&\<close> or \<^verbatim>\<open>||\<close> used as a number, no \<^verbatim>\<open>$clog2\<close>. The other forms are treated below.
\<close>

fun plain :: "resolvable \<Rightarrow> bool" where
  "plain (RNum n) = (case n of NFrac q \<Rightarrow> False | _ \<Rightarrow> True)"
| "plain (RStr s) = False"
| "plain (ROp l op r) =
     (op \<noteq> Op_div \<and> \<not> (op = Op_power \<and> neg_literal l) \<and> (op \<in> {Op_land, Op_lor} \<or> \<not> is_logic l \<and> \<not> is_logic r) \<and>
      plain l \<and> plain r)"
| "plain (RNot l) = plain l"
| "plain (RFun f ps) =
     (f \<noteq> Fn_clog2 \<and> length ps = built_in_parameters f \<and> list_all (\<lambda>p. \<not> is_logic p) ps \<and> list_all (\<lambda>p. plain p) ps)"
| "plain _ = True"

text \<open>What the attributes of the module give: the constants their value, the ipkg values theirs.\<close>

fun attrs_ok :: "py_impl \<Rightarrow> (string \<Rightarrow> rnum) \<Rightarrow> (string \<Rightarrow> rnum res) \<Rightarrow> resolvable \<Rightarrow> bool" where
  "attrs_ok pf kv self_v (RK nm) = (self_v nm = Inr (kv nm))"
| "attrs_ok pf kv self_v (RIpkg nm v) = (self_v nm = resolvable_to_int pf v)"
| "attrs_ok pf kv self_v (ROp l op r) = (attrs_ok pf kv self_v l \<and> attrs_ok pf kv self_v r)"
| "attrs_ok pf kv self_v (RNot l) = attrs_ok pf kv self_v l"
| "attrs_ok pf kv self_v (RFun f ps) = list_all (\<lambda>p. attrs_ok pf kv self_v p) ps"
| "attrs_ok pf kv self_v _ = True"

lemma num_neg_neg [simp]: "num_neg (num_neg n) = n"
  by (cases n) simp_all

lemma cdiv_sides:
  assumes "float_laws pf"
  shows "recipe_ceil_div pf a b = fn_cdiv pf a b"
proof -
  have neg: "to_flt pf (num_neg n) = - to_flt pf n" "is_flt (num_neg n) = is_flt n" for n
    using assms by (cases n; simp add: to_flt_def float_laws_def)+
  have "num_floordiv pf (num_neg a) b = num_floordiv pf a (num_neg b)"
  proof (cases "is_flt a \<or> is_flt b")
    case True
    then show ?thesis by (simp add: num_floordiv_def neg)
  next
    case False
    then show ?thesis by (cases a; cases b) (auto simp: num_floordiv_def div_minus_right)
  qed
  then show ?thesis by (simp add: recipe_ceil_div_def fn_cdiv_def)
qed

lemma arg_at_simps [simp]: "arg_at [x] 0 = Inr x" "arg_at [x, y] 0 = Inr x" "arg_at [x, y] (Suc 0) = Inr y"
  by (simp_all add: arg_at_def py_index_def)

lemma py_fn_value:
  assumes "float_laws pf" and "length args = built_in_parameters f" and "f \<noteq> Fn_clog2"
  shows "py_fn pf f args = eval_built_in pf f args"
proof -
  have r: "rbind (round_to_int pf a) (\<lambda>i. Inr (NInt i)) = fn_round pf a" for a
    by (cases a) (simp_all add: fn_round_def round_to_int_def)
  show ?thesis
  proof (cases "f = Fn_cdiv")
    case True
    then obtain x y where "args = [x, y]" using assms(2) by (auto simp: numeral_2_eq_2 length_Suc_conv)
    then show ?thesis using True cdiv_sides [OF assms(1)] by (simp add: py_fn_def eval_built_in_def)
  next
    case False
    then obtain x where "args = [x]" using assms(2,3) by (cases f) (auto simp: length_Suc_conv)
    then show ?thesis using False assms(3) r
      by (cases f) (simp_all add: py_fn_def eval_built_in_def fn_ceil_def fn_floor_def fn_float_def)
  qed
qed

lemma py_arith_value:
  "op \<noteq> Op_div \<Longrightarrow> op \<noteq> Op_land \<Longrightarrow> op \<noteq> Op_lor \<Longrightarrow> py_arith pf (py_op_of op) a b = eval_op pf op a b"
  by (cases op) (simp_all add: py_arith_def eval_op_def)

lemma pow_tree_False [simp]: "pow_tree False d e = Py_bin d Py_pow e"
  by (cases d) simp_all

abbreviation same_truth :: "rnum \<Rightarrow> rnum \<Rightarrow> bool" where
  "same_truth m n \<equiv> (num_val m = 0 \<longleftrightarrow> num_val n = 0)"

lemma source_value:
  assumes laws: "float_laws pf" and args: "\<And>nm. arg_v nm = Inr (pv nm)"
  shows "plain t \<Longrightarrow> attrs_ok pf kv self_v t \<Longrightarrow> resolvable_to_int pf (at_run_time kv pv t) = Inr n \<Longrightarrow>
    \<exists>m. py_eval pf self_v arg_v (py_tree t) = Inr m \<and> same_truth m n \<and> (\<not> is_logic t \<longrightarrow> m = n)"
proof (induction t arbitrary: n)
  case (ROp l op r)
  obtain a b where a: "resolvable_to_int pf (at_run_time kv pv l) = Inr a"
    and b: "resolvable_to_int pf (at_run_time kv pv r) = Inr b" and n: "eval_op pf op a b = Inr n"
    using ROp.prems(3) by (auto simp: rbind_Inr_iff)
  obtain c where c: "py_eval pf self_v arg_v (py_tree l) = Inr c" "same_truth c a" "\<not> is_logic l \<longrightarrow> c = a"
    using ROp.IH(1) [OF _ _ a] ROp.prems(1,2) by auto
  obtain d where d: "py_eval pf self_v arg_v (py_tree r) = Inr d" "same_truth d b" "\<not> is_logic r \<longrightarrow> d = b"
    using ROp.IH(2) [OF _ _ b] ROp.prems(1,2) by auto
  show ?case
  proof (cases "op \<in> {Op_land, Op_lor}")
    case True
    then show ?thesis using c d n by (auto simp: eval_op_def py_arith_def num_bool_def)
  next
    case False
    then have "c = a" "d = b" using ROp.prems(1) c d by auto
    moreover have "py_tree (ROp l op r) = Py_bin (py_tree l) (py_op_of op) (py_tree r)"
      using ROp.prems(1) False by (cases "op = Op_power") auto
    moreover have "py_op_of op \<noteq> Py_and" "py_op_of op \<noteq> Py_or" using False by (cases op; simp)+
    ultimately show ?thesis using c d n False ROp.prems(1) py_arith_value [of op pf a b] by auto
  qed
next
  case (RFun f ps)
  obtain as where as: "rmapM (\<lambda>p. resolvable_to_int pf p) (map (\<lambda>p. at_run_time kv pv p) ps) = Inr as"
    and n: "eval_built_in pf f as = Inr n"
    using RFun.prems(3) by (auto simp: rbind_Inr_iff)
  have len: "length as = length ps" using rmapM_Inr_length [OF as] by simp
  have "py_eval pf self_v arg_v (py_tree (ps ! i)) = Inr (as ! i)" if i: "i < length ps" for i
  proof -
    have p: "ps ! i \<in> set ps" using i by simp
    have "resolvable_to_int pf (at_run_time kv pv (ps ! i)) = Inr (as ! i)"
      using rmapM_Inr_nth [OF as, of i] i by simp
    then show ?thesis using RFun.IH [OF p] RFun.prems(1,2) p by (force simp: list_all_iff)
  qed
  then have "rmapM (\<lambda>e. py_eval pf self_v arg_v e) (map py_tree ps) = Inr as"
    using len
  proof (induction ps arbitrary: as)
    case (Cons p ps)
    then obtain x xs where "as = x # xs" by (cases as) auto
    then show ?case using Cons.IH [of xs] Cons.prems by force
  qed simp
  moreover have "py_fn pf f as = eval_built_in pf f as"
    using py_fn_value [OF laws] RFun.prems(1) len by simp
  ultimately show ?case using n by simp
next
  case (RNum m)
  then show ?case by (cases m) auto
qed (use args in \<open>auto simp: rbind_Inr_iff num_bool_def\<close>)

section \<open>Properties\<close>


text \<open>A Python whose floats print with their sign\<close>

definition signed_pf :: py_impl where
  "signed_pf = \<lparr>pf_round = id, pf_str = (\<lambda>x. if x < 0 then CHR ''-'' # frac_str (- x) else frac_str x), pf_ass_str = ass_str,
     pf_pow = (\<lambda>_ _. Inl ValueError)\<rparr>"


text \<open>
  The recipe divides two ints upwards, the Python generated for the same expression downwards: they
  agree exactly when the division has no remainder. So a length or a bit that is written with a \<^verbatim>\<open>/\<close> has
  one value in the checksum and another in the generated module.
\<close>

theorem generated_division_floors:
  assumes "float_laws pf" and "plain l" and "plain r" and "\<not> is_logic l" and "\<not> is_logic r"
    and "attrs_ok pf kv self_v (ROp l Op_div r)" and "\<not> contains_float_value (ROp l Op_div r)"
    and "\<forall>nm. arg_v nm = Inr (pv nm)" and "j \<noteq> 0"
    and "resolvable_to_int pf (at_run_time kv pv l) = Inr (NInt i)"
    and "resolvable_to_int pf (at_run_time kv pv r) = Inr (NInt j)"
    and "to_python_source pf (ROp l Op_div r) = Inr s"
  shows "\<exists>e a b. py_reads pf 0 s e \<and> py_eval pf self_v arg_v e = Inr (NInt a) \<and>
    resolvable_to_int pf (at_run_time kv pv (ROp l Op_div r)) = Inr (NInt b) \<and> (a = b \<longleftrightarrow> j dvd i)"
proof -
  have l: "py_eval pf self_v arg_v (py_tree l) = Inr (NInt i)"
    using source_value [OF assms(1) _ assms(2) _ assms(10), of arg_v self_v] assms by auto
  have r: "py_eval pf self_v arg_v (py_tree r) = Inr (NInt j)"
    using source_value [OF assms(1) _ assms(3) _ assms(11), of arg_v self_v] assms by auto
  have "py_eval pf self_v arg_v (py_tree (ROp l Op_div r)) = Inr (NInt (i div j))"
    using l r assms(7,9) by (simp add: py_arith_def num_floordiv_int)
  moreover have "resolvable_to_int pf (at_run_time kv pv (ROp l Op_div r)) = Inr (NInt (- (- i div j)))"
    using assms(9-11) by (simp add: eval_op_def recipe_div_def recipe_ceil_div_def num_floordiv_int)
  moreover have "i div j = - (- i div j) \<longleftrightarrow> j dvd i"
    using assms(9) by (simp add: zdiv_zminus1_eq_if dvd_eq_mod_eq_0)
  moreover have "py_reads pf 0 s (py_tree (ROp l Op_div r))"
    using reads_as_factor [OF source_reads [OF assms(1,12)]] by (rule py_reads_down) simp
  ultimately show ?thesis by blast
qed

theorem generated_division_floors_witness:
  "\<exists>e. py_reads signed_pf 0 ''(self.N // 2)'' e \<and> py_eval signed_pf (\<lambda>_. Inr (NInt 7)) (\<lambda>_. Inr (NInt 0)) e = Inr (NInt 3) \<and>
     resolvable_to_int signed_pf (ROp (RIpkg ''N'' (RNum (NInt 7))) Op_div (RNum (NInt 2))) = Inr (NInt 4)"
proof -
  let ?l = "RIpkg ''N'' (RNum (NInt 7))" and ?r = "RNum (NInt 2)"
  have s: "to_python_source signed_pf (ROp ?l Op_div ?r) = Inr ''(self.N // 2)''" by code_simp
  have laws: "float_laws signed_pf" by (auto simp: float_laws_def signed_pf_def)
  obtain e a b where e: "py_reads signed_pf 0 ''(self.N // 2)'' e"
    "py_eval signed_pf (\<lambda>_. Inr (NInt 7)) (\<lambda>_. Inr (NInt 0)) e = Inr (NInt a)"
    "resolvable_to_int signed_pf (at_run_time (\<lambda>_. NInt 0) (\<lambda>_. NInt 0) (ROp ?l Op_div ?r)) = Inr (NInt b)"
    and ab: "a = b \<longleftrightarrow> (2::int) dvd 7"
    using generated_division_floors [OF laws, of ?l ?r "\<lambda>_. NInt 0" "\<lambda>_. Inr (NInt 7)" "\<lambda>_. Inr (NInt 0)" "\<lambda>_. NInt 0" 2 7, OF _ _ _ _ _ _ _ _ _ _ s]
    by auto
  have "b = 4" using e(3) by (simp add: eval_op_def recipe_div_def recipe_ceil_div_def num_floordiv_int)
  have "py_eval signed_pf (\<lambda>_. Inr (NInt 7)) (\<lambda>_. Inr (NInt 0)) (py_tree (ROp ?l Op_div ?r)) = Inr (NInt 3)"
    by (simp add: py_arith_def num_floordiv_int)
  moreover have "py_reads signed_pf 0 ''(self.N // 2)'' (py_tree (ROp ?l Op_div ?r))"
    using reads_as_factor [OF source_reads [OF laws s]] by (rule py_reads_down) simp
  ultimately show ?thesis using e(3) \<open>b = 4\<close> by auto
qed

text \<open>
  A power of a negative literal: the recipe raises the negative number, the generated text reads as the
  negative of the power, which is another value for every even exponent.
\<close>

theorem generated_negative_power:
  assumes "0 < i" and "0 \<le> k"
  shows "\<exists>s e. to_python_source pf (ROp (RNum (NInt (- i))) Op_power (RK nm)) = Inr s \<and> py_reads pf 0 s e \<and>
    py_eval pf (\<lambda>_. Inr (NInt k)) arg_v e = Inr (NInt (- (i ^ nat k))) \<and>
    resolvable_to_int pf (ROp (RNum (NInt (- i))) Op_power (RNum (NInt k))) = Inr (NInt ((- i) ^ nat k)) \<and>
    (- (i ^ nat k) = (- i) ^ nat k \<longleftrightarrow> odd k)"
proof -
  let ?s = "''(-'' @ py_str_int i @ '' ** '' @ ''self.'' @ nm @ '')''"
  let ?e = "Py_neg (Py_bin (Py_int i) Py_pow (Py_self nm))"
  have i: "py_reads pf 8 (py_str_int i) (Py_int i)" using assms(1) by (simp add: py_reads.int)
  have "py_reads pf 6 (''self.'' @ nm) (Py_self nm)" using py_reads.self by (rule py_reads_down) simp
  from reads_paren_pow(2) [OF i this] have "py_reads pf 8 ?s ?e" by simp
  then have r: "py_reads pf 0 ?s ?e" by (rule py_reads_down) simp
  have t: "to_python_source pf (ROp (RNum (NInt (- i))) Op_power (RK nm)) = Inr ?s"
    using assms(1) py_str_int_neg [of "- i"] by simp
  have "0 < i ^ nat k" using assms(1) by simp
  then have "- (i ^ nat k) = (- i) ^ nat k \<longleftrightarrow> odd (nat k)" using assms(1) by (cases "odd (nat k)") (auto simp: power_minus_odd)
  moreover have "odd (nat k) \<longleftrightarrow> odd k" using assms(2) by (simp add: even_nat_iff)
  ultimately show ?thesis using r t assms by (auto simp: py_arith_def num_pow_def eval_op_def)
qed

theorem generated_negative_power_witness:
  "\<exists>e. py_reads signed_pf 0 ''(-2 ** self.E)'' e \<and>
     py_eval signed_pf (\<lambda>_. Inr (NInt 2)) (\<lambda>_. Inr (NInt 0)) e = Inr (NInt (- 4)) \<and>
     resolvable_to_int signed_pf (ROp (RNum (NInt (- 2))) Op_power (RNum (NInt 2))) = Inr (NInt 4)"
proof -
  have "to_python_source signed_pf (ROp (RNum (NInt (- 2))) Op_power (RK ''E'')) = Inr ''(-2 ** self.E)''" by code_simp
  then show ?thesis using generated_negative_power [of 2 2 signed_pf "''E''" "\<lambda>_. Inr (NInt 0)"] by auto
qed

text \<open>
  VHDL has the text of a tree exactly when the tree uses the arithmetic of a type: names, ints and the
  operators \<open>+ - * / **\<close>. A comparison, a remainder or a logical operator raises, and so does a float.
\<close>

fun vhdl_tree :: "resolvable \<Rightarrow> bool" where
  "vhdl_tree (RNum (NInt i)) = True"
| "vhdl_tree (RNum n) = False"
| "vhdl_tree (ROp l op r) = (op \<in> {Op_add, Op_sub, Op_mult, Op_div, Op_power} \<and> vhdl_tree l \<and> vhdl_tree r)"
| "vhdl_tree (RNot l) = False"
| "vhdl_tree (RStr s) = False"
| "vhdl_tree (RFun f ps) = list_all (\<lambda>p. vhdl_tree p) ps"
| "vhdl_tree _ = True"

lemma rmapM_ok_iff: "(\<exists>ys. rmapM f xs = Inr ys) \<longleftrightarrow> (\<forall>x \<in> set xs. \<exists>y. f x = Inr y)"
  by (induction xs) (auto simp: rbind_Inr_iff)

theorem vhdl_source_defined:
  "(\<exists>s. to_vhdl_source t = Inr s) \<longleftrightarrow> vhdl_tree t"
proof (induction t)
  case (RNum n)
  show ?case by (cases n) auto
next
  case (ROp l op r)
  then show ?case by (cases op) (auto simp: rbind_Inr_iff op_to_vhdl_source_def)
next
  case (RFun f ps)
  then have "(\<exists>args. rmapM (\<lambda>p. to_vhdl_source p) ps = Inr args) \<longleftrightarrow> list_all vhdl_tree ps"
    by (simp add: rmapM_ok_iff list_all_iff)
  then show ?case by (auto simp: rbind_Inr_iff)
qed (auto simp: rbind_Inr_iff)

text \<open>
  Python and C++ have a text for every tree the parser makes; the two fail only for a leaf that is a
  text (Python) or a fraction, which the derivation of a conversion resolves.
\<close>

fun has_leaf :: "(resolvable \<Rightarrow> bool) \<Rightarrow> resolvable \<Rightarrow> bool" where
  "has_leaf p (ROp l op r) = (has_leaf p l \<or> has_leaf p r)"
| "has_leaf p (RNot l) = has_leaf p l"
| "has_leaf p (RFun f ps) = list_ex (\<lambda>q. has_leaf p q) ps"
| "has_leaf p t = p t"

definition is_frac :: "resolvable \<Rightarrow> bool" where
  "is_frac t = (case t of RNum (NFrac q) \<Rightarrow> True | _ \<Rightarrow> False)"

definition is_text :: "resolvable \<Rightarrow> bool" where
  "is_text t = (case t of RStr s \<Rightarrow> True | _ \<Rightarrow> False)"

theorem sources_defined:
  "((\<exists>s. to_cpp_source pf t = Inr s) \<longleftrightarrow> \<not> has_leaf is_frac t) \<and>
   ((\<exists>s. to_python_source pf t = Inr s) \<longleftrightarrow> \<not> has_leaf (\<lambda>u. is_frac u \<or> is_text u) t)"
proof (induction t)
  case (RNum n)
  show ?case by (cases n) (auto simp: is_frac_def is_text_def)
next
  case (RFun f ps)
  have "(\<exists>args. rmapM (\<lambda>p. to_cpp_source pf p) ps = Inr args) \<longleftrightarrow> \<not> list_ex (has_leaf is_frac) ps"
    "(\<exists>args. rmapM (\<lambda>p. to_python_source pf p) ps = Inr args) \<longleftrightarrow> \<not> list_ex (has_leaf (\<lambda>u. is_frac u \<or> is_text u)) ps"
    using RFun by (auto simp: rmapM_ok_iff list_ex_iff)
  then show ?case by (auto simp: rbind_Inr_iff)
next
  case (ROp l op r)
  have "(\<exists>s. to_cpp_source pf (ROp l op r) = Inr s) \<longleftrightarrow> (\<exists>s. to_cpp_source pf l = Inr s) \<and> (\<exists>s. to_cpp_source pf r = Inr s)"
    by (cases "to_cpp_source pf l"; cases "to_cpp_source pf r"; simp)
  moreover have "(\<exists>s. to_python_source pf (ROp l op r) = Inr s) \<longleftrightarrow>
      (\<exists>s. to_python_source pf l = Inr s) \<and> (\<exists>s. to_python_source pf r = Inr s)"
    by (cases "to_python_source pf l"; cases "to_python_source pf r"; simp)
  ultimately show ?case using ROp.IH by simp
qed (auto simp: rbind_Inr_iff is_frac_def is_text_def)

end
