(* ===== verification/GenPy.thy ===== *)
theory GenPy
  imports Recipe GenExpr
begin

text \<open>
  The Python generated from a recipe: \<^verbatim>\<open>pip/skmap/src/skmap/code_generator_py.py\<close> and the names of
  \<^verbatim>\<open>code_generator_sw_common.py\<close>. The methods of the generated class are values of \<open>py_method\<close>, whose
  text \<open>method_lines\<close> gives; the module is the list of its lines. So the properties can speak about the
  methods of the class and about the calls they make.

  Writing the file is not modelled; the resolved path of the recipe file is an argument.
\<close>

section \<open>Texts of values\<close>

text \<open>\<^verbatim>\<open>repr\<close> of a text of 8-bit characters\<close>

definition repr_char :: "char \<Rightarrow> char \<Rightarrow> string" where
  "repr_char quote c =
     (let n = of_char c :: nat in
      if c = quote \<or> n = 92 then [CHR 0x5C, c]
      else if n = 10 then [CHR 0x5C, CHR ''n''] else if n = 13 then [CHR 0x5C, CHR ''r'']
      else if n = 9 then [CHR 0x5C, CHR ''t'']
      else if n < 32 \<or> 127 \<le> n \<and> n \<le> 160 \<or> n = 173 then CHR 0x5C # CHR ''x'' # py_fmt0 16 False 2 (int n)
      else [c])"

definition py_repr_str :: "string \<Rightarrow> string" where
  "py_repr_str s =
     (let quote = (if CHR 0x27 \<in> set s \<and> CHR 0x22 \<notin> set s then CHR 0x22 else CHR 0x27)
      in quote # concat (map (repr_char quote) s) @ [quote])"

fun toml_repr :: "py_impl \<Rightarrow> toml \<Rightarrow> string" where
  "toml_repr pf (TInt i) = py_str_int i"
| "toml_repr pf (TBool b) = py_str_bool b"
| "toml_repr pf (TFloat x) = pf_str pf x"
| "toml_repr pf (TStr s) = py_repr_str s"
| "toml_repr pf (TList xs) = ''['' @ str_join '', '' (map (\<lambda>x. toml_repr pf x) xs) @ '']''"
| "toml_repr pf (TDict kvs) =
     CHR 0x7B # str_join '', '' (map (\<lambda>(k, v). py_repr_str k @ '': '' @ toml_repr pf v) kvs) @ [CHR 0x7D]"

definition toml_str :: "py_impl \<Rightarrow> toml \<Rightarrow> string" where
  "toml_str pf v = (case v of TStr s \<Rightarrow> s | _ \<Rightarrow> toml_repr pf v)"

definition squoted :: "string \<Rightarrow> string" where
  "squoted s = CHR 0x27 # s @ [CHR 0x27]"

definition dquoted :: "string \<Rightarrow> string" where
  "dquoted s = CHR 0x22 # s @ [CHR 0x22]"

section \<open>Names\<close>

definition name_to_reg_k :: "string \<Rightarrow> string" where "name_to_reg_k nm = ''self._k_'' @ nm"
definition name_to_reg_var :: "string \<Rightarrow> string" where "name_to_reg_var nm = ''self._var_'' @ nm"
definition name_to_ext_mem :: "string \<Rightarrow> string" where "name_to_ext_mem nm = ''self._mem_'' @ nm"

text \<open>A register is a constant or a variable one, \<open>is_k\<close> tells which class its object has.\<close>

definition reg_to_inst_str :: "bool \<Rightarrow> string \<Rightarrow> string" where
  "reg_to_inst_str is_k nm = (if is_k then name_to_reg_k nm else name_to_reg_var nm)"

definition rt_is_vec :: "recipe_type \<Rightarrow> bool" where
  "rt_is_vec t \<longleftrightarrow> rt_vec_len t \<noteq> None"

text \<open>\<^verbatim>\<open>t.elem_w == 1\<close>\<close>

definition elem_w_is_1 :: "recipe_type \<Rightarrow> bool" where
  "elem_w_is_1 t =
     (case rt_width t of Some (RNum n) \<Rightarrow> num_val n = 1 | Some (RBool b) \<Rightarrow> b | _ \<Rightarrow> False)"

definition value_kind_function_str :: "recipe_type \<Rightarrow> string res" where
  "value_kind_function_str t =
     (case rt_kind t of
        VK_uint \<Rightarrow> Inr ''uint''
      | VK_sint \<Rightarrow> Inr ''sint''
      | VK_bits \<Rightarrow> Inr ''uint''
      | VK_flag \<Rightarrow> Inr (if elem_w_is_1 t then ''bool'' else ''uint'')
      | VK_char \<Rightarrow> Inl AssertionError)"

datatype sw = Sw_py | Sw_cpp

definition value_type_function_str :: "recipe_type \<Rightarrow> sw \<Rightarrow> string res" where
  "value_type_function_str t s =
     (if rt_kind t = VK_char then Inr (if rt_is_vec t then ''str'' else ''char'')
      else rbind (value_kind_function_str t) (\<lambda>k.
        Inr ((if rt_is_vec t then (case s of Sw_py \<Rightarrow> ''list'' | Sw_cpp \<Rightarrow> ''vec'') @ ''_'' else '''') @ k)))"

definition read_value_function_str :: "recipe_type \<Rightarrow> bool \<Rightarrow> sw \<Rightarrow> string res" where
  "read_value_function_str t cached s =
     rbind (value_type_function_str t s) (\<lambda>f. Inr (''read_'' @ f @ (if cached then ''_cached'' else '''')))"

definition write_value_function_str :: "recipe_type \<Rightarrow> bool \<Rightarrow> sw \<Rightarrow> string res" where
  "write_value_function_str t cached s =
     rbind (value_type_function_str t s) (\<lambda>f. Inr (''write_'' @ f @ (if cached then ''_cached'' else '''')))"

section \<open>Types in the text\<close>

definition py_value_type_str :: "py_impl \<Rightarrow> recipe_type \<Rightarrow> string res" where
  "py_value_type_str pf t =
     (case rt_width t of
        None \<Rightarrow> Inl AssertionError
      | Some w \<Rightarrow>
          rbind (to_python_source pf w) (\<lambda>w.
          rbind (case rt_vec_len t of
                   None \<Rightarrow> Inr ''''
                 | Some n \<Rightarrow> rbind (to_python_source pf n) (\<lambda>n. Inr ('', vec_len='' @ n))) (\<lambda>vec_len.
            Inr (''skmap.ValueType(kind=skmap.ValueKind.'' @ value_kind_str (rt_kind t) @ '', width='' @ w @ vec_len @ '')''))))"

definition value_ret_type_str :: "recipe_type \<Rightarrow> string" where
  "value_ret_type_str t =
     (if rt_kind t = VK_char then ''str''
      else let rt = (if rt_kind t = VK_flag \<and> elem_w_is_1 t then ''bool'' else ''int'')
           in if rt_is_vec t then ''list['' @ rt @ '']'' else rt)"

definition has_v_convert_opt :: "'a recipe_k_scheme \<Rightarrow> bool" where
  "has_v_convert_opt r \<longleftrightarrow> vo_v_convert_wr (rr_opts r) \<noteq> None"

definition value_user_type_str_py :: "'a recipe_k_scheme \<Rightarrow> bool \<Rightarrow> string" where
  "value_user_type_str_py r ignore_vec =
     (let rt = (if v_type_is_float (vo_v_type (rr_opts r)) then ''float''
                else if rt_kind (rr_t r) = VK_flag \<and> elem_w_is_1 (rr_t r) then ''bool'' else ''int'')
      in if \<not> ignore_vec \<and> rt_is_vec (rr_t r) then ''list['' @ rt @ '']'' else rt)"

text \<open>\<^verbatim>\<open>{s!r}\<close> of an optional text\<close>

definition repr_opt :: "string option \<Rightarrow> string" where
  "repr_opt s = (case s of None \<Rightarrow> ''None'' | Some s \<Rightarrow> py_repr_str s)"

definition value_check_str_py :: "py_impl \<Rightarrow> 'a recipe_k_scheme \<Rightarrow> string res" where
  "value_check_str_py pf r =
     (case vo_v_check (rr_opts r) of
        None \<Rightarrow> Inr ''''
      | Some c \<Rightarrow> rbind (to_python_source pf c) (\<lambda>s.
          Inr ('', v_check=skmap.ValueCheck(lambda v: '' @ s @ '', '' @ repr_opt (vo_v_check_str (rr_opts r))
            @ '', skmap.VType.'' @ v_type_str (vo_v_type (rr_opts r)) @ '')'')))"

definition value_convert_str_py :: "py_impl \<Rightarrow> 'a recipe_k_scheme \<Rightarrow> string res" where
  "value_convert_str_py pf r =
     (case (vo_v_convert_wr (rr_opts r), vo_v_convert_rd (rr_opts r)) of
        (None, _) \<Rightarrow> Inr ''''
      | (Some wr, None) \<Rightarrow> Inl TypeError
      | (Some wr, Some rd) \<Rightarrow>
          rbind (to_python_source pf wr) (\<lambda>s. rbind (to_python_source pf rd) (\<lambda>t.
            Inr ('', v_convert=skmap.ValueConvert(lambda v: '' @ s @ '', lambda v: '' @ t @ '', ''
              @ repr_opt (vo_v_convert_wr_str (rr_opts r)) @ '', '' @ repr_opt (vo_v_convert_rd_str (rr_opts r))
              @ '', skmap.VType.'' @ v_type_str (vo_v_type (rr_opts r)) @ ''), v_type=skmap.VType.''
              @ v_type_str (vo_v_type (rr_opts r))))))"

section \<open>Methods\<close>

datatype py_stmt =
    Return_call string string string
  | Return_await string string string
  | Do_call string string string
  | Do_await string string string
  | Val_await string string
  | If_clear string
  | Return_text string
  | Raw string

fun stmt_lines :: "py_stmt \<Rightarrow> string list" where
  "stmt_lines (Return_call inst func args) = [''        return '' @ inst @ ''.'' @ func @ ''('' @ args @ '')'']"
| "stmt_lines (Return_await inst func args) = [''        return await '' @ inst @ ''.'' @ func @ ''('' @ args @ '')'']"
| "stmt_lines (Do_call inst func args) = [''        '' @ inst @ ''.'' @ func @ ''('' @ args @ '')'']"
| "stmt_lines (Do_await inst func args) = [''        await '' @ inst @ ''.'' @ func @ ''('' @ args @ '')'']"
| "stmt_lines (Val_await inst func) = [''        val = await '' @ inst @ ''.'' @ func @ ''()'']"
| "stmt_lines (If_clear nm) = [''        if clear:'', ''            await self.'' @ nm @ ''_clear()'']"
| "stmt_lines (Return_text s) = [''        return '' @ s]"
| "stmt_lines (Raw s) = [s]"

record py_method =
  pm_property :: bool
  pm_async :: bool
  pm_name :: string
  pm_params :: string
  pm_ret :: string
  pm_body :: "py_stmt list"

definition method_lines :: "py_method \<Rightarrow> string list" where
  "method_lines m =
     (if pm_property m then [''    @property''] else []) @
     [''    '' @ (if pm_async m then ''async '' else '''') @ ''def '' @ pm_name m @ ''(self'' @ pm_params m @ '')'' @ pm_ret m @ '':''] @
     concat (map stmt_lines (pm_body m)) @ ['''']"

datatype class_item = Comment string | Method py_method

fun item_lines :: "class_item \<Rightarrow> string list" where
  "item_lines (Comment s) = [s]"
| "item_lines (Method m) = method_lines m"

fun item_methods :: "class_item list \<Rightarrow> py_method list" where
  "item_methods [] = []"
| "item_methods (Comment s # is) = item_methods is"
| "item_methods (Method m # is) = m # item_methods is"

definition plain_method :: "string \<Rightarrow> string \<Rightarrow> string \<Rightarrow> py_stmt list \<Rightarrow> class_item" where
  "plain_method nm params ret body =
     Method \<lparr>pm_property = False, pm_async = False, pm_name = nm, pm_params = params, pm_ret = ret, pm_body = body\<rparr>"

definition async_method :: "string \<Rightarrow> string \<Rightarrow> string \<Rightarrow> py_stmt list \<Rightarrow> class_item" where
  "async_method nm params ret body =
     Method \<lparr>pm_property = False, pm_async = True, pm_name = nm, pm_params = params, pm_ret = ret, pm_body = body\<rparr>"

definition property :: "string \<Rightarrow> string \<Rightarrow> py_stmt list \<Rightarrow> class_item" where
  "property nm ret body =
     Method \<lparr>pm_property = True, pm_async = False, pm_name = nm, pm_params = '''', pm_ret = ret, pm_body = body\<rparr>"

definition arrow :: "string \<Rightarrow> string" where
  "arrow t = '' -> '' @ t"

section \<open>The functions of a register\<close>

text \<open>\<^verbatim>\<open>is_vec_int\<close>\<close>

definition rt_is_vec_int :: "recipe_type \<Rightarrow> bool" where
  "rt_is_vec_int t \<longleftrightarrow> rt_vec_len t \<noteq> None \<and> rt_kind t \<in> {VK_uint, VK_sint, VK_bits}"

text \<open>The functions by index of the kinds of access; \<open>nm\<close> is the name, \<open>x\<close> the suffix of raw functions.\<close>

definition read_idx_items :: "string \<Rightarrow> string \<Rightarrow> string \<Rightarrow> string \<Rightarrow> class_item list" where
  "read_idx_items nm x inst kind =
     [plain_method (nm @ ''_read_idx_cached'' @ x) '', idx : int'' (arrow ''int'')
        [Return_call inst (''read_idx_'' @ kind @ ''_cached'') ''idx''],
      async_method (nm @ ''_read_idx'' @ x) '', idx : int'' (arrow ''int'')
        [Return_await inst (''read_idx_'' @ kind) ''idx'']]"

definition read_items :: "string \<Rightarrow> string \<Rightarrow> string \<Rightarrow> string \<Rightarrow> string \<Rightarrow> string \<Rightarrow> class_item list" where
  "read_items nm x inst t_str rd_c rd =
     [plain_method (nm @ ''_read_cached'' @ x) '''' (arrow t_str) [Return_call inst rd_c ''''],
      async_method (nm @ ''_read'' @ x) '''' (arrow t_str) [Return_await inst rd '''']]"

definition acc_items_rc :: "string \<Rightarrow> string \<Rightarrow> string \<Rightarrow> string \<Rightarrow> string \<Rightarrow> string \<Rightarrow> bool \<Rightarrow> string \<Rightarrow> class_item list" where
  "acc_items_rc nm x inst t_str rd_c rd is_vec_int kind =
     [plain_method (nm @ ''_read_cached'' @ x) '''' (arrow t_str) [Return_call inst rd_c ''''],
      async_method (nm @ ''_read'' @ x) '', clear : bool'' (arrow t_str) [Val_await inst rd, If_clear nm, Return_text ''val''],
      async_method (nm @ ''_clear'') '''' '''' [Do_await inst ''write_zero'' '''']] @
     (if is_vec_int then
        read_idx_items nm x inst kind @
        [async_method (nm @ ''_clear_idx'') '', idx : int'' '''' [Do_await inst (''write_idx_'' @ kind) ''idx, 0'']]
      else [])"

definition acc_items_rw :: "string \<Rightarrow> string \<Rightarrow> string \<Rightarrow> string \<Rightarrow> string \<Rightarrow> string \<Rightarrow> string \<Rightarrow> string \<Rightarrow> bool \<Rightarrow> string \<Rightarrow> class_item list" where
  "acc_items_rw nm x inst t_str rd_c rd wr_c wr is_vec_int kind =
     read_items nm x inst t_str rd_c rd @
     [plain_method (nm @ ''_write_cached'' @ x) ('', value : '' @ t_str) '''' [Do_call inst wr_c ''value''],
      async_method (nm @ ''_write'' @ x) ('', value : '' @ t_str) '''' [Do_await inst wr ''value'']] @
     (if is_vec_int then
        read_idx_items nm x inst kind @
        [plain_method (nm @ ''_write_idx_cached'' @ x) '', idx : int, val : int'' '''' [Do_call inst (''write_idx_'' @ kind @ ''_cached'') ''idx, val''],
         async_method (nm @ ''_write_idx'' @ x) '', idx : int, val : int'' '''' [Do_await inst (''write_idx_'' @ kind) ''idx, val'']]
      else [])"

definition acc_items_wt :: "string \<Rightarrow> string \<Rightarrow> string \<Rightarrow> string \<Rightarrow> string \<Rightarrow> string \<Rightarrow> string \<Rightarrow> string \<Rightarrow> bool \<Rightarrow> string \<Rightarrow> class_item list" where
  "acc_items_wt nm x inst t_str rd_c rd wr_c wr is_vec_int kind =
     read_items nm x inst t_str rd_c rd @
     (if \<not> is_vec_int then
        [plain_method (nm @ ''_write_cached'' @ x) ('', value : '' @ t_str) '''' [Do_call inst wr_c ''value''],
         async_method (nm @ ''_write_trigger'' @ x) ('', value : '' @ t_str) '''' [Do_await inst wr ''value'']]
      else []) @
     (if is_vec_int then
        read_idx_items nm x inst kind @
        [plain_method (nm @ ''_write_idx_cached'' @ x) '', idx : int, val : int'' '''' [Do_call inst (''write_idx_'' @ kind @ ''_cached'') ''idx, val''],
         async_method (nm @ ''_write_trigger_idx'' @ x) '', idx : int, val : int'' '''' [Do_await inst (''write_idx_'' @ kind) ''idx, val'']]
      else [])"

definition acc_items ::
  "acc \<Rightarrow> string \<Rightarrow> string \<Rightarrow> string \<Rightarrow> string \<Rightarrow> string \<Rightarrow> string \<Rightarrow> string \<Rightarrow> string \<Rightarrow> bool \<Rightarrow> string \<Rightarrow> class_item list res" where
  "acc_items ac nm x inst t_str rd_c rd wr_c wr is_vec_int kind =
     (case ac of
        Acc_k \<Rightarrow> Inr [property nm (arrow t_str) [Return_call inst rd_c '''']]
      | Acc_ro \<Rightarrow> Inr (read_items nm x inst t_str rd_c rd @ (if is_vec_int then read_idx_items nm x inst kind else []))
      | Acc_rc \<Rightarrow> Inr (acc_items_rc nm x inst t_str rd_c rd is_vec_int kind)
      | Acc_rw \<Rightarrow> Inr (acc_items_rw nm x inst t_str rd_c rd wr_c wr is_vec_int kind)
      | Acc_wt \<Rightarrow> Inr (acc_items_wt nm x inst t_str rd_c rd wr_c wr is_vec_int kind)
      | Acc_na \<Rightarrow> Inl AssertionError)"

text \<open>The functions with the value conversion\<close>

definition convert_items :: "'a recipe_k_scheme \<Rightarrow> string \<Rightarrow> class_item list res" where
  "convert_items r inst =
     (let nm = rr_name r; is_vec_int = rt_is_vec_int (rr_t r);
          t_user = value_user_type_str_py r False; t_one = value_user_type_str_py r True in
      if rr_acc r = Acc_k then Inl AssertionError
      else Inr (
        [Comment (''    # '' @ nm @ '': value conversion, see the recipe v_convert_wr / v_convert_rd / v_type'')] @
        (if rr_acc r \<in> {Acc_ro, Acc_rc, Acc_rw, Acc_wt} then
           [plain_method (nm @ ''_read_cached'') '''' (arrow t_user) [Return_call inst ''read_converted_cached'' '''']] @
           (if rr_acc r = Acc_rc then
              [async_method (nm @ ''_read'') '', clear : bool'' (arrow t_user)
                 [Val_await inst ''read_converted'', If_clear nm, Return_text ''val'']]
            else
              [async_method (nm @ ''_read'') '''' (arrow t_user) [Return_await inst ''read_converted'' '''']]) @
           (if rr_acc r = Acc_rw then
              [plain_method (nm @ ''_write_cached'') ('', value : '' @ t_user) '''' [Do_call inst ''write_converted_cached'' ''value''],
               async_method (nm @ ''_write'') ('', value : '' @ t_user) '''' [Do_await inst ''write_converted'' ''value'']]
            else []) @
           (if rr_acc r = Acc_wt \<and> \<not> is_vec_int then
              [plain_method (nm @ ''_write_cached'') ('', value : '' @ t_user) '''' [Do_call inst ''write_converted_cached'' ''value''],
               async_method (nm @ ''_write_trigger'') ('', value : '' @ t_user) '''' [Do_await inst ''write_converted'' ''value'']]
            else []) @
           (if is_vec_int then
              [plain_method (nm @ ''_read_idx_cached'') '', idx : int'' (arrow t_one) [Return_call inst ''read_converted_idx_cached'' ''idx''],
               async_method (nm @ ''_read_idx'') '', idx : int'' (arrow t_one) [Return_await inst ''read_converted_idx'' ''idx'']] @
              (if rr_acc r = Acc_rw then
                 [plain_method (nm @ ''_write_idx_cached'') ('', idx : int, val : '' @ t_one) ''''
                    [Do_call inst ''write_converted_idx_cached'' ''idx, val''],
                  async_method (nm @ ''_write_idx'') ('', idx : int, val : '' @ t_one) ''''
                    [Do_await inst ''write_converted_idx'' ''idx, val'']]
               else []) @
              (if rr_acc r = Acc_wt then
                 [plain_method (nm @ ''_write_idx_cached'') ('', idx : int, val : '' @ t_one) ''''
                    [Do_call inst ''write_converted_idx_cached'' ''idx, val''],
                  async_method (nm @ ''_write_trigger_idx'') ('', idx : int, val : '' @ t_one) ''''
                    [Do_await inst ''write_converted_idx'' ''idx, val'']]
               else [])
            else [])
         else [])))"

definition all_reg_value_functions_str_not_flag :: "py_impl \<Rightarrow> bool \<Rightarrow> 'a recipe_k_scheme \<Rightarrow> class_item list res" where
  "all_reg_value_functions_str_not_flag pf is_k r =
     (let nm = rr_name r; t = rr_t r; inst = reg_to_inst_str is_k nm; t_str = value_ret_type_str t in
      rbind (rassert (rt_width t \<noteq> None)) (\<lambda>_.
      rbind (read_value_function_str t True Sw_py) (\<lambda>rd_c.
      rbind (read_value_function_str t False Sw_py) (\<lambda>rd.
      rbind (write_value_function_str t True Sw_py) (\<lambda>wr_c.
      rbind (write_value_function_str t False Sw_py) (\<lambda>wr.
        let is_vec_int = rt_is_vec_int t in
      rbind (if is_vec_int then value_kind_function_str t else Inr '''') (\<lambda>kind.
        let x = (if has_v_convert_opt r then ''_raw'' else '''');
            head = [Comment (''    #'' @ nm @ '': '' @ toml_str pf (rr_desc r)),
                    property (nm @ ''_inst'') (arrow (''skmap.'' @ (if rt_is_vec t then ''RegVec'' else ''Reg''))) [Return_text inst]] in
      rbind (acc_items (rr_acc r) nm x inst t_str rd_c rd wr_c wr is_vec_int kind) (\<lambda>items.
      rbind (if has_v_convert_opt r then convert_items r inst else Inr []) (\<lambda>conv.
        Inr (head @ items @ conv))))))))))"

section \<open>The functions of a flag register\<close>

definition flag_items :: "py_impl \<Rightarrow> bool \<Rightarrow> acc \<Rightarrow> recipe_flag \<Rightarrow> class_item list res" where
  "flag_items pf is_k ac f =
     (let nm = fl_name f; inst = reg_to_inst_str is_k nm; vec = fl_vec_len f \<noteq> None;
          t_str = (if vec then ''list[bool]'' else ''bool'');
          b = (if vec then ''list_bool'' else ''bool'') in
      rbind (case fl_vec_len f of
               None \<Rightarrow> Inr []
             | Some n \<Rightarrow> rbind (to_python_source pf n) (\<lambda>n.
                 Inr [property (nm @ ''_len'') (arrow ''int'') [Raw (''        '' @ dquoted (toml_str pf (fl_desc f))), Return_text n]])) (\<lambda>len_items.
      rbind (case ac of
               Acc_k \<Rightarrow> Inr [property nm (arrow t_str) [Return_call inst (''read_'' @ b @ ''_cached'') '''']]
             | Acc_ro \<Rightarrow> Inr (read_items nm '''' inst t_str (''read_'' @ b @ ''_cached'') (''read_'' @ b))
             | Acc_rc \<Rightarrow> Inr (read_items nm '''' inst t_str (''read_'' @ b @ ''_cached'') (''read_'' @ b))
             | Acc_rw \<Rightarrow> Inr (read_items nm '''' inst t_str (''read_'' @ b @ ''_cached'') (''read_'' @ b) @
                 [plain_method (nm @ ''_write_cached'') ('', value : '' @ t_str) '''' [Do_call inst (''write_'' @ b @ ''_cached'') ''value''],
                  async_method (nm @ ''_write'') ('', value : '' @ t_str) '''' [Do_await inst (''write_'' @ b) ''value'']])
             | Acc_wt \<Rightarrow> Inr (read_items nm '''' inst t_str (''read_'' @ b @ ''_cached'') (''read_'' @ b) @
                 [async_method (nm @ ''_trigger'') ('', value : '' @ t_str) '''' [Do_await inst (''write_'' @ b) ''value''],
                  plain_method (nm @ ''_write_cached'') ('', value : '' @ t_str) '''' [Do_call inst (''write_'' @ b @ ''_cached'') ''value'']])
             | Acc_na \<Rightarrow> Inl AssertionError) (\<lambda>items.
        Inr (len_items @ items))))"

definition all_reg_value_functions_str_is_flag :: "py_impl \<Rightarrow> bool \<Rightarrow> 'a recipe_k_scheme \<Rightarrow> class_item list res" where
  "all_reg_value_functions_str_is_flag pf is_k r =
     (case rr_flags r of
        None \<Rightarrow> Inl AssertionError
      | Some fs \<Rightarrow>
          rbind (rassert (rt_kind (rr_t r) = VK_flag)) (\<lambda>_.
            let nm = rr_name r; inst = reg_to_inst_str is_k nm in
          rbind (rmapM (flag_items pf is_k (rr_acc r)) fs) (\<lambda>items.
            Inr (
              [Comment ''    # ------------------'', Comment (''    # '' @ nm @ '':Start''),
               Comment (''    #    '' @ toml_str pf (rr_desc r) @ [CHR 0x22])] @
              (if rr_acc r \<noteq> Acc_k then
                 [property (nm @ ''_inst'') (arrow ''skmap.Reg'') [Return_text (inst @ '' '')],
                  async_method (nm @ ''_update_cache'') '''' '''' [Raw (''        _ = await '' @ inst @ ''.read_bytes() '')],
                  async_method (nm @ ''_write_cache'') '''' '''' [Raw (''        await '' @ inst @ ''.write_cache() '')]] @
                 (if rr_acc r = Acc_rc then
                    [async_method (nm @ ''_clear'') '''' '''' [Do_await inst ''write_zero'' '''']]
                  else [])
               else []) @
              concat items @
              [Comment (''    # '' @ nm @ '':End''), Comment ''    # ------------------'', Comment '''']))))"

definition all_reg_value_functions_str :: "py_impl \<Rightarrow> bool \<Rightarrow> 'a recipe_k_scheme \<Rightarrow> class_item list res" where
  "all_reg_value_functions_str pf is_k r =
     (if rr_flags r \<noteq> None then all_reg_value_functions_str_is_flag pf is_k r
      else all_reg_value_functions_str_not_flag pf is_k r)"

section \<open>The functions of values and memories\<close>

text \<open>A char value is printed as a text, any other as an expression.\<close>

definition ipkg_tree :: "ipkg_value \<Rightarrow> resolvable res" where
  "ipkg_tree v =
     (case v of
        Val_tree t \<Rightarrow> Inr t
      | Val_toml v \<Rightarrow> (case v of TInt i \<Rightarrow> Inr (RNum (NInt i)) | TBool b \<Rightarrow> Inr (RBool b) | TFloat x \<Rightarrow> Inr (RNum (NFlt x))
          | _ \<Rightarrow> Inl TypeError))"

definition ipkg_value_str :: "py_impl \<Rightarrow> ipkg_value \<Rightarrow> string" where
  "ipkg_value_str pf v = (case v of Val_tree t \<Rightarrow> resolvable_repr pf t | Val_toml v \<Rightarrow> toml_str pf v)"

definition all_ipkg_value_parameters_str :: "py_impl \<Rightarrow> recipe_ipkg \<Rightarrow> class_item list res" where
  "all_ipkg_value_parameters_str pf i =
     rbind (if rt_kind (ri_t i) = VK_char then
              Inr (if rt_is_vec (ri_t i) then dquoted (ipkg_value_str pf (ri_value i)) else squoted (ipkg_value_str pf (ri_value i)))
            else rbind (ipkg_tree (ri_value i)) (to_python_source pf)) (\<lambda>value.
       Inr [property (ri_name i) (arrow (value_ret_type_str (ri_t i))) [Return_text value]])"

definition all_mem_value_functions_str :: "py_impl \<Rightarrow> recipe_mem \<Rightarrow> class_item list" where
  "all_mem_value_functions_str pf m =
     (let nm = rm_name m; inst = name_to_ext_mem nm in
      [Comment (''    # '' @ nm @ '': '' @ toml_str pf (rm_desc m)),
       property (nm @ ''_inst'') (arrow ''skmap.ExternalMem'') [Return_text inst],
       property (nm @ ''_size'') (arrow ''int'') [Return_text (inst @ ''.size'')]] @
      (if rm_acc m = Acc_rc then
         [async_method (nm @ ''_clear'') '', addr : int, size : int'' (arrow ''bytes'')
            [Raw (''      await '' @ inst @ ''.write(addr, bytes(size))'')],
          async_method (nm @ ''_read'') '', addr : int, size : int, clear : bool = False'' (arrow ''bytes'')
            [Raw (''      data = await '' @ inst @ ''.read(addr, size)''), Raw ''      if clear:'',
             Raw (''          await '' @ nm @ ''_clear(addr, size)''), Raw ''      return data'']]
       else
         (if rm_acc m \<in> {Acc_rw, Acc_wt} then
            [async_method (nm @ ''_write'') '', addr : int, data : bytes'' (arrow ''None'')
               [Raw (''      return await '' @ inst @ ''.write(addr, data)'')]]
          else []) @
         [async_method (nm @ ''_read'') '', addr : int, size : int'' (arrow ''bytes'')
            [Raw (''      return await '' @ inst @ ''.read(addr, size)'')]]))"

section \<open>The module\<close>

definition py_header :: "py_impl \<Rightarrow> string \<Rightarrow> recipe \<Rightarrow> string list" where
  "py_header pf path r =
     (let name = toml_str pf (rc_name r); version = toml_str pf (rc_version r);
          ver_str = ''v'' @ py_str_int SKMAP_VER_MAJOR @ ''.'' @ py_str_int SKMAP_VER_MINOR @ ''.'' @ py_str_int SKMAP_VER_PATCH in
      [''#-------------------------------------------------------------------------------'',
       ''# NOTE: this file is autogenerated:'',
       ''#    * From '' @ path,
       ''#    * Using HDLSkel SkMap '' @ ver_str,
       ''#    * For '' @ name @ '' '' @ rc_id r @ '' v'' @ version,
       ''#    * Checksum 0x'' @ recipe_checksum_str r,
       ''#-------------------------------------------------------------------------------'', '''', ''import skmap'', '''',
       ''class '' @ toml_str pf (rc_sw_module r) @ ''(skmap.Module):'',
       ''    def __init__(self, *args, **kwargs):'', ''        super().__init__(*args, **kwargs)'', '''',
       ''    @classmethod'', ''    def name(cls) -> str:'', ''        return '' @ dquoted name @ '';'', '''',
       ''    @classmethod'', ''    def id(cls) -> str:'', ''        return '' @ dquoted (rc_id r), '''',
       ''    @classmethod'', ''    def version(cls) -> int:'', ''        return '' @ version, '''',
       ''    @classmethod'', ''    def checksum(cls) -> int:'', ''        return 0x'' @ recipe_checksum_str r, '''', '''',
       ''    @classmethod'', ''    def skmap_ver_major(cls) -> int:'', ''        return '' @ py_str_int SKMAP_VER_MAJOR, '''',
       ''    @classmethod'', ''    def skmap_ver_minor(cls) -> int:'', ''        return '' @ py_str_int SKMAP_VER_MINOR, '''',
       ''    @classmethod'', ''    def skmap_ver_patch(cls) -> int:'', ''        return '' @ py_str_int SKMAP_VER_PATCH, '''',
       ''    @classmethod'', ''    def skmap_ver_str(cls) -> str:'', ''        return '' @ dquoted ver_str, ''''])"

definition class_items :: "py_impl \<Rightarrow> recipe \<Rightarrow> class_item list res" where
  "class_items pf r =
     rbind (rmapM (all_ipkg_value_parameters_str pf) (rc_ipkg r)) (\<lambda>is.
     rbind (rmapM (all_reg_value_functions_str pf True) (rc_k r)) (\<lambda>ks.
     rbind (rmapM (all_reg_value_functions_str pf False) (rc_var r)) (\<lambda>vs.
       Inr (concat is @ concat ks @ concat vs @ concat (map (all_mem_value_functions_str pf) (rc_mem r))))))"

text \<open>The lines that make the flags of a register, \<open>k\<close> is empty or the suffix of the constant classes.\<close>

definition flag_init_line :: "py_impl \<Rightarrow> bool \<Rightarrow> recipe_flag \<Rightarrow> string res" where
  "flag_init_line pf is_k f =
     rbind (case fl_vec_len f of
              None \<Rightarrow> Inr ''''
            | Some n \<Rightarrow> rbind (to_python_source pf n) (\<lambda>n. Inr ('' vec_len='' @ n @ '',''))) (\<lambda>vec_len.
     rbind (to_python_source pf (fl_bit f)) (\<lambda>bit.
       Inr (''        '' @ reg_to_inst_str is_k (fl_name f) @ '' = skmap.RFlag'' @ (if is_k then ''K'' else '''') @ ''(name=''
         @ squoted (fl_name f) @ '', bit='' @ bit @ '', ass=skmap.Ass.'' @ ass_name (fl_ass f) @ '','' @ vec_len
         @ '' desc='' @ squoted (toml_str pf (fl_desc f)) @ '')'')))"

definition flags_list_line :: "bool \<Rightarrow> recipe_flag list \<Rightarrow> string" where
  "flags_list_line is_k fs =
     ''        flags = ['' @ concat (map (\<lambda>f. '' '' @ reg_to_inst_str is_k (fl_name f) @ '', '') fs) @ '']''"

definition width_source :: "py_impl \<Rightarrow> recipe_type \<Rightarrow> string res" where
  "width_source pf t = (case rt_width t of None \<Rightarrow> Inl TypeError | Some w \<Rightarrow> to_python_source pf w)"

definition k_init_lines :: "py_impl \<Rightarrow> recipe_k \<Rightarrow> string list res" where
  "k_init_lines pf k =
     (let nm = name_to_reg_k (rr_name k); desc = squoted (toml_str pf (rr_desc k)) in
      rbind (case rr_flags k of
               Some fs \<Rightarrow>
                 rbind (rmapM (flag_init_line pf True) fs) (\<lambda>flags.
                 rbind (width_source pf (rr_t k)) (\<lambda>width.
                   Inr (flags @ [flags_list_line True fs,
                     ''        '' @ nm @ '' = skmap.RegFlagsK(self, name='' @ squoted (rr_name k) @ '', width='' @ width
                       @ '', flags=flags, desc='' @ desc @ '')''])))
             | None \<Rightarrow>
                 rbind (py_value_type_str pf (rr_t k)) (\<lambda>t_str.
                 rbind (value_check_str_py pf k) (\<lambda>check.
                   Inr [''        '' @ nm @ '' = skmap.'' @ (if rt_is_vec (rr_t k) then ''RegVecK'' else ''RegK'')
                     @ ''(self, name='' @ squoted (rr_name k) @ '', value_type='' @ t_str @ '', desc='' @ desc @ check @ '')'']))) (\<lambda>ls.
        Inr (ls @ [''        self._add_reg_k('' @ nm @ '')'', ''''])))"

definition var_init_lines :: "py_impl \<Rightarrow> recipe_var \<Rightarrow> string list res" where
  "var_init_lines pf v =
     (let nm = name_to_reg_var (rr_name v); desc = squoted (toml_str pf (rr_desc v)) in
      rbind (case rr_flags v of
               Some fs \<Rightarrow>
                 rbind (rmapM (flag_init_line pf False) fs) (\<lambda>flags.
                 rbind (width_source pf (rr_t v)) (\<lambda>width.
                   Inr (flags @ [flags_list_line False fs,
                     ''        '' @ nm @ '' = skmap.RegFlags(self, name='' @ squoted (rr_name v) @ '', width='' @ width
                       @ '', acc=skmap.Acc.'' @ acc_name (rr_acc v) @ '', flags=flags, desc='' @ desc @ '')''])))
             | None \<Rightarrow>
                 rbind (py_value_type_str pf (rr_t v)) (\<lambda>t_str.
                 rbind (value_check_str_py pf v) (\<lambda>check.
                 rbind (value_convert_str_py pf v) (\<lambda>convert.
                   Inr [''        '' @ nm @ '' = skmap.'' @ (if rt_is_vec (rr_t v) then ''RegVec'' else ''Reg'')
                     @ ''(self, name='' @ squoted (rr_name v) @ '', value_type='' @ t_str
                     @ (if rr_ass v \<noteq> Ass_none then '', ass=skmap.Ass.'' @ ass_name (rr_ass v) else '''')
                     @ '', acc=skmap.Acc.'' @ acc_name (rr_acc v) @ '', desc='' @ desc @ check @ convert @ '')''])))) (\<lambda>ls.
        Inr (ls @ [''        self._add_reg_var('' @ nm @ '')'', ''''])))"

definition mem_init_lines :: "py_impl \<Rightarrow> nat \<Rightarrow> recipe_mem \<Rightarrow> string list res" where
  "mem_init_lines pf ii m =
     (let nm = name_to_ext_mem (rm_name m) in
      rbind (py_value_type_str pf (rm_t m)) (\<lambda>t_str.
        Inr [''        '' @ nm @ '' = self.external_mem_at('' @ py_str_int (int ii) @ '')'',
             ''        '' @ nm @ ''.details(name='' @ squoted (rm_name m) @ '', value_type='' @ t_str @ '', acc=skmap.Acc.''
               @ acc_name (rm_acc m) @ '', desc='' @ squoted (toml_str pf (rm_desc m)) @ '')'']))"

definition generate_py_module :: "py_impl \<Rightarrow> string \<Rightarrow> recipe \<Rightarrow> string list res" where
  "generate_py_module pf path r =
     rbind (class_items pf r) (\<lambda>items.
     rbind (rmapM (k_init_lines pf) (rc_k r)) (\<lambda>ks.
     rbind (rmapM (var_init_lines pf) (rc_var r)) (\<lambda>vs.
     rbind (rmapM (\<lambda>(ii, m). mem_init_lines pf ii m) (enumerate 0 (rc_mem r))) (\<lambda>ms.
       Inr (py_header pf path r @ concat (map item_lines items) @
         ['''', ''    def _init_reg_map_k(self):''] @ (if rc_k r = [] then [''        pass'', ''''] else []) @ concat ks @
         [''    def _init_reg_map_var(self):''] @ (if rc_var r = [] then [''        pass'', ''''] else []) @ concat vs @
         [''    def _init_external_mem(self):'',
          ''        assert self.len_external_mem == '' @ py_str_int (int (length (rc_mem r))) @ '', ''
            @ squoted ''Unexpected number of external mem in fw''] @ concat ms @
         (if rc_mem r \<noteq> [] then [''''] else []) @
         [''skmap.register_Module('' @ toml_str pf (rc_sw_module r) @ '')''])))))"

section \<open>Lemmas: methods and calls of a list of items\<close>

text \<open>The functions a method calls on the object of its register, and those that are not plain reads.\<close>

fun stmt_calls :: "py_stmt \<Rightarrow> (string \<times> string) list" where
  "stmt_calls (Return_call inst func args) = [(func, args)]"
| "stmt_calls (Return_await inst func args) = [(func, args)]"
| "stmt_calls (Do_call inst func args) = [(func, args)]"
| "stmt_calls (Do_await inst func args) = [(func, args)]"
| "stmt_calls (Val_await inst func) = [(func, '''')]"
| "stmt_calls _ = []"

definition item_calls :: "class_item list \<Rightarrow> (string \<times> string) set" where
  "item_calls is = (\<Union>m \<in> set (item_methods is). \<Union>s \<in> set (pm_body m). set (stmt_calls s))"

definition item_names :: "class_item list \<Rightarrow> string list" where
  "item_names is = map pm_name (item_methods is)"

lemma item_methods_append [simp]: "item_methods (xs @ ys) = item_methods xs @ item_methods ys"
  by (induction xs rule: item_methods.induct) simp_all

lemma item_calls_simps [simp]:
  "item_calls [] = {}"
  "item_calls (Comment s # is) = item_calls is"
  "item_calls (plain_method nm ps ret body # is) = (\<Union>s \<in> set body. set (stmt_calls s)) \<union> item_calls is"
  "item_calls (async_method nm ps ret body # is) = (\<Union>s \<in> set body. set (stmt_calls s)) \<union> item_calls is"
  "item_calls (property nm ret body # is) = (\<Union>s \<in> set body. set (stmt_calls s)) \<union> item_calls is"
  "item_calls (xs @ ys) = item_calls xs \<union> item_calls ys"
  by (auto simp: item_calls_def plain_method_def async_method_def property_def)

lemma item_names_simps [simp]:
  "item_names [] = []"
  "item_names (Comment s # is) = item_names is"
  "item_names (plain_method nm ps ret body # is) = nm # item_names is"
  "item_names (async_method nm ps ret body # is) = nm # item_names is"
  "item_names (property nm ret body # is) = nm # item_names is"
  "item_names (xs @ ys) = item_names xs @ item_names ys"
  by (simp_all add: item_names_def plain_method_def async_method_def property_def)

lemmas acc_items_defs = read_items_def read_idx_items_def acc_items_rc_def acc_items_rw_def acc_items_wt_def

text \<open>The items of a register: the access to its object, the functions of its access kind, the conversion.\<close>

lemma not_flag_items:
  assumes "all_reg_value_functions_str_not_flag pf is_k r = Inr items"
  obtains rd_c rd wr_c wr kind x body conv hd_items inst where
    "read_value_function_str (rr_t r) True Sw_py = Inr rd_c" "read_value_function_str (rr_t r) False Sw_py = Inr rd"
    "write_value_function_str (rr_t r) True Sw_py = Inr wr_c" "write_value_function_str (rr_t r) False Sw_py = Inr wr"
    "rt_is_vec_int (rr_t r) \<longrightarrow> value_kind_function_str (rr_t r) = Inr kind"
    "x = (if has_v_convert_opt r then ''_raw'' else '''')"
    "items = hd_items @ body @ conv" "item_names hd_items = [rr_name r @ ''_inst'']" "item_calls hd_items = {}"
    "if has_v_convert_opt r then convert_items r inst = Inr conv else conv = []"
    "acc_items (rr_acc r) (rr_name r) x inst (value_ret_type_str (rr_t r)) rd_c rd wr_c wr (rt_is_vec_int (rr_t r)) kind = Inr body"
proof -
  let ?inst = "reg_to_inst_str is_k (rr_name r)" and ?x = "if has_v_convert_opt r then ''_raw'' else ''''"
  obtain rd_c rd wr_c wr kind body conv where
    1: "read_value_function_str (rr_t r) True Sw_py = Inr rd_c" "read_value_function_str (rr_t r) False Sw_py = Inr rd"
      "write_value_function_str (rr_t r) True Sw_py = Inr wr_c" "write_value_function_str (rr_t r) False Sw_py = Inr wr"
    and k: "(if rt_is_vec_int (rr_t r) then value_kind_function_str (rr_t r) else Inr '''') = Inr kind"
    and 2: "(if has_v_convert_opt r then convert_items r ?inst else Inr []) = Inr conv"
    and 3: "acc_items (rr_acc r) (rr_name r) ?x ?inst (value_ret_type_str (rr_t r)) rd_c rd wr_c wr (rt_is_vec_int (rr_t r)) kind = Inr body"
    and it: "items = [Comment (''    #'' @ rr_name r @ '': '' @ toml_str pf (rr_desc r)),
        property (rr_name r @ ''_inst'') (arrow (''skmap.'' @ (if rt_is_vec (rr_t r) then ''RegVec'' else ''Reg''))) [Return_text ?inst]]
          @ body @ conv"
    using assms unfolding all_reg_value_functions_str_not_flag_def Let_def rbind_Inr_iff by blast
  show ?thesis by (rule that [OF 1 _ refl it _ _ _ 3]) (use k 2 in \<open>auto split: if_splits\<close>)
qed

lemma acc_cases [consumes 1]:
  assumes "acc_items ac nm x inst t_str rd_c rd wr_c wr v kind = Inr body"
  obtains (k) "ac = Acc_k" "body = [property nm (arrow t_str) [Return_call inst rd_c '''']]"
    | (ro) "ac = Acc_ro" "body = read_items nm x inst t_str rd_c rd @ (if v then read_idx_items nm x inst kind else [])"
    | (rc) "ac = Acc_rc" "body = acc_items_rc nm x inst t_str rd_c rd v kind"
    | (rw) "ac = Acc_rw" "body = acc_items_rw nm x inst t_str rd_c rd wr_c wr v kind"
    | (wt) "ac = Acc_wt" "body = acc_items_wt nm x inst t_str rd_c rd wr_c wr v kind"
  using assms by (cases ac) (auto simp: acc_items_def)

text \<open>The suffixes of the names: of the functions of an access kind, and of the converting ones.\<close>

definition acc_suffixes :: "acc \<Rightarrow> string \<Rightarrow> bool \<Rightarrow> string list" where
  "acc_suffixes ac x v =
     (if ac = Acc_k then [''''] else [''_read_cached'' @ x, ''_read'' @ x]) @
     (if ac = Acc_rc then [''_clear''] else []) @
     (if ac = Acc_rw then [''_write_cached'' @ x, ''_write'' @ x] else []) @
     (if ac = Acc_wt \<and> \<not> v then [''_write_cached'' @ x, ''_write_trigger'' @ x] else []) @
     (if v \<and> ac \<noteq> Acc_k then [''_read_idx_cached'' @ x, ''_read_idx'' @ x] else []) @
     (if v \<and> ac = Acc_rc then [''_clear_idx''] else []) @
     (if v \<and> ac = Acc_rw then [''_write_idx_cached'' @ x, ''_write_idx'' @ x] else []) @
     (if v \<and> ac = Acc_wt then [''_write_idx_cached'' @ x, ''_write_trigger_idx'' @ x] else [])"

definition convert_suffixes :: "acc \<Rightarrow> bool \<Rightarrow> string list" where
  "convert_suffixes ac v =
     [''_read_cached'', ''_read''] @
     (if ac = Acc_rw then [''_write_cached'', ''_write''] else []) @
     (if ac = Acc_wt \<and> \<not> v then [''_write_cached'', ''_write_trigger''] else []) @
     (if v then [''_read_idx_cached'', ''_read_idx''] else []) @
     (if v \<and> ac = Acc_rw then [''_write_idx_cached'', ''_write_idx''] else []) @
     (if v \<and> ac = Acc_wt then [''_write_idx_cached'', ''_write_trigger_idx''] else [])"

lemma acc_items_names:
  assumes "acc_items ac nm x inst t_str rd_c rd wr_c wr v kind = Inr body"
  shows "item_names body = map (\<lambda>u. nm @ u) (acc_suffixes ac x v)"
  using assms by (cases rule: acc_cases; cases v) (simp_all add: acc_items_defs acc_suffixes_def)

lemma convert_items_names:
  assumes "convert_items r inst = Inr conv" and "rr_acc r \<noteq> Acc_na"
  shows "rr_acc r \<noteq> Acc_k" and "item_names conv = map (\<lambda>u. rr_name r @ u) (convert_suffixes (rr_acc r) (rt_is_vec_int (rr_t r)))"
  using assms by (cases "rr_acc r"; cases "rt_is_vec_int (rr_t r)"; auto simp: convert_items_def Let_def convert_suffixes_def)+

lemma suffixes_distinct:
  assumes "ac \<noteq> Acc_na"
  shows "distinct (''_inst'' # acc_suffixes ac '''' v)"
    and "ac \<noteq> Acc_k \<Longrightarrow> distinct (''_inst'' # acc_suffixes ac ''_raw'' v @ convert_suffixes ac v)"
  using assms by (cases ac; cases v; simp add: acc_suffixes_def convert_suffixes_def)+

section \<open>Properties of the methods of a register\<close>

text \<open>
  the methods generated for a register: the access to its object, the functions of its access kind,
  and, with a value conversion, the converting ones beside functions marked \<^verbatim>\<open>_raw\<close>. Each name is the name of
  the register with a suffix of these tables, and no two of them are the same.
\<close>

theorem generated_names_distinct:
  assumes "all_reg_value_functions_str_not_flag pf is_k r = Inr items"
  shows "map pm_name (item_methods items) =
      map (\<lambda>u. rr_name r @ u) (''_inst'' #
        (if has_v_convert_opt r
         then acc_suffixes (rr_acc r) ''_raw'' (rt_is_vec_int (rr_t r)) @ convert_suffixes (rr_acc r) (rt_is_vec_int (rr_t r))
         else acc_suffixes (rr_acc r) '''' (rt_is_vec_int (rr_t r)))) \<and>
    distinct (map pm_name (item_methods items))"
proof -
  obtain rd_c rd wr_c wr kind x body conv hd_items inst where
    x: "x = (if has_v_convert_opt r then ''_raw'' else '''')"
    and items: "items = hd_items @ body @ conv" "item_names hd_items = [rr_name r @ ''_inst'']"
    and conv: "if has_v_convert_opt r then convert_items r inst = Inr conv else conv = []"
    and body: "acc_items (rr_acc r) (rr_name r) x inst (value_ret_type_str (rr_t r)) rd_c rd wr_c wr (rt_is_vec_int (rr_t r)) kind = Inr body"
    using assms by (rule not_flag_items)
  let ?sfx = "''_inst'' # (if has_v_convert_opt r
         then acc_suffixes (rr_acc r) ''_raw'' (rt_is_vec_int (rr_t r)) @ convert_suffixes (rr_acc r) (rt_is_vec_int (rr_t r))
         else acc_suffixes (rr_acc r) '''' (rt_is_vec_int (rr_t r)))"
  have na: "rr_acc r \<noteq> Acc_na" using body by (auto simp: acc_items_def)
  have names: "item_names items = map (\<lambda>u. rr_name r @ u) ?sfx"
    using items acc_items_names [OF body] conv convert_items_names(2) [OF _ na] x by (auto split: if_splits)
  have "distinct ?sfx"
    using suffixes_distinct [OF na] convert_items_names(1) [OF _ na] conv by (simp split: if_splits)
  then have "distinct (map (\<lambda>u. rr_name r @ u) ?sfx)" by (simp only: distinct_map inj_on_def) simp
  then show ?thesis using names by (simp add: item_names_def)
qed

lemma array_var_items: "\<not> isl (all_reg_value_functions_str_not_flag example_pf False (array_var 4 32))"
  by code_simp

theorem generated_names_distinct_witness:
  "\<exists>items. all_reg_value_functions_str_not_flag example_pf False (array_var 4 32) = Inr items \<and>
     map pm_name (item_methods items) =
       [''v_inst'', ''v_read_cached'', ''v_read'', ''v_write_cached'', ''v_write'', ''v_read_idx_cached'', ''v_read_idx'',
        ''v_write_idx_cached'', ''v_write_idx''] \<and> distinct (map pm_name (item_methods items))"
proof -
  obtain items where i: "all_reg_value_functions_str_not_flag example_pf False (array_var 4 32) = Inr items"
    using array_var_items by (cases "all_reg_value_functions_str_not_flag example_pf False (array_var 4 32)") auto
  show ?thesis using generated_names_distinct [OF i] i
    by (simp add: array_var_def has_v_convert_opt_def acc_suffixes_def rt_is_vec_int_def rt_vec_len_def rt_kind_def)
qed

lemma read_function_prefix: "read_value_function_str t c s = Inr f \<Longrightarrow> take 5 f = ''read_''"
  by (auto simp: read_value_function_str_def rbind_Inr_iff)

lemma convert_items_calls:
  assumes "convert_items r inst = Inr conv"
  shows "item_calls conv \<subseteq>
     {(''read_converted_cached'', ''''), (''read_converted'', '''')} \<union>
     (if rt_is_vec_int (rr_t r) then {(''read_converted_idx_cached'', ''idx''), (''read_converted_idx'', ''idx'')} else {}) \<union>
     (if rr_acc r \<in> {Acc_rw, Acc_wt} then {(''write_converted_cached'', ''value''), (''write_converted'', ''value'')} \<union>
        (if rt_is_vec_int (rr_t r) then {(''write_converted_idx_cached'', ''idx, val''), (''write_converted_idx'', ''idx, val'')} else {})
      else {})"
  using assms by (cases "rr_acc r"; cases "rt_is_vec_int (rr_t r)") (simp_all add: convert_items_def Let_def, (hypsubst, simp)+)

lemma acc_items_calls:
  assumes "acc_items ac nm x inst t_str rd_c rd wr_c wr v kind = Inr body"
  shows "item_calls body =
     {(rd_c, '''')} \<union> (if ac = Acc_k then {} else {(rd, '''')}) \<union>
     (if ac = Acc_rc then {(''write_zero'', '''')} else {}) \<union>
     (if ac = Acc_rw \<or> ac = Acc_wt \<and> \<not> v then {(wr_c, ''value''), (wr, ''value'')} else {}) \<union>
     (if v \<and> ac \<noteq> Acc_k then {(''read_idx_'' @ kind @ ''_cached'', ''idx''), (''read_idx_'' @ kind, ''idx'')} else {}) \<union>
     (if v \<and> ac = Acc_rc then {(''write_idx_'' @ kind, ''idx, 0'')} else {}) \<union>
     (if v \<and> ac \<in> {Acc_rw, Acc_wt} then {(''write_idx_'' @ kind @ ''_cached'', ''idx, val''), (''write_idx_'' @ kind, ''idx, val'')} else {})"
  using assms by (cases rule: acc_cases; cases v) (auto simp: acc_items_defs)



text \<open>
  The public methods of the run time classes \<^verbatim>\<open>Reg\<close> and \<^verbatim>\<open>RegVec\<close> of \<^verbatim>\<open>pip/skmap/src/skmap/reg.py\<close> that
  read or write.
\<close>

definition REG_METHODS :: "string list" where
  "REG_METHODS =
     [''read_bytes_cached'', ''read_bytes'', ''read_cache'', ''read_uint_cached'', ''read_uint'', ''read_sint_cached'', ''read_sint'',
      ''read_bool_cached'', ''read_bool'', ''read_char_cached'', ''read_char'', ''read_value_cached'', ''read_rich_str_cached'',
      ''write_cache'', ''write_bytes_cached'', ''write_bytes'', ''write_uint_cached'', ''write_uint'', ''write_sint_cached'',
      ''write_sint'', ''read_converted_cached'', ''read_converted'', ''write_converted_cached'', ''write_converted'',
      ''write_bool_cached'', ''write_bool'', ''write_zero_cached'', ''write_zero'']"

definition REG_VEC_METHODS :: "string list" where
  "REG_VEC_METHODS = REG_METHODS @
     [''read_list_uint_cached'', ''read_list_uint'', ''read_list_sint_cached'', ''read_list_sint'', ''read_list_bool_cached'',
      ''read_list_bool'', ''read_idx_bytes_cached'', ''read_idx_bytes'', ''write_idx_cache'', ''write_idx_bytes_cached'',
      ''write_idx_bytes'', ''read_idx_uint_cached'', ''read_idx_uint'', ''read_idx_sint_cached'', ''read_idx_sint'',
      ''read_idx_bool_cached'', ''read_idx_bool'', ''read_idx_char_cached'', ''read_idx_value_cached'', ''write_idx_uint_cached'',
      ''write_idx_uint'', ''write_idx_sint_cached'', ''write_idx_sint'', ''read_converted_idx_cached'', ''read_converted_idx'',
      ''write_converted_idx_cached'', ''write_converted_idx'', ''read_str_cached'', ''read_str'', ''write_list_uint_cached'',
      ''write_list_uint'', ''write_list_sint_cached'', ''write_list_sint'']"

definition inst_methods :: "recipe_type \<Rightarrow> string set" where
  "inst_methods t = set (if rt_is_vec t then REG_VEC_METHODS else REG_METHODS)"

lemma read_functions_exist: "read_value_function_str t c Sw_py = Inr f \<Longrightarrow> f \<in> inst_methods t"
  by (cases "rt_kind t"; cases c; cases "rt_is_vec t"; cases "elem_w_is_1 t")
    (auto simp: read_value_function_str_def value_type_function_str_def value_kind_function_str_def inst_methods_def
      REG_METHODS_def REG_VEC_METHODS_def)

lemma write_functions_exist:
  "write_value_function_str t c Sw_py = Inr f \<Longrightarrow>
   f \<in> inst_methods t \<longleftrightarrow> \<not> (rt_kind t = VK_char \<or> rt_kind t = VK_flag \<and> rt_is_vec t \<and> elem_w_is_1 t)"
  by (cases "rt_kind t"; cases c; cases "rt_is_vec t"; cases "elem_w_is_1 t")
    (auto simp: write_value_function_str_def value_type_function_str_def value_kind_function_str_def inst_methods_def
      REG_METHODS_def REG_VEC_METHODS_def)

lemma idx_functions_exist:
  "rt_is_vec_int t \<Longrightarrow> value_kind_function_str t = Inr kind \<Longrightarrow>
   {''read_idx_'' @ kind @ ''_cached'', ''read_idx_'' @ kind, ''write_idx_'' @ kind @ ''_cached'', ''write_idx_'' @ kind,
    ''read_converted_idx_cached'', ''read_converted_idx'', ''write_converted_idx_cached'', ''write_converted_idx''} \<subseteq> inst_methods t"
  by (cases "rt_kind t")
    (auto simp: rt_is_vec_int_def rt_is_vec_def value_kind_function_str_def inst_methods_def REG_METHODS_def REG_VEC_METHODS_def)

lemma common_functions_exist:
  "{''write_zero'', ''read_converted_cached'', ''read_converted'', ''write_converted_cached'', ''write_converted''} \<subseteq> inst_methods t"
  by (simp add: inst_methods_def REG_METHODS_def REG_VEC_METHODS_def)



section \<open>Properties of the class\<close>

text \<open>The lines that add a register to its module\<close>

definition add_k_line :: "string \<Rightarrow> string" where
  "add_k_line nm = ''        self._add_reg_k(self._k_'' @ nm @ '')''"

definition add_var_line :: "string \<Rightarrow> string" where
  "add_var_line nm = ''        self._add_reg_var(self._var_'' @ nm @ '')''"

definition is_add_line :: "string \<Rightarrow> bool" where
  "is_add_line l \<longleftrightarrow> take 22 l = ''        self._add_reg_''"

lemma flag_lines_no_add:
  "rmapM (flag_init_line pf is_k) fs = Inr ls \<Longrightarrow> filter is_add_line ls = []"
  by (induction fs arbitrary: ls)
    (auto simp: rbind_Inr_iff flag_init_line_def is_add_line_def reg_to_inst_str_def name_to_reg_k_def name_to_reg_var_def
      split: if_splits)

lemma k_init_lines_add: "k_init_lines pf k = Inr ls \<Longrightarrow> filter is_add_line ls = [add_k_line (rr_name k)]"
  by (auto simp: k_init_lines_def rbind_Inr_iff Let_def is_add_line_def add_k_line_def flags_list_line_def name_to_reg_k_def
      dest: flag_lines_no_add split: option.splits)

lemma var_init_lines_add: "var_init_lines pf v = Inr ls \<Longrightarrow> filter is_add_line ls = [add_var_line (rr_name v)]"
  by (auto simp: var_init_lines_def rbind_Inr_iff Let_def is_add_line_def add_var_line_def flags_list_line_def name_to_reg_var_def
      dest: flag_lines_no_add split: option.splits)

lemma rmapM_filter:
  assumes "\<And>x y. x \<in> set xs \<Longrightarrow> f x = Inr y \<Longrightarrow> filter p y = [g x]"
  shows "rmapM f xs = Inr ys \<Longrightarrow> filter p (concat ys) = map g xs"
  using assms by (induction xs arbitrary: ys) (auto simp: rbind_Inr_iff)

text \<open>
  the generated module adds every constant and every register of the recipe once, in the order of the
  recipe, in the two functions the run time calls; the layout of a module follows that order.
\<close>

theorem generated_registers_in_order:
  assumes "generate_py_module pf path r = Inr ls"
  shows "\<exists>pre ks vs post.
    ls = pre @ [''    def _init_reg_map_k(self):''] @ ks @ [''    def _init_reg_map_var(self):''] @ vs @ [''    def _init_external_mem(self):''] @ post \<and>
    filter is_add_line ks = map (\<lambda>k. add_k_line (rr_name k)) (rc_k r) \<and>
    filter is_add_line vs = map (\<lambda>v. add_var_line (rr_name v)) (rc_var r)"
proof -
  obtain items ks vs ms where k: "rmapM (k_init_lines pf) (rc_k r) = Inr ks" and v: "rmapM (var_init_lines pf) (rc_var r) = Inr vs"
    and ls: "ls = py_header pf path r @ concat (map item_lines items) @
         ['''', ''    def _init_reg_map_k(self):''] @ (if rc_k r = [] then [''        pass'', ''''] else []) @ concat ks @
         [''    def _init_reg_map_var(self):''] @ (if rc_var r = [] then [''        pass'', ''''] else []) @ concat vs @
         [''    def _init_external_mem(self):'',
          ''        assert self.len_external_mem == '' @ py_str_int (int (length (rc_mem r))) @ '', ''
            @ squoted ''Unexpected number of external mem in fw''] @ concat ms @
         (if rc_mem r \<noteq> [] then [''''] else []) @
         [''skmap.register_Module('' @ toml_str pf (rc_sw_module r) @ '')'']"
    using assms unfolding generate_py_module_def rbind_Inr_iff by blast
  have pass: "filter is_add_line (if c then [''        pass'', ''''] else []) = []" for c
    by (simp add: is_add_line_def)
  have "filter is_add_line ((if rc_k r = [] then [''        pass'', ''''] else []) @ concat ks) = map (\<lambda>k. add_k_line (rr_name k)) (rc_k r)"
    unfolding filter_append pass using rmapM_filter [OF k_init_lines_add k] by simp
  moreover have "filter is_add_line ((if rc_var r = [] then [''        pass'', ''''] else []) @ concat vs) =
      map (\<lambda>v. add_var_line (rr_name v)) (rc_var r)"
    unfolding filter_append pass using rmapM_filter [OF var_init_lines_add v] by simp
  moreover have "ls = (py_header pf path r @ concat (map item_lines items) @ ['''']) @ [''    def _init_reg_map_k(self):''] @
      ((if rc_k r = [] then [''        pass'', ''''] else []) @ concat ks) @ [''    def _init_reg_map_var(self):''] @
      ((if rc_var r = [] then [''        pass'', ''''] else []) @ concat vs) @ [''    def _init_external_mem(self):''] @
      ([''        assert self.len_external_mem == '' @ py_str_int (int (length (rc_mem r))) @ '', ''
            @ squoted ''Unexpected number of external mem in fw''] @ concat ms @ (if rc_mem r \<noteq> [] then [''''] else []) @
         [''skmap.register_Module('' @ toml_str pf (rc_sw_module r) @ '')''])"
    using ls by simp
  ultimately show ?thesis by blast
qed

theorem generated_registers_in_order_witness:
  "\<exists>ls pre vs post. generate_py_module example_pf ''ex.toml'' (array_built id 4 32) = Inr ls \<and>
     ls = pre @ [''    def _init_reg_map_var(self):''] @ vs @ [''    def _init_external_mem(self):''] @ post \<and>
     filter is_add_line vs = [''        self._add_reg_var(self._var_v)'']"
proof -
  let ?r = "array_built id 4 32"
  have lists: "rc_ipkg ?r = []" "rc_k ?r = []" "rc_var ?r = [array_var 4 32]" "rc_mem ?r = []" "rr_flags (array_var 4 32) = None"
    by (simp_all add: array_built_def Recipe_start_def array_var_def)
  obtain items where i: "all_reg_value_functions_str_not_flag example_pf False (array_var 4 32) = Inr items"
    using array_var_items by (cases "all_reg_value_functions_str_not_flag example_pf False (array_var 4 32)") auto
  have "\<not> isl (var_init_lines example_pf (array_var 4 32))" by code_simp
  then obtain v_ls where v: "var_init_lines example_pf (array_var 4 32) = Inr v_ls"
    by (cases "var_init_lines example_pf (array_var 4 32)") auto
  have "\<exists>ls. generate_py_module example_pf ''ex.toml'' ?r = Inr ls"
    by (simp add: generate_py_module_def class_items_def lists all_reg_value_functions_str_def i v)
  then obtain ls where ls: "generate_py_module example_pf ''ex.toml'' ?r = Inr ls" by blast
  obtain pre ks vs post where s: "ls = pre @ [''    def _init_reg_map_k(self):''] @ ks @ [''    def _init_reg_map_var(self):''] @ vs @
      [''    def _init_external_mem(self):''] @ post"
    "filter is_add_line vs = map (\<lambda>v. add_var_line (rr_name v)) (rc_var ?r)"
    using generated_registers_in_order [OF ls] by blast
  have "map (\<lambda>v. add_var_line (rr_name v)) (rc_var ?r) = [''        self._add_reg_var(self._var_v)'']"
    by (simp add: lists add_var_line_def) (simp add: array_var_def)
  then show ?thesis using ls s
    by - (rule exI [of _ ls], rule exI [of _ "pre @ [''    def _init_reg_map_k(self):''] @ ks"], rule exI [of _ vs],
      rule exI [of _ post], simp)
qed

definition clash_recipe :: "toml list \<Rightarrow> toml list \<Rightarrow> (string \<times> toml) list" where
  "clash_recipe ks vs =
     [(''name'', TStr ''ex''), (''sw_module'', TStr ''ex''), (''fw_module'', TStr ''ex''), (''id'', TStr ''EX''),
      (''version'', TInt 1), (''k'', TList ks), (''var'', TList vs)]"

definition plain_reg :: "string \<Rightarrow> toml" where
  "plain_reg nm = tm [(''name'', nm), (''t'', ''u8''), (''acc'', ''rw''), (''desc'', ''value'')]"

definition flag_reg :: "string \<Rightarrow> string \<Rightarrow> toml" where
  "flag_reg nm f = TDict [(''name'', TStr nm), (''t'', TStr ''b''), (''acc'', TStr ''rw''), (''desc'', TStr ''flags''),
     (''flags'', TList [tm [(''name'', f), (''desc'', ''flag'')]])]"

definition class_methods :: "(string \<times> toml) list \<Rightarrow> string list option" where
  "class_methods d =
     (case Recipe_init example_pf (\<lambda>_. []) d of
        Inl e \<Rightarrow> None
      | Inr r \<Rightarrow> (case class_items example_pf r of Inl e \<Rightarrow> None | Inr items \<Rightarrow> Some (map pm_name (item_methods items))))"

text \<open>
  the names of a recipe are checked to be unique, the names of the methods generated for them are not.
  Of the recipes below, all accepted, the first has a constant \<open>a_read\<close> beside a register \<open>a\<close>, the
  second a flag with the name of a register, as flags are not part of the check: the generated class
  defines a method twice, and the later definition replaces the earlier one. The third has neither.
\<close>

theorem unique_names_clash:
  "(case class_methods (clash_recipe [tm [(''name'', ''a_read''), (''t'', ''u8''), (''desc'', '''')]] [plain_reg ''a'']) of
      None \<Rightarrow> False | Some names \<Rightarrow> \<not> distinct names) \<and>
   (case class_methods (clash_recipe [] [plain_reg ''a'', flag_reg ''st'' ''a'']) of
      None \<Rightarrow> False | Some names \<Rightarrow> \<not> distinct names) \<and>
   (case class_methods (clash_recipe [] [plain_reg ''a'', flag_reg ''st'' ''b'']) of
      None \<Rightarrow> False | Some names \<Rightarrow> distinct names)"
  by (intro conjI) code_simp+

end
