(* ===== verification/GenCpp.thy ===== *)
theory GenCpp
  imports GenPy
begin

text \<open>
  The C++ generated from a recipe: \<^verbatim>\<open>pip/skmap/src/skmap/code_generator_cpp.py\<close>. The member functions of the
  generated class are values of \<open>cpp_fun\<close>, \<open>fun_lines\<close> gives their text; the header and the source are the
  lists of their lines. The names are those of \<^verbatim>\<open>code_generator_sw_common.py\<close>, of theory GenPy.

  The properties compare the class with the one generated for Python, and its calls with the declarations
  of the run time library, \<^verbatim>\<open>sw/lib/cpp/skmap/include/hdlskel/skmap/reg.hpp\<close>. Writing the two files is not
  modelled; their resolved paths are arguments, given by their parts.
\<close>

section \<open>Names and types in the text\<close>

definition cpp_namespace :: string where
  "cpp_namespace = ''hdlskel::skmap::autogen''"

definition cpp_name_to_reg_k :: "string \<Rightarrow> string" where "cpp_name_to_reg_k nm = ''m_k_'' @ nm"
definition cpp_name_to_reg_var :: "string \<Rightarrow> string" where "cpp_name_to_reg_var nm = ''m_var_'' @ nm"
definition cpp_name_to_ext_mem :: "string \<Rightarrow> string" where "cpp_name_to_ext_mem nm = ''m_mem_'' @ nm"

definition cpp_reg_to_inst_str :: "bool \<Rightarrow> string \<Rightarrow> string" where
  "cpp_reg_to_inst_str is_k nm = (if is_k then cpp_name_to_reg_k nm else cpp_name_to_reg_var nm)"

definition cpp_value_kind_str :: "value_kind \<Rightarrow> string" where
  "cpp_value_kind_str k = ''ValueKind::'' @ value_kind_str k @ ''_''"

definition cpp_value_type_str :: "py_impl \<Rightarrow> recipe_type \<Rightarrow> string res" where
  "cpp_value_type_str pf t =
     (case rt_width t of
        None \<Rightarrow> Inl AssertionError
      | Some w \<Rightarrow>
          rbind (to_cpp_source pf w) (\<lambda>w.
          rbind (case rt_vec_len t of
                   None \<Rightarrow> Inr ''''
                 | Some n \<Rightarrow> rbind (to_cpp_source pf n) (\<lambda>n. Inr ('', '' @ n))) (\<lambda>vec_len.
            Inr (''make_ValueType('' @ cpp_value_kind_str (rt_kind t) @ '', '' @ w @ vec_len @ '')''))))"

definition const_ref :: "bool \<Rightarrow> string \<Rightarrow> string" where
  "const_ref wr rt = (if wr then ''const '' @ rt @ '' &'' else rt)"

text \<open>A flag of one bit is a \<^verbatim>\<open>bool\<close> before the length is looked at, also in an array.\<close>

definition cpp_value_ret_type_str :: "recipe_type \<Rightarrow> bool \<Rightarrow> bool \<Rightarrow> string" where
  "cpp_value_ret_type_str t ignore_vec wr =
     (if rt_kind t = VK_flag \<and> elem_w_is_1 t then ''bool''
      else let rt = (case rt_kind t of VK_char \<Rightarrow> ''char'' | VK_uint \<Rightarrow> ''uint_t'' | VK_sint \<Rightarrow> ''sint_t''
                     | VK_bits \<Rightarrow> ''uint_t'' | VK_flag \<Rightarrow> ''uint_t'')
           in if \<not> ignore_vec \<and> rt_is_vec t then
                if rt_kind t = VK_char then ''std::string'' else const_ref wr (''std::vector<'' @ rt @ ''>'')
              else rt)"

definition reg_inst_type_str :: "'a recipe_k_scheme \<Rightarrow> string" where
  "reg_inst_type_str r =
     (if rt_kind (rr_t r) = VK_flag \<and> rr_flags r \<noteq> None then ''RegFlags''
      else if rt_is_vec (rr_t r) then ''RegVec'' else ''Reg'')"

definition cpp_value_user_type_str :: "'a recipe_k_scheme \<Rightarrow> bool \<Rightarrow> bool \<Rightarrow> string" where
  "cpp_value_user_type_str r wr ignore_vec =
     (let t = rr_t r;
          rt = (if v_type_is_float (vo_v_type (rr_opts r)) then ''float_t''
                else if rt_kind t = VK_flag \<and> elem_w_is_1 t then ''bool''
                else if rt_kind t = VK_char then ''char''
                else if rt_kind t \<in> {VK_uint, VK_bits} then ''uint_t'' else ''sint_t'')
      in if \<not> ignore_vec \<and> rt_is_vec t then
           const_ref wr (if rt_kind t = VK_char then ''std::string'' else ''std::vector<float_t>'')
         else rt)"

text \<open>\<^verbatim>\<open>{s}\<close> of an optional text\<close>

definition opt_str :: "string option \<Rightarrow> string" where
  "opt_str s = (case s of None \<Rightarrow> ''None'' | Some s \<Rightarrow> s)"

definition cpp_v_arg :: "v_type \<Rightarrow> string" where
  "cpp_v_arg v = (if v_type_is_float v then ''float_t v'' else ''sint_t v'')"

definition value_check_str_cpp :: "py_impl \<Rightarrow> 'a recipe_k_scheme \<Rightarrow> string res" where
  "value_check_str_cpp pf r =
     (let o_r = rr_opts r in
      case vo_v_check o_r of
        None \<Rightarrow> Inr ''std::nullopt''
      | Some c \<Rightarrow> rbind (to_cpp_source pf c) (\<lambda>s.
          Inr (''ValueCheck{VCheckFn'' @ (if v_type_is_float (vo_v_type o_r) then ''F'' else '''') @ ''{[this]('' @ cpp_v_arg (vo_v_type o_r)
            @ '') { return '' @ s @ ''; }}, '' @ dquoted (opt_str (vo_v_check_str o_r)) @ '', VType::'' @ v_type_str (vo_v_type o_r) @ ''}'')))"

definition value_convert_str_cpp :: "py_impl \<Rightarrow> 'a recipe_k_scheme \<Rightarrow> string res" where
  "value_convert_str_cpp pf r =
     (let o_r = rr_opts r in
      case (vo_v_convert_wr o_r, vo_v_convert_rd o_r) of
        (None, _) \<Rightarrow> Inr ''std::nullopt''
      | (Some wr, None) \<Rightarrow> rbind (to_cpp_source pf wr) (\<lambda>_. Inl TypeError)
      | (Some wr, Some rd) \<Rightarrow>
          rbind (to_cpp_source pf wr) (\<lambda>s. rbind (to_cpp_source pf rd) (\<lambda>t.
            Inr (''ValueConvert{[this]('' @ cpp_v_arg (vo_v_type o_r) @ '') { return '' @ s @ ''; }, [this](sint_t v) { return '' @ t @ ''; }, ''
              @ dquoted (opt_str (vo_v_convert_wr_str o_r)) @ '', '' @ dquoted (opt_str (vo_v_convert_rd_str o_r))
              @ '', VType::'' @ v_type_str (vo_v_type o_r) @ ''}''))))"

section \<open>Member functions\<close>

datatype cpp_stmt =
    C_return string string string
  | C_do string string string
  | C_val string string string string string
  | C_if_clear string string
  | C_raw string

fun cpp_stmt_str :: "cpp_stmt \<Rightarrow> string" where
  "cpp_stmt_str (C_return inst func args) = ''return '' @ inst @ ''->'' @ func @ ''('' @ args @ '');''"
| "cpp_stmt_str (C_do inst func args) = inst @ ''->'' @ func @ ''('' @ args @ '');''"
| "cpp_stmt_str (C_val t v inst func args) = t @ '' '' @ v @ '' = '' @ inst @ ''->'' @ func @ ''('' @ args @ '');''"
| "cpp_stmt_str (C_if_clear nm args) = ''if ( clear ) { '' @ nm @ ''_clear('' @ args @ ''); }''"
| "cpp_stmt_str (C_raw s) = s"

record cpp_fun =
  cf_ret :: string
  cf_name :: string
  cf_params :: string
  cf_const :: bool
  cf_body :: "cpp_stmt list"

text \<open>A function of one statement is printed on one line.\<close>

definition fun_lines :: "cpp_fun \<Rightarrow> string list" where
  "fun_lines f =
     (let head = ''    '' @ cf_ret f @ '' '' @ cf_name f @ ''('' @ cf_params f @ '')'' @ (if cf_const f then '' const'' else '''') @ '' {'' in
      case cf_body f of
        [s] \<Rightarrow> [head @ '' '' @ cpp_stmt_str s @ '' }'']
      | ss \<Rightarrow> [head] @ map (\<lambda>s. ''        '' @ cpp_stmt_str s) ss @ [''    }''])"

datatype cpp_item = Cpp_comment string | Cpp_member cpp_fun

fun cpp_item_lines :: "cpp_item \<Rightarrow> string list" where
  "cpp_item_lines (Cpp_comment s) = [s]"
| "cpp_item_lines (Cpp_member f) = fun_lines f"

fun cpp_members :: "cpp_item list \<Rightarrow> cpp_fun list" where
  "cpp_members [] = []"
| "cpp_members (Cpp_comment s # is) = cpp_members is"
| "cpp_members (Cpp_member f # is) = f # cpp_members is"

definition const_fun :: "string \<Rightarrow> string \<Rightarrow> string \<Rightarrow> cpp_stmt list \<Rightarrow> cpp_item" where
  "const_fun ret nm params body =
     Cpp_member \<lparr>cf_ret = ret, cf_name = nm, cf_params = params, cf_const = True, cf_body = body\<rparr>"

definition member_fun :: "string \<Rightarrow> string \<Rightarrow> string \<Rightarrow> cpp_stmt list \<Rightarrow> cpp_item" where
  "member_fun ret nm params body =
     Cpp_member \<lparr>cf_ret = ret, cf_name = nm, cf_params = params, cf_const = False, cf_body = body\<rparr>"

definition inst_fun :: "string \<Rightarrow> string \<Rightarrow> string \<Rightarrow> cpp_item" where
  "inst_fun nm cls inst = const_fun (''std::shared_ptr<'' @ cls @ ''>'') (nm @ ''_inst'') '''' [C_raw (''return '' @ inst @ '';'')]"

section \<open>The functions of a register\<close>

definition cpp_read_idx_items :: "string \<Rightarrow> string \<Rightarrow> string \<Rightarrow> string \<Rightarrow> string \<Rightarrow> string \<Rightarrow> cpp_item list" where
  "cpp_read_idx_items nm x inst t_elem rd_c rd =
     [const_fun t_elem (nm @ ''_read_idx_cached'' @ x) ''addr_t idx'' [C_return inst rd_c ''idx''],
      member_fun t_elem (nm @ ''_read_idx'' @ x) ''addr_t idx'' [C_return inst rd ''idx'']]"

definition cpp_read_items :: "string \<Rightarrow> string \<Rightarrow> string \<Rightarrow> string \<Rightarrow> string \<Rightarrow> string \<Rightarrow> cpp_item list" where
  "cpp_read_items nm x inst t_str rd_c rd =
     [const_fun t_str (nm @ ''_read_cached'' @ x) '''' [C_return inst rd_c ''''],
      member_fun t_str (nm @ ''_read'' @ x) '''' [C_return inst rd '''']]"

definition cpp_read_clear_item :: "string \<Rightarrow> string \<Rightarrow> string \<Rightarrow> string \<Rightarrow> string \<Rightarrow> cpp_item" where
  "cpp_read_clear_item nm x inst t_str rd =
     member_fun t_str (nm @ ''_read'' @ x) ''bool clear''
       [C_val t_str ''val'' inst rd '''', C_if_clear nm '''', C_raw ''return val;'']"

definition cpp_write_items :: "string \<Rightarrow> string \<Rightarrow> string \<Rightarrow> string \<Rightarrow> string \<Rightarrow> string \<Rightarrow> string \<Rightarrow> cpp_item list" where
  "cpp_write_items nm sfx x inst t_wr wr_c wr =
     [member_fun ''void'' (nm @ ''_write_cached'' @ x) ('' '' @ t_wr @ '' value '') [C_do inst wr_c ''value''],
      member_fun ''void'' (nm @ sfx @ x) ('' '' @ t_wr @ '' value '') [C_do inst wr ''value'']]"

definition cpp_write_idx_items :: "string \<Rightarrow> string \<Rightarrow> string \<Rightarrow> string \<Rightarrow> string \<Rightarrow> string \<Rightarrow> string \<Rightarrow> cpp_item list" where
  "cpp_write_idx_items nm sfx x inst t_elem wr_c wr =
     [member_fun ''void'' (nm @ ''_write_idx_cached'' @ x) (''addr_t idx, '' @ t_elem @ '' val'') [C_do inst wr_c ''idx, val''],
      member_fun ''void'' (nm @ sfx @ x) (''addr_t idx, '' @ t_elem @ '' val'') [C_do inst wr ''idx, val'']]"

text \<open>The types and the calls the functions of a register are made with\<close>

record cpp_reg_text =
  ct_inst :: string
  ct_str :: string
  ct_wr :: string
  ct_elem :: string
  ct_rd_c :: string
  ct_rd :: string
  ct_wr_c :: string
  ct_write :: string
  ct_idx :: string

definition cpp_acc_items :: "acc \<Rightarrow> string \<Rightarrow> string \<Rightarrow> cpp_reg_text \<Rightarrow> bool \<Rightarrow> cpp_item list res" where
  "cpp_acc_items ac nm x c is_vec_int =
     (let inst = ct_inst c;
          idx = (if is_vec_int then
            cpp_read_idx_items nm x inst (ct_elem c) (''read_idx_'' @ ct_idx c @ ''_cached'') (''read_idx_'' @ ct_idx c) else []);
          wr_idx_c = ''write_idx_'' @ ct_idx c @ ''_cached''; wr_idx = ''write_idx_'' @ ct_idx c in
      case ac of
        Acc_k \<Rightarrow> Inr [const_fun (ct_str c) nm '''' [C_return inst (ct_rd_c c) '''']]
      | Acc_ro \<Rightarrow> Inr (cpp_read_items nm x inst (ct_str c) (ct_rd_c c) (ct_rd c) @ idx)
      | Acc_rc \<Rightarrow> Inr (
          [const_fun (ct_str c) (nm @ ''_read_cached'' @ x) '''' [C_return inst (ct_rd_c c) ''''],
           cpp_read_clear_item nm x inst (ct_str c) (ct_rd c),
           member_fun ''void'' (nm @ ''_clear'') '''' [C_do inst ''write_zero'' '''']] @ idx @
          (if is_vec_int then [member_fun ''void'' (nm @ ''_clear_idx'') ''addr_t idx'' [C_do inst wr_idx ''idx, 0'']] else []))
      | Acc_rw \<Rightarrow> Inr (
          cpp_read_items nm x inst (ct_str c) (ct_rd_c c) (ct_rd c) @
          cpp_write_items nm ''_write'' x inst (ct_wr c) (ct_wr_c c) (ct_write c) @ idx @
          (if is_vec_int then cpp_write_idx_items nm ''_write_idx'' x inst (ct_elem c) wr_idx_c wr_idx else []))
      | Acc_wt \<Rightarrow> Inr (
          cpp_read_items nm x inst (ct_str c) (ct_rd_c c) (ct_rd c) @
          (if \<not> is_vec_int then cpp_write_items nm ''_write_trigger'' x inst (ct_wr c) (ct_wr_c c) (ct_write c) else []) @ idx @
          (if is_vec_int then cpp_write_idx_items nm ''_write_trigger_idx'' x inst (ct_elem c) wr_idx_c wr_idx else []))
      | Acc_na \<Rightarrow> Inl AssertionError)"

text \<open>The functions with the value conversion\<close>

definition cpp_convert_items :: "'a recipe_k_scheme \<Rightarrow> string \<Rightarrow> cpp_item list res" where
  "cpp_convert_items r inst =
     (let nm = rr_name r; vec = rt_is_vec_int (rr_t r);
          t_user = cpp_value_user_type_str r False False; t_wr = cpp_value_user_type_str r True False;
          t_one = cpp_value_user_type_str r False True;
          f = (\<lambda>s. s @ (if vec then ''_vec_converted'' else ''_converted'')) in
      if rr_acc r = Acc_k then Inl AssertionError
      else Inr (
        [Cpp_comment (''    // '' @ nm @ '': value conversion, see the recipe v_convert_wr / v_convert_rd / v_type'')] @
        (if rr_acc r \<in> {Acc_ro, Acc_rc, Acc_rw, Acc_wt} then
           [const_fun t_user (nm @ ''_read_cached'') '''' [C_return inst (f ''read'' @ ''_cached'') ''''],
            if rr_acc r = Acc_rc then cpp_read_clear_item nm '''' inst t_user (f ''read'')
            else member_fun t_user (nm @ ''_read'') '''' [C_return inst (f ''read'') '''']] @
           (if rr_acc r = Acc_rw then cpp_write_items nm ''_write'' '''' inst t_wr (f ''write'' @ ''_cached'') (f ''write'') else []) @
           (if rr_acc r = Acc_wt \<and> \<not> vec
            then cpp_write_items nm ''_write_trigger'' '''' inst t_wr (f ''write'' @ ''_cached'') (f ''write'') else []) @
           (if vec then
              cpp_read_idx_items nm '''' inst t_one ''read_idx_converted_cached'' ''read_idx_converted'' @
              (if rr_acc r = Acc_rw
               then cpp_write_idx_items nm ''_write_idx'' '''' inst t_one ''write_idx_converted_cached'' ''write_idx_converted'' else []) @
              (if rr_acc r = Acc_wt
               then cpp_write_idx_items nm ''_write_trigger_idx'' '''' inst t_one ''write_idx_converted_cached'' ''write_idx_converted''
               else [])
            else [])
         else [])))"

definition cpp_reg_functions_not_flag :: "py_impl \<Rightarrow> bool \<Rightarrow> 'a recipe_k_scheme \<Rightarrow> cpp_item list res" where
  "cpp_reg_functions_not_flag pf is_k r =
     (let nm = rr_name r; t = rr_t r; inst = cpp_reg_to_inst_str is_k nm; vec = rt_is_vec_int t in
      rbind (rassert (rt_width t \<noteq> None)) (\<lambda>_.
      rbind (read_value_function_str t True Sw_cpp) (\<lambda>rd_c.
      rbind (read_value_function_str t False Sw_cpp) (\<lambda>rd.
      rbind (write_value_function_str t True Sw_cpp) (\<lambda>wr_c.
      rbind (write_value_function_str t False Sw_cpp) (\<lambda>wr.
      rbind (if vec then value_kind_function_str t else Inr '''') (\<lambda>kind.
      rbind (cpp_acc_items (rr_acc r) nm (if has_v_convert_opt r then ''_raw'' else '''')
               \<lparr>ct_inst = inst, ct_str = cpp_value_ret_type_str t False False, ct_wr = cpp_value_ret_type_str t False True,
                ct_elem = cpp_value_ret_type_str t True False, ct_rd_c = rd_c, ct_rd = rd, ct_wr_c = wr_c, ct_write = wr,
                ct_idx = kind\<rparr> vec) (\<lambda>items.
      rbind (if has_v_convert_opt r then cpp_convert_items r inst else Inr []) (\<lambda>conv.
        Inr ([Cpp_comment (''    //'' @ nm @ '': '' @ toml_str pf (rr_desc r)), inst_fun nm (reg_inst_type_str r) inst] @
          items @ conv))))))))))"
section \<open>The functions of a flag register\<close>

definition cpp_flag_items :: "py_impl \<Rightarrow> bool \<Rightarrow> acc \<Rightarrow> recipe_flag \<Rightarrow> cpp_item list res" where
  "cpp_flag_items pf is_k ac f =
     (let nm = fl_name f; inst = cpp_reg_to_inst_str is_k nm; vec = fl_vec_len f \<noteq> None;
          t_str = (if vec then ''std::vector<bool>'' else ''bool'');
          t_wr = (if vec then const_ref True t_str else ''bool'');
          b = (if vec then ''vec_bool'' else ''bool'');
          reads = cpp_read_items nm '''' inst t_str (''read_'' @ b @ ''_cached'') (''read_'' @ b) in
      rbind (case fl_vec_len f of
               None \<Rightarrow> Inr []
             | Some n \<Rightarrow> rbind (to_cpp_source pf n) (\<lambda>n. Inr [const_fun ''size_t'' (nm @ ''_len'') '''' [C_raw (''return '' @ n @ '';'')]])) (\<lambda>len_items.
      rbind (case ac of
               Acc_k \<Rightarrow> Inr [const_fun t_str nm '''' [C_return inst (''read_'' @ b @ ''_cached'') '''']]
             | Acc_ro \<Rightarrow> Inr reads
             | Acc_rc \<Rightarrow> Inr reads
             | Acc_rw \<Rightarrow> Inr (reads @ cpp_write_items nm ''_write'' '''' inst t_wr (''write_'' @ b @ ''_cached'') (''write_'' @ b))
             | Acc_wt \<Rightarrow> Inr (reads @
                 [member_fun ''void'' (nm @ ''_trigger'') ('' '' @ t_wr @ '' value '') [C_do inst (''write_'' @ b) ''value''],
                  member_fun ''void'' (nm @ ''_write_cached'') ('' '' @ t_wr @ '' value '') [C_do inst (''write_'' @ b @ ''_cached'') ''value'']])
             | Acc_na \<Rightarrow> Inl AssertionError) (\<lambda>items.
        Inr (len_items @ items))))"

definition cpp_reg_functions_is_flag :: "py_impl \<Rightarrow> bool \<Rightarrow> 'a recipe_k_scheme \<Rightarrow> cpp_item list res" where
  "cpp_reg_functions_is_flag pf is_k r =
     (case rr_flags r of
        None \<Rightarrow> Inl AssertionError
      | Some fs \<Rightarrow>
          rbind (rassert (rt_kind (rr_t r) = VK_flag)) (\<lambda>_.
            let nm = rr_name r; inst = cpp_reg_to_inst_str is_k nm in
          rbind (rmapM (cpp_flag_items pf is_k (rr_acc r)) fs) (\<lambda>items.
            Inr (
              [Cpp_comment ''    // ------------------'', Cpp_comment (''    // '' @ nm @ '':Start''),
               Cpp_comment (''    //    '' @ toml_str pf (rr_desc r) @ [CHR 0x22])] @
              (if rr_acc r \<noteq> Acc_k then
                 [inst_fun nm (reg_inst_type_str r) inst,
                  member_fun ''void'' (nm @ ''_update_cache'') '''' [C_do inst ''update_cache'' ''''],
                  member_fun ''void'' (nm @ ''_write_cache'') '''' [C_do inst ''write_cache'' '''']] @
                 (if rr_acc r = Acc_rc then [member_fun ''void'' (nm @ ''_clear'') '''' [C_do inst ''write_zero'' '''']] else [])
               else []) @
              concat items @
              [Cpp_comment (''    // '' @ nm @ '':End''), Cpp_comment ''    // ------------------'']))))"

definition cpp_reg_functions :: "py_impl \<Rightarrow> bool \<Rightarrow> 'a recipe_k_scheme \<Rightarrow> cpp_item list res" where
  "cpp_reg_functions pf is_k r =
     (if rr_flags r \<noteq> None then cpp_reg_functions_is_flag pf is_k r else cpp_reg_functions_not_flag pf is_k r)"

section \<open>The functions of values and memories\<close>

definition cpp_ipkg_item :: "py_impl \<Rightarrow> recipe_ipkg \<Rightarrow> cpp_item res" where
  "cpp_ipkg_item pf i =
     rbind (case ri_value i of
              Val_toml (TStr s) \<Rightarrow> Inr (''std::string'', dquoted s)
            | Val_tree (RStr s) \<Rightarrow> Inr (''std::string'', dquoted s)
            | v \<Rightarrow> rbind (rbind (ipkg_tree v) (to_cpp_source pf)) (\<lambda>value. Inr (''int'', value))) (\<lambda>(t_str, value).
       Inr (const_fun t_str (ri_name i) '''' [C_raw (''return '' @ value @ '';'')]))"

definition BYTES :: string where "BYTES = ''std::vector<uint8_t>''"

definition cpp_mem_items :: "py_impl \<Rightarrow> recipe_mem \<Rightarrow> cpp_item list" where
  "cpp_mem_items pf m =
     (let nm = rm_name m; inst = cpp_name_to_ext_mem nm in
      [Cpp_comment (''    //'' @ nm @ '': '' @ toml_str pf (rm_desc m)),
       inst_fun nm ''ExternalMem'' inst,
       const_fun ''addr_t'' (nm @ ''_size'') '''' [C_return inst ''size'' '''']] @
      (if rm_acc m = Acc_rc then
         [member_fun ''void'' (nm @ ''_clear'') ''addr_t addr, addr_t size'' [C_do inst ''write'' (''addr, '' @ BYTES @ ''(size)'')],
          member_fun BYTES (nm @ ''_read'') ''addr_t addr, addr_t size, bool clear = false''
            [C_val BYTES ''data'' inst ''read'' ''addr, size'', C_if_clear nm ''addr, size'', C_raw ''return data;'']]
       else
         (if rm_acc m \<in> {Acc_rw, Acc_wt} then
            [member_fun ''void'' (nm @ ''_write'') (''addr_t addr, '' @ const_ref True BYTES @ '' data'') [C_do inst ''write'' ''addr, data'']]
          else []) @
         [member_fun BYTES (nm @ ''_read'') ''addr_t addr, addr_t size'' [C_return inst ''read'' ''addr, size'']]))"

section \<open>The include line\<close>

text \<open>
  The path from the include root on, or the path relative to the directory of the source, as
  \<^verbatim>\<open>os.path.relpath\<close> makes it for resolved paths; a backslash becomes a slash.
\<close>

fun from_include_root :: "string list \<Rightarrow> string list option" where
  "from_include_root (p # q # ps) =
     (if p = ''hdlskel'' \<and> q = ''skmap'' then Some (p # q # ps) else from_include_root (q # ps))"
| "from_include_root _ = None"

fun relpath_parts :: "string list \<Rightarrow> string list \<Rightarrow> string list" where
  "relpath_parts (p # ps) (s # ss) =
     (if p = s then relpath_parts ps ss else replicate (length (s # ss)) ''..'' @ p # ps)"
| "relpath_parts ps ss = replicate (length ss) ''..'' @ ps"

definition relpath :: "string list \<Rightarrow> string list \<Rightarrow> string" where
  "relpath p start = (case relpath_parts p start of [] \<Rightarrow> ''.'' | ps \<Rightarrow> str_join ''/'' ps)"

definition hpp_include_str :: "string list \<Rightarrow> string list \<Rightarrow> string" where
  "hpp_include_str hpp cpp =
     (case from_include_root hpp of
        Some ps \<Rightarrow> str_join ''/'' ps
      | None \<Rightarrow> map (\<lambda>c. if c = CHR 0x5C then CHR ''/'' else c) (relpath hpp (butlast cpp)))"

section \<open>The two files\<close>

definition skmap_ver_text :: string where
  "skmap_ver_text = ''v'' @ py_str_int SKMAP_VER_MAJOR @ ''.'' @ py_str_int SKMAP_VER_MINOR @ ''.'' @ py_str_int SKMAP_VER_PATCH"

definition cpp_file_header :: "py_impl \<Rightarrow> string \<Rightarrow> recipe \<Rightarrow> string list" where
  "cpp_file_header pf path r =
     [''//-------------------------------------------------------------------------------'',
      ''// NOTE: this file is autogenerated:'',
      ''//    * From '' @ path,
      ''//    * Using HDLSkel SkMap '' @ skmap_ver_text,
      ''//    * For '' @ toml_str pf (rc_name r) @ '' '' @ rc_id r @ '' v'' @ toml_str pf (rc_version r),
      ''//    * Checksum 0x'' @ recipe_checksum_str r,
      ''//-------------------------------------------------------------------------------'']"

definition hpp_class_head :: "py_impl \<Rightarrow> recipe \<Rightarrow> string list" where
  "hpp_class_head pf r =
     (let name = toml_str pf (rc_name r); version = toml_str pf (rc_version r); cls = toml_str pf (rc_sw_module r) in
      [''#pragma once'',
       ''#include '' @ dquoted ''hdlskel/skmap/basic_types.hpp'', ''#include '' @ dquoted ''hdlskel/skmap/reg.hpp'',
       ''#include '' @ dquoted ''hdlskel/skmap/module.hpp'', ''#include '' @ dquoted ''hdlskel/skmap/recipe_functions.hpp'', '''',
       ''#include <cassert>'', ''#include <cmath>'', ''#include <memory>'', ''#include <string>'', ''#include <vector>'', '''',
       ''namespace '' @ cpp_namespace @ '' {'', '''',
       ''class '' @ cls @ '' : public skmap::Module {'', ''public:'',
       ''    static std::string class_name() { return '' @ dquoted name @ ''; }'',
       ''    static id_t class_id() {'',
       ''        const static id_t id = id_str_to_id('' @ dquoted (rc_id r) @ '');'', ''        return id;'', ''    };'',
       ''    constexpr static version_t   class_version   = '' @ version @ '';'',
       ''    constexpr static checksum_t  class_checksum  = 0x'' @ recipe_checksum_str r @ '';'', '''',
       ''    std::string        name()     const override { return '' @ cls @ ''::class_name(); }'',
       ''    id_t        id()       const override { return '' @ cls @ ''::class_id(); }'',
       ''    version_t   version()  const override { return '' @ cls @ ''::class_version; }'',
       ''    checksum_t  checksum() const override { return '' @ cls @ ''::class_checksum; }'', '''',
       ''    int  skmap_ver_major() const override { return '' @ py_str_int SKMAP_VER_MAJOR @ ''; }'',
       ''    int  skmap_ver_minor() const override { return '' @ py_str_int SKMAP_VER_MINOR @ ''; }'',
       ''    int  skmap_ver_patch() const override { return '' @ py_str_int SKMAP_VER_PATCH @ ''; }'',
       ''    std::string skmap_ver_str() const override { return '' @ dquoted skmap_ver_text @ ''; }'', '''',
       ''    static bool registered;''])"

text \<open>The pointers to the flags and to the register\<close>

definition member_line :: "string \<Rightarrow> string \<Rightarrow> string" where
  "member_line cls nm = ''    std::shared_ptr<'' @ cls @ ''> '' @ nm @ '';''"

definition reg_member_lines :: "bool \<Rightarrow> 'a recipe_k_scheme \<Rightarrow> string list" where
  "reg_member_lines is_k r =
     (case rr_flags r of
        Some fs \<Rightarrow>
          (if rt_kind (rr_t r) = VK_flag then
             map (\<lambda>f. member_line (if fl_vec_len f \<noteq> None then ''RFlagVec'' else ''RFlag'') (cpp_reg_to_inst_str is_k (fl_name f))) fs
           else [])
      | None \<Rightarrow> []) @
     [member_line (reg_inst_type_str r) (cpp_reg_to_inst_str is_k (rr_name r))]"

definition cpp_class_items :: "py_impl \<Rightarrow> recipe \<Rightarrow> cpp_item list res" where
  "cpp_class_items pf r =
     rbind (rmapM (cpp_ipkg_item pf) (rc_ipkg r)) (\<lambda>is.
     rbind (rmapM (cpp_reg_functions pf True) (rc_k r)) (\<lambda>ks.
     rbind (rmapM (cpp_reg_functions pf False) (rc_var r)) (\<lambda>vs.
       Inr (is @ concat ks @ concat vs @ concat (map (cpp_mem_items pf) (rc_mem r))))))"

definition hpp_lines :: "py_impl \<Rightarrow> string \<Rightarrow> recipe \<Rightarrow> cpp_item list \<Rightarrow> string list" where
  "hpp_lines pf path r items =
     (let cls = toml_str pf (rc_sw_module r) in
      cpp_file_header pf path r @ hpp_class_head pf r @ concat (map cpp_item_lines items) @
      ['''', ''protected:'', ''    void init_reg_map_k()   override;'', ''    void init_reg_map_var() override;''] @
      (if rc_mem r \<noteq> [] then [''    void init_last() override;''] else []) @
      ['''', ''    virtual std::shared_ptr<Module> make_empty() const override {'',
       ''        return std::make_shared<'' @ cls @ ''>();'', ''    };'', '''', ''private:''] @
      concat (map (reg_member_lines True) (rc_k r)) @ concat (map (reg_member_lines False) (rc_var r)) @
      map (\<lambda>m. member_line ''ExternalMem'' (cpp_name_to_ext_mem (rm_name m))) (rc_mem r) @
      [''};'', ''const bool module_'' @ toml_str pf (rc_name r) @ ''_registered = '' @ cls @ ''::registered;'', ''}''])"

definition cpp_flag_init_line :: "py_impl \<Rightarrow> bool \<Rightarrow> recipe_flag \<Rightarrow> string res" where
  "cpp_flag_init_line pf is_k f =
     rbind (to_cpp_source pf (fl_bit f)) (\<lambda>bit.
     rbind (case fl_vec_len f of
              None \<Rightarrow> Inr ('''', '''')
            | Some n \<Rightarrow> rbind (to_cpp_source pf n) (\<lambda>n. Inr (''_vec'', '', '' @ n))) (\<lambda>(vec, vec_len).
       Inr (''    '' @ cpp_reg_to_inst_str is_k (fl_name f) @ '' = make_r_flag'' @ vec @ ''('' @ dquoted (fl_name f) @ '', '' @ bit
         @ '', Ass::'' @ ass_name (fl_ass f) @ '', '' @ dquoted (toml_str pf (fl_desc f)) @ vec_len @ '');'')))"

definition cpp_width_source :: "py_impl \<Rightarrow> recipe_type \<Rightarrow> string res" where
  "cpp_width_source pf t = (case rt_width t of None \<Rightarrow> Inl TypeError | Some w \<Rightarrow> to_cpp_source pf w)"

definition cpp_flags_init_lines :: "py_impl \<Rightarrow> bool \<Rightarrow> 'a recipe_k_scheme \<Rightarrow> recipe_flag list \<Rightarrow> string list res" where
  "cpp_flags_init_lines pf is_k r fs =
     (let nm = cpp_reg_to_inst_str is_k (rr_name r) in
      rbind (rmapM (cpp_flag_init_line pf is_k) fs) (\<lambda>flags.
      rbind (cpp_width_source pf (rr_t r)) (\<lambda>width.
        Inr (flags @ [''    std::vector<std::shared_ptr<RFlag>> '' @ nm @ ''_flags;''] @
          map (\<lambda>f. ''    push_back_flag('' @ nm @ ''_flags, '' @ cpp_reg_to_inst_str is_k (fl_name f) @ '');'') fs @
          [''    '' @ nm @ '' = make_reg_flags'' @ (if is_k then ''_k'' else '''') @ ''('' @ dquoted (rr_name r)
            @ (if is_k then '''' else '', Acc::'' @ acc_name (rr_acc r)) @ '', '' @ width @ '', '' @ nm @ ''_flags, ''
            @ dquoted (toml_str pf (rr_desc r)) @ '');'']))))"

definition cpp_k_init_lines :: "py_impl \<Rightarrow> recipe_k \<Rightarrow> string list res" where
  "cpp_k_init_lines pf k =
     (let nm = cpp_name_to_reg_k (rr_name k);
          plain = rbind (cpp_value_type_str pf (rr_t k)) (\<lambda>t_str.
            rbind (value_check_str_cpp pf k) (\<lambda>check.
              Inr [''    '' @ nm @ '' = '' @ (if rt_is_vec (rr_t k) then ''make_reg_vec_k'' else ''make_reg_k'') @ ''('' @ dquoted (rr_name k)
                @ '', '' @ t_str @ '', '' @ dquoted (toml_str pf (rr_desc k))
                @ (if vo_v_check (rr_opts k) = None then ''''
                   else '', '' @ check @ '', VType::'' @ v_type_str (vo_v_type (rr_opts k))) @ '');''])) in
      rbind (case rr_flags k of
               Some fs \<Rightarrow> if rt_kind (rr_t k) = VK_flag then cpp_flags_init_lines pf True k fs else plain
             | None \<Rightarrow> plain) (\<lambda>ls.
        Inr (ls @ [''    add_reg_k('' @ nm @ '');''])))"

definition cpp_var_init_lines :: "py_impl \<Rightarrow> recipe_var \<Rightarrow> string list res" where
  "cpp_var_init_lines pf v =
     (let nm = cpp_name_to_reg_var (rr_name v); o_v = rr_opts v;
          plain = rbind (cpp_value_type_str pf (rr_t v)) (\<lambda>t_str.
            rbind (if rr_ass v \<noteq> Ass_none \<or> vo_v_check o_v \<noteq> None \<or> vo_v_convert_wr o_v \<noteq> None then
                     rbind (value_check_str_cpp pf v) (\<lambda>check.
                     rbind (value_convert_str_cpp pf v) (\<lambda>convert.
                       Inr ('', Ass::'' @ ass_name (rr_ass v) @ '', '' @ check @ '', '' @ convert @ '', VType::'' @ v_type_str (vo_v_type o_v))))
                   else Inr '''') (\<lambda>extra.
              Inr [''    '' @ nm @ '' = '' @ (if rt_is_vec (rr_t v) then ''make_reg_vec'' else ''make_reg'') @ ''('' @ dquoted (rr_name v)
                @ '', Acc::'' @ acc_name (rr_acc v) @ '', '' @ t_str @ '', '' @ dquoted (toml_str pf (rr_desc v)) @ extra @ '');''])) in
      rbind (case rr_flags v of
               Some fs \<Rightarrow> if rt_kind (rr_t v) = VK_flag then cpp_flags_init_lines pf False v fs else plain
             | None \<Rightarrow> plain) (\<lambda>ls.
        Inr (ls @ [''    add_reg_var('' @ nm @ '');''])))"

definition cpp_mem_init_lines :: "py_impl \<Rightarrow> nat \<Rightarrow> recipe_mem \<Rightarrow> string list res" where
  "cpp_mem_init_lines pf ii m =
     (let nm = cpp_name_to_ext_mem (rm_name m) in
      rbind (cpp_value_type_str pf (rm_t m)) (\<lambda>t_str.
        Inr [''    '' @ nm @ '' = external_mem_at('' @ py_str_int (int ii) @ '');'',
             ''    '' @ nm @ ''->details('' @ dquoted (rm_name m) @ '', '' @ t_str @ '', Acc::'' @ acc_name (rm_acc m) @ '', ''
               @ dquoted (toml_str pf (rm_desc m)) @ '');'']))"

definition generate_cpp_module ::
  "py_impl \<Rightarrow> string \<Rightarrow> string list \<Rightarrow> string list \<Rightarrow> recipe \<Rightarrow> (string list \<times> string list) res" where
  "generate_cpp_module pf path hpp cpp r =
     (let cls = toml_str pf (rc_sw_module r) in
      rbind (cpp_class_items pf r) (\<lambda>items.
      rbind (rmapM (cpp_k_init_lines pf) (rc_k r)) (\<lambda>ks.
      rbind (rmapM (cpp_var_init_lines pf) (rc_var r)) (\<lambda>vs.
      rbind (rmapM (\<lambda>(ii, m). cpp_mem_init_lines pf ii m) (enumerate 0 (rc_mem r))) (\<lambda>ms.
        Inr (hpp_lines pf path r items,
          cpp_file_header pf path r @
          ['''', ''#include '' @ dquoted (hpp_include_str hpp cpp), '''', ''namespace '' @ cpp_namespace @ '' {'', '''',
           ''bool '' @ cls @ ''::registered = Module::register_module(std::make_shared<'' @ cls @ ''>());'', ''''] @
          [''void '' @ cls @ ''::init_reg_map_k() {''] @ concat ks @ [''}'', ''''] @
          [''void '' @ cls @ ''::init_reg_map_var() {''] @ concat vs @ [''}''] @
          (if rc_mem r \<noteq> [] then
             ['''', ''void '' @ cls @ ''::init_last() {'', ''    assert(len_external_mem() == '' @ py_str_int (int (length (rc_mem r))) @ '');''] @
             concat ms @ [''}'']
           else []) @
          [''}'']))))))"
section \<open>Lemmas: the functions of a list of items\<close>

definition cpp_names :: "cpp_item list \<Rightarrow> string list" where
  "cpp_names is = map cf_name (cpp_members is)"

lemma cpp_members_append [simp]: "cpp_members (xs @ ys) = cpp_members xs @ cpp_members ys"
  by (induction xs rule: cpp_members.induct) simp_all

lemma cpp_names_simps [simp]:
  "cpp_names [] = []"
  "cpp_names (Cpp_comment s # is) = cpp_names is"
  "cpp_names (const_fun ret nm ps body # is) = nm # cpp_names is"
  "cpp_names (member_fun ret nm ps body # is) = nm # cpp_names is"
  "cpp_names (inst_fun nm cls inst # is) = (nm @ ''_inst'') # cpp_names is"
  "cpp_names (cpp_read_clear_item nm x inst t_str rd # is) = (nm @ ''_read'' @ x) # cpp_names is"
  "cpp_names (xs @ ys) = cpp_names xs @ cpp_names ys"
  "cpp_names (if b then xs else ys) = (if b then cpp_names xs else cpp_names ys)"
  by (simp_all add: cpp_names_def const_fun_def member_fun_def inst_fun_def cpp_read_clear_item_def)

lemmas cpp_items_defs = cpp_read_items_def cpp_read_idx_items_def cpp_write_items_def cpp_write_idx_items_def

lemma cpp_acc_items_names:
  "cpp_acc_items ac nm x c v = Inr body \<Longrightarrow> ac \<noteq> Acc_na \<and> cpp_names body = map (\<lambda>u. nm @ u) (acc_suffixes ac x v)"
  by (cases ac; cases v) (auto simp: cpp_acc_items_def Let_def cpp_items_defs acc_suffixes_def)

lemma cpp_convert_items_names:
  "cpp_convert_items r inst = Inr conv \<Longrightarrow> rr_acc r \<noteq> Acc_na \<Longrightarrow>
   cpp_names conv = map (\<lambda>u. rr_name r @ u) (convert_suffixes (rr_acc r) (rt_is_vec_int (rr_t r)))"
  by (cases "rr_acc r"; cases "rt_is_vec_int (rr_t r)")
    (auto simp: cpp_convert_items_def Let_def cpp_items_defs convert_suffixes_def)

lemma cpp_not_flag_items:
  assumes "cpp_reg_functions_not_flag pf is_k r = Inr items"
  obtains c x body conv inst where
    "read_value_function_str (rr_t r) True Sw_cpp = Inr (ct_rd_c c)" "read_value_function_str (rr_t r) False Sw_cpp = Inr (ct_rd c)"
    "write_value_function_str (rr_t r) True Sw_cpp = Inr (ct_wr_c c)" "write_value_function_str (rr_t r) False Sw_cpp = Inr (ct_write c)"
    "rt_is_vec_int (rr_t r) \<longrightarrow> value_kind_function_str (rr_t r) = Inr (ct_idx c)"
    "ct_inst c = inst" "ct_str c = cpp_value_ret_type_str (rr_t r) False False" "ct_elem c = cpp_value_ret_type_str (rr_t r) True False"
    "x = (if has_v_convert_opt r then ''_raw'' else '''')"
    "cpp_members items = cpp_members [inst_fun (rr_name r) (reg_inst_type_str r) inst] @ cpp_members body @ cpp_members conv"
    "if has_v_convert_opt r then cpp_convert_items r inst = Inr conv else conv = []"
    "cpp_acc_items (rr_acc r) (rr_name r) x c (rt_is_vec_int (rr_t r)) = Inr body"
proof -
  let ?inst = "cpp_reg_to_inst_str is_k (rr_name r)" and ?t = "rr_t r"
  obtain rd_c rd wr_c wr kind body conv where
    1: "read_value_function_str ?t True Sw_cpp = Inr rd_c" "read_value_function_str ?t False Sw_cpp = Inr rd"
      "write_value_function_str ?t True Sw_cpp = Inr wr_c" "write_value_function_str ?t False Sw_cpp = Inr wr"
    and k: "(if rt_is_vec_int ?t then value_kind_function_str ?t else Inr '''') = Inr kind"
    and 2: "(if has_v_convert_opt r then cpp_convert_items r ?inst else Inr []) = Inr conv"
    and 3: "cpp_acc_items (rr_acc r) (rr_name r) (if has_v_convert_opt r then ''_raw'' else '''')
        \<lparr>ct_inst = ?inst, ct_str = cpp_value_ret_type_str ?t False False, ct_wr = cpp_value_ret_type_str ?t False True,
         ct_elem = cpp_value_ret_type_str ?t True False, ct_rd_c = rd_c, ct_rd = rd, ct_wr_c = wr_c, ct_write = wr,
         ct_idx = kind\<rparr> (rt_is_vec_int ?t) = Inr body" (is "cpp_acc_items _ _ _ ?c _ = _")
    and it: "items = [Cpp_comment (''    //'' @ rr_name r @ '': '' @ toml_str pf (rr_desc r)),
        inst_fun (rr_name r) (reg_inst_type_str r) ?inst] @ body @ conv"
    using assms unfolding cpp_reg_functions_not_flag_def Let_def rbind_Inr_iff by blast
  show ?thesis
    by (rule that [where c = ?c and inst = ?inst and conv = conv and body = body, OF _ _ _ _ _ _ _ _ refl _ _ 3]) (use 1 k 2 in \<open>auto simp: it inst_fun_def const_fun_def split: if_splits\<close>)
qed

lemma not_flag_same_names:
  assumes py: "all_reg_value_functions_str_not_flag pf is_k r = Inr py" and cpp: "cpp_reg_functions_not_flag pf is_k r = Inr items"
  shows "cpp_names items = item_names py"
proof -
  obtain rd_c rd wr_c wr kind x body conv hd_items inst where
    x: "x = (if has_v_convert_opt r then ''_raw'' else '''')"
    and py_items: "py = hd_items @ body @ conv" "item_names hd_items = [rr_name r @ ''_inst'']"
    and conv: "if has_v_convert_opt r then convert_items r inst = Inr conv else conv = []"
    and body: "acc_items (rr_acc r) (rr_name r) x inst (value_ret_type_str (rr_t r)) rd_c rd wr_c wr (rt_is_vec_int (rr_t r)) kind = Inr body"
    using py by (rule not_flag_items)
  obtain c body' conv' x' inst' where
    x': "x' = (if has_v_convert_opt r then ''_raw'' else '''')"
    and items: "cpp_members items = cpp_members [inst_fun (rr_name r) (reg_inst_type_str r) inst'] @ cpp_members body' @ cpp_members conv'"
    and conv': "if has_v_convert_opt r then cpp_convert_items r inst' = Inr conv' else conv' = []"
    and body': "cpp_acc_items (rr_acc r) (rr_name r) x' c (rt_is_vec_int (rr_t r)) = Inr body'"
    using cpp by (rule cpp_not_flag_items)
  note na = conjunct1 [OF cpp_acc_items_names [OF body']]
  have "cpp_names items = (rr_name r @ ''_inst'') # cpp_names body' @ cpp_names conv'"
    unfolding cpp_names_def items by (simp add: inst_fun_def const_fun_def)
  moreover have "cpp_names conv' = item_names conv"
    using conv conv' na by (auto simp: convert_items_names(2) cpp_convert_items_names split: if_splits)
  ultimately show ?thesis
    using py_items x x' acc_items_names [OF body] conjunct2 [OF cpp_acc_items_names [OF body']] by simp
qed

lemma flag_same_names:
  assumes "flag_items pf is_k ac f = Inr py" and "cpp_flag_items pf is_k ac f = Inr items"
  shows "cpp_names items = item_names py"
  using assms
  by (cases ac; cases "fl_vec_len f")
    (auto simp: flag_items_def cpp_flag_items_def Let_def rbind_Inr_iff read_items_def cpp_items_defs)

lemma rmapM_same:
  assumes "\<And>x y z. x \<in> set xs \<Longrightarrow> f x = Inr y \<Longrightarrow> g x = Inr z \<Longrightarrow> F z = G y"
  shows "rmapM f xs = Inr ys \<Longrightarrow> rmapM g xs = Inr zs \<Longrightarrow> map F zs = map G ys"
proof -
  have "\<forall>x \<in> set xs. \<forall>y z. f x = Inr y \<longrightarrow> g x = Inr z \<longrightarrow> F z = G y" using assms by blast
  then show "rmapM f xs = Inr ys \<Longrightarrow> rmapM g xs = Inr zs \<Longrightarrow> map F zs = map G ys"
    by (induction xs arbitrary: ys zs) (auto simp: rbind_Inr_iff)
qed

lemma item_names_concat: "item_names (concat ys) = concat (map item_names ys)"
  by (induction ys) simp_all

lemma cpp_names_concat: "cpp_names (concat ys) = concat (map cpp_names ys)"
  by (induction ys) simp_all

lemma rmapM_same_concat:
  assumes "\<And>x y z. x \<in> set xs \<Longrightarrow> f x = Inr y \<Longrightarrow> g x = Inr z \<Longrightarrow> cpp_names z = item_names y"
    and "rmapM f xs = Inr ys" and "rmapM g xs = Inr zs"
  shows "cpp_names (concat zs) = item_names (concat ys)"
  using rmapM_same [OF assms] by (simp add: item_names_concat cpp_names_concat)

lemma reg_same_names:
  assumes "all_reg_value_functions_str pf is_k r = Inr py" and "cpp_reg_functions pf is_k r = Inr items"
  shows "cpp_names items = item_names py"
proof (cases "rr_flags r")
  case None
  then show ?thesis using assms not_flag_same_names by (auto simp: all_reg_value_functions_str_def cpp_reg_functions_def)
next
  case (Some fs)
  then show ?thesis using assms
    by (auto simp: all_reg_value_functions_str_def cpp_reg_functions_def all_reg_value_functions_str_is_flag_def
      cpp_reg_functions_is_flag_def Let_def rbind_Inr_iff intro: rmapM_same_concat [OF flag_same_names])
qed

lemma mem_same_names: "cpp_names (cpp_mem_items pf m) = item_names (all_mem_value_functions_str pf m)"
  by (cases "rm_acc m") (simp_all add: cpp_mem_items_def all_mem_value_functions_str_def Let_def)

lemma ipkg_same_names:
  "all_ipkg_value_parameters_str pf i = Inr py \<Longrightarrow> cpp_ipkg_item pf i = Inr item \<Longrightarrow> cpp_names [item] = item_names py"
  by (auto simp: all_ipkg_value_parameters_str_def cpp_ipkg_item_def rbind_Inr_iff)

section \<open>Properties\<close>

text \<open>
  C20: the C++ class and the Python class generated from one recipe offer the same functions: the same
  names, in the same order, for every value, constant, register, flag and memory of the recipe.
\<close>

theorem cpp_python_same_functions:
  assumes "class_items pf r = Inr py" and "cpp_class_items pf r = Inr items"
  shows "map cf_name (cpp_members items) = map pm_name (item_methods py)"
proof -
  obtain ips ks vs where py: "rmapM (all_ipkg_value_parameters_str pf) (rc_ipkg r) = Inr ips"
      "rmapM (all_reg_value_functions_str pf True) (rc_k r) = Inr ks" "rmapM (all_reg_value_functions_str pf False) (rc_var r) = Inr vs"
      "py = concat ips @ concat ks @ concat vs @ concat (map (all_mem_value_functions_str pf) (rc_mem r))"
    using assms(1) unfolding class_items_def rbind_Inr_iff by blast
  obtain ips' ks' vs' where cpp: "rmapM (cpp_ipkg_item pf) (rc_ipkg r) = Inr ips'"
      "rmapM (cpp_reg_functions pf True) (rc_k r) = Inr ks'" "rmapM (cpp_reg_functions pf False) (rc_var r) = Inr vs'"
      "items = ips' @ concat ks' @ concat vs' @ concat (map (cpp_mem_items pf) (rc_mem r))"
    using assms(2) unfolding cpp_class_items_def rbind_Inr_iff by blast
  have "map (\<lambda>i. cpp_names [i]) ips' = map item_names ips"
    by (rule rmapM_same [OF ipkg_same_names py(1) cpp(1)])
  moreover have "cpp_names ips' = concat (map (\<lambda>i. cpp_names [i]) ips')"
    using cpp_names_concat [of "map (\<lambda>i. [i]) ips'"] by (simp add: o_def)
  ultimately have "cpp_names ips' = item_names (concat ips)" by (simp add: item_names_concat)
  moreover have "cpp_names (concat ks') = item_names (concat ks)" "cpp_names (concat vs') = item_names (concat vs)"
    by (rule rmapM_same_concat [OF _ py(2) cpp(2)] rmapM_same_concat [OF _ py(3) cpp(3)], erule (1) reg_same_names)+
  moreover have "cpp_names (concat (map (cpp_mem_items pf) (rc_mem r))) = item_names (concat (map (all_mem_value_functions_str pf) (rc_mem r)))"
    by (simp add: cpp_names_concat item_names_concat mem_same_names o_def)
  ultimately have "cpp_names items = item_names py" unfolding py(4) cpp(4) by simp
  then show ?thesis by (simp add: cpp_names_def item_names_def)
qed

lemma array_var_cpp_items: "\<not> isl (cpp_reg_functions_not_flag example_pf False (array_var 4 32))"
  by code_simp

theorem cpp_python_same_functions_witness:
  "\<exists>items. cpp_class_items example_pf (array_built id 4 32) = Inr items \<and>
     (\<exists>py. class_items example_pf (array_built id 4 32) = Inr py \<and>
       map cf_name (cpp_members items) = map pm_name (item_methods py))"
proof -
  let ?r = "array_built id 4 32"
  have lists: "rc_ipkg ?r = []" "rc_k ?r = []" "rc_var ?r = [array_var 4 32]" "rc_mem ?r = []" "rr_flags (array_var 4 32) = None"
    by (simp_all add: array_built_def Recipe_start_def array_var_def)
  have "\<exists>items. cpp_class_items example_pf ?r = Inr items" "\<exists>py. class_items example_pf ?r = Inr py"
    using array_var_cpp_items array_var_items
    by (cases "cpp_reg_functions_not_flag example_pf False (array_var 4 32)";
      cases "all_reg_value_functions_str_not_flag example_pf False (array_var 4 32)";
      simp add: cpp_class_items_def class_items_def lists cpp_reg_functions_def all_reg_value_functions_str_def)+
  then obtain items py where i: "cpp_class_items example_pf ?r = Inr items" and p: "class_items example_pf ?r = Inr py" by blast
  show ?thesis using cpp_python_same_functions [OF p i] i p by blast
qed

text \<open>
  The member functions of the run time classes \<^verbatim>\<open>Reg\<close> and \<^verbatim>\<open>RegVec\<close> that read and write: their result and
  whether they are \<^verbatim>\<open>const\<close>. \<^verbatim>\<open>RegVec\<close> inherits those of \<^verbatim>\<open>Reg\<close>.
\<close>

definition CPP_REG :: "(string \<times> string \<times> bool) list" where
  "CPP_REG =
     [(''read_uint_cached'', ''uint_t'', True), (''read_sint_cached'', ''sint_t'', True), (''read_bool_cached'', ''bool'', True),
      (''read_char_cached'', ''char'', True), (''read_uint'', ''uint_t'', False), (''read_sint'', ''sint_t'', False),
      (''read_bool'', ''bool'', False), (''read_char'', ''char'', False), (''write_uint_cached'', ''void'', False),
      (''write_sint_cached'', ''void'', False), (''write_bool_cached'', ''void'', False), (''write_char_cached'', ''void'', False),
      (''write_uint'', ''void'', False), (''write_sint'', ''void'', False), (''write_bool'', ''void'', False),
      (''write_char'', ''void'', False), (''write_zero'', ''void'', False), (''write_zero_cached'', ''void'', False),
      (''read_converted_cached'', ''float_t'', True), (''read_converted'', ''float_t'', False),
      (''write_converted_cached'', ''void'', False), (''write_converted'', ''void'', False),
      (''read_vec_bool_cached'', ''std::vector<bool>'', True), (''read_vec_bool'', ''std::vector<bool>'', False)]"

definition CPP_REG_VEC :: "(string \<times> string \<times> bool) list" where
  "CPP_REG_VEC = CPP_REG @
     [(''read_vec_uint_cached'', ''std::vector<uint_t>'', True), (''read_vec_uint'', ''std::vector<uint_t>'', False),
      (''read_vec_sint_cached'', ''std::vector<sint_t>'', True), (''read_vec_sint'', ''std::vector<sint_t>'', False),
      (''read_str_cached'', ''std::string'', True), (''read_str'', ''std::string'', False),
      (''write_vec_uint_cached'', ''void'', False), (''write_vec_uint'', ''void'', False), (''write_vec_sint_cached'', ''void'', False),
      (''write_vec_sint'', ''void'', False), (''write_vec_bool_cached'', ''void'', False), (''write_vec_bool'', ''void'', False),
      (''write_str_cached'', ''void'', False), (''write_str'', ''void'', False),
      (''read_idx_uint_cached'', ''uint_t'', True), (''read_idx_uint'', ''uint_t'', False), (''read_idx_sint_cached'', ''sint_t'', True),
      (''read_idx_sint'', ''sint_t'', False), (''write_idx_uint_cached'', ''void'', False), (''write_idx_uint'', ''void'', False),
      (''write_idx_sint_cached'', ''void'', False), (''write_idx_sint'', ''void'', False),
      (''read_vec_converted_cached'', ''std::vector<float_t>'', True), (''read_vec_converted'', ''std::vector<float_t>'', False),
      (''write_vec_converted_cached'', ''void'', False), (''write_vec_converted'', ''void'', False),
      (''read_idx_converted_cached'', ''float_t'', True), (''read_idx_converted'', ''float_t'', False),
      (''write_idx_converted_cached'', ''void'', False), (''write_idx_converted'', ''void'', False)]"

definition cpp_class :: "recipe_type \<Rightarrow> string \<Rightarrow> (string \<times> bool) option" where
  "cpp_class t = map_of (if rt_is_vec t then CPP_REG_VEC else CPP_REG)"

text \<open>The conversions C++ makes by itself: between the arithmetic types\<close>

definition converts :: "string \<Rightarrow> string \<Rightarrow> bool" where
  "converts a b \<longleftrightarrow> a = b \<or>
     (a \<in> {''uint_t'', ''sint_t'', ''bool'', ''char'', ''float_t''} \<and> b \<in> {''uint_t'', ''sint_t'', ''bool'', ''char'', ''float_t''})"

lemma cpp_reg_lookups:
  "map_of CPP_REG ''read_uint_cached'' = Some (''uint_t'', True)"
  "map_of CPP_REG ''read_uint'' = Some (''uint_t'', False)"
  "map_of CPP_REG ''read_sint_cached'' = Some (''sint_t'', True)"
  "map_of CPP_REG ''read_sint'' = Some (''sint_t'', False)"
  "map_of CPP_REG ''read_bool_cached'' = Some (''bool'', True)"
  "map_of CPP_REG ''read_bool'' = Some (''bool'', False)"
  "map_of CPP_REG ''read_char_cached'' = Some (''char'', True)"
  "map_of CPP_REG ''read_char'' = Some (''char'', False)"
  "map_of CPP_REG ''write_uint_cached'' = Some (''void'', False)"
  "map_of CPP_REG ''write_uint'' = Some (''void'', False)"
  "map_of CPP_REG ''write_sint_cached'' = Some (''void'', False)"
  "map_of CPP_REG ''write_sint'' = Some (''void'', False)"
  "map_of CPP_REG ''write_bool_cached'' = Some (''void'', False)"
  "map_of CPP_REG ''write_bool'' = Some (''void'', False)"
  "map_of CPP_REG ''write_char_cached'' = Some (''void'', False)"
  "map_of CPP_REG ''write_char'' = Some (''void'', False)"
  "map_of CPP_REG ''read_converted_cached'' = Some (''float_t'', True)"
  "map_of CPP_REG ''read_converted'' = Some (''float_t'', False)"
  "map_of CPP_REG ''write_converted_cached'' = Some (''void'', False)"
  "map_of CPP_REG ''write_converted'' = Some (''void'', False)"
  "map_of CPP_REG ''write_zero'' = Some (''void'', False)"
  by code_simp+

lemma cpp_reg_vec_lookups:
  "map_of CPP_REG_VEC ''read_vec_uint_cached'' = Some (''std::vector<uint_t>'', True)"
  "map_of CPP_REG_VEC ''read_vec_uint'' = Some (''std::vector<uint_t>'', False)"
  "map_of CPP_REG_VEC ''write_vec_uint_cached'' = Some (''void'', False)"
  "map_of CPP_REG_VEC ''write_vec_uint'' = Some (''void'', False)"
  "map_of CPP_REG_VEC ''read_vec_sint_cached'' = Some (''std::vector<sint_t>'', True)"
  "map_of CPP_REG_VEC ''read_vec_sint'' = Some (''std::vector<sint_t>'', False)"
  "map_of CPP_REG_VEC ''write_vec_sint_cached'' = Some (''void'', False)"
  "map_of CPP_REG_VEC ''write_vec_sint'' = Some (''void'', False)"
  "map_of CPP_REG_VEC ''read_vec_bool_cached'' = Some (''std::vector<bool>'', True)"
  "map_of CPP_REG_VEC ''read_vec_bool'' = Some (''std::vector<bool>'', False)"
  "map_of CPP_REG_VEC ''write_vec_bool_cached'' = Some (''void'', False)"
  "map_of CPP_REG_VEC ''write_vec_bool'' = Some (''void'', False)"
  "map_of CPP_REG_VEC ''read_str_cached'' = Some (''std::string'', True)"
  "map_of CPP_REG_VEC ''read_str'' = Some (''std::string'', False)"
  "map_of CPP_REG_VEC ''write_str_cached'' = Some (''void'', False)"
  "map_of CPP_REG_VEC ''write_str'' = Some (''void'', False)"
  "map_of CPP_REG_VEC ''read_idx_uint_cached'' = Some (''uint_t'', True)"
  "map_of CPP_REG_VEC ''read_idx_uint'' = Some (''uint_t'', False)"
  "map_of CPP_REG_VEC ''write_idx_uint_cached'' = Some (''void'', False)"
  "map_of CPP_REG_VEC ''write_idx_uint'' = Some (''void'', False)"
  "map_of CPP_REG_VEC ''read_idx_sint_cached'' = Some (''sint_t'', True)"
  "map_of CPP_REG_VEC ''read_idx_sint'' = Some (''sint_t'', False)"
  "map_of CPP_REG_VEC ''write_idx_sint_cached'' = Some (''void'', False)"
  "map_of CPP_REG_VEC ''write_idx_sint'' = Some (''void'', False)"
  "map_of CPP_REG_VEC ''read_vec_converted_cached'' = Some (''std::vector<float_t>'', True)"
  "map_of CPP_REG_VEC ''read_vec_converted'' = Some (''std::vector<float_t>'', False)"
  "map_of CPP_REG_VEC ''write_vec_converted_cached'' = Some (''void'', False)"
  "map_of CPP_REG_VEC ''write_vec_converted'' = Some (''void'', False)"
  "map_of CPP_REG_VEC ''read_idx_converted_cached'' = Some (''float_t'', True)"
  "map_of CPP_REG_VEC ''read_idx_converted'' = Some (''float_t'', False)"
  "map_of CPP_REG_VEC ''write_idx_converted_cached'' = Some (''void'', False)"
  "map_of CPP_REG_VEC ''write_idx_converted'' = Some (''void'', False)"
  "map_of CPP_REG_VEC ''read_converted_cached'' = Some (''float_t'', True)"
  "map_of CPP_REG_VEC ''read_converted'' = Some (''float_t'', False)"
  "map_of CPP_REG_VEC ''write_converted_cached'' = Some (''void'', False)"
  "map_of CPP_REG_VEC ''write_converted'' = Some (''void'', False)"
  "map_of CPP_REG_VEC ''write_zero'' = Some (''void'', False)"
  by code_simp+

text \<open>
  A statement compiles when the function it calls is declared, gives a value of the needed type and, in a
  \<^verbatim>\<open>const\<close> function, is \<^verbatim>\<open>const\<close> itself.
\<close>

definition calls_typed :: "(string \<Rightarrow> (string \<times> bool) option) \<Rightarrow> bool \<Rightarrow> string \<Rightarrow> string \<Rightarrow> bool" where
  "calls_typed cls is_const func ret =
     (case cls func of None \<Rightarrow> False | Some (t, c) \<Rightarrow> (is_const \<longrightarrow> c) \<and> (ret = '''' \<or> converts t ret))"

fun stmt_typed :: "(string \<Rightarrow> (string \<times> bool) option) \<Rightarrow> cpp_fun \<Rightarrow> cpp_stmt \<Rightarrow> bool" where
  "stmt_typed cls f (C_return inst func args) = calls_typed cls (cf_const f) func (cf_ret f)"
| "stmt_typed cls f (C_do inst func args) = calls_typed cls (cf_const f) func ''''"
| "stmt_typed cls f (C_val t v inst func args) = (calls_typed cls (cf_const f) func t \<and> t = cf_ret f)"
| "stmt_typed cls f _ = True"

definition fun_typed :: "(string \<Rightarrow> (string \<times> bool) option) \<Rightarrow> cpp_fun \<Rightarrow> bool" where
  "fun_typed cls f \<longleftrightarrow> (\<forall>s \<in> set (cf_body f). stmt_typed cls f s)"

definition items_typed :: "(string \<Rightarrow> (string \<times> bool) option) \<Rightarrow> cpp_item list \<Rightarrow> bool" where
  "items_typed cls is \<longleftrightarrow> (\<forall>f \<in> set (cpp_members is). fun_typed cls f)"

lemma items_typed_simps [simp]:
  "items_typed cls []"
  "items_typed cls (Cpp_comment s # is) = items_typed cls is"
  "items_typed cls (const_fun ret nm ps [C_return inst func args] # is) = (calls_typed cls True func ret \<and> items_typed cls is)"
  "items_typed cls (member_fun ret nm ps [C_return inst func args] # is) = (calls_typed cls False func ret \<and> items_typed cls is)"
  "items_typed cls (member_fun ret nm ps [C_do inst func args] # is) = (calls_typed cls False func '''' \<and> items_typed cls is)"
  "items_typed cls (inst_fun nm c inst # is) = items_typed cls is"
  "items_typed cls (cpp_read_clear_item nm x inst t_str rd # is) = (calls_typed cls False rd t_str \<and> items_typed cls is)"
  "items_typed cls (xs @ ys) = (items_typed cls xs \<and> items_typed cls ys)"
  by (auto simp: items_typed_def fun_typed_def const_fun_def member_fun_def inst_fun_def cpp_read_clear_item_def)

text \<open>An array of single flags: the element type and the type of the array are both \<^verbatim>\<open>bool\<close>.\<close>

definition bool_array :: "recipe_type \<Rightarrow> bool" where
  "bool_array t \<longleftrightarrow> rt_is_vec t \<and> rt_kind t = VK_flag \<and> elem_w_is_1 t"

lemma read_typed:
  "read_value_function_str t c Sw_cpp = Inr f \<Longrightarrow> k \<longrightarrow> c \<Longrightarrow>
   calls_typed (cpp_class t) k f (cpp_value_ret_type_str t False False) \<longleftrightarrow> \<not> bool_array t"
  by (cases "rt_kind t"; cases c; cases "rt_is_vec t"; cases "elem_w_is_1 t")
    (auto simp: read_value_function_str_def value_type_function_str_def value_kind_function_str_def cpp_class_def
      cpp_reg_lookups cpp_reg_vec_lookups calls_typed_def converts_def cpp_value_ret_type_str_def const_ref_def bool_array_def)

lemma write_typed:
  "write_value_function_str t c Sw_cpp = Inr f \<Longrightarrow> calls_typed (cpp_class t) False f ''''"
  by (cases "rt_kind t"; cases c; cases "rt_is_vec t"; cases "elem_w_is_1 t")
    (auto simp: write_value_function_str_def value_type_function_str_def value_kind_function_str_def cpp_class_def
      cpp_reg_lookups cpp_reg_vec_lookups calls_typed_def)

lemma idx_typed:
  "rt_is_vec_int t \<Longrightarrow> value_kind_function_str t = Inr kind \<Longrightarrow>
   calls_typed (cpp_class t) True (''read_idx_'' @ kind @ ''_cached'') (cpp_value_ret_type_str t True False) \<and>
   calls_typed (cpp_class t) False (''read_idx_'' @ kind) (cpp_value_ret_type_str t True False) \<and>
   calls_typed (cpp_class t) False (''write_idx_'' @ kind @ ''_cached'') '''' \<and>
   calls_typed (cpp_class t) False (''write_idx_'' @ kind) ''''"
  by (cases "rt_kind t")
    (auto simp: rt_is_vec_int_def rt_is_vec_def value_kind_function_str_def cpp_class_def cpp_reg_lookups cpp_reg_vec_lookups
      calls_typed_def converts_def cpp_value_ret_type_str_def)

lemma zero_typed: "calls_typed (cpp_class t) False ''write_zero'' ''''"
  by (simp add: cpp_class_def cpp_reg_lookups cpp_reg_vec_lookups calls_typed_def)
lemma user_type_cases:
  "rt_is_vec_int (rr_t r) \<Longrightarrow> cpp_value_user_type_str r wr False = const_ref wr ''std::vector<float_t>''"
  "\<not> rt_is_vec (rr_t r) \<or> ignore_vec \<Longrightarrow> converts ''float_t'' (cpp_value_user_type_str r wr ignore_vec)"
  "rt_is_vec (rr_t r) \<Longrightarrow> \<not> converts ''float_t'' (cpp_value_user_type_str r False False)"
  "cpp_value_user_type_str r wr ignore_vec \<noteq> ''''"
  by (auto simp: cpp_value_user_type_str_def Let_def rt_is_vec_int_def rt_is_vec_def converts_def const_ref_def)

lemma converted_typed:
  "calls_typed (cpp_class t) k ''read_converted_cached'' ret \<longleftrightarrow> ret = '''' \<or> converts ''float_t'' ret"
  "calls_typed (cpp_class t) False ''read_converted'' ret \<longleftrightarrow> ret = '''' \<or> converts ''float_t'' ret"
  "calls_typed (cpp_class t) False ''write_converted_cached'' ''''"
  "calls_typed (cpp_class t) False ''write_converted'' ''''"
  "rt_is_vec t \<Longrightarrow> calls_typed (cpp_class t) k ''read_vec_converted_cached'' ret \<longleftrightarrow> ret = '''' \<or> converts ''std::vector<float_t>'' ret"
  "rt_is_vec t \<Longrightarrow> calls_typed (cpp_class t) False ''read_vec_converted'' ret \<longleftrightarrow> ret = '''' \<or> converts ''std::vector<float_t>'' ret"
  "rt_is_vec t \<Longrightarrow> calls_typed (cpp_class t) False ''write_vec_converted_cached'' ''''"
  "rt_is_vec t \<Longrightarrow> calls_typed (cpp_class t) False ''write_vec_converted'' ''''"
  "rt_is_vec t \<Longrightarrow> calls_typed (cpp_class t) k ''read_idx_converted_cached'' ret \<longleftrightarrow> ret = '''' \<or> converts ''float_t'' ret"
  "rt_is_vec t \<Longrightarrow> calls_typed (cpp_class t) False ''read_idx_converted'' ret \<longleftrightarrow> ret = '''' \<or> converts ''float_t'' ret"
  "rt_is_vec t \<Longrightarrow> calls_typed (cpp_class t) False ''write_idx_converted_cached'' ''''"
  "rt_is_vec t \<Longrightarrow> calls_typed (cpp_class t) False ''write_idx_converted'' ''''"
  by (auto simp: cpp_class_def calls_typed_def cpp_reg_lookups cpp_reg_vec_lookups)

lemma cpp_convert_typed:
  assumes "cpp_convert_items r inst = Inr conv" and "rr_acc r \<noteq> Acc_na"
  shows "items_typed (cpp_class (rr_t r)) conv \<longleftrightarrow> \<not> (rt_is_vec (rr_t r) \<and> \<not> rt_is_vec_int (rr_t r))"
proof -
  have v: "rt_is_vec_int (rr_t r) \<Longrightarrow> rt_is_vec (rr_t r)" by (simp add: rt_is_vec_int_def rt_is_vec_def)
  have c: "converts ''std::vector<float_t>'' ''std::vector<float_t>''" by (simp add: converts_def)
  show ?thesis
  proof (cases "rt_is_vec_int (rr_t r)")
    case True
    then show ?thesis using assms v c user_type_cases(2) [of r True]
      by (cases "rr_acc r") (auto simp: cpp_convert_items_def Let_def cpp_items_defs converted_typed user_type_cases(1,4) const_ref_def)
  next
    case False
    have "converts ''float_t'' (cpp_value_user_type_str r False False) \<longleftrightarrow> \<not> rt_is_vec (rr_t r)"
      using user_type_cases(2,3) [of r] by blast
    then show ?thesis using assms False
      by (cases "rr_acc r") (auto simp: cpp_convert_items_def Let_def cpp_items_defs converted_typed user_type_cases(4))
  qed
qed

lemma cpp_acc_typed:
  assumes "read_value_function_str t True Sw_cpp = Inr (ct_rd_c c)" "read_value_function_str t False Sw_cpp = Inr (ct_rd c)"
    "write_value_function_str t True Sw_cpp = Inr (ct_wr_c c)" "write_value_function_str t False Sw_cpp = Inr (ct_write c)"
    "rt_is_vec_int t \<longrightarrow> value_kind_function_str t = Inr (ct_idx c)"
    "ct_str c = cpp_value_ret_type_str t False False" "ct_elem c = cpp_value_ret_type_str t True False"
    "cpp_acc_items ac nm x c (rt_is_vec_int t) = Inr body"
  shows "items_typed (cpp_class t) body \<longleftrightarrow> \<not> bool_array t"
proof -
  note r = read_typed [OF assms(1), of True] read_typed [OF assms(1), of False] read_typed [OF assms(2), of False]
  note w = assms(3,4) [THEN write_typed] zero_typed
  show ?thesis
  proof (cases "rt_is_vec_int t")
    case True
    note i = idx_typed [OF True assms(5) [rule_format, OF True]]
    show ?thesis using assms(8) r w i True
      by (cases ac) (auto simp: cpp_acc_items_def Let_def cpp_items_defs assms(6,7))
  next
    case False
    then show ?thesis using assms(8) r w
      by (cases ac) (auto simp: cpp_acc_items_def Let_def cpp_items_defs assms(6,7))
  qed
qed



text \<open>The recipe text of such an array is accepted, so the header is generated.\<close>

lemma bool_array_accepted:
  "(case Recipe_init example_pf (\<lambda>_. [])
      (clash_recipe [] [tm [(''name'', ''a''), (''t'', ''[4]b1''), (''acc'', ''ro''), (''desc'', '''')]]) of
    Inl e \<Rightarrow> False | Inr r \<Rightarrow> map (bool_array \<circ> rr_t) (rc_var r) = [True])"
  by code_simp
section \<open>The order of the registers\<close>

definition cpp_is_add_line :: "string \<Rightarrow> bool" where
  "cpp_is_add_line l \<longleftrightarrow> take 12 l = ''    add_reg_''"

lemma cpp_flag_lines_no_add:
  "rmapM (cpp_flag_init_line pf is_k) fs = Inr ls \<Longrightarrow> filter cpp_is_add_line ls = []"
  by (induction fs arbitrary: ls)
    (auto simp: rbind_Inr_iff cpp_flag_init_line_def cpp_is_add_line_def cpp_reg_to_inst_str_def cpp_name_to_reg_k_def
      cpp_name_to_reg_var_def split: if_splits)

lemma cpp_flags_init_lines_no_add:
  "cpp_flags_init_lines pf is_k r fs = Inr ls \<Longrightarrow> filter cpp_is_add_line ls = []"
  by (auto simp: cpp_flags_init_lines_def Let_def rbind_Inr_iff dest!: cpp_flag_lines_no_add)
    (auto simp: cpp_is_add_line_def cpp_reg_to_inst_str_def cpp_name_to_reg_k_def cpp_name_to_reg_var_def filter_empty_conv)

lemma cpp_k_init_lines_add:
  "cpp_k_init_lines pf k = Inr ls \<Longrightarrow> filter cpp_is_add_line ls = [''    add_reg_k(m_k_'' @ rr_name k @ '');'']"
  by (auto simp: cpp_k_init_lines_def Let_def rbind_Inr_iff dest!: cpp_flags_init_lines_no_add split: option.splits if_splits)
    (auto simp: cpp_is_add_line_def cpp_name_to_reg_k_def)

lemma cpp_var_init_lines_add:
  "cpp_var_init_lines pf v = Inr ls \<Longrightarrow> filter cpp_is_add_line ls = [''    add_reg_var(m_var_'' @ rr_name v @ '');'']"
  by (auto simp: cpp_var_init_lines_def Let_def rbind_Inr_iff dest!: cpp_flags_init_lines_no_add split: option.splits if_splits)
    (auto simp: cpp_is_add_line_def cpp_name_to_reg_var_def)

lemma split_lines:
  "p1 @ p2 @ a @ ks @ b @ c @ vs @ d @ q1 @ q2 = ls \<Longrightarrow> \<exists>pre post. ls = pre @ a @ ks @ b @ c @ vs @ d @ post"
  by (rule exI [of _ "p1 @ p2"], rule exI [of _ "q1 @ q2"]) simp

text \<open>
  The generated C++ module adds the constants and the registers of the recipe once each and in its order,
  as the Python module does, so both lay them out at the same addresses.
\<close>

theorem cpp_registers_in_order:
  assumes "generate_cpp_module pf path hpp cpp r = Inr (hs, ls)"
  shows "\<exists>pre ks vs post.
    ls = pre @ [''void '' @ toml_str pf (rc_sw_module r) @ ''::init_reg_map_k() {''] @ ks @ [''}'', ''''] @
      [''void '' @ toml_str pf (rc_sw_module r) @ ''::init_reg_map_var() {''] @ vs @ [''}''] @ post \<and>
    filter cpp_is_add_line ks = map (\<lambda>k. ''    add_reg_k(m_k_'' @ rr_name k @ '');'') (rc_k r) \<and>
    filter cpp_is_add_line vs = map (\<lambda>v. ''    add_reg_var(m_var_'' @ rr_name v @ '');'') (rc_var r)"
proof -
  let ?cls = "toml_str pf (rc_sw_module r)"
  obtain items ks vs ms where k: "rmapM (cpp_k_init_lines pf) (rc_k r) = Inr ks" and v: "rmapM (cpp_var_init_lines pf) (rc_var r) = Inr vs"
    and hs: "(hpp_lines pf path r items,
          cpp_file_header pf path r @
          ['''', ''#include '' @ dquoted (hpp_include_str hpp cpp), '''', ''namespace '' @ cpp_namespace @ '' {'', '''',
           ''bool '' @ ?cls @ ''::registered = Module::register_module(std::make_shared<'' @ ?cls @ ''>());'', ''''] @
          [''void '' @ ?cls @ ''::init_reg_map_k() {''] @ concat ks @ [''}'', ''''] @
          [''void '' @ ?cls @ ''::init_reg_map_var() {''] @ concat vs @ [''}''] @
          (if rc_mem r \<noteq> [] then
             ['''', ''void '' @ ?cls @ ''::init_last() {'', ''    assert(len_external_mem() == '' @ py_str_int (int (length (rc_mem r))) @ '');''] @
             concat ms @ [''}'']
           else []) @ [''}'']) = (hs, ls)"
    using assms unfolding generate_cpp_module_def Let_def rbind_Inr_iff by blast
  have ls: "\<exists>pre post. ls = pre @ [''void '' @ ?cls @ ''::init_reg_map_k() {''] @ concat ks @ [''}'', ''''] @
      [''void '' @ ?cls @ ''::init_reg_map_var() {''] @ concat vs @ [''}''] @ post"
    by (rule split_lines [OF conjunct2 [OF iffD1 [OF prod.inject hs]]])
  have "filter cpp_is_add_line (concat ks) = map (\<lambda>k. ''    add_reg_k(m_k_'' @ rr_name k @ '');'') (rc_k r)"
    by (rule rmapM_filter [OF _ k]) (erule cpp_k_init_lines_add)
  moreover have "filter cpp_is_add_line (concat vs) = map (\<lambda>v. ''    add_reg_var(m_var_'' @ rr_name v @ '');'') (rc_var r)"
    by (rule rmapM_filter [OF _ v]) (erule cpp_var_init_lines_add)
  ultimately show ?thesis using ls by blast
qed

lemma array_var_cpp_init: "\<not> isl (cpp_var_init_lines example_pf (array_var 4 32))"
  by code_simp

theorem cpp_registers_in_order_witness:
  "\<exists>hs ls pre vs post. generate_cpp_module example_pf ''ex.toml'' [''/'', ''ex.hpp''] [''/'', ''ex.cpp''] (array_built id 4 32) = Inr (hs, ls) \<and>
     ls = pre @ [''void ex::init_reg_map_var() {''] @ vs @ [''}''] @ post \<and>
     filter cpp_is_add_line vs = [''    add_reg_var(m_var_v);'']"
proof -
  let ?r = "array_built id 4 32"
  have lists: "rc_ipkg ?r = []" "rc_k ?r = []" "rc_var ?r = [array_var 4 32]" "rc_mem ?r = []" "rr_flags (array_var 4 32) = None"
    by (simp_all add: array_built_def Recipe_start_def array_var_def)
  obtain items where i: "cpp_reg_functions_not_flag example_pf False (array_var 4 32) = Inr items"
    using array_var_cpp_items by (cases "cpp_reg_functions_not_flag example_pf False (array_var 4 32)") auto
  obtain v_ls where v: "cpp_var_init_lines example_pf (array_var 4 32) = Inr v_ls"
    using array_var_cpp_init by (cases "cpp_var_init_lines example_pf (array_var 4 32)") auto
  have "\<exists>hs ls. generate_cpp_module example_pf ''ex.toml'' [''/'', ''ex.hpp''] [''/'', ''ex.cpp''] ?r = Inr (hs, ls)"
    by (simp add: generate_cpp_module_def Let_def cpp_class_items_def lists cpp_reg_functions_def i v)
  then obtain hs ls where ls: "generate_cpp_module example_pf ''ex.toml'' [''/'', ''ex.hpp''] [''/'', ''ex.cpp''] ?r = Inr (hs, ls)" by blast
  have cls: "toml_str example_pf (rc_sw_module ?r) = ''ex''"
    by (simp add: array_built_def Recipe_start_def toml_str_def)
  obtain pre ks vs post where s: "ls = pre @ [''void ex::init_reg_map_k() {''] @ ks @ [''}'', ''''] @
      [''void ex::init_reg_map_var() {''] @ vs @ [''}''] @ post"
    "filter cpp_is_add_line vs = map (\<lambda>v. ''    add_reg_var(m_var_'' @ rr_name v @ '');'') (rc_var ?r)"
    using cpp_registers_in_order [OF ls] by (auto simp: cls)
  have "map (\<lambda>v. ''    add_reg_var(m_var_'' @ rr_name v @ '');'') (rc_var ?r) = [''    add_reg_var(m_var_v);'']"
    by (simp add: lists) (simp add: array_var_def)
  then show ?thesis using ls s
    by - (rule exI [of _ hs], rule exI [of _ ls], rule exI [of _ "pre @ [''void ex::init_reg_map_k() {''] @ ks @ [''}'', '''']"],
      rule exI [of _ vs], rule exI [of _ post], simp)
qed

section \<open>The include line finds the header\<close>

text \<open>The file a relative path names, seen from a directory\<close>

fun resolve_parts :: "string list \<Rightarrow> string list \<Rightarrow> string list" where
  "resolve_parts dir [] = dir"
| "resolve_parts dir (p # ps) = resolve_parts (if p = ''..'' then butlast dir else dir @ [p]) ps"

lemma resolve_up: "resolve_parts (d @ e) (replicate (length e) ''..'' @ ps) = resolve_parts d ps"
proof (induction e rule: rev_induct)
  case (snoc x xs)
  then show ?case by (simp add: butlast_append flip: append_assoc)
qed simp

lemma resolve_down: "''..'' \<notin> set ps \<Longrightarrow> resolve_parts d ps = d @ ps"
  by (induction ps arbitrary: d) auto

lemma relpath_resolves:
  "''..'' \<notin> set p \<Longrightarrow> resolve_parts (d @ start) (relpath_parts p start) = d @ p"
proof (induction p start arbitrary: d rule: relpath_parts.induct)
  case (1 p ps s ss)
  show ?case
  proof (cases "p = s")
    case True
    then show ?thesis using 1(1) [OF True, of "d @ [s]"] 1(2) by simp
  next
    case False
    have "resolve_parts (d @ s # ss) (replicate (length (s # ss)) ''..'' @ p # ps) = d @ p # ps"
      using resolve_up [of d "s # ss" "p # ps"] resolve_down [OF 1(2)] by simp
    then show ?thesis using False by simp
  qed
next
  case "2_1"
  show ?case using resolve_up [of d _ "[]"] by simp
next
  case "2_2"
  then show ?case using resolve_down [of _ d] by simp
qed

end
