(* ===== verification/GenVhdl.thy ===== *)
theory GenVhdl
  imports GenPy
begin

text \<open>
  The VHDL generated from a recipe: \<^verbatim>\<open>pip/skmap/src/skmap/code_generator_vhdl.py\<close>. The module is the list of the
  texts that are written, one per call of \<^verbatim>\<open>write\<close>, in their order; the file is their concatenation. The names
  with a VHDL type (\<open>vhdl_type\<close>, \<open>var_fw\<close>, \<open>k_fw\<close>, \<open>flag_fw\<close>) are the objects the generator makes for the
  registers of the recipe before it prints them.

  Writing the file is not modelled, a generation that raises is an error result. The upper case of a name is
  that of its ASCII letters.
\<close>

section \<open>Texts\<close>

definition nl :: string where
  "nl = [CHR 0x0A]"

text \<open>Lines, without a line break at the end\<close>

definition unl :: "string list \<Rightarrow> string" where
  "unl ls = str_join nl ls"

definition dashes :: "nat \<Rightarrow> string" where
  "dashes n = replicate n (CHR ''-'')"

definition var_name :: "string \<Rightarrow> string" where
  "var_name name = name @ ''_v''"

definition ends_with :: "string \<Rightarrow> string \<Rightarrow> bool" where
  "ends_with s x \<longleftrightarrow> length x \<le> length s \<and> drop (length s - length x) s = x"

text \<open>\<^verbatim>\<open>port_name\<close>, \<open>out\<close> for the direction; both extensions are chosen by the same test.\<close>

definition port_name :: "string \<Rightarrow> bool \<Rightarrow> string res" where
  "port_name name out =
     (let port_ext_bad = (if \<not> out then ''_i'' else ''_o''); port_ext = (if out then ''_o'' else ''_i'') in
      rbind (rassert (\<not> ends_with name port_ext_bad)) (\<lambda>_.
        Inr (if \<not> ends_with name port_ext then name @ port_ext else name)))"

definition upper_char :: "char \<Rightarrow> char" where
  "upper_char c = (let n = of_char c :: nat in if 97 \<le> n \<and> n \<le> 122 then char_of (n - 32) else c)"

definition k_var_init_name :: "string \<Rightarrow> string" where
  "k_var_init_name name = map upper_char name @ ''_INIT''"

text \<open>\<^verbatim>\<open>name[:-2]\<close>\<close>

definition drop2 :: "string \<Rightarrow> string" where
  "drop2 s = take (length s - 2) s"

definition port_name_trig :: "string \<Rightarrow> string" where "port_name_trig s = drop2 s @ ''_trigger_o''"
definition var_name_trig :: "string \<Rightarrow> string" where "var_name_trig s = drop2 s @ ''_trigger_v''"
definition port_name_clear :: "string \<Rightarrow> string" where "port_name_clear s = drop2 s @ ''_clear_o''"

definition optional_resize :: "string \<Rightarrow> string option \<Rightarrow> string" where
  "optional_resize s width = (case width of None \<Rightarrow> s | Some w \<Rightarrow> ''resize( '' @ s @ '', '' @ w @ '' )'')"

definition optional_add_func_str :: "string \<Rightarrow> string option \<Rightarrow> string" where
  "optional_add_func_str s fstr = (case fstr of None \<Rightarrow> s | Some f \<Rightarrow> f @ ''('' @ s @ '')'')"

section \<open>Types\<close>

datatype vhdl_kind =
    V_integer | V_natural | V_sl | V_slv | V_unsigned | V_signed | V_character | V_string | V_boolean | V_boolean_vector

definition vk_is_int :: "vhdl_kind \<Rightarrow> bool" where
  "vk_is_int k \<longleftrightarrow> k \<in> {V_integer, V_natural}"

definition vk_is_num :: "vhdl_kind \<Rightarrow> bool" where
  "vk_is_num k \<longleftrightarrow> k \<in> {V_integer, V_natural, V_unsigned, V_signed}"

text \<open>A member of the enumeration \<^verbatim>\<open>ValueKindVhdl\<close> is never equal to one of \<^verbatim>\<open>ValueKind\<close>.\<close>

definition vk_is_value_kind :: "vhdl_kind \<Rightarrow> value_kind \<Rightarrow> bool" where
  "vk_is_value_kind k v = False"

record vhdl_type =
  vh_t :: recipe_type
  vh_kind :: vhdl_kind
  vh_flat :: bool

definition vsrc :: "resolvable option \<Rightarrow> string res" where
  "vsrc t = (case t of None \<Rightarrow> Inl TypeError | Some t \<Rightarrow> to_vhdl_source t)"

text \<open>\<^verbatim>\<open>elem_w == n\<close>\<close>

definition elem_w_is :: "recipe_type \<Rightarrow> int \<Rightarrow> bool" where
  "elem_w_is t n =
     (case rt_width t of Some (RNum x) \<Rightarrow> num_val x = of_int n | Some (RBool b) \<Rightarrow> (if b then 1 else 0) = n | _ \<Rightarrow> False)"

definition vt_single :: "recipe_type \<Rightarrow> bool" where
  "vt_single t \<longleftrightarrow> elem_w_is t 1 \<and> \<not> rt_is_vec t"

definition basic_kind :: "recipe_type \<Rightarrow> vhdl_kind" where
  "basic_kind t = (if vt_single t then V_sl else V_slv)"

definition vhdl_kind_of :: "recipe_type \<Rightarrow> bool \<Rightarrow> vhdl_kind res" where
  "vhdl_kind_of t is_k =
     (case rt_kind t of
        VK_uint \<Rightarrow> Inr (if is_k then V_natural else V_unsigned)
      | VK_sint \<Rightarrow> Inr (if is_k then V_integer else V_signed)
      | VK_char \<Rightarrow> rbind (rassert (elem_w_is t 8)) (\<lambda>_. Inr (if rt_is_vec t then V_string else V_character))
      | VK_bits \<Rightarrow> Inr (basic_kind t)
      | VK_flag \<Rightarrow> Inr (if is_k then if vt_single t then V_boolean else V_boolean_vector else basic_kind t))"

definition flattened :: "vhdl_kind \<Rightarrow> bool \<Rightarrow> bool" where
  "flattened k vec =
     (case k of V_integer \<Rightarrow> vec | V_natural \<Rightarrow> vec | V_sl \<Rightarrow> vec | V_slv \<Rightarrow> vec | V_unsigned \<Rightarrow> True | V_signed \<Rightarrow> True
      | V_character \<Rightarrow> True | V_string \<Rightarrow> True | V_boolean \<Rightarrow> vec | V_boolean_vector \<Rightarrow> True)"

definition ValueTypeVhdl_init :: "recipe_type \<Rightarrow> bool \<Rightarrow> bool \<Rightarrow> vhdl_type res" where
  "ValueTypeVhdl_init t is_k basic =
     rbind (vhdl_kind_of t is_k) (\<lambda>k. Inr \<lparr>vh_t = t, vh_kind = k, vh_flat = (basic \<and> flattened k (rt_is_vec t))\<rparr>)"

definition vh_is_vec :: "vhdl_type \<Rightarrow> bool" where "vh_is_vec t \<longleftrightarrow> rt_is_vec (vh_t t)"
definition vh_is_bool :: "vhdl_type \<Rightarrow> bool" where "vh_is_bool t \<longleftrightarrow> vt_single (vh_t t)"
definition vh_elem_w :: "vhdl_type \<Rightarrow> resolvable option" where "vh_elem_w t = rt_width (vh_t t)"
definition vh_vec_len :: "vhdl_type \<Rightarrow> resolvable option" where "vh_vec_len t = rt_vec_len (vh_t t)"

definition port_elem_w :: "vhdl_type \<Rightarrow> resolvable option" where
  "port_elem_w t =
     (if vh_flat t then
        (case (vh_elem_w t, vh_vec_len t) of
           (w, None) \<Rightarrow> w | (None, Some n) \<Rightarrow> None | (Some w, Some n) \<Rightarrow> Some (ROp w Op_mult n))
      else vh_elem_w t)"

definition range_of :: "string \<Rightarrow> string" where
  "range_of w = ''('' @ w @ ''-1 downto 0)''"

definition vhdl_type_str :: "vhdl_type \<Rightarrow> bool \<Rightarrow> string res" where
  "vhdl_type_str t is_port =
     (let flat = is_port \<and> vh_flat t; kind = (if flat then V_slv else vh_kind t);
          vec_len = (if flat then None else vh_vec_len t) in
      rbind (vsrc (if is_port then port_elem_w t else vh_elem_w t)) (\<lambda>w.
        let elem_rng = range_of w in
        case vec_len of
          None \<Rightarrow>
            (case kind of
               V_integer \<Rightarrow> Inr ''integer'' | V_natural \<Rightarrow> Inr ''natural'' | V_sl \<Rightarrow> Inr ''std_ulogic''
             | V_slv \<Rightarrow> Inr (''std_ulogic_vector'' @ elem_rng) | V_unsigned \<Rightarrow> Inr (''unsigned'' @ elem_rng)
             | V_signed \<Rightarrow> Inr (''signed'' @ elem_rng) | V_character \<Rightarrow> Inr ''character'' | V_string \<Rightarrow> Inl AssertionError
             | V_boolean \<Rightarrow> Inr ''boolean'' | V_boolean_vector \<Rightarrow> Inl AssertionError)
        | Some n \<Rightarrow>
            rbind (to_vhdl_source n) (\<lambda>n.
              let vec_rng = ''(0 to '' @ n @ ''-1)'' in
              case kind of
                V_integer \<Rightarrow> Inr (''integer_vector'' @ vec_rng) | V_natural \<Rightarrow> Inr (''integer_vector'' @ vec_rng)
              | V_sl \<Rightarrow> Inl AssertionError | V_slv \<Rightarrow> Inr (''vec_slv_t'' @ vec_rng @ elem_rng)
              | V_unsigned \<Rightarrow> Inr (''vec_unsigned_t'' @ vec_rng @ elem_rng) | V_signed \<Rightarrow> Inr (''vec_signed_t'' @ vec_rng @ elem_rng)
              | V_character \<Rightarrow> Inl AssertionError | V_string \<Rightarrow> Inr (''string(1 to '' @ n @ '')'')
              | V_boolean \<Rightarrow> Inl AssertionError | V_boolean_vector \<Rightarrow> Inl AssertionError)))"

definition vhdl_type_str_slv_2d :: "vhdl_type \<Rightarrow> string res" where
  "vhdl_type_str_slv_2d t =
     rbind (vsrc (vh_elem_w t)) (\<lambda>w.
       case vh_vec_len t of
         None \<Rightarrow> Inr (''std_ulogic_vector'' @ range_of w)
       | Some n \<Rightarrow> rbind (to_vhdl_source n) (\<lambda>n. Inr (''vec_slv_t(0 to '' @ n @ ''-1)'' @ range_of w)))"

text \<open>The value of a constant as the function that packs the constants takes it, and whether it is a signed integer\<close>

definition map_acc_k_type_conv :: "vhdl_type \<Rightarrow> string \<Rightarrow> (string \<times> bool option) res" where
  "map_acc_k_type_conv t name =
     (if vh_vec_len t = None then
        (case vh_kind t of
           V_integer \<Rightarrow> Inr (name, Some True) | V_natural \<Rightarrow> Inr (name, Some False) | V_sl \<Rightarrow> Inr (''to_slv('' @ name @ '')'', None)
         | V_slv \<Rightarrow> Inr (name, None) | V_unsigned \<Rightarrow> Inr (''to_slv('' @ name @ '')'', None)
         | V_signed \<Rightarrow> Inr (''to_slv('' @ name @ '')'', None) | V_character \<Rightarrow> Inl AssertionError | V_string \<Rightarrow> Inl AssertionError
         | V_boolean \<Rightarrow> Inr (name, None) | V_boolean_vector \<Rightarrow> Inr (name, None))
      else if vh_flat t then
        rbind (vsrc (vh_elem_w t)) (\<lambda>w.
          case vh_kind t of
            V_integer \<Rightarrow> Inr (''to_vec_slv('' @ name @ '', '' @ w @ '')'', None)
          | V_natural \<Rightarrow> Inr (''to_vec_slv('' @ name @ '', '' @ w @ '')'', None) | V_sl \<Rightarrow> Inr (name, None)
          | V_slv \<Rightarrow> Inr (''to_vec_slv('' @ name @ '', '' @ w @ ''))'', None)
          | V_unsigned \<Rightarrow> Inr (''to_vec_slv('' @ name @ '', '' @ w @ ''))'', None)
          | V_signed \<Rightarrow> Inr (''to_vec_slv('' @ name @ '', '' @ w @ ''))'', None)
          | V_character \<Rightarrow> Inl AssertionError | V_string \<Rightarrow> Inl AssertionError
          | V_boolean \<Rightarrow> Inl AssertionError | V_boolean_vector \<Rightarrow> Inl AssertionError)
      else
        (case vh_kind t of
           V_integer \<Rightarrow> Inr (name, Some True) | V_natural \<Rightarrow> Inr (name, Some False) | V_sl \<Rightarrow> Inr (''to_slv('' @ name @ '')'', None)
         | V_slv \<Rightarrow> Inr (name, None) | V_unsigned \<Rightarrow> Inr (''to_vec_slv('' @ name @ '')'', None)
         | V_signed \<Rightarrow> Inr (''to_vec_slv('' @ name @ '')'', None) | V_character \<Rightarrow> Inl AssertionError | V_string \<Rightarrow> Inl AssertionError
         | V_boolean \<Rightarrow> Inr (name, None) | V_boolean_vector \<Rightarrow> Inr (name, None)))"

definition ipkg_type_to_vhdl_str :: "recipe_type \<Rightarrow> bool \<Rightarrow> string res" where
  "ipkg_type_to_vhdl_str t flat =
     rbind (vsrc (rt_width t)) (\<lambda>w.
       let elem_rng = range_of w in
       case rt_vec_len t of
         Some n \<Rightarrow>
           rbind (to_vhdl_source n) (\<lambda>n.
             if flat then Inr (''std_ulogic_vector('' @ n @ ''*'' @ w @ ''-1 downto 0)'')
             else let vec_rng = ''(0 to '' @ n @ ''-1)'' in
               Inr (case rt_kind t of
                  VK_uint \<Rightarrow> ''integer_vector'' @ vec_rng | VK_sint \<Rightarrow> ''integer_vector'' @ vec_rng
                | VK_char \<Rightarrow> ''string(1 to '' @ n @ '')'' | VK_bits \<Rightarrow> ''vec_slv_t'' @ vec_rng @ elem_rng
                | VK_flag \<Rightarrow> ''vec_slv_t'' @ vec_rng @ elem_rng))
       | None \<Rightarrow>
           Inr (case rt_kind t of
              VK_uint \<Rightarrow> ''natural'' | VK_sint \<Rightarrow> ''integer''
            | VK_char \<Rightarrow> if flat then ''std_ulogic_vector(7 downto 0)'' else ''character''
            | VK_bits \<Rightarrow> ''std_ulogic_vector'' @ elem_rng | VK_flag \<Rightarrow> ''std_ulogic_vector'' @ elem_rng))"

definition vhdl_add_slv_cast :: "string \<Rightarrow> vhdl_type \<Rightarrow> string" where
  "vhdl_add_slv_cast name t =
     (let num = vk_is_value_kind (vh_kind t) VK_uint \<or> vk_is_value_kind (vh_kind t) VK_sint in
      if vh_is_bool t then ''to_slv('' @ name @ '')''
      else if vh_is_vec t then if num then ''to_vec_slv('' @ name @ '')'' else name
      else if num then ''std_ulogic_vector('' @ name @ '')'' else name)"

section \<open>Flags, registers and constants\<close>

record flag_fw =
  ff_flag :: recipe_flag
  ff_ext :: "string option"
  ff_vhdl_t :: string

definition RecipeFlagFw_init :: "recipe_flag \<Rightarrow> bool option \<Rightarrow> flag_fw res" where
  "RecipeFlagFw_init f out =
     rbind (case out of None \<Rightarrow> Inr None | Some out \<Rightarrow> rbind (port_name (fl_name f) out) (\<lambda>s. Inr (Some s))) (\<lambda>ext.
     rbind (case fl_vec_len f of
              None \<Rightarrow> Inr ''std_ulogic''
            | Some n \<Rightarrow> rbind (to_vhdl_source n) (\<lambda>n. Inr (''std_ulogic_vector'' @ range_of n))) (\<lambda>t.
       Inr \<lparr>ff_flag = f, ff_ext = ext, ff_vhdl_t = t\<rparr>))"

record var_fw =
  vf_name :: string
  vf_t :: vhdl_type
  vf_acc :: acc
  vf_desc :: toml
  vf_fw_init :: fw_init_mode
  vf_out :: bool
  vf_name_ext :: string
  vf_p_name :: "string option"
  vf_uses_var :: bool
  vf_flags :: "flag_fw list option"
  vf_init_name :: "string option"
  vf_init_t :: "string option"

definition RecipeVarFw_init :: "recipe_var \<Rightarrow> bool \<Rightarrow> var_fw res" where
  "RecipeVarFw_init v basic =
     rbind (ValueTypeVhdl_init (rr_t v) False basic) (\<lambda>t.
     rbind (rassert (rr_acc v \<noteq> Acc_na)) (\<lambda>_.
       let out = (sw_writable (rr_acc v) = Some True) in
     rbind (case rr_flags v of
              Some fs \<Rightarrow>
                rbind (rmapM (\<lambda>f. RecipeFlagFw_init f (Some out)) fs) (\<lambda>fs. Inr (var_name (rr_name v), None, True, Some fs))
            | None \<Rightarrow>
                let uses = out \<and> (vk_is_int (vh_kind t) \<or> vk_is_num (vh_kind t) \<or> vh_is_bool t) in
                rbind (port_name (rr_name v) out) (\<lambda>p.
                  Inr (if uses then var_name (rr_name v) else p, Some p, uses, None))) (\<lambda>(ext, p_name, uses, flags).
     rbind (case rr_fw_init v of
              Fw_zero \<Rightarrow> Inr (None, None)
            | Fw_k \<Rightarrow> rbind (vhdl_type_str t True) (\<lambda>s. Inr (Some (k_var_init_name (rr_name v)), Some s))
            | Fw_k_int \<Rightarrow> Inr (Some (k_var_init_name (rr_name v)), Some (if vh_is_vec t then ''integer_vector'' else ''integer'')))
       (\<lambda>(init_name, init_t).
       Inr \<lparr>vf_name = rr_name v, vf_t = t, vf_acc = rr_acc v, vf_desc = rr_desc v, vf_fw_init = rr_fw_init v, vf_out = out,
            vf_name_ext = ext, vf_p_name = p_name, vf_uses_var = uses, vf_flags = flags, vf_init_name = init_name,
            vf_init_t = init_t\<rparr>))))"

record k_fw =
  kf_name :: string
  kf_t :: vhdl_type
  kf_acc :: acc
  kf_desc :: toml
  kf_flags :: "flag_fw list option"

definition RecipeKFw_init :: "recipe_k \<Rightarrow> bool \<Rightarrow> k_fw res" where
  "RecipeKFw_init k basic =
     rbind (ValueTypeVhdl_init (rr_t k) True basic) (\<lambda>t.
     rbind (case rr_flags k of
              None \<Rightarrow> Inr None
            | Some fs \<Rightarrow> rbind (rmapM (\<lambda>f. RecipeFlagFw_init f None) fs) (\<lambda>fs. Inr (Some fs))) (\<lambda>flags.
       Inr \<lparr>kf_name = rr_name k, kf_t = t, kf_acc = rr_acc k, kf_desc = rr_desc k, kf_flags = flags\<rparr>))"

section \<open>Lengths of the register blocks\<close>

definition vhdl_skmap_map_acc_byte_inc_func_str :: "vhdl_type \<Rightarrow> string \<Rightarrow> bool \<Rightarrow> string res" where
  "vhdl_skmap_map_acc_byte_inc_func_str t name k =
     rbind (vsrc (vh_elem_w t)) (\<lambda>w.
     rbind (case vh_vec_len t of None \<Rightarrow> Inr '''' | Some n \<Rightarrow> rbind (to_vhdl_source n) (\<lambda>n. Inr ('', VEC_LEN=>'' @ n))) (\<lambda>vec.
       Inr (''    skmap_map_acc_byte_inc(byte_idx, VAL_W=>'' @ w @ (if \<not> k then '', BYTE_ALIGN=>BYTE_ALIGN'' else '''') @ vec
         @ ''); -- '' @ name @ nl)))"

text \<open>The offset is \<open>None\<close> for the number 0.\<close>

definition regs_len_str :: "(vhdl_type \<times> string) list \<Rightarrow> string \<Rightarrow> bool \<Rightarrow> string option \<Rightarrow> string res" where
  "regs_len_str regs name k offset =
     (let offset_bytes = (case offset of None \<Rightarrow> ''0'' | Some s \<Rightarrow> s) in
      rbind (rmapM (\<lambda>(t, nm). vhdl_skmap_map_acc_byte_inc_func_str t nm k) regs) (\<lambda>incs.
        Inr (unl ['''', ''  function get_'' @ name @ '' return natural is'', ''    variable byte_idx : natural := '' @ offset_bytes @ '';'', ''  begin'', ''''] @
          concat incs @
          (if offset \<noteq> None then ''    inc(byte_idx, -1*('' @ offset_bytes @ ''));'' @ nl else '''') @
          unl [''    return ceil_div(byte_idx, 4);'', ''  end function;'', ''  constant '' @ name @ '' : natural := get_'' @ name @ '';'', ''''])))"
section \<open>The text before the architecture\<close>

text \<open>\<^verbatim>\<open>bool(v)\<close>\<close>

definition toml_truth :: "toml \<Rightarrow> bool" where
  "toml_truth v =
     (case v of TInt i \<Rightarrow> i \<noteq> 0 | TBool b \<Rightarrow> b | TFloat x \<Rightarrow> x \<noteq> 0 | TStr s \<Rightarrow> s \<noteq> [] | TList xs \<Rightarrow> xs \<noteq> [] | TDict d \<Rightarrow> d \<noteq> [])"

definition flat_ports :: "recipe \<Rightarrow> bool" where
  "flat_ports r = toml_truth (fo_ports_use_basic_types (rc_fw_opts r))"

definition hdlskel_lib :: "py_impl \<Rightarrow> recipe \<Rightarrow> string" where
  "hdlskel_lib pf r = toml_str pf (fo_hdlskel_vhdl_lib (rc_fw_opts r))"

definition vhdl_banner :: "py_impl \<Rightarrow> string \<Rightarrow> recipe \<Rightarrow> string" where
  "vhdl_banner pf path r =
     unl ['' '' @ dashes 80,
          ''-- NOTE: this file is autogenerated:'',
          ''--    * From '' @ path,
          ''--    * Using HDLSkel SkMap v'' @ py_str_int SKMAP_VER_MAJOR @ ''.'' @ py_str_int SKMAP_VER_MINOR @ ''.'' @ py_str_int SKMAP_VER_PATCH,
          ''--    * For '' @ toml_str pf (rc_name r) @ '' '' @ rc_id r @ '' v'' @ toml_str pf (rc_version r),
          ''--    * Checksum '' @ recipe_checksum_str r,
          dashes 80, '''', '''']"

definition library_writes :: "py_impl \<Rightarrow> recipe \<Rightarrow> string list" where
  "library_writes pf r =
     (if fo_hdlskel_vhdl_lib (rc_fw_opts r) \<noteq> TStr ''work'' then [nl @ ''library '' @ hdlskel_lib pf r @ '';''] else [])"

definition ipkg_writes :: "py_impl \<Rightarrow> recipe_ipkg \<Rightarrow> string list res" where
  "ipkg_writes pf i =
     rbind (ipkg_type_to_vhdl_str (ri_t i) False) (\<lambda>t.
     rbind (if rt_kind (ri_t i) = VK_char then
              Inr (if rt_is_vec (ri_t i) then dquoted (ipkg_value_str pf (ri_value i)) else squoted (ipkg_value_str pf (ri_value i)))
            else rbind (ipkg_tree (ri_value i)) to_vhdl_source) (\<lambda>value.
       Inr ([''    constant '' @ ri_name i @ '' : '' @ t @ '' := '' @ value @ '';''] @
         (case ri_desc i of None \<Rightarrow> [] | Some d \<Rightarrow> ['' --! '' @ toml_str pf d]) @ [nl])))"

definition package_writes :: "py_impl \<Rightarrow> recipe \<Rightarrow> string list res" where
  "package_writes pf r =
     (let lib = hdlskel_lib pf r; fw = toml_str pf (rc_fw_module r) in
      rbind (rmapM (ipkg_writes pf) (rc_ipkg r)) (\<lambda>ipkgs.
        Inr (library_writes pf r @
          [unl ['''', '''', ''use '' @ lib @ ''.skmap_module_ipkg.SKMAP_SIZE_RESERVED_DEFAULT;'',
                ''use '' @ lib @ ''.skmap_recipe_functions_pkg.all;'', '''', ''package '' @ fw @ ''_ipkg is'', '''', '''']] @
          (if 1 < length (rc_ipkg r) then [nl] else []) @ concat ipkgs @
          [unl ['''', '''',
                ''    constant SKMAP_SIZE_RESERVED           : natural := '' @ toml_str pf (fo_size_reserved (rc_fw_opts r)) @ '';'',
                ''    constant SKMAP_SIZE_RESERVED_BASE_REGS : natural := '' @ toml_str pf (fo_size_reserved_base_regs (rc_fw_opts r)) @ '';'',
                '''', ''end package;'', '''', dashes 63, '''', ''library ieee;'', ''use ieee.std_logic_1164.all;'',
                ''use ieee.numeric_std.all;'', '''']] @
          library_writes pf r @
          [unl ['''', ''use '' @ lib @ ''.basic_pkg.all;'', ''use '' @ lib @ ''.vec_pkg.all;'', '''', ''use '' @ lib @ ''.ramface_pkg.all;'',
                ''use '' @ lib @ ''.skmap_pkg.all;'', ''use '' @ lib @ ''.skmap_map_acc_pkg.all;'',
                ''use '' @ lib @ ''.skmap_recipe_functions_pkg.all;'', '''', ''use '' @ lib @ ''.skmap_module_ipkg;'', '''',
                ''use work.'' @ fw @ ''_ipkg;'', '''']] @
          (if rc_ipkg r \<noteq> [] then [''use work.'' @ fw @ ''_ipkg.all;'' @ nl] else []))))"

definition entity_head :: "py_impl \<Rightarrow> recipe \<Rightarrow> string list" where
  "entity_head pf r =
     [unl ['''', '''', ''entity '' @ toml_str pf (rc_fw_module r) @ '' is'', ''  generic ('', ''    BASE_ADDR       : natural;'', ''''],
      if flat_ports r then ''    SKMAP_KIDS_FLAT : std_ulogic_vector := '' @ dquoted '''' @ '';'' @ nl
      else ''    SKMAP_KIDS : integer_vector := NULL_INTEGER_VECTOR;'' @ nl,
      unl ['''', '''', ''    SKMAP_BYTE_ALIGN : integer := SKMAP_MAP_ACC_BYTE_ALIGN_DEFAULT;''],
      unl ['''', ''    RAMFACE_ADDR_W  : natural;'', ''    RAMFACE_DATA_W  : natural;'',
           ''    RAMFACE_WREN_W  : natural := RAMFACE_DATA_W/8;'',
           ''    RAMFACE_LATENCY : natural := skmap_module_ipkg.get_RAMFACE_LATENCY'']]"

definition desc_write :: "string option \<Rightarrow> string list" where
  "desc_write d = (case d of None \<Rightarrow> [] | Some d \<Rightarrow> ['' --! '' @ d])"

text \<open>A separator after every element but the last\<close>

fun separated :: "string \<Rightarrow> string list list \<Rightarrow> string list" where
  "separated x [] = []"
| "separated x [ws] = ws"
| "separated x (ws # w2 # wss) = ws @ [x] @ separated x (w2 # wss)"

definition port_line :: "string \<Rightarrow> string \<Rightarrow> string" where
  "port_line name t = nl @ ''    '' @ name @ '' : '' @ t"

definition k_generic_lines :: "k_fw \<Rightarrow> string list res" where
  "k_generic_lines k =
     (case kf_flags k of
        Some fs \<Rightarrow>
          rbind (rmapM (\<lambda>f. rbind (case fl_vec_len (ff_flag f) of
                      None \<Rightarrow> Inr ''boolean''
                    | Some n \<Rightarrow> rbind (to_vhdl_source n) (\<lambda>n. Inr (''boolean_vector(0 to '' @ n @ ''-1)''))) (\<lambda>t.
                    Inr [port_line (fl_name (ff_flag f)) t])) fs) (\<lambda>ls.
            Inr (separated '';'' ls))
      | None \<Rightarrow> rbind (vhdl_type_str (kf_t k) True) (\<lambda>t. Inr [port_line (kf_name k) t]))"

text \<open>The generics of the constants; the description of one follows the text of the next separator.\<close>

fun k_generics :: "py_impl \<Rightarrow> string option \<Rightarrow> k_fw list \<Rightarrow> (string list \<times> string option) res" where
  "k_generics pf last_desc [] = Inr ([], last_desc)"
| "k_generics pf last_desc (k # ks) =
     rbind (k_generic_lines k) (\<lambda>ls.
     rbind (k_generics pf (Some (toml_str pf (kf_desc k))) ks) (\<lambda>(ws, d).
       Inr (desc_write last_desc @ ls @ (if ks \<noteq> [] then ['';''] else []) @ ws, d)))"

definition opt_text :: "string option \<Rightarrow> string" where
  "opt_text s = (case s of None \<Rightarrow> ''None'' | Some s \<Rightarrow> s)"

fun init_generics :: "string option \<Rightarrow> var_fw list \<Rightarrow> string list \<times> string option" where
  "init_generics last_desc [] = ([], last_desc)"
| "init_generics last_desc (v # vs) =
     (if not_zero (vf_fw_init v) then
        let (ws, d) = init_generics (Some (vf_name v @ '' inital value'')) vs in
        ('';'' # desc_write last_desc @ [port_line (opt_text (vf_init_name v)) (opt_text (vf_init_t v))] @ ws, d)
      else init_generics last_desc vs)"

definition generics_writes :: "py_impl \<Rightarrow> k_fw list \<Rightarrow> var_fw list \<Rightarrow> string list res" where
  "generics_writes pf ks vs =
     rbind (k_generics pf None ks) (\<lambda>(k_ws, d).
       let (i_ws, d) = init_generics d vs in
       Inr ((if ks \<noteq> [] then ['';'' @ nl] else []) @ k_ws @ i_ws @ desc_write d))"

definition ramface_ports :: "recipe \<Rightarrow> string list" where
  "ramface_ports r =
     [unl ['''', ''  );'', ''  port ('', ''    clk_i : in  std_ulogic;'', '''', ''    ramface_ce_i : in std_ulogic := '' @ squoted ''1'' @ '';''],
      if flat_ports r then
        unl ['''', ''    ramface_rqst_en_i   : in  std_ulogic;'',
             ''    ramface_rqst_addr_i : in  std_ulogic_vector(RAMFACE_ADDR_W-1 downto 0);'',
             ''    ramface_rqst_wren_i : in  std_ulogic_vector(RAMFACE_WREN_W-1 downto 0);'',
             ''    ramface_rqst_data_i : in  std_ulogic_vector(RAMFACE_DATA_W-1 downto 0);'',
             ''    ramface_rply_en_o   : out std_ulogic;'', ''    ramface_rply_fail_o : out std_ulogic;'',
             ''    ramface_rply_data_o : out std_ulogic_vector(RAMFACE_DATA_W -1 downto 0)'']
      else
        unl ['''', ''    ramface_rqst_i : in ramface_rqst_t('', ''      addr(RAMFACE_ADDR_W-1 downto 0),'',
             ''      wren(RAMFACE_WREN_W-1 downto 0),'', ''      data(RAMFACE_DATA_W-1 downto 0)'', ''    );'',
             ''    ramface_rply_o : out ramface_rply_t('', ''      data(RAMFACE_DATA_W -1 downto 0)'', ''    )'']]"

definition dir_str :: "var_fw \<Rightarrow> string" where
  "dir_str v = (if vf_out v then ''out'' else ''in'')"

text \<open>\<^verbatim>\<open>str\<close> of an optional expression, as an f-string prints it\<close>

definition opt_repr :: "py_impl \<Rightarrow> resolvable option \<Rightarrow> string" where
  "opt_repr pf t = (case t of None \<Rightarrow> ''None'' | Some t \<Rightarrow> resolvable_repr pf t)"

text \<open>
  The ports of the registers: a \<^verbatim>\<open>wt\<close> or \<^verbatim>\<open>rc\<close> register has a second one, for the trigger or the clear. The kind
  of the register is compared with a member of the other enumeration.
\<close>

fun flag_ports :: "py_impl \<Rightarrow> var_fw \<Rightarrow> string option \<Rightarrow> flag_fw list \<Rightarrow> string list \<times> string option" where
  "flag_ports pf v prev_desc [] = ([], prev_desc)"
| "flag_ports pf v prev_desc (f # fs) =
     (let (ws, d) = flag_ports pf v (Some (toml_str pf (fl_desc (ff_flag f)))) fs in
      (desc_write prev_desc @ [port_line (opt_text (ff_ext f)) (dir_str v @ '' '' @ ff_vhdl_t f)] @
       (if fs \<noteq> [] then ['';''] else []) @ ws, d))"

definition extra_port :: "py_impl \<Rightarrow> var_fw \<Rightarrow> string list" where
  "extra_port pf v =
     (if vf_acc v = Acc_wt \<or> vf_acc v = Acc_rc \<and> \<not> vk_is_value_kind (vh_kind (vf_t v)) VK_flag then
        [port_line (if vf_acc v = Acc_wt then port_name_trig (vf_name_ext v) else port_name_clear (vf_name_ext v))
           (''out '' @ (if vh_is_vec (vf_t v) then ''std_ulogic_vector('' @ opt_repr pf (vh_vec_len (vf_t v)) @ ''-1 downto 0)''
              else ''std_ulogic'') @ '';'')]
      else [])"

definition var_ports :: "py_impl \<Rightarrow> string option \<Rightarrow> var_fw \<Rightarrow> (string list \<times> string option) res" where
  "var_ports pf prev_desc v =
     rbind (rassert (vf_acc v \<noteq> Acc_na)) (\<lambda>_.
       case vf_flags v of
         Some fs \<Rightarrow> Inr (flag_ports pf v prev_desc fs)
       | None \<Rightarrow>
           rbind (vhdl_type_str (vf_t v) True) (\<lambda>t.
             Inr (desc_write prev_desc @ extra_port pf v @ [port_line (opt_text (vf_p_name v)) (dir_str v @ '' '' @ t)],
               Some (toml_str pf (vf_desc v)))))"

fun all_var_ports :: "py_impl \<Rightarrow> string option \<Rightarrow> var_fw list \<Rightarrow> (string list \<times> string option) res" where
  "all_var_ports pf prev_desc [] = Inr ([], prev_desc)"
| "all_var_ports pf prev_desc (v # vs) =
     rbind (var_ports pf prev_desc v) (\<lambda>(ws, d).
     rbind (all_var_ports pf d vs) (\<lambda>(ws', d').
       Inr (ws @ (if vs \<noteq> [] then ['';''] else []) @ ws', d')))"

definition mem_request_text :: "py_impl \<Rightarrow> bool \<Rightarrow> recipe_mem \<Rightarrow> string list" where
  "mem_request_text pf flat m =
     (let nm = rm_name m; depth = resolvable_repr pf (rm_fw_depth m); width = resolvable_repr pf (rm_fw_width m);
          en = ''    '' @ nm @ ''_rqst_en_o   : out std_ulogic;'';
          addr = ''    '' @ nm @ ''_rqst_addr_o : out std_ulogic_vector(ceil_log2('' @ depth @ '')-1 downto 0);'';
          wren = ''    '' @ nm @ ''_rqst_wren_o : out std_ulogic_vector('' @ width @ ''/8-1 downto 0);'';
          data = ''    '' @ nm @ ''_rqst_data_o : out std_ulogic_vector('' @ width @ ''-1 downto 0);'';
          addr_f = ''      addr(ceil_log2('' @ depth @ '')-1 downto 0)''; wren_f = ''      wren('' @ width @ ''/8-1 downto 0)'';
          data_f = ''      data('' @ width @ ''-1 downto 0)'' in
      if rm_acc m \<in> {Acc_rw, Acc_wt} then
        [if flat then unl ['''', en, addr, wren, data]
         else unl ['''', ''    '' @ nm @ ''_rqst_o : out ramface_rqst_t('', addr_f @ '','', wren_f @ '','', data_f, ''    );'']]
      else if rm_acc m = Acc_rc then
        [if flat then unl ['''', en, addr, wren]
         else unl ['''', ''    '' @ nm @ ''_rqst_o : out ramface_rqst_rc_t('', addr_f @ '','', wren_f, ''    );'']]
      else if rm_acc m \<in> {Acc_ro, Acc_k} then
        [if flat then unl ['''', en, addr]
         else unl ['''', ''    '' @ nm @ ''_rqst_o : out ramface_rqst_ro_t('', addr_f, ''    );'']]
      else [])"

definition mem_reply_text :: "py_impl \<Rightarrow> bool \<Rightarrow> recipe_mem \<Rightarrow> string" where
  "mem_reply_text pf flat m =
     (let nm = rm_name m; width = resolvable_repr pf (rm_fw_width m) in
      if flat then
        unl ['''', ''    '' @ nm @ ''_rply_en_i   : in  std_ulogic;'', ''    '' @ nm @ ''_rply_fail_i : in  std_ulogic;'',
             ''    '' @ nm @ ''_rply_data_i : in  std_ulogic_vector('' @ width @ '' -1 downto 0)'']
      else unl ['''', ''    '' @ nm @ ''_rply_i : in  ramface_rply_t('', ''      data('' @ width @ '' -1 downto 0)'', ''    )''])"

definition mem_ports :: "py_impl \<Rightarrow> bool \<Rightarrow> recipe_mem \<Rightarrow> string list res" where
  "mem_ports pf flat m =
     rbind (rassert (rm_acc m \<in> {Acc_rw, Acc_ro})) (\<lambda>_.
       Inr ([''    --! '' @ toml_str pf (rm_desc m)] @ mem_request_text pf flat m @ [mem_reply_text pf flat m]))"

definition ports_writes :: "py_impl \<Rightarrow> recipe \<Rightarrow> var_fw list \<Rightarrow> string list res" where
  "ports_writes pf r vs =
     rbind (all_var_ports pf None vs) (\<lambda>(ws, d).
     rbind (rmapM (mem_ports pf (flat_ports r)) (rc_mem r)) (\<lambda>ms.
       Inr (ramface_ports r @ (if vs \<noteq> [] then ['';'' @ nl] else []) @ ws @
         (if rc_mem r \<noteq> [] then ['';''] else []) @ desc_write d @
         (if rc_mem r \<noteq> [] then ['';'' @ nl] else []) @ separated '';'' ms @
         [unl ['''', ''  );'', ''end entity;'', '''', ''architecture rtl of '' @ toml_str pf (rc_fw_module r) @ '' is'', '''',
               ''  alias BYTE_ALIGN is SKMAP_BYTE_ALIGN;'', '''']])))"
section \<open>The declarations of the architecture\<close>

definition tick :: string where
  "tick = [CHR 0x27]"

definition mem_length :: string where
  "mem_length = ''SKMAP_VEC_EXTERNAL_MEM'' @ tick @ ''length-1''"

definition mem_const_text :: "py_impl \<Rightarrow> nat \<Rightarrow> recipe_mem \<Rightarrow> string" where
  "mem_const_text pf ii m =
     unl ['' '' @ py_str_int (int ii) @ '' => ('', ''    data_w    => '' @ resolvable_repr pf (rm_fw_width m) @ '','',
          ''    depth     => '' @ resolvable_repr pf (rm_fw_depth m) @ '','',
          ''    latency   => '' @ resolvable_repr pf (rm_fw_latency m) @ '','', ''    acc       => '' @ acc_name (rm_acc m), ''  ) '']"

definition mem_declarations :: "py_impl \<Rightarrow> recipe \<Rightarrow> string list" where
  "mem_declarations pf r =
     (if flat_ports r then
        [''  constant SKMAP_KIDS : integer_vector :=   to_vec_int(to_vec_signed(to_vec_slv(rng_dt(SKMAP_KIDS_FLAT),32)));'' @ nl] else []) @
     [''  constant SKMAP_VEC_EXTERNAL_MEM : skmap_vec_external_mem_t := ''] @
     (if rc_mem r = [] then [''NULL_SKMAP_VEC_EXTERNAL_MEM;'' @ nl]
      else
        [''( ''] @ separated '','' (map (\<lambda>(ii, m). [mem_const_text pf ii m]) (enumerate 0 (rc_mem r))) @ ['') ;'' @ nl] @
        [unl ['''', ''    signal vec_ramface_external_mem_rqst : vec_ramface_rqst_t ( 0 to '' @ mem_length @ '')('',
              ''      addr(skmap_get_external_mem_max_addr_w(SKMAP_VEC_EXTERNAL_MEM)-1 downto 0),'',
              ''      wren(skmap_get_external_mem_max_data_w(SKMAP_VEC_EXTERNAL_MEM)/8-1 downto 0),'',
              ''      data(skmap_get_external_mem_max_data_w(SKMAP_VEC_EXTERNAL_MEM)-1 downto 0)'', ''    );'',
              ''    signal vec_ramface_external_mem_rqst_en_rd : std_ulogic_vector('' @ mem_length @ '' downto 0);'',
              ''    signal vec_ramface_external_mem_rqst_en_wr : std_ulogic_vector('' @ mem_length @ '' downto 0);'', '''',
              ''    signal vec_ramface_external_mem_rply :  vec_ramface_rply_t ( 0 to '' @ mem_length @ '')('',
              ''      data(skmap_get_external_mem_max_data_w(SKMAP_VEC_EXTERNAL_MEM)-1 downto 0)'', ''    );'', ''    '', '''']])"

definition k_flags_function :: "py_impl \<Rightarrow> k_fw \<Rightarrow> string list" where
  "k_flags_function pf k =
     (case kf_flags k of
        None \<Rightarrow> []
      | Some fs \<Rightarrow>
          [unl ['''', ''  function get_'' @ kf_name k @ '' return boolean_vector is'',
                ''    variable flags : boolean_vector(0 to '' @ opt_repr pf (vh_elem_w (kf_t k)) @ ''-1) := (others => false);'', ''  begin'', '''']] @
          map (\<lambda>f. let bit = resolvable_repr pf (fl_bit (ff_flag f)); nm = fl_name (ff_flag f) in
             case fl_vec_len (ff_flag f) of
               Some n \<Rightarrow> ''    flags('' @ bit @ '' to '' @ bit @ '' + '' @ resolvable_repr pf n @ '' - 1) := '' @ nm @ '';'' @ nl
             | None \<Rightarrow> ''    flags('' @ bit @ '') := '' @ nm @ '';'' @ nl) fs @
          [unl [''    return flags;'', ''  end function;'', ''  constant '' @ kf_name k @ '' : boolean_vector := get_'' @ kf_name k @ '';'', '' '']])"

text \<open>\<^verbatim>\<open>elem_w > n\<close>: only numbers have an order\<close>

definition elem_w_gt :: "resolvable option \<Rightarrow> int \<Rightarrow> bool res" where
  "elem_w_gt w n =
     (case w of Some (RNum x) \<Rightarrow> Inr (num_val x > of_int n) | Some (RBool b) \<Rightarrow> Inr ((if b then 1 else 0) > n) | _ \<Rightarrow> Inl TypeError)"

definition true_false :: "bool \<Rightarrow> string" where
  "true_false b = (if b then ''TRUE'' else ''FALSE'')"

definition k_pack_write :: "py_impl \<Rightarrow> k_fw \<Rightarrow> string res" where
  "k_pack_write pf k =
     rbind (map_acc_k_type_conv (kf_t k) (kf_name k)) (\<lambda>(val, sngd).
       case sngd of
         None \<Rightarrow> Inr (''    skmap_map_acc_k(k_vec_int_io=>k_vec_int, byte_idx_io=>byte_idx, val_i=>'' @ val @ '');'' @ nl)
       | Some s \<Rightarrow>
           rbind (elem_w_gt (vh_elem_w (kf_t k)) 32) (\<lambda>big.
             if big then Inl RuntimeError
             else Inr (''    skmap_map_acc_k(k_vec_int_io=>k_vec_int, byte_idx_io=>byte_idx, val_i=>'' @ val @ '', w_i=>''
               @ opt_repr pf (vh_elem_w (kf_t k)) @ '', signed_i=>'' @ true_false s @ '');'' @ nl)))"

definition k_writes :: "py_impl \<Rightarrow> k_fw list \<Rightarrow> string list res" where
  "k_writes pf ks =
     rbind (regs_len_str (map (\<lambda>k. (kf_t k, kf_name k)) ks) ''REGS_K_INT_LEN'' True None) (\<lambda>len.
     rbind (rmapM (k_pack_write pf) ks) (\<lambda>packs.
       Inr (concat (map (k_flags_function pf) ks) @ [len] @
         [unl ['''', ''  function get_REGS_K_INT return integer_vector is'',
               ''    variable k_vec_int : integer_vector(0 to REGS_K_INT_LEN-1) := (others => 0);'',
               ''    variable byte_idx : integer := 0;'', ''  begin'', '''']] @
         packs @
         [unl [''    return k_vec_int;'', ''  end function;'', ''  constant REGS_K_INT : integer_vector := get_REGS_K_INT;'', '''',
               ''  constant HEAD_AND_K_LEN : natural := skmap_module_ipkg.head_and_k_len('',
               ''    SKMAP_BYTE_ALIGN => SKMAP_BYTE_ALIGN,'', ''    RAMFACE_DATA_W => RAMFACE_DATA_W,'', ''    SKMAP_KIDS => SKMAP_KIDS,'',
               ''    REGS_K_INT => REGS_K_INT '', ''  );'', '''']])))"

definition align_str :: string where
  "align_str = ''BYTE_ALIGN=>BYTE_ALIGN''"

definition var_init_write :: "py_impl \<Rightarrow> var_fw \<Rightarrow> string res" where
  "var_init_write pf v =
     (let t = vf_t v in
      if vf_fw_init v = Fw_zero then vhdl_skmap_map_acc_byte_inc_func_str t (vf_name v) False
      else if is_k_int (vf_fw_init v) then
        rbind (vsrc (vh_elem_w t)) (\<lambda>w.
          Inr (''    skmap_map_acc_k(k_vec_int_io=>vec_int, byte_idx_io=>byte_idx, val_i=>'' @ opt_text (vf_init_name v) @ '', w_i=>'' @ w
            @ '', signed_i=>'' @ true_false (vh_kind t = V_integer) @ '', '' @ align_str @ '');'' @ nl))
      else
        (case vf_init_name v of
           None \<Rightarrow> Inl AssertionError
         | Some s \<Rightarrow> Inr (''    skmap_map_acc_k(k_vec_int_io=>vec_int, byte_idx_io=>byte_idx, val_i=>'' @ vhdl_add_slv_cast s t @ '', ''
             @ align_str @ '');'' @ nl)))"

definition use_var_wr_init :: "var_fw list \<Rightarrow> bool" where
  "use_var_wr_init vs \<longleftrightarrow> (\<exists>v \<in> set vs. vf_fw_init v \<noteq> Fw_zero)"

definition var_init_writes :: "py_impl \<Rightarrow> var_fw list \<Rightarrow> string list res" where
  "var_init_writes pf vs =
     (if use_var_wr_init vs then
        rbind (rmapM (var_init_write pf) vs) (\<lambda>ws.
          Inr ([unl ['''', ''  function get_REGS_VAR_WR_INIT return integer_vector is'',
                ''    variable vec_int_0to : integer_vector(0 to REGS_VAR_LEN-1) := (others => 0);'',
                ''    alias vec_int : integer_vector(HEAD_AND_K_LEN to HEAD_AND_K_LEN+REGS_VAR_LEN-1) is vec_int_0to(0 to REGS_VAR_LEN-1);'',
                ''    variable byte_idx : integer := HEAD_AND_K_LEN*4;'', ''  begin'', '''']] @ ws @
            [unl [''    return vec_int_0to;'', ''  end function;'', ''  constant REGS_VAR_WR_INIT : integer_vector := get_REGS_VAR_WR_INIT;'']]))
      else Inr [])"

definition signals_text :: string where
  "signals_text =
     unl ['''', '''', ''  subtype REG_VAR_RNG is integer range HEAD_AND_K_LEN to HEAD_AND_K_LEN+REGS_VAR_LEN-1;'', '''',
          ''  signal regs_var_rd_data_0 : vec_slv32_t(0 to REGS_VAR_LEN-1) := (others => (others => '' @ squoted ''0'' @ ''));'',
          ''  signal regs_var_wr_data_0 : vec_slv32_t(0 to REGS_VAR_LEN-1);'',
          ''  signal regs_var_wr_wren_0 : vec_slv4_t (0 to REGS_VAR_LEN-1);'', '''',
          ''  alias regs_var_rd_data : vec_slv32_t(REG_VAR_RNG) is regs_var_rd_data_0;'',
          ''  alias regs_var_wr_data : vec_slv32_t(REG_VAR_RNG) is regs_var_wr_data_0;'',
          ''  alias regs_var_wr_wren : vec_slv4_t (REG_VAR_RNG) is regs_var_wr_wren_0;'', '''', ''begin'', '''', '''']"

text \<open>The checks of the constants: of the unsigned and signed kinds only, which a constant never has\<close>

definition is_int_lt :: "resolvable option \<Rightarrow> int \<Rightarrow> bool" where
  "is_int_lt w n = (case Option.bind w r_int of None \<Rightarrow> True | Some i \<Rightarrow> i < n)"

definition k_check_writes :: "py_impl \<Rightarrow> k_fw \<Rightarrow> string list res" where
  "k_check_writes pf k =
     (let t = kf_t k; w = opt_repr pf (vh_elem_w t) in
      if vh_kind t \<in> {V_boolean, V_boolean_vector, V_sl, V_slv} \<or> vh_is_vec t then Inr []
      else if vh_kind t = V_unsigned then
        (if is_int_lt (vh_elem_w t) 31 then Inr [''  assert '' @ kf_name k @ '' < 2**'' @ w @ '' severity FAILURE;'' @ nl]
         else rbind (rassert (is_int_lt (vh_elem_w t) 32)) (\<lambda>_. Inr []))
      else if vh_kind t = V_signed then
        (if is_int_lt (vh_elem_w t) 32 then
           Inr [''  assert '' @ kf_name k @ '' <   2**('' @ w @ ''-1) severity FAILURE;'' @ nl,
                ''  assert '' @ kf_name k @ '' >= -2**('' @ w @ ''-1) severity FAILURE;'' @ nl]
         else rbind (rassert (is_int_lt (vh_elem_w t) 33)) (\<lambda>_. Inr []))
      else Inr [])"

definition instance_writes :: "py_impl \<Rightarrow> recipe \<Rightarrow> var_fw list \<Rightarrow> string list" where
  "instance_writes pf r vs =
     (let fw = toml_str pf (rc_fw_module r) in
      [unl ['''', '''', ''  i_skmap_module : entity '' @ hdlskel_lib pf r @ ''.skmap_module'', ''  generic map ('',
            ''    SKMAP_ID           => '' @ dquoted (rc_id r) @ '','', ''    SKMAP_VERSION      => '' @ toml_str pf (rc_version r) @ '','',
            ''    SKMAP_CHECKSUM     => 16#'' @ recipe_checksum_str r @ ''#,'', ''    SKMAP_KIDS         => SKMAP_KIDS,'',
            ''    SKMAP_VEC_EXTERNAL_MEM => SKMAP_VEC_EXTERNAL_MEM,'', ''    SKMAP_BYTE_ALIGN   => SKMAP_BYTE_ALIGN,'',
            ''    SKMAP_SIZE_RESERVED           => '' @ fw @ ''_ipkg.SKMAP_SIZE_RESERVED,'',
            ''    SKMAP_SIZE_RESERVED_BASE_REGS => '' @ fw @ ''_ipkg.SKMAP_SIZE_RESERVED_BASE_REGS,'',
            ''    BASE_ADDR          => BASE_ADDR,'', ''    RAMFACE_ADDR_W     => RAMFACE_ADDR_W,'',
            ''    RAMFACE_DATA_W     => RAMFACE_DATA_W,'', ''    RAMFACE_WREN_W     => RAMFACE_WREN_W,'',
            ''    RAMFACE_LATENCY    => RAMFACE_LATENCY,'', ''    REGS_K_INT         => REGS_K_INT,'', ''    REGS_VAR_LEN       => REGS_VAR_LEN'']] @
      (if use_var_wr_init vs then ['','' @ nl @ ''    REGS_VAR_WR_DATA_INIT_VEC_INT => REGS_VAR_WR_INIT''] else []) @
      [unl ['''', ''  ) port map ('', ''    clk_i              => clk_i,'', '''', ''    ramface_ce_i       => ramface_ce_i,''],
       if flat_ports r then
         unl ['''', ''    ramface_rqst_i.en   => ramface_rqst_en_i,'', ''    ramface_rqst_i.addr => u_unsigned(ramface_rqst_addr_i),'',
              ''    ramface_rqst_i.wren => ramface_rqst_wren_i,'', ''    ramface_rqst_i.data => ramface_rqst_data_i,'',
              ''    ramface_rply_o.en   => ramface_rply_en_o,'', ''    ramface_rply_o.fail => ramface_rply_fail_o,'',
              ''    ramface_rply_o.data => ramface_rply_data_o,'', '''']
       else unl ['''', ''    ramface_rqst_i     => ramface_rqst_i,'', ''    ramface_rply_o     => ramface_rply_o,'', '''']] @
      (if rc_mem r \<noteq> [] then
         [unl ['''', ''    vec_ramface_external_mem_rqst_o       => vec_ramface_external_mem_rqst,'',
               ''    vec_ramface_external_mem_rqst_en_rd_o => vec_ramface_external_mem_rqst_en_rd,'',
               ''    vec_ramface_external_mem_rqst_en_wr_o => vec_ramface_external_mem_rqst_en_wr,'',
               ''    vec_ramface_external_mem_rply_i       => vec_ramface_external_mem_rply, '', '''']] else []) @
      [unl ['''', ''    regs_var_wr_wren_o => regs_var_wr_wren_0,'', ''    regs_var_wr_data_o => regs_var_wr_data_0,'',
            ''    regs_var_rd_data_i => regs_var_rd_data_0'', ''  );'', ''''],
       unl ['''', ''  process(all)'', ''    variable byte_idx_v : natural;'', '''']])"

section \<open>The process\<close>

definition variable_writes :: "var_fw \<Rightarrow> string list res" where
  "variable_writes v =
     (if vf_uses_var v then
        rbind (vhdl_type_str_slv_2d (vf_t v)) (\<lambda>t.
        rbind (rassert (vf_acc v = Acc_wt \<longrightarrow> \<not> vh_is_vec (vf_t v))) (\<lambda>_.
          Inr ([''    variable '' @ vf_name_ext v @ '' : '' @ t @ '';'' @ nl] @
            (if vf_acc v = Acc_wt then [''    variable '' @ var_name_trig (vf_name_ext v) @ '' : std_ulogic;'' @ nl] else []))))
      else Inr [])"

definition flag_range :: "py_impl \<Rightarrow> flag_fw \<Rightarrow> string" where
  "flag_range pf f =
     (let bit = resolvable_repr pf (fl_bit (ff_flag f)) in
      case fl_vec_len (ff_flag f) of
        Some n \<Rightarrow> ''('' @ resolvable_repr pf n @ '' -1 + '' @ bit @ '' downto '' @ bit @ '')''
      | None \<Rightarrow> ''('' @ bit @ '')'')"

definition flags_in_writes :: "py_impl \<Rightarrow> var_fw \<Rightarrow> string list res" where
  "flags_in_writes pf v =
     (if vf_uses_var v \<and> \<not> vf_out v then
        (case vf_flags v of
           None \<Rightarrow> Inl AssertionError
         | Some fs \<Rightarrow>
             rbind (rassert (\<not> vh_is_vec (vf_t v))) (\<lambda>_.
               Inr (map (\<lambda>f. ''    '' @ vf_name_ext v @ flag_range pf f @ '' := '' @ opt_text (ff_ext f) @ '';'' @ nl) fs @ [nl])))
      else Inr [])"

definition rd_name :: "var_fw \<Rightarrow> string res" where
  "rd_name v =
     (let nm = vf_name_ext v in
      if sw_writable (vf_acc v) = Some True then Inr ''None''
      else if vh_is_vec (vf_t v) then
        (case vh_kind (vf_t v) of
           V_sl \<Rightarrow> Inr nm | V_slv \<Rightarrow> Inr nm | V_unsigned \<Rightarrow> Inr (''to_vec_slv('' @ nm @ '')'') | V_signed \<Rightarrow> Inr (''to_vec_slv('' @ nm @ '')'')
         | _ \<Rightarrow> Inl AssertionError)
      else
        (case vh_kind (vf_t v) of
           V_sl \<Rightarrow> Inr (''to_slv('' @ nm @ '')'') | V_slv \<Rightarrow> Inr nm | V_unsigned \<Rightarrow> Inr (''std_ulogic_vector('' @ nm @ '')'')
         | V_signed \<Rightarrow> Inr (''std_ulogic_vector('' @ nm @ '')'') | _ \<Rightarrow> Inl AssertionError))"

text \<open>The write that maps a register and moves the byte index past it\<close>

definition map_acc_write :: "var_fw \<Rightarrow> string res" where
  "map_acc_write v =
     rbind (rd_name v) (\<lambda>rd.
       let nm = vf_name_ext v; fn_ext = (if vf_uses_var v then ''_var'' else '''') in
       case vf_acc v of
         Acc_ro \<Rightarrow> Inr (''    skmap_map_acc_ro(regs_var_rd_data, byte_idx_v, '' @ rd @ '', '' @ align_str @ '');'' @ nl)
       | Acc_rw \<Rightarrow> Inr (''    skmap_map_acc_rw'' @ fn_ext @ ''(regs_var_rd_data, regs_var_wr_data, byte_idx_v, '' @ nm @ '', '' @ align_str @ '');'' @ nl)
       | Acc_wt \<Rightarrow> Inr (''    skmap_map_acc_wt'' @ fn_ext @ ''(regs_var_rd_data, regs_var_wr_data, regs_var_wr_wren, byte_idx_v, '' @ nm @ '', ''
           @ (if vf_uses_var v then var_name_trig nm else port_name_trig nm) @ '', '' @ align_str @ '');'' @ nl)
       | Acc_rc \<Rightarrow>
           (case vf_flags v of
              Some fs \<Rightarrow> Inr (unl [''    if rising_edge(clk_i) then'', ''      byte_idx_temp_v := byte_idx_v;'',
                ''      skmap_map_acc_rc_flags(regs_var_rd_data, regs_var_wr_wren, byte_idx_temp_v, '' @ rd @ '', '' @ align_str @ '');'',
                ''    end if;'', ''    skmap_map_acc_byte_inc(byte_idx_v, '' @ rd @ tick @ ''length, '' @ align_str @ '');'', ''''])
            | None \<Rightarrow> Inr (''    skmap_map_acc_rc(regs_var_rd_data, regs_var_wr_wren, byte_idx_v, '' @ rd @ '', '' @ port_name_clear nm @ '', ''
                @ align_str @ '');'' @ nl))
       | _ \<Rightarrow> Inl AssertionError)"

definition out_value :: "bool \<Rightarrow> var_fw \<Rightarrow> string res" where
  "out_value flat v =
     (let nm = vf_name_ext v; t = vf_t v in
      if flat then
        Inr (if vh_is_bool t then ''to_sl('' @ nm @ '')'' else if vh_is_vec t then ''to_flat('' @ nm @ '')'' else nm)
      else if vh_is_vec t then
        (case vh_kind t of
           V_natural \<Rightarrow> Inr (''to_vec_int(to_vec_unsigned('' @ nm @ ''))'') | V_integer \<Rightarrow> Inr (''to_vec_int(to_vec_signed('' @ nm @ ''))'')
         | V_signed \<Rightarrow> Inr (''to_vec_signed('' @ nm @ '')'') | V_unsigned \<Rightarrow> Inr (''to_vec_unsigned('' @ nm @ '')'')
         | _ \<Rightarrow> Inl AssertionError)
      else if vh_is_bool t then Inr (''to_sl('' @ nm @ '')'')
      else
        (case vh_kind t of
           V_natural \<Rightarrow> Inr (''unsigned('' @ nm @ '')'') | V_integer \<Rightarrow> Inr (''signed('' @ nm @ '')'')
         | V_unsigned \<Rightarrow> Inr (''unsigned('' @ nm @ '')'') | V_signed \<Rightarrow> Inr (''signed('' @ nm @ '')'') | _ \<Rightarrow> Inl AssertionError))"

text \<open>A register with flags has no \<^verbatim>\<open>p_name\<close>, reading it raises.\<close>

definition var_p_name :: "var_fw \<Rightarrow> string res" where
  "var_p_name v = (case vf_p_name v of None \<Rightarrow> Inl AttributeError | Some p \<Rightarrow> Inr p)"

definition out_writes :: "py_impl \<Rightarrow> bool \<Rightarrow> var_fw \<Rightarrow> string list res" where
  "out_writes pf flat v =
     (if vf_uses_var v \<and> vf_out v then
        rbind (if vf_acc v = Acc_wt then
                 rbind (var_p_name v) (\<lambda>p. Inr [''    '' @ port_name_trig p @ '' <= '' @ var_name_trig (vf_name_ext v) @ '';'' @ nl])
               else Inr []) (\<lambda>trig.
        rbind (case vf_flags v of
                 None \<Rightarrow> rbind (var_p_name v) (\<lambda>p. rbind (out_value flat v) (\<lambda>x. Inr [''    '' @ p @ '' <= '' @ x @ '';'' @ nl]))
               | Some fs \<Rightarrow>
                   rbind (rassert (\<not> vh_is_vec (vf_t v))) (\<lambda>_.
                     Inr (map (\<lambda>f. ''    '' @ opt_text (ff_ext f) @ '' <= '' @ vf_name_ext v @ flag_range pf f @ '';'' @ nl) fs @ [nl]))) (\<lambda>ws.
          Inr (trig @ ws)))
      else Inr [])"

section \<open>The memories\<close>

definition mem_connect :: "py_impl \<Rightarrow> bool \<Rightarrow> nat \<Rightarrow> nat \<Rightarrow> recipe_mem \<Rightarrow> string list" where
  "mem_connect pf flat n ii m =
     (let nm = rm_name m; single = (n = 1); width = resolvable_repr pf (rm_fw_width m);
          addr_w = (if single then None else Some (''ceil_log2('' @ resolvable_repr pf (rm_fw_depth m) @ '')''));
          data_w = (if single then None else Some width); wren_w = (if single then None else Some (width @ ''/8''));
          q = (\<lambda>s. if flat then nm @ ''_rqst_'' @ s @ ''_o'' else nm @ ''_rqst_o.'' @ s);
          p = (\<lambda>s. if flat then nm @ ''_rply_'' @ s @ ''_i'' else nm @ ''_rply_i.'' @ s);
          i = py_str_int (int ii); rqst = ''vec_ramface_external_mem_rqst('' @ i @ '')''; rply = ''    vec_ramface_external_mem_rply('' @ i @ '')'' in
      [unl ['''', ''    '' @ q ''addr'' @ '' <= ''
         @ optional_add_func_str (optional_resize (rqst @ ''.addr'') addr_w) (if flat then Some ''std_ulogic_vector'' else None) @ '';'']] @
      (if rm_acc m \<in> {Acc_ro, Acc_k} then
         [unl ['''', ''    '' @ q ''en'' @ ''   <= vec_ramface_external_mem_rqst_en_rd('' @ i @ '');'']]
       else if rm_acc m \<in> {Acc_rw, Acc_rc, Acc_wt} then
         [unl ['''', ''    '' @ q ''en'' @ ''   <= '' @ rqst @ ''.en;'',
               ''    '' @ q ''wren'' @ '' <= '' @ optional_resize (rqst @ ''.wren'') wren_w @ '';'']] @
         (if rm_acc m \<in> {Acc_rw, Acc_wt} then
            [unl ['''', ''    '' @ q ''data'' @ '' <= '' @ optional_resize (rqst @ ''.data'') data_w @ '';'']] else [])
       else []) @
      [unl ['''', rply @ ''.en   <= '' @ p ''en'' @ '';'', rply @ ''.fail <= '' @ p ''fail'' @ '';'',
            rply @ ''.data <= '' @ optional_resize (p ''data'') data_w @ '';'', '''']])"

section \<open>The module\<close>

definition process_begin :: string where
  "process_begin = unl ['''', ''  begin'', ''    byte_idx_v := HEAD_AND_K_LEN*4;'', '''', '''']"

definition process_writes :: "py_impl \<Rightarrow> recipe \<Rightarrow> var_fw list \<Rightarrow> string list res" where
  "process_writes pf r vs =
     rbind (rmapM variable_writes vs) (\<lambda>vars.
     rbind (rmapM (flags_in_writes pf) vs) (\<lambda>ins.
     rbind (rmapM map_acc_write vs) (\<lambda>calls.
     rbind (rmapM (out_writes pf (flat_ports r)) vs) (\<lambda>outs.
       Inr ((if \<exists>v \<in> set (rc_var r). rr_acc v = Acc_rc \<and> rr_flags v \<noteq> None
             then [''    variable byte_idx_temp_v : natural;'' @ nl] else []) @ concat vars @
         [process_begin] @ concat ins @ calls @ [nl] @ concat outs @ [''  end process;'' @ nl])))))"

definition generate_vhdl_module :: "py_impl \<Rightarrow> string \<Rightarrow> recipe \<Rightarrow> string list res" where
  "generate_vhdl_module pf path r =
     (let basic = flat_ports r in
      rbind (package_writes pf r) (\<lambda>pkg.
      rbind (rmapM (\<lambda>k. RecipeKFw_init k basic) (rc_k r)) (\<lambda>ks.
      rbind (k_generics pf None ks) (\<lambda>_.
      rbind (rmapM (\<lambda>v. RecipeVarFw_init v basic) (rc_var r)) (\<lambda>vs.
      rbind (generics_writes pf ks vs) (\<lambda>generics.
      rbind (ports_writes pf r vs) (\<lambda>ports.
      rbind (k_writes pf ks) (\<lambda>k_ws.
      rbind (regs_len_str (map (\<lambda>v. (vf_t v, vf_name v)) vs) ''REGS_VAR_LEN'' False (Some ''HEAD_AND_K_LEN*4'')) (\<lambda>len.
      rbind (var_init_writes pf vs) (\<lambda>inits.
      rbind (rmapM (k_check_writes pf) ks) (\<lambda>checks.
      rbind (process_writes pf r vs) (\<lambda>process.
        Inr ([vhdl_banner pf path r] @ pkg @ entity_head pf r @ generics @ ports @ mem_declarations pf r @ k_ws @ [len] @ inits @
          [signals_text] @ concat checks @ instance_writes pf r vs @ process @
          concat (map (\<lambda>(ii, m). mem_connect pf basic (length (rc_mem r)) ii m) (enumerate 0 (rc_mem r))) @
          [unl ['''', ''end architecture;'', '''']])))))))))))))"
section \<open>Lemmas\<close>

lemma port_name_cases:
  "port_name name out =
     (if ends_with name (if out then ''_o'' else ''_i'') then Inl AssertionError else Inr (name @ (if out then ''_o'' else ''_i'')))"
  by (simp add: port_name_def rassert_def)

text \<open>The kinds a register and a constant can have\<close>

lemma var_kind: "vhdl_kind_of t False = Inr k \<Longrightarrow> k \<in> {V_unsigned, V_signed, V_character, V_string, V_sl, V_slv}"
  by (cases "rt_kind t") (auto simp: vhdl_kind_of_def basic_kind_def rbind_Inr_iff split: if_splits)

lemma k_kind: "vhdl_kind_of t True = Inr k \<Longrightarrow> k \<notin> {V_unsigned, V_signed}"
  by (cases "rt_kind t") (auto simp: vhdl_kind_of_def basic_kind_def rbind_Inr_iff split: if_splits)

lemma RecipeVarFw_initE:
  assumes "RecipeVarFw_init v basic = Inr f"
  shows "vf_name f = rr_name v" and "vf_acc f = rr_acc v" and "vf_fw_init f = rr_fw_init v" and "rr_acc v \<noteq> Acc_na"
    and "vhdl_kind_of (rr_t v) False = Inr (vh_kind (vf_t f))" and "vh_t (vf_t f) = rr_t v"
    and "vf_out f \<longleftrightarrow> rr_acc v \<in> {Acc_rw, Acc_wt}"
    and "rr_flags v = None \<longleftrightarrow> vf_flags f = None"
    and "rr_flags v \<noteq> None \<Longrightarrow> vf_p_name f = None \<and> vf_uses_var f"
  using assms by (cases "rr_acc v"; auto simp: RecipeVarFw_init_def Let_def rbind_Inr_iff ValueTypeVhdl_init_def split: option.splits)+

lemma RecipeKFw_initE:
  assumes "RecipeKFw_init k basic = Inr f"
  shows "kf_name f = rr_name k" and "vhdl_kind_of (rr_t k) True = Inr (vh_kind (kf_t f))"
  using assms by (auto simp: RecipeKFw_init_def rbind_Inr_iff ValueTypeVhdl_init_def)

lemma rmapM_list_all2: "rmapM f xs = Inr ys \<Longrightarrow> list_all2 (\<lambda>x y. f x = Inr y) xs ys"
  by (induction xs arbitrary: ys) (auto simp: rbind_Inr_iff)

lemma var_fw_names:
  assumes "rmapM (\<lambda>v. RecipeVarFw_init v basic) vs = Inr fs"
  shows "map vf_name fs = map rr_name vs" and "map vf_acc fs = map rr_acc vs"
  using rmapM_list_all2 [OF assms] by (induction rule: list_all2_induct) (auto simp: RecipeVarFw_initE)

lemma generate_vhdlE:
  assumes "generate_vhdl_module pf path r = Inr ws"
  obtains pkg ks vs generics ports k_ws len inits checks process where
    "rmapM (\<lambda>k. RecipeKFw_init k (flat_ports r)) (rc_k r) = Inr ks"
    "rmapM (\<lambda>v. RecipeVarFw_init v (flat_ports r)) (rc_var r) = Inr vs"
    "regs_len_str (map (\<lambda>v. (vf_t v, vf_name v)) vs) ''REGS_VAR_LEN'' False (Some ''HEAD_AND_K_LEN*4'') = Inr len"
    "var_init_writes pf vs = Inr inits" "process_writes pf r vs = Inr process"
    "ports_writes pf r vs = Inr ports" "k_writes pf ks = Inr k_ws"
    "ws = ([vhdl_banner pf path r] @ pkg @ entity_head pf r @ generics @ ports @ mem_declarations pf r @ k_ws) @ [len] @ inits @
          ([signals_text] @ concat checks @ instance_writes pf r vs) @ process @
          concat (map (\<lambda>(ii, m). mem_connect pf (flat_ports r) (length (rc_mem r)) ii m) (enumerate 0 (rc_mem r))) @
          [unl ['''', ''end architecture;'', '''']]"
proof -
  obtain pkg ks x vs generics ports k_ws len inits checks process where
    1: "rmapM (\<lambda>k. RecipeKFw_init k (flat_ports r)) (rc_k r) = Inr ks"
      "rmapM (\<lambda>v. RecipeVarFw_init v (flat_ports r)) (rc_var r) = Inr vs"
      "regs_len_str (map (\<lambda>v. (vf_t v, vf_name v)) vs) ''REGS_VAR_LEN'' False (Some ''HEAD_AND_K_LEN*4'') = Inr len"
      "var_init_writes pf vs = Inr inits" "process_writes pf r vs = Inr process"
      "ports_writes pf r vs = Inr ports" "k_writes pf ks = Inr k_ws"
    and ws: "[vhdl_banner pf path r] @ pkg @ entity_head pf r @ generics @ ports @ mem_declarations pf r @ k_ws @ [len] @ inits @
          [signals_text] @ concat checks @ instance_writes pf r vs @ process @
          concat (map (\<lambda>(ii, m). mem_connect pf (flat_ports r) (length (rc_mem r)) ii m) (enumerate 0 (rc_mem r))) @
          [unl ['''', ''end architecture;'', '''']] = ws"
    using assms unfolding generate_vhdl_module_def Let_def rbind_Inr_iff sum.inject by (elim exE conjE)
  show thesis by (rule that [OF 1]) (simp only: ws [symmetric] append_assoc)
qed

section \<open>Properties\<close>


definition array_fw :: var_fw where
  "array_fw =
     \<lparr>vf_name = ''v'', vf_t = \<lparr>vh_t = rr_t (array_var 4 32), vh_kind = V_unsigned, vh_flat = False\<rparr>, vf_acc = Acc_rw,
      vf_desc = TStr ''values'', vf_fw_init = Fw_zero, vf_out = True, vf_name_ext = ''v_v'', vf_p_name = Some ''v_o'',
      vf_uses_var = True, vf_flags = None, vf_init_name = None, vf_init_t = None\<rparr>"

lemma array_fw_parts:
  "RecipeVarFw_init (array_var 4 32) False = Inr array_fw"
  "\<not> isl (var_ports example_pf None array_fw)"
  "\<not> isl (vhdl_skmap_map_acc_byte_inc_func_str (vf_t array_fw) ''v'' False)"
  "\<not> isl (variable_writes array_fw)"
  "\<not> isl (flags_in_writes example_pf array_fw)"
  "\<not> isl (map_acc_write array_fw)"
  "\<not> isl (out_writes example_pf False array_fw)"
  "vf_fw_init array_fw = Fw_zero" "vf_name array_fw = ''v''"
  by code_simp+

lemma not_isl_iff: "\<not> isl m \<longleftrightarrow> (\<exists>x. m = Inr x)"
  by (cases m) simp_all

lemma array_vhdl: "\<not> isl (generate_vhdl_module example_pf path (array_built id 4 32))"
proof -
  let ?r = "array_built id 4 32"
  have lists: "rc_ipkg ?r = []" "rc_k ?r = []" "rc_var ?r = [array_var 4 32]" "rc_mem ?r = []" "\<not> flat_ports ?r"
    by (simp_all add: array_built_def Recipe_start_def flat_ports_def FwOpts_def toml_truth_def)
  obtain p i x y z u where
    "var_ports example_pf None array_fw = Inr p" "vhdl_skmap_map_acc_byte_inc_func_str (vf_t array_fw) ''v'' False = Inr i"
    "variable_writes array_fw = Inr x" "flags_in_writes example_pf array_fw = Inr y" "map_acc_write array_fw = Inr z"
    "out_writes example_pf False array_fw = Inr u"
    using array_fw_parts(2-7) unfolding not_isl_iff by blast
  then show ?thesis
    by (simp add: generate_vhdl_module_def lists array_fw_parts(1,8,9) package_writes_def generics_writes_def ports_writes_def
      k_writes_def regs_len_str_def var_init_writes_def use_var_wr_init_def process_writes_def Let_def split: prod.splits)
qed


text \<open>
  C30: the tests of the generator on the kind of a value compare the kinds of two enumerations or name kinds the
  register cannot have. So every initial value given as an integer is declared unsigned, also that of a
  signed register, an initial value of the type of the port is passed without the cast to a vector of
  bits, unless it is a single bit, and no constant is checked against the range of its width.
\<close>

theorem vhdl_kind_tests_dead:
  "(\<forall>v basic f s. RecipeVarFw_init v basic = Inr f \<and> rr_fw_init v = Fw_k_int \<and> var_init_write pf f = Inr s \<longrightarrow>
      (\<exists>p. s = p @ '', signed_i=>FALSE, BYTE_ALIGN=>BYTE_ALIGN);'' @ nl)) \<and>
   (\<forall>name t. vhdl_add_slv_cast name t = (if vh_is_bool t then ''to_slv('' @ name @ '')'' else name)) \<and>
   (\<forall>k basic f. RecipeKFw_init k basic = Inr f \<longrightarrow> k_check_writes pf f = Inr [])"
proof (intro conjI allI impI)
  fix v :: recipe_var and basic f s
  assume a: "RecipeVarFw_init v basic = Inr f \<and> rr_fw_init v = Fw_k_int \<and> var_init_write pf f = Inr s"
  have "vh_kind (vf_t f) \<noteq> V_integer" using var_kind [OF RecipeVarFw_initE(5) [OF conjunct1 [OF a]]] by auto
  moreover have "vf_fw_init f = Fw_k_int" using RecipeVarFw_initE(3) a by auto
  ultimately show "\<exists>p. s = p @ '', signed_i=>FALSE, BYTE_ALIGN=>BYTE_ALIGN);'' @ nl"
    using a by (auto simp: var_init_write_def Let_def rbind_Inr_iff true_false_def align_str_def)
next
  fix name t show "vhdl_add_slv_cast name t = (if vh_is_bool t then ''to_slv('' @ name @ '')'' else name)"
    by (simp add: vhdl_add_slv_cast_def vk_is_value_kind_def)
next
  fix k basic f assume "RecipeKFw_init k basic = Inr f"
  then show "k_check_writes pf f = Inr []" using k_kind [OF RecipeKFw_initE(2)] by (auto simp: k_check_writes_def Let_def)
qed

theorem vhdl_kind_tests_dead_witness:
  "\<exists>f s. RecipeVarFw_init ((array_var 4 32)\<lparr>rr_t := Type_known \<lparr>vt_kind = VK_sint, vt_width = 8, vt_vec_len = None\<rparr>, rr_fw_init := Fw_k_int\<rparr>) False = Inr f \<and>
     var_init_write example_pf f = Inr s \<and> (\<exists>p. s = p @ '', signed_i=>FALSE, BYTE_ALIGN=>BYTE_ALIGN);'' @ nl)"
proof -
  let ?v = "(array_var 4 32)\<lparr>rr_t := Type_known \<lparr>vt_kind = VK_sint, vt_width = 8, vt_vec_len = None\<rparr>, rr_fw_init := Fw_k_int\<rparr>"
  have "\<not> isl (rbind (RecipeVarFw_init ?v False) (var_init_write example_pf))" by code_simp
  then obtain f s where f: "RecipeVarFw_init ?v False = Inr f" "var_init_write example_pf f = Inr s"
    by (auto simp: rbind_def isl_def split: sum.splits) (metis sum.exhaust)
  have "rr_fw_init ?v = Fw_k_int" by simp
  then show ?thesis using vhdl_kind_tests_dead [of example_pf] f by blast
qed

lemma rmapM_in: "rmapM f xs = Inr ys \<Longrightarrow> x \<in> set xs \<Longrightarrow> \<exists>y \<in> set ys. f x = Inr y"
  by (induction xs arbitrary: ys) (auto simp: rbind_Inr_iff)

lemma rmapM_ok: "rmapM f xs = Inr ys \<Longrightarrow> x \<in> set xs \<Longrightarrow> \<not> isl (f x)"
  by (induction xs arbitrary: ys) (auto simp: rbind_Inr_iff)

lemma process_ok:
  assumes "process_writes pf r vs = Inr process" and "f \<in> set vs"
  shows "\<not> isl (variable_writes f)" and "\<not> isl (map_acc_write f)" and "\<not> isl (out_writes pf (flat_ports r) f)"
  using assms by (auto simp: process_writes_def rbind_Inr_iff dest: rmapM_ok)

lemma wt_flags_abort:
  assumes "vf_acc f = Acc_wt" "vf_uses_var f" "vf_out f" "vf_p_name f = None"
  shows "isl (out_writes pf flat f)"
  using assms by (simp add: out_writes_def var_p_name_def rbind_def)

lemma wt_vec_abort:
  assumes "vf_acc f = Acc_wt" "vf_uses_var f" "vh_is_vec (vf_t f)"
  shows "isl (variable_writes f)"
  using assms by (cases "vhdl_type_str_slv_2d (vf_t f)") (simp_all add: variable_writes_def rbind_def rassert_def)

lemma char_read_abort:
  assumes "vh_kind (vf_t f) \<in> {V_character, V_string}" "vf_acc f \<in> {Acc_ro, Acc_rc}"
  shows "isl (map_acc_write f)"
  using assms by (auto simp: map_acc_write_def rd_name_def Let_def rbind_def)

lemma numeric_wt_uses_var:
  assumes "RecipeVarFw_init v basic = Inr f" "rr_acc v \<in> {Acc_rw, Acc_wt}" "rt_kind (rr_t v) \<in> {VK_uint, VK_sint}"
  shows "vf_uses_var f"
  using assms by (auto simp: RecipeVarFw_init_def Let_def rbind_Inr_iff ValueTypeVhdl_init_def vhdl_kind_of_def vk_is_num_def
    split: option.splits)



text \<open>With memories but no registers two separators of the port list follow each other.\<close>

lemma mem_ports_double_separator:
  assumes "ports_writes pf r [] = Inr ws" and "rc_mem r \<noteq> []"
  shows "\<exists>pre post. ws = pre @ ['';'', '';'' @ nl] @ post"
  using assms by (auto simp: ports_writes_def rbind_Inr_iff desc_write_def)



text \<open>A recipe with a trigger register of named flags: the software is generated, the firmware is not.\<close>

definition trigger_recipe :: "(string \<times> toml) list" where
  "trigger_recipe =
     clash_recipe [] [TDict [(''name'', TStr ''t''), (''t'', TStr ''b''), (''acc'', TStr ''wt''), (''desc'', TStr ''''),
       (''flags'', TList [tm [(''name'', ''f''), (''desc'', '''')]])]]"

lemma trigger_recipe_accepted:
  "(case Recipe_init example_pf (\<lambda>_. []) trigger_recipe of
     Inl e \<Rightarrow> False | Inr r \<Rightarrow> map (\<lambda>v. (rr_acc v, rr_flags v = None)) (rc_var r) = [(Acc_wt, False)])"
  by code_simp

end
